(* ===== verification/Mipos_Prelude.thy ===== *)
theory Mipos_Prelude
  imports Main "HOL-Library.Word"
begin

text \<open>
  Shared vocabulary of the development: the C integer types the sources use as
  fixed-width words, null pointers, the idiom of a counting \<^verbatim>\<open>for\<close> loop that stops at
  its first hit, and the list, option and word lemmas the components need. The
  collection \<open>mip_simps\<close> holds the unfolding rules of the C constants.
\<close>

unbundle bit_operations_syntax

named_theorems mip_simps \<open>constants of the C headers\<close>

type_synonym u8 = "8 word"
type_synonym u16 = "16 word"
type_synonym u32 = "32 word"
type_synonym u64 = "64 word"

text \<open>A data or function pointer of the 64-bit simulator target; 0 is the null pointer.\<close>

type_synonym ptr = u64

text \<open>
  \<^verbatim>\<open>for (i = lo; i < hi; ++i) if (P(i)) break;\<close> leaves the least hit, or no hit at all.
\<close>

definition first_index :: "(nat \<Rightarrow> bool) \<Rightarrow> nat \<Rightarrow> nat \<Rightarrow> nat option" where
  "first_index P lo hi = List.find P [lo..<hi]"

lemma find_upt_Some:
  "List.find P [lo..<hi] = Some i \<longleftrightarrow> lo \<le> i \<and> i < hi \<and> P i \<and> (\<forall>j. lo \<le> j \<and> j < i \<longrightarrow> \<not> P j)"
proof -
  have "List.find P [lo..<hi] = Some i \<longleftrightarrow>
      (\<exists>n. n < hi - lo \<and> P (lo + n) \<and> i = lo + n \<and> (\<forall>j<n. \<not> P (lo + j)))"
    by (auto simp: find_Some_iff)
  also have "\<dots> \<longleftrightarrow> lo \<le> i \<and> i < hi \<and> P i \<and> (\<forall>j. lo \<le> j \<and> j < i \<longrightarrow> \<not> P j)"
    (is "?L \<longleftrightarrow> ?R")
  proof
    assume ?L
    then obtain n where n: "n < hi - lo" "P (lo + n)" "i = lo + n" "\<forall>j<n. \<not> P (lo + j)"
      by blast
    have "\<not> P j" if "lo \<le> j \<and> j < i" for j
    proof -
      from that n(3) have "j - lo < n" and "lo + (j - lo) = j" by auto
      with n(4) show ?thesis by metis
    qed
    with n show ?R by auto
  next
    assume ?R
    then show ?L by (intro exI [of _ "i - lo"]) auto
  qed
  finally show ?thesis .
qed

lemma first_index_Some:
  "first_index P lo hi = Some i \<longleftrightarrow>
     lo \<le> i \<and> i < hi \<and> P i \<and> (\<forall>j. lo \<le> j \<and> j < i \<longrightarrow> \<not> P j)"
  by (simp add: first_index_def find_upt_Some)

lemma first_index_None: "first_index P lo hi = None \<longleftrightarrow> (\<forall>i. lo \<le> i \<and> i < hi \<longrightarrow> \<not> P i)"
  by (auto simp: first_index_def find_None_iff)

lemma first_index_bounds: "first_index P lo hi = Some i \<Longrightarrow> lo \<le> i \<and> i < hi"
  by (simp add: first_index_Some)

text \<open>Facts on lists updated at one index.\<close>

lemma nth_update_cases:
  "i < length xs \<Longrightarrow> xs[j := v] ! i = (if i = j then v else xs ! i)"
  by (simp add: nth_list_update)

lemma all_update:
  "(\<forall>i<length xs. P i (xs ! i)) \<Longrightarrow> P j v \<Longrightarrow> (\<forall>i<length xs. P i (xs[j := v] ! i))"
  by (metis length_list_update list_update_beyond nth_list_update not_le)

text \<open>Single-bit masks of words.\<close>

lemma and_mask_zero_iff: "(w AND push_bit n 1 = 0) = (\<not> bit (w :: 'a::len word) n)"
proof -
  have "w AND push_bit n 1 = of_bool (bit w n) * push_bit n 1"
    by (rule bit_word_eqI) (auto simp: bit_simps)
  moreover have "push_bit n (1 :: 'a word) \<noteq> 0" if "bit w n"
  proof -
    from that have "n < LENGTH('a)" by (rule bit_imp_le_length)
    then have "bit (push_bit n (1 :: 'a word)) n" by (simp add: bit_simps)
    then show ?thesis by (metis bit_0_eq bot_apply bot_bool_def)
  qed
  ultimately show ?thesis by auto
qed

lemma bit_or_mask: "n < LENGTH('a) \<Longrightarrow>
   bit ((w :: 'a::len word) OR push_bit n 1) m = (bit w m \<or> m = n)"
  by (auto simp: bit_simps)

lemma bit_clear_mask: "n < LENGTH('a) \<Longrightarrow>
   bit ((w :: 'a::len word) AND NOT (push_bit n 1)) m = (bit w m \<and> m \<noteq> n)"
  by (auto simp: bit_simps dest: bit_imp_le_length)

lemma and_not_self_zero: "(w :: 'a::len word) AND NOT m AND m = 0"
  by (rule bit_word_eqI) (auto simp: bit_simps)

lemma or_and_self: "((w :: 'a::len word) OR m) AND m = m"
  by (rule bit_word_eqI) (auto simp: bit_simps)

lemma set_then_clear:
  assumes "s AND f = 0"
  shows "(s OR f) AND NOT f = (s :: 'a::len word)"
proof -
  have "s = (s AND f) OR (s AND NOT f)" by (simp flip: bit.conj_disj_distrib)
  with assms have "s AND NOT f = s" by simp
  then show ?thesis by (simp add: bit.conj_disj_distrib2)
qed

text \<open>Ranges of the C integer types.\<close>

lemma unat_range:
  "unat (a :: u8) < 256" "unat (b :: u16) < 65536" "unat (c :: u32) < 4294967296"
  "unat (d :: u64) < 18446744073709551616"
  using unsigned_less [of a, where ?'a = nat] unsigned_less [of b, where ?'a = nat]
    unsigned_less [of c, where ?'a = nat] unsigned_less [of d, where ?'a = nat]
  by simp_all

end
