(* ===== verification/Mipos_Types.thy ===== *)
theory Mipos_Types
  imports Mipos_Prelude
begin

text \<open>
  The data of the kernel: the limits of \<^verbatim>\<open>mipos_limits.h\<close>, the status and signal
  constants of \<^verbatim>\<open>mipos_kernel.h\<close>, and the structs of \<^verbatim>\<open>mipos_types.h\<close> as records.
  A pointer into \<^verbatim>\<open>task_table\<close> is the index of its entry; function pointers, stacks and
  context cookies are \<open>ptr\<close> values with 0 as the null pointer. A saved register context
  (\<^verbatim>\<open>jmp_buf\<close>) is the program point of the \<^verbatim>\<open>mipos_save_context\<close> call that filled it and
  the signal mask the code after that call resets; \<open>None\<close> is a context never filled.
\<close>

subsection \<open>Limits (mipos_limits.h)\<close>

definition MIPOS_MAX_TASKS_COUNT :: nat where
  [mip_simps]: "MIPOS_MAX_TASKS_COUNT = 7"

definition MIPOS_TASKS_TBL_ENTRIES_CNT :: nat where
  [mip_simps]: "MIPOS_TASKS_TBL_ENTRIES_CNT = 8"

definition MIPOS_MAX_TIMERS_NO :: nat where
  [mip_simps]: "MIPOS_MAX_TIMERS_NO = 4"

definition KERNEL__IDLE_TASK_ID :: nat where
  [mip_simps]: "KERNEL__IDLE_TASK_ID = 0"

subsection \<open>Task status and signals (mipos_kernel.h)\<close>

definition TASK_NOT_RUNNING :: u16 where
  [mip_simps]: "TASK_NOT_RUNNING = 1"

definition TASK_READY :: u16 where
  [mip_simps]: "TASK_READY = 2"

definition TASK_RUNNING :: u16 where
  [mip_simps]: "TASK_RUNNING = 4"

definition TASK_SUSPENDED :: u16 where
  [mip_simps]: "TASK_SUSPENDED = 8"

definition TASK_ZOMBIE :: u16 where
  [mip_simps]: "TASK_ZOMBIE = 16"

definition TASK_FROZEN :: u16 where
  [mip_simps]: "TASK_FROZEN = 32"

definition MIPOS_SIGWKP :: u8 where
  [mip_simps]: "MIPOS_SIGWKP = 1"

definition MIPOS_SIGQUE :: u8 where
  [mip_simps]: "MIPOS_SIGQUE = 2"

definition MIPOS_SIGALM :: u8 where
  [mip_simps]: "MIPOS_SIGALM = 4"

definition MIPOS_SIGTMR :: u8 where
  [mip_simps]: "MIPOS_SIGTMR = 8"

definition SYS_RESERVED_SIGNALS :: u8 where
  "SYS_RESERVED_SIGNALS = MIPOS_SIGWKP OR MIPOS_SIGQUE OR MIPOS_SIGALM OR MIPOS_SIGTMR"

lemma SYS_RESERVED_SIGNALS_eq [mip_simps]: "SYS_RESERVED_SIGNALS = 15"
  by (simp add: SYS_RESERVED_SIGNALS_def mip_simps)

definition TIMER_FLG_PERIODIC :: u64 where
  [mip_simps]: "TIMER_FLG_PERIODIC = 1"

definition TIMER_FLG_EXPIRED :: u64 where
  [mip_simps]: "TIMER_FLG_EXPIRED = 2"

definition TIMER_FLG_CANCELLED :: u64 where
  [mip_simps]: "TIMER_FLG_CANCELLED = 4"

subsection \<open>Structs (mipos_types.h)\<close>

datatype t_create_flags = MIPOS_NO_RT | MIPOS_RT

record task_flag =
  wkup :: bool
  rt_task :: bool
  mbz :: "6 word"

definition no_flags :: task_flag where
  "no_flags = \<lparr>wkup = False, rt_task = False, mbz = 0\<rparr>"

record mipos_task =
  t_name :: string
  t_entry_point :: ptr
  t_ret_value :: u32
  t_param :: ptr
  t_status :: u16
  t_flags :: task_flag
  t_timer_tick_count :: u32
  t_rtc_timeout :: u64
  t_signal_mask :: u8
  t_signal_pending :: u8
  t_signal_waiting :: u8
  t_reg_state :: "(nat \<times> u8) option"
  t_kernel_sp :: u64
  t_process_sp :: u64
  t_stack :: ptr
  t_stack_size :: u64

record mipos_timer =
  tm_on_expire :: ptr
  tm_on_cancel :: ptr
  tm_context :: ptr
  tm_rtc_timeout :: u64
  tm_flgs :: u64
  tm_interval :: u64

record mipos_kernel =
  k_tick_counter :: u64
  k_idle_cbk :: ptr
  k_idle_param :: ptr
  k_rtc_counter :: u64
  k_current_task :: u32
  k_task_context :: "nat option"
  k_task_count :: u32
  k_task_table :: "mipos_task list"
  k_next_rtc_timeout :: u64
  k_timer_bitmap :: u32
  k_timer_table :: "mipos_timer list"

text \<open>The all-zero images that the C runtime gives the static \<^verbatim>\<open>mipos_kernel_env\<close>.\<close>

definition zero_task :: mipos_task where
  "zero_task = \<lparr>t_name = [], t_entry_point = 0, t_ret_value = 0, t_param = 0, t_status = 0,
     t_flags = no_flags, t_timer_tick_count = 0, t_rtc_timeout = 0, t_signal_mask = 0,
     t_signal_pending = 0, t_signal_waiting = 0, t_reg_state = None, t_kernel_sp = 0,
     t_process_sp = 0, t_stack = 0, t_stack_size = 0\<rparr>"

definition zero_timer :: mipos_timer where
  "zero_timer = \<lparr>tm_on_expire = 0, tm_on_cancel = 0, tm_context = 0, tm_rtc_timeout = 0,
     tm_flgs = 0, tm_interval = 0\<rparr>"

definition zero_kernel :: mipos_kernel where
  "zero_kernel = \<lparr>k_tick_counter = 0, k_idle_cbk = 0, k_idle_param = 0, k_rtc_counter = 0,
     k_current_task = 0, k_task_context = None, k_task_count = 0,
     k_task_table = replicate MIPOS_TASKS_TBL_ENTRIES_CNT zero_task,
     k_next_rtc_timeout = 0, k_timer_bitmap = 0,
     k_timer_table = replicate MIPOS_MAX_TIMERS_NO zero_timer\<rparr>"

subsection \<open>Access to the tables\<close>

definition task_of :: "mipos_kernel \<Rightarrow> nat \<Rightarrow> mipos_task" where
  "task_of k i = k_task_table k ! i"

definition upd_task :: "nat \<Rightarrow> (mipos_task \<Rightarrow> mipos_task) \<Rightarrow> mipos_kernel \<Rightarrow> mipos_kernel" where
  "upd_task i f k = k\<lparr>k_task_table := (k_task_table k)[i := f (task_of k i)]\<rparr>"

definition timer_of :: "mipos_kernel \<Rightarrow> nat \<Rightarrow> mipos_timer" where
  "timer_of k i = k_timer_table k ! i"

definition upd_timer :: "nat \<Rightarrow> (mipos_timer \<Rightarrow> mipos_timer) \<Rightarrow> mipos_kernel \<Rightarrow> mipos_kernel" where
  "upd_timer i f k = k\<lparr>k_timer_table := (k_timer_table k)[i := f (timer_of k i)]\<rparr>"

lemma upd_task_sel [simp]:
  "k_tick_counter (upd_task i f k) = k_tick_counter k"
  "k_idle_cbk (upd_task i f k) = k_idle_cbk k"
  "k_idle_param (upd_task i f k) = k_idle_param k"
  "k_rtc_counter (upd_task i f k) = k_rtc_counter k"
  "k_current_task (upd_task i f k) = k_current_task k"
  "k_task_context (upd_task i f k) = k_task_context k"
  "k_task_count (upd_task i f k) = k_task_count k"
  "length (k_task_table (upd_task i f k)) = length (k_task_table k)"
  "k_next_rtc_timeout (upd_task i f k) = k_next_rtc_timeout k"
  "k_timer_bitmap (upd_task i f k) = k_timer_bitmap k"
  "k_timer_table (upd_task i f k) = k_timer_table k"
  "timer_of (upd_task i f k) j = timer_of k j"
  by (simp_all add: upd_task_def timer_of_def)

lemma upd_timer_sel [simp]:
  "k_tick_counter (upd_timer i g k) = k_tick_counter k"
  "k_idle_cbk (upd_timer i g k) = k_idle_cbk k"
  "k_idle_param (upd_timer i g k) = k_idle_param k"
  "k_rtc_counter (upd_timer i g k) = k_rtc_counter k"
  "k_current_task (upd_timer i g k) = k_current_task k"
  "k_task_context (upd_timer i g k) = k_task_context k"
  "k_task_count (upd_timer i g k) = k_task_count k"
  "k_task_table (upd_timer i g k) = k_task_table k"
  "k_next_rtc_timeout (upd_timer i g k) = k_next_rtc_timeout k"
  "k_timer_bitmap (upd_timer i g k) = k_timer_bitmap k"
  "length (k_timer_table (upd_timer i g k)) = length (k_timer_table k)"
  "task_of (upd_timer i g k) j = task_of k j"
  by (simp_all add: upd_timer_def task_of_def)

lemma task_of_upd_task:
  "j < length (k_task_table k) \<Longrightarrow>
     task_of (upd_task i f k) j = (if i = j then f (task_of k j) else task_of k j)"
  by (auto simp: upd_task_def task_of_def nth_list_update)

lemma task_of_upd_task_same [simp]:
  "i < length (k_task_table k) \<Longrightarrow> task_of (upd_task i f k) i = f (task_of k i)"
  by (simp add: task_of_upd_task)

lemma task_of_upd_task_other [simp]: "i \<noteq> j \<Longrightarrow> task_of (upd_task i f k) j = task_of k j"
  by (simp add: upd_task_def task_of_def)

lemma timer_of_upd_timer:
  "j < length (k_timer_table k) \<Longrightarrow>
     timer_of (upd_timer i g k) j = (if i = j then g (timer_of k j) else timer_of k j)"
  by (auto simp: upd_timer_def timer_of_def nth_list_update)

lemma timer_of_upd_timer_same [simp]:
  "i < length (k_timer_table k) \<Longrightarrow> timer_of (upd_timer i g k) i = g (timer_of k i)"
  by (simp add: timer_of_upd_timer)

lemma timer_of_upd_timer_other [simp]: "i \<noteq> j \<Longrightarrow> timer_of (upd_timer i g k) j = timer_of k j"
  by (simp add: upd_timer_def timer_of_def)

lemma task_of_kernel_upd [simp]:
  "task_of (k\<lparr>k_tick_counter := a\<rparr>) i = task_of k i"
  "task_of (k\<lparr>k_rtc_counter := b\<rparr>) i = task_of k i"
  "task_of (k\<lparr>k_current_task := c\<rparr>) i = task_of k i"
  "task_of (k\<lparr>k_task_context := d\<rparr>) i = task_of k i"
  "task_of (k\<lparr>k_next_rtc_timeout := e\<rparr>) i = task_of k i"
  "task_of (k\<lparr>k_timer_bitmap := m\<rparr>) i = task_of k i"
  "task_of (k\<lparr>k_idle_cbk := p\<rparr>) i = task_of k i"
  "task_of (k\<lparr>k_idle_param := q\<rparr>) i = task_of k i"
  by (simp_all add: task_of_def)

lemma timer_of_kernel_upd [simp]:
  "timer_of (k\<lparr>k_tick_counter := a\<rparr>) i = timer_of k i"
  "timer_of (k\<lparr>k_rtc_counter := b\<rparr>) i = timer_of k i"
  "timer_of (k\<lparr>k_current_task := c\<rparr>) i = timer_of k i"
  "timer_of (k\<lparr>k_task_context := d\<rparr>) i = timer_of k i"
  "timer_of (k\<lparr>k_next_rtc_timeout := e\<rparr>) i = timer_of k i"
  "timer_of (k\<lparr>k_timer_bitmap := m\<rparr>) i = timer_of k i"
  "timer_of (k\<lparr>k_idle_cbk := p\<rparr>) i = timer_of k i"
  "timer_of (k\<lparr>k_idle_param := q\<rparr>) i = timer_of k i"
  by (simp_all add: timer_of_def)

end
