(* ===== verification/Mipos_Task.thy ===== *)
theory Mipos_Task
  imports Mipos_Types
begin

text \<open>
  Tasks: \<^verbatim>\<open>mipos_task.c\<close> and the task macros of \<^verbatim>\<open>mipos_kernel.h\<close>. Each operation is a
  function on the kernel state; a blocking macro is split at its context switch into the
  part that runs before the switch (\<open>_enter\<close>) and the part that runs when the saved
  context is resumed (\<^verbatim>\<open>_mipos_t_reset_signal_and_run\<close>). The critical-section macros
  are no-ops on the modelled simulator target. The well-formedness predicate
  \<open>kernel_wf\<close> says what the scheduler relies on, and every operation keeps it.
\<close>

subsection \<open>Operations\<close>

definition t_create_desc ::
    "string \<Rightarrow> ptr \<Rightarrow> ptr \<Rightarrow> t_create_flags \<Rightarrow> mipos_task \<Rightarrow> mipos_task" where
  "t_create_desc name entry param flags t =
     t\<lparr>t_name := name, t_entry_point := entry, t_signal_mask := - 1, t_signal_pending := 0,
       t_signal_waiting := 0, t_timer_tick_count := 0, t_rtc_timeout := 0,
       t_status := TASK_READY, t_param := param,
       t_flags := no_flags\<lparr>rt_task := (flags = MIPOS_RT)\<rparr>\<rparr>"

definition mipos_t_create ::
    "string \<Rightarrow> ptr \<Rightarrow> ptr \<Rightarrow> ptr \<Rightarrow> u64 \<Rightarrow> t_create_flags \<Rightarrow> mipos_kernel \<Rightarrow> u32 \<times> mipos_kernel"
  where
  "mipos_t_create name entry param stack stack_size flags k =
     (case first_index (\<lambda>tid. t_entry_point (task_of k tid) = 0) 1 MIPOS_TASKS_TBL_ENTRIES_CNT of
        Some tid \<Rightarrow>
          (of_nat tid,
           upd_task tid (\<lambda>t. (t_create_desc name entry param flags t)
                              \<lparr>t_stack := stack, t_stack_size := stack_size\<rparr>) k)
      | None \<Rightarrow> (- 1, k))"

definition mipos_get_p_task :: "mipos_kernel \<Rightarrow> u32 \<Rightarrow> nat option" where
  "mipos_get_p_task k tid =
     (if tid = 0 then k_task_context k
      else if 0 < tid \<and> unat tid < MIPOS_TASKS_TBL_ENTRIES_CNT then Some (unat tid)
      else None)"

definition t_delete_desc :: "mipos_task \<Rightarrow> mipos_task" where
  "t_delete_desc t =
     t\<lparr>t_entry_point := 0, t_param := 0, t_signal_mask := 0, t_signal_pending := 0,
       t_signal_waiting := 0, t_status := TASK_NOT_RUNNING, t_flags := no_flags,
       t_timer_tick_count := 0\<rparr>"

text \<open>\<^verbatim>\<open>p_task = _mipos_get_p_task(id); if (p_task) { ... }\<close>, the frame of the task macros.\<close>

definition on_task :: "u32 \<Rightarrow> (mipos_task \<Rightarrow> mipos_task) \<Rightarrow> mipos_kernel \<Rightarrow> mipos_kernel" where
  "on_task tid f k = (case mipos_get_p_task k tid of None \<Rightarrow> k | Some i \<Rightarrow> upd_task i f k)"

definition mipos_t_delete :: "u32 \<Rightarrow> mipos_kernel \<Rightarrow> mipos_kernel" where
  "mipos_t_delete tid k = on_task tid t_delete_desc k"

definition mipos_t_get_status :: "u32 \<Rightarrow> mipos_kernel \<Rightarrow> u16" where
  "mipos_t_get_status tid k =
     (case mipos_get_p_task k tid of None \<Rightarrow> - 1 | Some i \<Rightarrow> t_status (task_of k i))"

definition mipos_t_restart :: "u32 \<Rightarrow> mipos_kernel \<Rightarrow> mipos_kernel" where
  "mipos_t_restart tid k =
     on_task tid (\<lambda>t. if t_entry_point t \<noteq> 0 \<and> t_status t = TASK_ZOMBIE
                     then t\<lparr>t_status := TASK_READY\<rparr> else t) k"

definition mipos_t_restart_with_param :: "u32 \<Rightarrow> ptr \<Rightarrow> mipos_kernel \<Rightarrow> mipos_kernel" where
  "mipos_t_restart_with_param tid new_param k =
     on_task tid (\<lambda>t. if t_entry_point t \<noteq> 0 \<and> t_status t = TASK_ZOMBIE
                     then t\<lparr>t_status := TASK_READY, t_param := new_param\<rparr> else t) k"

definition mipos_t_notify_signal :: "u32 \<Rightarrow> u8 \<Rightarrow> mipos_kernel \<Rightarrow> mipos_kernel" where
  "mipos_t_notify_signal tid signum k =
     on_task tid (\<lambda>t. t\<lparr>t_signal_pending := t_signal_pending t OR (signum AND t_signal_mask t)\<rparr>) k"

definition mipos_t_resume :: "u32 \<Rightarrow> mipos_kernel \<Rightarrow> mipos_kernel" where
  "mipos_t_resume tid k = mipos_t_notify_signal tid MIPOS_SIGWKP k"

definition mipos_t_freeze :: "u32 \<Rightarrow> mipos_kernel \<Rightarrow> mipos_kernel" where
  "mipos_t_freeze tid k = on_task tid (\<lambda>t. t\<lparr>t_status := t_status t OR TASK_FROZEN\<rparr>) k"

definition mipos_t_unfreeze :: "u32 \<Rightarrow> mipos_kernel \<Rightarrow> mipos_kernel" where
  "mipos_t_unfreeze tid k = on_task tid (\<lambda>t. t\<lparr>t_status := t_status t AND NOT TASK_FROZEN\<rparr>) k"

definition mipos_t_sig_ignore :: "u32 \<Rightarrow> u8 \<Rightarrow> mipos_kernel \<Rightarrow> mipos_kernel" where
  "mipos_t_sig_ignore tid signum k =
     on_task tid (\<lambda>t. t\<lparr>t_signal_mask :=
       t_signal_mask t AND NOT (signum AND NOT SYS_RESERVED_SIGNALS)\<rparr>) k"

definition mipos_t_sig_allow :: "u32 \<Rightarrow> u8 \<Rightarrow> mipos_kernel \<Rightarrow> mipos_kernel" where
  "mipos_t_sig_allow tid signum k =
     on_task tid (\<lambda>t. t\<lparr>t_signal_mask :=
       t_signal_mask t OR (signum AND NOT SYS_RESERVED_SIGNALS)\<rparr>) k"

definition mipos_get_rtc_counter :: "mipos_kernel \<Rightarrow> u64" where
  "mipos_get_rtc_counter k = k_rtc_counter k"

definition mipos_set_idle_cbk :: "ptr \<Rightarrow> ptr \<Rightarrow> mipos_kernel \<Rightarrow> mipos_kernel" where
  "mipos_set_idle_cbk cbk param k = k\<lparr>k_idle_cbk := cbk, k_idle_param := param\<rparr>"

definition mipos_update_rtc :: "u32 \<Rightarrow> mipos_kernel \<Rightarrow> mipos_kernel" where
  "mipos_update_rtc quantum k = k\<lparr>k_rtc_counter := k_rtc_counter k + ucast quantum\<rparr>"

subsection \<open>Blocking macros\<close>

text \<open>
  They all act on \<^verbatim>\<open>mipos_kernel_env.task_context_ptr\<close>; the result is \<open>None\<close> when that
  pointer is null.
\<close>

definition on_context :: "(mipos_task \<Rightarrow> mipos_task) \<Rightarrow> mipos_kernel \<Rightarrow> mipos_kernel option" where
  "on_context f k = map_option (\<lambda>c. upd_task c f k) (k_task_context k)"

definition t_reset_signal_and_run :: "u8 \<Rightarrow> mipos_task \<Rightarrow> mipos_task" where
  "t_reset_signal_and_run signum t =
     t\<lparr>t_status := TASK_RUNNING,
       t_signal_waiting := t_signal_waiting t AND NOT signum,
       t_signal_pending := t_signal_pending t AND NOT signum\<rparr>"

definition t_set_wait_for_signal :: "u8 \<Rightarrow> mipos_task \<Rightarrow> mipos_task" where
  "t_set_wait_for_signal signum t =
     (let t1 = t\<lparr>t_signal_waiting := t_signal_waiting t OR signum\<rparr>
      in if t_status t1 AND (TASK_READY OR TASK_RUNNING OR TASK_SUSPENDED) \<noteq> 0
         then t1\<lparr>t_status := TASK_SUSPENDED\<rparr> else t1)"

definition t_suspend_enter :: "nat \<Rightarrow> u64 \<Rightarrow> u8 \<Rightarrow> mipos_kernel \<Rightarrow> mipos_kernel option" where
  "t_suspend_enter pc sp signum =
     on_context (\<lambda>t. t_set_wait_for_signal signum
       (t\<lparr>t_reg_state := Some (pc, signum), t_process_sp := sp\<rparr>))"

definition tm_wkafter_enter :: "nat \<Rightarrow> u64 \<Rightarrow> u8 \<Rightarrow> u32 \<Rightarrow> mipos_kernel \<Rightarrow> mipos_kernel option" where
  "tm_wkafter_enter pc sp signum count =
     on_context (\<lambda>t. (t_set_wait_for_signal signum
       (t\<lparr>t_reg_state := Some (pc, signum), t_process_sp := sp\<rparr>))\<lparr>t_timer_tick_count := count\<rparr>)"

definition tm_rtc_quantum_sleep_enter ::
    "nat \<Rightarrow> u64 \<Rightarrow> u8 \<Rightarrow> u32 \<Rightarrow> mipos_kernel \<Rightarrow> mipos_kernel option" where
  "tm_rtc_quantum_sleep_enter pc sp signum count k =
     on_context (\<lambda>t. (t_set_wait_for_signal signum (t\<lparr>t_reg_state := Some (pc, signum)\<rparr>))
       \<lparr>t_rtc_timeout := k_rtc_counter k + ucast count, t_process_sp := sp\<rparr>) k"

definition mipos_t_suspend :: "nat \<Rightarrow> u64 \<Rightarrow> mipos_kernel \<Rightarrow> mipos_kernel option" where
  "mipos_t_suspend pc sp = t_suspend_enter pc sp MIPOS_SIGWKP"

definition mipos_t_waitfor_signal :: "nat \<Rightarrow> u64 \<Rightarrow> u8 \<Rightarrow> mipos_kernel \<Rightarrow> mipos_kernel option" where
  "mipos_t_waitfor_signal pc sp signum =
     t_suspend_enter pc sp (signum AND NOT SYS_RESERVED_SIGNALS)"

definition mipos_tm_wkafter :: "nat \<Rightarrow> u64 \<Rightarrow> u32 \<Rightarrow> mipos_kernel \<Rightarrow> mipos_kernel option" where
  "mipos_tm_wkafter pc sp count = tm_wkafter_enter pc sp MIPOS_SIGALM count"

definition mipos_tm_msleep :: "nat \<Rightarrow> u64 \<Rightarrow> u32 \<Rightarrow> mipos_kernel \<Rightarrow> mipos_kernel option" where
  "mipos_tm_msleep pc sp count = tm_rtc_quantum_sleep_enter pc sp MIPOS_SIGTMR count"

subsection \<open>Well-formed task tables\<close>

definition status_ok :: "u16 \<Rightarrow> bool" where
  "status_ok s \<longleftrightarrow>
     s \<in> {TASK_NOT_RUNNING, TASK_READY, TASK_RUNNING, TASK_SUSPENDED, TASK_ZOMBIE,
          TASK_NOT_RUNNING OR TASK_FROZEN, TASK_READY OR TASK_FROZEN, TASK_RUNNING OR TASK_FROZEN,
          TASK_SUSPENDED OR TASK_FROZEN, TASK_ZOMBIE OR TASK_FROZEN}"

definition task_wf :: "mipos_task \<Rightarrow> bool" where
  "task_wf t \<longleftrightarrow> status_ok (t_status t) \<and> (rt_task (t_flags t) \<longrightarrow> t_entry_point t \<noteq> 0)"

definition idle_wf :: "mipos_task \<Rightarrow> bool" where
  "idle_wf t \<longleftrightarrow> t_entry_point t \<noteq> 0 \<and> \<not> rt_task (t_flags t) \<and> t_status t = TASK_READY"

definition tasks_wf :: "mipos_kernel \<Rightarrow> bool" where
  "tasks_wf k \<longleftrightarrow>
     length (k_task_table k) = MIPOS_TASKS_TBL_ENTRIES_CNT \<and>
     (\<forall>i < MIPOS_TASKS_TBL_ENTRIES_CNT. task_wf (task_of k i)) \<and>
     idle_wf (task_of k KERNEL__IDLE_TASK_ID) \<and>
     (\<exists>c < MIPOS_TASKS_TBL_ENTRIES_CNT. k_task_context k = Some c)"

text \<open>A task other than idle owns \<^verbatim>\<open>task_context_ptr\<close>: true from the first dispatch on.\<close>

definition user_context :: "mipos_kernel \<Rightarrow> bool" where
  "user_context k \<longleftrightarrow> k_task_context k \<noteq> Some KERNEL__IDLE_TASK_ID"

lemma status_ok_cases [mip_simps]:
  "status_ok s \<longleftrightarrow> s \<in> {1, 2, 4, 8, 16, 33, 34, 36, 40, 48}"
  by (simp add: status_ok_def mip_simps)

lemma status_ok_freeze [intro]: "status_ok s \<Longrightarrow> status_ok (s OR TASK_FROZEN)"
  by (auto simp: mip_simps)

lemma status_ok_unfreeze [intro]: "status_ok s \<Longrightarrow> status_ok (s AND NOT TASK_FROZEN)"
  by (auto simp: mip_simps)

lemma status_ok_basic [simp]:
  "status_ok TASK_NOT_RUNNING" "status_ok TASK_READY" "status_ok TASK_RUNNING"
  "status_ok TASK_SUSPENDED" "status_ok TASK_ZOMBIE"
  by (simp_all add: status_ok_def)

lemma tasks_wf_length [simp]: "tasks_wf k \<Longrightarrow> length (k_task_table k) = 8"
  by (simp add: tasks_wf_def mip_simps)

lemma tasks_wf_task: "tasks_wf k \<Longrightarrow> i < 8 \<Longrightarrow> task_wf (task_of k i)"
  by (simp add: tasks_wf_def mip_simps)

lemma tasks_wf_idle: "tasks_wf k \<Longrightarrow> idle_wf (task_of k 0)"
  by (simp add: tasks_wf_def mip_simps)

lemma tasks_wf_context: "tasks_wf k \<Longrightarrow> \<exists>c < 8. k_task_context k = Some c"
  by (simp add: tasks_wf_def mip_simps)

lemma upd_task_wf:
  assumes "tasks_wf k" "i \<noteq> 0" "task_wf (task_of k i) \<Longrightarrow> task_wf (f (task_of k i))"
  shows "tasks_wf (upd_task i f k)"
proof -
  have "task_wf (task_of (upd_task i f k) j)" if "j < 8" for j
    using assms that by (cases "i = j") (simp_all add: tasks_wf_task)
  with assms show ?thesis
    by (simp add: tasks_wf_def mip_simps)
qed

lemma unat_slot: "i < 8 \<Longrightarrow> unat (of_nat i :: u32) = i"
  by (simp add: unat_of_nat)

lemma slot_nonzero: "0 < i \<Longrightarrow> i < 8 \<Longrightarrow> of_nat i \<noteq> (0 :: u32)"
  using unat_slot [of i] by auto

lemma get_p_task_id: "tid \<noteq> 0 \<Longrightarrow> unat tid < 8 \<Longrightarrow> mipos_get_p_task k tid = Some (unat tid)"
  by (simp add: mipos_get_p_task_def mip_simps word_gt_0)

lemma get_p_task_user:
  "user_context k \<Longrightarrow> mipos_get_p_task k tid = Some i \<Longrightarrow> i \<noteq> 0"
  by (auto simp: mipos_get_p_task_def user_context_def mip_simps unat_gt_0 split: if_splits)

lemma on_task_wf:
  assumes "tasks_wf k" "user_context k" "\<And>t. task_wf t \<Longrightarrow> task_wf (f t)"
  shows "tasks_wf (on_task tid f k)"
  using assms by (auto simp: on_task_def intro: upd_task_wf dest: get_p_task_user split: option.split)

lemma on_task_context [simp]: "k_task_context (on_task tid f k) = k_task_context k"
  by (simp add: on_task_def split: option.split)

lemma on_task_sel [simp]:
  "k_timer_table (on_task tid f k) = k_timer_table k"
  "k_timer_bitmap (on_task tid f k) = k_timer_bitmap k"
  "k_next_rtc_timeout (on_task tid f k) = k_next_rtc_timeout k"
  "k_rtc_counter (on_task tid f k) = k_rtc_counter k"
  "k_current_task (on_task tid f k) = k_current_task k"
  "k_idle_cbk (on_task tid f k) = k_idle_cbk k"
  "length (k_task_table (on_task tid f k)) = length (k_task_table k)"
  by (simp_all add: on_task_def split: option.split)

lemma user_context_on_task [simp]: "user_context (on_task tid f k) = user_context k"
  by (simp add: user_context_def)

lemmas task_op_defs = mipos_t_delete_def mipos_t_restart_def mipos_t_restart_with_param_def
  mipos_t_notify_signal_def mipos_t_resume_def mipos_t_freeze_def mipos_t_unfreeze_def
  mipos_t_sig_ignore_def mipos_t_sig_allow_def

lemma task_ops_wf:
  assumes "tasks_wf k" "user_context k"
  shows "tasks_wf (mipos_t_delete tid k)"
    and "tasks_wf (mipos_t_restart tid k)"
    and "tasks_wf (mipos_t_restart_with_param tid p k)"
    and "tasks_wf (mipos_t_notify_signal tid sg k)"
    and "tasks_wf (mipos_t_freeze tid k)"
    and "tasks_wf (mipos_t_unfreeze tid k)"
    and "tasks_wf (mipos_t_sig_ignore tid sg k)"
    and "tasks_wf (mipos_t_sig_allow tid sg k)"
  unfolding task_op_defs
  by (rule on_task_wf [OF assms]; force simp: task_wf_def t_delete_desc_def no_flags_def)+

lemma mipos_t_create_wf:
  assumes "tasks_wf k" "entry \<noteq> 0"
  shows "tasks_wf (snd (mipos_t_create name entry param stack sz flags k))"
  using assms
  by (auto simp: mipos_t_create_def first_index_Some task_wf_def t_create_desc_def
      split: option.split intro!: upd_task_wf)

lemma mipos_t_create_sel [simp]:
  "k_task_context (snd (mipos_t_create name entry param stack sz flags k)) = k_task_context k"
  "k_timer_table (snd (mipos_t_create name entry param stack sz flags k)) = k_timer_table k"
  "k_timer_bitmap (snd (mipos_t_create name entry param stack sz flags k)) = k_timer_bitmap k"
  "k_next_rtc_timeout (snd (mipos_t_create name entry param stack sz flags k)) = k_next_rtc_timeout k"
  "k_current_task (snd (mipos_t_create name entry param stack sz flags k)) = k_current_task k"
  "k_rtc_counter (snd (mipos_t_create name entry param stack sz flags k)) = k_rtc_counter k"
  "k_idle_cbk (snd (mipos_t_create name entry param stack sz flags k)) = k_idle_cbk k"
  by (simp_all add: mipos_t_create_def split: option.split)

lemma set_wait_wf: "task_wf t \<Longrightarrow> task_wf (t_set_wait_for_signal sg t)"
  by (simp add: task_wf_def t_set_wait_for_signal_def Let_def)

lemma on_context_wf:
  assumes "tasks_wf k" "user_context k" "\<And>t. task_wf t \<Longrightarrow> task_wf (f t)"
  shows "\<exists>k'. on_context f k = Some k' \<and> tasks_wf k' \<and> k_task_context k' = k_task_context k"
  using tasks_wf_context [OF assms(1)] assms
  by (auto simp: on_context_def user_context_def mip_simps intro!: upd_task_wf)

end
