(* ===== verification/Mipos_Timer.thy ===== *)
theory Mipos_Timer
  imports Mipos_Task
begin

text \<open>
  Soft timers: the four operations of \<^verbatim>\<open>mipos_timer.c\<close>. A timer is active when its bit in
  \<^verbatim>\<open>timer_bitmap\<close> is set; a slot is free when it has no on-expire handler. The scheduler
  looks at the timers only when \<^verbatim>\<open>next_rtc_timeout\<close> is 0 or has been reached, so
  \<open>next_bound\<close> (no active timer is due before \<^verbatim>\<open>next_rtc_timeout\<close>) is what makes every
  expiry seen in time.
\<close>

definition timer_mask :: "nat \<Rightarrow> u32" where
  "timer_mask tid = push_bit tid 1"

definition mipos_timer_start ::
    "ptr \<Rightarrow> ptr \<Rightarrow> u64 \<Rightarrow> ptr \<Rightarrow> bool \<Rightarrow> mipos_kernel \<Rightarrow> int \<times> mipos_kernel" where
  "mipos_timer_start on_expire on_cancel interval context periodic k =
     (if on_expire = 0 then (- 1, k)
      else case first_index (\<lambda>tid. tm_on_expire (timer_of k tid) = 0) 0 MIPOS_MAX_TIMERS_NO of
        None \<Rightarrow> (- 1, k)
      | Some tid \<Rightarrow>
          let timeout = mipos_get_rtc_counter k + interval;
              k1 = upd_timer tid (\<lambda>p. p\<lparr>tm_rtc_timeout := timeout\<rparr>)
                     (k\<lparr>k_timer_bitmap := k_timer_bitmap k OR timer_mask tid\<rparr>);
              k2 = (if k_next_rtc_timeout k1 = 0 \<or> k_next_rtc_timeout k1 > timeout
                    then k1\<lparr>k_next_rtc_timeout := timeout\<rparr> else k1)
          in (int tid,
              upd_timer tid (\<lambda>p. p\<lparr>tm_flgs := (if periodic then TIMER_FLG_PERIODIC else 0),
                tm_on_expire := on_expire, tm_on_cancel := on_cancel,
                tm_context := context, tm_interval := interval\<rparr>) k2))"

definition mipos_timer_cancel :: "int \<Rightarrow> mipos_kernel \<Rightarrow> int \<times> mipos_kernel" where
  "mipos_timer_cancel tid k =
     (if tid < 0 \<or> tid \<ge> int MIPOS_MAX_TIMERS_NO then (- 1, k)
      else if k_timer_bitmap k AND timer_mask (nat tid) \<noteq> 0
      then (0, (upd_timer (nat tid) (\<lambda>p. p\<lparr>tm_flgs := tm_flgs p OR TIMER_FLG_CANCELLED\<rparr>) k)
                 \<lparr>k_next_rtc_timeout := 0\<rparr>)
      else (- 1, k))"

definition mipos_timer_delete :: "int \<Rightarrow> mipos_kernel \<Rightarrow> int \<times> mipos_kernel" where
  "mipos_timer_delete tid k =
     (if tid < 0 \<or> tid \<ge> int MIPOS_MAX_TIMERS_NO then (- 1, k)
      else (0, (upd_timer (nat tid) (\<lambda>p. p\<lparr>tm_on_expire := 0, tm_on_cancel := 0,
                   tm_context := 0, tm_rtc_timeout := 0, tm_flgs := 0\<rparr>) k)
                 \<lparr>k_timer_bitmap := k_timer_bitmap k AND NOT (timer_mask (nat tid))\<rparr>))"

text \<open>
  \<^verbatim>\<open>mipos_timer_restart\<close> checks no upper bound on its argument; \<open>None\<close> is the access
  past the end of \<^verbatim>\<open>timer_table\<close>.
\<close>

definition mipos_timer_restart :: "int \<Rightarrow> u64 \<Rightarrow> mipos_kernel \<Rightarrow> (int \<times> mipos_kernel) option" where
  "mipos_timer_restart tid new_interval k =
     (if tid < 0 then Some (- 1, k)
      else if tid \<ge> int (length (k_timer_table k)) then None
      else let p = timer_of k (nat tid) in
        if tm_flgs p AND TIMER_FLG_PERIODIC = 0 \<and> tm_flgs p AND TIMER_FLG_EXPIRED \<noteq> 0
        then let interval = (if new_interval > 0 then new_interval else tm_interval p) in
          Some (0, upd_timer (nat tid) (\<lambda>p. p\<lparr>tm_flgs := tm_flgs p AND NOT TIMER_FLG_EXPIRED,
            tm_interval := interval,
            tm_rtc_timeout := mipos_get_rtc_counter k + interval\<rparr>) k)
        else Some (- 1, k))"

subsection \<open>Invariants of the timer table\<close>

definition timers_wf :: "mipos_kernel \<Rightarrow> bool" where
  "timers_wf k \<longleftrightarrow>
     length (k_timer_table k) = MIPOS_MAX_TIMERS_NO \<and>
     (\<forall>n. bit (k_timer_bitmap k) n \<longrightarrow>
        n < MIPOS_MAX_TIMERS_NO \<and> tm_on_expire (timer_of k n) \<noteq> 0)"

definition next_bound :: "mipos_kernel \<Rightarrow> bool" where
  "next_bound k \<longleftrightarrow>
     (\<forall>n. bit (k_timer_bitmap k) n \<longrightarrow> k_next_rtc_timeout k \<le> tm_rtc_timeout (timer_of k n))"

lemma timers_wf_length [simp]: "timers_wf k \<Longrightarrow> length (k_timer_table k) = 4"
  by (simp add: timers_wf_def mip_simps)

lemma timers_wf_code [code]:
  "timers_wf k \<longleftrightarrow>
     length (k_timer_table k) = MIPOS_MAX_TIMERS_NO \<and>
     (\<forall>n < 32. bit (k_timer_bitmap k) n \<longrightarrow>
        n < MIPOS_MAX_TIMERS_NO \<and> tm_on_expire (timer_of k n) \<noteq> 0)"
  using bit_imp_le_length [of "k_timer_bitmap k"] by (auto simp: timers_wf_def)

lemma next_bound_code [code]:
  "next_bound k \<longleftrightarrow>
     (\<forall>n < 32. bit (k_timer_bitmap k) n \<longrightarrow> k_next_rtc_timeout k \<le> tm_rtc_timeout (timer_of k n))"
  using bit_imp_le_length [of "k_timer_bitmap k"] by (auto simp: next_bound_def)

lemma timer_mask_bits:
  "tid < 32 \<Longrightarrow> bit (w OR timer_mask tid) n = (bit w n \<or> n = tid)"
  "tid < 32 \<Longrightarrow> bit (w AND NOT (timer_mask tid)) n = (bit w n \<and> n \<noteq> tid)"
  "(w AND timer_mask tid = 0) = (\<not> bit w tid)"
  unfolding timer_mask_def
  by (rule bit_or_mask bit_clear_mask and_mask_zero_iff; simp)+

abbreviation free_timer :: "mipos_kernel \<Rightarrow> nat option" where
  "free_timer k \<equiv> first_index (\<lambda>tid. tm_on_expire (timer_of k tid) = 0) 0 MIPOS_MAX_TIMERS_NO"

lemma timer_start_fails:
  "he = 0 \<or> free_timer k = None \<Longrightarrow> mipos_timer_start he hc iv ctx per k = (- 1, k)"
  by (auto simp: mipos_timer_start_def)

lemma timer_start_slot:
  assumes "he \<noteq> 0" "free_timer k = Some tid" "length (k_timer_table k) = 4"
  shows "fst (mipos_timer_start he hc iv ctx per k) = int tid"
    and "timer_of (snd (mipos_timer_start he hc iv ctx per k)) n =
      (if n = tid then \<lparr>tm_on_expire = he, tm_on_cancel = hc, tm_context = ctx,
         tm_rtc_timeout = k_rtc_counter k + iv,
         tm_flgs = (if per then TIMER_FLG_PERIODIC else 0), tm_interval = iv\<rparr>
       else timer_of k n)"
    and "k_timer_bitmap (snd (mipos_timer_start he hc iv ctx per k)) =
      k_timer_bitmap k OR timer_mask tid"
    and "k_next_rtc_timeout (snd (mipos_timer_start he hc iv ctx per k)) =
      (if k_next_rtc_timeout k = 0 \<or> k_next_rtc_timeout k > k_rtc_counter k + iv
       then k_rtc_counter k + iv else k_next_rtc_timeout k)"
    and "length (k_timer_table (snd (mipos_timer_start he hc iv ctx per k))) = 4"
proof -
  have lt: "tid < 4" using assms(2) by (simp add: first_index_Some mip_simps)
  show "timer_of (snd (mipos_timer_start he hc iv ctx per k)) n =
      (if n = tid then \<lparr>tm_on_expire = he, tm_on_cancel = hc, tm_context = ctx,
         tm_rtc_timeout = k_rtc_counter k + iv,
         tm_flgs = (if per then TIMER_FLG_PERIODIC else 0), tm_interval = iv\<rparr>
       else timer_of k n)"
    using assms lt
    by (simp add: mipos_timer_start_def mipos_get_rtc_counter_def Let_def timer_of_upd_timer)
qed (use assms in \<open>simp_all add: mipos_timer_start_def mipos_get_rtc_counter_def Let_def\<close>)

lemma timer_start_wf:
  assumes "timers_wf k"
  shows "timers_wf (snd (mipos_timer_start he hc iv ctx per k))"
proof (cases "he = 0 \<or> free_timer k = None")
  case True
  with assms show ?thesis by (simp add: timer_start_fails)
next
  case False
  then obtain tid where slot: "he \<noteq> 0" "free_timer k = Some tid" by blast
  then have "tid < 4" by (simp add: first_index_Some mip_simps)
  with assms show ?thesis
    by (simp add: timers_wf_def timer_start_slot [OF slot] timer_mask_bits mip_simps slot(1))
qed

lemma timer_cancel_wf:
  assumes "timers_wf k"
  shows "timers_wf (snd (mipos_timer_cancel tid k))"
  using assms
  by (auto simp: mipos_timer_cancel_def timers_wf_def mip_simps timer_mask_bits timer_of_upd_timer)

lemma timer_delete_wf:
  assumes "timers_wf k"
  shows "timers_wf (snd (mipos_timer_delete tid k))"
  using assms
  by (auto simp: mipos_timer_delete_def timers_wf_def mip_simps timer_mask_bits timer_of_upd_timer)

lemma timer_restart_wf:
  assumes "timers_wf k" "mipos_timer_restart tid iv k = Some (r, k')"
  shows "timers_wf k'"
  using assms
  by (auto simp: mipos_timer_restart_def timers_wf_def Let_def timer_of_upd_timer mip_simps
      split: if_splits)

lemma timer_start_frame [simp]:
  "k_task_table (snd (mipos_timer_start he hc iv ctx per k)) = k_task_table k"
  "k_task_context (snd (mipos_timer_start he hc iv ctx per k)) = k_task_context k"
  "k_current_task (snd (mipos_timer_start he hc iv ctx per k)) = k_current_task k"
  "k_rtc_counter (snd (mipos_timer_start he hc iv ctx per k)) = k_rtc_counter k"
  by (simp_all add: mipos_timer_start_def Let_def split: option.split)

lemma timer_cancel_frame [simp]:
  "k_task_table (snd (mipos_timer_cancel tid k)) = k_task_table k"
  "k_task_context (snd (mipos_timer_cancel tid k)) = k_task_context k"
  "k_current_task (snd (mipos_timer_cancel tid k)) = k_current_task k"
  "k_rtc_counter (snd (mipos_timer_cancel tid k)) = k_rtc_counter k"
  by (simp_all add: mipos_timer_cancel_def)

lemma timer_delete_frame [simp]:
  "k_task_table (snd (mipos_timer_delete tid k)) = k_task_table k"
  "k_task_context (snd (mipos_timer_delete tid k)) = k_task_context k"
  "k_current_task (snd (mipos_timer_delete tid k)) = k_current_task k"
  "k_rtc_counter (snd (mipos_timer_delete tid k)) = k_rtc_counter k"
  by (simp_all add: mipos_timer_delete_def)

lemma timer_restart_frame:
  assumes "mipos_timer_restart tid iv k = Some (r, k')"
  shows "k_task_table k' = k_task_table k" "k_task_context k' = k_task_context k"
    "k_current_task k' = k_current_task k" "k_rtc_counter k' = k_rtc_counter k"
    "k_timer_bitmap k' = k_timer_bitmap k"
  using assms by (auto simp: mipos_timer_restart_def Let_def split: if_splits)

end
