(* ===== verification/Mipos_Kernel.thy ===== *)
theory Mipos_Kernel
  imports Mipos_Timer "HOL-Library.Monad_Syntax"
begin

text \<open>
  The scheduler of \<^verbatim>\<open>mipos_kernel.c\<close>: \<^verbatim>\<open>scheduler_init\<close>, one turn of the endless
  \<^verbatim>\<open>scheduler:\<close> loop of \<^verbatim>\<open>mipos_start\<close> (soft timers, search for a task, task state
  machine, dispatcher), and the interleaving of those turns with the running tasks as a
  step relation. Application code (timer handlers, the idle callback, real-time
  routines) reaches the kernel only through its API, so a call of it is the list of API
  calls it makes. \<open>None\<close> is a null or wild access, or a loop that does not end.
\<close>

subsection \<open>API calls\<close>

datatype syscall =
    SysCreate string ptr ptr ptr u64 t_create_flags
  | SysDelete u32
  | SysRestart u32
  | SysRestartWithParam u32 ptr
  | SysNotify u32 u8
  | SysFreeze u32
  | SysUnfreeze u32
  | SysSigIgnore u32 u8
  | SysSigAllow u32 u8
  | SysTimerStart ptr ptr u64 ptr bool
  | SysTimerCancel int
  | SysTimerDelete int
  | SysTimerRestart int u64
  | SysSetIdleCbk ptr ptr

fun exec_syscall :: "syscall \<Rightarrow> mipos_kernel \<Rightarrow> mipos_kernel option" where
  "exec_syscall (SysCreate name entry param stack sz flags) k =
     Some (snd (mipos_t_create name entry param stack sz flags k))"
| "exec_syscall (SysDelete tid) k = Some (mipos_t_delete tid k)"
| "exec_syscall (SysRestart tid) k = Some (mipos_t_restart tid k)"
| "exec_syscall (SysRestartWithParam tid p) k = Some (mipos_t_restart_with_param tid p k)"
| "exec_syscall (SysNotify tid sg) k = Some (mipos_t_notify_signal tid sg k)"
| "exec_syscall (SysFreeze tid) k = Some (mipos_t_freeze tid k)"
| "exec_syscall (SysUnfreeze tid) k = Some (mipos_t_unfreeze tid k)"
| "exec_syscall (SysSigIgnore tid sg) k = Some (mipos_t_sig_ignore tid sg k)"
| "exec_syscall (SysSigAllow tid sg) k = Some (mipos_t_sig_allow tid sg k)"
| "exec_syscall (SysTimerStart he hc iv ctx per) k = Some (snd (mipos_timer_start he hc iv ctx per k))"
| "exec_syscall (SysTimerCancel tid) k = Some (snd (mipos_timer_cancel tid k))"
| "exec_syscall (SysTimerDelete tid) k = Some (snd (mipos_timer_delete tid k))"
| "exec_syscall (SysTimerRestart tid iv) k = map_option snd (mipos_timer_restart tid iv k)"
| "exec_syscall (SysSetIdleCbk cbk param) k = Some (mipos_set_idle_cbk cbk param k)"

primrec run_ops :: "('op \<Rightarrow> 's \<Rightarrow> 's option) \<Rightarrow> 'op list \<Rightarrow> 's \<Rightarrow> 's option" where
  "run_ops ex [] s = Some s"
| "run_ops ex (c # cs) s = do { s1 \<leftarrow> ex c s; run_ops ex cs s1 }"

text \<open>
  The calls whose arguments the kernel can use, which it does not check itself: a new task
  has an entry point, and the timer to restart is a slot of the table.
\<close>

fun syscall_ok :: "syscall \<Rightarrow> bool" where
  "syscall_ok (SysCreate name entry param stack sz flags) = (entry \<noteq> 0)"
| "syscall_ok (SysTimerRestart tid iv) = (tid < int MIPOS_MAX_TIMERS_NO)"
| "syscall_ok _ = True"

record user_code =
  u_callback :: "ptr \<Rightarrow> ptr \<Rightarrow> mipos_kernel \<Rightarrow> syscall list"
  u_rt :: "ptr \<Rightarrow> ptr \<Rightarrow> mipos_kernel \<Rightarrow> syscall list \<times> u32"

definition MIPOS_CALL1 :: "user_code \<Rightarrow> ptr \<Rightarrow> ptr \<Rightarrow> mipos_kernel \<Rightarrow> mipos_kernel option" where
  "MIPOS_CALL1 u fn arg k = (if fn = 0 then None else run_ops exec_syscall (u_callback u fn arg k) k)"

subsection \<open>Initialisation\<close>

text \<open>The address of the static function \<^verbatim>\<open>idle_task\<close>; any non-null value.\<close>

definition idle_task_entry :: ptr where
  "idle_task_entry = 1"

definition timer_clear :: "mipos_timer \<Rightarrow> mipos_timer" where
  "timer_clear p = p\<lparr>tm_on_expire := 0, tm_on_cancel := 0, tm_context := 0, tm_rtc_timeout := 0,
     tm_flgs := 0\<rparr>"

definition scheduler_init :: "mipos_kernel \<Rightarrow> mipos_kernel" where
  "scheduler_init k =
     (let k1 = k\<lparr>k_task_count := 1, k_current_task := of_nat KERNEL__IDLE_TASK_ID,
                 k_tick_counter := 0, k_rtc_counter := 0,
                 k_task_context := Some KERNEL__IDLE_TASK_ID\<rparr>;
          k2 = upd_task KERNEL__IDLE_TASK_ID
                 (\<lambda>t. (t_create_desc ''idle'' idle_task_entry 0 MIPOS_NO_RT t)
                        \<lparr>t_status := TASK_READY, t_signal_mask := 0\<rparr>) k1;
          k3 = k2\<lparr>k_idle_cbk := 0, k_idle_param := 0\<rparr>;
          k4 = fold (\<lambda>i. upd_task i t_delete_desc)
                 [KERNEL__IDLE_TASK_ID + 1 ..< MIPOS_TASKS_TBL_ENTRIES_CNT] k3;
          k5 = k4\<lparr>k_timer_bitmap := 0, k_next_rtc_timeout := 0\<rparr>
      in fold (\<lambda>i. upd_timer i timer_clear) [0..<MIPOS_MAX_TIMERS_NO] k5)"

definition mipos_start_init :: "ptr \<Rightarrow> ptr \<Rightarrow> ptr \<Rightarrow> u64 \<Rightarrow> mipos_kernel \<Rightarrow> mipos_kernel" where
  "mipos_start_init root_task root_param stack stack_size k =
     snd (mipos_t_create ''root'' root_task root_param stack stack_size MIPOS_NO_RT
            (scheduler_init k))"

subsection \<open>Soft timers\<close>

definition timer_visit :: "user_code \<Rightarrow> nat \<Rightarrow> mipos_kernel \<Rightarrow> mipos_kernel option" where
  "timer_visit u tid k =
     (let tmask = timer_mask tid; p = timer_of k tid in
      if k_timer_bitmap k AND tmask \<noteq> 0 then
        if tm_flgs p AND TIMER_FLG_CANCELLED \<noteq> 0 then
          let k1 = k\<lparr>k_timer_bitmap := k_timer_bitmap k AND NOT tmask\<rparr> in
          if tm_on_cancel p \<noteq> 0 then MIPOS_CALL1 u (tm_on_cancel p) (tm_context p) k1 else Some k1
        else if tm_rtc_timeout p \<le> k_rtc_counter k then
          do {
            k2 \<leftarrow> MIPOS_CALL1 u (tm_on_expire p) (tm_context p)
                   (upd_timer tid (\<lambda>p. p\<lparr>tm_flgs := tm_flgs p OR TIMER_FLG_EXPIRED\<rparr>)
                     (k\<lparr>k_next_rtc_timeout := 0\<rparr>));
            Some (if tm_flgs (timer_of k2 tid) AND TIMER_FLG_PERIODIC = 0
                  then k2\<lparr>k_timer_bitmap := k_timer_bitmap k2 AND NOT tmask\<rparr>
                  else upd_timer tid (\<lambda>p. p\<lparr>tm_flgs := tm_flgs p AND NOT TIMER_FLG_EXPIRED,
                         tm_rtc_timeout := k_rtc_counter k2 + tm_interval p\<rparr>) k2)
          }
        else Some k
      else Some k)"

definition timer_select :: "nat \<Rightarrow> mipos_kernel \<Rightarrow> mipos_kernel" where
  "timer_select tid k =
     (if k_timer_bitmap k AND timer_mask tid \<noteq> 0 \<and>
         (k_next_rtc_timeout k = 0 \<or> k_next_rtc_timeout k > tm_rtc_timeout (timer_of k tid))
      then k\<lparr>k_next_rtc_timeout := tm_rtc_timeout (timer_of k tid)\<rparr> else k)"

definition soft_timers :: "user_code \<Rightarrow> mipos_kernel \<Rightarrow> mipos_kernel option" where
  "soft_timers u k =
     (if k_timer_bitmap k \<noteq> 0 \<and>
         (k_next_rtc_timeout k = 0 \<or> k_rtc_counter k \<ge> k_next_rtc_timeout k)
      then do {
        k1 \<leftarrow> run_ops (timer_visit u) [0..<MIPOS_MAX_TIMERS_NO] k;
        Some (fold timer_select [0..<MIPOS_MAX_TIMERS_NO] k1)
      }
      else Some k)"

subsection \<open>Search for a task\<close>

definition schedule_dpc :: "u32 \<Rightarrow> mipos_kernel \<Rightarrow> mipos_kernel" where
  "schedule_dpc ret k =
     upd_task (unat ret) (\<lambda>t. t\<lparr>t_flags := (t_flags t)\<lparr>wkup := True\<rparr>, t_status := TASK_READY\<rparr>)
       (k\<lparr>k_current_task := ret\<rparr>)"

definition rt_handling :: "user_code \<Rightarrow> nat \<Rightarrow> mipos_kernel \<Rightarrow> (nat \<times> mipos_kernel) option" where
  "rt_handling u i k =
     (let p = task_of k i in
      if rt_task (t_flags p) then
        if t_entry_point p = 0 then None
        else let (cs, ret) = u_rt u (t_entry_point p) (t_param p) k in
          do {
            k1 \<leftarrow> run_ops exec_syscall cs k;
            let k2 = upd_task i (\<lambda>t. t\<lparr>t_ret_value := ret\<rparr>) k1 in
            if ret = 0 then Some (i, k2)
            else if unat ret \<ge> length (k_task_table k2) then None
            else Some (unat ret, schedule_dpc ret k2)
          }
      else Some (i, k))"

definition search_cond :: "nat \<Rightarrow> nat \<Rightarrow> mipos_kernel \<Rightarrow> bool" where
  "search_cond count i k =
     (let p = task_of k i in
      t_entry_point p = 0 \<or> rt_task (t_flags p) \<or>
      t_status p AND (TASK_NOT_RUNNING OR TASK_ZOMBIE OR TASK_FROZEN) \<noteq> 0 \<or>
      count \<le> MIPOS_TASKS_TBL_ENTRIES_CNT \<and> k_current_task k = of_nat KERNEL__IDLE_TASK_ID)"

definition next_task :: "mipos_kernel \<Rightarrow> mipos_kernel" where
  "next_task k =
     k\<lparr>k_current_task := (k_current_task k + 1) mod of_nat MIPOS_TASKS_TBL_ENTRIES_CNT\<rparr>"

partial_function (option) task_search ::
    "user_code \<Rightarrow> nat \<Rightarrow> mipos_kernel \<Rightarrow> (nat \<times> mipos_kernel) option" where
  "task_search u count k =
     do {
       (i, k1) \<leftarrow> (let k0 = next_task k in rt_handling u (unat (k_current_task k0)) k0);
       if search_cond (count + 1) i k1 then task_search u (count + 1) k1 else Some (i, k1)
     }"

subsection \<open>Task state machine and dispatcher\<close>

definition tsm_suspended :: "u64 \<Rightarrow> mipos_task \<Rightarrow> mipos_task" where
  "tsm_suspended rtc t =
     (let t1 = (if t_signal_waiting t AND MIPOS_SIGALM \<noteq> 0
                then if 0 < sint (t_timer_tick_count t)
                     then t\<lparr>t_timer_tick_count := t_timer_tick_count t - 1\<rparr>
                     else t\<lparr>t_signal_pending := t_signal_pending t OR MIPOS_SIGALM\<rparr>
                else t);
          t2 = (if t_signal_waiting t1 AND MIPOS_SIGTMR \<noteq> 0 \<and>
                   t_rtc_timeout t1 \<noteq> 0 \<and> rtc \<ge> t_rtc_timeout t1
                then t1\<lparr>t_signal_pending := t_signal_pending t1 OR MIPOS_SIGTMR, t_rtc_timeout := 0\<rparr>
                else t1)
      in if t_signal_pending t2 AND t_signal_waiting t2 \<noteq> 0
         then t2\<lparr>t_flags := (t_flags t2)\<lparr>wkup := True\<rparr>, t_status := TASK_READY,
                t_signal_pending := t_signal_pending t2 AND
                  NOT (t_signal_pending t2 AND t_signal_waiting t2)\<rparr>
         else t2)"

datatype tsm_result = TsmScheduler | TsmDispatcher | TsmPanic

definition task_state_machine :: "nat \<Rightarrow> mipos_kernel \<Rightarrow> tsm_result \<times> mipos_kernel" where
  "task_state_machine i k =
     (let k1 = k\<lparr>k_tick_counter := k_tick_counter k + 1, k_task_context := Some i\<rparr>;
          st = t_status (task_of k1 i)
      in if st = TASK_RUNNING
         then (TsmScheduler, upd_task i (\<lambda>t. t\<lparr>t_status := TASK_ZOMBIE\<rparr>) k1)
         else if st = TASK_SUSPENDED
         then (TsmScheduler, upd_task i (tsm_suspended (k_rtc_counter k1)) k1)
         else if st = TASK_READY
         then (TsmDispatcher, upd_task i (\<lambda>t. t\<lparr>t_status := TASK_RUNNING\<rparr>) k1)
         else (TsmPanic, k1))"

definition top_of_the_stack :: "mipos_task \<Rightarrow> u64" where
  "top_of_the_stack t = (t_stack t + t_stack_size t - 8) AND NOT 0xF"

datatype dispatched = Resumed nat | Started ptr ptr u64

definition dispatcher :: "u64 \<Rightarrow> nat \<Rightarrow> mipos_kernel \<Rightarrow> (dispatched \<times> mipos_kernel) option" where
  "dispatcher sp i k =
     (let t = task_of k i in
      if wkup (t_flags t) then
        case t_reg_state t of
          None \<Rightarrow> None
        | Some (pc, signum) \<Rightarrow>
            Some (Resumed pc,
              upd_task i (\<lambda>t. t_reset_signal_and_run signum
                (t\<lparr>t_flags := (t_flags t)\<lparr>wkup := False\<rparr>\<rparr>)) k)
      else Some (Started (t_entry_point t) (t_param t) (top_of_the_stack t),
                 upd_task i (\<lambda>t. t\<lparr>t_kernel_sp := sp\<rparr>) k))"

text \<open>A task routine that returns: its value is stored and control is back in the scheduler.\<close>

definition task_return :: "u32 \<Rightarrow> nat \<Rightarrow> mipos_kernel \<Rightarrow> mipos_kernel" where
  "task_return ret i k = upd_task i (\<lambda>t. t\<lparr>t_ret_value := ret\<rparr>) k"

definition idle_task :: "user_code \<Rightarrow> ptr \<Rightarrow> mipos_kernel \<Rightarrow> mipos_kernel option" where
  "idle_task u param k =
     (let notify = k_idle_cbk k in if notify \<noteq> 0 then MIPOS_CALL1 u notify param k else Some k)"

subsection \<open>One turn of the scheduler loop\<close>

datatype mode = InScheduler | InTask nat dispatched | Halted

definition scheduler_epoch ::
    "user_code \<Rightarrow> u32 \<Rightarrow> u64 \<Rightarrow> mipos_kernel \<Rightarrow> (mode \<times> mipos_kernel) option" where
  "scheduler_epoch u quantum sp k =
     do {
       k1 \<leftarrow> soft_timers u (mipos_update_rtc quantum k);
       (i, k2) \<leftarrow> task_search u 0 k1;
       if k_current_task k2 = of_nat KERNEL__IDLE_TASK_ID
       then do { k3 \<leftarrow> idle_task u (k_idle_param k2) k2; Some (InScheduler, k3) }
       else case task_state_machine i k2 of
         (TsmScheduler, k3) \<Rightarrow> Some (InScheduler, k3)
       | (TsmDispatcher, k3) \<Rightarrow>
           do { (d, k4) \<leftarrow> dispatcher sp i k3; Some (InTask i d, k4) }
       | (TsmPanic, k3) \<Rightarrow> Some (Halted, k3)
     }"

end
