(* ===== verification/Mipos_Kernel_Inv.thy ===== *)
theory Mipos_Kernel_Inv
  imports Mipos_Kernel
begin

text \<open>
  What the scheduler keeps true. \<open>kernel_wf\<close> is the invariant of the kernel state;
  \<open>kernel_api\<close> is the interface the scheduler relies on when it runs application code:
  every API call succeeds on a state that satisfies the invariant, and keeps it. The
  machine of tasks and scheduler (\<open>mstep\<close>) is explored by rule induction.
\<close>

subsection \<open>The interface of the kernel API\<close>

locale kernel_api =
  fixes ex :: "'op \<Rightarrow> 's \<Rightarrow> 's option"
    and ok :: "'op \<Rightarrow> bool"
    and inv :: "'s \<Rightarrow> bool"
  assumes exec_ok: "inv s \<Longrightarrow> ok c \<Longrightarrow> \<exists>s'. ex c s = Some s' \<and> inv s'"
begin

lemma run_ok: "inv s \<Longrightarrow> list_all ok cs \<Longrightarrow> \<exists>s'. run_ops ex cs s = Some s' \<and> inv s'"
proof (induction cs arbitrary: s)
  case Nil
  then show ?case by simp
next
  case (Cons c cs)
  then obtain s1 where "ex c s = Some s1" "inv s1"
    using exec_ok by (metis list.pred_inject(2))
  with Cons show ?case by simp
qed

end

subsection \<open>The kernel invariant\<close>

text \<open>
  Before the first dispatch the current task is idle; at that time no application code
  runs inside the scheduler.
\<close>

definition boot_wf :: "mipos_kernel \<Rightarrow> bool" where
  "boot_wf k \<longleftrightarrow>
     (\<forall>i < MIPOS_TASKS_TBL_ENTRIES_CNT. \<not> rt_task (t_flags (task_of k i))) \<and>
     k_timer_bitmap k = 0 \<and> k_idle_cbk k = 0"

definition kernel_wf :: "mipos_kernel \<Rightarrow> bool" where
  "kernel_wf k \<longleftrightarrow>
     tasks_wf k \<and> timers_wf k \<and> unat (k_current_task k) < MIPOS_TASKS_TBL_ENTRIES_CNT \<and>
     (user_context k \<or> boot_wf k)"

text \<open>A context that the dispatcher may resume has been saved before.\<close>

definition resumable :: "mipos_task \<Rightarrow> bool" where
  "resumable t \<longleftrightarrow>
     (wkup (t_flags t) \<or> t_status t AND TASK_SUSPENDED \<noteq> 0 \<longrightarrow> t_reg_state t \<noteq> None)"

definition contexts_saved :: "mipos_kernel \<Rightarrow> bool" where
  "contexts_saved k \<longleftrightarrow> (\<forall>i < MIPOS_TASKS_TBL_ENTRIES_CNT. resumable (task_of k i))"

text \<open>
  The invariant of the kernel while application code runs: as \<open>kernel_wf\<close>, with a
  task other than idle in \<^verbatim>\<open>task_context_ptr\<close>. The parameter fixes the fields that no API
  call writes.
\<close>

definition api_inv :: "nat option \<Rightarrow> u32 \<Rightarrow> mipos_kernel \<Rightarrow> bool" where
  "api_inv c cur k \<longleftrightarrow>
     tasks_wf k \<and> timers_wf k \<and> contexts_saved k \<and> user_context k \<and>
     k_task_context k = c \<and> k_current_task k = cur"

lemma contexts_saved_upd:
  assumes "contexts_saved k" "length (k_task_table k) = 8"
    "\<And>t. resumable t \<Longrightarrow> resumable (f t)"
  shows "contexts_saved (upd_task i f k)"
  using assms by (auto simp: contexts_saved_def task_of_upd_task mip_simps)

lemma contexts_saved_on_task:
  assumes "contexts_saved k" "length (k_task_table k) = 8"
    "\<And>t. resumable t \<Longrightarrow> resumable (f t)"
  shows "contexts_saved (on_task tid f k)"
  using assms by (simp add: on_task_def contexts_saved_upd split: option.split)

lemma or_frozen_and_suspended: "(s OR TASK_FROZEN) AND TASK_SUSPENDED = s AND TASK_SUSPENDED"
  by (simp add: mip_simps bit.conj_disj_distrib2)

lemma unfrozen_and_suspended: "(s AND NOT TASK_FROZEN) AND TASK_SUSPENDED = s AND TASK_SUSPENDED"
  by (simp add: mip_simps and.assoc)

lemma resumable_ops [intro]:
  "resumable t \<Longrightarrow> resumable (t\<lparr>t_status := t_status t OR TASK_FROZEN\<rparr>)"
  "resumable t \<Longrightarrow> resumable (t\<lparr>t_status := t_status t AND NOT TASK_FROZEN\<rparr>)"
  "resumable t \<Longrightarrow> resumable (t\<lparr>t_status := TASK_READY\<rparr>)"
  "resumable (t_delete_desc t)"
  "resumable (t_create_desc name entry param flags t)"
  by (auto simp: resumable_def or_frozen_and_suspended unfrozen_and_suspended t_delete_desc_def
      t_create_desc_def no_flags_def) (simp_all add: mip_simps)

lemma resumable_frame [simp]:
  "resumable (t\<lparr>t_signal_pending := a\<rparr>) = resumable t"
  "resumable (t\<lparr>t_signal_mask := a\<rparr>) = resumable t"
  "resumable (t\<lparr>t_param := p\<rparr>) = resumable t"
  "resumable (t\<lparr>t_stack := p\<rparr>) = resumable t"
  "resumable (t\<lparr>t_stack_size := z\<rparr>) = resumable t"
  "resumable (t\<lparr>t_ret_value := r\<rparr>) = resumable t"
  "resumable (t\<lparr>t_kernel_sp := z\<rparr>) = resumable t"
  by (simp_all add: resumable_def)

lemma contexts_saved_create:
  assumes "contexts_saved k" "length (k_task_table k) = 8"
  shows "contexts_saved (snd (mipos_t_create name entry param stack sz flags k))"
  using assms
  by (auto simp: mipos_t_create_def split: option.split intro!: contexts_saved_upd)

lemma contexts_saved_table:
  "k_task_table k' = k_task_table k \<Longrightarrow> contexts_saved k' = contexts_saved k"
  by (simp add: contexts_saved_def task_of_def)

lemma tasks_wf_table:
  "k_task_table k' = k_task_table k \<Longrightarrow> k_task_context k' = k_task_context k \<Longrightarrow>
     tasks_wf k' = tasks_wf k"
  by (simp add: tasks_wf_def task_of_def)

lemma timers_wf_table:
  "k_timer_table k' = k_timer_table k \<Longrightarrow> k_timer_bitmap k' = k_timer_bitmap k \<Longrightarrow>
     timers_wf k' = timers_wf k"
  by (simp add: timers_wf_def timer_of_def)

lemma timers_wf_on_task [simp]: "timers_wf (on_task tid f k) = timers_wf k"
  by (rule timers_wf_table) simp_all

lemma timers_wf_create [simp]:
  "timers_wf (snd (mipos_t_create name entry param stack sz flags k)) = timers_wf k"
  by (rule timers_wf_table) simp_all

lemma api_inv_on_task:
  assumes "api_inv c cur k" "\<And>t. task_wf t \<Longrightarrow> task_wf (f t)" "\<And>t. resumable t \<Longrightarrow> resumable (f t)"
  shows "api_inv c cur (on_task tid f k)"
  using assms by (simp add: api_inv_def on_task_wf contexts_saved_on_task)

lemma api_inv_timer:
  assumes "api_inv c cur k" "timers_wf k'" "k_task_table k' = k_task_table k"
    "k_task_context k' = k_task_context k" "k_current_task k' = k_current_task k"
  shows "api_inv c cur k'"
  using assms
  by (auto simp: api_inv_def user_context_def contexts_saved_table [of k' k] tasks_wf_table [of k' k])

lemma api_inv_timer_restart:
  assumes "api_inv c cur k" "tid < 4"
  shows "\<exists>k'. map_option snd (mipos_timer_restart tid iv k) = Some k' \<and> api_inv c cur k'"
proof -
  from assms have "length (k_timer_table k) = 4" by (simp add: api_inv_def)
  then obtain r k' where r: "mipos_timer_restart tid iv k = Some (r, k')"
    using assms(2) by (fastforce simp: mipos_timer_restart_def Let_def)
  have "api_inv c cur k'"
    using assms(1) timer_restart_frame [OF r]
    by (intro api_inv_timer [OF assms(1)])
      (auto simp: api_inv_def intro: timer_restart_wf [OF _ r])
  with r show ?thesis by simp
qed

lemma exec_syscall_api:
  assumes "api_inv c cur k" "syscall_ok sc"
  shows "\<exists>k'. exec_syscall sc k = Some k' \<and> api_inv c cur k'"
proof (cases sc)
  case (SysCreate name entry param stack sz flags)
  with assms show ?thesis
    by (auto simp: api_inv_def user_context_def mipos_t_create_wf contexts_saved_create)
next
  case (SysTimerRestart tid iv)
  with assms api_inv_timer_restart show ?thesis by (simp add: mip_simps)
next
  case (SysSetIdleCbk cbk param)
  have "api_inv c cur (mipos_set_idle_cbk cbk param k)"
    by (rule api_inv_timer [OF assms(1)])
      (use assms(1) in \<open>simp_all add: mipos_set_idle_cbk_def api_inv_def timers_wf_def timer_of_def\<close>)
  with SysSetIdleCbk show ?thesis by simp
next
  case (SysTimerStart he hc iv ctx per)
  have "api_inv c cur (snd (mipos_timer_start he hc iv ctx per k))"
    by (rule api_inv_timer [OF assms(1)]) (use assms(1) in \<open>simp_all add: api_inv_def timer_start_wf\<close>)
  with SysTimerStart show ?thesis by simp
next
  case (SysTimerCancel tid)
  have "api_inv c cur (snd (mipos_timer_cancel tid k))"
    by (rule api_inv_timer [OF assms(1)]) (use assms(1) in \<open>simp_all add: api_inv_def timer_cancel_wf\<close>)
  with SysTimerCancel show ?thesis by simp
next
  case (SysTimerDelete tid)
  have "api_inv c cur (snd (mipos_timer_delete tid k))"
    by (rule api_inv_timer [OF assms(1)]) (use assms(1) in \<open>simp_all add: api_inv_def timer_delete_wf\<close>)
  with SysTimerDelete show ?thesis by simp
qed (use assms(1) in \<open>auto simp: task_op_defs task_wf_def t_delete_desc_def no_flags_def
      intro!: api_inv_on_task\<close>)

interpretation api: kernel_api exec_syscall syscall_ok "api_inv c cur" for c cur
  by unfold_locales (rule exec_syscall_api)

subsection \<open>Application code that respects the API\<close>

text \<open>The handlers and real-time routines of the application make well-formed calls only.\<close>

definition user_ok :: "user_code \<Rightarrow> bool" where
  "user_ok u \<longleftrightarrow>
     (\<forall>fn arg k. list_all syscall_ok (u_callback u fn arg k)) \<and>
     (\<forall>fn arg k. list_all syscall_ok (fst (u_rt u fn arg k)))"

text \<open>
  A real-time routine asks by a non-zero result for the deferred call of a task. The
  scheduler marks that task as woken and ready without looking at it, so the request is
  sound only for a task that exists, is not real-time itself, and is suspended or already
  woken. \<open>turn_safe\<close> follows the search of one scheduler turn, which visits at most 16 slots,
  and checks each request that is made on the way.
\<close>

definition dpc_ok :: "u32 \<Rightarrow> mipos_kernel \<Rightarrow> bool" where
  "dpc_ok r k \<longleftrightarrow>
     unat r < MIPOS_TASKS_TBL_ENTRIES_CNT \<and>
     (let t = task_of k (unat r) in
      t_entry_point t \<noteq> 0 \<and> \<not> rt_task (t_flags t) \<and>
      (wkup (t_flags t) \<or> t_status t AND TASK_SUSPENDED \<noteq> 0))"

definition visit_safe :: "user_code \<Rightarrow> nat \<Rightarrow> mipos_kernel \<Rightarrow> bool" where
  "visit_safe u i k \<longleftrightarrow>
     (let p = task_of k i; (cs, ret) = u_rt u (t_entry_point p) (t_param p) k in
      rt_task (t_flags p) \<and> ret \<noteq> 0 \<longrightarrow>
      (case run_ops exec_syscall cs k of None \<Rightarrow> True | Some k1 \<Rightarrow> dpc_ok ret k1))"

primrec search_safe :: "user_code \<Rightarrow> nat \<Rightarrow> nat \<Rightarrow> mipos_kernel \<Rightarrow> bool" where
  "search_safe u 0 count k = True"
| "search_safe u (Suc fuel) count k =
     (let k0 = next_task k; i = unat (k_current_task k0) in
      visit_safe u i k0 \<and>
      (case rt_handling u i k0 of None \<Rightarrow> True
       | Some (j, k1) \<Rightarrow> if search_cond (count + 1) j k1 then search_safe u fuel (count + 1) k1 else True))"

definition turn_safe :: "user_code \<Rightarrow> u32 \<Rightarrow> mipos_kernel \<Rightarrow> bool" where
  "turn_safe u q k \<longleftrightarrow>
     (case soft_timers u (mipos_update_rtc q k) of None \<Rightarrow> True
      | Some k1 \<Rightarrow> search_safe u (2 * MIPOS_TASKS_TBL_ENTRIES_CNT) 0 k1)"

definition sched_inv :: "mipos_kernel \<Rightarrow> bool" where
  "sched_inv k \<longleftrightarrow> kernel_wf k \<and> contexts_saved k"

lemma sched_inv_user:
  "user_context k \<Longrightarrow>
     sched_inv k \<longleftrightarrow> api_inv (k_task_context k) (k_current_task k) k \<and> unat (k_current_task k) < 8"
  by (auto simp: sched_inv_def kernel_wf_def api_inv_def mip_simps)

lemma call1_api:
  assumes "user_ok u" "fn \<noteq> 0" "api_inv c cur k"
  shows "\<exists>k'. MIPOS_CALL1 u fn arg k = Some k' \<and> api_inv c cur k'"
  using assms by (simp add: MIPOS_CALL1_def user_ok_def api.run_ok)

lemma timers_wf_deactivate:
  "timers_wf k \<Longrightarrow> tid < 4 \<Longrightarrow>
     timers_wf (k\<lparr>k_timer_bitmap := k_timer_bitmap k AND NOT (timer_mask tid)\<rparr>)"
  by (auto simp: timers_wf_def timer_mask_bits)

lemma timers_wf_upd:
  "timers_wf k \<Longrightarrow> (\<And>p. tm_on_expire (g p) = tm_on_expire p) \<Longrightarrow> timers_wf (upd_timer tid g k)"
  by (auto simp: timers_wf_def timer_of_upd_timer mip_simps)

lemma api_inv_deactivate:
  assumes "api_inv c cur k" "tid < 4"
  shows "api_inv c cur (k\<lparr>k_timer_bitmap := k_timer_bitmap k AND NOT (timer_mask tid)\<rparr>)"
  by (rule api_inv_timer [OF assms(1)]) (use assms in \<open>simp_all add: api_inv_def timers_wf_deactivate\<close>)

lemma api_inv_upd_timer:
  assumes "api_inv c cur k" "\<And>p. tm_on_expire (g p) = tm_on_expire p"
  shows "api_inv c cur (upd_timer tid g k)"
  by (rule api_inv_timer [OF assms(1)]) (use assms in \<open>simp_all add: api_inv_def timers_wf_upd\<close>)

lemma api_inv_next:
  assumes "api_inv c cur k"
  shows "api_inv c cur (k\<lparr>k_next_rtc_timeout := x\<rparr>)"
  by (rule api_inv_timer [OF assms(1)])
    (use assms in \<open>simp_all add: api_inv_def timers_wf_table [of "k\<lparr>k_next_rtc_timeout := x\<rparr>" k]\<close>)

lemma timer_visit_api:
  assumes u: "user_ok u" and k: "api_inv c cur k" and tid: "tid < 4"
  shows "\<exists>k'. timer_visit u tid k = Some k' \<and> api_inv c cur k'"
proof (cases "bit (k_timer_bitmap k) tid")
  case False
  with k show ?thesis by (simp add: timer_visit_def timer_mask_bits)
next
  case active: True
  let ?p = "timer_of k tid"
  let ?kx = "upd_timer tid (\<lambda>p. p\<lparr>tm_flgs := tm_flgs p OR TIMER_FLG_EXPIRED\<rparr>)
               (k\<lparr>k_next_rtc_timeout := 0\<rparr>)"
  from active k have handler: "tm_on_expire ?p \<noteq> 0" by (simp add: api_inv_def timers_wf_def)
  have "api_inv c cur ?kx" by (rule api_inv_upd_timer [OF api_inv_next [OF k]]) simp
  then obtain k2 where k2: "MIPOS_CALL1 u (tm_on_expire ?p) (tm_context ?p) ?kx = Some k2"
      "api_inv c cur k2"
    using call1_api [OF u handler] by blast
  have rearm: "api_inv c cur (upd_timer tid (\<lambda>p. p\<lparr>tm_flgs := tm_flgs p AND NOT TIMER_FLG_EXPIRED,
      tm_rtc_timeout := k_rtc_counter k2 + tm_interval p\<rparr>) k2)"
    by (rule api_inv_upd_timer [OF k2(2)]) simp
  from active k2 rearm api_inv_deactivate [OF k tid] api_inv_deactivate [OF k2(2) tid] k
    call1_api [OF u _ api_inv_deactivate [OF k tid]]
  show ?thesis by (simp add: timer_visit_def timer_mask_bits Let_def)
qed

lemma timer_visit_kernel_api:
  "user_ok u \<Longrightarrow> kernel_api (timer_visit u) (\<lambda>tid. tid < 4) (api_inv c cur)"
  by unfold_locales (rule timer_visit_api)

lemma fold_timer_select_api: "api_inv c cur k \<Longrightarrow> api_inv c cur (fold timer_select ids k)"
  by (induction ids arbitrary: k) (simp_all add: timer_select_def api_inv_next)

lemma soft_timers_api:
  assumes "user_ok u" "api_inv c cur k"
  shows "\<exists>k'. soft_timers u k = Some k' \<and> api_inv c cur k'"
proof -
  obtain k1 where "run_ops (timer_visit u) [0..<4] k = Some k1" "api_inv c cur k1"
    using kernel_api.run_ok [OF timer_visit_kernel_api [OF assms(1)] assms(2), of "[0..<4]"]
    by (auto simp: list_all_iff)
  with assms(2) show ?thesis
    by (simp add: soft_timers_def mip_simps fold_timer_select_api)
qed

lemma soft_timers_inv:
  assumes "user_ok u" "sched_inv k"
  shows "\<exists>k'. soft_timers u k = Some k' \<and> sched_inv k' \<and> k_task_context k' = k_task_context k"
proof (cases "user_context k")
  case True
  with assms obtain k' where "soft_timers u k = Some k'"
      "api_inv (k_task_context k) (k_current_task k) k'"
    using soft_timers_api sched_inv_user by blast
  moreover from this have "user_context k'" by (simp add: api_inv_def)
  ultimately show ?thesis
    using True assms(2) by (auto simp: sched_inv_user api_inv_def)
next
  case False
  with assms(2) have "k_timer_bitmap k = 0" by (simp add: sched_inv_def kernel_wf_def boot_wf_def)
  with assms(2) show ?thesis by (simp add: soft_timers_def)
qed

subsection \<open>The search loop\<close>

lemma next_task_inv:
  assumes "sched_inv k"
  shows "sched_inv (next_task k)"
    and "unat (k_current_task (next_task k)) = (unat (k_current_task k) + 1) mod 8"
    and "k_task_context (next_task k) = k_task_context k"
proof -
  from assms have lt: "unat (k_current_task k) < 8"
    by (simp add: sched_inv_def kernel_wf_def mip_simps)
  then have "unat (k_current_task k + 1) = unat (k_current_task k) + 1"
    by (simp add: unat_word_ariths)
  then show u: "unat (k_current_task (next_task k)) = (unat (k_current_task k) + 1) mod 8"
    by (simp add: next_task_def mip_simps unat_mod)
  show c: "k_task_context (next_task k) = k_task_context k" by (simp add: next_task_def)
  have "tasks_wf (next_task k) = tasks_wf k" "timers_wf (next_task k) = timers_wf k"
    "contexts_saved (next_task k) = contexts_saved k" "boot_wf (next_task k) = boot_wf k"
    by (simp_all add: next_task_def tasks_wf_def timers_wf_def contexts_saved_def boot_wf_def)
  with assms u c show "sched_inv (next_task k)"
    by (auto simp: sched_inv_def kernel_wf_def user_context_def mip_simps)
qed

lemma not_rt_idle: "tasks_wf k \<Longrightarrow> rt_task (t_flags (task_of k i)) \<Longrightarrow> i \<noteq> 0"
  by (metis idle_wf_def tasks_wf_idle)

lemma api_inv_upd:
  assumes "api_inv c cur k" "i \<noteq> 0" "\<And>t. task_wf t \<Longrightarrow> task_wf (f t)"
    "\<And>t. resumable t \<Longrightarrow> resumable (f t)"
  shows "api_inv c cur (upd_task i f k)"
proof -
  from assms have "tasks_wf (upd_task i f k)" "contexts_saved (upd_task i f k)"
    by (auto simp: api_inv_def intro: upd_task_wf contexts_saved_upd)
  with assms(1) show ?thesis
    by (auto simp: api_inv_def user_context_def timers_wf_table [of "upd_task i f k" k])
qed

lemma api_inv_dpc:
  assumes k: "api_inv c cur k" and dpc: "dpc_ok r k" and r: "r \<noteq> 0"
  shows "api_inv c r (schedule_dpc r k)" and "\<not> search_cond n (unat r) (schedule_dpc r k)"
proof -
  let ?k = "schedule_dpc r k"
  let ?i = "unat r" and ?kc = "k\<lparr>k_current_task := r\<rparr>"
  from r have i: "?i \<noteq> 0" by (simp add: unat_eq_zero)
  from dpc have lt: "?i < 8" by (simp add: dpc_ok_def mip_simps)
  have len: "length (k_task_table k) = 8" using k by (simp add: api_inv_def)
  have "tasks_wf ?kc" using k by (auto simp: api_inv_def tasks_wf_def)
  from upd_task_wf [OF this i] have wf: "tasks_wf ?k"
    unfolding schedule_dpc_def by (simp add: task_wf_def)
  have "resumable (task_of ?k j)" if "j < 8" for j
  proof (cases "j = ?i")
    case True
    have "resumable (task_of k ?i)" using k lt by (simp add: api_inv_def contexts_saved_def mip_simps)
    with True dpc lt len show ?thesis
      by (auto simp: schedule_dpc_def dpc_ok_def Let_def resumable_def)
  next
    case False
    with k that show ?thesis
      by (simp add: schedule_dpc_def api_inv_def contexts_saved_def mip_simps)
  qed
  then have "contexts_saved ?k" by (simp add: contexts_saved_def mip_simps)
  moreover have "timers_wf ?k = timers_wf k"
    by (rule timers_wf_table) (simp_all add: schedule_dpc_def)
  moreover have "k_task_context ?k = k_task_context k" "k_current_task ?k = r"
    by (simp_all add: schedule_dpc_def)
  ultimately show "api_inv c r ?k" using wf k by (auto simp: api_inv_def user_context_def)
  from dpc lt len r show "\<not> search_cond n ?i ?k"
    by (simp add: schedule_dpc_def search_cond_def dpc_ok_def Let_def mip_simps)
qed

lemma rt_handling_api:
  assumes u: "user_ok u" and k: "api_inv c cur k" and cur: "unat cur < 8" and safe: "visit_safe u (unat cur) k"
  shows "\<exists>j k'. rt_handling u (unat cur) k = Some (j, k') \<and>
     (api_inv c cur k' \<and> j = unat cur \<or>
      (\<exists>r. api_inv c r k' \<and> j = unat r \<and> j < 8 \<and> (\<forall>n. \<not> search_cond n j k')))"
proof (cases "rt_task (t_flags (task_of k (unat cur)))")
  case False
  with k show ?thesis by (simp add: rt_handling_def)
next
  case True
  let ?i = "unat cur"
  let ?p = "task_of k ?i"
  let ?ret = "snd (u_rt u (t_entry_point ?p) (t_param ?p) k)"
  let ?cs = "fst (u_rt u (t_entry_point ?p) (t_param ?p) k)"
  from True k have i: "?i \<noteq> 0" by (metis api_inv_def not_rt_idle)
  from True k cur have entry: "t_entry_point ?p \<noteq> 0"
    using tasks_wf_task [of k ?i] by (simp add: api_inv_def task_wf_def)
  obtain k1 where run: "run_ops exec_syscall ?cs k = Some k1" and k1: "api_inv c cur k1"
    using u k api.run_ok [of c cur k ?cs] by (auto simp: user_ok_def)
  let ?k2 = "upd_task ?i (\<lambda>t. t\<lparr>t_ret_value := ?ret\<rparr>) k1"
  have k2: "api_inv c cur ?k2"
    by (rule api_inv_upd [OF k1 i]) (simp_all add: task_wf_def)
  show ?thesis
  proof (cases "?ret = 0")
    case True
    with \<open>rt_task _\<close> entry run k2 show ?thesis
      by (simp add: rt_handling_def case_prod_beta Let_def)
  next
    case False
    with safe run \<open>rt_task _\<close> have dpc1: "dpc_ok ?ret k1"
      by (simp add: visit_safe_def Let_def case_prod_beta)
    have len: "length (k_task_table k1) = 8" using k1 by (simp add: api_inv_def)
    have dpc: "dpc_ok ?ret ?k2"
      using dpc1 len by (auto simp: dpc_ok_def Let_def task_of_upd_task mip_simps)
    note inv = api_inv_dpc [OF k2 dpc False]
    from dpc have lt: "unat ?ret < 8" by (simp add: dpc_ok_def mip_simps)
    show ?thesis
      using \<open>rt_task _\<close> entry run False lt len inv
      by (auto simp: rt_handling_def case_prod_beta Let_def)
  qed
qed

lemma rt_handling_inv:
  assumes u: "user_ok u" and k: "sched_inv k" and safe: "visit_safe u (unat (k_current_task k)) k"
  shows "\<exists>j k'. rt_handling u (unat (k_current_task k)) k = Some (j, k') \<and> sched_inv k' \<and>
     j = unat (k_current_task k') \<and> k_task_context k' = k_task_context k \<and>
     (k_current_task k' = k_current_task k \<or> (\<forall>n. \<not> search_cond n j k'))"
proof (cases "user_context k")
  case True
  with k have "api_inv (k_task_context k) (k_current_task k) k" and lt: "unat (k_current_task k) < 8"
    by (simp_all add: sched_inv_user)
  with rt_handling_api [OF u _ _ safe] obtain j k' where j: "rt_handling u (unat (k_current_task k)) k = Some (j, k')"
    and cases: "api_inv (k_task_context k) (k_current_task k) k' \<and> j = unat (k_current_task k) \<or>
      (\<exists>r. api_inv (k_task_context k) r k' \<and> j = unat r \<and> j < 8 \<and> (\<forall>n. \<not> search_cond n j k'))"
    by blast
  from cases have "user_context k'" by (auto simp: api_inv_def)
  with cases lt have "sched_inv k'" by (auto simp: sched_inv_user api_inv_def)
  with j cases show ?thesis by (auto simp: api_inv_def)
next
  case False
  with k have "\<not> rt_task (t_flags (task_of k (unat (k_current_task k))))"
    by (simp add: sched_inv_def kernel_wf_def boot_wf_def)
  with k show ?thesis by (simp add: rt_handling_def)
qed

lemma idle_stops_search:
  assumes "sched_inv k" "k_current_task k = 0" "8 < n"
  shows "\<not> search_cond n 0 k"
proof -
  from assms(1) have "idle_wf (task_of k 0)"
    using tasks_wf_idle by (simp add: sched_inv_def kernel_wf_def)
  with assms show ?thesis by (simp add: search_cond_def idle_wf_def Let_def mip_simps)
qed

lemma task_search_terminates:
  assumes "user_ok u" "sched_inv k" "c0 < 8" "count < 16 - c0"
    "unat (k_current_task k) = (c0 + count) mod 8" "search_safe u (16 - count) count k"
  shows "\<exists>i k' n. task_search u count k = Some (i, k') \<and> sched_inv k' \<and> i = unat (k_current_task k') \<and>
     k_task_context k' = k_task_context k \<and> \<not> search_cond n i k'"
  using assms(2-)
proof (induction "16 - c0 - count" arbitrary: count k rule: less_induct)
  case less
  let ?k0 = "next_task k"
  note nxt = next_task_inv [OF less.prems(1)]
  have fuel: "16 - count = Suc (16 - (count + 1))" using less.prems(3) by simp
  have safe: "visit_safe u (unat (k_current_task ?k0)) ?k0"
    using less.prems(5) unfolding fuel by (simp add: Let_def)
  obtain j k1 where j: "rt_handling u (unat (k_current_task ?k0)) ?k0 = Some (j, k1)"
    and k1: "sched_inv k1" "j = unat (k_current_task k1)" "k_task_context k1 = k_task_context k"
    and stop: "k_current_task k1 = k_current_task ?k0 \<or> (\<forall>n. \<not> search_cond n j k1)"
    using rt_handling_inv [OF assms(1) nxt(1) safe] nxt(3) by fastforce
  show ?case
  proof (cases "search_cond (count + 1) j k1")
    case False
    with j k1 show ?thesis by (subst task_search.simps) auto
  next
    case True
    with stop have same: "k_current_task k1 = k_current_task ?k0" by blast
    have cur: "unat (k_current_task k1) = (c0 + (count + 1)) mod 8"
      using same nxt(2) less.prems(4) by (simp add: mod_simps add.commute)
    have "count + 1 \<noteq> 16 - c0"
    proof
      assume "count + 1 = 16 - c0"
      then have "unat (k_current_task k1) = 0" "8 < count + 1" using cur less.prems(2) by auto
      with True k1 show False using idle_stops_search [of k1 "count + 1"] by (simp add: unat_eq_zero)
    qed
    with less.prems(3) have "count + 1 < 16 - c0" by simp
    moreover have "search_safe u (16 - (count + 1)) (count + 1) k1"
      using less.prems(5) j True unfolding fuel by (simp add: Let_def)
    ultimately
    obtain i k' n where "task_search u (count + 1) k1 = Some (i, k')" "sched_inv k'"
        "i = unat (k_current_task k')" "k_task_context k' = k_task_context k1" "\<not> search_cond n i k'"
      using less.hyps [of "count + 1" k1] k1 cur less.prems(2,3) by fastforce
    with j True k1 show ?thesis by (subst task_search.simps) auto
  qed
qed

text \<open>Without real-time routines that ask for a deferred call every search is safe.\<close>

lemma search_safe_no_dpc:
  assumes "\<And>fn arg k. snd (u_rt u fn arg k) = 0"
  shows "search_safe u fuel count k"
  using assms
  by (induction fuel arbitrary: count k)
    (simp_all add: visit_safe_def Let_def case_prod_beta split: option.split)

lemma turn_safe_no_dpc: "(\<And>fn arg k. snd (u_rt u fn arg k) = 0) \<Longrightarrow> turn_safe u q k"
  by (simp add: turn_safe_def search_safe_no_dpc split: option.split)

subsection \<open>Task state machine, dispatcher, epoch\<close>

text \<open>What the search establishes of the task it stops at.\<close>

lemma selected_status:
  assumes "sched_inv k" "i < 8" "\<not> search_cond n i k"
  shows "t_status (task_of k i) \<in> {TASK_READY, TASK_RUNNING, TASK_SUSPENDED}"
proof -
  from assms(1,2) have "status_ok (t_status (task_of k i))"
    using tasks_wf_task by (auto simp: sched_inv_def kernel_wf_def task_wf_def)
  with assms(3) show ?thesis by (auto simp: search_cond_def Let_def mip_simps)
qed

lemma sched_inv_current: "sched_inv k \<Longrightarrow> unat (k_current_task k) < 8"
  by (simp add: sched_inv_def kernel_wf_def mip_simps)

text \<open>Selecting a user task as \<^verbatim>\<open>task_context_ptr\<close> leaves the boot phase.\<close>

lemma sched_inv_context:
  assumes "sched_inv k" "i \<noteq> 0" "i < 8"
  shows "sched_inv (k\<lparr>k_tick_counter := tk, k_task_context := Some i\<rparr>)"
  using assms
  by (auto simp: sched_inv_def kernel_wf_def tasks_wf_def timers_wf_def contexts_saved_def
      user_context_def task_of_def timer_of_def mip_simps)

lemma sched_inv_upd:
  assumes "sched_inv k" "user_context k" "i \<noteq> 0"
    "task_wf (task_of k i) \<Longrightarrow> task_wf (f (task_of k i))"
    "resumable (task_of k i) \<Longrightarrow> resumable (f (task_of k i))"
  shows "sched_inv (upd_task i f k)"
proof -
  from assms have "tasks_wf k" and len: "length (k_task_table k) = 8"
    by (simp_all add: sched_inv_def kernel_wf_def)
  then have "tasks_wf (upd_task i f k)" using assms by (auto intro: upd_task_wf)
  moreover have "contexts_saved (upd_task i f k)"
    using assms len by (auto simp: contexts_saved_def sched_inv_def task_of_upd_task mip_simps)
  ultimately show ?thesis
    using assms by (simp add: sched_inv_def kernel_wf_def user_context_def
        timers_wf_table [of "upd_task i f k" k])
qed

lemma tsm_suspended_wf: "task_wf t \<Longrightarrow> task_wf (tsm_suspended rtc t)"
  by (simp add: task_wf_def tsm_suspended_def Let_def)

lemma tsm_suspended_resumable:
  "t_status t = TASK_SUSPENDED \<Longrightarrow> resumable t \<Longrightarrow> resumable (tsm_suspended rtc t)"
  by (simp add: resumable_def tsm_suspended_def Let_def mip_simps)

lemma tsm_inv:
  assumes k: "sched_inv k" and i: "i \<noteq> 0" "i < 8" and sel: "\<not> search_cond n i k"
  shows "\<exists>r k'. task_state_machine i k = (r, k') \<and> r \<noteq> TsmPanic \<and> sched_inv k' \<and>
     k_task_context k' = Some i \<and> user_context k'"
proof -
  let ?k1 = "k\<lparr>k_tick_counter := k_tick_counter k + 1, k_task_context := Some i\<rparr>"
  have k1: "sched_inv ?k1" by (rule sched_inv_context [OF k i])
  have uc: "user_context ?k1" using i by (simp add: user_context_def mip_simps)
  have upd: "sched_inv (upd_task i f ?k1)"
    if "task_wf (task_of ?k1 i) \<Longrightarrow> task_wf (f (task_of ?k1 i))"
      "resumable (task_of ?k1 i) \<Longrightarrow> resumable (f (task_of ?k1 i))" for f
    using sched_inv_upd [OF k1 uc i(1), of f] that by blast
  consider "t_status (task_of k i) = TASK_READY" | "t_status (task_of k i) = TASK_RUNNING"
    | "t_status (task_of k i) = TASK_SUSPENDED"
    using selected_status [OF k i(2) sel] by blast
  then show ?thesis
  proof cases
    case 1
    then have "task_state_machine i k =
        (TsmDispatcher, upd_task i (\<lambda>t. t\<lparr>t_status := TASK_RUNNING\<rparr>) ?k1)"
      by (simp add: task_state_machine_def Let_def mip_simps)
    moreover have "sched_inv (upd_task i (\<lambda>t. t\<lparr>t_status := TASK_RUNNING\<rparr>) ?k1)"
      by (rule upd) (simp_all add: task_wf_def resumable_def mip_simps)
    ultimately show ?thesis using i by (simp add: user_context_def mip_simps)
  next
    case 2
    then have "task_state_machine i k =
        (TsmScheduler, upd_task i (\<lambda>t. t\<lparr>t_status := TASK_ZOMBIE\<rparr>) ?k1)"
      by (simp add: task_state_machine_def Let_def mip_simps)
    moreover have "sched_inv (upd_task i (\<lambda>t. t\<lparr>t_status := TASK_ZOMBIE\<rparr>) ?k1)"
      by (rule upd) (simp_all add: task_wf_def resumable_def mip_simps)
    ultimately show ?thesis using i by (simp add: user_context_def mip_simps)
  next
    case 3
    then have "task_state_machine i k =
        (TsmScheduler, upd_task i (tsm_suspended (k_rtc_counter ?k1)) ?k1)"
      by (simp add: task_state_machine_def Let_def mip_simps)
    moreover have "sched_inv (upd_task i (tsm_suspended (k_rtc_counter ?k1)) ?k1)"
      by (rule upd) (use 3 in \<open>simp_all add: tsm_suspended_wf tsm_suspended_resumable\<close>)
    ultimately show ?thesis using i by (simp add: user_context_def mip_simps)
  qed
qed

lemma reset_signal_wf: "task_wf t \<Longrightarrow> task_wf (t_reset_signal_and_run sg t)"
  by (simp add: task_wf_def t_reset_signal_and_run_def)

lemma dispatcher_inv:
  assumes "sched_inv k" "user_context k" "i \<noteq> 0" "i < 8"
  shows "\<exists>d k'. dispatcher sp i k = Some (d, k') \<and> sched_inv k' \<and>
     k_task_context k' = k_task_context k"
proof (cases "wkup (t_flags (task_of k i))")
  case False
  have "sched_inv (upd_task i (\<lambda>t. t\<lparr>t_kernel_sp := sp\<rparr>) k)"
    by (rule sched_inv_upd [OF assms(1-3)]) (simp_all add: task_wf_def)
  with False show ?thesis by (simp add: dispatcher_def Let_def)
next
  case True
  with assms obtain pc sg where reg: "t_reg_state (task_of k i) = Some (pc, sg)"
    by (force simp: sched_inv_def contexts_saved_def resumable_def mip_simps)
  have "sched_inv (upd_task i (\<lambda>t. t_reset_signal_and_run sg
          (t\<lparr>t_flags := (t_flags t)\<lparr>wkup := False\<rparr>\<rparr>)) k)"
    by (rule sched_inv_upd [OF assms(1-3)])
      (use reg in \<open>simp_all add: task_wf_def resumable_def t_reset_signal_and_run_def\<close>)
  with True reg show ?thesis by (simp add: dispatcher_def Let_def)
qed

fun machine_inv :: "mode \<times> mipos_kernel \<Rightarrow> bool" where
  "machine_inv (InScheduler, k) = sched_inv k"
| "machine_inv (InTask i d, k) =
     (sched_inv k \<and> i \<noteq> 0 \<and> k_task_context k = Some i)"
| "machine_inv (Halted, k) = False"

lemma sched_inv_rtc: "sched_inv k \<Longrightarrow> sched_inv (mipos_update_rtc q k)"
  by (simp add: mipos_update_rtc_def sched_inv_def kernel_wf_def tasks_wf_def timers_wf_def
      contexts_saved_def boot_wf_def user_context_def)

lemma idle_task_inv:
  assumes u: "user_ok u" and k: "sched_inv k"
  shows "\<exists>k'. idle_task u p k = Some k' \<and> sched_inv k'"
proof (cases "user_context k")
  case True
  with k have api: "api_inv (k_task_context k) (k_current_task k) k" by (simp add: sched_inv_user)
  show ?thesis
  proof (cases "k_idle_cbk k = 0")
    case False
    with call1_api [OF u _ api] obtain k' where k': "MIPOS_CALL1 u (k_idle_cbk k) p k = Some k'"
        "api_inv (k_task_context k) (k_current_task k) k'"
      by blast
    then have "sched_inv k'"
      using k sched_inv_user [of k'] sched_inv_current by (auto simp: api_inv_def)
    with k' False show ?thesis by (simp add: idle_task_def)
  qed (use k in \<open>simp add: idle_task_def\<close>)
qed (use k in \<open>simp add: idle_task_def sched_inv_def kernel_wf_def boot_wf_def\<close>)

lemma scheduler_epoch_inv:
  assumes u: "user_ok u" and k: "sched_inv k" and safe: "turn_safe u q k"
  shows "\<exists>m k'. scheduler_epoch u q sp k = Some (m, k') \<and> machine_inv (m, k')"
proof -
  obtain k1 where k1: "soft_timers u (mipos_update_rtc q k) = Some k1" "sched_inv k1"
    using soft_timers_inv [OF u sched_inv_rtc [OF k]] by blast
  obtain i k2 n where k2: "task_search u 0 k1 = Some (i, k2)" "sched_inv k2"
      "i = unat (k_current_task k2)" "\<not> search_cond n i k2"
    using task_search_terminates [OF u k1(2), of "unat (k_current_task k1)" 0]
      sched_inv_current [OF k1(2)] safe k1(1) by (auto simp: turn_safe_def mip_simps)
  show ?thesis
  proof (cases "k_current_task k2 = 0")
    case True
    from idle_task_inv [OF u k2(2)] obtain k3
      where "idle_task u (k_idle_param k2) k2 = Some k3" "sched_inv k3" by blast
    with True k1 k2 show ?thesis by (simp add: scheduler_epoch_def mip_simps)
  next
    case False
    have i: "i \<noteq> 0" "i < 8"
      using False k2(3) sched_inv_current [OF k2(2)] by (simp_all add: unat_eq_zero)
    obtain r k3 where k3: "task_state_machine i k2 = (r, k3)" "r \<noteq> TsmPanic" "sched_inv k3"
        "k_task_context k3 = Some i" "user_context k3"
      using tsm_inv [OF k2(2) i k2(4)] by blast
    obtain d k4 where k4: "dispatcher sp i k3 = Some (d, k4)" "sched_inv k4"
        "k_task_context k4 = Some i"
      using dispatcher_inv [OF k3(3) k3(5) i] k3(4) by force
    from k3 k4 k1 k2(1,2) False i show ?thesis
      by (cases r) (simp_all add: scheduler_epoch_def mip_simps)
  qed
qed

end
