(* ===== verification/Mipos_Machine.thy ===== *)
theory Mipos_Machine
  imports Mipos_Kernel_Inv
begin

text \<open>
  The cooperative machine: the scheduler and the tasks take turns. A step is a turn of the
  scheduler loop, one API call of the running task, its blocking call or its return, or
  the timer interrupt that advances the RTC counter. The turns considered are those in which
  each deferred call that a real-time routine asks for is sound (\<open>turn_safe\<close>); others can
  fault or never end, as \<open>dpc_on_fresh_task_faults\<close> and \<open>dpc_on_empty_slot_hangs\<close> show. The
  states reachable from \<^verbatim>\<open>mipos_start\<close> satisfy \<open>machine_inv\<close>.
\<close>

inductive mstep :: "user_code \<Rightarrow> mode \<times> mipos_kernel \<Rightarrow> mode \<times> mipos_kernel \<Rightarrow> bool"
  for u where
  rtc_tick: "m \<noteq> Halted \<Longrightarrow> mstep u (m, k) (m, mipos_update_rtc q k)"
| epoch: "turn_safe u q k \<Longrightarrow> scheduler_epoch u q sp k = Some mk \<Longrightarrow> mstep u (InScheduler, k) mk"
| api_call: "syscall_ok c \<Longrightarrow> exec_syscall c k = Some k' \<Longrightarrow> mstep u (InTask i d, k) (InTask i d, k')"
| suspend: "t_suspend_enter pc sp sg k = Some k' \<Longrightarrow> mstep u (InTask i d, k) (InScheduler, k')"
| wkafter: "tm_wkafter_enter pc sp sg cnt k = Some k' \<Longrightarrow> mstep u (InTask i d, k) (InScheduler, k')"
| quantum_sleep:
    "tm_rtc_quantum_sleep_enter pc sp sg cnt k = Some k' \<Longrightarrow> mstep u (InTask i d, k) (InScheduler, k')"
| return: "mstep u (InTask i d, k) (InScheduler, task_return r i k)"

inductive_cases mstep_task: "mstep u (InTask i d, k) mk"
inductive_cases mstep_scheduler: "mstep u (InScheduler, k) mk"
inductive_cases mstep_halted: "mstep u (Halted, k) mk"

text \<open>The kernel state right after \<^verbatim>\<open>mipos_start\<close> created the root task.\<close>

definition boot_state :: "ptr \<Rightarrow> ptr \<Rightarrow> ptr \<Rightarrow> u64 \<Rightarrow> mode \<times> mipos_kernel" where
  "boot_state root_task root_param stack stack_size =
     (InScheduler, mipos_start_init root_task root_param stack stack_size zero_kernel)"

text \<open>
  A system with inert callbacks, booted with a root task at an arbitrary address: the
  concrete instance on which the properties of the scheduler are evaluated.
\<close>

definition quiet_user :: user_code where
  "quiet_user = \<lparr>u_callback = (\<lambda>_ _ _. []), u_rt = (\<lambda>_ _ _. ([], 0))\<rparr>"

text \<open>
  The same with a real-time routine at address 0x2000 that asks for the deferred call of
  task 1 whenever that task is suspended; the root task creates it, then waits.
\<close>

definition rt_user :: user_code where
  "rt_user = \<lparr>u_callback = (\<lambda>_ _ _. []),
     u_rt = (\<lambda>_ _ k. ([], if t_status (task_of k 1) = TASK_SUSPENDED then 1 else 0))\<rparr>"

definition quiet_boot :: "mode \<times> mipos_kernel" where
  "quiet_boot = boot_state 0x1000 0 0x8000 0x400"

definition quiet_running :: mipos_kernel where
  "quiet_running = upd_task 1 (\<lambda>t. t\<lparr>t_status := TASK_RUNNING\<rparr>)
     ((snd quiet_boot)\<lparr>k_task_context := Some 1, k_current_task := 1\<rparr>)"

inductive reachable :: "user_code \<Rightarrow> mode \<times> mipos_kernel \<Rightarrow> mode \<times> mipos_kernel \<Rightarrow> bool"
  for u s0 where
  start: "reachable u s0 s0"
| step: "reachable u s0 s \<Longrightarrow> mstep u s t \<Longrightarrow> reachable u s0 t"

subsection \<open>The initial state\<close>

lemma fold_upd_task_frame:
  "length (k_task_table (fold (\<lambda>i. upd_task i f) is k)) = length (k_task_table k)"
  "k_timer_table (fold (\<lambda>i. upd_task i f) is k) = k_timer_table k"
  "k_timer_bitmap (fold (\<lambda>i. upd_task i f) is k) = k_timer_bitmap k"
  "k_task_context (fold (\<lambda>i. upd_task i f) is k) = k_task_context k"
  "k_current_task (fold (\<lambda>i. upd_task i f) is k) = k_current_task k"
  "k_idle_cbk (fold (\<lambda>i. upd_task i f) is k) = k_idle_cbk k"
  by (induction "is" arbitrary: k) simp_all

lemma fold_upd_task:
  assumes "distinct is" "j < length (k_task_table k)"
  shows "task_of (fold (\<lambda>i. upd_task i f) is k) j =
     (if j \<in> set is then f (task_of k j) else task_of k j)"
  using assms by (induction "is" arbitrary: k) (auto simp: task_of_upd_task)

lemma fold_upd_timer_frame:
  "length (k_timer_table (fold (\<lambda>i. upd_timer i g) is k)) = length (k_timer_table k)"
  "k_task_table (fold (\<lambda>i. upd_timer i g) is k) = k_task_table k"
  "k_timer_bitmap (fold (\<lambda>i. upd_timer i g) is k) = k_timer_bitmap k"
  "k_task_context (fold (\<lambda>i. upd_timer i g) is k) = k_task_context k"
  "k_current_task (fold (\<lambda>i. upd_timer i g) is k) = k_current_task k"
  "k_idle_cbk (fold (\<lambda>i. upd_timer i g) is k) = k_idle_cbk k"
  by (induction "is" arbitrary: k) simp_all

lemma scheduler_init_frame:
  "length (k_task_table (scheduler_init k)) = length (k_task_table k)"
  "length (k_timer_table (scheduler_init k)) = length (k_timer_table k)"
  "k_timer_bitmap (scheduler_init k) = 0"
  "k_task_context (scheduler_init k) = Some 0"
  "k_current_task (scheduler_init k) = 0"
  "k_idle_cbk (scheduler_init k) = 0"
  by (simp_all add: scheduler_init_def Let_def fold_upd_task_frame fold_upd_timer_frame mip_simps)

lemma scheduler_init_task:
  assumes "length (k_task_table k) = 8" "i < 8"
  shows "task_of (scheduler_init k) i =
     (if i = 0 then (t_create_desc ''idle'' idle_task_entry 0 MIPOS_NO_RT (task_of k 0))
                      \<lparr>t_status := TASK_READY, t_signal_mask := 0\<rparr>
      else t_delete_desc (task_of k i))"
proof -
  have tbl: "task_of (fold (\<lambda>i. upd_timer i g) is k') i = task_of k' i" for g "is" k'
    by (simp add: task_of_def fold_upd_timer_frame)
  have cnt: "task_of (x\<lparr>k_task_count := 1\<rparr>) j = task_of x j" for x j by (simp add: task_of_def)
  from assms show ?thesis
    by (auto simp: scheduler_init_def Let_def tbl cnt fold_upd_task mip_simps)
qed

lemma scheduler_init_inv:
  assumes "length (k_task_table k) = 8" "length (k_timer_table k) = 4"
  shows "sched_inv (scheduler_init k)"
proof -
  have idle: "idle_wf (task_of (scheduler_init k) 0)"
    using assms by (simp add: scheduler_init_task idle_wf_def t_create_desc_def no_flags_def
        idle_task_entry_def)
  have wf: "task_wf (task_of (scheduler_init k) i) \<and> resumable (task_of (scheduler_init k) i) \<and>
      \<not> rt_task (t_flags (task_of (scheduler_init k) i))" if "i < 8" for i
    using assms that
    by (auto simp: scheduler_init_task task_wf_def resumable_def t_create_desc_def t_delete_desc_def
        no_flags_def mip_simps)
  with idle assms show ?thesis
    by (simp add: sched_inv_def kernel_wf_def tasks_wf_def timers_wf_def boot_wf_def
        contexts_saved_def scheduler_init_frame mip_simps)
qed

lemma mipos_start_init_inv:
  assumes len: "length (k_task_table k) = 8" "length (k_timer_table k) = 4" and root: "root \<noteq> 0"
  shows "sched_inv (mipos_start_init root param stack sz k)"
proof -
  let ?k = "scheduler_init k" and ?r = "mipos_start_init root param stack sz k"
  note init = scheduler_init_inv [OF len, unfolded sched_inv_def kernel_wf_def]
  have eq: "?r = upd_task 1 (\<lambda>t. (t_create_desc ''root'' root param MIPOS_NO_RT t)
      \<lparr>t_stack := stack, t_stack_size := sz\<rparr>) ?k"
    using len by (simp add: mipos_start_init_def mipos_t_create_def first_index_def mip_simps
        upt_conv_Cons scheduler_init_task t_delete_desc_def)
  have "tasks_wf ?r"
    using init root by (simp add: mipos_start_init_def mipos_t_create_wf)
  moreover have "contexts_saved ?r"
    using init by (simp add: mipos_start_init_def contexts_saved_create)
  moreover have "timers_wf ?r" using init by (simp add: mipos_start_init_def)
  moreover have "boot_wf ?r"
    using len scheduler_init_frame [of k]
    by (auto simp: boot_wf_def eq task_of_upd_task scheduler_init_task t_create_desc_def
        t_delete_desc_def no_flags_def mip_simps)
  moreover have "k_current_task ?r = 0" by (simp add: eq scheduler_init_frame)
  ultimately show ?thesis by (simp add: sched_inv_def kernel_wf_def mip_simps)
qed

lemma boot_state_inv: "root \<noteq> 0 \<Longrightarrow> machine_inv (boot_state root param stack sz)"
  by (simp add: boot_state_def mipos_start_init_inv zero_kernel_def mip_simps)

subsection \<open>Every step keeps the invariant\<close>

lemma sched_inv_on_context:
  assumes "sched_inv k" "k_task_context k = Some i" "i \<noteq> 0"
    "\<And>t. task_wf t \<Longrightarrow> task_wf (f t)" "\<And>t. resumable t \<Longrightarrow> resumable (f t)"
  shows "\<exists>k'. on_context f k = Some k' \<and> sched_inv k'"
  using assms by (simp add: on_context_def sched_inv_upd user_context_def mip_simps)

lemma set_wait_resumable: "t_reg_state t \<noteq> None \<Longrightarrow> resumable (t_set_wait_for_signal sg t)"
  by (simp add: resumable_def t_set_wait_for_signal_def Let_def)

lemma set_wait_reg_state [simp]: "t_reg_state (t_set_wait_for_signal sg t) = t_reg_state t"
  by (simp add: t_set_wait_for_signal_def Let_def)

lemma suspend_inv:
  assumes "sched_inv k" "k_task_context k = Some i" "i \<noteq> 0"
  shows "\<exists>k'. t_suspend_enter pc sp sg k = Some k' \<and> sched_inv k'"
    and "\<exists>k'. tm_wkafter_enter pc sp sg cnt k = Some k' \<and> sched_inv k'"
    and "\<exists>k'. tm_rtc_quantum_sleep_enter pc sp sg cnt k = Some k' \<and> sched_inv k'"
  unfolding t_suspend_enter_def tm_wkafter_enter_def tm_rtc_quantum_sleep_enter_def
  by (rule sched_inv_on_context [OF assms];
      use set_wait_wf in \<open>force simp: task_wf_def resumable_def\<close>)+

lemma exec_syscall_inv:
  assumes "sched_inv k" "k_task_context k = Some i" "i \<noteq> 0" "syscall_ok c"
  shows "\<exists>k'. exec_syscall c k = Some k' \<and> sched_inv k' \<and> k_task_context k' = Some i"
proof -
  have "user_context k" using assms by (simp add: user_context_def mip_simps)
  with assms(1) have "api_inv (Some i) (k_current_task k) k" and "unat (k_current_task k) < 8"
    using assms(2) by (simp_all add: sched_inv_user)
  with api.exec_ok [OF _ assms(4)] obtain k' where k': "exec_syscall c k = Some k'"
      "api_inv (Some i) (k_current_task k) k'" by blast
  then have "sched_inv k'" using sched_inv_user [of k'] \<open>unat _ < 8\<close> by (auto simp: api_inv_def)
  with k' show ?thesis by (simp add: api_inv_def)
qed

lemma task_return_inv:
  assumes "sched_inv k" "k_task_context k = Some i" "i \<noteq> 0"
  shows "sched_inv (task_return r i k)"
  unfolding task_return_def
  by (rule sched_inv_upd) (use assms in \<open>simp_all add: user_context_def task_wf_def mip_simps\<close>)

lemma machine_inv_tick: "machine_inv (m, k) \<Longrightarrow> machine_inv (m, mipos_update_rtc q k)"
  by (cases m) (simp_all add: sched_inv_rtc, simp add: mipos_update_rtc_def)

lemma mstep_inv:
  assumes u: "user_ok u" and "mstep u s t" "machine_inv s"
  shows "machine_inv t"
  using assms(2,3)
proof (induction rule: mstep.induct)
  case (rtc_tick m k q)
  then show ?case by (simp add: machine_inv_tick)
next
  case (epoch q k sp mk)
  with scheduler_epoch_inv [OF u, where k = k and q = q and sp = sp] show ?case by force
next
  case (api_call c k k' i d)
  with exec_syscall_inv [of k i c] show ?case by auto
next
  case (suspend pc sp sg k k' i d)
  with suspend_inv(1) [of k i pc sp sg] show ?case by auto
next
  case (wkafter pc sp sg cnt k k' i d)
  with suspend_inv(2) [of k i pc sp sg cnt] show ?case by auto
next
  case (quantum_sleep pc sp sg cnt k k' i d)
  with suspend_inv(3) [of k i pc sp sg cnt] show ?case by auto
next
  case (return i d k r)
  then show ?case by (simp add: task_return_inv)
qed

lemma reachable_inv:
  assumes "user_ok u" "reachable u s0 s" "machine_inv s0"
  shows "machine_inv s"
  using assms(2,3) by (induction rule: reachable.induct) (auto intro: mstep_inv [OF assms(1)])

subsection \<open>Safety and progress of the machine\<close>

lemma quiet_user_ok [simp]: "user_ok quiet_user"
  by (simp add: user_ok_def quiet_user_def)

lemma quiet_turn_safe [simp]: "turn_safe quiet_user q k"
  by (rule turn_safe_no_dpc) (simp add: quiet_user_def)

lemma rt_user_ok [simp]: "user_ok rt_user"
  by (simp add: user_ok_def rt_user_def)

lemma quiet_boot_inv: "sched_inv (snd quiet_boot)"
  by (simp add: quiet_boot_def boot_state_def mipos_start_init_inv zero_kernel_def mip_simps)

lemma quiet_running_task:
  "k_task_context quiet_running = Some 1" "length (k_task_table quiet_running) = 8"
  "t_status (task_of quiet_running 1) = TASK_RUNNING"
  "t_signal_waiting (task_of quiet_running 1) = 0"
  "t_signal_pending (task_of quiet_running 1) = 0"
  "t_signal_mask (task_of quiet_running 1) = - 1"
  "k_rtc_counter quiet_running = 0"
proof -
  show "length (k_task_table quiet_running) = 8" by code_simp
  show "t_status (task_of quiet_running 1) = TASK_RUNNING" by code_simp
  show "t_signal_waiting (task_of quiet_running 1) = 0" by code_simp
  show "t_signal_pending (task_of quiet_running 1) = 0" by code_simp
  show "t_signal_mask (task_of quiet_running 1) = - 1" by code_simp
  show "k_rtc_counter quiet_running = 0" by code_simp
qed (simp add: quiet_running_def)

text \<open>
  C1. Scheduler turns, API calls, blocking calls, task returns and RTC ticks never lead from
  \<^verbatim>\<open>mipos_start\<close> into the panic branch of the task state machine, provided that the
  application passes usable arguments to the API (\<open>user_ok\<close>) and that each deferred call a
  real-time routine asks for names an existing task that is not real-time and is suspended
  or already woken (\<open>turn_safe\<close>). In every state reached that way the task and timer tables
  are well-formed, every context the dispatcher may resume has been saved, and a running
  task is not idle and is the one \<^verbatim>\<open>task_context_ptr\<close> points to.
\<close>

theorem reachable_never_panics:
  assumes "user_ok u" "root \<noteq> 0" "reachable u (boot_state root param stack sz) (m, k)"
  shows "m \<noteq> Halted \<and> kernel_wf k \<and> contexts_saved k \<and>
    (\<forall>i d. m = InTask i d \<longrightarrow> i \<noteq> KERNEL__IDLE_TASK_ID \<and> k_task_context k = Some i)"
  using reachable_inv [OF assms(1,3) boot_state_inv [OF assms(2)]]
  by (cases m) (auto simp: sched_inv_def mip_simps)

text \<open>
  C17. The scheduler neither hangs nor faults under the same two conditions: in every state
  reached in which it has control, its next turn (soft timers, search, state machine,
  dispatch) returns, when the application passes usable arguments and each deferred call
  asked for in that turn names an existing task that is not real-time and is suspended or
  already woken.
\<close>

theorem scheduler_progress:
  assumes "user_ok u" "root \<noteq> 0" "reachable u (boot_state root param stack sz) (InScheduler, k)" "turn_safe u q k"
  shows "\<exists>m k'. scheduler_epoch u q sp k = Some (m, k') \<and> m \<noteq> Halted"
proof -
  have "sched_inv k"
    using reachable_inv [OF assms(1,3) boot_state_inv [OF assms(2)]] by simp
  with scheduler_epoch_inv [OF assms(1) _ assms(4), of sp] show ?thesis
    by (metis machine_inv.simps(3))
qed

text \<open>The system with the real-time routine, up to the turn in which the routine asks for task 1.\<close>

definition rt_running :: mipos_kernel where
  "rt_running = upd_task 1 (\<lambda>t. t\<lparr>t_status := TASK_RUNNING, t_kernel_sp := 77\<rparr>)
     ((snd quiet_boot)\<lparr>k_task_context := Some 1, k_current_task := 1, k_tick_counter := 1, k_rtc_counter := 1\<rparr>)"

definition rt_created :: mipos_kernel where
  "rt_created = snd (mipos_t_create ''rt'' 0x2000 0 0x9000 0x400 MIPOS_RT rt_running)"

definition rt_waiting :: mipos_kernel where
  "rt_waiting = upd_task 1 (\<lambda>t. t_set_wait_for_signal 1
     (t\<lparr>t_reg_state := Some (5, 1), t_process_sp := 99\<rparr>)) rt_created"

lemma rt_boot_turn: "turn_safe rt_user 1 (snd quiet_boot)"
  by code_simp

lemma rt_wait_turn: "turn_safe rt_user 1 rt_waiting"
  by code_simp

lemma rt_first_epoch:
  "scheduler_epoch rt_user 1 77 (snd quiet_boot) = Some (InTask 1 (Started 0x1000 0 0x83F0), rt_running)"
  unfolding scheduler_epoch_def by (subst task_search.simps) code_simp

lemma rt_wakes:
  "map_option fst (scheduler_epoch rt_user 1 78 rt_waiting) = Some (InTask 1 (Resumed 5))"
  unfolding scheduler_epoch_def by (subst task_search.simps) code_simp

lemma rt_reaches_waiting: "reachable rt_user (boot_state 0x1000 0 0x8000 0x400) (InScheduler, rt_waiting)"
proof -
  have "boot_state 0x1000 0 0x8000 0x400 = (InScheduler, snd quiet_boot)"
    unfolding quiet_boot_def boot_state_def snd_conv by (rule refl)
  then have "reachable rt_user (boot_state 0x1000 0 0x8000 0x400) (InScheduler, snd quiet_boot)"
    by (metis reachable.start)
  from reachable.step [OF this mstep.epoch [OF rt_boot_turn rt_first_epoch]]
  have running: "reachable rt_user (boot_state 0x1000 0 0x8000 0x400) (InTask 1 (Started 0x1000 0 0x83F0), rt_running)" .
  have "exec_syscall (SysCreate ''rt'' 0x2000 0 0x9000 0x400 MIPOS_RT) rt_running = Some rt_created"
    by (simp add: rt_created_def)
  from reachable.step [OF running mstep.api_call [OF _ this]]
  have created: "reachable rt_user (boot_state 0x1000 0 0x8000 0x400) (InTask 1 (Started 0x1000 0 0x83F0), rt_created)"
    by simp
  have "k_task_context rt_created = Some 1" by code_simp
  then have "t_suspend_enter 5 99 1 rt_created = Some rt_waiting"
    by (simp add: t_suspend_enter_def on_context_def rt_waiting_def)
  from reachable.step [OF created mstep.suspend [OF this]] show ?thesis .
qed

theorem reachable_never_panics_witness:
  "\<exists>k. reachable rt_user (boot_state 0x1000 0 0x8000 0x400) (InTask 1 (Resumed 5), k) \<and>
     kernel_wf k \<and> contexts_saved k \<and> k_task_context k = Some 1"
proof -
  obtain k where "scheduler_epoch rt_user 1 78 rt_waiting = Some (InTask 1 (Resumed 5), k)"
    using rt_wakes by auto
  from reachable.step [OF rt_reaches_waiting mstep.epoch [OF rt_wait_turn this]]
  have k: "reachable rt_user (boot_state 0x1000 0 0x8000 0x400) (InTask 1 (Resumed 5), k)" .
  from reachable_never_panics [OF rt_user_ok _ k] k show ?thesis by auto
qed

theorem scheduler_progress_witness:
  "\<exists>m k'. scheduler_epoch rt_user 1 78 rt_waiting = Some (m, k') \<and> m \<noteq> Halted"
  by (rule scheduler_progress [OF rt_user_ok _ rt_reaches_waiting rt_wait_turn]) simp

end
