(* ===== verification/Mipos_Round_Robin.thy ===== *)
theory Mipos_Round_Robin
  imports Mipos_Machine
begin

text \<open>
  What the search loop of \<^verbatim>\<open>mipos_start\<close> computes when no real-time task is registered:
  the loop is equivalent to \<open>round_robin\<close>, the first runnable user task after the
  current one in cyclic order, or idle when there is none. Each search that passes a
  runnable task over brings it nearer in the cyclic order.
\<close>

definition runnable :: "mipos_kernel \<Rightarrow> nat \<Rightarrow> bool" where
  "runnable k i \<longleftrightarrow>
     t_entry_point (task_of k i) \<noteq> 0 \<and>
     t_status (task_of k i) AND (TASK_NOT_RUNNING OR TASK_ZOMBIE OR TASK_FROZEN) = 0"

definition no_rt_tasks :: "mipos_kernel \<Rightarrow> bool" where
  "no_rt_tasks k \<longleftrightarrow> (\<forall>i < MIPOS_TASKS_TBL_ENTRIES_CNT. \<not> rt_task (t_flags (task_of k i)))"

definition nth_slot :: "mipos_kernel \<Rightarrow> nat \<Rightarrow> nat" where
  "nth_slot k d = (unat (k_current_task k) + d) mod MIPOS_TASKS_TBL_ENTRIES_CNT"

definition round_robin_from :: "mipos_kernel \<Rightarrow> nat \<Rightarrow> nat" where
  "round_robin_from k n =
     (case first_index (\<lambda>d. nth_slot k d \<noteq> 0 \<and> runnable k (nth_slot k d)) (Suc n) 9 of
        Some d \<Rightarrow> nth_slot k d | None \<Rightarrow> KERNEL__IDLE_TASK_ID)"

definition round_robin :: "mipos_kernel \<Rightarrow> nat" where
  "round_robin k = round_robin_from k 0"

definition slots_between :: "nat \<Rightarrow> nat \<Rightarrow> nat" where
  "slots_between c j = (j + 7 - c) mod MIPOS_TASKS_TBL_ENTRIES_CNT"

lemma first_index_step:
  "lo < hi \<Longrightarrow> first_index P lo hi = (if P lo then Some lo else first_index P (Suc lo) hi)"
  by (simp add: first_index_def upt_conv_Cons)

lemma task_search_step:
  assumes "no_rt_tasks k" "c < 8"
  shows "task_search u n (k\<lparr>k_current_task := of_nat c\<rparr>) =
    (let c' = (c + 1) mod 8; k' = k\<lparr>k_current_task := of_nat c'\<rparr> in
     if \<not> runnable k c' \<or> n + 1 \<le> 8 \<and> c' = 0 then task_search u (n + 1) k' else Some (c', k'))"
proof -
  let ?c = "(c + 1) mod 8" and ?kc = "k\<lparr>k_current_task := of_nat ((c + 1) mod 8)\<rparr>"
  have w: "(of_nat c + 1 :: u32) mod 8 = of_nat ?c"
  proof (rule word_unat_eq_iff [THEN iffD2])
    have "unat (of_nat c + 1 :: u32) = c + 1"
      using assms(2) by (simp add: unat_word_ariths unat_of_nat)
    then show "unat ((of_nat c + 1 :: u32) mod 8) = unat (of_nat ?c :: u32)"
      by (simp add: unat_mod unat_of_nat)
  qed
  have lt: "?c < 8" by simp
  then have un: "unat (of_nat ?c :: u32) = ?c" by (simp add: unat_of_nat)
  then have z: "(of_nat ?c = (0 :: u32)) = (?c = 0)" by (metis unat_0 unat_eq_zero)
  have nxt: "next_task (k\<lparr>k_current_task := of_nat c\<rparr>) = ?kc"
    using w by (simp add: next_task_def mip_simps)
  have "\<not> rt_task (t_flags (task_of k ?c))"
    using assms(1) by (simp add: no_rt_tasks_def mip_simps)
  with un z have "rt_handling u (unat (k_current_task ?kc)) ?kc = Some (?c, ?kc)"
    "search_cond (n + 1) ?c ?kc = (\<not> runnable k ?c \<or> n + 1 \<le> 8 \<and> ?c = 0)"
    by (auto simp: rt_handling_def search_cond_def runnable_def Let_def mip_simps)
  with nxt show ?thesis
    by (subst task_search.simps) (simp add: Let_def)
qed

text \<open>After a full turn without a hit the loop runs on to the idle slot and stops there.\<close>

lemma task_search_to_idle:
  assumes "no_rt_tasks k" "runnable k 0" "\<forall>i. 0 < i \<and> i < 8 \<longrightarrow> \<not> runnable k i" "c < 8" "8 \<le> n"
  shows "task_search u n (k\<lparr>k_current_task := of_nat c\<rparr>) = Some (0, k\<lparr>k_current_task := 0\<rparr>)"
  using assms(4,5)
proof (induction "8 - c" arbitrary: c n rule: less_induct)
  case less
  show ?case
  proof (cases "c = 7")
    case True
    with less.prems assms show ?thesis by (subst task_search_step) (simp_all add: Let_def)
  next
    case False
    then have c: "(c + 1) mod 8 = c + 1" "c + 1 < 8" using less.prems by simp_all
    with assms(3) have "\<not> runnable k (c + 1)" by simp
    with c less.prems less.hyps [of "c + 1" "n + 1"] show ?thesis
      by (subst task_search_step [OF assms(1)]) (simp_all add: Let_def del: of_nat_Suc of_nat_add)
  qed
qed

lemma nth_slot_covers:
  assumes "0 < i" "i < 8" "unat (k_current_task k) < 8"
  shows "\<exists>d. 0 < d \<and> d \<le> 8 \<and> nth_slot k d = i"
proof (cases "unat (k_current_task k) < i")
  case True
  with assms show ?thesis
    by (intro exI [of _ "i - unat (k_current_task k)"]) (simp add: nth_slot_def mip_simps)
next
  case False
  with assms show ?thesis
    by (intro exI [of _ "i + 8 - unat (k_current_task k)"]) (simp add: nth_slot_def mip_simps)
qed

lemma task_search_round_robin_from:
  assumes "no_rt_tasks k" "runnable k 0" "unat (k_current_task k) < 8"
    "\<forall>d. 0 < d \<and> d \<le> n \<longrightarrow> \<not> (nth_slot k d \<noteq> 0 \<and> runnable k (nth_slot k d))" "n \<le> 8"
  shows "task_search u n (k\<lparr>k_current_task := of_nat (nth_slot k n)\<rparr>) =
    Some (round_robin_from k n, k\<lparr>k_current_task := of_nat (round_robin_from k n)\<rparr>)"
  using assms(4,5)
proof (induction "8 - n" arbitrary: n rule: less_induct)
  case less
  have lt: "nth_slot k n < 8" by (simp add: nth_slot_def mip_simps)
  show ?case
  proof (cases "n = 8")
    case True
    with less.prems nth_slot_covers [OF _ _ assms(3)]
    have "\<forall>i. 0 < i \<and> i < 8 \<longrightarrow> \<not> runnable k i" by (metis not_gr_zero)
    with True lt show ?thesis
      by (simp add: task_search_to_idle [OF assms(1,2)] round_robin_from_def first_index_def mip_simps)
  next
    case False
    with less.prems have n: "Suc n \<le> 8" by simp
    have slot: "(nth_slot k n + 1) mod 8 = nth_slot k (Suc n)"
      by (simp add: nth_slot_def mip_simps mod_simps)
    show ?thesis
    proof (cases "nth_slot k (Suc n) \<noteq> 0 \<and> runnable k (nth_slot k (Suc n))")
      case True
      then have "round_robin_from k n = nth_slot k (Suc n)"
        using n by (simp add: round_robin_from_def first_index_step)
      with True slot lt show ?thesis
        by (subst task_search_step [OF assms(1)]) (simp_all add: Let_def)
    next
      case miss: False
      then have rr: "round_robin_from k n = round_robin_from k (Suc n)"
        using n unfolding round_robin_from_def by (subst first_index_step) auto
      have "\<forall>d. 0 < d \<and> d \<le> Suc n \<longrightarrow> \<not> (nth_slot k d \<noteq> 0 \<and> runnable k (nth_slot k d))"
        using less.prems(1) miss by (auto simp: le_Suc_eq)
      with less.hyps [of "Suc n"] n have IH: "task_search u (Suc n)
          (k\<lparr>k_current_task := of_nat (nth_slot k (Suc n))\<rparr>) =
          Some (round_robin_from k n, k\<lparr>k_current_task := of_nat (round_robin_from k n)\<rparr>)"
        by (simp add: rr)
      from miss n have "\<not> runnable k (nth_slot k (Suc n)) \<or> n + 1 \<le> 8 \<and> nth_slot k (Suc n) = 0"
        by auto
      with slot lt IH show ?thesis
        by (subst task_search_step [OF assms(1)]) (simp_all add: Let_def)
    qed
  qed
qed

lemma slots_between_zero:
  assumes "c < 8" "0 < e" "e \<le> 8"
  shows "slots_between c ((c + e) mod 8) = e - 1"
proof (cases "c + e < 8")
  case True
  then have "(c + e) mod 8 = c + e" by simp
  moreover have "c + e + 7 - c = (e - 1) + 8" using assms by simp
  moreover have "(e - 1 + 8) mod 8 = e - 1" unfolding mod_add_self2 using assms by simp
  ultimately show ?thesis by (simp only: slots_between_def mip_simps)
next
  case False
  with assms have "(c + e) mod 8 = c + e - 8"
    by (cases "c + e = 16") (simp_all add: mod_if)
  with False assms show ?thesis by (simp add: slots_between_def mip_simps)
qed

lemma slots_between_shift:
  assumes "d < e" "0 < d" "e \<le> 8"
  shows "slots_between ((c + d) mod 8) ((c + e) mod 8) = e - d - 1"
proof -
  have "(c + e) mod 8 = ((c + d) mod 8 + (e - d)) mod 8"
    unfolding mod_add_left_eq using assms by simp
  with slots_between_zero [of "(c + d) mod 8" "e - d"] assms show ?thesis by simp
qed

lemma task_search_round_robin:
  assumes "kernel_wf k" "no_rt_tasks k"
  shows "task_search u 0 k = Some (round_robin k, k\<lparr>k_current_task := of_nat (round_robin k)\<rparr>)"
proof -
  have cur: "unat (k_current_task k) < 8" using assms by (simp add: kernel_wf_def mip_simps)
  have idle: "runnable k 0"
    using assms tasks_wf_idle by (auto simp: kernel_wf_def runnable_def idle_wf_def mip_simps)
  have "of_nat (nth_slot k 0) = k_current_task k"
    using cur by (simp add: nth_slot_def mip_simps)
  then have "k\<lparr>k_current_task := of_nat (nth_slot k 0)\<rparr> = k" by simp
  with task_search_round_robin_from [OF assms(2) idle cur, of 0 u]
  show ?thesis by (simp add: round_robin_def)
qed

lemma round_robin_nearer:
  assumes "unat (k_current_task k) < 8" "0 < j" "j < 8" "runnable k j"
  shows "round_robin k \<noteq> 0 \<and> round_robin k < 8 \<and> runnable k (round_robin k) \<and>
    (round_robin k = j \<or>
     slots_between (round_robin k) j < slots_between (unat (k_current_task k)) j)"
proof -
  let ?P = "\<lambda>d. nth_slot k d \<noteq> 0 \<and> runnable k (nth_slot k d)"
  obtain e where e: "0 < e" "e \<le> 8" "nth_slot k e = j"
    using nth_slot_covers assms by blast
  have "first_index ?P 1 9 \<noteq> None"
    unfolding first_index_None using e assms by (metis One_nat_def Suc_leI le_imp_less_Suc
        less_numeral_extra(3) numeral_nat(5) Suc_numeral semiring_norm(5))
  then obtain d where d: "first_index ?P 1 9 = Some d" by blast
  then have hit: "1 \<le> d" "d < 9" "?P d" and least: "\<forall>x. 1 \<le> x \<and> x < d \<longrightarrow> \<not> ?P x"
    by (simp_all add: first_index_Some)
  have rr: "round_robin k = nth_slot k d"
    using d by (simp add: round_robin_def round_robin_from_def)
  have "d \<le> e"
  proof (rule ccontr)
    assume "\<not> d \<le> e"
    with e(1) least have "\<not> ?P e" by simp
    with e(3) assms show False by simp
  qed
  show ?thesis
  proof (cases "d = e")
    case True
    with rr e hit assms show ?thesis by simp
  next
    case False
    with \<open>d \<le> e\<close> have lt: "d < e" by simp
    let ?c = "unat (k_current_task k)"
    have j: "j = (?c + e) mod 8" and i: "round_robin k = (?c + d) mod 8"
      using e rr by (simp_all add: nth_slot_def mip_simps)
    have "slots_between ((?c + d) mod 8) ((?c + e) mod 8) = e - d - 1"
      "slots_between ?c ((?c + e) mod 8) = e - 1"
      using lt e(1,2) hit(1) assms(1) by (simp_all add: slots_between_shift slots_between_zero)
    with i j lt hit rr show ?thesis by (auto simp: nth_slot_def mip_simps)
  qed
qed

text \<open>
  C16. In a well-formed kernel without real-time tasks, the search loop returns, and what it
  selects is the round-robin choice: the first runnable user task after the current one
  in cyclic order, or idle when no user task is runnable. Only \<^verbatim>\<open>current_task\<close> changes.
\<close>

theorem task_search_is_round_robin:
  assumes "kernel_wf k" "no_rt_tasks k"
  shows "task_search u 0 k = Some (round_robin k, k\<lparr>k_current_task := of_nat (round_robin k)\<rparr>)"
  using assms by (rule task_search_round_robin)

text \<open>
  C9. Without real-time tasks no runnable task starves: while a user task is runnable, the search of the scheduler selects a
  runnable user task, and when that is another one the number of table slots between the selected
  task and the waiting one has become strictly smaller, so the waiting task is selected
  after at most seven searches.
\<close>

theorem round_robin_bounded_waiting:
  assumes "kernel_wf k" "no_rt_tasks k" "0 < j" "j < 8" "runnable k j"
  shows "\<exists>i. task_search u 0 k = Some (i, k\<lparr>k_current_task := of_nat i\<rparr>) \<and> i \<noteq> 0 \<and> i < 8 \<and> runnable k i \<and>
    (i = j \<or> slots_between i j < slots_between (unat (k_current_task k)) j)"
proof -
  have "unat (k_current_task k) < 8" using assms(1) by (simp add: kernel_wf_def mip_simps)
  from round_robin_nearer [OF this assms(3-5)] task_search_round_robin [OF assms(1,2), of u] show ?thesis by blast
qed

theorem task_search_is_round_robin_witness:
  "kernel_wf (snd quiet_boot) \<and> no_rt_tasks (snd quiet_boot) \<and> round_robin (snd quiet_boot) = 1 \<and>
   task_search quiet_user 0 (snd quiet_boot) = Some (1, (snd quiet_boot)\<lparr>k_current_task := 1\<rparr>)"
proof -
  have wf: "kernel_wf (snd quiet_boot)" using quiet_boot_inv by (simp add: sched_inv_def)
  have rt: "no_rt_tasks (snd quiet_boot)" by code_simp
  have rr: "round_robin (snd quiet_boot) = 1" by code_simp
  from task_search_is_round_robin [OF wf rt, of quiet_user] wf rt rr show ?thesis by simp
qed

theorem round_robin_bounded_waiting_witness:
  "runnable (snd quiet_boot) 1 \<and> (\<exists>i k'. task_search quiet_user 0 (snd quiet_boot) = Some (i, k') \<and> i \<noteq> 0)"
proof -
  have wf: "kernel_wf (snd quiet_boot)" using quiet_boot_inv by (simp add: sched_inv_def)
  have rt: "no_rt_tasks (snd quiet_boot)" by code_simp
  have r: "runnable (snd quiet_boot) 1" by code_simp
  from round_robin_bounded_waiting [OF wf rt _ _ r, of quiet_user] r show ?thesis by auto
qed

end
