(* ===== verification/Mipos_Timer_Scan.thy ===== *)
theory Mipos_Timer_Scan
  imports Mipos_Machine
begin

text \<open>
  What one pass of the scheduler over the timers does to each of them and which handlers it
  calls, for handlers that use the task API freely and leave the timers alone, and when the
  next pass is due.
\<close>

fun task_call :: "syscall \<Rightarrow> bool" where
  "task_call (SysTimerStart he hc iv ctx per) = False"
| "task_call (SysTimerCancel tid) = False"
| "task_call (SysTimerDelete tid) = False"
| "task_call (SysTimerRestart tid iv) = False"
| "task_call _ = True"

definition timer_silent :: "user_code \<Rightarrow> bool" where
  "timer_silent u \<longleftrightarrow> (\<forall>fn arg k. list_all task_call (u_callback u fn arg k))"

text \<open>Two running timers: a one-shot that is due at RTC value 100 and a periodic one at 500.\<close>

definition timers_running :: mipos_kernel where
  "timers_running =
     snd (mipos_timer_start 0x3000 0 500 0 True
       (snd (mipos_timer_start 0x2000 0x2100 100 0 False quiet_running)))"

definition timers_due :: mipos_kernel where
  "timers_due = timers_running\<lparr>k_rtc_counter := 150\<rparr>"

text \<open>The specification of a pass for one timer: is it active afterwards, and its descriptor.\<close>

definition timer_after :: "u64 \<Rightarrow> bool \<times> mipos_timer \<Rightarrow> bool \<times> mipos_timer" where
  "timer_after rtc ap =
     (let (active, p) = ap in
      if active \<and> tm_flgs p AND TIMER_FLG_CANCELLED \<noteq> 0 then (False, p)
      else if active \<and> tm_rtc_timeout p \<le> rtc then
        if tm_flgs p AND TIMER_FLG_PERIODIC = 0
        then (False, p\<lparr>tm_flgs := tm_flgs p OR TIMER_FLG_EXPIRED\<rparr>)
        else (True, p\<lparr>tm_flgs := tm_flgs p AND NOT TIMER_FLG_EXPIRED,
                      tm_rtc_timeout := rtc + tm_interval p\<rparr>)
      else (active, p))"

text \<open>The handler that a pass calls for a timer, with its argument.\<close>

definition timer_fires :: "u64 \<Rightarrow> bool \<times> mipos_timer \<Rightarrow> (ptr \<times> ptr) list" where
  "timer_fires rtc ap =
     (let (active, p) = ap in
      if active \<and> tm_flgs p AND TIMER_FLG_CANCELLED \<noteq> 0
      then if tm_on_cancel p \<noteq> 0 then [(tm_on_cancel p, tm_context p)] else []
      else if active \<and> tm_rtc_timeout p \<le> rtc then [(tm_on_expire p, tm_context p)]
      else [])"

text \<open>
  \<open>handled u cs k k'\<close>: apart from the timers, \<open>k'\<close> is what is left of \<open>k\<close> after exactly the
  handler calls \<open>cs\<close>, one after the other.
\<close>

definition untimed :: "mipos_kernel \<Rightarrow> mipos_kernel" where
  "untimed k = k\<lparr>k_timer_table := [], k_timer_bitmap := 0, k_next_rtc_timeout := 0\<rparr>"

inductive handled :: "user_code \<Rightarrow> (ptr \<times> ptr) list \<Rightarrow> mipos_kernel \<Rightarrow> mipos_kernel \<Rightarrow> bool" for u where
  no_call: "untimed k' = untimed k \<Longrightarrow> handled u [] k k'"
| handler: "untimed kc = untimed k \<Longrightarrow> MIPOS_CALL1 u fn arg kc = Some kd \<Longrightarrow> handled u cs kd k' \<Longrightarrow>
    handled u ((fn, arg) # cs) k k'"

inductive_simps handled_Nil: "handled u [] k k'"
inductive_simps handled_Cons: "handled u (c # cs) k k'"

lemma handled_untimed: "handled u cs k k' \<Longrightarrow> untimed k0 = untimed k \<Longrightarrow> handled u cs k0 k'"
  by (cases cs) (auto simp: handled_Nil handled_Cons)

lemma handled_append: "handled u cs k k1 \<Longrightarrow> handled u ds k1 k2 \<Longrightarrow> handled u (cs @ ds) k k2"
proof (induction rule: handled.induct)
  case (no_call k' k)
  then show ?case using handled_untimed by auto
next
  case (handler kc k fn arg kd cs k')
  then show ?case by (auto intro: handled.handler)
qed

lemma handled_one:
  assumes "untimed kc = untimed k" "MIPOS_CALL1 u fn arg kc = Some kd" "untimed k' = untimed kd"
  shows "handled u [(fn, arg)] k k'"
  by (rule handled.handler [OF assms(1,2) handled.no_call [OF assms(3)]])

lemma untimed_simps [simp]:
  "untimed (k\<lparr>k_timer_bitmap := b\<rparr>) = untimed k" "untimed (k\<lparr>k_next_rtc_timeout := r\<rparr>) = untimed k"
  "untimed (upd_timer n f k) = untimed k"
  by (simp_all add: untimed_def upd_timer_def)

definition timer_view :: "mipos_kernel \<Rightarrow> nat \<Rightarrow> bool \<times> mipos_timer" where
  "timer_view k n = (bit (k_timer_bitmap k) n, timer_of k n)"

definition same_timers :: "mipos_kernel \<Rightarrow> mipos_kernel \<Rightarrow> bool" where
  "same_timers k k' \<longleftrightarrow>
     k_timer_table k' = k_timer_table k \<and> k_timer_bitmap k' = k_timer_bitmap k \<and>
     k_rtc_counter k' = k_rtc_counter k"

lemma task_call_silent:
  assumes "task_call c"
  shows "\<exists>k'. exec_syscall c k = Some k' \<and> same_timers k k'"
  using assms
  by (cases c) (simp_all add: same_timers_def task_op_defs mipos_set_idle_cbk_def)

lemma run_task_calls:
  "list_all task_call cs \<Longrightarrow> \<exists>k'. run_ops exec_syscall cs k = Some k' \<and> same_timers k k'"
proof (induction cs arbitrary: k)
  case Nil
  then show ?case by (simp add: same_timers_def)
next
  case (Cons c cs)
  then obtain k1 where "exec_syscall c k = Some k1" "same_timers k k1"
    using task_call_silent by (metis list.pred_inject(2))
  moreover from Cons obtain k2 where "run_ops exec_syscall cs k1 = Some k2" "same_timers k1 k2"
    by (metis list.pred_inject(2))
  ultimately show ?case by (auto simp: same_timers_def)
qed

lemma call_silent:
  assumes "timer_silent u" "fn \<noteq> 0"
  shows "\<exists>k'. MIPOS_CALL1 u fn arg k = Some k' \<and> same_timers k k'"
  using assms run_task_calls [of "u_callback u fn arg k" k]
  by (simp add: MIPOS_CALL1_def timer_silent_def)

lemma and_not_or: "(w OR m) AND NOT m = w AND NOT (m :: 'a::len word)"
  by (simp add: bit.conj_disj_distrib2)

text \<open>The claim of a visit, used once per branch of the code.\<close>

definition visit_ok :: "user_code \<Rightarrow> nat \<Rightarrow> mipos_kernel \<Rightarrow> bool" where
  "visit_ok u n k \<longleftrightarrow>
     (\<exists>k'. timer_visit u n k = Some k' \<and> timers_wf k' \<and> k_rtc_counter k' = k_rtc_counter k \<and>
       handled u (timer_fires (k_rtc_counter k) (timer_view k n)) k k' \<and>
       (\<forall>m. timer_view k' m =
          (if m = n then timer_after (k_rtc_counter k) (timer_view k n) else timer_view k m)))"

lemma visit_skipped:
  assumes "timers_wf k"
    "\<not> bit (k_timer_bitmap k) n \<or> tm_flgs (timer_of k n) AND TIMER_FLG_CANCELLED = 0 \<and>
       \<not> tm_rtc_timeout (timer_of k n) \<le> k_rtc_counter k"
  shows "visit_ok u n k"
  using assms
  by (auto simp: visit_ok_def timer_visit_def timer_after_def timer_fires_def timer_view_def timer_mask_bits
      Let_def handled_Nil)

lemma visit_cancelled:
  assumes u: "timer_silent u" and wf: "timers_wf k" and n: "n < 4"
    and act: "bit (k_timer_bitmap k) n" "tm_flgs (timer_of k n) AND TIMER_FLG_CANCELLED \<noteq> 0"
  shows "visit_ok u n k"
proof -
  let ?p = "timer_of k n"
  let ?off = "k\<lparr>k_timer_bitmap := k_timer_bitmap k AND NOT (timer_mask n)\<rparr>"
  have "\<exists>k'. (if tm_on_cancel ?p \<noteq> 0 then MIPOS_CALL1 u (tm_on_cancel ?p) (tm_context ?p) ?off
      else Some ?off) = Some k' \<and> same_timers ?off k'"
    using call_silent [OF u, of "tm_on_cancel ?p" "tm_context ?p" ?off]
    by (cases "tm_on_cancel ?p = 0") (simp_all add: same_timers_def)
  then obtain k' where call: "(if tm_on_cancel ?p \<noteq> 0 then MIPOS_CALL1 u (tm_on_cancel ?p) (tm_context ?p) ?off
      else Some ?off) = Some k'" and k': "timer_visit u n k = Some k'" "same_timers ?off k'"
    using act by (auto simp: timer_visit_def timer_mask_bits Let_def)
  have off: "untimed ?off = untimed k" by simp
  have "handled u (timer_fires (k_rtc_counter k) (timer_view k n)) k k'"
  proof (cases "tm_on_cancel ?p = 0")
    case True
    with call act show ?thesis by (auto simp: timer_fires_def timer_view_def handled_Nil)
  next
    case False
    with call act handled_one [OF off _ refl] show ?thesis by (simp add: timer_fires_def timer_view_def)
  qed
  have "timers_wf k'"
    using k'(2) timers_wf_table [of k' ?off] timers_wf_deactivate [OF wf n]
    by (simp add: same_timers_def)
  moreover have "timer_view k' m =
      (if m = n then timer_after (k_rtc_counter k) (timer_view k n) else timer_view k m)" for m
    using k'(2) act n
    by (auto simp: same_timers_def timer_view_def timer_of_def timer_after_def timer_mask_bits)
  ultimately show ?thesis using k' \<open>handled _ _ _ _\<close> by (auto simp: visit_ok_def same_timers_def)
qed

lemma visit_due:
  assumes u: "timer_silent u" and wf: "timers_wf k" and n: "n < 4"
    and act: "bit (k_timer_bitmap k) n" "tm_flgs (timer_of k n) AND TIMER_FLG_CANCELLED = 0"
      "tm_rtc_timeout (timer_of k n) \<le> k_rtc_counter k"
  shows "visit_ok u n k"
proof -
  let ?p = "timer_of k n"
  let ?mark = "upd_timer n (\<lambda>p. p\<lparr>tm_flgs := tm_flgs p OR TIMER_FLG_EXPIRED\<rparr>)
      (k\<lparr>k_next_rtc_timeout := 0\<rparr>)"
  have len: "length (k_timer_table k) = 4" using wf by simp
  have "tm_on_expire ?p \<noteq> 0" using wf act(1) by (simp add: timers_wf_def)
  from call_silent [OF u this] obtain k2 where
    k2: "MIPOS_CALL1 u (tm_on_expire ?p) (tm_context ?p) ?mark = Some k2" "same_timers ?mark k2"
    by blast
  then have p2: "timer_of k2 m = timer_of ?mark m" "k_timer_bitmap k2 = k_timer_bitmap k"
      "length (k_timer_table k2) = 4" "k_rtc_counter k2 = k_rtc_counter k" for m
    using len by (simp_all add: same_timers_def timer_of_def)
  have wf2: "timers_wf k2"
    using wf len n by (auto simp: timers_wf_def p2 timer_of_upd_timer mip_simps)
  have per: "(tm_flgs ?p OR TIMER_FLG_EXPIRED) AND TIMER_FLG_PERIODIC = tm_flgs ?p AND TIMER_FLG_PERIODIC"
    by (simp add: mip_simps bit.conj_disj_distrib2)
  have fires: "timer_fires (k_rtc_counter k) (timer_view k n) = [(tm_on_expire ?p, tm_context ?p)]"
    using act by (simp add: timer_fires_def timer_view_def)
  have mark: "untimed ?mark = untimed k" by simp
  have calls: "handled u (timer_fires (k_rtc_counter k) (timer_view k n)) k k'"
    if "untimed k' = untimed k2" for k'
    unfolding fires by (rule handled_one [OF mark k2(1) that])
  note visit = timer_visit_def timer_mask_bits Let_def timer_view_def timer_after_def
  show ?thesis
  proof (cases "tm_flgs ?p AND TIMER_FLG_PERIODIC = 0")
    case True
    let ?k' = "k2\<lparr>k_timer_bitmap := k_timer_bitmap k2 AND NOT (timer_mask n)\<rparr>"
    from True act k2(1) have "timer_visit u n k = Some ?k'"
      "\<forall>m. timer_view ?k' m = (if m = n then timer_after (k_rtc_counter k) (timer_view k n) else timer_view k m)"
      using len n by (simp_all add: visit p2 per)
    with timers_wf_deactivate [OF wf2 n] calls [of ?k'] p2(4) show ?thesis by (simp add: visit_ok_def)
  next
    case False
    let ?k' = "upd_timer n (\<lambda>p. p\<lparr>tm_flgs := tm_flgs p AND NOT TIMER_FLG_EXPIRED,
        tm_rtc_timeout := k_rtc_counter k2 + tm_interval p\<rparr>) k2"
    have "timers_wf ?k'" by (rule timers_wf_upd [OF wf2]) simp
    moreover from False act k2(1) have "timer_visit u n k = Some ?k'"
      "\<forall>m. timer_view ?k' m = (if m = n then timer_after (k_rtc_counter k) (timer_view k n) else timer_view k m)"
      using len n by (simp_all add: visit p2 per and_not_or)
    ultimately show ?thesis using calls [of ?k'] p2(4) by (simp add: visit_ok_def)
  qed
qed

lemma timer_visit_after:
  "timer_silent u \<Longrightarrow> timers_wf k \<Longrightarrow> n < 4 \<Longrightarrow> visit_ok u n k"
  using visit_skipped visit_cancelled visit_due by blast

lemma timer_scan_after:
  assumes "timer_silent u" "timers_wf k" "distinct ns" "\<forall>n \<in> set ns. n < 4"
  shows "\<exists>k'. run_ops (timer_visit u) ns k = Some k' \<and> timers_wf k' \<and>
    k_rtc_counter k' = k_rtc_counter k \<and>
    handled u (concat (map (\<lambda>n. timer_fires (k_rtc_counter k) (timer_view k n)) ns)) k k' \<and>
    (\<forall>m. timer_view k' m =
       (if m \<in> set ns then timer_after (k_rtc_counter k) (timer_view k m) else timer_view k m))"
  using assms(2-4)
proof (induction ns arbitrary: k)
  case Nil
  then show ?case by (simp add: handled_Nil)
next
  case (Cons n ns)
  then obtain k1 where k1: "timer_visit u n k = Some k1" "timers_wf k1"
      "k_rtc_counter k1 = k_rtc_counter k"
      "handled u (timer_fires (k_rtc_counter k) (timer_view k n)) k k1"
      "\<forall>m. timer_view k1 m =
         (if m = n then timer_after (k_rtc_counter k) (timer_view k n) else timer_view k m)"
    using timer_visit_after [OF assms(1), of k n] by (auto simp: visit_ok_def)
  have same: "map (\<lambda>m. timer_fires (k_rtc_counter k) (timer_view k1 m)) ns =
      map (\<lambda>m. timer_fires (k_rtc_counter k) (timer_view k m)) ns"
    using k1(5) Cons.prems(2) by auto
  from k1 Cons.prems Cons.IH [of k1] obtain k2 where k2: "run_ops (timer_visit u) ns k1 = Some k2"
      "timers_wf k2" "k_rtc_counter k2 = k_rtc_counter k"
      "handled u (concat (map (\<lambda>m. timer_fires (k_rtc_counter k) (timer_view k m)) ns)) k1 k2"
      "\<forall>m. timer_view k2 m =
         (if m \<in> set ns then timer_after (k_rtc_counter k) (timer_view k1 m) else timer_view k1 m)"
    unfolding same [symmetric] by auto
  from k1 k2 Cons.prems handled_append [OF k1(4) k2(4)] show ?case by auto
qed

subsection \<open>The next pass\<close>

lemma timer_select_frame [simp]:
  "k_timer_bitmap (timer_select n k) = k_timer_bitmap k"
  "k_timer_table (timer_select n k) = k_timer_table k"
  "timer_of (timer_select n k) m = timer_of k m"
  "timer_view (timer_select n k) m = timer_view k m"
  "timers_wf (timer_select n k) = timers_wf k"
  by (simp_all add: timer_select_def timer_of_def timer_view_def timers_wf_def)

lemma timer_select_fold_frame [simp]:
  "timer_view (fold timer_select ns k) m = timer_view k m"
  "timers_wf (fold timer_select ns k) = timers_wf k"
  by (induction ns arbitrary: k) simp_all

lemma timer_select_fold_bound:
  assumes "\<forall>n. fst (timer_view k n) \<longrightarrow> tm_rtc_timeout (snd (timer_view k n)) \<noteq> 0"
  shows "(\<forall>n \<in> set ns. fst (timer_view k n) \<longrightarrow>
      k_next_rtc_timeout (fold timer_select ns k) \<noteq> 0 \<and>
      k_next_rtc_timeout (fold timer_select ns k) \<le> tm_rtc_timeout (snd (timer_view k n))) \<and>
    (k_next_rtc_timeout k \<noteq> 0 \<longrightarrow>
      k_next_rtc_timeout (fold timer_select ns k) \<noteq> 0 \<and>
      k_next_rtc_timeout (fold timer_select ns k) \<le> k_next_rtc_timeout k)"
  using assms
proof (induction ns arbitrary: k)
  case Nil
  then show ?case by simp
next
  case (Cons a ns)
  have "fst (timer_view k a) \<longrightarrow> k_next_rtc_timeout (timer_select a k) \<noteq> 0 \<and>
      k_next_rtc_timeout (timer_select a k) \<le> tm_rtc_timeout (snd (timer_view k a))"
    and "k_next_rtc_timeout k \<noteq> 0 \<longrightarrow> k_next_rtc_timeout (timer_select a k) \<noteq> 0 \<and>
      k_next_rtc_timeout (timer_select a k) \<le> k_next_rtc_timeout k"
    using Cons.prems by (auto simp: timer_select_def timer_view_def timer_mask_bits)
  with Cons.IH [of "timer_select a k"] Cons.prems show ?case by (auto intro: order_trans)
qed

lemma untimed_select: "untimed (fold timer_select ns k) = untimed k"
  by (induction ns arbitrary: k) (simp_all add: timer_select_def)

lemma timer_select_next_bound:
  assumes "timers_wf k" "\<forall>n < MIPOS_MAX_TIMERS_NO. tm_rtc_timeout (snd (timer_view k n)) \<noteq> 0"
  shows "next_bound (fold timer_select [0..<4] k)"
proof -
  have lt: "n < MIPOS_MAX_TIMERS_NO" if "fst (timer_view k n)" for n
    using that assms(1) by (simp add: timer_view_def timers_wf_def mip_simps)
  with assms(2) have "\<forall>n. fst (timer_view k n) \<longrightarrow> tm_rtc_timeout (snd (timer_view k n)) \<noteq> 0" by blast
  from timer_select_fold_bound [OF this, of "[0..<4]"] lt
  have "\<forall>n. fst (timer_view (fold timer_select [0..<4] k) n) \<longrightarrow>
      k_next_rtc_timeout (fold timer_select [0..<4] k) \<le> tm_rtc_timeout (snd (timer_view (fold timer_select [0..<4] k) n))"
    by (simp add: mip_simps del: upt_rec_numeral)
  then show ?thesis by (simp add: next_bound_def timer_view_def)
qed

lemma soft_timers_due:
  assumes "k_timer_bitmap k \<noteq> 0"
    "k_next_rtc_timeout k = 0 \<or> k_next_rtc_timeout k \<le> k_rtc_counter k"
    "run_ops (timer_visit u) [0..<4] k = Some k1"
  shows "soft_timers u k = Some (fold timer_select [0..<4] k1)"
  unfolding soft_timers_def using assms by (simp add: mip_simps)

text \<open>
  C35. A pass over the timers, when one is due and the handlers make no timer calls of their
  own (\<open>timer_silent\<close>), treats every timer as specified: a cancelled one becomes inactive, an
  expired one-shot becomes inactive and marked expired, an expired periodic one is re-armed
  one interval ahead, and all others are untouched. It calls, in the order of the table,
  exactly the cancel handlers of the cancelled timers (those that have one) and the expiry
  handlers of the expired ones, each with the timer's context, and changes nothing else of
  the kernel. Unless a timeout has wrapped around to 0, \<^verbatim>\<open>next_rtc_timeout\<close> is then not later
  than any active timer's timeout.
\<close>

theorem soft_timers_pass:
  assumes "timer_silent u" "timers_wf k" "k_timer_bitmap k \<noteq> 0"
    "k_next_rtc_timeout k = 0 \<or> k_next_rtc_timeout k \<le> k_rtc_counter k"
  shows "\<exists>k'. soft_timers u k = Some k' \<and>
    (\<forall>n < MIPOS_MAX_TIMERS_NO.
       timer_view k' n = timer_after (k_rtc_counter k) (timer_view k n)) \<and>
    handled u (concat (map (\<lambda>n. timer_fires (k_rtc_counter k) (timer_view k n)) [0..<MIPOS_MAX_TIMERS_NO])) k k' \<and>
    ((\<forall>n < MIPOS_MAX_TIMERS_NO. tm_rtc_timeout (snd (timer_view k' n)) \<noteq> 0) \<longrightarrow> next_bound k')"
proof -
  obtain k1 where k1: "run_ops (timer_visit u) [0..<4] k = Some k1" "timers_wf k1"
      "handled u (concat (map (\<lambda>n. timer_fires (k_rtc_counter k) (timer_view k n)) [0..<4])) k k1"
      "\<forall>m. timer_view k1 m = (if m \<in> set [0..<4] then timer_after (k_rtc_counter k) (timer_view k m)
         else timer_view k m)"
    using timer_scan_after [OF assms(1,2), of "[0..<4]"] by auto
  let ?k2 = "fold timer_select [0..<4] k1"
  have "handled u (concat (map (\<lambda>n. timer_fires (k_rtc_counter k) (timer_view k n)) [0..<4]) @ []) k ?k2"
    by (rule handled_append [OF k1(3)]) (simp add: handled_Nil untimed_select del: upt_rec_numeral)
  moreover have "next_bound ?k2" if "\<forall>n < MIPOS_MAX_TIMERS_NO. tm_rtc_timeout (snd (timer_view ?k2 n)) \<noteq> 0"
    by (rule timer_select_next_bound [OF k1(2)]) (use that in \<open>simp del: upt_rec_numeral\<close>)
  ultimately show ?thesis
    using soft_timers_due [OF assms(3,4) k1(1)] k1(4) by (simp add: mip_simps del: upt_rec_numeral)
qed

subsection \<open>Starting, restarting and cancelling\<close>

text \<open>
  \<^verbatim>\<open>mipos_timer_start\<close> takes the first free slot, makes it active with its timeout one
  interval ahead and leaves the other timers alone; without a handler or a free slot it
  returns -1 and changes nothing.
\<close>

theorem timer_start_spec:
  assumes "length (k_timer_table k) = MIPOS_MAX_TIMERS_NO" "he \<noteq> 0"
  shows "case first_index (\<lambda>tid. tm_on_expire (timer_of k tid) = 0) 0 MIPOS_MAX_TIMERS_NO of
      None \<Rightarrow> mipos_timer_start he hc iv ctx per k = (- 1, k)
    | Some tid \<Rightarrow> \<exists>k'. mipos_timer_start he hc iv ctx per k = (int tid, k') \<and>
        (\<forall>n. timer_view k' n =
          (if n = tid
           then (True, \<lparr>tm_on_expire = he, tm_on_cancel = hc, tm_context = ctx,
                   tm_rtc_timeout = k_rtc_counter k + iv,
                   tm_flgs = (if per then TIMER_FLG_PERIODIC else 0), tm_interval = iv\<rparr>)
           else timer_view k n))"
proof (cases "free_timer k")
  case None
  then show ?thesis by (simp add: timer_start_fails)
next
  case (Some tid)
  then have "tid < 4" by (simp add: first_index_Some mip_simps)
  moreover have "length (k_timer_table k) = 4" using assms(1) by (simp add: mip_simps)
  moreover obtain r k' where "mipos_timer_start he hc iv ctx per k = (r, k')" by fastforce
  ultimately show ?thesis
    using timer_start_slot [OF assms(2) Some, of hc iv ctx per] Some
    by (simp add: timer_view_def timer_mask_bits)
qed

text \<open>
  Starting a timer keeps \<^verbatim>\<open>next_rtc_timeout\<close> a lower bound of the active timeouts, as long
  as it is one already and is not the forced-rescan marker 0 with other timers active.
\<close>

theorem timer_start_keeps_bound:
  assumes "timers_wf k" "next_bound k" "k_next_rtc_timeout k \<noteq> 0 \<or> k_timer_bitmap k = 0"
  shows "next_bound (snd (mipos_timer_start he hc iv ctx per k))"
proof (cases "he = 0 \<or> free_timer k = None")
  case True
  with assms(2) show ?thesis by (simp add: timer_start_fails)
next
  case False
  then obtain tid where slot: "he \<noteq> 0" "free_timer k = Some tid" by blast
  then have "tid < 4" by (simp add: first_index_Some mip_simps)
  with assms show ?thesis
    by (auto simp: next_bound_def timer_start_slot [OF slot] timer_mask_bits)
qed

text \<open>
  Starting a timer right after cancelling another one silences all earlier timers: the
  start overwrites the forced-rescan marker 0 by its own timeout, and until the RTC
  reaches that value the scheduler looks at no timer, due or cancelled.
\<close>

theorem start_after_cancel_delays_timers:
  assumes "mipos_timer_cancel tid k = (0, k1)" "mipos_timer_start he hc iv ctx per k1 = (int n, k2)"
    "length (k_timer_table k) = MIPOS_MAX_TIMERS_NO"
    "r < k_rtc_counter k + iv"
  shows "soft_timers u (k2\<lparr>k_rtc_counter := r\<rparr>) = Some (k2\<lparr>k_rtc_counter := r\<rparr>)"
proof -
  have k1: "k_next_rtc_timeout k1 = 0" "k_rtc_counter k1 = k_rtc_counter k"
      "length (k_timer_table k1) = 4"
    using assms(1,3) by (auto simp: mipos_timer_cancel_def mip_simps split: if_splits)
  have "he \<noteq> 0" "free_timer k1 \<noteq> None"
    using assms(2) timer_start_fails [of he k1 hc iv ctx per] by force+
  then obtain m where "he \<noteq> 0" "free_timer k1 = Some m" by blast
  from timer_start_slot(4) [OF this k1(3), of hc iv ctx per] assms(2) k1
  have "k_next_rtc_timeout k2 = k_rtc_counter k + iv" by simp
  with assms(4) show ?thesis by (auto simp: soft_timers_def)
qed

text \<open>
  \<^verbatim>\<open>mipos_timer_restart\<close> of an expired one-shot timer reports success and sets a new
  timeout, but the timer stays inactive: no pass of the scheduler will ever look at it.
\<close>

theorem timer_restart_stays_inactive:
  assumes "mipos_timer_restart tid iv k = Some (0, k')" "\<not> bit (k_timer_bitmap k) (nat tid)"
  shows "\<not> bit (k_timer_bitmap k') (nat tid) \<and> timer_visit u (nat tid) k' = Some k'"
proof -
  have "k_timer_bitmap k' = k_timer_bitmap k"
    using assms(1) by (auto simp: mipos_timer_restart_def Let_def split: if_splits)
  with assms(2) show ?thesis by (simp add: timer_visit_def timer_mask_bits)
qed

lemma quiet_running_timers:
  "timers_wf quiet_running" "k_timer_bitmap quiet_running = 0" "k_next_rtc_timeout quiet_running = 0"
proof -
  show "k_timer_bitmap quiet_running = 0" by code_simp
  then show "timers_wf quiet_running"
    using quiet_boot_inv
    by (auto simp: sched_inv_def kernel_wf_def quiet_running_def timers_wf_def timer_of_def)
  show "k_next_rtc_timeout quiet_running = 0" by code_simp
qed

lemma timers_running_facts:
  "k_timer_bitmap timers_running = 3" "k_next_rtc_timeout timers_running = 100"
  "k_rtc_counter timers_running = 0"
  "tm_flgs (timer_of timers_running 0) = 0" "tm_rtc_timeout (timer_of timers_running 0) = 100"
  "timers_wf timers_running"
proof -
  show "k_timer_bitmap timers_running = 3" by code_simp
  show "k_next_rtc_timeout timers_running = 100" by code_simp
  show "k_rtc_counter timers_running = 0" by code_simp
  show "tm_flgs (timer_of timers_running 0) = 0" by code_simp
  show "tm_rtc_timeout (timer_of timers_running 0) = 100" by code_simp
  show "timers_wf timers_running"
    by (simp add: timers_running_def timer_start_wf quiet_running_timers)
qed

lemma timers_due_facts:
  "timers_wf timers_due" "k_timer_bitmap timers_due \<noteq> 0"
  "k_next_rtc_timeout timers_due = 0 \<or> k_next_rtc_timeout timers_due \<le> k_rtc_counter timers_due"
  using timers_running_facts(1,2,6) timers_wf_table [of timers_due timers_running]
  by (simp_all add: timers_due_def)

lemma timers_due_after:
  "timer_after (k_rtc_counter timers_due) (timer_view timers_due 0) =
     (False, (timer_of timers_due 0)\<lparr>tm_flgs := TIMER_FLG_EXPIRED\<rparr>)"
  using timers_running_facts
  by (simp add: timer_after_def timer_view_def timers_due_def timer_of_def)

text \<open>A handler that notifies task 1.\<close>

definition notify_user :: user_code where
  "notify_user = \<lparr>u_callback = (\<lambda>fn arg k. if fn = 0x2000 then [SysNotify 1 4] else []), u_rt = (\<lambda>_ _ _. ([], 0))\<rparr>"

lemma notify_timer_silent: "timer_silent notify_user"
  by (simp add: timer_silent_def notify_user_def)

lemma timers_due_fires:
  "concat (map (\<lambda>n. timer_fires (k_rtc_counter timers_due) (timer_view timers_due n)) [0..<MIPOS_MAX_TIMERS_NO]) =
     [(0x2000, 0)]"
  by code_simp

theorem soft_timers_pass_witness:
  "\<exists>k'. soft_timers notify_user timers_due = Some k' \<and> \<not> fst (timer_view k' 0) \<and>
     tm_flgs (snd (timer_view k' 0)) = TIMER_FLG_EXPIRED \<and> handled notify_user [(0x2000, 0)] timers_due k'"
proof -
  obtain k' where "soft_timers notify_user timers_due = Some k'"
      "\<forall>n < MIPOS_MAX_TIMERS_NO. timer_view k' n =
         timer_after (k_rtc_counter timers_due) (timer_view timers_due n)"
      "handled notify_user [(0x2000, 0)] timers_due k'"
    using soft_timers_pass [OF notify_timer_silent timers_due_facts, unfolded timers_due_fires] by blast
  moreover have "0 < MIPOS_MAX_TIMERS_NO" by (simp add: mip_simps)
  ultimately show ?thesis using timers_due_after by auto
qed

theorem timer_start_spec_witness:
  "\<exists>k'. mipos_timer_start 0x2000 0 100 0 False quiet_running = (0, k') \<and> fst (timer_view k' 0)"
proof -
  have free: "first_index (\<lambda>tid. tm_on_expire (timer_of quiet_running tid) = 0) 0 MIPOS_MAX_TIMERS_NO =
      Some 0" by code_simp
  have "length (k_timer_table quiet_running) = MIPOS_MAX_TIMERS_NO"
    using quiet_running_timers(1) by (simp add: mip_simps)
  from timer_start_spec [OF this, of "0x2000" 0 100 0 False] free show ?thesis by auto
qed

theorem timer_start_keeps_bound_witness:
  "next_bound (snd (mipos_timer_start 0x2000 0 100 0 False quiet_running))"
  by (rule timer_start_keeps_bound) (simp_all add: quiet_running_timers next_bound_def)

theorem start_after_cancel_delays_timers_witness:
  "\<exists>k1 k2. mipos_timer_cancel 1 timers_running = (0, k1) \<and>
     mipos_timer_start 0x4000 0 1000 0 False k1 = (2, k2) \<and>
     fst (timer_view k2 0) \<and> tm_rtc_timeout (snd (timer_view k2 0)) = 100 \<and>
     soft_timers quiet_user (k2\<lparr>k_rtc_counter := 700\<rparr>) = Some (k2\<lparr>k_rtc_counter := 700\<rparr>)"
proof -
  let ?k1 = "snd (mipos_timer_cancel 1 timers_running)"
  let ?k2 = "snd (mipos_timer_start 0x4000 0 1000 0 False ?k1)"
  have c: "mipos_timer_cancel 1 timers_running = (0, ?k1)"
  proof -
    have "fst (mipos_timer_cancel 1 timers_running) = 0" by code_simp
    then show ?thesis by (metis prod.collapse)
  qed
  have s: "mipos_timer_start 0x4000 0 1000 0 False ?k1 = (int 2, ?k2)"
  proof -
    have "fst (mipos_timer_start 0x4000 0 1000 0 False ?k1) = int 2" by code_simp
    then show ?thesis by (metis prod.collapse)
  qed
  have "fst (timer_view ?k2 0)" by code_simp
  moreover have "tm_rtc_timeout (snd (timer_view ?k2 0)) = 100" by code_simp
  moreover have "soft_timers quiet_user (?k2\<lparr>k_rtc_counter := 700\<rparr>) = Some (?k2\<lparr>k_rtc_counter := 700\<rparr>)"
    using start_after_cancel_delays_timers [OF c s] timers_running_facts(3,6) by (simp add: mip_simps)
  ultimately show ?thesis using c s by auto
qed

theorem timer_restart_stays_inactive_witness:
  "\<exists>k'. mipos_timer_restart 0 50 (the (soft_timers quiet_user timers_due)) = Some (0, k') \<and>
     timer_visit quiet_user 0 k' = Some k'"
proof -
  let ?k = "the (soft_timers quiet_user timers_due)"
  have "map_option fst (mipos_timer_restart 0 50 ?k) = Some 0" by code_simp
  then obtain k' where "mipos_timer_restart 0 50 ?k = Some (0, k')" by auto
  moreover have "\<not> bit (k_timer_bitmap ?k) (nat 0)" by code_simp
  ultimately show ?thesis using timer_restart_stays_inactive [of 0 50 ?k] by auto
qed

end
