(* ===== verification/Mipos_Task_Props.thy ===== *)
theory Mipos_Task_Props
  imports Mipos_Machine
begin

text \<open>
  Creating and deleting tasks, the stack a task starts on, and what a real-time routine may
  ask of the scheduler: its return value names a task to run next (a deferred procedure
  call, DPC), and the scheduler does not check that the task can run.
\<close>

subsection \<open>Creation and deletion\<close>

abbreviation free_slot :: "mipos_kernel \<Rightarrow> nat option" where
  "free_slot k \<equiv> first_index (\<lambda>tid. t_entry_point (task_of k tid) = 0) 1 MIPOS_TASKS_TBL_ENTRIES_CNT"

lemma slot_not_error: "i < 8 \<Longrightarrow> (of_nat i :: u32) \<noteq> - 1"
proof
  assume "i < 8" "(of_nat i :: u32) = - 1"
  then have "i = unat (- 1 :: u32)" using unat_slot by metis
  with \<open>i < 8\<close> show False by (simp add: unsigned_minus_1_eq_mask mask_eq_exp_minus_1)
qed

text \<open>
  \<^verbatim>\<open>mipos_t_create\<close> fills the first free slot after idle with a ready task that masks no
  signal and has none pending, leaves every other task alone and returns the slot; when
  the table is full it returns -1 and changes nothing.
\<close>

theorem t_create_spec:
  assumes "length (k_task_table k) = MIPOS_TASKS_TBL_ENTRIES_CNT"
  shows "case first_index (\<lambda>tid. t_entry_point (task_of k tid) = 0) 1 MIPOS_TASKS_TBL_ENTRIES_CNT of
      None \<Rightarrow> mipos_t_create name entry param stack sz flags k = (- 1, k)
    | Some tid \<Rightarrow> \<exists>k'. mipos_t_create name entry param stack sz flags k = (of_nat tid, k') \<and>
        tid \<noteq> 0 \<and> mipos_t_get_status (of_nat tid) k' = TASK_READY \<and>
        t_entry_point (task_of k' tid) = entry \<and> t_param (task_of k' tid) = param \<and>
        t_stack (task_of k' tid) = stack \<and> t_stack_size (task_of k' tid) = sz \<and>
        rt_task (t_flags (task_of k' tid)) = (flags = MIPOS_RT) \<and>
        t_signal_mask (task_of k' tid) = - 1 \<and> t_signal_pending (task_of k' tid) = 0 \<and>
        (\<forall>j. j \<noteq> tid \<longrightarrow> task_of k' j = task_of k j)"
proof (cases "free_slot k")
  case None
  then show ?thesis by (simp add: mipos_t_create_def)
next
  case (Some tid)
  then have tid: "1 \<le> tid" "tid < 8" by (simp_all add: first_index_Some mip_simps)
  then have "of_nat tid \<noteq> (0 :: u32)" by (simp add: slot_nonzero)
  with tid have "mipos_get_p_task k' (of_nat tid) = Some tid" for k'
    using get_p_task_id [of "of_nat tid" k'] by (simp add: unat_slot)
  with Some tid assms show ?thesis
    by (simp add: mipos_t_create_def mipos_t_get_status_def t_create_desc_def no_flags_def mip_simps)
qed

text \<open>
  Deleting a task gives its slot back: a creation right after it succeeds, in that slot
  or in an earlier free one.
\<close>

theorem create_after_delete:
  assumes "length (k_task_table k) = MIPOS_TASKS_TBL_ENTRIES_CNT" "tid \<noteq> 0"
    "unat tid < MIPOS_TASKS_TBL_ENTRIES_CNT"
  shows "\<exists>tid' k'. mipos_t_create name entry param stack sz flags (mipos_t_delete tid k) = (tid', k') \<and>
    tid' \<noteq> - 1 \<and> 0 < tid' \<and> tid' \<le> tid"
proof -
  let ?k = "mipos_t_delete tid k"
  have lt: "unat tid < 8" using assms(3) by (simp add: mip_simps)
  have pos: "1 \<le> unat tid" using assms(2) by (simp add: Suc_le_eq unat_gt_0)
  have free: "t_entry_point (task_of ?k (unat tid)) = 0"
    using assms(1) get_p_task_id [OF assms(2) lt] lt
    by (simp add: mipos_t_delete_def on_task_def t_delete_desc_def mip_simps)
  then have "free_slot ?k \<noteq> None"
    using lt pos by (auto simp: first_index_None mip_simps)
  then obtain i where i: "free_slot ?k = Some i" by blast
  then have "1 \<le> i" "i < 8" "i \<le> unat tid"
    using free pos by (auto simp: first_index_Some mip_simps not_less [symmetric])
  moreover from this have "unat (of_nat i :: u32) = i" by (simp add: unat_slot)
  moreover from \<open>i < 8\<close> have "(of_nat i :: u32) \<noteq> - 1" by (rule slot_not_error)
  ultimately show ?thesis
    using i by (simp add: mipos_t_create_def word_le_nat_alt word_less_nat_alt)
qed

subsection \<open>The initial stack\<close>

lemma and_15: "x AND 0xF = x mod (16 :: u64)"
proof -
  have "x AND mask 4 = x mod 2 ^ 4" by (simp only: take_bit_eq_mod flip: take_bit_eq_mask)
  then show ?thesis by (simp add: mask_eq_exp_minus_1)
qed

lemma align_down_16:
  "x AND NOT 0xF \<le> (x :: u64)" "x - (x AND NOT 0xF) < 16" "(x AND NOT 0xF) mod 16 = 0"
proof -
  have "(x AND NOT 0xF) + (x AND 0xF) = (x AND NOT 0xF) OR (x AND 0xF)"
    by (rule disjunctive_add_eq_or) (simp add: ac_simps)
  also have "\<dots> = x" by (simp flip: bit.conj_disj_distrib)
  finally have d: "x - (x AND NOT 0xF) = x mod 16" by (simp add: and_15 algebra_simps)
  show "x AND NOT 0xF \<le> x" by (rule word_and_le2)
  show "x - (x AND NOT 0xF) < 16" unfolding d by (rule word_mod_less_divisor) simp
  have "(x AND NOT 0xF) AND 0xF = 0" by (simp add: and.assoc)
  then show "(x AND NOT 0xF) mod 16 = 0" by (simp only: and_15)
qed

text \<open>
  The stack pointer a new task starts with is 16-byte aligned and lies inside the task's
  stack buffer with room for one pointer above it, for every buffer of at least 24
  bytes that does not wrap around the address space.
\<close>

theorem top_of_the_stack_inside:
  assumes "24 \<le> t_stack_size t" "unat (t_stack t) + unat (t_stack_size t) < 2 ^ 64"
  shows "top_of_the_stack t mod 16 = 0 \<and> t_stack t < top_of_the_stack t \<and>
    unat (top_of_the_stack t) + 8 \<le> unat (t_stack t) + unat (t_stack_size t)"
proof -
  let ?x = "t_stack t + t_stack_size t - 8"
  have sz: "24 \<le> unat (t_stack_size t)" using assms(1) by (simp add: word_le_nat_alt)
  have x: "unat ?x = unat (t_stack t) + unat (t_stack_size t) - 8"
  proof -
    have "unat (t_stack t + t_stack_size t) = unat (t_stack t) + unat (t_stack_size t)"
      using assms(2) by (simp add: unat_word_ariths)
    moreover from this have "8 \<le> t_stack t + t_stack_size t" using sz by (simp add: word_le_nat_alt)
    ultimately show ?thesis by (simp add: unat_sub)
  qed
  have le: "unat (top_of_the_stack t) \<le> unat ?x"
    using align_down_16(1) [of ?x] by (simp add: top_of_the_stack_def word_le_nat_alt)
  have "unat (?x - top_of_the_stack t) < 16"
    using align_down_16(2) [of ?x] by (simp add: top_of_the_stack_def word_less_nat_alt)
  moreover have "unat (?x - top_of_the_stack t) = unat ?x - unat (top_of_the_stack t)"
    using le by (simp add: unat_sub word_le_nat_alt)
  ultimately have "unat (t_stack t) < unat (top_of_the_stack t)" using x sz le by linarith
  with le x sz align_down_16(3) [of ?x] show ?thesis
    by (simp add: word_less_nat_alt top_of_the_stack_def)
qed

theorem t_create_spec_witness:
  "\<exists>k'. mipos_t_create ''worker'' 0x2000 7 0x9000 0x400 MIPOS_NO_RT quiet_running = (2, k') \<and>
     mipos_t_get_status 2 k' = TASK_READY \<and> t_entry_point (task_of k' 2) = 0x2000"
proof -
  have free: "first_index (\<lambda>tid. t_entry_point (task_of quiet_running tid) = 0) 1
      MIPOS_TASKS_TBL_ENTRIES_CNT = Some 2" by code_simp
  have "length (k_task_table quiet_running) = MIPOS_TASKS_TBL_ENTRIES_CNT"
    by (simp add: quiet_running_task mip_simps)
  from t_create_spec [OF this, of "''worker''" "0x2000" 7 "0x9000" "0x400" MIPOS_NO_RT]
  show ?thesis using free by auto
qed

theorem create_after_delete_witness:
  "\<exists>tid' k'. mipos_t_create ''worker'' 0x2000 7 0x9000 0x400 MIPOS_NO_RT (mipos_t_delete 1 quiet_running) =
     (tid', k') \<and> tid' \<noteq> - 1 \<and> 0 < tid' \<and> tid' \<le> 1"
  by (rule create_after_delete) (simp_all add: quiet_running_task mip_simps)

theorem top_of_the_stack_inside_witness:
  "top_of_the_stack (task_of quiet_running 1) mod 16 = 0 \<and>
   t_stack (task_of quiet_running 1) < top_of_the_stack (task_of quiet_running 1)"
proof -
  have "t_stack (task_of quiet_running 1) = 0x8000" by code_simp
  moreover have "t_stack_size (task_of quiet_running 1) = 0x400" by code_simp
  ultimately show ?thesis using top_of_the_stack_inside [of "task_of quiet_running 1"] by simp
qed

subsection \<open>Real-time routines and deferred procedure calls\<close>

text \<open>The slot the search looks at first is a real-time task whose routine returns \<open>ret\<close>.\<close>

definition rt_next :: "user_code \<Rightarrow> mipos_kernel \<Rightarrow> nat \<Rightarrow> u32 \<Rightarrow> bool" where
  "rt_next u k i ret \<longleftrightarrow>
     unat (k_current_task (next_task k)) = i \<and> i < 8 \<and>
     rt_task (t_flags (task_of k i)) \<and> t_entry_point (task_of k i) \<noteq> 0 \<and>
     (\<forall>k'. u_rt u (t_entry_point (task_of k i)) (t_param (task_of k i)) k' = ([], ret))"

lemma next_task_sel [simp]:
  "task_of (next_task k) i = task_of k i" "length (k_task_table (next_task k)) = length (k_task_table k)"
  by (simp_all add: next_task_def task_of_def)

lemma schedule_dpc_current [simp]: "k_current_task (schedule_dpc ret k) = ret"
  by (simp add: schedule_dpc_def)

lemma rt_next_dpc:
  assumes "rt_next u k i ret" "length (k_task_table k) = 8" "ret \<noteq> 0" "unat ret < 8"
  shows "rt_handling u (unat (k_current_task (next_task k))) (next_task k) =
    Some (unat ret, schedule_dpc ret (upd_task i (\<lambda>t. t\<lparr>t_ret_value := ret\<rparr>) (next_task k)))"
  using assms by (simp add: rt_next_def rt_handling_def Let_def)

text \<open>
  A frozen real-time task still runs: the search calls its routine whatever its status
  is, and stores the value it returns.
\<close>

theorem frozen_rt_task_runs:
  assumes "rt_next u k i 0" "length (k_task_table k) = 8" "t_status (task_of k i) AND TASK_FROZEN \<noteq> 0"
  shows "rt_handling u (unat (k_current_task (next_task k))) (next_task k) =
    Some (i, upd_task i (\<lambda>t. t\<lparr>t_ret_value := 0\<rparr>) (next_task k))"
  using assms by (simp add: rt_next_def rt_handling_def Let_def)

text \<open>
  A DPC on a task that has never been suspended resumes a context that was never saved:
  the scheduler turn ends in a wild jump.
\<close>

theorem dpc_on_fresh_task_faults:
  assumes "rt_next u k i ret" "length (k_task_table k) = 8" "ret \<noteq> 0" "unat ret < 8" "unat ret \<noteq> i"
    "k_timer_bitmap k = 0" "t_entry_point (task_of k (unat ret)) \<noteq> 0"
    "\<not> rt_task (t_flags (task_of k (unat ret)))" "t_reg_state (task_of k (unat ret)) = None"
  shows "scheduler_epoch u q sp k = None"
proof -
  let ?j = "unat ret"
  let ?kr = "mipos_update_rtc q k"
  let ?k1 = "schedule_dpc ret (upd_task i (\<lambda>t. t\<lparr>t_ret_value := ret\<rparr>) (next_task ?kr))"
  have t: "task_of ?kr n = task_of k n" for n by (simp add: mipos_update_rtc_def task_of_def)
  have len: "length (k_task_table ?kr) = 8" using assms(2) by (simp add: mipos_update_rtc_def)
  have "rt_next u ?kr i ret"
    using assms(1) by (simp add: rt_next_def t next_task_def mipos_update_rtc_def)
  note dpc = rt_next_dpc [OF this len assms(3,4)]
  have j: "task_of ?k1 ?j = (task_of k ?j)\<lparr>t_flags := (t_flags (task_of k ?j))\<lparr>wkup := True\<rparr>,
      t_status := TASK_READY\<rparr>"
    using len assms(4,5) by (simp add: schedule_dpc_def t)
  have "task_search u 0 ?kr = Some (?j, ?k1)"
    using assms(3,7,8) j
    by (subst task_search.simps) (simp add: dpc search_cond_def Let_def mip_simps)
  moreover have "soft_timers u ?kr = Some ?kr"
    using assms(6) by (simp add: soft_timers_def mipos_update_rtc_def)
  moreover have "length (k_task_table ?k1) = 8" using len by (simp add: schedule_dpc_def)
  ultimately show ?thesis
    using assms(3,4,9) j
    by (simp add: scheduler_epoch_def task_state_machine_def dispatcher_def Let_def mip_simps)
qed

text \<open>The state in which a DPC on the empty slot before the real-time task comes back to it.\<close>

definition dpc_trap :: "user_code \<Rightarrow> mipos_kernel \<Rightarrow> bool" where
  "dpc_trap u k \<longleftrightarrow>
     (\<exists>j. 0 < j \<and> j < 7 \<and> length (k_task_table k) = 8 \<and> rt_next u k (j + 1) (of_nat j) \<and>
        t_entry_point (task_of k j) = 0)"

lemma dpc_trap_step:
  assumes "dpc_trap u k"
  obtains k1 where "rt_handling u (unat (k_current_task (next_task k))) (next_task k) =
      Some (unat (k_current_task k1), k1)"
    "search_cond n (unat (k_current_task k1)) k1" "dpc_trap u k1"
proof -
  from assms obtain j where j: "0 < j" "j < 7" "length (k_task_table k) = 8"
      "rt_next u k (j + 1) (of_nat j)" "t_entry_point (task_of k j) = 0"
    by (auto simp: dpc_trap_def)
  let ?ret = "of_nat j :: u32"
  let ?k1 = "schedule_dpc ?ret (upd_task (j + 1) (\<lambda>t. t\<lparr>t_ret_value := ?ret\<rparr>) (next_task k))"
  have un: "unat ?ret = j" using j(2) by (simp add: unat_of_nat)
  then have nz: "?ret \<noteq> 0" using j(1) by auto
  have "unat ((?ret + 1) mod 8) = j + 1"
    using j(2) by (simp add: unat_mod unat_word_ariths unat_of_nat)
  then have nxt: "unat (k_current_task (next_task ?k1)) = j + 1"
    by (simp add: next_task_def schedule_dpc_def mip_simps)
  have "t_entry_point (task_of ?k1 j) = 0"
    using j un by (simp add: schedule_dpc_def)
  moreover have "task_of ?k1 (j + 1) = (task_of k (j + 1))\<lparr>t_ret_value := ?ret\<rparr>"
    using j un by (simp add: schedule_dpc_def)
  ultimately have "dpc_trap u ?k1"
    using j nxt un unfolding dpc_trap_def rt_next_def
    by (intro exI [of _ j]) (simp add: schedule_dpc_def)
  moreover have "search_cond n (unat (k_current_task ?k1)) ?k1"
    using \<open>t_entry_point (task_of ?k1 j) = 0\<close> by (simp add: search_cond_def Let_def un)
  moreover have "rt_handling u (unat (k_current_task (next_task k))) (next_task k) =
      Some (unat (k_current_task ?k1), ?k1)"
    using rt_next_dpc [OF j(4,3) nz] un j(2) by simp
  ultimately show ?thesis using that by blast
qed

text \<open>
  A DPC on an empty slot can hang the scheduler: when the slot after it is the real-time
  task itself, the search loop calls the routine again and again and never returns.
\<close>

theorem dpc_on_empty_slot_hangs:
  assumes "dpc_trap u k"
  shows "task_search u n k = None"
proof (rule ccontr)
  assume "task_search u n k \<noteq> None"
  then obtain r where run: "task_search u n k = Some r" by blast
  have "\<not> dpc_trap u k"
  proof (rule task_search.raw_induct [where P = "\<lambda>u n k r. \<not> dpc_trap u k", OF _ run])
    fix f :: "user_code \<Rightarrow> nat \<Rightarrow> mipos_kernel \<Rightarrow> (nat \<times> mipos_kernel) option" and u n k r
    assume IH: "\<And>u n k r. f u n k = Some r \<Longrightarrow> \<not> dpc_trap u k"
      and body: "(let k0 = next_task k in rt_handling u (unat (k_current_task k0)) k0) \<bind>
        (\<lambda>(i, k1). if search_cond (n + 1) i k1 then f u (n + 1) k1 else Some (i, k1)) = Some r"
    show "\<not> dpc_trap u k"
    proof
      assume "dpc_trap u k"
      then obtain k1 where "rt_handling u (unat (k_current_task (next_task k))) (next_task k) =
          Some (unat (k_current_task k1), k1)"
          "search_cond (n + 1) (unat (k_current_task k1)) k1" "dpc_trap u k1"
        by (rule dpc_trap_step)
      with IH body show False by (auto simp: Let_def)
    qed
  qed
  with assms show False by contradiction
qed

text \<open>A root task, an empty slot or a fresh task in slot 2, and a real-time task in slot 3.\<close>

definition rt_user :: user_code where
  "rt_user = \<lparr>u_callback = (\<lambda>_ _ _. []), u_rt = (\<lambda>_ _ _. ([], 2))\<rparr>"

definition rt_fresh :: mipos_kernel where
  "rt_fresh = (snd (mipos_t_create ''rt'' 0x3000 0 0xA000 0x400 MIPOS_RT
     (snd (mipos_t_create ''worker'' 0x2000 0 0x9000 0x400 MIPOS_NO_RT (snd quiet_boot)))))
       \<lparr>k_current_task := 2\<rparr>"

definition rt_hole :: mipos_kernel where
  "rt_hole = mipos_t_delete 2 rt_fresh"

lemma rt_next_facts:
  "unat (k_current_task (next_task rt_fresh)) = 3" "rt_task (t_flags (task_of rt_fresh 3))"
  "t_entry_point (task_of rt_fresh 3) \<noteq> 0" "length (k_task_table rt_fresh) = 8"
  "unat (k_current_task (next_task rt_hole)) = 3" "rt_task (t_flags (task_of rt_hole 3))"
  "t_entry_point (task_of rt_hole 3) \<noteq> 0" "length (k_task_table rt_hole) = 8"
  "t_entry_point (task_of rt_hole 2) = 0"
proof -
  show "unat (k_current_task (next_task rt_fresh)) = 3" by code_simp
  show "rt_task (t_flags (task_of rt_fresh 3))" by code_simp
  show "t_entry_point (task_of rt_fresh 3) \<noteq> 0" by code_simp
  show "length (k_task_table rt_fresh) = 8" by code_simp
  show "unat (k_current_task (next_task rt_hole)) = 3" by code_simp
  show "rt_task (t_flags (task_of rt_hole 3))" by code_simp
  show "t_entry_point (task_of rt_hole 3) \<noteq> 0" by code_simp
  show "length (k_task_table rt_hole) = 8" by code_simp
  show "t_entry_point (task_of rt_hole 2) = 0" by code_simp
qed

lemma rt_next_fresh: "rt_next rt_user rt_fresh 3 2" "rt_next quiet_user rt_fresh 3 0"
  by (simp_all add: rt_next_def rt_next_facts rt_user_def quiet_user_def)

theorem frozen_rt_task_runs_witness:
  "rt_handling quiet_user 3 (next_task (mipos_t_freeze 3 rt_fresh)) =
     Some (3, upd_task 3 (\<lambda>t. t\<lparr>t_ret_value := 0\<rparr>) (next_task (mipos_t_freeze 3 rt_fresh)))"
proof -
  let ?k = "mipos_t_freeze 3 rt_fresh"
  have cur: "unat (k_current_task (next_task ?k)) = 3" by code_simp
  have len: "length (k_task_table ?k) = 8" by (simp add: mipos_t_freeze_def rt_next_facts)
  have "rt_task (t_flags (task_of ?k 3))" by code_simp
  moreover have "t_entry_point (task_of ?k 3) \<noteq> 0" by code_simp
  ultimately have "rt_next quiet_user ?k 3 0"
    using cur by (simp add: rt_next_def quiet_user_def)
  moreover have "t_status (task_of ?k 3) AND TASK_FROZEN \<noteq> 0" by code_simp
  ultimately show ?thesis using frozen_rt_task_runs [OF _ len] cur by metis
qed

theorem dpc_on_fresh_task_faults_witness: "scheduler_epoch rt_user 1 77 rt_fresh = None"
proof -
  have "unat (2 :: u32) = 2" by simp
  moreover have "k_timer_bitmap rt_fresh = 0" by code_simp
  moreover have "t_entry_point (task_of rt_fresh 2) \<noteq> 0" by code_simp
  moreover have "\<not> rt_task (t_flags (task_of rt_fresh 2))" by code_simp
  moreover have "t_reg_state (task_of rt_fresh 2) = None" by code_simp
  ultimately show ?thesis
    using dpc_on_fresh_task_faults [OF rt_next_fresh(1) rt_next_facts(4)] by simp
qed

theorem dpc_on_empty_slot_hangs_witness: "task_search rt_user 0 rt_hole = None"
proof (rule dpc_on_empty_slot_hangs)
  show "dpc_trap rt_user rt_hole"
    unfolding dpc_trap_def
    by (rule exI [of _ 2]) (simp add: rt_next_def rt_next_facts rt_user_def)
qed

end
