(* ===== verification/Mipos_Blocking.thy ===== *)
theory Mipos_Blocking
  imports Mipos_Machine
begin

text \<open>
  Signals, sleeping and freezing: what a blocked task experiences. A blocking macro leaves
  the task \<^verbatim>\<open>TASK_SUSPENDED\<close>; afterwards the scheduler looks at it once per turn
  (\<open>tsm_suspended\<close>), and \<open>visits rtcs\<close> is the effect of a sequence of such looks at the given
  RTC readings.
\<close>

definition visits :: "u64 list \<Rightarrow> mipos_task \<Rightarrow> mipos_task" where
  "visits rtcs t = fold tsm_suspended rtcs t"

lemma visits_simps [simp]:
  "visits [] t = t" "visits (r # rs) t = visits rs (tsm_suspended r t)"
  by (simp_all add: visits_def)

definition woken :: "mipos_task \<Rightarrow> bool" where
  "woken t \<longleftrightarrow> t_status t = TASK_READY \<and> wkup (t_flags t)"

definition asleep :: "mipos_task \<Rightarrow> bool" where
  "asleep t \<longleftrightarrow> t_status t = TASK_SUSPENDED"

lemma on_context_task:
  assumes "k_task_context k = Some i" "i < length (k_task_table k)"
  shows "\<exists>k'. on_context f k = Some k' \<and> task_of k' i = f (task_of k i)"
  using assms by (simp add: on_context_def)

lemma set_wait_running:
  "t_status t = TASK_RUNNING \<Longrightarrow>
     t_set_wait_for_signal sg t =
       t\<lparr>t_signal_waiting := t_signal_waiting t OR sg, t_status := TASK_SUSPENDED\<rparr>"
  by (simp add: t_set_wait_for_signal_def Let_def mip_simps)

subsection \<open>Sleeping for a number of ticks\<close>

definition alarm_wait :: "mipos_task \<Rightarrow> bool" where
  "alarm_wait t \<longleftrightarrow> asleep t \<and> t_signal_waiting t = MIPOS_SIGALM \<and> t_signal_pending t AND MIPOS_SIGALM = 0"

lemma sint_minus_one:
  assumes "0 < sint (w :: u32)"
  shows "sint (w - 1) = sint w - 1"
proof -
  have "sint w < 2 ^ 31" using sint_lt [of w] by simp
  with assms show ?thesis
    by (simp add: sint_word_ariths(2) signed_take_bit_int_eq_self)
qed

lemma alarm_tick:
  assumes "alarm_wait t" "0 < sint (t_timer_tick_count t)"
  shows "alarm_wait (tsm_suspended r t) \<and>
    sint (t_timer_tick_count (tsm_suspended r t)) = sint (t_timer_tick_count t) - 1"
proof -
  have "sint (t_timer_tick_count t - 1) = sint (t_timer_tick_count t) - 1"
    using assms(2) by (rule sint_minus_one)
  with assms show ?thesis
    by (simp add: alarm_wait_def asleep_def tsm_suspended_def Let_def mip_simps)
qed

lemma alarm_fires:
  assumes "alarm_wait t" "sint (t_timer_tick_count t) \<le> 0"
  shows "woken (tsm_suspended r t)"
  using assms
  by (simp add: alarm_wait_def tsm_suspended_def woken_def Let_def mip_simps bit.conj_disj_distrib2)

lemma alarm_visits:
  assumes "alarm_wait t" "int (length rtcs) \<le> sint (t_timer_tick_count t)"
  shows "alarm_wait (visits rtcs t) \<and>
    sint (t_timer_tick_count (visits rtcs t)) = sint (t_timer_tick_count t) - int (length rtcs)"
  using assms
proof (induction rtcs arbitrary: t)
  case Nil
  then show ?case by simp
next
  case (Cons r rs)
  with alarm_tick [of t r] Cons.IH [of "tsm_suspended r t"] show ?case by simp
qed

text \<open>
  C33. \<^verbatim>\<open>mipos_tm_wkafter(n)\<close> sleeps for exactly \<open>n\<close> looks of the scheduler: the running task
  stays suspended through the first \<open>n\<close> looks, whatever the RTC says, and the next
  look makes it ready with its wake-up flag set.
\<close>

theorem wkafter_sleeps_count_turns:
  assumes "k_task_context k = Some i" "i < length (k_task_table k)"
    "t_status (task_of k i) = TASK_RUNNING" "t_signal_waiting (task_of k i) = 0"
    "t_signal_pending (task_of k i) AND MIPOS_SIGALM = 0" "sint count = int n"
  shows "\<exists>k'. mipos_tm_wkafter pc sp count k = Some k' \<and>
    (\<forall>rtcs. length rtcs \<le> n \<longrightarrow> asleep (visits rtcs (task_of k' i))) \<and>
    (\<forall>rtcs r. length rtcs = n \<longrightarrow> woken (visits (rtcs @ [r]) (task_of k' i)))"
proof -
  obtain k' where k': "mipos_tm_wkafter pc sp count k = Some k'"
      "task_of k' i = (t_set_wait_for_signal MIPOS_SIGALM
         ((task_of k i)\<lparr>t_reg_state := Some (pc, MIPOS_SIGALM), t_process_sp := sp\<rparr>))
           \<lparr>t_timer_tick_count := count\<rparr>"
    using on_context_task [OF assms(1,2)] unfolding mipos_tm_wkafter_def tm_wkafter_enter_def by blast
  have start: "alarm_wait (task_of k' i)" "sint (t_timer_tick_count (task_of k' i)) = int n"
    using assms by (simp_all add: k'(2) set_wait_running alarm_wait_def asleep_def)
  have "asleep (visits rtcs (task_of k' i))" if "length rtcs \<le> n" for rtcs
    using alarm_visits [OF start(1), of rtcs] start(2) that by (simp add: alarm_wait_def)
  moreover have "woken (visits (rtcs @ [r]) (task_of k' i))" if "length rtcs = n" for rtcs r
    using alarm_visits [OF start(1), of rtcs] start(2) that
    by (simp add: visits_def alarm_fires)
  ultimately show ?thesis using k'(1) by blast
qed

subsection \<open>Sleeping until an RTC value\<close>

definition timed_wait :: "u64 \<Rightarrow> mipos_task \<Rightarrow> bool" where
  "timed_wait timeout t \<longleftrightarrow>
     asleep t \<and> t_signal_waiting t = MIPOS_SIGTMR \<and> t_signal_pending t AND MIPOS_SIGTMR = 0 \<and>
     t_rtc_timeout t = timeout"

lemma timed_wait_visit:
  assumes "timed_wait timeout t"
  shows "timeout = 0 \<or> r < timeout \<Longrightarrow> timed_wait timeout (tsm_suspended r t)"
    and "timeout \<noteq> 0 \<Longrightarrow> timeout \<le> r \<Longrightarrow> woken (tsm_suspended r t)"
  using assms
  by (auto simp: timed_wait_def asleep_def woken_def tsm_suspended_def Let_def mip_simps
      bit.conj_disj_distrib2)

lemma timed_wait_visits:
  "timed_wait timeout t \<Longrightarrow> \<forall>r \<in> set rtcs. timeout = 0 \<or> r < timeout \<Longrightarrow>
     timed_wait timeout (visits rtcs t)"
  by (induction rtcs arbitrary: t) (auto simp: timed_wait_visit(1))

lemma msleep_waits:
  assumes "k_task_context k = Some i" "i < length (k_task_table k)"
    "t_status (task_of k i) = TASK_RUNNING" "t_signal_waiting (task_of k i) = 0"
    "t_signal_pending (task_of k i) AND MIPOS_SIGTMR = 0"
  obtains k' where "mipos_tm_msleep pc sp count k = Some k'"
    "timed_wait (k_rtc_counter k + ucast count) (task_of k' i)"
proof -
  have "timed_wait (k_rtc_counter k + ucast count) ((t_set_wait_for_signal MIPOS_SIGTMR
      ((task_of k i)\<lparr>t_reg_state := Some (pc, MIPOS_SIGTMR)\<rparr>))
      \<lparr>t_rtc_timeout := k_rtc_counter k + ucast count, t_process_sp := sp\<rparr>)"
    using assms by (simp add: set_wait_running timed_wait_def asleep_def)
  with on_context_task [OF assms(1,2)] that show ?thesis
    unfolding mipos_tm_msleep_def tm_rtc_quantum_sleep_enter_def by metis
qed

text \<open>
  C34. \<^verbatim>\<open>mipos_tm_msleep\<close> and \<^verbatim>\<open>mipos_tm_usleep\<close> neither wake early nor oversleep, provided that the
  RTC value at the call plus the count is not 0 (modulo 2^64) and that the task waits for
  nothing else and has no timer signal pending: the task stays suspended at every look before
  the RTC reaches that sum, and the first look at or after it wakes the task. A count of 0
  is not special to the code: the task suspends as well, until the next look.
\<close>

theorem msleep_wakes_at_timeout:
  assumes "k_task_context k = Some i" "i < length (k_task_table k)"
    "t_status (task_of k i) = TASK_RUNNING" "t_signal_waiting (task_of k i) = 0"
    "t_signal_pending (task_of k i) AND MIPOS_SIGTMR = 0"
    "timeout = k_rtc_counter k + ucast count" "timeout \<noteq> 0" "\<forall>r \<in> set rtcs. r < timeout"
  shows "\<exists>k'. mipos_tm_msleep pc sp count k = Some k' \<and> asleep (visits rtcs (task_of k' i)) \<and>
    (\<forall>r. timeout \<le> r \<longrightarrow> woken (visits (rtcs @ [r]) (task_of k' i)))"
proof -
  obtain k' where k': "mipos_tm_msleep pc sp count k = Some k'"
      "timed_wait timeout (task_of k' i)"
    using msleep_waits [OF assms(1-5)] assms(6) by metis
  with assms(8) have "timed_wait timeout (visits rtcs (task_of k' i))"
    by (simp add: timed_wait_visits)
  with k'(1) assms(7) show ?thesis
    using timed_wait_visit(2) by (auto simp: visits_def timed_wait_def)
qed

text \<open>
  When the RTC value plus the count is 0 (a sleep of 0 right after start-up, while the
  RTC counter is still 0), the timeout equals the value that means "no timeout": no
  look of the scheduler at any RTC value ever wakes the task.
\<close>

theorem msleep_zero_timeout_never_wakes:
  assumes "k_task_context k = Some i" "i < length (k_task_table k)"
    "t_status (task_of k i) = TASK_RUNNING" "t_signal_waiting (task_of k i) = 0"
    "t_signal_pending (task_of k i) AND MIPOS_SIGTMR = 0" "k_rtc_counter k + ucast count = 0"
  shows "\<exists>k'. mipos_tm_msleep pc sp count k = Some k' \<and>
    (\<forall>rtcs. asleep (visits rtcs (task_of k' i)))"
proof -
  obtain k' where k': "mipos_tm_msleep pc sp count k = Some k'" "timed_wait 0 (task_of k' i)"
    using msleep_waits [OF assms(1-5)] assms(6) by metis
  with timed_wait_visits [OF k'(2)] show ?thesis by (auto simp: timed_wait_def)
qed

theorem wkafter_sleeps_count_turns_witness:
  "\<exists>k'. mipos_tm_wkafter 5 0x8200 3 quiet_running = Some k' \<and>
    asleep (visits [10, 20, 30] (task_of k' 1)) \<and> woken (visits [10, 20, 30, 40] (task_of k' 1))"
proof -
  have "sint (3 :: u32) = int 3" by code_simp
  from wkafter_sleeps_count_turns [OF quiet_running_task(1) _ quiet_running_task(3,4) _ this, of 5 "0x8200"]
  obtain k' where k': "mipos_tm_wkafter 5 0x8200 3 quiet_running = Some k'"
      "\<And>rtcs. length rtcs \<le> 3 \<Longrightarrow> asleep (visits rtcs (task_of k' 1))"
      "\<And>rtcs r. length rtcs = 3 \<Longrightarrow> woken (visits (rtcs @ [r]) (task_of k' 1))"
    by (auto simp: quiet_running_task [simplified])
  from k'(1) k'(2) [of "[10, 20, 30]"] k'(3) [of "[10, 20, 30]" 40] show ?thesis by simp
qed

theorem msleep_wakes_at_timeout_witness:
  "\<exists>k'. mipos_tm_msleep 5 0x8200 7 quiet_running = Some k' \<and>
    asleep (visits [3, 6] (task_of k' 1)) \<and> woken (visits [3, 6, 7] (task_of k' 1))"
proof -
  have ucast: "(7 :: u64) = k_rtc_counter quiet_running + ucast (7 :: u32)"
    by (simp add: quiet_running_task [simplified])
  from msleep_wakes_at_timeout [OF quiet_running_task(1) _ quiet_running_task(3,4) _ ucast,
      of "[3, 6]" 5 "0x8200"]
  show ?thesis by (auto simp: quiet_running_task [simplified])
qed

theorem msleep_zero_timeout_never_wakes_witness:
  "\<exists>k'. mipos_tm_msleep 5 0x8200 0 quiet_running = Some k' \<and>
    (\<forall>rtcs. asleep (visits rtcs (task_of k' 1)))"
  using msleep_zero_timeout_never_wakes [OF quiet_running_task(1) _ quiet_running_task(3,4), of 0 5 "0x8200"]
  by (simp add: quiet_running_task [simplified])

subsection \<open>Signals\<close>

lemma upd_task_swap:
  "(i = j \<Longrightarrow> f (g (task_of k j)) = g (f (task_of k j))) \<Longrightarrow>
     upd_task i f (upd_task j g k) = upd_task j g (upd_task i f k)"
  by (cases "i = j"; cases "j < length (k_task_table k)")
    (simp_all add: upd_task_def task_of_def list_update_swap list_update_beyond)

lemma on_task_context_swap:
  assumes "\<And>t. f (g t) = g (f t)"
  shows "map_option (on_task tid f) (on_context g k) = on_context g (on_task tid f k)"
proof (cases "k_task_context k")
  case None
  then show ?thesis by (simp add: on_context_def)
next
  case (Some c)
  have "on_task tid f (upd_task c g k) = upd_task c g (on_task tid f k)"
    using upd_task_swap [of _ c f g k] assms
    by (simp add: on_task_def mipos_get_p_task_def split: option.split)
  with Some show ?thesis by (simp add: on_context_def)
qed

text \<open>Signalling a task just before and just after the current task suspends leaves the same state.\<close>

lemma notify_suspend_swap:
  "map_option (mipos_t_notify_signal tid sg) (t_suspend_enter pc sp w k) =
     t_suspend_enter pc sp w (mipos_t_notify_signal tid sg k)"
  unfolding mipos_t_notify_signal_def [abs_def] t_suspend_enter_def
  by (rule on_task_context_swap) (simp add: t_set_wait_for_signal_def Let_def)

lemma tsm_suspended_awake:
  assumes "t_signal_pending t AND t_signal_waiting t \<noteq> 0"
  shows "woken (tsm_suspended r t)"
proof -
  have "(t_signal_pending t OR m) AND t_signal_waiting t \<noteq> 0" for m
    using assms by (metis bit.conj_disj_distrib2 or_eq_0_iff)
  with assms show ?thesis by (simp add: woken_def tsm_suspended_def Let_def or.assoc)
qed

text \<open>
  A signal that the target does not mask and waits for wakes it: after
  \<^verbatim>\<open>mipos_t_notify_signal\<close> the next look of the scheduler at the suspended task makes it
  ready with the wake-up flag set, and a signal that the target masks changes nothing.
\<close>

theorem notify_wakes_waiter:
  assumes "tid \<noteq> 0" "unat tid < 8" "length (k_task_table k) = 8"
  shows "(sg AND t_signal_mask (task_of k (unat tid)) AND t_signal_waiting (task_of k (unat tid)) \<noteq> 0
      \<longrightarrow> woken (tsm_suspended r (task_of (mipos_t_notify_signal tid sg k) (unat tid)))) \<and>
    (sg AND t_signal_mask (task_of k (unat tid)) = 0 \<longrightarrow> mipos_t_notify_signal tid sg k = k)"
proof -
  let ?t = "task_of k (unat tid)"
  have p: "mipos_get_p_task k tid = Some (unat tid)"
    using assms(1,2) by (rule get_p_task_id)
  have t: "task_of (mipos_t_notify_signal tid sg k) (unat tid) =
      ?t\<lparr>t_signal_pending := t_signal_pending ?t OR (sg AND t_signal_mask ?t)\<rparr>"
    using assms p by (simp add: mipos_t_notify_signal_def on_task_def)
  have "(t_signal_pending ?t OR (sg AND t_signal_mask ?t)) AND t_signal_waiting ?t \<noteq> 0"
    if "sg AND t_signal_mask ?t AND t_signal_waiting ?t \<noteq> 0"
    using that by (metis and.assoc bit.conj_disj_distrib2 or_eq_0_iff)
  moreover have "mipos_t_notify_signal tid sg k = k" if "sg AND t_signal_mask ?t = 0"
    using that assms p by (simp add: mipos_t_notify_signal_def on_task_def upd_task_def task_of_def)
  ultimately show ?thesis by (simp add: t tsm_suspended_awake)
qed

text \<open>A task that has been woken is resumed by the next turn that selects it.\<close>

lemma woken_resumes:
  assumes "woken (task_of k i)" "t_reg_state (task_of k i) = Some (pc, w)" "i < length (k_task_table k)"
  shows "\<exists>k1 k2. task_state_machine i k = (TsmDispatcher, k1) \<and> dispatcher sp i k1 = Some (Resumed pc, k2) \<and>
    t_status (task_of k2 i) = TASK_RUNNING \<and> \<not> wkup (t_flags (task_of k2 i)) \<and>
    t_signal_pending (task_of k2 i) AND w = 0"
  using assms
  by (simp add: task_state_machine_def dispatcher_def woken_def Let_def t_reset_signal_and_run_def mip_simps
      and.assoc)

lemma signal_hits: "sg AND m AND w \<noteq> 0 \<Longrightarrow> (p OR (sg AND m)) AND (v OR w) \<noteq> (0 :: u8)"
  by (auto simp: bit_eq_iff bit_simps)

lemma unsignalled_visits:
  assumes "asleep t" "t_signal_pending t AND t_signal_waiting t = 0"
    "t_signal_waiting t AND (MIPOS_SIGALM OR MIPOS_SIGTMR) = 0"
  shows "visits rtcs t = t"
proof (induction rtcs)
  case (Cons r rs)
  have "t_signal_waiting t AND MIPOS_SIGALM = 0" "t_signal_waiting t AND MIPOS_SIGTMR = 0"
    using assms(3) by (simp_all add: bit.conj_disj_distrib or_eq_0_iff)
  with assms(2) have "tsm_suspended r t = t" by (simp add: tsm_suspended_def Let_def)
  with Cons show ?case by simp
qed simp

text \<open>
  C27. No wake-up is lost at the edge of a blocking call. Let the running task enter
  \<^verbatim>\<open>mipos_t_suspend\<close> or \<^verbatim>\<open>mipos_t_waitfor_signal\<close> for the signals \<open>w\<close>, and let a signal that it
  does not mask and that is among \<open>w\<close> be notified to it just before or just after that call.
  Either way the task is suspended, the next look of the scheduler makes it ready with the
  wake-up flag set, and the turn after that resumes it right behind the call with the
  signals it waited for consumed. Without the notification, and with no other signal of those
  it waits for pending, neither an alarm nor a timer among them, no number of looks wakes it.
\<close>

theorem notify_never_lost:
  assumes "k_task_context k = Some (unat tid)" "tid \<noteq> 0" "unat tid < 8" "length (k_task_table k) = 8"
    "t_status (task_of k (unat tid)) = TASK_RUNNING" "sg AND t_signal_mask (task_of k (unat tid)) AND w \<noteq> 0"
  shows "\<exists>k1 k'. t_suspend_enter pc sp w k = Some k1 \<and> mipos_t_notify_signal tid sg k1 = k' \<and>
    t_suspend_enter pc sp w (mipos_t_notify_signal tid sg k) = Some k' \<and> asleep (task_of k' (unat tid)) \<and>
    (\<exists>k2 k3 k4. task_state_machine (unat tid) k' = (TsmScheduler, k2) \<and> woken (task_of k2 (unat tid)) \<and>
       task_state_machine (unat tid) k2 = (TsmDispatcher, k3) \<and>
       dispatcher sp' (unat tid) k3 = Some (Resumed pc, k4) \<and>
       t_status (task_of k4 (unat tid)) = TASK_RUNNING \<and> t_signal_pending (task_of k4 (unat tid)) AND w = 0) \<and>
    (t_signal_pending (task_of k (unat tid)) AND (t_signal_waiting (task_of k (unat tid)) OR w) = 0 \<and>
     (t_signal_waiting (task_of k (unat tid)) OR w) AND (MIPOS_SIGALM OR MIPOS_SIGTMR) = 0 \<longrightarrow>
     (\<forall>rtcs. asleep (visits rtcs (task_of k1 (unat tid)))))"
proof -
  let ?i = "unat tid" and ?t = "task_of k (unat tid)"
  let ?s = "?t\<lparr>t_reg_state := Some (pc, w), t_process_sp := sp, t_signal_waiting := t_signal_waiting ?t OR w,
    t_status := TASK_SUSPENDED\<rparr>"
  obtain k1 where k1: "t_suspend_enter pc sp w k = Some k1" "task_of k1 ?i = ?s" "length (k_task_table k1) = 8"
    using assms(1,3-5) by (simp add: t_suspend_enter_def on_context_def set_wait_running)
  define k' where "k' = mipos_t_notify_signal tid sg k1"
  have swap: "t_suspend_enter pc sp w (mipos_t_notify_signal tid sg k) = Some k'"
    using notify_suspend_swap [of tid sg pc sp w k] k1(1) by (simp add: k'_def)
  have t': "task_of k' ?i = ?s\<lparr>t_signal_pending := t_signal_pending ?t OR (sg AND t_signal_mask ?t)\<rparr>"
      and len': "length (k_task_table k') = 8"
    using k1(2,3) get_p_task_id [OF assms(2,3)] assms(3) by (simp_all add: k'_def mipos_t_notify_signal_def on_task_def)
  obtain k2 where k2: "task_state_machine ?i k' = (TsmScheduler, k2)" "length (k_task_table k2) = 8"
      "task_of k2 ?i = tsm_suspended (k_rtc_counter k') (task_of k' ?i)"
    using t' len' assms(3) by (simp add: task_state_machine_def Let_def mip_simps)
  have "(t_signal_pending ?t OR (sg AND t_signal_mask ?t)) AND (t_signal_waiting ?t OR w) \<noteq> 0"
    using assms(6) by (rule signal_hits)
  then have wk: "woken (task_of k2 ?i)" unfolding k2(3) t' by (intro tsm_suspended_awake) simp
  moreover have "t_reg_state (task_of k2 ?i) = Some (pc, w)"
    unfolding k2(3) t' by (simp add: tsm_suspended_def Let_def)
  ultimately obtain k3 k4 where k4: "task_state_machine ?i k2 = (TsmDispatcher, k3)"
      "dispatcher sp' ?i k3 = Some (Resumed pc, k4)" "t_status (task_of k4 ?i) = TASK_RUNNING"
      "t_signal_pending (task_of k4 ?i) AND w = 0"
    using woken_resumes [of k2 ?i pc w sp'] k2(2) assms(3) by auto
  have never: "asleep (visits rtcs (task_of k1 ?i))"
    if "t_signal_pending ?t AND (t_signal_waiting ?t OR w) = 0"
      "(t_signal_waiting ?t OR w) AND (MIPOS_SIGALM OR MIPOS_SIGTMR) = 0" for rtcs
    using unsignalled_visits [of "task_of k1 ?i" rtcs] that by (simp add: k1(2) asleep_def)
  have sleep: "asleep (task_of k' ?i)" by (simp add: t' asleep_def)
  show ?thesis
    by (intro exI [of _ k1] exI [of _ k'] exI [of _ k2] exI [of _ k3] exI [of _ k4] conjI impI allI;
        (elim conjE)?; (fact k1(1) k'_def [symmetric] swap sleep k2(1) wk k4 | (rule never; assumption)))
qed

text \<open>
  The reserved signals (wake-up, queue, alarm, timer) can be neither masked nor unmasked
  by \<^verbatim>\<open>mipos_t_sig_ignore\<close> and \<^verbatim>\<open>mipos_t_sig_allow\<close>, whatever the argument; on the user
  signals the first clears and the second sets exactly the bits of its argument.
\<close>

theorem sig_mask_ops:
  assumes "tid \<noteq> 0" "unat tid < 8" "length (k_task_table k) = 8"
  shows "bit (t_signal_mask (task_of (mipos_t_sig_ignore tid sg k) (unat tid))) n =
      (bit (t_signal_mask (task_of k (unat tid))) n \<and> \<not> (4 \<le> n \<and> bit sg n)) \<and>
    bit (t_signal_mask (task_of (mipos_t_sig_allow tid sg k) (unat tid))) n =
      (bit (t_signal_mask (task_of k (unat tid))) n \<or> 4 \<le> n \<and> bit sg n)"
proof -
  have p: "mipos_get_p_task k tid = Some (unat tid)"
    using assms(1,2) by (rule get_p_task_id)
  have "bit (mask 4 :: u8) n = (n < 4)" by (subst bit_mask_iff) auto
  moreover have "SYS_RESERVED_SIGNALS = mask 4" by (simp add: mip_simps mask_eq_exp_minus_1)
  ultimately have "bit SYS_RESERVED_SIGNALS n = (n < 4)" by simp
  with assms p show ?thesis
    by (auto simp: mipos_t_sig_ignore_def mipos_t_sig_allow_def on_task_def bit_simps
        dest: bit_imp_le_length)
qed

subsection \<open>Freezing\<close>

text \<open>
  Freezing a task takes it out of scheduling and loses nothing: the search never stops at
  a frozen task, and unfreezing a task that was not frozen before restores the kernel
  state exactly.
\<close>

theorem freeze_unfreeze:
  assumes "tid \<noteq> 0" "unat tid < 8" "length (k_task_table k) = 8"
    "t_status (task_of k (unat tid)) AND TASK_FROZEN = 0"
  shows "search_cond n (unat tid) (mipos_t_freeze tid k) \<and>
    mipos_t_unfreeze tid (mipos_t_freeze tid k) = k"
proof -
  have p: "mipos_get_p_task k' tid = Some (unat tid)" for k'
    using assms(1,2) by (rule get_p_task_id)
  have "(s OR TASK_FROZEN) AND (TASK_NOT_RUNNING OR TASK_ZOMBIE OR TASK_FROZEN) \<noteq> 0" for s
    by (simp add: mip_simps bit.conj_disj_distrib2 or_eq_0_iff)
  with assms p have "search_cond n (unat tid) (mipos_t_freeze tid k)"
    by (simp add: search_cond_def mipos_t_freeze_def on_task_def Let_def)
  then show ?thesis
    using assms p
    by (simp add: mipos_t_freeze_def mipos_t_unfreeze_def on_task_def upd_task_def task_of_def
        set_then_clear)
qed

text \<open>
  A task that freezes itself is not frozen once it blocks: the next suspending call
  overwrites the whole status word, so the task ends up plainly suspended and the
  scheduler goes on visiting it.
\<close>

theorem self_freeze_is_lost:
  assumes "k_task_context k = Some i" "i < length (k_task_table k)"
    "t_status (task_of k i) = TASK_RUNNING"
  shows "t_status (task_of (mipos_t_freeze 0 k) i) = TASK_RUNNING OR TASK_FROZEN \<and>
    (\<exists>k'. mipos_t_suspend pc sp (mipos_t_freeze 0 k) = Some k' \<and>
      t_status (task_of k' i) = TASK_SUSPENDED)"
proof -
  have fr: "mipos_t_freeze 0 k = upd_task i (\<lambda>t. t\<lparr>t_status := t_status t OR TASK_FROZEN\<rparr>) k"
    using assms by (simp add: mipos_t_freeze_def on_task_def mipos_get_p_task_def)
  with assms show ?thesis
    by (simp add: mipos_t_suspend_def t_suspend_enter_def on_context_def
        t_set_wait_for_signal_def Let_def mip_simps)
qed

theorem notify_never_lost_witness:
  "\<exists>k1 k' k2 k3 k4. t_suspend_enter 5 0x8200 0x10 quiet_running = Some k1 \<and> mipos_t_notify_signal 1 0x30 k1 = k' \<and>
    t_suspend_enter 5 0x8200 0x10 (mipos_t_notify_signal 1 0x30 quiet_running) = Some k' \<and>
    asleep (task_of k' 1) \<and> task_state_machine 1 k' = (TsmScheduler, k2) \<and> woken (task_of k2 1) \<and>
    task_state_machine 1 k2 = (TsmDispatcher, k3) \<and> dispatcher 77 1 k3 = Some (Resumed 5, k4) \<and>
    t_status (task_of k4 1) = TASK_RUNNING \<and> asleep (visits [1, 2, 3] (task_of k1 1))"
proof -
  have id: "unat (1 :: u32) = 1" by simp
  have "(0x30 :: u8) AND t_signal_mask (task_of quiet_running 1) AND 0x10 \<noteq> 0"
      "t_signal_pending (task_of quiet_running 1) AND (t_signal_waiting (task_of quiet_running 1) OR 0x10) = 0 \<and>
       (t_signal_waiting (task_of quiet_running 1) OR 0x10) AND (MIPOS_SIGALM OR MIPOS_SIGTMR) = 0"
    unfolding quiet_running_task by (simp_all add: mip_simps)
  with notify_never_lost [of quiet_running 1 "0x30" "0x10" 5 "0x8200" 77, unfolded id] quiet_running_task(1-3)
  have "\<exists>k1 k'. t_suspend_enter 5 0x8200 0x10 quiet_running = Some k1 \<and> mipos_t_notify_signal 1 0x30 k1 = k' \<and>
    t_suspend_enter 5 0x8200 0x10 (mipos_t_notify_signal 1 0x30 quiet_running) = Some k' \<and> asleep (task_of k' 1) \<and>
    (\<exists>k2 k3 k4. task_state_machine 1 k' = (TsmScheduler, k2) \<and> woken (task_of k2 1) \<and>
       task_state_machine 1 k2 = (TsmDispatcher, k3) \<and> dispatcher 77 1 k3 = Some (Resumed 5, k4) \<and>
       t_status (task_of k4 1) = TASK_RUNNING \<and> t_signal_pending (task_of k4 1) AND 0x10 = 0) \<and>
    (\<forall>rtcs. asleep (visits rtcs (task_of k1 1)))"
    by (simp del: One_nat_def)
  then show ?thesis by (elim exE conjE) (intro exI conjI; (assumption | rule spec; assumption))
qed

theorem notify_wakes_waiter_witness:
  "woken (tsm_suspended 0 (task_of (mipos_t_notify_signal 1 0x10
     (upd_task 1 (\<lambda>t. t\<lparr>t_signal_waiting := 0x10\<rparr>) quiet_running)) 1))"
  using notify_wakes_waiter [of 1 "upd_task 1 (\<lambda>t. t\<lparr>t_signal_waiting := 0x10\<rparr>) quiet_running" "0x10" 0]
  by (simp add: quiet_running_task [simplified])

theorem sig_mask_ops_witness:
  "\<not> bit (t_signal_mask (task_of (mipos_t_sig_ignore 1 0xFF quiet_running) 1)) 4 \<and>
   bit (t_signal_mask (task_of (mipos_t_sig_ignore 1 0xFF quiet_running) 1)) 2"
  using sig_mask_ops [of 1 quiet_running "0xFF" 4] sig_mask_ops [of 1 quiet_running "0xFF" 2]
  by (simp add: quiet_running_task [simplified])

theorem freeze_unfreeze_witness:
  "search_cond 3 1 (mipos_t_freeze 1 quiet_running) \<and>
   mipos_t_unfreeze 1 (mipos_t_freeze 1 quiet_running) = quiet_running"
  using freeze_unfreeze [of 1 quiet_running 3]
  by (simp add: quiet_running_task [simplified] mip_simps)

theorem self_freeze_is_lost_witness:
  "\<exists>k'. mipos_t_suspend 9 0x8200 (mipos_t_freeze 0 quiet_running) = Some k' \<and>
     t_status (task_of k' 1) = TASK_SUSPENDED"
  using self_freeze_is_lost [OF quiet_running_task(1) _ quiet_running_task(3), of 9 "0x8200"]
  by (simp add: quiet_running_task [simplified])

end
