(* ===== verification/Mipos_Queue.thy ===== *)
theory Mipos_Queue
  imports Mipos_Blocking
begin

text \<open>
  Message queues (\<^verbatim>\<open>mipos_queue.c\<close>): a ring buffer over a caller's array with one possible
  waiting task. The pool array is a list; \<open>None\<close> is a failed assertion or an access
  outside the pool. A blocking receive is split at its suspension. The abstract queue is
  the list of pending items, and the interface \<open>bounded_fifo\<close> relates the operations to it.
\<close>

record mipos_queue =
  q_suspended_tid :: u32
  q_head :: u16
  q_tail :: u16
  q_item :: "u32 list"
  q_limit :: u16
  q_count :: u16

definition mipos_q_init :: "u32 list \<Rightarrow> u16 \<Rightarrow> mipos_queue option" where
  "mipos_q_init queue_pool queue_pool_length =
     (if queue_pool_length > 0
      then Some \<lparr>q_suspended_tid = 0, q_head = 0, q_tail = 0, q_item = queue_pool,
                 q_limit = queue_pool_length, q_count = 0\<rparr>
      else None)"

text \<open>\<^verbatim>\<open>(i + 1) % limit\<close> of C, evaluated in \<^verbatim>\<open>int\<close> after promotion.\<close>

definition q_next :: "u16 \<Rightarrow> u16 \<Rightarrow> u16" where
  "q_next i limit = of_nat ((unat i + 1) mod unat limit)"

definition q_wake :: "mipos_queue \<Rightarrow> mipos_kernel \<Rightarrow> mipos_kernel" where
  "q_wake q k =
     (if q_suspended_tid q \<noteq> 0 then mipos_t_notify_signal (q_suspended_tid q) MIPOS_SIGQUE k else k)"

definition mipos_q_send ::
    "u32 \<Rightarrow> mipos_queue \<times> mipos_kernel \<Rightarrow> (u16 \<times> mipos_queue \<times> mipos_kernel) option" where
  "mipos_q_send item qk =
     (let (q, k) = qk in
      if q_count q < q_limit q then
        if unat (q_tail q) < length (q_item q)
        then let q1 = q\<lparr>q_count := q_count q + 1, q_item := (q_item q)[unat (q_tail q) := item],
                        q_tail := q_next (q_tail q) (q_limit q)\<rparr>
             in Some (q_count q1, q1, q_wake q1 k)
        else None
      else Some (- 1, q, q_wake q k))"

text \<open>The end of \<^verbatim>\<open>mipos_q_receive\<close>: take an item if there is one.\<close>

definition q_take :: "mipos_queue \<Rightarrow> (u16 \<times> u32 option \<times> mipos_queue) option" where
  "q_take q =
     (if q_count q > 0 then
        if unat (q_head q) < length (q_item q) \<and> q_limit q \<noteq> 0
        then Some (1, Some (q_item q ! unat (q_head q)),
               q\<lparr>q_head := q_next (q_head q) (q_limit q), q_count := q_count q - 1\<rparr>)
        else None
      else Some (0, None, q))"

datatype q_outcome =
    Received u16 "u32 option" mipos_queue mipos_kernel
  | Blocked mipos_queue mipos_kernel

definition mipos_q_receive ::
    "nat \<Rightarrow> u64 \<Rightarrow> bool \<Rightarrow> bool \<Rightarrow> mipos_queue \<Rightarrow> mipos_kernel \<Rightarrow> q_outcome option" where
  "mipos_q_receive pc sp p_item bl q k =
     (if \<not> p_item then Some (Received (- 1) None q k)
      else if q_count q = 0 \<and> q_suspended_tid q = 0 \<and> bl
      then map_option (Blocked (q\<lparr>q_suspended_tid := k_current_task k\<rparr>))
             (t_suspend_enter pc sp MIPOS_SIGQUE k)
      else map_option (\<lambda>(r, x, q1). Received r x q1 k)
             (q_take (if q_count q = 0 \<and> q_suspended_tid q = 0 then q\<lparr>q_suspended_tid := 0\<rparr> else q)))"

definition q_receive_resume :: "mipos_queue \<Rightarrow> (u16 \<times> u32 option \<times> mipos_queue) option" where
  "q_receive_resume q = q_take (q\<lparr>q_suspended_tid := 0\<rparr>)"

definition mipos_q_count :: "mipos_queue \<Rightarrow> u16" where
  "mipos_q_count q = q_count q"

definition mipos_q_message_pending :: "mipos_queue \<Rightarrow> bool" where
  "mipos_q_message_pending q \<longleftrightarrow> \<not> (q_count q = 0 \<and> q_suspended_tid q = 0)"

subsection \<open>The ring buffer as a list\<close>

definition q_wf :: "mipos_queue \<Rightarrow> bool" where
  "q_wf q \<longleftrightarrow>
     0 < q_limit q \<and> unat (q_limit q) \<le> length (q_item q) \<and> q_head q < q_limit q \<and>
     q_count q \<le> q_limit q \<and>
     unat (q_tail q) = (unat (q_head q) + unat (q_count q)) mod unat (q_limit q)"

definition q_list :: "mipos_queue \<Rightarrow> u32 list" where
  "q_list q =
     map (\<lambda>i. q_item q ! ((unat (q_head q) + i) mod unat (q_limit q))) [0..<unat (q_count q)]"

lemma q_wf_code_bounds:
  assumes "q_wf q"
  shows "0 < unat (q_limit q)" "unat (q_limit q) \<le> length (q_item q)"
    "unat (q_head q) < unat (q_limit q)" "unat (q_count q) \<le> unat (q_limit q)"
    "unat (q_tail q) < unat (q_limit q)"
  using assms by (auto simp: q_wf_def word_less_nat_alt word_le_nat_alt)

lemma unat_q_next:
  assumes "0 < unat limit"
  shows "unat (q_next i limit) = (unat i + 1) mod unat limit"
proof -
  have "(unat i + 1) mod unat limit < 65536"
    using assms unat_range(2) [of limit] by (meson less_trans mod_less_divisor)
  then show ?thesis by (simp add: q_next_def unat_of_nat)
qed

lemma q_list_length [simp]: "length (q_list q) = unat (q_count q)"
  by (simp add: q_list_def)

lemma q_init_empty:
  "q_wf \<lparr>q_suspended_tid = t, q_head = 0, q_tail = 0, q_item = pool, q_limit = n, q_count = 0\<rparr> =
     (0 < n \<and> unat n \<le> length pool)"
  by (auto simp: q_wf_def)

text \<open>Writing at the tail of a ring that is not full touches none of the pending items.\<close>

lemma ring_distinct:
  assumes "i < c" "c < (n :: nat)"
  shows "(h + i) mod n \<noteq> (h + c) mod n"
proof
  assume "(h + i) mod n = (h + c) mod n"
  then have "n dvd (h + c) - (h + i)" using assms by (metis add_le_cancel_left less_imp_le mod_eq_dvd_iff_nat)
  then have "n dvd c - i" by simp
  moreover have "0 < c - i" "c - i < n" using assms by simp_all
  ultimately show False by (simp add: nat_dvd_not_less)
qed

lemma q_send_accepts:
  assumes wf: "q_wf q" and room: "q_count q < q_limit q"
  shows "\<exists>q' k'. mipos_q_send item (q, k) = Some (q_count q + 1, q', k') \<and> q_wf q' \<and>
    q_list q' = q_list q @ [item] \<and> q_limit q' = q_limit q \<and>
    q_suspended_tid q' = q_suspended_tid q \<and> k' = q_wake q k"
proof -
  let ?n = "unat (q_limit q)" and ?c = "unat (q_count q)" and ?h = "unat (q_head q)"
  let ?q = "q\<lparr>q_count := q_count q + 1, q_item := (q_item q)[unat (q_tail q) := item],
      q_tail := q_next (q_tail q) (q_limit q)\<rparr>"
  note b = q_wf_code_bounds [OF wf]
  have c: "?c < ?n" using room by (simp add: word_less_nat_alt)
  have c1: "unat (q_count q + 1) = ?c + 1"
    using c unat_range(2) [of "q_limit q"] by (simp add: unat_word_ariths)
  have tail: "unat (q_tail q) = (?h + ?c) mod ?n" using wf by (simp add: q_wf_def)
  then have "(unat (q_tail q) + 1) mod ?n = (?h + (?c + 1)) mod ?n" by (simp add: mod_simps)
  then have wf': "q_wf ?q"
    using b c c1 by (simp add: q_wf_def unat_q_next word_less_nat_alt word_le_nat_alt)
  have lt: "j mod ?n < length (q_item q)" for j
    using b(1,2) by (meson less_le_trans mod_less_divisor)
  have "(q_item q)[unat (q_tail q) := item] ! ((?h + i) mod ?n) =
      (if i = ?c then item else q_item q ! ((?h + i) mod ?n))" if "i < ?c + 1" for i
    using that c lt ring_distinct [of i ?c ?n ?h] unfolding tail
    by (auto simp: nth_list_update)
  then have "q_list ?q = q_list q @ [item]"
    by (simp add: q_list_def c1)
  moreover have "mipos_q_send item (q, k) = Some (q_count q + 1, ?q, q_wake ?q k)"
    using b room by (simp add: mipos_q_send_def Let_def)
  moreover have "q_wake ?q k = q_wake q k" by (simp add: q_wake_def)
  ultimately show ?thesis using wf' by simp
qed

lemma q_send_full:
  "\<not> q_count q < q_limit q \<Longrightarrow> mipos_q_send item (q, k) = Some (- 1, q, q_wake q k)"
  by (simp add: mipos_q_send_def)

lemma q_take_empty: "q_list q = [] \<Longrightarrow> q_take q = Some (0, None, q)"
  using q_list_length [of q] by (simp add: q_take_def unat_eq_zero)

lemma q_take_first:
  assumes wf: "q_wf q" and ne: "q_list q = x # xs"
  shows "\<exists>q'. q_take q = Some (1, Some x, q') \<and> q_wf q' \<and> q_list q' = xs \<and>
    q_limit q' = q_limit q \<and> q_suspended_tid q' = q_suspended_tid q"
proof -
  let ?n = "unat (q_limit q)" and ?c = "unat (q_count q)" and ?h = "unat (q_head q)"
  let ?q = "q\<lparr>q_head := q_next (q_head q) (q_limit q), q_count := q_count q - 1\<rparr>"
  note b = q_wf_code_bounds [OF wf]
  have c: "0 < ?c" using ne q_list_length [of q] by (metis length_greater_0_conv list.discI)
  then have pos: "0 < q_count q" by (simp add: word_less_nat_alt)
  then have c1: "unat (q_count q - 1) = ?c - 1"
    by (metis unat_minus_one word_less_nat_alt unat_0 not_less_zero)
  have split: "[0..<?c] = 0 # map Suc [0..<?c - 1]"
    using c by (metis Suc_diff_1 upt_conv_Cons map_Suc_upt)
  have hd: "q_item q ! ?h = x" and tl: "map (\<lambda>i. q_item q ! ((?h + Suc i) mod ?n)) [0..<?c - 1] = xs"
    using ne b(3) by (auto simp: q_list_def split comp_def)
  have "q_list ?q = map (\<lambda>i. q_item q ! ((?h + Suc i) mod ?n)) [0..<?c - 1]"
    using b(1) by (simp add: q_list_def c1 unat_q_next mod_simps)
  with tl have "q_list ?q = xs" by simp
  moreover have "unat (q_tail q) = ((?h + 1) mod ?n + (?c - 1)) mod ?n"
    unfolding mod_add_left_eq using wf c by (simp add: q_wf_def)
  then have "q_wf ?q"
    using b c1 by (simp add: q_wf_def unat_q_next word_less_nat_alt word_le_nat_alt)
  moreover have "q_take q = Some (1, Some x, ?q)"
    using pos b hd by (auto simp: q_take_def word_less_nat_alt)
  ultimately show ?thesis by simp
qed

subsection \<open>The queue interface\<close>

text \<open>
  What a client of the queue relies on: a send appends or is refused when the queue is full,
  a receive takes the oldest item. The history lemma follows for every interleaving.
\<close>

datatype 'a q_op = Send 'a | Receive

fun q_run :: "('a \<Rightarrow> 's \<Rightarrow> (bool \<times> 's) option) \<Rightarrow> ('s \<Rightarrow> ('a option \<times> 's) option) \<Rightarrow>
    'a q_op list \<Rightarrow> 's \<Rightarrow> ('a list \<times> 'a list \<times> 's) option" where
  "q_run snd_op rcv_op [] s = Some ([], [], s)"
| "q_run snd_op rcv_op (Send x # ops) s =
     do { (ok, s1) \<leftarrow> snd_op x s;
          (sent, got, s2) \<leftarrow> q_run snd_op rcv_op ops s1;
          Some (if ok then x # sent else sent, got, s2) }"
| "q_run snd_op rcv_op (Receive # ops) s =
     do { (r, s1) \<leftarrow> rcv_op s;
          (sent, got, s2) \<leftarrow> q_run snd_op rcv_op ops s1;
          Some (sent, (case r of None \<Rightarrow> got | Some x \<Rightarrow> x # got), s2) }"

locale bounded_fifo =
  fixes inv :: "'s \<Rightarrow> bool" and items :: "'s \<Rightarrow> 'a list" and room :: "'s \<Rightarrow> bool"
    and snd_op :: "'a \<Rightarrow> 's \<Rightarrow> (bool \<times> 's) option" and rcv_op :: "'s \<Rightarrow> ('a option \<times> 's) option"
  assumes send_ok: "inv s \<Longrightarrow> room s \<Longrightarrow>
      \<exists>s'. snd_op x s = Some (True, s') \<and> inv s' \<and> items s' = items s @ [x]"
    and send_refused: "inv s \<Longrightarrow> \<not> room s \<Longrightarrow>
      \<exists>s'. snd_op x s = Some (False, s') \<and> inv s' \<and> items s' = items s"
    and receive_ok: "inv s \<Longrightarrow> items s = x # xs \<Longrightarrow>
      \<exists>s'. rcv_op s = Some (Some x, s') \<and> inv s' \<and> items s' = xs"
    and receive_empty: "inv s \<Longrightarrow> items s = [] \<Longrightarrow>
      \<exists>s'. rcv_op s = Some (None, s') \<and> inv s' \<and> items s' = []"
begin

lemma history:
  "inv s \<Longrightarrow> \<exists>sent got s'. q_run snd_op rcv_op ops s = Some (sent, got, s') \<and> inv s' \<and>
     got @ items s' = items s @ sent"
proof (induction ops arbitrary: s)
  case Nil
  then show ?case by simp
next
  case (Cons op ops)
  show ?case
  proof (cases op)
    case (Send x)
    obtain ok s1 where s1: "snd_op x s = Some (ok, s1)" "inv s1"
        "items s1 = (if ok then items s @ [x] else items s)"
      using send_ok [OF Cons.prems, of x] send_refused [OF Cons.prems, of x] by fastforce
    with Cons.IH [OF s1(2)] Send show ?thesis by (fastforce split: if_splits)
  next
    case Receive
    obtain r s1 where s1: "rcv_op s = Some (r, s1)" "inv s1"
        "items s = (case r of None \<Rightarrow> items s1 | Some x \<Rightarrow> x # items s1)"
      using receive_ok [OF Cons.prems] receive_empty [OF Cons.prems]
      by (cases "items s") fastforce+
    with Cons.IH [OF s1(2)] Receive show ?thesis by (fastforce split: option.splits)
  qed
qed

end

text \<open>The queue and the kernel as one state, with a polling receive.\<close>

definition q_send_op ::
    "u32 \<Rightarrow> mipos_queue \<times> mipos_kernel \<Rightarrow> (bool \<times> mipos_queue \<times> mipos_kernel) option" where
  "q_send_op x qk = map_option (\<lambda>(r, qk'). (q_count (fst qk) < q_limit (fst qk), qk')) (mipos_q_send x qk)"

definition q_poll_op ::
    "mipos_queue \<times> mipos_kernel \<Rightarrow> (u32 option \<times> mipos_queue \<times> mipos_kernel) option" where
  "q_poll_op qk =
     (case mipos_q_receive 0 0 True False (fst qk) (snd qk) of
        Some (Received r x q k) \<Rightarrow> Some (x, q, k) | _ \<Rightarrow> None)"

lemma q_same_tid: "q_suspended_tid q = 0 \<Longrightarrow> q\<lparr>q_suspended_tid := 0\<rparr> = q"
  by simp

lemma q_poll_take:
  "q_poll_op (q, k) = map_option (\<lambda>(r, x, q'). (x, q', k)) (q_take q)"
  by (auto simp: q_poll_op_def mipos_q_receive_def q_same_tid split: option.split)

interpretation msgq: bounded_fifo "\<lambda>qk. q_wf (fst qk)" "\<lambda>qk. q_list (fst qk)"
  "\<lambda>qk. q_count (fst qk) < q_limit (fst qk)" q_send_op q_poll_op
proof
  fix s :: "mipos_queue \<times> mipos_kernel" and x
  obtain q k where s: "s = (q, k)" by fastforce
  assume wf: "q_wf (fst s)"
  {
    assume "q_count (fst s) < q_limit (fst s)"
    with wf q_send_accepts [of q x k] s
    show "\<exists>s'. q_send_op x s = Some (True, s') \<and> q_wf (fst s') \<and> q_list (fst s') = q_list (fst s) @ [x]"
      by (auto simp: q_send_op_def)
  next
    assume "\<not> q_count (fst s) < q_limit (fst s)"
    with wf q_send_full [of q x k] s
    show "\<exists>s'. q_send_op x s = Some (False, s') \<and> q_wf (fst s') \<and> q_list (fst s') = q_list (fst s)"
      by (auto simp: q_send_op_def)
  next
    fix xs
    assume "q_list (fst s) = x # xs"
    with wf q_take_first [of q x xs] s
    show "\<exists>s'. q_poll_op s = Some (Some x, s') \<and> q_wf (fst s') \<and> q_list (fst s') = xs"
      by (auto simp: q_poll_take)
  next
    assume "q_list (fst s) = []"
    with wf q_take_empty [of q] s
    show "\<exists>s'. q_poll_op s = Some (None, s') \<and> q_wf (fst s') \<and> q_list (fst s') = []"
      by (auto simp: q_poll_take)
  }
qed

subsection \<open>Properties\<close>

text \<open>
  C3. The message queue is a FIFO: for every interleaving of sends and polling receives on a
  well-formed queue no operation faults, and what has been received, followed by what
  is still pending, is what was pending at first followed by the accepted sends.
\<close>

theorem queue_fifo_history:
  assumes "q_wf q"
  shows "\<exists>sent got q' k'. q_run q_send_op q_poll_op ops (q, k) = Some (sent, got, q', k') \<and>
    q_wf q' \<and> got @ q_list q' = q_list q @ sent"
  using msgq.history [of "(q, k)" ops] assms by auto

text \<open>
  \<^verbatim>\<open>mipos_q_send\<close> on a queue with room appends the item, returns the new length and leaves
  the queue well-formed; on a full queue it returns -1 and leaves the queue alone. In
  both cases a waiting task is signalled.
\<close>

theorem q_send_spec:
  assumes "q_wf q"
  shows "\<exists>q'. mipos_q_send item (q, k) =
      Some (if q_count q < q_limit q then q_count q + 1 else - 1, q', q_wake q k) \<and> q_wf q' \<and>
    q_list q' = (if q_count q < q_limit q then q_list q @ [item] else q_list q)"
  using assms q_send_accepts [of q item k] q_send_full [of q item k] by auto

lemma q_wait_asleep:
  assumes "asleep t" "t_signal_waiting t = MIPOS_SIGQUE" "t_signal_pending t AND MIPOS_SIGQUE = 0"
  shows "visits rtcs t = t"
proof -
  have "tsm_suspended r t = t" for r
    using assms by (simp add: tsm_suspended_def Let_def mip_simps asleep_def)
  then show ?thesis by (induction rtcs) simp_all
qed

text \<open>
  C30. A receive on an empty queue blocks the task through any number of scheduler turns; the
  next send wakes it, and the resumed receive returns the item sent and clears the wait.
\<close>

theorem q_receive_blocks_until_send:
  assumes q: "q_wf q" "q_count q = 0" "q_suspended_tid q = 0"
    and k: "k_task_context k = Some i" "k_current_task k = of_nat i" "0 < i" "i < 8"
      "length (k_task_table k) = 8" "t_status (task_of k i) = TASK_RUNNING"
      "t_signal_waiting (task_of k i) = 0" "t_signal_pending (task_of k i) = 0"
      "t_signal_mask (task_of k i) AND MIPOS_SIGQUE \<noteq> 0"
  shows "\<exists>q1 k1 q2 k2 q3. mipos_q_receive pc sp True True q k = Some (Blocked q1 k1) \<and>
    (\<forall>rtcs. asleep (visits rtcs (task_of k1 i))) \<and>
    mipos_q_send item (q1, k1) = Some (1, q2, k2) \<and> woken (tsm_suspended r (task_of k2 i)) \<and>
    q_receive_resume q2 = Some (1, Some item, q3) \<and> q_list q3 = [] \<and> q_suspended_tid q3 = 0"
proof -
  let ?q1 = "q\<lparr>q_suspended_tid := of_nat i\<rparr>"
  have tid: "unat (of_nat i :: u32) = i" "of_nat i \<noteq> (0 :: u32)"
    using k(3,4) by (simp_all add: unat_slot slot_nonzero)
  obtain k1 where k1: "t_suspend_enter pc sp MIPOS_SIGQUE k = Some k1" "length (k_task_table k1) = 8"
      "task_of k1 i = t_set_wait_for_signal MIPOS_SIGQUE
         ((task_of k i)\<lparr>t_reg_state := Some (pc, MIPOS_SIGQUE), t_process_sp := sp\<rparr>)"
    using k by (simp add: t_suspend_enter_def on_context_def)
  then have t1: "asleep (task_of k1 i)" "t_signal_waiting (task_of k1 i) = MIPOS_SIGQUE"
      "t_signal_pending (task_of k1 i) = 0" "t_signal_mask (task_of k1 i) = t_signal_mask (task_of k i)"
    using k by (simp_all add: set_wait_running asleep_def)
  have q1: "q_wf ?q1" "q_list ?q1 = []" "q_count ?q1 < q_limit ?q1"
    using q by (simp_all add: q_wf_def q_list_def)
  from q_send_accepts [OF q1(1,3), of item k1] obtain q2 where q2:
      "mipos_q_send item (?q1, k1) = Some (1, q2, mipos_t_notify_signal (of_nat i) MIPOS_SIGQUE k1)"
      "q_wf q2" "q_list q2 = [item]"
    using q1(2) q(2) tid(2) by (auto simp: q_wake_def)
  let ?t = "task_of (mipos_t_notify_signal (of_nat i) MIPOS_SIGQUE k1) i"
  have "?t = (task_of k1 i)\<lparr>t_signal_pending := MIPOS_SIGQUE AND t_signal_mask (task_of k i)\<rparr>"
    using get_p_task_id [OF tid(2)] tid(1) k(4) k1(2) t1
    by (simp add: mipos_t_notify_signal_def on_task_def)
  then have wake: "woken (tsm_suspended r ?t)"
    using t1(2) k(9) by (intro tsm_suspended_awake) (simp add: ac_simps)
  have "q_wf (q2\<lparr>q_suspended_tid := 0\<rparr>)" "q_list (q2\<lparr>q_suspended_tid := 0\<rparr>) = [item]"
    using q2 by (simp_all add: q_wf_def q_list_def)
  from q_take_first [OF this] obtain q3 where "q_receive_resume q2 = Some (1, Some item, q3)"
      "q_list q3 = []" "q_suspended_tid q3 = 0"
    by (auto simp: q_receive_resume_def)
  moreover have "mipos_q_receive pc sp True True q k = Some (Blocked ?q1 k1)"
    using q k1(1) k(2) by (simp add: mipos_q_receive_def)
  moreover have "visits rtcs (task_of k1 i) = task_of k1 i" for rtcs
    using q_wait_asleep [OF t1(1,2)] t1(3) by simp
  ultimately show ?thesis using q2(1) wake t1(1) by auto
qed

text \<open>
  A second task that receives in blocking mode from an empty queue on which another task
  already waits is not blocked: the call returns 0 at once without an item, although
  \<^verbatim>\<open>mipos_q_message_pending\<close> reports a message.
\<close>

theorem second_receiver_not_blocked:
  assumes "q_count q = 0" "q_suspended_tid q \<noteq> 0"
  shows "mipos_q_receive pc sp True True q k = Some (Received 0 None q k) \<and>
    mipos_q_message_pending q"
  using assms by (simp add: mipos_q_receive_def q_take_def mipos_q_message_pending_def)

definition demo_queue :: mipos_queue where
  "demo_queue = the (mipos_q_init [0, 0, 0] 2)"

lemma demo_queue_facts: "q_wf demo_queue" "q_count demo_queue = 0" "q_suspended_tid demo_queue = 0"
  "q_limit demo_queue = 2" "q_list demo_queue = []"
  by (simp_all add: demo_queue_def mipos_q_init_def q_init_empty q_list_def)

theorem queue_fifo_history_witness:
  "\<exists>sent got q' k'. q_run q_send_op q_poll_op [Send 7, Send 8, Send 9, Receive] (demo_queue, quiet_running) =
     Some (sent, got, q', k') \<and> q_wf q' \<and> got @ q_list q' = sent"
  using queue_fifo_history [OF demo_queue_facts(1), of "[Send 7, Send 8, Send 9, Receive]" quiet_running]
    demo_queue_facts(5) by simp

theorem q_send_spec_witness:
  "\<exists>q'. mipos_q_send 7 (demo_queue, quiet_running) = Some (1, q', quiet_running) \<and> q_list q' = [7]"
  using q_send_spec [OF demo_queue_facts(1), of 7 quiet_running] demo_queue_facts
  by (auto simp: q_wake_def)

theorem q_receive_blocks_until_send_witness:
  "\<exists>q1 k1 q2 k2 q3. mipos_q_receive 5 0x8200 True True demo_queue quiet_running = Some (Blocked q1 k1) \<and>
    (\<forall>rtcs. asleep (visits rtcs (task_of k1 1))) \<and>
    mipos_q_send 7 (q1, k1) = Some (1, q2, k2) \<and> woken (tsm_suspended 0 (task_of k2 1)) \<and>
    q_receive_resume q2 = Some (1, Some 7, q3)"
proof -
  have "k_current_task quiet_running = of_nat 1" by code_simp
  from q_receive_blocks_until_send [OF demo_queue_facts(1-3) quiet_running_task(1) this _ _
      quiet_running_task(2-5), of 5 "0x8200" 7 0]
  show ?thesis by (auto simp: quiet_running_task [simplified] mip_simps)
qed

theorem second_receiver_not_blocked_witness:
  "mipos_q_receive 5 0x8200 True True (demo_queue\<lparr>q_suspended_tid := 3\<rparr>) quiet_running =
     Some (Received 0 None (demo_queue\<lparr>q_suspended_tid := 3\<rparr>) quiet_running)"
  using second_receiver_not_blocked [of "demo_queue\<lparr>q_suspended_tid := 3\<rparr>"]
  by (simp add: demo_queue_facts)

end
