(* ===== verification/Mipos_Mutex.thy ===== *)
theory Mipos_Mutex
  imports Mipos_Blocking
begin

text \<open>
  Mutexes (\<^verbatim>\<open>mipos_mutex.h\<close>): a flag that \<^verbatim>\<open>mipos_mu_lock\<close> polls, sleeping with
  \<^verbatim>\<open>mipos_tm_wkafter(0)\<close> between two looks. One iteration of the polling loop is atomic,
  because a task loses control only in the sleep. The interface \<open>lock_spec\<close> gives mutual
  exclusion for every interleaving of tasks that unlock only what they hold.
\<close>

definition MUTEX_UNLOCKED :: u8 where
  [mip_simps]: "MUTEX_UNLOCKED = 0"

definition MUTEX_LOCKED :: u8 where
  [mip_simps]: "MUTEX_LOCKED = 1"

record mipos_mtx =
  mtx_state :: u8

definition mipos_mu_init :: "mipos_mtx \<Rightarrow> mipos_mtx" where
  "mipos_mu_init m = m\<lparr>mtx_state := MUTEX_UNLOCKED\<rparr>"

text \<open>
  One iteration of \<^verbatim>\<open>mipos_mu_lock\<close>: the mutex is taken (\<open>True\<close>), or the task goes to sleep
  and will run the next iteration when it is resumed.
\<close>

definition mipos_mu_lock ::
    "nat \<Rightarrow> u64 \<Rightarrow> mipos_mtx \<Rightarrow> mipos_kernel \<Rightarrow> (bool \<times> mipos_mtx \<times> mipos_kernel) option" where
  "mipos_mu_lock pc sp m k =
     (if mtx_state m = MUTEX_UNLOCKED
      then Some (True, m\<lparr>mtx_state := mtx_state m OR MUTEX_LOCKED\<rparr>, k)
      else map_option (\<lambda>k1. (False, m, k1)) (mipos_tm_wkafter pc sp 0 k))"

definition mipos_mu_unlock :: "mipos_mtx \<Rightarrow> mipos_mtx" where
  "mipos_mu_unlock m = m\<lparr>mtx_state := MUTEX_UNLOCKED\<rparr>"

subsection \<open>Tasks that share a lock\<close>

text \<open>The set of tasks between a completed lock and their unlock, and the lock itself.\<close>

inductive lock_step ::
    "('m \<Rightarrow> 'm option) \<Rightarrow> ('m \<Rightarrow> 'm) \<Rightarrow> 't set \<times> 'm \<Rightarrow> 't set \<times> 'm \<Rightarrow> bool" for try_op release_op where
  acquire: "try_op m = Some m' \<Longrightarrow> lock_step try_op release_op (H, m) (insert t H, m')"
| wait: "try_op m = None \<Longrightarrow> lock_step try_op release_op (H, m) (H, m)"
| release: "t \<in> H \<Longrightarrow> lock_step try_op release_op (H, m) (H - {t}, release_op m)"

inductive lock_reach ::
    "('m \<Rightarrow> 'm option) \<Rightarrow> ('m \<Rightarrow> 'm) \<Rightarrow> 't set \<times> 'm \<Rightarrow> 't set \<times> 'm \<Rightarrow> bool" for try_op release_op s0 where
  start: "lock_reach try_op release_op s0 s0"
| step: "lock_reach try_op release_op s0 s \<Longrightarrow> lock_step try_op release_op s t \<Longrightarrow>
    lock_reach try_op release_op s0 t"

inductive_cases lock_stepE: "lock_step try_op release_op s t"

locale lock_spec =
  fixes try_op :: "'m \<Rightarrow> 'm option" and release_op :: "'m \<Rightarrow> 'm" and free :: "'m \<Rightarrow> bool"
  assumes try_free: "free m \<Longrightarrow> \<exists>m'. try_op m = Some m' \<and> \<not> free m'"
    and try_busy: "\<not> free m \<Longrightarrow> try_op m = None"
    and release_free: "free (release_op m)"
begin

definition exclusive :: "'t set \<times> 'm \<Rightarrow> bool" where
  "exclusive s \<longleftrightarrow> (case s of (H, m) \<Rightarrow> if free m then H = {} else (\<exists>t. H = {t}))"

lemma exclusive_step: "lock_step try_op release_op s t \<Longrightarrow> exclusive s \<Longrightarrow> exclusive t"
proof (induction rule: lock_step.induct)
  case (acquire m m' H t)
  then have "free m" "\<not> free m'" using try_free [of m] try_busy [of m] by auto
  with acquire show ?case by (auto simp: exclusive_def)
next
  case (wait m H)
  then show ?case by simp
next
  case (release t H m)
  then show ?case using release_free [of m] by (auto simp: exclusive_def split: if_splits)
qed

lemma exclusive_reach:
  "lock_reach try_op release_op s0 s \<Longrightarrow> exclusive s0 \<Longrightarrow> exclusive s"
  by (induction rule: lock_reach.induct) (auto intro: exclusive_step)

end

definition mu_try :: "mipos_kernel \<Rightarrow> mipos_mtx \<Rightarrow> mipos_mtx option" where
  "mu_try k m =
     (case mipos_mu_lock 0 0 m k of Some (True, m', k') \<Rightarrow> Some m' | _ \<Rightarrow> None)"

interpretation mtx: lock_spec "mu_try k" mipos_mu_unlock "\<lambda>m. mtx_state m = MUTEX_UNLOCKED" for k
  by unfold_locales
    (auto simp: mu_try_def mipos_mu_lock_def mipos_mu_unlock_def mip_simps split: option.split)

subsection \<open>Properties\<close>

text \<open>
  C28. Mutual exclusion: when every task unlocks only a mutex it has locked, in every state
  reachable from an initialised mutex at most one task holds it, and the flag is
  \<^verbatim>\<open>MUTEX_UNLOCKED\<close> exactly when no task does.
\<close>

theorem mutex_mutual_exclusion:
  assumes "lock_reach (mu_try k) mipos_mu_unlock ({}, mipos_mu_init m0) (H, m)"
  shows "(mtx_state m = MUTEX_UNLOCKED \<longleftrightarrow> H = {}) \<and> (\<forall>s \<in> H. \<forall>t \<in> H. s = t)"
proof -
  have "mtx.exclusive ({}, mipos_mu_init m0)"
    by (simp add: mtx.exclusive_def mipos_mu_init_def)
  from mtx.exclusive_reach [OF assms this] show ?thesis
    by (auto simp: mtx.exclusive_def split: if_splits)
qed

text \<open>
  An iteration of the polling loop never faults while a task runs: on a free mutex it
  takes it and leaves the kernel alone, on a taken one it leaves the mutex alone and the
  task sleeps, to be woken at the very next look of the scheduler.
\<close>

theorem mu_lock_iteration:
  assumes "k_task_context k = Some i" "i < length (k_task_table k)"
    "t_status (task_of k i) = TASK_RUNNING" "t_signal_waiting (task_of k i) = 0"
    "t_signal_pending (task_of k i) AND MIPOS_SIGALM = 0"
  shows "if mtx_state m = MUTEX_UNLOCKED
    then mipos_mu_lock pc sp m k = Some (True, m\<lparr>mtx_state := MUTEX_LOCKED\<rparr>, k)
    else \<exists>k'. mipos_mu_lock pc sp m k = Some (False, m, k') \<and> asleep (task_of k' i) \<and>
      woken (tsm_suspended r (task_of k' i))"
proof -
  let ?t = "(t_set_wait_for_signal MIPOS_SIGALM
      ((task_of k i)\<lparr>t_reg_state := Some (pc, MIPOS_SIGALM), t_process_sp := sp\<rparr>))
      \<lparr>t_timer_tick_count := 0\<rparr>"
  have t: "alarm_wait ?t" "sint (t_timer_tick_count ?t) \<le> 0"
    using assms by (simp_all add: set_wait_running alarm_wait_def asleep_def)
  obtain k' where k': "mipos_tm_wkafter pc sp 0 k = Some k'" "task_of k' i = ?t"
    using on_context_task [OF assms(1,2)] unfolding mipos_tm_wkafter_def tm_wkafter_enter_def by blast
  with t alarm_fires [OF t] show ?thesis
    by (simp add: mipos_mu_lock_def alarm_wait_def mip_simps)
qed

text \<open>
  Any task can unlock a mutex, also one it does not hold: after a lock and a foreign
  unlock a second lock succeeds while the first holder still believes it owns the mutex.
\<close>

theorem foreign_unlock_breaks_exclusion:
  assumes "mipos_mu_lock pc sp m k = Some (True, m1, k1)"
  shows "\<exists>m2. mipos_mu_lock pc' sp' (mipos_mu_unlock m1) k1 = Some (True, m2, k1)"
  by (simp add: mipos_mu_lock_def mipos_mu_unlock_def)

theorem mutex_mutual_exclusion_witness:
  "\<exists>m. lock_reach (mu_try quiet_running) mipos_mu_unlock ({}, mipos_mu_init \<lparr>mtx_state = 9\<rparr>) ({3 :: nat}, m) \<and>
     mtx_state m \<noteq> MUTEX_UNLOCKED"
proof -
  have "mu_try quiet_running (mipos_mu_init \<lparr>mtx_state = 9\<rparr>) = Some \<lparr>mtx_state = 1\<rparr>"
    by (simp add: mu_try_def mipos_mu_lock_def mipos_mu_init_def mip_simps)
  then have "lock_reach (mu_try quiet_running) mipos_mu_unlock ({}, mipos_mu_init \<lparr>mtx_state = 9\<rparr>)
      ({3 :: nat}, \<lparr>mtx_state = 1\<rparr>)"
    by (intro lock_reach.step [OF lock_reach.start] lock_step.acquire)
  then show ?thesis using mutex_mutual_exclusion by blast
qed

theorem mu_lock_iteration_witness:
  "\<exists>k'. mipos_mu_lock 5 0x8200 \<lparr>mtx_state = 1\<rparr> quiet_running = Some (False, \<lparr>mtx_state = 1\<rparr>, k') \<and>
     woken (tsm_suspended 0 (task_of k' 1))"
  using mu_lock_iteration [OF quiet_running_task(1) _ quiet_running_task(3,4), of "\<lparr>mtx_state = 1\<rparr>" 5 "0x8200" 0]
  by (auto simp: quiet_running_task [simplified] mip_simps)

theorem foreign_unlock_breaks_exclusion_witness:
  "\<exists>m2. mipos_mu_lock 6 0x9200 (mipos_mu_unlock \<lparr>mtx_state = 1\<rparr>) quiet_running = Some (True, m2, quiet_running)"
  by (rule foreign_unlock_breaks_exclusion [of 5 "0x8200" "\<lparr>mtx_state = 0\<rparr>" quiet_running])
    (simp add: mipos_mu_lock_def mip_simps)

end
