(* ===== verification/Mipos_Memory.thy ===== *)
theory Mipos_Memory
  imports Mipos_Prelude
begin

text \<open>
  Byte-addressed memory of the 64-bit target, and the little-endian pointer-sized loads and
  stores the allocators use. A store is seen by a load of the same address and by no load
  that does not overlap it.
\<close>

type_synonym memory = "u64 \<Rightarrow> u8"

definition byte_cons :: "u8 \<Rightarrow> u64 \<Rightarrow> u64" where
  "byte_cons b w = ucast b OR push_bit 8 w"

definition load64 :: "memory \<Rightarrow> u64 \<Rightarrow> u64" where
  "load64 m a =
     byte_cons (m a) (byte_cons (m (a + 1)) (byte_cons (m (a + 2)) (byte_cons (m (a + 3))
       (byte_cons (m (a + 4)) (byte_cons (m (a + 5)) (byte_cons (m (a + 6))
         (byte_cons (m (a + 7)) 0)))))))"

definition store64 :: "memory \<Rightarrow> u64 \<Rightarrow> u64 \<Rightarrow> memory" where
  "store64 m a v =
     m(a := ucast v, a + 1 := ucast (drop_bit 8 v), a + 2 := ucast (drop_bit 16 v),
       a + 3 := ucast (drop_bit 24 v), a + 4 := ucast (drop_bit 32 v),
       a + 5 := ucast (drop_bit 40 v), a + 6 := ucast (drop_bit 48 v),
       a + 7 := ucast (drop_bit 56 v))"

lemma byte_cons_split: "byte_cons (ucast v) (drop_bit 8 v) = v"
proof (rule bit_word_eqI)
  fix n
  show "bit (byte_cons (ucast v) (drop_bit 8 v)) n = bit v n" if "n < LENGTH(64)"
    using that by (cases "n < 8") (auto simp: byte_cons_def bit_simps not_less)
qed

lemma byte_cons_step: "byte_cons (ucast (drop_bit n v)) (drop_bit (n + 8) v) = drop_bit n v"
  using byte_cons_split [of "drop_bit n v"] by (simp add: add.commute)

lemma drop_bit_all: "drop_bit 64 (v :: u64) = 0"
  by (rule bit_word_eqI) (auto simp: bit_simps dest: bit_imp_le_length)

lemma load_store_same: "load64 (store64 m a v) a = v"
  using byte_cons_split [of v] byte_cons_step [of 8 v] byte_cons_step [of 16 v]
    byte_cons_step [of 24 v] byte_cons_step [of 32 v] byte_cons_step [of 40 v]
    byte_cons_step [of 48 v] byte_cons_step [of 56 v] drop_bit_all [of v]
  by (simp add: load64_def store64_def)

text \<open>The bytes of the pointer at \<open>a\<close>.\<close>

definition cell :: "u64 \<Rightarrow> u64 set" where
  "cell a = {a, a + 1, a + 2, a + 3, a + 4, a + 5, a + 6, a + 7}"

lemma load64_cong: "(\<And>b. b \<in> cell a \<Longrightarrow> m b = m' b) \<Longrightarrow> load64 m a = load64 m' a"
  by (simp add: load64_def cell_def)

lemma store64_outside: "b \<notin> cell a \<Longrightarrow> store64 m a v b = m b"
  by (simp add: store64_def cell_def)

lemma load_store_other: "cell a \<inter> cell b = {} \<Longrightarrow> load64 (store64 m a v) b = load64 m b"
  by (rule load64_cong) (auto intro: store64_outside)

lemma cell_range:
  assumes "unat a + 8 \<le> 2 ^ 64" "b \<in> cell a"
  shows "unat a \<le> unat b \<and> unat b < unat a + 8"
  using assms unat_range(4) [of a]
  by (auto simp: cell_def unat_word_ariths)

end
