(* ===== verification/Mipos_Mpool.thy ===== *)
theory Mipos_Mpool
  imports Mipos_Memory
begin

text \<open>
  The fixed-size block allocator (\<^verbatim>\<open>mipos_mpool.c\<close>): free blocks form a singly linked list
  whose next pointers are stored in the blocks themselves. The abstract pool is the list
  of free blocks. The client machine allocates, writes anything into blocks it holds, and
  frees them; its invariant says that held and free blocks always partition the pool.
\<close>

record mipos_mpool =
  mp_block_size :: u64
  mp_n_of_blocks :: u64
  mp_free_blocks :: u64
  mp_free_head_ptr :: ptr
  mp_arena_ptr :: ptr

text \<open>The loop of \<^verbatim>\<open>mipos_mpool_init\<close>: \<open>n\<close> more blocks get the address of their successor.\<close>

fun mpool_chain :: "u64 \<Rightarrow> nat \<Rightarrow> ptr \<Rightarrow> memory \<Rightarrow> ptr \<times> memory" where
  "mpool_chain bs 0 p m = (p, m)"
| "mpool_chain bs (Suc n) p m = mpool_chain bs n (p + bs) (store64 m p (p + bs))"

definition mipos_mpool_init :: "u64 \<Rightarrow> u64 \<Rightarrow> ptr \<Rightarrow> memory \<Rightarrow> mipos_mpool \<times> memory" where
  "mipos_mpool_init block_size pool_length arena m =
     (let bs = (if block_size < 8 then 8 else block_size);
          (last_ptr, m1) = mpool_chain bs (unat (pool_length - 1)) arena m
      in (\<lparr>mp_block_size = bs, mp_n_of_blocks = pool_length, mp_free_blocks = pool_length,
           mp_free_head_ptr = arena, mp_arena_ptr = arena\<rparr>, store64 m1 last_ptr 0))"

definition mipos_mpool_alloc :: "mipos_mpool \<Rightarrow> memory \<Rightarrow> ptr \<times> mipos_mpool" where
  "mipos_mpool_alloc p m =
     (if mp_free_blocks p = 0 then (0, p)
      else (mp_free_head_ptr p,
            p\<lparr>mp_free_head_ptr := load64 m (mp_free_head_ptr p),
              mp_free_blocks := mp_free_blocks p - 1\<rparr>))"

definition mipos_mpool_free :: "mipos_mpool \<Rightarrow> ptr \<Rightarrow> memory \<Rightarrow> mipos_mpool \<times> memory" where
  "mipos_mpool_free p b m =
     (p\<lparr>mp_free_head_ptr := b, mp_free_blocks := mp_free_blocks p + 1\<rparr>,
      store64 m b (mp_free_head_ptr p))"

definition mpool_get_used_blocks :: "mipos_mpool \<Rightarrow> u64" where
  "mpool_get_used_blocks p = mp_n_of_blocks p"

definition mpool_get_free_blocks :: "mipos_mpool \<Rightarrow> u64" where
  "mpool_get_free_blocks p = mp_free_blocks p"

subsection \<open>The free list\<close>

fun free_chain :: "memory \<Rightarrow> ptr \<Rightarrow> ptr list \<Rightarrow> bool" where
  "free_chain m p [] = (p = 0)"
| "free_chain m p (b # bs) = (p = b \<and> free_chain m (load64 m b) bs)"

definition nth_block :: "ptr \<Rightarrow> u64 \<Rightarrow> nat \<Rightarrow> ptr" where
  "nth_block arena bs i = arena + of_nat i * bs"

definition pool_blocks :: "ptr \<Rightarrow> u64 \<Rightarrow> nat \<Rightarrow> ptr list" where
  "pool_blocks arena bs n = map (nth_block arena bs) [0..<n]"

lemma pool_blocks_length [simp]: "length (pool_blocks arena bs n) = n"
  by (simp add: pool_blocks_def)

text \<open>An arena that is not at address 0, does not wrap around, and has room for its blocks.\<close>

definition arena_ok :: "ptr \<Rightarrow> u64 \<Rightarrow> nat \<Rightarrow> bool" where
  "arena_ok arena bs n \<longleftrightarrow> arena \<noteq> 0 \<and> 8 \<le> unat bs \<and> unat arena + n * unat bs \<le> 2 ^ 64"

definition block_bytes :: "u64 \<Rightarrow> ptr \<Rightarrow> u64 set" where
  "block_bytes bs b = {a. unat b \<le> unat a \<and> unat a < unat b + unat bs}"

lemma unat_of_nat_u64: "n < 2 ^ 64 \<Longrightarrow> unat (of_nat n :: u64) = n"
  by (simp add: unat_of_nat)

lemma nth_block_unat:
  assumes "arena_ok arena bs n" "i < n"
  shows "unat (nth_block arena bs i) = unat arena + i * unat bs"
    and "unat (nth_block arena bs i) + unat bs \<le> 2 ^ 64"
proof -
  have "(i + 1) * unat bs \<le> n * unat bs" using assms(2) by (intro mult_right_mono) auto
  then have le: "unat arena + i * unat bs + unat bs \<le> 2 ^ 64"
    using assms(1) by (simp add: arena_ok_def algebra_simps)
  moreover have "0 < unat bs" using assms(1) by (simp add: arena_ok_def)
  ultimately have lt: "unat arena + i * unat bs < 2 ^ 64" by linarith
  have "nth_block arena bs i = of_nat (unat arena + i * unat bs)"
    by (simp add: nth_block_def)
  with lt have "unat (nth_block arena bs i) = unat arena + i * unat bs"
    by (simp only: unat_of_nat_u64)
  with le show "unat (nth_block arena bs i) = unat arena + i * unat bs"
      "unat (nth_block arena bs i) + unat bs \<le> 2 ^ 64" by simp_all
qed

lemma block_in_pool:
  "b \<in> set (pool_blocks arena bs n) \<longleftrightarrow> (\<exists>i < n. b = nth_block arena bs i)"
  by (auto simp: pool_blocks_def)

lemma nth_in_pool: "i < n \<Longrightarrow> nth_block arena bs i \<in> set (pool_blocks arena bs n)"
  by (auto simp: block_in_pool)

lemma pool_blocks_mono:
  "b \<in> set (pool_blocks arena bs i) \<Longrightarrow> i \<le> n \<Longrightarrow> b \<in> set (pool_blocks arena bs n)"
  by (auto simp: pool_blocks_def)

lemma pool_blocks_disjoint:
  assumes "arena_ok arena bs n" "b \<in> set (pool_blocks arena bs n)" "c \<in> set (pool_blocks arena bs n)"
    "b \<noteq> c"
  shows "block_bytes bs b \<inter> block_bytes bs c = {}"
proof -
  obtain i j where i: "i < n" "b = nth_block arena bs i" and j: "j < n" "c = nth_block arena bs j"
    using assms by (auto simp: block_in_pool)
  have "i \<noteq> j" using assms(4) i j by auto
  then consider "i + 1 \<le> j" | "j + 1 \<le> i" by linarith
  then have "unat b + unat bs \<le> unat c \<or> unat c + unat bs \<le> unat b"
  proof cases
    case 1
    then have "(i + 1) * unat bs \<le> j * unat bs" by (rule mult_right_mono) simp
    then show ?thesis using nth_block_unat(1) [OF assms(1)] i j by simp
  next
    case 2
    then have "(j + 1) * unat bs \<le> i * unat bs" by (rule mult_right_mono) simp
    then show ?thesis using nth_block_unat(1) [OF assms(1)] i j by simp
  qed
  then show ?thesis by (auto simp: block_bytes_def)
qed

lemma block_nonzero:
  assumes "arena_ok arena bs n" "b \<in> set (pool_blocks arena bs n)"
  shows "b \<noteq> 0"
proof -
  obtain i where i: "i < n" "b = nth_block arena bs i" using assms by (auto simp: block_in_pool)
  have "0 < unat arena" using assms(1) by (simp add: arena_ok_def unat_gt_0)
  with nth_block_unat(1) [OF assms(1) i(1)] i(2) have "0 < unat b" by simp
  then show ?thesis by auto
qed

lemma cell_in_block:
  assumes "arena_ok arena bs n" "b \<in> set (pool_blocks arena bs n)"
  shows "cell b \<subseteq> block_bytes bs b"
proof -
  obtain i where i: "i < n" "b = nth_block arena bs i" using assms by (auto simp: block_in_pool)
  have "unat b + 8 \<le> 2 ^ 64" "8 \<le> unat bs"
    using nth_block_unat(2) [OF assms(1) i(1)] i assms(1) by (auto simp: arena_ok_def)
  then show ?thesis using cell_range [of b] by (force simp: block_bytes_def)
qed

lemma pool_blocks_distinct:
  assumes "arena_ok arena bs n"
  shows "distinct (pool_blocks arena bs n)"
proof -
  have "inj_on (nth_block arena bs) {..<n}"
  proof (rule inj_onI)
    fix i j assume ij: "i \<in> {..<n}" "j \<in> {..<n}" "nth_block arena bs i = nth_block arena bs j"
    then have "unat arena + i * unat bs = unat arena + j * unat bs"
      using nth_block_unat(1) [OF assms] by (metis lessThan_iff)
    then show "i = j" using assms by (auto simp: arena_ok_def)
  qed
  then show ?thesis by (simp add: pool_blocks_def distinct_map atLeast0LessThan)
qed

text \<open>A write outside the free blocks does not change the free list.\<close>

lemma free_chain_cong:
  assumes "free_chain m p bs" "\<And>b. b \<in> set bs \<Longrightarrow> load64 m' b = load64 m b"
  shows "free_chain m' p bs"
  using assms by (induction bs arbitrary: p) auto

lemma free_chain_nil_head: "free_chain m p bs \<Longrightarrow> 0 \<notin> set bs \<Longrightarrow> (p = 0) = (bs = [])"
  by (cases bs) auto

subsection \<open>Initialisation builds the chain of all blocks\<close>

lemma mpool_chain_spec:
  assumes ok: "arena_ok arena bs (i + Suc n)"
  shows "fst (mpool_chain bs n (nth_block arena bs i) m) = nth_block arena bs (i + n) \<and>
    (\<forall>j < n. load64 (snd (mpool_chain bs n (nth_block arena bs i) m)) (nth_block arena bs (i + j)) =
       nth_block arena bs (i + Suc j)) \<and>
    (\<forall>b \<in> set (pool_blocks arena bs i).
       load64 (snd (mpool_chain bs n (nth_block arena bs i) m)) b = load64 m b)"
  using ok
proof (induction n arbitrary: i m)
  case 0
  then show ?case by simp
next
  case (Suc n)
  let ?b = "nth_block arena bs" and ?m = "store64 m (nth_block arena bs i) (nth_block arena bs (Suc i))"
  let ?r = "snd (mpool_chain bs n (?b (Suc i)) ?m)"
  have next_block: "?b i + bs = ?b (Suc i)" by (simp add: nth_block_def algebra_simps)
  have other: "load64 (store64 m' (?b i) v) b = load64 m' b"
    if "b \<in> set (pool_blocks arena bs i)" for m' v b
  proof (rule load_store_other)
    have mem: "?b i \<in> set (pool_blocks arena bs (i + Suc (Suc n)))"
        "b \<in> set (pool_blocks arena bs (i + Suc (Suc n)))"
      using that by (auto intro: nth_in_pool pool_blocks_mono)
    have "b \<noteq> ?b i"
    proof -
      have "distinct (pool_blocks arena bs (Suc i))"
        by (rule pool_blocks_distinct) (use Suc.prems in \<open>auto simp: arena_ok_def algebra_simps\<close>)
      then have "?b i \<notin> set (pool_blocks arena bs i)" by (simp add: pool_blocks_def)
      with that show ?thesis by blast
    qed
    with pool_blocks_disjoint [OF Suc.prems mem] cell_in_block [OF Suc.prems mem(1)]
      cell_in_block [OF Suc.prems mem(2)]
    show "cell (?b i) \<inter> cell b = {}" by blast
  qed
  have IH: "fst (mpool_chain bs n (?b (Suc i)) ?m) = ?b (Suc i + n)"
      "\<forall>j < n. load64 ?r (?b (Suc i + j)) = ?b (Suc i + Suc j)"
      "\<forall>b \<in> set (pool_blocks arena bs (Suc i)). load64 ?r b = load64 ?m b"
    using Suc.IH [of "Suc i" ?m] Suc.prems by simp_all
  have i_in: "?b i \<in> set (pool_blocks arena bs (Suc i))" by (auto simp: block_in_pool)
  have "load64 ?r (?b (i + j)) = ?b (i + Suc j)" if "j < Suc n" for j
  proof (cases j)
    case 0
    then show ?thesis using IH(3) i_in by (simp add: load_store_same)
  next
    case (Suc l)
    then show ?thesis using IH(2) that by simp
  qed
  moreover have "load64 ?r b = load64 m b" if "b \<in> set (pool_blocks arena bs i)" for b
    using IH(3) other [OF that] that by (auto simp: pool_blocks_def)
  ultimately show ?case using IH(1) by (simp add: next_block)
qed

lemma chain_of_blocks:
  assumes "\<And>j. j < n \<Longrightarrow> load64 m (nth_block arena bs (i + j)) =
      (if Suc j < n then nth_block arena bs (i + Suc j) else 0)"
  shows "free_chain m (if n = 0 then 0 else nth_block arena bs i) (map (nth_block arena bs) [i..<i + n])"
  using assms
proof (induction n arbitrary: i)
  case 0
  then show ?case by simp
next
  case (Suc n)
  have "free_chain m (if n = 0 then 0 else nth_block arena bs (Suc i))
      (map (nth_block arena bs) [Suc i..<Suc i + n])"
    using Suc.IH [of "Suc i"] Suc.prems [of "Suc _"] by simp
  moreover have "load64 m (nth_block arena bs i) = (if n = 0 then 0 else nth_block arena bs (Suc i))"
    using Suc.prems [of 0] by simp
  moreover have "[i..<i + Suc n] = i # [Suc i..<Suc i + n]" by (simp add: upt_conv_Cons)
  ultimately show ?case by simp
qed

lemma mpool_init_chain:
  assumes ok: "arena_ok arena bs n" and n: "unat pool_length = n" "0 < n"
    and bs: "bs = (if block_size < 8 then 8 else block_size)"
    and init: "mipos_mpool_init block_size pool_length arena m = (p, m')"
  shows "free_chain m' (mp_free_head_ptr p) (pool_blocks arena bs n)"
proof -
  have cnt: "unat (pool_length - 1) = n - 1"
    using n by (metis unat_minus_one unat_0 less_irrefl)
  have ok': "arena_ok arena bs (0 + Suc (n - 1))" using ok n(2) by simp
  let ?b = "nth_block arena bs" and ?m1 = "snd (mpool_chain bs (n - 1) arena m)"
  have z: "?b 0 = arena" by (simp add: nth_block_def)
  note chain = mpool_chain_spec [OF ok', of m, unfolded z, simplified]
  have m': "m' = store64 ?m1 (?b (n - 1)) 0" and hd: "mp_free_head_ptr p = arena"
    using init chain by (auto simp: mipos_mpool_init_def Let_def cnt bs [symmetric] split: prod.splits)
  have "load64 m' (?b j) = (if Suc j < n then ?b (Suc j) else 0)" if "j < n" for j
  proof (cases "Suc j < n")
    case True
    have in_pool: "?b (n - 1) \<in> set (pool_blocks arena bs n)" "?b j \<in> set (pool_blocks arena bs n)"
      using that n(2) by (simp_all add: nth_in_pool)
    have "?b (n - 1) \<noteq> ?b j"
      using nth_block_unat(1) [OF ok, of j] nth_block_unat(1) [OF ok, of "n - 1"] True ok n(2)
      by (auto simp: arena_ok_def)
    then have "cell (?b (n - 1)) \<inter> cell (?b j) = {}"
      using pool_blocks_disjoint [OF ok in_pool] cell_in_block [OF ok in_pool(1)]
        cell_in_block [OF ok in_pool(2)] by blast
    with True chain show ?thesis by (simp add: m' load_store_other)
  next
    case False
    with that have "j = n - 1" by simp
    then show ?thesis using False by (simp add: m' load_store_same)
  qed
  from chain_of_blocks [of n m' arena bs 0] this show ?thesis
    using n(2) by (simp add: hd z pool_blocks_def)
qed

subsection \<open>The pool and its client\<close>

text \<open>
  The interface of a block allocator: its free blocks are a list, an allocation takes one of
  them, a release puts one back, and the contents of blocks that are not free are the
  client's. A client state is the set of blocks held and the allocator's state.
\<close>

locale block_allocator =
  fixes inv :: "'s \<Rightarrow> 'b list \<Rightarrow> bool"
    and alloc_op :: "'s \<Rightarrow> ('b \<times> 's) option" and free_op :: "'b \<Rightarrow> 's \<Rightarrow> 's"
    and blocks :: "'b set"
  assumes alloc_some: "inv s (b # bs) \<Longrightarrow> \<exists>s'. alloc_op s = Some (b, s') \<and> inv s' bs"
    and alloc_none: "inv s [] \<Longrightarrow> alloc_op s = None"
    and free_block: "inv s bs \<Longrightarrow> b \<in> blocks \<Longrightarrow> b \<notin> set bs \<Longrightarrow> inv (free_op b s) (b # bs)"
begin

text \<open>Held and free blocks partition the pool.\<close>

definition partitioned :: "'b set \<Rightarrow> 's \<Rightarrow> bool" where
  "partitioned H s \<longleftrightarrow>
     (\<exists>bs. inv s bs \<and> distinct bs \<and> H \<inter> set bs = {} \<and> H \<union> set bs = blocks)"

lemma alloc_keeps:
  assumes "partitioned H s"
  shows "case alloc_op s of
      None \<Rightarrow> H = blocks
    | Some (b, s') \<Rightarrow> b \<in> blocks \<and> b \<notin> H \<and> partitioned (insert b H) s'"
proof -
  obtain bs where bs: "inv s bs" "distinct bs" "H \<inter> set bs = {}" "H \<union> set bs = blocks"
    using assms by (auto simp: partitioned_def)
  show ?thesis
  proof (cases bs)
    case Nil
    with bs alloc_none show ?thesis by simp
  next
    case (Cons b cs)
    with bs alloc_some obtain s' where "alloc_op s = Some (b, s')" "inv s' cs" by blast
    with Cons bs show ?thesis by (auto simp: partitioned_def)
  qed
qed

lemma free_keeps:
  assumes "partitioned H s" "b \<in> H"
  shows "partitioned (H - {b}) (free_op b s)"
proof -
  obtain bs where bs: "inv s bs" "distinct bs" "H \<inter> set bs = {}" "H \<union> set bs = blocks"
    using assms by (auto simp: partitioned_def)
  with assms(2) have "b \<in> blocks" "b \<notin> set bs" by auto
  with free_block [OF bs(1)] bs assms(2) show ?thesis
    unfolding partitioned_def by (intro exI [of _ "b # bs"]) auto
qed

end

definition pool_inv :: "ptr \<Rightarrow> u64 \<Rightarrow> nat \<Rightarrow> mipos_mpool \<times> memory \<Rightarrow> ptr list \<Rightarrow> bool" where
  "pool_inv arena bs n pm free \<longleftrightarrow>
     (case pm of (p, m) \<Rightarrow>
        arena_ok arena bs n \<and> n < 2 ^ 64 \<and> mp_block_size p = bs \<and>
        set free \<subseteq> set (pool_blocks arena bs n) \<and> distinct free \<and>
        unat (mp_free_blocks p) = length free \<and> free_chain m (mp_free_head_ptr p) free)"

definition pool_alloc :: "mipos_mpool \<times> memory \<Rightarrow> (ptr \<times> mipos_mpool \<times> memory) option" where
  "pool_alloc pm =
     (case mipos_mpool_alloc (fst pm) (snd pm) of
        (b, p) \<Rightarrow> if b = 0 then None else Some (b, p, snd pm))"

definition pool_free :: "ptr \<Rightarrow> mipos_mpool \<times> memory \<Rightarrow> mipos_mpool \<times> memory" where
  "pool_free b pm = mipos_mpool_free (fst pm) b (snd pm)"

lemma pool_inv_free:
  assumes inv: "pool_inv arena bs n (p, m) free" and b: "b \<in> set (pool_blocks arena bs n)" "b \<notin> set free"
  shows "pool_inv arena bs n (mipos_mpool_free p b m) (b # free)"
proof -
  have ok: "arena_ok arena bs n" using inv by (simp add: pool_inv_def)
  have "load64 (store64 m b v) c = load64 m c" if "c \<in> set free" for c v
  proof (rule load_store_other)
    have c: "c \<in> set (pool_blocks arena bs n)" "b \<noteq> c" using inv that b by (auto simp: pool_inv_def)
    then show "cell b \<inter> cell c = {}"
      using pool_blocks_disjoint [OF ok b(1) c(1)] cell_in_block [OF ok b(1)] cell_in_block [OF ok c(1)]
      by blast
  qed
  then have chain: "free_chain (store64 m b (mp_free_head_ptr p)) (mp_free_head_ptr p) free"
    using inv by (auto simp: pool_inv_def intro: free_chain_cong)
  have "card (set (b # free)) \<le> card (set (pool_blocks arena bs n))"
    by (rule card_mono) (use inv b in \<open>auto simp: pool_inv_def\<close>)
  moreover have "distinct (b # free)" using inv b by (simp add: pool_inv_def)
  ultimately have "length free + 1 \<le> n"
    using distinct_card [OF pool_blocks_distinct [OF ok]] distinct_card [of "b # free"] by simp
  then have "unat (mp_free_blocks p + 1) = length free + 1"
    using inv by (simp add: pool_inv_def unat_word_ariths)
  with inv b chain show ?thesis
    by (simp add: pool_inv_def mipos_mpool_free_def load_store_same)
qed

lemma pool_inv_alloc:
  assumes inv: "pool_inv arena bs n (p, m) (b # free)"
  shows "\<exists>p'. mipos_mpool_alloc p m = (b, p') \<and> b \<noteq> 0 \<and> pool_inv arena bs n (p', m) free"
proof -
  have "b \<noteq> 0" using inv block_nonzero by (auto simp: pool_inv_def)
  moreover have pos: "unat (mp_free_blocks p) = Suc (length free)" using inv by (simp add: pool_inv_def)
  then have "mp_free_blocks p \<noteq> 0" by auto
  moreover from this pos have "unat (mp_free_blocks p - 1) = length free" by (simp add: unat_minus_one)
  ultimately show ?thesis using inv by (auto simp: pool_inv_def mipos_mpool_alloc_def)
qed

lemma pool_inv_alloc_none: "pool_inv arena bs n (p, m) [] \<Longrightarrow> mipos_mpool_alloc p m = (0, p)"
  by (auto simp: pool_inv_def mipos_mpool_alloc_def unat_eq_zero)

lemma pool_alloc_failed:
  assumes "mipos_mpool_alloc p m = (0, p')" "pool_inv arena bs n (p, m) free"
  shows "p' = p"
proof (cases free)
  case Nil
  with assms pool_inv_alloc_none show ?thesis by fastforce
next
  case (Cons b cs)
  with assms pool_inv_alloc show ?thesis by fastforce
qed

interpretation mpool: block_allocator "pool_inv arena bs n" pool_alloc pool_free
  "set (pool_blocks arena bs n)" for arena bs n
proof
  fix s :: "mipos_mpool \<times> memory" and b free
  obtain p m where s: "s = (p, m)" by fastforce
  {
    assume "pool_inv arena bs n s (b # free)"
    with pool_inv_alloc s show "\<exists>s'. pool_alloc s = Some (b, s') \<and> pool_inv arena bs n s' free"
      by (fastforce simp: pool_alloc_def)
  next
    assume "pool_inv arena bs n s []"
    with pool_inv_alloc_none s show "pool_alloc s = None" by (fastforce simp: pool_alloc_def)
  next
    assume "pool_inv arena bs n s free" "b \<in> set (pool_blocks arena bs n)" "b \<notin> set free"
    with pool_inv_free s show "pool_inv arena bs n (pool_free b s) (b # free)"
      by (simp add: pool_free_def)
  }
qed

inductive pool_step ::
    "ptr set \<times> mipos_mpool \<times> memory \<Rightarrow> ptr set \<times> mipos_mpool \<times> memory \<Rightarrow> bool" where
  alloc: "mipos_mpool_alloc p m = (b, p') \<Longrightarrow> b \<noteq> 0 \<Longrightarrow> pool_step (H, p, m) (insert b H, p', m)"
| alloc_fail: "mipos_mpool_alloc p m = (0, p') \<Longrightarrow> pool_step (H, p, m) (H, p', m)"
| free: "b \<in> H \<Longrightarrow> mipos_mpool_free p b m = (p', m') \<Longrightarrow> pool_step (H, p, m) (H - {b}, p', m')"
| client_write: "b \<in> H \<Longrightarrow> a \<in> block_bytes (mp_block_size p) b \<Longrightarrow>
    pool_step (H, p, m) (H, p, m(a := v))"

inductive pool_reach ::
    "ptr set \<times> mipos_mpool \<times> memory \<Rightarrow> ptr set \<times> mipos_mpool \<times> memory \<Rightarrow> bool" for s0 where
  start: "pool_reach s0 s0"
| step: "pool_reach s0 s \<Longrightarrow> pool_step s t \<Longrightarrow> pool_reach s0 t"

lemma client_write_inv:
  assumes inv: "pool_inv arena bs n (p, m) free" and b: "b \<in> set (pool_blocks arena bs n)" "b \<notin> set free"
    and a: "a \<in> block_bytes (mp_block_size p) b"
  shows "pool_inv arena bs n (p, m(a := v)) free"
proof -
  have ok: "arena_ok arena bs n" and bs: "mp_block_size p = bs" using inv by (simp_all add: pool_inv_def)
  have "load64 (m(a := v)) c = load64 m c" if "c \<in> set free" for c
  proof (rule load64_cong)
    have c: "c \<in> set (pool_blocks arena bs n)" "b \<noteq> c" using inv that b by (auto simp: pool_inv_def)
    then have "a \<notin> cell c"
      using pool_blocks_disjoint [OF ok b(1) c(1)] cell_in_block [OF ok c(1)] a bs by blast
    then show "(m(a := v)) x = m x" if "x \<in> cell c" for x using that by auto
  qed
  then show ?thesis using inv by (auto simp: pool_inv_def intro: free_chain_cong)
qed

definition pool_client :: "ptr \<Rightarrow> u64 \<Rightarrow> nat \<Rightarrow> ptr set \<times> mipos_mpool \<times> memory \<Rightarrow> bool" where
  "pool_client arena bs n s \<longleftrightarrow> mpool.partitioned arena bs n (fst s) (snd s)"

lemma pool_step_client:
  assumes "pool_step s t" "pool_client arena bs n s"
  shows "pool_client arena bs n t"
  using assms
proof (induction rule: pool_step.induct)
  case (alloc p m b p' H)
  with mpool.alloc_keeps [of arena bs n H "(p, m)"] show ?case
    by (simp add: pool_client_def pool_alloc_def)
next
  case (alloc_fail p m p' H)
  then obtain free where "pool_inv arena bs n (p, m) free"
    by (auto simp: pool_client_def mpool.partitioned_def)
  with alloc_fail(1) have "p' = p" by (rule pool_alloc_failed)
  with alloc_fail show ?case by simp
next
  case (free b H p m p' m')
  with mpool.free_keeps [of arena bs n H "(p, m)" b] show ?case
    by (simp add: pool_client_def pool_free_def)
next
  case (client_write b H a p m v)
  then obtain free where "pool_inv arena bs n (p, m) free" "distinct free" "H \<inter> set free = {}"
      "H \<union> set free = set (pool_blocks arena bs n)"
    by (auto simp: pool_client_def mpool.partitioned_def)
  with client_write client_write_inv [of arena bs n p m free b a v] show ?case
    by (auto simp: pool_client_def mpool.partitioned_def)
qed

lemma pool_reach_client:
  "pool_reach s0 s \<Longrightarrow> pool_client arena bs n s0 \<Longrightarrow> pool_client arena bs n s"
  by (induction rule: pool_reach.induct) (auto intro: pool_step_client)

lemma mpool_init_client:
  assumes "arena_ok arena bs (unat pool_length)" "0 < pool_length"
    "bs = (if block_size < 8 then 8 else block_size)"
    "mipos_mpool_init block_size pool_length arena m = (p, m')"
  shows "pool_client arena bs (unat pool_length) ({}, p, m')"
proof -
  have pos: "0 < unat pool_length" using assms(2) by (simp add: unat_gt_0)
  have "pool_inv arena bs (unat pool_length) (p, m') (pool_blocks arena bs (unat pool_length))"
    using mpool_init_chain [OF assms(1) refl pos assms(3,4)] assms pool_blocks_distinct [OF assms(1)]
      unat_range(4) [of pool_length]
    by (auto simp: pool_inv_def mipos_mpool_init_def Let_def split: prod.splits)
  then show ?thesis
    using pool_blocks_distinct [OF assms(1)]
    by (auto simp: pool_client_def mpool.partitioned_def)
qed

subsection \<open>Properties\<close>

text \<open>
  C29. Whatever a client does with the blocks it holds, allocated and free blocks partition
  the pool at every time and the free counter is the number of blocks not held, from
  \<^verbatim>\<open>mipos_mpool_init\<close> on and for every sequence of allocations, releases and writes into
  held blocks.
\<close>

theorem mpool_partition:
  assumes "arena_ok arena bs (unat pool_length)" "0 < pool_length"
    "bs = (if block_size < 8 then 8 else block_size)"
    "mipos_mpool_init block_size pool_length arena m0 = (p0, m1)"
    "pool_reach ({}, p0, m1) (H, p, m)"
  shows "\<exists>free. free_chain m (mp_free_head_ptr p) free \<and> distinct free \<and> H \<inter> set free = {} \<and>
    H \<union> set free = set (pool_blocks arena bs (unat pool_length)) \<and>
    unat (mpool_get_free_blocks p) + card H = unat pool_length"
proof -
  let ?n = "unat pool_length"
  have "pool_client arena bs ?n (H, p, m)"
    by (rule pool_reach_client [OF assms(5)]) (rule mpool_init_client [OF assms(1-4)])
  then obtain free where f: "pool_inv arena bs ?n (p, m) free" "distinct free" "H \<inter> set free = {}"
      "H \<union> set free = set (pool_blocks arena bs ?n)"
    by (auto simp: pool_client_def mpool.partitioned_def)
  then have "finite H" by (metis List.finite_set finite_Un)
  with f have "card H + card (set free) = card (set (pool_blocks arena bs ?n))"
    by (metis List.finite_set card_Un_disjoint)
  then have "unat (mpool_get_free_blocks p) + card H = ?n"
    using f distinct_card [OF f(2)] distinct_card [OF pool_blocks_distinct [OF assms(1)]]
    by (simp add: pool_inv_def mpool_get_free_blocks_def)
  with f show ?thesis by (auto simp: pool_inv_def)
qed

text \<open>
  C31. An allocation never hands out memory that is in use: in every reachable state it
  returns 0 exactly when all blocks are held, and otherwise a block of the pool whose
  bytes overlap no held block.
\<close>

theorem mpool_alloc_fresh:
  assumes "arena_ok arena bs (unat pool_length)" "0 < pool_length"
    "bs = (if block_size < 8 then 8 else block_size)"
    "mipos_mpool_init block_size pool_length arena m0 = (p0, m1)"
    "pool_reach ({}, p0, m1) (H, p, m)" "mipos_mpool_alloc p m = (b, p')"
  shows "(b = 0 \<longleftrightarrow> H = set (pool_blocks arena bs (unat pool_length))) \<and>
    (b \<noteq> 0 \<longrightarrow> b \<in> set (pool_blocks arena bs (unat pool_length)) \<and>
       (\<forall>c \<in> H. block_bytes bs b \<inter> block_bytes bs c = {}))"
proof -
  let ?n = "unat pool_length"
  have cl: "pool_client arena bs ?n (H, p, m)"
    by (rule pool_reach_client [OF assms(5)]) (rule mpool_init_client [OF assms(1-4)])
  then have sub: "H \<subseteq> set (pool_blocks arena bs ?n)"
    by (auto simp: pool_client_def mpool.partitioned_def)
  from mpool.alloc_keeps [of arena bs ?n H "(p, m)"] cl assms(6)
  have "if b = 0 then H = set (pool_blocks arena bs ?n)
      else b \<in> set (pool_blocks arena bs ?n) \<and> b \<notin> H"
    by (simp add: pool_client_def pool_alloc_def split: if_splits)
  with sub pool_blocks_disjoint [OF assms(1)] show ?thesis by (auto split: if_splits)
qed

text \<open>
  \<^verbatim>\<open>mpool_get_used_blocks\<close> reports the capacity of the pool, not the number of allocated
  blocks: no allocation and no release changes it.
\<close>

theorem used_blocks_is_capacity:
  "mpool_get_used_blocks (snd (mipos_mpool_alloc p m)) = mpool_get_used_blocks p \<and>
   mpool_get_used_blocks (fst (mipos_mpool_free p b m)) = mpool_get_used_blocks p"
  by (simp add: mpool_get_used_blocks_def mipos_mpool_alloc_def mipos_mpool_free_def)

lemma demo_arena: "arena_ok 0x1000 16 (unat (2 :: u64))"
  by (simp add: arena_ok_def)

theorem mpool_partition_witness:
  "\<exists>p0 m1 free. mipos_mpool_init 16 2 0x1000 (\<lambda>_. 0) = (p0, m1) \<and>
     free_chain m1 (mp_free_head_ptr p0) free \<and> set free = {0x1000, 0x1010}"
proof -
  obtain p0 m1 where init: "mipos_mpool_init 16 2 0x1000 (\<lambda>_. 0) = (p0, m1)" by fastforce
  have "set (pool_blocks 0x1000 16 (unat (2 :: u64))) = {0x1000, 0x1010}"
    by (simp add: pool_blocks_def nth_block_def upt_rec)
  with mpool_partition [OF demo_arena _ _ init pool_reach.start] init show ?thesis by auto
qed

theorem mpool_alloc_fresh_witness:
  "fst (mipos_mpool_alloc (fst (mipos_mpool_init 16 2 0x1000 (\<lambda>_. 0)))
     (snd (mipos_mpool_init 16 2 0x1000 (\<lambda>_. 0)))) \<noteq> 0"
proof -
  obtain p0 m1 where init: "mipos_mpool_init 16 2 0x1000 (\<lambda>_. 0) = (p0, m1)" by fastforce
  obtain b p' where al: "mipos_mpool_alloc p0 m1 = (b, p')" by fastforce
  have "set (pool_blocks 0x1000 16 (unat (2 :: u64))) \<noteq> {}" by (simp add: pool_blocks_def)
  with mpool_alloc_fresh [OF demo_arena _ _ init pool_reach.start al] init al show ?thesis by auto
qed

end
