(* ===== verification/Mipos_Malloc.thy ===== *)
theory Mipos_Malloc
  imports Mipos_Prelude "HOL-Library.Monad_Syntax"
begin

text \<open>
  The heap manager (\<^verbatim>\<open>mipos_malloc.c\<close>): free and used blocks are two doubly linked lists of
  descriptors that precede their data inside the arena. Addresses and \<^verbatim>\<open>size_t\<close> values
  are natural numbers below \<open>W = 2^64\<close>, with the wrap-around of every C addition and
  subtraction written out. The descriptors are a partial map from addresses; \<open>None\<close> as a
  result is an access to an address that holds no descriptor (a null pointer among them)
  or a loop that does not end. The data bytes, which only \<^verbatim>\<open>realloc\<close> and \<^verbatim>\<open>calloc\<close> use, are a map of their own,
  whereas in the code both share the arena. \<open>Mipos_Heap\<close> shows that this is no loss: every descriptor on the lists
  occupies 24 bytes of the arena that belong to no other descriptor and to no block in use, and a call writes
  no descriptor whose bytes lie in a block in use.
\<close>

definition W :: nat where
  "W = 2 ^ 64"

definition MDESC_SIZE :: nat where
  [mip_simps]: "MDESC_SIZE = 24"

record mdesc =
  md_next :: nat
  md_prev :: nat
  md_block_size :: nat

type_synonym mheap = "nat \<rightharpoonup> mdesc"

record mipos_mm =
  mm_arena_size :: nat
  mm_free_memory :: nat
  mm_used_memory :: nat
  mm_heap :: mheap
  mm_data :: "nat \<Rightarrow> u8"

text \<open>\<^verbatim>\<open>p->field = ...\<close> through a pointer to a descriptor.\<close>

definition md_upd :: "nat \<Rightarrow> (mdesc \<Rightarrow> mdesc) \<Rightarrow> mheap \<Rightarrow> mheap option" where
  "md_upd p f h = map_option (\<lambda>d. h(p \<mapsto> f d)) (h p)"

subsection \<open>Descriptors\<close>

definition mdesc_link_after :: "nat \<Rightarrow> nat \<Rightarrow> mheap \<Rightarrow> mheap option" where
  "mdesc_link_after this block h =
     do { b \<leftarrow> h block;
          h1 \<leftarrow> md_upd this (\<lambda>d. d\<lparr>md_next := md_next b, md_prev := block\<rparr>) h;
          h2 \<leftarrow> (if md_next b \<noteq> 0 then md_upd (md_next b) (\<lambda>d. d\<lparr>md_prev := this\<rparr>) h1 else Some h1);
          md_upd block (\<lambda>d. d\<lparr>md_next := this\<rparr>) h2 }"

definition mdesc_link_before :: "nat \<Rightarrow> nat \<Rightarrow> mheap \<Rightarrow> mheap option" where
  "mdesc_link_before this block h =
     do { b \<leftarrow> h block;
          h1 \<leftarrow> md_upd this (\<lambda>d. d\<lparr>md_prev := md_prev b, md_next := block\<rparr>) h;
          h2 \<leftarrow> (if md_prev b \<noteq> 0 then md_upd (md_prev b) (\<lambda>d. d\<lparr>md_next := this\<rparr>) h1 else Some h1);
          md_upd block (\<lambda>d. d\<lparr>md_prev := this\<rparr>) h2 }"

definition mdesc_link_detach :: "nat \<Rightarrow> mheap \<Rightarrow> mheap option" where
  "mdesc_link_detach this h =
     do { t \<leftarrow> h this;
          h1 \<leftarrow> (if md_next t \<noteq> 0 then md_upd (md_next t) (\<lambda>d. d\<lparr>md_prev := md_prev t\<rparr>) h else Some h);
          t1 \<leftarrow> h1 this;
          if md_prev t1 \<noteq> 0 then md_upd (md_prev t1) (\<lambda>d. d\<lparr>md_next := md_next t1\<rparr>) h1 else Some h1 }"

definition mdesc_setprev :: "nat \<Rightarrow> nat \<Rightarrow> mheap \<Rightarrow> mheap option" where
  "mdesc_setprev this block = md_upd this (\<lambda>d. d\<lparr>md_prev := block\<rparr>)"

definition mdesc_setsize :: "nat \<Rightarrow> nat \<Rightarrow> mheap \<Rightarrow> mheap option" where
  "mdesc_setsize this blockSize = md_upd this (\<lambda>d. d\<lparr>md_block_size := blockSize\<rparr>)"

definition mdesc_getsize :: "nat \<Rightarrow> mheap \<Rightarrow> nat option" where
  "mdesc_getsize this h = map_option md_block_size (h this)"

definition mdesc_next :: "nat \<Rightarrow> mheap \<Rightarrow> nat option" where
  "mdesc_next this h = map_option md_next (h this)"

definition mdesc_isolate :: "nat \<Rightarrow> mheap \<Rightarrow> mheap option" where
  "mdesc_isolate this = md_upd this (\<lambda>d. d\<lparr>md_next := 0, md_prev := 0\<rparr>)"

text \<open>\<^verbatim>\<open>mdesc_init\<close> writes all three fields of raw memory.\<close>

definition mdesc_init :: "nat \<Rightarrow> nat \<Rightarrow> mheap \<Rightarrow> mheap" where
  "mdesc_init this sz h = h(this \<mapsto> \<lparr>md_next = 0, md_prev = 0, md_block_size = sz\<rparr>)"

definition mdesc_get_data_addr :: "nat \<Rightarrow> nat" where
  "mdesc_get_data_addr this = (this + MDESC_SIZE) mod W"

definition mdesc_get_bd_addr :: "nat \<Rightarrow> nat" where
  "mdesc_get_bd_addr p = (p + W - MDESC_SIZE) mod W"

definition mdesc_merge :: "nat \<Rightarrow> nat \<Rightarrow> mheap \<Rightarrow> (nat \<times> mheap) option" where
  "mdesc_merge mbd1 mbd2 h =
     do { s1 \<leftarrow> mdesc_getsize mbd1 h;
          s2 \<leftarrow> mdesc_getsize mbd2 h;
          h1 \<leftarrow> mdesc_setsize (min mbd1 mbd2) ((s1 + s2 + MDESC_SIZE) mod W) h;
          h2 \<leftarrow> mdesc_link_detach (max mbd1 mbd2) h1;
          h3 \<leftarrow> mdesc_isolate (max mbd1 mbd2) h2;
          Some (min mbd1 mbd2, h3) }"

subsection \<open>Searching the lists\<close>

definition mm_add2used :: "nat \<Rightarrow> mipos_mm \<Rightarrow> mipos_mm option" where
  "mm_add2used mbd m =
     (if mm_used_memory m = 0
      then do { h \<leftarrow> mdesc_isolate mbd (mm_heap m); Some (m\<lparr>mm_heap := h, mm_used_memory := mbd\<rparr>) }
      else do { h \<leftarrow> mdesc_link_after mbd (mm_used_memory m) (mm_heap m); Some (m\<lparr>mm_heap := h\<rparr>) })"

text \<open>The larger of the two candidates, the earlier one when they are equal; 0 is no candidate.\<close>

definition mm_better :: "mheap \<Rightarrow> nat \<Rightarrow> nat \<Rightarrow> nat \<Rightarrow> nat \<Rightarrow> nat option" where
  "mm_better h sz s mbd g_mbd =
     (if sz < s then
        if g_mbd \<noteq> 0
        then do { gs \<leftarrow> mdesc_getsize g_mbd h; Some (if gs < s then mbd else g_mbd) }
        else Some mbd
      else Some g_mbd)"

partial_function (option) mm_find_free_loop :: "mheap \<Rightarrow> nat \<Rightarrow> nat \<Rightarrow> nat \<Rightarrow> nat option" where
  "mm_find_free_loop h sz mbd g_mbd =
     (if mbd = 0 then Some g_mbd
      else do { s \<leftarrow> mdesc_getsize mbd h;
                if s = sz then Some mbd
                else do { g \<leftarrow> mm_better h sz s mbd g_mbd;
                          n \<leftarrow> mdesc_next mbd h;
                          mm_find_free_loop h sz n g } })"

definition mm_find_free :: "nat \<Rightarrow> mipos_mm \<Rightarrow> nat option" where
  "mm_find_free sz m =
     (if mm_free_memory m = 0 then Some 0 else mm_find_free_loop (mm_heap m) sz (mm_free_memory m) 0)"

partial_function (option) mm_find_used_loop :: "mheap \<Rightarrow> nat \<Rightarrow> nat \<Rightarrow> nat option" where
  "mm_find_used_loop h p mbd =
     (if mbd = 0 then Some 0
      else if p = mdesc_get_data_addr mbd then Some mbd
      else do { n \<leftarrow> mdesc_next mbd h; mm_find_used_loop h p n })"

definition mm_find_used :: "nat \<Rightarrow> mipos_mm \<Rightarrow> nat option" where
  "mm_find_used p m = mm_find_used_loop (mm_heap m) p (mm_used_memory m)"

definition mipos_mm_is_in :: "nat \<Rightarrow> mipos_mm \<Rightarrow> bool option" where
  "mipos_mm_is_in p m = map_option (\<lambda>b. b \<noteq> 0) (mm_find_used p m)"

definition mm_contiguous :: "mheap \<Rightarrow> nat \<Rightarrow> nat \<Rightarrow> bool option" where
  "mm_contiguous h mbd mbd_i =
     do { si \<leftarrow> mdesc_getsize mbd_i h;
          if (mdesc_get_data_addr mbd_i + si) mod W = mbd then Some True
          else do { s \<leftarrow> mdesc_getsize mbd h;
                    Some ((mdesc_get_data_addr mbd + s) mod W = mbd_i) } }"

partial_function (option) mm_find_cont_loop :: "mheap \<Rightarrow> nat \<Rightarrow> nat \<Rightarrow> nat option" where
  "mm_find_cont_loop h mbd mbd_i =
     (if mbd_i = 0 then Some 0
      else do { hit \<leftarrow> (if mbd \<noteq> mbd_i then mm_contiguous h mbd mbd_i else Some False);
                if hit then Some mbd_i
                else do { n \<leftarrow> mdesc_next mbd_i h; mm_find_cont_loop h mbd n } })"

definition mm_find_cont_free_pred_mb :: "nat \<Rightarrow> mipos_mm \<Rightarrow> nat option" where
  "mm_find_cont_free_pred_mb mbd m = mm_find_cont_loop (mm_heap m) mbd (mm_free_memory m)"

definition mm_find_cont_free_mb :: "nat \<Rightarrow> nat \<Rightarrow> mipos_mm \<Rightarrow> (nat \<times> mipos_mm) option" where
  "mm_find_cont_free_mb first_mbd second_mbd m =
     do { f \<leftarrow> (if mm_free_memory m = max first_mbd second_mbd
                then do { n \<leftarrow> mdesc_next (max first_mbd second_mbd) (mm_heap m);
                          Some (if n \<noteq> 0 then n else min first_mbd second_mbd) }
                else Some (mm_free_memory m));
          (l, h) \<leftarrow> mdesc_merge first_mbd second_mbd (mm_heap m);
          Some (l, m\<lparr>mm_free_memory := f, mm_heap := h\<rparr>) }"

subsection \<open>Allocation and release\<close>

text \<open>The cast of a \<^verbatim>\<open>size_t\<close> difference to \<^verbatim>\<open>long long\<close>.\<close>

definition signed_size :: "nat \<Rightarrow> int" where
  "signed_size x = (if x < 2 ^ 63 then int x else int x - 2 ^ 64)"

definition mm_alloc_aux :: "nat \<Rightarrow> mipos_mm \<Rightarrow> (nat \<times> mipos_mm) option" where
  "mm_alloc_aux sz m =
     do { mbd \<leftarrow> mm_find_free sz m;
          if mbd = 0 then Some (0, m)
          else do {
            s \<leftarrow> mdesc_getsize mbd (mm_heap m);
            let needed = (sz + MDESC_SIZE) mod W;
            let rest = (s + W - needed) mod W;
            (allocated, m1) \<leftarrow>
              (if signed_size rest > int MDESC_SIZE
               then do {
                 h1 \<leftarrow> mdesc_setsize mbd rest (mm_heap m);
                 let a = (mdesc_get_data_addr mbd + rest) mod W;
                 Some (a, m\<lparr>mm_heap := mdesc_init a sz h1\<rparr>)
               }
               else do {
                 m0 \<leftarrow> (if mm_free_memory m = mbd
                        then do {
                          n \<leftarrow> mdesc_next mbd (mm_heap m);
                          h0 \<leftarrow> (if n \<noteq> 0 then mdesc_setprev n 0 (mm_heap m) else Some (mm_heap m));
                          Some (m\<lparr>mm_free_memory := n, mm_heap := h0\<rparr>)
                        }
                        else Some m);
                 h1 \<leftarrow> mdesc_link_detach mbd (mm_heap m0);
                 Some (mbd, m0\<lparr>mm_heap := h1\<rparr>)
               });
            m2 \<leftarrow> mm_add2used allocated m1;
            Some (allocated, m2)
          } }"

definition mipos_mm_free :: "nat \<Rightarrow> mipos_mm \<Rightarrow> (nat \<times> mipos_mm) option" where
  "mipos_mm_free p m =
     do { a \<leftarrow> mm_find_used p m;
          if a \<noteq> 0
          then do {
            m1 \<leftarrow> (if a = mm_used_memory m
                   then do {
                     n \<leftarrow> mdesc_next a (mm_heap m);
                     h0 \<leftarrow> (if n \<noteq> 0 then mdesc_setprev n 0 (mm_heap m) else Some (mm_heap m));
                     Some (m\<lparr>mm_used_memory := n, mm_heap := h0\<rparr>)
                   }
                   else Some m);
            h1 \<leftarrow> mdesc_link_detach a (mm_heap m1);
            h2 \<leftarrow> mdesc_isolate a h1;
            if mm_free_memory m1 = 0
            then Some (1, m1\<lparr>mm_heap := h2, mm_free_memory := a\<rparr>)
            else do {
              h3 \<leftarrow> mdesc_link_after a (mm_free_memory m1) h2;
              Some (1, m1\<lparr>mm_heap := h3\<rparr>)
            }
          }
          else Some (0, m) }"

definition mipos_mm_init :: "nat \<Rightarrow> nat \<Rightarrow> (nat \<Rightarrow> u8) \<Rightarrow> mipos_mm" where
  "mipos_mm_init arena sz d =
     \<lparr>mm_arena_size = sz, mm_free_memory = arena, mm_used_memory = 0,
      mm_heap = mdesc_init arena ((sz + W - MDESC_SIZE) mod W) Map.empty,
      mm_data = (\<lambda>x. if arena \<le> x \<and> x < arena + sz then 0 else d x)\<rparr>"

partial_function (option) mm_compact_loop ::
    "nat \<Rightarrow> nat \<Rightarrow> nat \<Rightarrow> mipos_mm \<Rightarrow> (nat \<times> mipos_mm) option" where
  "mm_compact_loop bytes_needed mbd bytes_compacted m =
     (if mbd = 0 then Some (bytes_compacted, m)
      else do {
        mbd_i \<leftarrow> mm_find_cont_free_pred_mb mbd m;
        if mbd_i \<noteq> 0
        then do {
          (l, m1) \<leftarrow> mm_find_cont_free_mb mbd_i mbd m;
          bc \<leftarrow> mdesc_getsize l (mm_heap m1);
          if bytes_needed \<noteq> 0 \<and> bc \<ge> bytes_needed then Some (bc, m1)
          else mm_compact_loop bytes_needed (mm_free_memory m1) bc m1
        }
        else do {
          n \<leftarrow> mdesc_next mbd (mm_heap m);
          mm_compact_loop bytes_needed n bytes_compacted m
        }
      })"

definition mipos_mm_compact_freemem :: "nat \<Rightarrow> mipos_mm \<Rightarrow> (nat \<times> mipos_mm) option" where
  "mipos_mm_compact_freemem bytes_needed m =
     mm_compact_loop bytes_needed (mm_free_memory m) 0 m"

text \<open>\<^verbatim>\<open>(size + 3) & ~3\<close>\<close>

definition align4 :: "nat \<Rightarrow> nat" where
  "align4 sz = (let s = (sz + 3) mod W in s - s mod 4)"

definition mipos_mm_alloc :: "nat \<Rightarrow> mipos_mm \<Rightarrow> (nat \<times> mipos_mm) option" where
  "mipos_mm_alloc sz m =
     (if sz = 0 then Some (0, m)
      else do {
        (blk, m1) \<leftarrow> mm_alloc_aux (align4 sz) m;
        (blk2, m2) \<leftarrow>
          (if blk = 0
           then do {
             (c, mc) \<leftarrow> mipos_mm_compact_freemem (align4 sz) m1;
             if c \<ge> align4 sz then mm_alloc_aux (align4 sz) mc else Some (0, mc)
           }
           else Some (blk, m1));
        Some (if blk2 \<noteq> 0 then mdesc_get_data_addr blk2 else 0, m2)
      })"

definition get_part_ptr_allocated_mem_size :: "nat \<Rightarrow> mipos_mm \<Rightarrow> nat option" where
  "get_part_ptr_allocated_mem_size p m =
     do { a \<leftarrow> mm_find_used p m; if a \<noteq> 0 then mdesc_getsize a (mm_heap m) else Some 0 }"

text \<open>\<^verbatim>\<open>memcpy\<close>; copying to or from the null pointer is a fault.\<close>

definition mem_copy :: "nat \<Rightarrow> nat \<Rightarrow> nat \<Rightarrow> (nat \<Rightarrow> u8) \<Rightarrow> (nat \<Rightarrow> u8) option" where
  "mem_copy dst src n d =
     (if dst = 0 \<or> src = 0 then None
      else Some (\<lambda>x. if dst \<le> x \<and> x < dst + n then d (src + (x - dst)) else d x))"

definition mipos_mm_realloc :: "nat \<Rightarrow> nat \<Rightarrow> mipos_mm \<Rightarrow> (nat \<times> mipos_mm) option" where
  "mipos_mm_realloc p sz m =
     (if p = 0 then mipos_mm_alloc sz m
      else do {
        alloc_size \<leftarrow> get_part_ptr_allocated_mem_size p m;
        if 0 < sz \<and> sz < alloc_size then Some (p, m)
        else do {
          (new_ptr, m1) \<leftarrow>
            (if min alloc_size sz > 0
             then do {
               (np, mn) \<leftarrow> mipos_mm_alloc sz m;
               d \<leftarrow> mem_copy np p (min alloc_size sz) (mm_data mn);
               Some (np, mn\<lparr>mm_data := d\<rparr>)
             }
             else Some (0, m));
          (r, m2) \<leftarrow> mipos_mm_free p m1;
          Some (new_ptr, m2)
        }
      })"

subsection \<open>Reports\<close>

text \<open>The rows of a table: number, address, size, address of the following block, next, prev.\<close>

type_synonym mm_row = "nat \<times> nat \<times> nat \<times> nat \<times> nat \<times> nat"

partial_function (option) mm_rows :: "mheap \<Rightarrow> nat \<Rightarrow> nat \<Rightarrow> nat \<Rightarrow> (mm_row list \<times> nat \<times> nat) option" where
  "mm_rows h mbd i tot =
     (if mbd = 0 then Some ([], i, tot)
      else do {
        d \<leftarrow> h mbd;
        (rows, n, t) \<leftarrow> mm_rows h (md_next d) (i + 1) ((tot + md_block_size d) mod W);
        Some ((i, (mdesc_get_data_addr mbd + W - MDESC_SIZE) mod W, md_block_size d,
               (mdesc_get_data_addr mbd + md_block_size d) mod W, md_next d, md_prev d) # rows, n, t)
      })"

record mm_report =
  rep_free_rows :: "mm_row list"
  rep_free_total :: nat
  rep_used_rows :: "mm_row list"
  rep_used_total :: nat
  rep_reserved :: nat
  rep_total :: nat
  rep_error :: bool

definition mipos_mm_dbg_print :: "mipos_mm \<Rightarrow> mm_report option" where
  "mipos_mm_dbg_print m =
     do {
       (frows, fn, ftot) \<leftarrow> mm_rows (mm_heap m) (mm_free_memory m) 0 0;
       (urows, un, utot) \<leftarrow> mm_rows (mm_heap m) (mm_used_memory m) 0 0;
       let res = (fn * MDESC_SIZE + un * MDESC_SIZE) mod W;
       let tot = (ftot + utot + res) mod W;
       Some \<lparr>rep_free_rows = frows, rep_free_total = ftot, rep_used_rows = urows, rep_used_total = utot,
             rep_reserved = res, rep_total = tot, rep_error = (tot \<noteq> mm_arena_size m)\<rparr>
     }"

definition mipos_mm_get_used_memory_size :: "mipos_mm \<Rightarrow> nat option" where
  "mipos_mm_get_used_memory_size m =
     do { (rows, n, tot) \<leftarrow> mm_rows (mm_heap m) (mm_used_memory m) 0 0;
          Some ((tot + n * MDESC_SIZE) mod W) }"

subsection \<open>The standard interface\<close>

text \<open>The global \<^verbatim>\<open>_mm_ptr\<close>: \<open>None\<close> until \<^verbatim>\<open>mipos_set_malloc_mm\<close> has been called.\<close>

definition mipos_set_malloc_mm :: "mipos_mm \<Rightarrow> mipos_mm option" where
  "mipos_set_malloc_mm m = Some m"

definition mipos_malloc :: "nat \<Rightarrow> mipos_mm option \<Rightarrow> (nat \<times> mipos_mm option) option" where
  "mipos_malloc sz g =
     (if sz = 0 then Some (0, g)
      else do { m \<leftarrow> g; (p, m1) \<leftarrow> mipos_mm_alloc sz m; Some (p, Some m1) })"

definition mipos_calloc :: "nat \<Rightarrow> nat \<Rightarrow> mipos_mm option \<Rightarrow> (nat \<times> mipos_mm option) option" where
  "mipos_calloc nmemb sz g =
     (let total = (sz * nmemb) mod W in
      do { (p, g1) \<leftarrow> mipos_malloc total g;
           if p = 0 then Some (0, g1)
           else do { m1 \<leftarrow> g1;
                     Some (p, Some (m1\<lparr>mm_data :=
                       (\<lambda>x. if p \<le> x \<and> x < p + total then 0 else mm_data m1 x)\<rparr>)) } })"

definition mipos_free :: "nat \<Rightarrow> mipos_mm option \<Rightarrow> mipos_mm option" where
  "mipos_free p g = do { m \<leftarrow> g; (r, m1) \<leftarrow> mipos_mm_free p m; Some m1 }"

definition mipos_realloc :: "nat \<Rightarrow> nat \<Rightarrow> mipos_mm option \<Rightarrow> (nat \<times> mipos_mm option) option" where
  "mipos_realloc p sz g =
     (if p = 0 \<and> sz = 0 then Some (0, g)
      else do { m \<leftarrow> g; (q, m1) \<leftarrow> mipos_mm_realloc p sz m; Some (q, Some m1) })"

end
