(* ===== verification/Mipos_Malloc_Lists.thy ===== *)
theory Mipos_Malloc_Lists
  imports Mipos_Malloc
begin

text \<open>
  The heap manager's doubly linked lists and the tiling of the arena. \<open>dseg\<close> is a segment of
  a doubly linked list; detaching a descriptor and linking one after the head are list
  operations on it. \<open>tiles\<close> says that blocks follow each other without gaps from one
  address to another; splitting a block and merging two neighbours keep it.
\<close>

subsection \<open>Segments of doubly linked lists\<close>

text \<open>\<open>dseg h p prv xs q lst\<close>: from \<open>p\<close>, whose predecessor is \<open>prv\<close>, over \<open>xs\<close> to \<open>q\<close>, whose predecessor is \<open>lst\<close>.\<close>

fun dseg :: "mheap \<Rightarrow> nat \<Rightarrow> nat \<Rightarrow> nat list \<Rightarrow> nat \<Rightarrow> nat \<Rightarrow> bool" where
  "dseg h p prv [] q lst \<longleftrightarrow> p = q \<and> prv = lst"
| "dseg h p prv (x # xs) q lst \<longleftrightarrow>
     p = x \<and> x \<noteq> 0 \<and>
     (\<exists>d. h x = Some d \<and> md_prev d = prv \<and> dseg h (md_next d) x xs q lst)"

definition dll :: "mheap \<Rightarrow> nat \<Rightarrow> nat list \<Rightarrow> bool" where
  "dll h p xs \<longleftrightarrow> (\<exists>lst. dseg h p 0 xs 0 lst)"

definition bsize :: "mheap \<Rightarrow> nat \<Rightarrow> nat" where
  "bsize h x = (case h x of None \<Rightarrow> 0 | Some d \<Rightarrow> md_block_size d)"

text \<open>The heap after an operation that writes no size and no descriptor outside \<open>S\<close>.\<close>

definition relinked :: "nat set \<Rightarrow> mheap \<Rightarrow> mheap \<Rightarrow> bool" where
  "relinked S h h' \<longleftrightarrow>
     (\<forall>x. x \<notin> S \<longrightarrow> h' x = h x) \<and>
     (\<forall>x. map_option md_block_size (h' x) = map_option md_block_size (h x))"

lemma relinked_refl [simp]: "relinked S h h"
  by (simp add: relinked_def)

lemma relinked_trans: "relinked S h h1 \<Longrightarrow> relinked S h1 h2 \<Longrightarrow> relinked S h h2"
  by (simp add: relinked_def)

lemma relinked_mono: "relinked S h h1 \<Longrightarrow> S \<subseteq> T \<Longrightarrow> relinked T h h1"
  by (auto simp: relinked_def)

lemma relinked_bsize: "relinked S h h' \<Longrightarrow> bsize h' = bsize h"
proof
  fix x assume "relinked S h h'"
  then have "map_option md_block_size (h' x) = map_option md_block_size (h x)" by (simp add: relinked_def)
  then show "bsize h' x = bsize h x" by (auto simp: bsize_def split: option.split)
qed

lemma relinked_upd:
  "h x = Some d \<Longrightarrow> x \<in> S \<Longrightarrow> md_block_size d' = md_block_size d \<Longrightarrow> relinked S h (h(x \<mapsto> d'))"
  by (auto simp: relinked_def)

lemma dseg_append:
  "dseg h p prv (xs @ ys) q lst \<longleftrightarrow> (\<exists>m n. dseg h p prv xs m n \<and> dseg h m n ys q lst)"
  by (induction xs arbitrary: p prv) auto

lemma dseg_cong: "(\<And>x. x \<in> set xs \<Longrightarrow> h' x = h x) \<Longrightarrow> dseg h' p prv xs q lst = dseg h p prv xs q lst"
  by (induction xs arbitrary: p prv) auto

lemma dseg_nonzero: "dseg h p prv xs q lst \<Longrightarrow> 0 \<notin> set xs"
  by (induction xs arbitrary: p prv) auto

lemma dseg_mapped: "dseg h p prv xs q lst \<Longrightarrow> x \<in> set xs \<Longrightarrow> \<exists>d. h x = Some d"
  by (induction xs arbitrary: p prv) auto

lemma dseg_head: "dseg h p prv xs q lst \<Longrightarrow> p = (if xs = [] then q else hd xs)"
  by (cases xs) auto

lemma dseg_last: "dseg h p prv xs q lst \<Longrightarrow> lst = (if xs = [] then prv else last xs)"
  by (induction xs arbitrary: p prv) auto

lemma dseg_set_next_last:
  assumes "dseg h p prv (xs @ [w]) q lst" "w \<notin> set xs" "h w = Some d"
  shows "dseg (h(w \<mapsto> d\<lparr>md_next := v\<rparr>)) p prv (xs @ [w]) v w"
proof -
  obtain n where "dseg h p prv xs w n" "md_prev d = n" "w \<noteq> 0"
    using assms by (auto simp: dseg_append)
  moreover from this assms(2) have "dseg (h(w \<mapsto> d\<lparr>md_next := v\<rparr>)) p prv xs w n"
    by (subst dseg_cong) auto
  ultimately show ?thesis by (auto simp: dseg_append)
qed

lemma dseg_set_prev_first:
  assumes "dseg h p prv (y # ys) q lst" "y \<notin> set ys" "h y = Some d"
  shows "dseg (h(y \<mapsto> d\<lparr>md_prev := v\<rparr>)) p v (y # ys) q lst"
proof -
  have "dseg (h(y \<mapsto> d\<lparr>md_prev := v\<rparr>)) (md_next d) y ys q lst = dseg h (md_next d) y ys q lst"
    using assms(2) by (intro dseg_cong) auto
  with assms show ?thesis by auto
qed

subsection \<open>Detaching and linking\<close>

lemma detach_next:
  assumes t: "h x = Some t" and ys: "dseg h (md_next t) w ys 0 lst" and x: "x \<notin> set ys" "distinct ys"
  shows "\<exists>h1 lst'. (if md_next t \<noteq> 0 then md_upd (md_next t) (\<lambda>d. d\<lparr>md_prev := v\<rparr>) h else Some h) = Some h1 \<and>
    dseg h1 (md_next t) v ys 0 lst' \<and> relinked (set ys) h h1"
proof (cases ys)
  case Nil
  with ys show ?thesis by simp
next
  case (Cons y zs)
  with ys obtain d where d: "md_next t = y" "y \<noteq> 0" "h y = Some d" by auto
  with ys Cons x have "dseg (h(y \<mapsto> d\<lparr>md_prev := v\<rparr>)) y v (y # zs) 0 lst"
    using dseg_set_prev_first [of h y w y zs 0 lst d v] by auto
  with d Cons show ?thesis by (auto simp: md_upd_def intro!: relinked_upd)
qed

lemma detach_prev:
  assumes xs: "dseg h p 0 xs x n" and x: "distinct xs"
  shows "\<exists>h1. (if n \<noteq> 0 then md_upd n (\<lambda>d. d\<lparr>md_next := v\<rparr>) h else Some h) = Some h1 \<and>
    dseg h1 (if xs = [] then v else p) 0 xs v n \<and> relinked (set xs) h h1"
proof (cases xs rule: rev_cases)
  case Nil
  with xs show ?thesis by simp
next
  case (snoc ws w)
  with xs obtain d where d: "n = w" "w \<noteq> 0" "h w = Some d" by (auto simp: dseg_append)
  with dseg_set_next_last [of h p 0 ws w x n d v] xs x snoc
  have "dseg (h(w \<mapsto> d\<lparr>md_next := v\<rparr>)) p 0 (ws @ [w]) v w" by auto
  with d snoc show ?thesis by (auto simp: md_upd_def intro!: relinked_upd)
qed

lemma link_detach:
  assumes dll: "dll h p (xs @ x # ys)" and dist: "distinct (xs @ x # ys)" and t: "h x = Some t"
  shows "\<exists>h'. mdesc_link_detach x h = Some h' \<and> dll h' (if xs = [] then md_next t else p) (xs @ ys) \<and>
    relinked (set (xs @ ys)) h h'"
proof -
  obtain lst n where xs: "dseg h p 0 xs x n" and n: "md_prev t = n" and ys: "dseg h (md_next t) x ys 0 lst"
    using dll t by (auto simp: dll_def dseg_append)
  obtain h1 lst' where h1: "(if md_next t \<noteq> 0 then md_upd (md_next t) (\<lambda>d. d\<lparr>md_prev := n\<rparr>) h else Some h) = Some h1"
      "dseg h1 (md_next t) n ys 0 lst'" "relinked (set ys) h h1"
    using detach_next [OF t ys, of n] dist by auto
  have xs1: "dseg h1 p 0 xs x n"
    using xs h1(3) dist by (subst dseg_cong [of xs h1 h]) (auto simp: relinked_def)
  have t1: "h1 x = Some t" using h1(3) t dist by (auto simp: relinked_def)
  obtain h2 where h2: "(if n \<noteq> 0 then md_upd n (\<lambda>d. d\<lparr>md_next := md_next t\<rparr>) h1 else Some h1) = Some h2"
      "dseg h2 (if xs = [] then md_next t else p) 0 xs (md_next t) n" "relinked (set xs) h1 h2"
    using detach_prev [OF xs1, of "md_next t"] dist by auto
  have "dseg h2 (md_next t) n ys 0 lst'"
    using h1(2) h2(3) dist by (subst dseg_cong [of ys h2 h1]) (auto simp: relinked_def)
  with h2(2) have "dll h2 (if xs = [] then md_next t else p) (xs @ ys)"
    unfolding dll_def dseg_append by blast
  moreover have "mdesc_link_detach x h = Some h2"
    by (simp only: mdesc_link_detach_def t n h1(1) t1 h2(1) Option.bind.simps)
  moreover have "relinked (set (xs @ ys)) h h2"
    using h1(3) h2(3) by (auto intro: relinked_trans relinked_mono)
  ultimately show ?thesis by blast
qed

text \<open>
  Taking out the head: the callers advance the head pointer and clear the new head's \<open>prev\<close>
  before they detach the old head.
\<close>

lemma detach_head:
  assumes dll: "dll h x (x # ys)" and dist: "distinct (x # ys)" and t: "h x = Some t"
  shows "\<exists>h0 h1. (if md_next t \<noteq> 0 then mdesc_setprev (md_next t) 0 h else Some h) = Some h0 \<and>
    mdesc_link_detach x h0 = Some h1 \<and> dll h1 (md_next t) ys \<and> relinked (set ys) h h1"
proof -
  obtain lst where ys: "dseg h (md_next t) x ys 0 lst" and prev: "md_prev t = 0"
    using dll t by (auto simp: dll_def)
  obtain h0 lst0 where h0: "(if md_next t \<noteq> 0 then md_upd (md_next t) (\<lambda>d. d\<lparr>md_prev := 0\<rparr>) h else Some h) = Some h0"
      "dseg h0 (md_next t) 0 ys 0 lst0" "relinked (set ys) h h0"
    using detach_next [OF t ys, of 0] dist by auto
  have t0: "h0 x = Some t" using h0(3) t dist by (auto simp: relinked_def)
  obtain h1 lst1 where h1: "(if md_next t \<noteq> 0 then md_upd (md_next t) (\<lambda>d. d\<lparr>md_prev := 0\<rparr>) h0 else Some h0) = Some h1"
      "dseg h1 (md_next t) 0 ys 0 lst1" "relinked (set ys) h0 h1"
    using detach_next [OF t0 h0(2), of 0] dist by auto
  have t1: "h1 x = Some t" using h1(3) t0 dist by (auto simp: relinked_def)
  have "mdesc_link_detach x h0 = Some h1"
    by (simp only: mdesc_link_detach_def t0 prev h1(1) t1 Option.bind.simps) simp
  with h0 h1 show ?thesis
    by (auto simp: mdesc_setprev_def dll_def intro: relinked_trans)
qed

lemma link_after_head:
  assumes dll: "dll h f (f # ys)" and dist: "distinct (f # a # ys)" and a: "a \<noteq> 0" "h a = Some da"
  shows "\<exists>h'. mdesc_link_after a f h = Some h' \<and> dll h' f (f # a # ys) \<and>
    relinked (set (f # a # ys)) h h'"
proof -
  obtain b lst where b: "f \<noteq> 0" "h f = Some b" "md_prev b = 0" and ys: "dseg h (md_next b) f ys 0 lst"
    using dll by (auto simp: dll_def)
  let ?h1 = "h(a \<mapsto> da\<lparr>md_next := md_next b, md_prev := f\<rparr>)"
  have ys1: "dseg ?h1 (md_next b) f ys 0 lst" using ys dist by (subst dseg_cong) auto
  have f1: "?h1 f = Some b" using b dist by simp
  from detach_next [OF f1 ys1, of a] dist obtain h2 lst' where h2:
      "(if md_next b \<noteq> 0 then md_upd (md_next b) (\<lambda>d. d\<lparr>md_prev := a\<rparr>) ?h1 else Some ?h1) = Some h2"
      "dseg h2 (md_next b) a ys 0 lst'" "relinked (set ys) ?h1 h2" by auto
  have fa: "h2 f = Some b" "h2 a = Some (da\<lparr>md_next := md_next b, md_prev := f\<rparr>)"
    using h2(3) dist b by (auto simp: relinked_def)
  let ?h3 = "h2(f \<mapsto> b\<lparr>md_next := a\<rparr>)"
  have a1: "md_upd a (\<lambda>d. d\<lparr>md_next := md_next b, md_prev := f\<rparr>) h = Some ?h1"
    and f3: "md_upd f (\<lambda>d. d\<lparr>md_next := a\<rparr>) h2 = Some ?h3"
    using a(2) fa(1) by (simp_all add: md_upd_def)
  have "dseg ?h3 (md_next b) a ys 0 lst'" using h2(2) dist by (subst dseg_cong) auto
  with a b fa dist have "dll ?h3 f (f # a # ys)" by (auto simp: dll_def)
  moreover have "mdesc_link_after a f h = Some ?h3"
    by (simp only: mdesc_link_after_def b(2) a1 h2(1) f3 Option.bind.simps)
  moreover have "relinked (set (f # a # ys)) h ?h3"
  proof -
    have "relinked (set (f # a # ys)) h ?h1" using a by (intro relinked_upd) auto
    moreover have "relinked (set (f # a # ys)) ?h1 h2" using h2(3) by (rule relinked_mono) auto
    moreover have "relinked (set (f # a # ys)) h2 ?h3" using fa by (intro relinked_upd) auto
    ultimately show ?thesis by (blast intro: relinked_trans)
  qed
  ultimately show ?thesis by blast
qed

lemma dll_cong:
  assumes "\<And>x. x \<in> set xs \<Longrightarrow> h' x = h x"
  shows "dll h' p xs = dll h p xs"
  unfolding dll_def using dseg_cong [OF assms] by auto

lemma dll_head: "dll h p xs \<Longrightarrow> p = (if xs = [] then 0 else hd xs)"
  by (auto simp: dll_def dest: dseg_head)

lemma dll_nonzero: "dll h p xs \<Longrightarrow> 0 \<notin> set xs"
  by (auto simp: dll_def dest: dseg_nonzero)

lemma dll_mapped: "dll h p xs \<Longrightarrow> x \<in> set xs \<Longrightarrow> \<exists>d. h x = Some d"
  by (auto simp: dll_def dest: dseg_mapped)

lemma dll_head_zero: "dll h p xs \<Longrightarrow> (p = 0) = (xs = [])"
  by (cases xs) (auto simp: dll_def)

text \<open>Writing a size changes no link.\<close>

lemma dseg_set_size:
  "h x = Some d \<Longrightarrow>
     dseg (h(x \<mapsto> d\<lparr>md_block_size := s\<rparr>)) p prv xs q lst = dseg h p prv xs q lst"
  by (induction xs arbitrary: p prv) auto

lemma dll_set_size: "h x = Some d \<Longrightarrow> dll (h(x \<mapsto> d\<lparr>md_block_size := s\<rparr>)) p xs = dll h p xs"
  by (simp add: dll_def dseg_set_size)

subsection \<open>The tiling of the arena\<close>

fun tiles :: "(nat \<Rightarrow> nat) \<Rightarrow> nat \<Rightarrow> nat \<Rightarrow> nat list \<Rightarrow> bool" where
  "tiles sz lo hi [] \<longleftrightarrow> lo = hi"
| "tiles sz lo hi (b # bs) \<longleftrightarrow> b = lo \<and> tiles sz (lo + MDESC_SIZE + sz b) hi bs"

lemma tiles_append:
  "tiles sz lo hi (xs @ ys) \<longleftrightarrow> (\<exists>mid. tiles sz lo mid xs \<and> tiles sz mid hi ys)"
  by (induction xs arbitrary: lo) auto

lemma tiles_cong: "(\<And>x. x \<in> set bs \<Longrightarrow> sz' x = sz x) \<Longrightarrow> tiles sz' lo hi bs = tiles sz lo hi bs"
  by (induction bs arbitrary: lo) auto

lemma tiles_le: "tiles sz lo hi bs \<Longrightarrow> lo \<le> hi"
  by (induction bs arbitrary: lo) force+

lemma tiles_bounds:
  "tiles sz lo hi bs \<Longrightarrow> b \<in> set bs \<Longrightarrow> lo \<le> b \<and> b + MDESC_SIZE + sz b \<le> hi"
proof (induction bs arbitrary: lo)
  case Nil
  then show ?case by simp
next
  case (Cons c bs)
  then have rest: "tiles sz (lo + MDESC_SIZE + sz c) hi bs" and c: "c = lo" by auto
  show ?case
  proof (cases "b = c")
    case True
    with tiles_le [OF rest] c show ?thesis by simp
  next
    case False
    with Cons.IH [OF rest] Cons.prems(2) show ?thesis by auto
  qed
qed

lemma tiles_distinct: "tiles sz lo hi bs \<Longrightarrow> distinct bs"
proof (induction bs arbitrary: lo)
  case Nil
  then show ?case by simp
next
  case (Cons c bs)
  then have rest: "tiles sz (lo + MDESC_SIZE + sz c) hi bs" and c: "c = lo" by auto
  with tiles_bounds [OF rest] have "c \<notin> set bs" by (force simp: mip_simps)
  with Cons.IH [OF rest] show ?case by simp
qed

lemma tiles_disjoint:
  assumes "tiles sz lo hi bs" "b \<in> set bs" "c \<in> set bs" "b < c"
  shows "b + MDESC_SIZE + sz b \<le> c"
proof -
  obtain xs ys where bs: "bs = xs @ b # ys" using assms(2) by (auto simp: in_set_conv_decomp)
  with assms(1) obtain mid where xs: "tiles sz lo mid xs" and b: "b = mid"
      and ys: "tiles sz (b + MDESC_SIZE + sz b) hi ys"
    by (auto simp: tiles_append)
  have "c \<notin> set xs" using tiles_bounds [OF xs] b assms(4) by (force simp: mip_simps)
  with assms(3,4) bs have "c \<in> set ys" by auto
  with tiles_bounds [OF ys] show ?thesis by blast
qed

lemma tiles_sum: "tiles sz lo hi bs \<Longrightarrow> lo + (\<Sum>b\<leftarrow>bs. MDESC_SIZE + sz b) = hi"
proof (induction bs arbitrary: lo)
  case Nil
  then show ?case by simp
next
  case (Cons c bs)
  then have "lo + MDESC_SIZE + sz c + (\<Sum>b\<leftarrow>bs. MDESC_SIZE + sz b) = hi" by auto
  then show ?case using Cons.prems by (auto simp: add.assoc)
qed

lemma tiles_split:
  assumes "tiles sz lo hi (xs @ b # ys)" "sz b = s1 + MDESC_SIZE + s2"
  shows "tiles (sz(b := s1, b + MDESC_SIZE + s1 := s2)) lo hi (xs @ b # (b + MDESC_SIZE + s1) # ys)"
proof -
  let ?c = "b + MDESC_SIZE + s1" and ?sz = "sz(b := s1, b + MDESC_SIZE + s1 := s2)"
  obtain mid where xs: "tiles sz lo mid xs" and b: "b = mid" and ys: "tiles sz (b + MDESC_SIZE + sz b) hi ys"
    using assms(1) by (auto simp: tiles_append)
  have "x \<noteq> b \<and> x \<noteq> ?c" if "x \<in> set xs" for x
    using tiles_bounds [OF xs that] b by (force simp: mip_simps)
  then have "tiles ?sz lo mid xs" using xs by (subst tiles_cong) auto
  moreover have "x \<noteq> b \<and> x \<noteq> ?c" if "x \<in> set ys" for x
    using tiles_bounds [OF ys that] assms(2) by (force simp: mip_simps)
  then have "tiles ?sz (b + MDESC_SIZE + sz b) hi ys" using ys by (subst tiles_cong) auto
  moreover have "b + MDESC_SIZE + sz b = ?c + MDESC_SIZE + s2" using assms(2) by simp
  ultimately show ?thesis using b by (auto simp: tiles_append mip_simps ac_simps)
qed

lemma tiles_merge:
  assumes "tiles sz lo hi (xs @ b # c # ys)"
  shows "tiles (sz(b := sz b + sz c + MDESC_SIZE)) lo hi (xs @ b # ys)"
proof -
  let ?sz = "sz(b := sz b + sz c + MDESC_SIZE)"
  obtain mid where xs: "tiles sz lo mid xs" and b: "b = mid" and c: "c = b + MDESC_SIZE + sz b"
      and ys: "tiles sz (c + MDESC_SIZE + sz c) hi ys"
    using assms by (auto simp: tiles_append)
  have "x \<noteq> b" if "x \<in> set xs" for x using tiles_bounds [OF xs that] b by (force simp: mip_simps)
  then have "tiles ?sz lo mid xs" using xs by (subst tiles_cong) auto
  moreover have "x \<noteq> b" if "x \<in> set ys" for x using tiles_bounds [OF ys that] c by (force simp: mip_simps)
  then have "tiles ?sz (c + MDESC_SIZE + sz c) hi ys" using ys by (subst tiles_cong) auto
  moreover have "b + MDESC_SIZE + ?sz b = c + MDESC_SIZE + sz c" using c by simp
  ultimately show ?thesis using b by (auto simp: tiles_append ac_simps)
qed

lemma tiles_next:
  assumes "tiles sz lo hi bs" "b \<in> set bs" "c \<in> set bs" "b + MDESC_SIZE + sz b = c"
  shows "\<exists>xs ys. bs = xs @ b # c # ys"
proof -
  obtain xs ys where bs: "bs = xs @ b # ys" using assms(2) by (auto simp: in_set_conv_decomp)
  with assms(1) obtain mid where xs: "tiles sz lo mid xs" and b: "b = mid"
      and ys: "tiles sz (b + MDESC_SIZE + sz b) hi ys"
    by (auto simp: tiles_append)
  have "c \<notin> set xs" "c \<noteq> b" using tiles_bounds [OF xs] b assms(4) by (force simp: mip_simps)+
  with assms(3) bs have "ys \<noteq> []" by auto
  with ys assms(4) obtain zs where "ys = c # zs" by (cases ys) auto
  with bs show ?thesis by blast
qed

end
