(* ===== verification/Mipos_Malloc_Inv.thy ===== *)
theory Mipos_Malloc_Inv
  imports Mipos_Malloc_Lists
begin

text \<open>
  The invariant of the heap manager: the free and the used list are disjoint doubly linked
  lists whose blocks tile the arena. Every search loop ends and computes a function of the
  list; allocation, release and compaction keep the invariant.
\<close>

definition mm_inv :: "nat \<Rightarrow> nat \<Rightarrow> mipos_mm \<Rightarrow> nat list \<Rightarrow> nat list \<Rightarrow> bool" where
  "mm_inv a n m fs us \<longleftrightarrow>
     mm_arena_size m = n \<and> 0 < a \<and> a + n < W \<and> n < 2 ^ 63 \<and>
     dll (mm_heap m) (mm_free_memory m) fs \<and> dll (mm_heap m) (mm_used_memory m) us \<and>
     distinct (fs @ us) \<and>
     (\<exists>bs. tiles (bsize (mm_heap m)) a (a + n) bs \<and> set bs = set (fs @ us))"

lemma mm_inv_block:
  assumes "mm_inv a n m fs us" "x \<in> set (fs @ us)"
  shows "a \<le> x" "x + MDESC_SIZE + bsize (mm_heap m) x \<le> a + n" "x \<noteq> 0"
    "mdesc_get_data_addr x = x + MDESC_SIZE" "bsize (mm_heap m) x < 2 ^ 63"
proof -
  obtain bs where bs: "tiles (bsize (mm_heap m)) a (a + n) bs" "set bs = set (fs @ us)"
    using assms(1) by (auto simp: mm_inv_def)
  have "a \<le> x \<and> x + MDESC_SIZE + bsize (mm_heap m) x \<le> a + n"
    using tiles_bounds [OF bs(1)] assms(2) bs(2) by blast
  then show "a \<le> x" "x + MDESC_SIZE + bsize (mm_heap m) x \<le> a + n" "x \<noteq> 0"
      "mdesc_get_data_addr x = x + MDESC_SIZE" "bsize (mm_heap m) x < 2 ^ 63"
    using assms(1) by (auto simp: mm_inv_def mdesc_get_data_addr_def)
qed

lemma mm_inv_mapped:
  assumes "mm_inv a n m fs us" "x \<in> set (fs @ us)"
  shows "\<exists>d. mm_heap m x = Some d \<and> bsize (mm_heap m) x = md_block_size d"
proof -
  have "\<exists>d. mm_heap m x = Some d"
    using assms dll_mapped by (fastforce simp: mm_inv_def)
  then show ?thesis by (auto simp: bsize_def)
qed

subsection \<open>Separation\<close>

text \<open>
  A descriptor at \<open>x\<close> shares no byte with the data of a used block. An operation spares the
  used blocks when it writes only such descriptors.
\<close>

definition outside_used :: "mipos_mm \<Rightarrow> nat list \<Rightarrow> nat \<Rightarrow> bool" where
  "outside_used m us x \<longleftrightarrow>
     (\<forall>u \<in> set us. x \<le> u \<or> u + MDESC_SIZE + bsize (mm_heap m) u \<le> x)"

definition spares :: "mipos_mm \<Rightarrow> nat list \<Rightarrow> mipos_mm \<Rightarrow> bool" where
  "spares m us m' \<longleftrightarrow> (\<forall>x. mm_heap m' x \<noteq> mm_heap m x \<longrightarrow> outside_used m us x)"

lemma mm_inv_outside:
  assumes "mm_inv a n m fs us" "x \<in> set (fs @ us)"
  shows "outside_used m us x"
proof -
  obtain bs where bs: "tiles (bsize (mm_heap m)) a (a + n) bs" "set bs = set (fs @ us)"
    using assms(1) by (auto simp: mm_inv_def)
  have "x \<le> u \<or> u + MDESC_SIZE + bsize (mm_heap m) u \<le> x" if "u \<in> set us" for u
    using tiles_disjoint [OF bs(1), of u x] that assms(2) bs(2) by (cases "x \<le> u") auto
  then show ?thesis by (simp add: outside_used_def)
qed

lemma outside_used_cong:
  "\<forall>x \<in> set us. bsize (mm_heap m') x = bsize (mm_heap m) x \<Longrightarrow> outside_used m' us = outside_used m us"
  by (simp add: outside_used_def fun_eq_iff)

lemma outside_used_subset: "outside_used m us x \<Longrightarrow> set vs \<subseteq> set us \<Longrightarrow> outside_used m vs x"
  by (auto simp: outside_used_def)

lemma spares_lists:
  assumes "mm_inv a n m fs us" "\<And>x. x \<notin> set (fs @ us) \<Longrightarrow> mm_heap m' x = mm_heap m x"
  shows "spares m us m'"
  using assms(2) mm_inv_outside [OF assms(1)] unfolding spares_def by blast

lemma spares_trans:
  assumes "spares m us m1" "spares m1 us m2" "\<forall>x \<in> set us. bsize (mm_heap m1) x = bsize (mm_heap m) x"
  shows "spares m us m2"
  using assms(1,2) outside_used_cong [OF assms(3)] unfolding spares_def by metis

lemma spares_refl [simp]: "spares m us m"
  by (simp add: spares_def)

subsection \<open>Searches\<close>

lemma getsize_bsize: "h x = Some d \<Longrightarrow> mdesc_getsize x h = Some (bsize h x)"
  by (simp add: mdesc_getsize_def bsize_def)

text \<open>Best candidate first: an exact fit, otherwise the first of the largest blocks.\<close>

fun worst_fit :: "(nat \<Rightarrow> nat) \<Rightarrow> nat \<Rightarrow> nat list \<Rightarrow> nat \<Rightarrow> nat" where
  "worst_fit sz s [] g = g"
| "worst_fit sz s (x # xs) g =
     (if sz x = s then x
      else worst_fit sz s xs (if s < sz x \<and> (g = 0 \<or> sz g < sz x) then x else g))"

lemma mm_find_free_loop:
  assumes "dseg h p prv xs 0 lst" "g = 0 \<or> (\<exists>d. h g = Some d)"
  shows "mm_find_free_loop h s p g = Some (worst_fit (bsize h) s xs g)"
  using assms
proof (induction xs arbitrary: p prv g)
  case Nil
  then show ?case by (subst mm_find_free_loop.simps) simp
next
  case (Cons x xs)
  then obtain d where d: "p = x" "x \<noteq> 0" "h x = Some d" "dseg h (md_next d) x xs 0 lst" by auto
  let ?g = "if s < bsize h x \<and> (g = 0 \<or> bsize h g < bsize h x) then x else g"
  have g: "mm_better h s (bsize h x) x g = Some ?g"
    using Cons.prems(2) by (auto simp: mm_better_def getsize_bsize)
  have "?g = 0 \<or> (\<exists>d. h ?g = Some d)" using d(3) Cons.prems(2) by auto
  from Cons.IH [OF d(4) this] show ?case
    by (subst mm_find_free_loop.simps) (simp add: d getsize_bsize mdesc_next_def g)
qed

lemma worst_fit_spec:
  assumes "0 \<notin> set xs" "g = 0 \<or> s < sz g"
  shows "(worst_fit sz s xs g = 0 \<longleftrightarrow> g = 0 \<and> (\<forall>x \<in> set xs. sz x < s)) \<and>
    (worst_fit sz s xs g \<noteq> 0 \<longrightarrow>
       worst_fit sz s xs g \<in> insert g (set xs) \<and> s \<le> sz (worst_fit sz s xs g) \<and>
       (sz (worst_fit sz s xs g) = s \<or>
        (\<forall>x \<in> set xs \<union> (if g = 0 then {} else {g}). sz x \<noteq> s \<and> sz x \<le> sz (worst_fit sz s xs g))))"
  using assms
proof (induction xs arbitrary: g)
  case Nil
  then show ?case by auto
next
  case (Cons x xs)
  let ?g = "if s < sz x \<and> (g = 0 \<or> sz g < sz x) then x else g"
  show ?case
  proof (cases "sz x = s")
    case True
    with Cons.prems show ?thesis by auto
  next
    case False
    have "0 \<notin> set xs" "?g = 0 \<or> s < sz ?g" using Cons.prems by auto
    note IH = Cons.IH [OF this]
    have w: "worst_fit sz s (x # xs) g = worst_fit sz s xs ?g" using False by simp
    show ?thesis
    proof (cases "worst_fit sz s xs ?g = 0")
      case True
      with IH False Cons.prems show ?thesis unfolding w by (auto split: if_splits)
    next
      case nz: False
      with IH False Cons.prems show ?thesis unfolding w by (auto split: if_splits)
    qed
  qed
qed

lemma mm_find_used_loop:
  assumes "dseg h q prv xs 0 lst"
  shows "mm_find_used_loop h p q =
    Some (case List.find (\<lambda>x. p = mdesc_get_data_addr x) xs of None \<Rightarrow> 0 | Some x \<Rightarrow> x)"
  using assms
proof (induction xs arbitrary: q prv)
  case Nil
  then show ?case by (subst mm_find_used_loop.simps) simp
next
  case (Cons x xs)
  then show ?case
    by (subst mm_find_used_loop.simps) (auto simp: mdesc_next_def split: option.split)
qed

lemma mm_find_used:
  assumes inv: "mm_inv a n m fs us"
  shows "mm_find_used p m = Some (if \<exists>x \<in> set us. p = x + MDESC_SIZE then p - MDESC_SIZE else 0)"
proof -
  obtain lst where us: "dseg (mm_heap m) (mm_used_memory m) 0 us 0 lst"
    using inv by (auto simp: mm_inv_def dll_def)
  have da: "mdesc_get_data_addr x = x + MDESC_SIZE" if "x \<in> set us" for x
    using mm_inv_block(4) [OF inv] that by simp
  have "(case List.find (\<lambda>x. p = mdesc_get_data_addr x) us of None \<Rightarrow> 0 | Some x \<Rightarrow> x) =
      (if \<exists>x \<in> set us. p = x + MDESC_SIZE then p - MDESC_SIZE else 0)"
  proof (cases "List.find (\<lambda>x. p = mdesc_get_data_addr x) us")
    case None
    with da have "\<not> (\<exists>x \<in> set us. p = x + MDESC_SIZE)" by (auto simp: find_None_iff)
    with None show ?thesis by simp
  next
    case (Some x)
    then have "x \<in> set us" "p = mdesc_get_data_addr x" by (auto simp: find_Some_iff)
    with da Some show ?thesis by auto
  qed
  with mm_find_used_loop [OF us, of p] show ?thesis by (simp add: mm_find_used_def)
qed

subsection \<open>Allocation\<close>

text \<open>The used list after \<open>b\<close> has been added.\<close>

fun add_second :: "nat \<Rightarrow> nat list \<Rightarrow> nat list" where
  "add_second b [] = [b]"
| "add_second b (u # us) = u # b # us"

lemma set_add_second [simp]: "set (add_second b us) = insert b (set us)"
  by (cases us) auto

lemma distinct_add_second [simp]: "distinct (add_second b us) = (b \<notin> set us \<and> distinct us)"
  by (cases us) auto

lemma mm_add2used:
  assumes us: "dll (mm_heap m) (mm_used_memory m) us" "distinct us" "b \<notin> set us"
    and b: "b \<noteq> 0" "mm_heap m b = Some d"
  shows "\<exists>h' u'. mm_add2used b m = Some (m\<lparr>mm_heap := h', mm_used_memory := u'\<rparr>) \<and>
    dll h' u' (add_second b us) \<and> relinked (insert b (set us)) (mm_heap m) h'"
proof (cases us)
  case Nil
  then have "mm_used_memory m = 0" using us by (simp add: dll_def)
  with Nil b show ?thesis
    by (auto simp: mm_add2used_def mdesc_isolate_def md_upd_def dll_def intro!: relinked_upd)
next
  case (Cons u ut)
  then have u: "mm_used_memory m = u" "u \<noteq> 0" using us by (auto simp: dll_def)
  then obtain h' where "mdesc_link_after b u (mm_heap m) = Some h'" "dll h' u (u # b # ut)"
      "relinked (set (u # b # ut)) (mm_heap m) h'"
    using link_after_head [of "mm_heap m" u ut b d] us b Cons by auto
  moreover have "set (u # b # ut) = insert b (set us)" using Cons by auto
  ultimately show ?thesis
    using u Cons by (intro exI [of _ h'] exI [of _ u]) (simp add: mm_add2used_def)
qed

lemma tiles_bsize_relinked:
  "relinked S h h' \<Longrightarrow> tiles (bsize h') a hi bs = tiles (bsize h) a hi bs"
  by (simp add: relinked_bsize)

lemma mm_find_free:
  assumes inv: "mm_inv a n m fs us"
  shows "mm_find_free s m = Some (worst_fit (bsize (mm_heap m)) s fs 0)"
proof -
  obtain lst where fs: "dseg (mm_heap m) (mm_free_memory m) 0 fs 0 lst"
    using inv by (auto simp: mm_inv_def dll_def)
  with mm_find_free_loop [OF fs, of 0 s] show ?thesis
    by (cases fs) (auto simp: mm_find_free_def)
qed

text \<open>The arithmetic of the splitting test.\<close>

lemma split_test:
  assumes "sz \<le> s" "s < 2 ^ 63"
  shows "(sz + MDESC_SIZE) mod W = sz + MDESC_SIZE"
    and "signed_size ((s + W - (sz + MDESC_SIZE)) mod W) > int MDESC_SIZE \<longleftrightarrow> sz + 2 * MDESC_SIZE < s"
    and "sz + 2 * MDESC_SIZE < s \<Longrightarrow> (s + W - (sz + MDESC_SIZE)) mod W = s - (sz + MDESC_SIZE)"
proof -
  have small: "sz + MDESC_SIZE < W" "s < W" using assms by (simp_all add: W_def mip_simps)
  then show "(sz + MDESC_SIZE) mod W = sz + MDESC_SIZE" by simp
  have ge: "(s + W - (sz + MDESC_SIZE)) mod W = s - (sz + MDESC_SIZE)" if "sz + MDESC_SIZE \<le> s"
  proof -
    have "s + W - (sz + MDESC_SIZE) = (s - (sz + MDESC_SIZE)) + W" using that by simp
    moreover have "s - (sz + MDESC_SIZE) < W" using small by simp
    ultimately show ?thesis by (simp only: mod_add_self2 mod_less)
  qed
  then show "sz + 2 * MDESC_SIZE < s \<Longrightarrow> (s + W - (sz + MDESC_SIZE)) mod W = s - (sz + MDESC_SIZE)" by simp
  show "signed_size ((s + W - (sz + MDESC_SIZE)) mod W) > int MDESC_SIZE \<longleftrightarrow> sz + 2 * MDESC_SIZE < s"
  proof (cases "sz + MDESC_SIZE \<le> s")
    case True
    have "s - (sz + MDESC_SIZE) < 2 ^ 63" using assms(2) by simp
    with ge [OF True] True show ?thesis by (simp only: signed_size_def if_True) (simp add: mip_simps, arith)
  next
    case False
    let ?r = "s + W - (sz + MDESC_SIZE)"
    have r: "?r < W" "2 ^ 63 \<le> ?r" using False assms(1) small by (simp_all add: W_def mip_simps)
    have "signed_size (?r mod W) = int ?r - 2 ^ 64" using r by (simp add: signed_size_def)
    also have "\<dots> < 0" using r(1) by (simp add: W_def)
    finally show ?thesis using False by simp
  qed
qed

text \<open>
  What an allocation of \<open>sz\<close> bytes promises about the block \<open>b\<close> it takes: it is new, large
  enough, the other used blocks keep their sizes, no descriptor is written inside them, and
  the invariant holds again.
\<close>

definition alloc_ok :: "nat \<Rightarrow> nat \<Rightarrow> nat \<Rightarrow> mipos_mm \<Rightarrow> nat list \<Rightarrow> nat \<Rightarrow> mipos_mm \<Rightarrow> bool" where
  "alloc_ok a n sz m us b m' \<longleftrightarrow>
     b \<noteq> 0 \<and> b \<notin> set us \<and> sz \<le> bsize (mm_heap m') b \<and>
     (\<forall>x \<in> set us. bsize (mm_heap m') x = bsize (mm_heap m) x) \<and> mm_data m' = mm_data m \<and>
     spares m us m' \<and> (\<exists>fs'. mm_inv a n m' fs' (add_second b us))"

lemma alloc_finish:
  assumes lists: "dll (mm_heap m) (mm_free_memory m) fs" "dll (mm_heap m) (mm_used_memory m) us"
      "distinct (b # fs @ us)" and b: "b \<noteq> 0" "mm_heap m b = Some d"
    and arena: "mm_arena_size m = n" "0 < a" "a + n < W" "n < 2 ^ 63"
      "tiles (bsize (mm_heap m)) a (a + n) bs" "set bs = insert b (set (fs @ us))"
  shows "\<exists>m'. mm_add2used b m = Some m' \<and> mm_inv a n m' fs (add_second b us) \<and>
    bsize (mm_heap m') = bsize (mm_heap m) \<and> mm_data m' = mm_data m \<and>
    (\<forall>x. x \<notin> insert b (set us) \<longrightarrow> mm_heap m' x = mm_heap m x)"
proof -
  obtain h' u' where h': "mm_add2used b m = Some (m\<lparr>mm_heap := h', mm_used_memory := u'\<rparr>)"
      "dll h' u' (add_second b us)" "relinked (insert b (set us)) (mm_heap m) h'"
    using mm_add2used [OF lists(2) _ _ b] lists(3) by auto
  have "dll h' (mm_free_memory m) fs"
    using lists h'(3) by (subst dll_cong [of fs h' "mm_heap m"]) (auto simp: relinked_def)
  moreover have sz: "bsize h' = bsize (mm_heap m)" using h'(3) by (rule relinked_bsize)
  ultimately have "mm_inv a n (m\<lparr>mm_heap := h', mm_used_memory := u'\<rparr>) fs (add_second b us)"
    using h'(2) lists(3) arena by (auto simp: mm_inv_def)
  moreover have "\<forall>x. x \<notin> insert b (set us) \<longrightarrow> h' x = mm_heap m x" using h'(3) by (simp add: relinked_def)
  ultimately show ?thesis using h'(1) sz by simp
qed

lemma alloc_aux_split:
  assumes inv: "mm_inv a n m fs us" and b: "b = worst_fit (bsize (mm_heap m)) sz fs 0" "b \<in> set fs"
    and big: "sz + 2 * MDESC_SIZE < bsize (mm_heap m) b"
  shows "\<exists>c m'. mm_alloc_aux sz m = Some (c, m') \<and> alloc_ok a n sz m us c m'"
proof -
  let ?h = "mm_heap m" and ?s = "bsize (mm_heap m) b"
  obtain d where d: "?h b = Some d" using mm_inv_mapped [OF inv, of b] b(2) by auto
  define rest where "rest = ?s - (sz + MDESC_SIZE)"
  define c where "c = b + MDESC_SIZE + rest"
  let ?h2 = "mdesc_init c sz (?h(b \<mapsto> d\<lparr>md_block_size := rest\<rparr>))"
  have bin: "b \<in> set (fs @ us)" using b(2) by simp
  note blk = mm_inv_block [OF inv bin]
  have sum: "?s = rest + MDESC_SIZE + sz" using big by (simp add: rest_def)
  then have "c < W" using blk(2) inv by (simp add: mm_inv_def c_def)
  then have addr: "(mdesc_get_data_addr b + rest) mod W = c" using blk(4) by (simp add: c_def)
  obtain bs where bs: "tiles (bsize ?h) a (a + n) bs" "set bs = set (fs @ us)"
    using inv by (auto simp: mm_inv_def)
  then obtain xs ys where split: "bs = xs @ b # ys" using bin by (metis in_set_conv_decomp)
  have tiles: "tiles ((bsize ?h)(b := rest, c := sz)) a (a + n) (xs @ b # c # ys)"
    using tiles_split [of "bsize ?h" a "a + n" xs b ys rest sz] bs(1) split sum by (simp add: c_def)
  have "c \<notin> set bs" using tiles_distinct [OF tiles] split by auto
  then have c: "c \<notin> set (fs @ us)" "c \<noteq> b" "c \<noteq> 0"
    using bs(2) blk(3) by (simp_all add: c_def mip_simps)
  have sz2: "bsize ?h2 = (bsize ?h)(b := rest, c := sz)"
    using d by (auto simp: mdesc_init_def bsize_def)
  have keep: "dll ?h2 p zs = dll ?h p zs" if "c \<notin> set zs" for p zs
  proof -
    have "dll ?h2 p zs = dll (?h(b \<mapsto> d\<lparr>md_block_size := rest\<rparr>)) p zs"
      by (rule dll_cong) (use that in \<open>auto simp: mdesc_init_def\<close>)
    with d show ?thesis by (simp add: dll_set_size)
  qed
  let ?m2 = "m\<lparr>mm_heap := ?h2\<rparr>"
  have "dll (mm_heap ?m2) (mm_free_memory ?m2) fs" "dll (mm_heap ?m2) (mm_used_memory ?m2) us"
      "distinct (c # fs @ us)" "mm_arena_size ?m2 = n" "0 < a" "a + n < W" "n < 2 ^ 63"
    using inv c keep by (simp_all add: mm_inv_def)
  moreover have "mm_heap ?m2 c = Some \<lparr>md_next = 0, md_prev = 0, md_block_size = sz\<rparr>"
    by (simp add: mdesc_init_def)
  moreover have "tiles (bsize (mm_heap ?m2)) a (a + n) (xs @ b # c # ys)"
      "set (xs @ b # c # ys) = insert c (set (fs @ us))"
    using tiles sz2 bs(2) split by auto
  ultimately obtain m' where m': "mm_add2used c ?m2 = Some m'" "mm_inv a n m' fs (add_second c us)"
      "bsize (mm_heap m') = bsize (mm_heap ?m2)" "mm_data m' = mm_data ?m2"
      "\<forall>x. x \<notin> insert c (set us) \<longrightarrow> mm_heap m' x = mm_heap ?m2 x"
    using alloc_finish [of ?m2 fs us c, OF _ _ _ c(3)] by blast
  have "sz \<le> ?s" using big by simp
  note test = split_test [OF this blk(5)]
  have "mm_find_free sz m = Some b" "(?s + W - (sz + MDESC_SIZE)) mod W = rest"
      "signed_size rest > int MDESC_SIZE"
    using mm_find_free [OF inv, of sz] b(1) big test by (simp_all add: rest_def)
  then have "mm_alloc_aux sz m = Some (c, m')"
    using blk(3) d m'(1)
    by (simp add: mm_alloc_aux_def test(1) Let_def addr getsize_bsize [of ?h b d, OF d]
        mdesc_setsize_def md_upd_def)
  moreover have same: "\<forall>x \<in> set us. bsize (mm_heap m') x = bsize ?h x"
    using m'(3) sz2 c(1) b(2) inv by (auto simp: mm_inv_def)
  moreover have "spares m us m'"
  proof -
    have "outside_used m us x" if "mm_heap m' x \<noteq> ?h x" for x
    proof (cases "x = c")
      case True
      have "outside_used m' (add_second c us) c" by (rule mm_inv_outside [OF m'(2)]) simp
      then have "outside_used m' us c" by (rule outside_used_subset) auto
      with outside_used_cong [OF same] True show ?thesis by simp
    next
      case False
      with that m'(5) have "x \<in> insert b (set us)" by (auto simp: mdesc_init_def split: if_splits)
      with b(2) show ?thesis by (intro mm_inv_outside [OF inv]) auto
    qed
    then show ?thesis by (simp add: spares_def)
  qed
  ultimately show ?thesis
    using c m' sz2 by (intro exI [of _ c] exI [of _ m']) (auto simp: alloc_ok_def)
qed

text \<open>Taking a block out of the free list, as \<^verbatim>\<open>mm_alloc_aux\<close> does when it does not split.\<close>

lemma take_out:
  assumes dll: "dll h p (xs @ b # ys)" and dist: "distinct (xs @ b # ys)"
  shows "\<exists>p' h0 h1.
    (if p = b then mdesc_next b h = Some p' \<and>
                   (if p' \<noteq> 0 then mdesc_setprev p' 0 h else Some h) = Some h0
     else p' = p \<and> h0 = h) \<and>
    mdesc_link_detach b h0 = Some h1 \<and> dll h1 p' (xs @ ys) \<and> relinked (set (xs @ ys)) h h1"
proof -
  obtain t where t: "h b = Some t" using dll_mapped [OF dll, of b] by auto
  show ?thesis
  proof (cases xs)
    case Nil
    then have "p = b" using dll_head [OF dll] by simp
    with Nil detach_head [of h b ys t] dll dist t show ?thesis by (auto simp: mdesc_next_def)
  next
    case (Cons x zs)
    then have "p = x" "x \<noteq> b" using dll_head [OF dll] dist by auto
    with link_detach [OF dll dist t] Cons show ?thesis by auto
  qed
qed

lemma alloc_aux_whole:
  assumes inv: "mm_inv a n m fs us" and b: "b = worst_fit (bsize (mm_heap m)) sz fs 0" "b \<in> set fs"
    and fit: "sz \<le> bsize (mm_heap m) b" "\<not> sz + 2 * MDESC_SIZE < bsize (mm_heap m) b"
  shows "\<exists>c m'. mm_alloc_aux sz m = Some (c, m') \<and> alloc_ok a n sz m us c m'"
proof -
  let ?h = "mm_heap m"
  obtain d where d: "?h b = Some d" using mm_inv_mapped [OF inv, of b] b(2) by auto
  obtain xs ys where fs: "fs = xs @ b # ys" using b(2) by (auto simp: in_set_conv_decomp)
  have dll: "dll ?h (mm_free_memory m) (xs @ b # ys)" and dist: "distinct (xs @ b # ys)"
    using inv fs by (auto simp: mm_inv_def)
  note blk = mm_inv_block [OF inv, of b]
  have bin: "b \<in> set (fs @ us)" using b(2) by simp
  obtain f' h0 h' where out:
      "if mm_free_memory m = b then mdesc_next b ?h = Some f' \<and>
           (if f' \<noteq> 0 then mdesc_setprev f' 0 ?h else Some ?h) = Some h0
       else f' = mm_free_memory m \<and> h0 = ?h"
      "mdesc_link_detach b h0 = Some h'"
    and h': "dll h' f' (xs @ ys)" "relinked (set (xs @ ys)) ?h h'"
    using take_out [OF dll dist] by blast
  let ?m1 = "m\<lparr>mm_free_memory := f', mm_heap := h'\<rparr>"
  have us': "dll h' (mm_used_memory m) us"
    using inv h'(2) fs by (subst dll_cong [of us h' ?h]) (auto simp: mm_inv_def relinked_def)
  have sz': "bsize h' = bsize ?h" using h'(2) by (rule relinked_bsize)
  have b': "h' b = Some d" using h'(2) dist d by (auto simp: relinked_def)
  obtain bs where bs: "tiles (bsize ?h) a (a + n) bs" "set bs = set (fs @ us)"
    using inv by (auto simp: mm_inv_def)
  obtain m' where m': "mm_add2used b ?m1 = Some m'" "mm_inv a n m' (xs @ ys) (add_second b us)"
      "bsize (mm_heap m') = bsize h'" "mm_data m' = mm_data m"
      "\<forall>x. x \<notin> insert b (set us) \<longrightarrow> mm_heap m' x = h' x"
    using alloc_finish [of ?m1 "xs @ ys" us b d n a bs] h'(1) us' inv fs b' bs sz' blk(3) [OF bin]
    by (auto simp: mm_inv_def)
  have "spares m us m'"
    by (rule spares_lists [OF inv]) (use m'(5) h'(2) fs in \<open>auto simp: relinked_def\<close>)
  note test = split_test [OF fit(1) blk(5) [OF bin]]
  have "mm_find_free sz m = Some b" "(b = 0) = False"
      "(signed_size ((bsize ?h b + W - (sz + MDESC_SIZE)) mod W) > int MDESC_SIZE) = False"
    using mm_find_free [OF inv, of sz] b(1) blk(3) [OF bin] fit(2) test(2) by simp_all
  then have "mm_alloc_aux sz m = Some (b, m')"
    using out m'(1)
    by (cases "mm_free_memory m = b")
      (simp_all add: mm_alloc_aux_def getsize_bsize [of ?h b d, OF d] test(1) Let_def del: if_split)
  moreover have "\<exists>fs'. mm_inv a n m' fs' (add_second b us)" using m'(2) by blast
  with \<open>spares m us m'\<close> have "alloc_ok a n sz m us b m'"
    using m'(3,4) sz' b(2) inv fit(1) blk(3) [OF bin] unfolding alloc_ok_def by (auto simp: mm_inv_def)
  ultimately show ?thesis by blast
qed

text \<open>One attempt to allocate: it fails exactly when every free block is too small.\<close>

lemma mm_alloc_aux:
  assumes inv: "mm_inv a n m fs us"
  shows "if \<forall>x \<in> set fs. bsize (mm_heap m) x < sz then mm_alloc_aux sz m = Some (0, m)
    else \<exists>b m'. mm_alloc_aux sz m = Some (b, m') \<and> alloc_ok a n sz m us b m'"
proof -
  let ?b = "worst_fit (bsize (mm_heap m)) sz fs 0"
  have "0 \<notin> set fs" using inv dll_nonzero by (auto simp: mm_inv_def)
  note spec = worst_fit_spec [OF this, of 0 sz "bsize (mm_heap m)"]
  show ?thesis
  proof (cases "?b = 0")
    case True
    with spec mm_find_free [OF inv, of sz] show ?thesis by (simp add: mm_alloc_aux_def)
  next
    case False
    with spec have b: "?b \<in> set fs" "sz \<le> bsize (mm_heap m) ?b"
      and some: "\<not> (\<forall>x \<in> set fs. bsize (mm_heap m) x < sz)" by auto
    with alloc_aux_split [OF inv refl b(1)] alloc_aux_whole [OF inv refl b] show ?thesis by auto
  qed
qed

end
