(* ===== verification/Mipos_Malloc_Ops.thy ===== *)
theory Mipos_Malloc_Ops
  imports Mipos_Malloc_Inv
begin

text \<open>
  Release and compaction in the heap manager, on the invariant of \<open>Mipos_Malloc_Inv\<close>: a
  release moves one block to the free list, a compaction merges neighbouring free blocks
  until one of the size asked for appears or no two free blocks touch. Both always end.
\<close>

subsection \<open>Release\<close>

lemma link_second:
  assumes fs: "dll h p fs" "distinct fs" "b \<notin> set fs"
    and b: "b \<noteq> 0" "h b = Some \<lparr>md_next = 0, md_prev = 0, md_block_size = s\<rparr>"
  shows "if p = 0 then dll h b (add_second b fs)
    else \<exists>h'. mdesc_link_after b p h = Some h' \<and> dll h' p (add_second b fs) \<and>
           relinked (insert b (set fs)) h h'"
proof (cases fs)
  case Nil
  then have "p = 0" using fs by (simp add: dll_def)
  with Nil b show ?thesis by (simp add: dll_def)
next
  case (Cons u ut)
  then have u: "p = u" "u \<noteq> 0" using fs by (auto simp: dll_def)
  moreover have "set (u # b # ut) = insert b (set fs)" using Cons by auto
  moreover obtain h' where "mdesc_link_after b u h = Some h'" "dll h' u (u # b # ut)"
      "relinked (set (u # b # ut)) h h'"
    using link_after_head [of h u ut b] fs b u Cons by auto
  ultimately show ?thesis using Cons by auto
qed

lemma mm_free_used:
  assumes inv: "mm_inv a n m fs us" and us: "us = xs @ b # ys"
  shows "\<exists>m'. mipos_mm_free (b + MDESC_SIZE) m = Some (1, m') \<and>
    mm_inv a n m' (add_second b fs) (xs @ ys) \<and>
    bsize (mm_heap m') = bsize (mm_heap m) \<and> mm_data m' = mm_data m \<and> spares m us m'"
proof -
  let ?h = "mm_heap m"
  have bin: "b \<in> set (fs @ us)" using us by simp
  note blk = mm_inv_block [OF inv bin]
  have dll: "dll ?h (mm_used_memory m) (xs @ b # ys)" and dist: "distinct (xs @ b # ys)"
    and dfs: "dll ?h (mm_free_memory m) fs" "distinct fs" "b \<notin> set fs" "set fs \<inter> set us = {}"
    using inv us by (auto simp: mm_inv_def)
  obtain d where d: "?h b = Some d" "bsize ?h b = md_block_size d" using mm_inv_mapped [OF inv bin] by auto
  obtain u' h0 h1 where out:
      "if mm_used_memory m = b then mdesc_next b ?h = Some u' \<and>
           (if u' \<noteq> 0 then mdesc_setprev u' 0 ?h else Some ?h) = Some h0
       else u' = mm_used_memory m \<and> h0 = ?h"
      "mdesc_link_detach b h0 = Some h1"
    and h1: "dll h1 u' (xs @ ys)" "relinked (set (xs @ ys)) ?h h1"
    using take_out [OF dll dist] by blast
  let ?h2 = "h1(b \<mapsto> \<lparr>md_next = 0, md_prev = 0, md_block_size = md_block_size d\<rparr>)"
  have b1: "h1 b = Some d" using h1(2) dist d by (auto simp: relinked_def)
  have iso: "mdesc_isolate b h1 = Some ?h2" using b1 by (cases d) (simp add: mdesc_isolate_def md_upd_def)
  have sz2: "bsize ?h2 = bsize ?h"
    using relinked_bsize [OF h1(2)] d(2) by (auto simp: bsize_def fun_eq_iff)
  have us2: "dll ?h2 u' (xs @ ys)" using h1(1) dist by (subst dll_cong [of _ ?h2 h1]) auto
  have fs2: "dll ?h2 (mm_free_memory m) fs"
    using dfs h1(2) us by (subst dll_cong [of _ ?h2 ?h]) (auto simp: relinked_def)
  have found: "mm_find_used (b + MDESC_SIZE) m = Some b" using mm_find_used [OF inv] us by auto
  let ?m2 = "m\<lparr>mm_used_memory := u', mm_heap := ?h2\<rparr>"
  have upto: "mipos_mm_free (b + MDESC_SIZE) m =
      (if mm_free_memory m = 0 then Some (1, ?m2\<lparr>mm_free_memory := b\<rparr>)
       else do { h3 \<leftarrow> mdesc_link_after b (mm_free_memory m) ?h2; Some (1, ?m2\<lparr>mm_heap := h3\<rparr>) })"
    using out blk(3) by (cases "mm_used_memory m = b")
      (simp_all add: mipos_mm_free_def found iso eq_commute [of b "mm_used_memory m"] del: if_split fun_upd_apply)
  have dist': "distinct (add_second b fs @ xs @ ys)" "set (add_second b fs @ xs @ ys) = set (fs @ us)"
    using dist dfs us by auto
  have frame: "?h2 x = ?h x" if "x \<notin> set (fs @ us)" for x
    using that h1(2) us by (auto simp: relinked_def)
  show ?thesis
  proof (cases "mm_free_memory m = 0")
    case True
    with link_second [OF fs2 dfs(2,3) blk(3), of "md_block_size d"] have "dll ?h2 b (add_second b fs)" by simp
    moreover have "spares m us (?m2\<lparr>mm_free_memory := b\<rparr>)"
      by (rule spares_lists [OF inv]) (use frame in simp)
    ultimately show ?thesis using True upto us2 sz2 inv dist' by (simp add: mm_inv_def)
  next
    case False
    with link_second [OF fs2 dfs(2,3) blk(3), of "md_block_size d"] obtain h3 where h3:
        "mdesc_link_after b (mm_free_memory m) ?h2 = Some h3" "dll h3 (mm_free_memory m) (add_second b fs)"
        "relinked (insert b (set fs)) ?h2 h3" by auto
    have "dll h3 u' (xs @ ys)"
      using us2 h3(3) dist dfs(4) us by (subst dll_cong [of _ h3 ?h2]) (auto simp: relinked_def)
    moreover have "h3 x = ?h x" if "x \<notin> set (fs @ us)" for x
    proof -
      have "h3 x = ?h2 x" using that h3(3) bin unfolding relinked_def by auto
      with frame [OF that] show ?thesis by (simp only:)
    qed
    then have "spares m us (?m2\<lparr>mm_heap := h3\<rparr>)" by (intro spares_lists [OF inv]) simp
    ultimately show ?thesis using False upto h3(1,2) relinked_bsize [OF h3(3)] sz2 inv dist'
      by (simp add: mm_inv_def)
  qed
qed

lemma mm_free_other:
  assumes "mm_inv a n m fs us" "\<not> (\<exists>x \<in> set us. p = x + MDESC_SIZE)"
  shows "mipos_mm_free p m = Some (0, m)"
  using mm_find_used [OF assms(1), of p] assms(2) by (simp add: mipos_mm_free_def)

subsection \<open>Merging two neighbours\<close>

definition touch :: "(nat \<Rightarrow> nat) \<Rightarrow> nat \<Rightarrow> nat \<Rightarrow> bool" where
  "touch sz x y \<longleftrightarrow> x + MDESC_SIZE + sz x = y \<or> y + MDESC_SIZE + sz y = x"

lemma mm_find_cont_loop:
  assumes "dseg h p prv xs 0 lst" "h b = Some d"
  shows "mm_find_cont_loop h b p =
    Some (case List.find (\<lambda>i. b \<noteq> i \<and> ((mdesc_get_data_addr i + bsize h i) mod W = b \<or>
                                     (mdesc_get_data_addr b + bsize h b) mod W = i)) xs
          of None \<Rightarrow> 0 | Some i \<Rightarrow> i)"
  using assms
proof (induction xs arbitrary: p prv)
  case Nil
  then show ?case by (subst mm_find_cont_loop.simps) simp
next
  case (Cons x xs)
  then obtain e where e: "p = x" "x \<noteq> 0" "h x = Some e" "dseg h (md_next e) x xs 0 lst" by auto
  from Cons.IH [OF e(4) Cons.prems(2)] e Cons.prems(2) show ?case
    by (subst mm_find_cont_loop.simps, cases "b = x")
      (simp_all add: mdesc_next_def mm_contiguous_def getsize_bsize)
qed

lemma mm_find_cont:
  assumes inv: "mm_inv a n m fs us" and b: "b \<in> set fs"
  shows "\<exists>i. mm_find_cont_free_pred_mb b m = Some i \<and>
    (if i = 0 then \<forall>y \<in> set fs. \<not> touch (bsize (mm_heap m)) b y
     else i \<in> set fs \<and> touch (bsize (mm_heap m)) i b)"
proof -
  let ?h = "mm_heap m"
  let ?P = "\<lambda>i. b \<noteq> i \<and> ((mdesc_get_data_addr i + bsize ?h i) mod W = b \<or>
                         (mdesc_get_data_addr b + bsize ?h b) mod W = i)"
  have P: "?P i = touch (bsize ?h) b i" if "i \<in> set fs" for i
    using mm_inv_block(2,4) [OF inv, of i] mm_inv_block(2,4) [OF inv, of b] that b inv
    by (auto simp: touch_def mm_inv_def mip_simps)
  obtain d where d: "?h b = Some d" using mm_inv_mapped [OF inv, of b] b by auto
  obtain lst where "dseg ?h (mm_free_memory m) 0 fs 0 lst" using inv by (auto simp: mm_inv_def dll_def)
  from mm_find_cont_loop [OF this d]
  have find: "mm_find_cont_free_pred_mb b m = Some (case List.find ?P fs of None \<Rightarrow> 0 | Some i \<Rightarrow> i)"
    by (simp add: mm_find_cont_free_pred_mb_def)
  show ?thesis
  proof (cases "List.find ?P fs")
    case None
    then have "\<forall>y \<in> set fs. \<not> ?P y" by (simp add: find_None_iff)
    with P find None show ?thesis by simp
  next
    case (Some i)
    then have "i \<in> set fs" "?P i" by (auto simp: find_Some_iff)
    moreover from this have "i \<noteq> 0" using mm_inv_block(3) [OF inv, of i] by simp
    ultimately show ?thesis using P [of i] find Some by (auto simp: touch_def)
  qed
qed

text \<open>Merging \<open>lo\<close> with its right neighbour \<open>hi\<close>, wherever the two are in the free list.\<close>

lemma mm_merge_order:
  assumes inv: "mm_inv a n m fs us" and lo: "lo \<in> set fs" and fs: "fs = xs @ hi # ys"
    and adj: "lo + MDESC_SIZE + bsize (mm_heap m) lo = hi" and ib: "min i b = lo" "max i b = hi"
  shows "\<exists>m'. mm_find_cont_free_mb i b m = Some (lo, m') \<and> mm_inv a n m' (xs @ ys) us \<and>
    bsize (mm_heap m') =
      (bsize (mm_heap m))(lo := bsize (mm_heap m) lo + bsize (mm_heap m) hi + MDESC_SIZE) \<and>
    mm_data m' = mm_data m \<and> spares m us m'"
proof -
  let ?h = "mm_heap m" and ?s = "bsize (mm_heap m) lo + bsize (mm_heap m) hi + MDESC_SIZE"
  have hi: "hi \<in> set fs" "lo \<noteq> hi" using fs adj by (auto simp: mip_simps)
  obtain dl dh where dl: "?h lo = Some dl" and dh: "?h hi = Some dh"
    using mm_inv_mapped [OF inv, of lo] mm_inv_mapped [OF inv, of hi] lo hi(1) by auto
  let ?h1 = "?h(lo \<mapsto> dl\<lparr>md_block_size := ?s\<rparr>)"
  have dll: "dll ?h1 (mm_free_memory m) (xs @ hi # ys)" "distinct (xs @ hi # ys)"
    using inv fs dl by (auto simp: mm_inv_def dll_set_size)
  have dh1: "?h1 hi = Some dh" using dh hi(2) by simp
  define f where "f = (if xs = [] then md_next dh else mm_free_memory m)"
  obtain h2 where h2: "mdesc_link_detach hi ?h1 = Some h2" "dll h2 f (xs @ ys)"
      "relinked (set (xs @ ys)) ?h1 h2"
    using link_detach [OF dll dh1] unfolding f_def by blast
  let ?h3 = "h2(hi \<mapsto> dh\<lparr>md_next := 0, md_prev := 0\<rparr>)"
  have dh2: "h2 hi = Some dh" using h2(3) dh1 dll(2) by (auto simp: relinked_def)
  have "?s < W" using mm_inv_block(2) [OF inv, of hi] hi(1) inv adj by (simp add: mm_inv_def)
  then have merge: "mdesc_merge i b ?h = Some (lo, ?h3)"
    using ib dl dh dh2 h2(1) hi(2)
    by (cases "i \<le> b") (auto simp: mdesc_merge_def getsize_bsize mdesc_setsize_def md_upd_def
        mdesc_isolate_def add.commute min_def max_def)
  have head: "(if mm_free_memory m = hi
      then do { n \<leftarrow> mdesc_next hi ?h; Some (if n \<noteq> 0 then n else lo) } else Some (mm_free_memory m)) = Some f"
  proof (cases xs)
    case Nil
    then have "mm_free_memory m = hi" "xs @ ys \<noteq> []" using dll_head [OF dll(1)] lo fs hi(2) by auto
    moreover from this dll_head_zero [OF h2(2)] Nil have "md_next dh \<noteq> 0" by (auto simp: f_def)
    ultimately show ?thesis using dh Nil by (simp add: mdesc_next_def f_def)
  next
    case (Cons x zs)
    then have "mm_free_memory m \<noteq> hi" using dll_head [OF dll(1)] dll(2) by auto
    with Cons show ?thesis by (simp add: f_def)
  qed
  let ?m' = "m\<lparr>mm_free_memory := f, mm_heap := ?h3\<rparr>"
  have eq: "mm_find_cont_free_mb i b m = Some (lo, ?m')"
    unfolding mm_find_cont_free_mb_def ib head merge by simp
  have sz: "bsize ?h3 = (bsize ?h)(lo := ?s)"
    using relinked_bsize [OF h2(3)] dh dl hi(2) by (auto simp: bsize_def fun_eq_iff)
  have fs3: "dll ?h3 f (xs @ ys)" using h2(2) dll(2) by (subst dll_cong [of _ ?h3 h2]) auto
  have "?h3 x = ?h x" if "x \<in> set us" for x
  proof -
    have "x \<notin> set fs" using that inv by (auto simp: mm_inv_def)
    with fs lo have "x \<noteq> lo" "x \<noteq> hi" "x \<notin> set (xs @ ys)" by auto
    with h2(3) show ?thesis by (simp add: relinked_def)
  qed
  with inv have us3: "dll ?h3 (mm_used_memory m) us"
    by (subst dll_cong [of us ?h3 ?h]) (simp_all add: mm_inv_def)
  obtain bs where bs: "tiles (bsize ?h) a (a + n) bs" "set bs = set (fs @ us)"
    using inv by (auto simp: mm_inv_def)
  then obtain zs ws where z: "bs = zs @ lo # hi # ws"
    using tiles_next [OF bs(1), of lo hi] lo hi(1) adj by auto
  have "tiles (bsize ?h3) a (a + n) (zs @ lo # ws)"
    using tiles_merge [of "bsize ?h" a "a + n" zs lo hi ws] bs(1) z by (simp add: sz)
  moreover have "set (zs @ lo # ws) = set ((xs @ ys) @ us)"
    using bs(2) z fs lo hi(2) dll(2) tiles_distinct [OF bs(1)] inv by (auto simp: mm_inv_def)
  ultimately have "mm_inv a n ?m' (xs @ ys) us"
    using inv fs3 us3 fs by (auto simp: mm_inv_def)
  moreover have "spares m us ?m'"
    by (rule spares_lists [OF inv]) (use h2(3) fs lo in \<open>auto simp: relinked_def\<close>)
  ultimately show ?thesis using eq sz by simp
qed

lemma mm_merge:
  assumes inv: "mm_inv a n m fs us" and ib: "i \<in> set fs" "b \<in> set fs" "touch (bsize (mm_heap m)) i b"
  shows "\<exists>l m' fs'. mm_find_cont_free_mb i b m = Some (l, m') \<and> mm_inv a n m' fs' us \<and>
    length fs' < length fs \<and> l \<in> set fs' \<and> set fs' \<subseteq> set fs \<and>
    bsize (mm_heap m') =
      (bsize (mm_heap m))(l := bsize (mm_heap m) i + bsize (mm_heap m) b + MDESC_SIZE) \<and>
    mm_data m' = mm_data m \<and> spares m us m'"
proof -
  let ?lo = "min i b" and ?hi = "max i b"
  have adj: "?lo + MDESC_SIZE + bsize (mm_heap m) ?lo = ?hi"
    using ib(3) by (auto simp: touch_def mip_simps)
  have in_fs: "?lo \<in> set fs" "?hi \<in> set fs" using ib by (auto simp: min_def max_def)
  then obtain xs ys where fs: "fs = xs @ ?hi # ys" by (auto simp: in_set_conv_decomp)
  from mm_merge_order [OF inv in_fs(1) fs adj refl refl] obtain m' where m':
      "mm_find_cont_free_mb i b m = Some (?lo, m')" "mm_inv a n m' (xs @ ys) us"
      "bsize (mm_heap m') =
        (bsize (mm_heap m))(?lo := bsize (mm_heap m) ?lo + bsize (mm_heap m) ?hi + MDESC_SIZE)"
      "mm_data m' = mm_data m" "spares m us m'" by blast
  have "?lo \<noteq> ?hi" using adj by (auto simp: mip_simps)
  then have "?lo \<in> set (xs @ ys)" using in_fs(1) arg_cong [OF fs, of set] by auto
  moreover have "length (xs @ ys) < length fs" "set (xs @ ys) \<subseteq> set fs"
    using arg_cong [OF fs, of length] arg_cong [OF fs, of set] by auto
  moreover have "bsize (mm_heap m) ?lo + bsize (mm_heap m) ?hi = bsize (mm_heap m) i + bsize (mm_heap m) b"
    by (simp add: min_def max_def)
  ultimately show ?thesis using m' by metis
qed

subsection \<open>Compaction\<close>

text \<open>
  The outcome of a compaction for \<open>need\<close> bytes that started with every free block smaller
  than \<open>need\<close>: the lists are as before up to merged free blocks, and either a free block of
  the reported size is large enough, or all are still too small and no two of them touch.
\<close>

definition compacted :: "nat \<Rightarrow> nat \<Rightarrow> nat \<Rightarrow> mipos_mm \<Rightarrow> nat list \<Rightarrow> nat \<Rightarrow> mipos_mm \<Rightarrow> nat list \<Rightarrow> bool" where
  "compacted a n need m us bc m' fs' \<longleftrightarrow>
     mm_inv a n m' fs' us \<and> mm_data m' = mm_data m \<and> spares m us m' \<and>
     (\<forall>x \<in> set us. bsize (mm_heap m') x = bsize (mm_heap m) x) \<and>
     (if need \<le> bc then \<exists>x \<in> set fs'. bsize (mm_heap m') x = bc
      else (\<forall>x \<in> set fs'. bsize (mm_heap m') x < need) \<and>
           (\<forall>x \<in> set fs'. \<forall>y \<in> set fs'. \<not> touch (bsize (mm_heap m')) x y))"

lemma compacted_trans:
  assumes "compacted a n need m1 us bc m' fs'" "mm_data m1 = mm_data m"
    "\<forall>x \<in> set us. bsize (mm_heap m1) x = bsize (mm_heap m) x" "spares m us m1"
  shows "compacted a n need m us bc m' fs'"
  using assms spares_trans [OF assms(4) _ assms(3)] by (auto simp: compacted_def)

lemma mm_compact_loop:
  assumes "mm_inv a n m (xs @ ys) us" "p = (if ys = [] then 0 else hd ys)"
    "\<forall>x \<in> set xs. \<forall>y \<in> set (xs @ ys). \<not> touch (bsize (mm_heap m)) x y"
    "\<forall>x \<in> set (xs @ ys). bsize (mm_heap m) x < need" "bc < need"
  shows "\<exists>bc' m' fs'. mm_compact_loop need p bc m = Some (bc', m') \<and> compacted a n need m us bc' m' fs'"
  using assms
proof (induction "length (xs @ ys)" arbitrary: xs ys p bc m rule: less_induct)
  case less
  note outer = less.hyps
  show ?case
    using less.prems outer
  proof (induction ys arbitrary: xs p)
    case Nil
    then have "compacted a n need m us bc m xs" by (simp add: compacted_def)
    with Nil show ?case by (subst mm_compact_loop.simps) auto
  next
    case (Cons y ys)
    let ?fs = "xs @ y # ys" and ?sz = "bsize (mm_heap m)"
    have y: "p = y" "y \<noteq> 0" using Cons.prems(1,2) mm_inv_block(3) [of a n m ?fs us y] by auto
    obtain i where i: "mm_find_cont_free_pred_mb y m = Some i"
        "if i = 0 then \<forall>z \<in> set ?fs. \<not> touch ?sz y z else i \<in> set ?fs \<and> touch ?sz i y"
      using mm_find_cont [OF Cons.prems(1), of y] by auto
    show ?case
    proof (cases "i = 0")
      case True
      obtain d where d: "mm_heap m y = Some d" "md_next d = (if ys = [] then 0 else hd ys)"
        using Cons.prems(1) by (auto simp: mm_inv_def dll_def dseg_append dest: dseg_head)
      have "\<forall>x \<in> set (xs @ [y]). \<forall>z \<in> set ((xs @ [y]) @ ys). \<not> touch ?sz x z"
        using Cons.prems(3) i(2) True by auto
      then show ?thesis
        using Cons.IH [of "xs @ [y]" "md_next d"] Cons.prems d y True i(1)
        by (subst mm_compact_loop.simps) (simp add: mdesc_next_def)
    next
      case False
      with i(2) mm_merge [OF Cons.prems(1), of i y] obtain l m1 fs' where m1:
          "mm_find_cont_free_mb i y m = Some (l, m1)" "mm_inv a n m1 fs' us" "length fs' < length ?fs"
          "l \<in> set fs'" "set fs' \<subseteq> set ?fs" "bsize (mm_heap m1) = ?sz(l := ?sz i + ?sz y + MDESC_SIZE)"
          "mm_data m1 = mm_data m" "spares m us m1" by auto
      let ?bc = "bsize (mm_heap m1) l"
      obtain d where "mm_heap m1 l = Some d" using mm_inv_mapped [OF m1(2), of l] m1(4) by auto
      then have step: "mm_compact_loop need p bc m =
          (if need \<le> ?bc then Some (?bc, m1) else mm_compact_loop need (mm_free_memory m1) ?bc m1)"
        using y i(1) False m1(1) Cons.prems(5)
        by (subst mm_compact_loop.simps) (simp add: getsize_bsize [of "mm_heap m1" l d])
      have same: "\<forall>x \<in> set us. bsize (mm_heap m1) x = ?sz x"
        using m1(2,4,6) by (auto simp: mm_inv_def)
      show ?thesis
      proof (cases "need \<le> ?bc")
        case True
        then have "compacted a n need m us ?bc m1 fs'" using m1 same by (auto simp: compacted_def)
        with True step show ?thesis by auto
      next
        case False
        have "mm_free_memory m1 = (if fs' = [] then 0 else hd fs')"
          using m1(2) by (auto simp: mm_inv_def dest: dll_head)
        moreover have "\<forall>x \<in> set fs'. bsize (mm_heap m1) x < need"
          using False m1(5,6) Cons.prems(4) by auto
        ultimately obtain bc' m' fs2 where "mm_compact_loop need (mm_free_memory m1) ?bc m1 = Some (bc', m')"
            "compacted a n need m1 us bc' m' fs2"
          using Cons.prems(6) [of "[]" fs' m1 "mm_free_memory m1" ?bc] m1(2,3) False by auto
        with False step m1(7,8) same show ?thesis by (auto intro: compacted_trans)
      qed
    qed
  qed
qed

lemma mm_compact_freemem:
  assumes "mm_inv a n m fs us" "\<forall>x \<in> set fs. bsize (mm_heap m) x < need" "0 < need"
  shows "\<exists>bc' m' fs'. mipos_mm_compact_freemem need m = Some (bc', m') \<and>
    compacted a n need m us bc' m' fs'"
proof -
  have "mm_free_memory m = (if fs = [] then 0 else hd fs)"
    using assms(1) by (auto simp: mm_inv_def dest: dll_head)
  with mm_compact_loop [of a n m "[]" fs us _ need 0] assms show ?thesis
    by (simp add: mipos_mm_compact_freemem_def)
qed

end
