(* ===== verification/Mipos_Heap.thy ===== *)
theory Mipos_Heap
  imports Mipos_Malloc_Ops
begin

text \<open>
  What the heap manager promises its clients: a successful allocation returns a fresh block
  inside the arena, apart from every other one; a failure means that no free block is
  large enough even after compaction; a release forgets exactly one block; the
  report of \<^verbatim>\<open>mipos_mm_dbg_print\<close> always adds up. The contract is the locale
  \<open>heap_manager\<close>, interpreted on the model, and a run of any requests refines it.
\<close>

subsection \<open>The state of an allocator, seen through its own look-ups\<close>

definition mm_ok :: "nat \<Rightarrow> nat \<Rightarrow> mipos_mm \<Rightarrow> bool" where
  "mm_ok a n m \<longleftrightarrow> (\<exists>fs us. mm_inv a n m fs us)"

definition mm_live :: "mipos_mm \<Rightarrow> nat \<Rightarrow> bool" where
  "mm_live m p \<longleftrightarrow> mipos_mm_is_in p m = Some True"

definition mm_block_size :: "mipos_mm \<Rightarrow> nat \<Rightarrow> nat" where
  "mm_block_size m p = (case get_part_ptr_allocated_mem_size p m of None \<Rightarrow> 0 | Some s \<Rightarrow> s)"

lemma mm_live_iff:
  assumes "mm_inv a n m fs us"
  shows "mm_live m p \<longleftrightarrow> (\<exists>x \<in> set us. p = x + MDESC_SIZE)"
  using mm_find_used [OF assms, of p] mm_inv_block(3) [OF assms]
  by (auto simp: mm_live_def mipos_mm_is_in_def)

lemma mm_block_size_live:
  assumes inv: "mm_inv a n m fs us" and x: "x \<in> set us"
  shows "mm_block_size m (x + MDESC_SIZE) = bsize (mm_heap m) x"
    and "get_part_ptr_allocated_mem_size (x + MDESC_SIZE) m = Some (bsize (mm_heap m) x)"
proof -
  obtain d where d: "mm_heap m x = Some d" using mm_inv_mapped [OF inv, of x] x by auto
  have "mm_find_used (x + MDESC_SIZE) m = Some x" "x \<noteq> 0"
    using mm_find_used [OF inv] mm_inv_block(3) [OF inv, of x] x by auto
  then show "get_part_ptr_allocated_mem_size (x + MDESC_SIZE) m = Some (bsize (mm_heap m) x)"
    by (simp add: get_part_ptr_allocated_mem_size_def getsize_bsize [of "mm_heap m" x d, OF d])
  then show "mm_block_size m (x + MDESC_SIZE) = bsize (mm_heap m) x" by (simp add: mm_block_size_def)
qed

text \<open>Two states that agree on the used blocks agree on every look-up.\<close>

lemma same_used_blocks:
  assumes "mm_inv a n m fs us" "mm_inv a n m' fs' us" "\<forall>x \<in> set us. bsize (mm_heap m') x = bsize (mm_heap m) x"
  shows "mm_live m' p = mm_live m p" "mm_live m p \<Longrightarrow> mm_block_size m' p = mm_block_size m p"
  using assms mm_block_size_live(1) [OF assms(1)] mm_block_size_live(1) [OF assms(2)]
  by (auto simp: mm_live_iff [OF assms(1)] mm_live_iff [OF assms(2)])

subsection \<open>Allocation\<close>

lemma align4_bound: "sz \<le> align4 sz" if "sz + 3 < W"
  using that by (simp add: align4_def Let_def)

lemma mm_alloc_result:
  assumes inv: "mm_inv a n m fs us" and sz: "0 < sz" and need: "0 < align4 sz"
  shows "\<exists>p m'. mipos_mm_alloc sz m = Some (p, m') \<and>
    (if p = 0
     then \<exists>fs'. mm_inv a n m' fs' us \<and> mm_data m' = mm_data m \<and> spares m us m' \<and>
            (\<forall>x \<in> set us. bsize (mm_heap m') x = bsize (mm_heap m) x) \<and>
            (\<forall>x \<in> set fs'. bsize (mm_heap m') x < align4 sz) \<and>
            (\<forall>x \<in> set fs'. \<forall>y \<in> set fs'. \<not> touch (bsize (mm_heap m')) x y)
     else \<exists>b. p = b + MDESC_SIZE \<and> alloc_ok a n (align4 sz) m us b m')"
proof (cases "\<forall>x \<in> set fs. bsize (mm_heap m) x < align4 sz")
  case False
  with mm_alloc_aux [OF inv, of "align4 sz"] obtain b m' where b:
      "mm_alloc_aux (align4 sz) m = Some (b, m')" "alloc_ok a n (align4 sz) m us b m'" by auto
  moreover from this have "b \<noteq> 0" "mdesc_get_data_addr b = b + MDESC_SIZE"
    by (auto simp: alloc_ok_def intro: mm_inv_block(4))
  ultimately show ?thesis using sz by (auto simp: mipos_mm_alloc_def mip_simps)
next
  case True
  with mm_alloc_aux [OF inv, of "align4 sz"] have first: "mm_alloc_aux (align4 sz) m = Some (0, m)" by simp
  obtain bc m1 fs1 where c: "mipos_mm_compact_freemem (align4 sz) m = Some (bc, m1)"
      "compacted a n (align4 sz) m us bc m1 fs1"
    using mm_compact_freemem [OF inv True need] by blast
  show ?thesis
  proof (cases "align4 sz \<le> bc")
    case False
    with c sz first show ?thesis by (auto simp: mipos_mm_alloc_def compacted_def)
  next
    case fits: True
    with c(2) have "mm_inv a n m1 fs1 us" "\<not> (\<forall>x \<in> set fs1. bsize (mm_heap m1) x < align4 sz)"
      by (auto simp: compacted_def not_less)
    with mm_alloc_aux [of a n m1 fs1 us "align4 sz"] obtain b m' where b:
        "mm_alloc_aux (align4 sz) m1 = Some (b, m')" "alloc_ok a n (align4 sz) m1 us b m'" by auto
    then have "alloc_ok a n (align4 sz) m us b m'"
      using c(2) by (auto simp: compacted_def alloc_ok_def intro: spares_trans)
    moreover from this have "b \<noteq> 0" "mdesc_get_data_addr b = b + MDESC_SIZE"
      by (auto simp: alloc_ok_def intro: mm_inv_block(4))
    ultimately show ?thesis using b(1) c(1) fits sz first by (auto simp: mipos_mm_alloc_def mip_simps)
  qed
qed

subsection \<open>The contract\<close>

text \<open>
  The abstract heap is a map from the addresses handed out to the sizes behind them. A
  request is an allocation or a release; each allocation may fail, or pick any region of the
  arena that is apart from the live ones.
\<close>

type_synonym regions = "nat \<rightharpoonup> nat"

datatype heap_req = Req_alloc nat | Req_free nat

definition apart :: "regions \<Rightarrow> nat \<Rightarrow> nat \<Rightarrow> bool" where
  "apart A p s \<longleftrightarrow> (\<forall>q t. A q = Some t \<longrightarrow> q \<noteq> p \<and> (p + s \<le> q \<or> q + t \<le> p))"

inductive heap_step :: "nat \<Rightarrow> nat \<Rightarrow> regions \<Rightarrow> heap_req \<Rightarrow> nat \<Rightarrow> regions \<Rightarrow> bool" for lo hi where
  no_room: "heap_step lo hi A (Req_alloc k) 0 A"
| region: "apart A p s \<Longrightarrow> k \<le> s \<Longrightarrow> lo \<le> p \<Longrightarrow> p + s \<le> hi \<Longrightarrow> 0 < k \<Longrightarrow> 0 < p \<Longrightarrow>
     heap_step lo hi A (Req_alloc k) p (A(p \<mapsto> s))"
| release: "heap_step lo hi A (Req_free p) (if p \<in> dom A then 1 else 0) (A(p := None))"

inductive heap_steps :: "nat \<Rightarrow> nat \<Rightarrow> regions \<Rightarrow> heap_req list \<Rightarrow> nat list \<Rightarrow> regions \<Rightarrow> bool" for lo hi where
  no_more: "heap_steps lo hi A [] [] A"
| more: "heap_step lo hi A r v B \<Longrightarrow> heap_steps lo hi B rs vs C \<Longrightarrow> heap_steps lo hi A (r # rs) (v # vs) C"

inductive_cases heap_step_cases: "heap_step lo hi A r v B"

definition separated :: "nat \<Rightarrow> nat \<Rightarrow> regions \<Rightarrow> bool" where
  "separated lo hi A \<longleftrightarrow>
     (\<forall>p s. A p = Some s \<longrightarrow> lo \<le> p \<and> p + s \<le> hi \<and> apart (A(p := None)) p s)"

lemma heap_step_separated:
  assumes "heap_step lo hi A r v B" "separated lo hi A"
  shows "separated lo hi B"
  using assms
proof (cases rule: heap_step.cases)
  case region
  with assms(2) show ?thesis unfolding separated_def apart_def by (auto split: if_splits)
next
  case release
  with assms(2) show ?thesis unfolding separated_def apart_def by (auto split: if_splits)
qed (use assms(2) in simp)

lemma heap_steps_separated:
  "heap_steps lo hi A rs vs B \<Longrightarrow> separated lo hi A \<Longrightarrow> separated lo hi B"
  by (induction rule: heap_steps.induct) (auto intro: heap_step_separated)

text \<open>The bytes that belong to the callers.\<close>

definition live_bytes :: "regions \<Rightarrow> nat set" where
  "live_bytes A = {i. \<exists>p s. A p = Some s \<and> p \<le> i \<and> i < p + s}"

text \<open>The results of a sequence of requests, oldest first.\<close>

fun run_requests :: "(heap_req \<Rightarrow> 's \<Rightarrow> (nat \<times> 's) option) \<Rightarrow> heap_req list \<Rightarrow> 's \<Rightarrow> (nat list \<times> 's) option" where
  "run_requests request [] s = Some ([], s)"
| "run_requests request (r # rs) s =
     (case request r s of None \<Rightarrow> None
      | Some (v, s1) \<Rightarrow> map_option (\<lambda>(vs, s2). (v # vs, s2)) (run_requests request rs s1))"

text \<open>
  An allocator implements the contract when each request ends, ends as the contract allows
  and writes no byte that belongs to a caller, and when its own records lie in the arena
  apart from those bytes.
\<close>

locale heap_manager =
  fixes ok :: "'s \<Rightarrow> bool" and abs :: "'s \<Rightarrow> regions" and legal :: "heap_req \<Rightarrow> bool"
    and request :: "heap_req \<Rightarrow> 's \<Rightarrow> (nat \<times> 's) option" and written :: "'s \<Rightarrow> 's \<Rightarrow> nat set"
    and records :: "'s \<Rightarrow> nat set" and lo hi :: nat
  assumes simulates: "ok s \<Longrightarrow> legal r \<Longrightarrow>
    \<exists>v s'. request r s = Some (v, s') \<and> ok s' \<and> written s s' \<inter> live_bytes (abs s) = {} \<and>
      heap_step lo hi (abs s) r v (abs s')"
    and records_apart: "ok s \<Longrightarrow> records s \<subseteq> {lo ..< hi} - live_bytes (abs s)"
begin

lemma run_refines:
  "ok s \<Longrightarrow> list_all legal rs \<Longrightarrow>
     \<exists>vs s'. run_requests request rs s = Some (vs, s') \<and> ok s' \<and> heap_steps lo hi (abs s) rs vs (abs s')"
proof (induction rs arbitrary: s)
  case Nil
  then show ?case by (auto intro: heap_steps.no_more)
next
  case (Cons r rs)
  then obtain v s1 where s1: "request r s = Some (v, s1)" "ok s1"
      "heap_step lo hi (abs s) r v (abs s1)"
    using simulates [of s r] by auto
  with Cons.IH [OF s1(2)] Cons.prems(2) show ?case by (auto intro: heap_steps.more)
qed

text \<open>After any run the records are apart from the callers' bytes, and the next request spares them.\<close>

lemma run_spares:
  assumes "ok s" "list_all legal rs" "separated lo hi (abs s)"
  shows "\<exists>vs s'. run_requests request rs s = Some (vs, s') \<and> ok s' \<and> heap_steps lo hi (abs s) rs vs (abs s') \<and>
    separated lo hi (abs s') \<and> records s' \<subseteq> {lo ..< hi} - live_bytes (abs s') \<and>
    (\<forall>r. legal r \<longrightarrow> (\<exists>v s2. request r s' = Some (v, s2) \<and> written s' s2 \<inter> live_bytes (abs s') = {}))"
proof -
  obtain vs s' where s': "run_requests request rs s = Some (vs, s')" "ok s'" "heap_steps lo hi (abs s) rs vs (abs s')"
    using run_refines [OF assms(1,2)] by blast
  moreover have "separated lo hi (abs s')" using heap_steps_separated [OF s'(3) assms(3)] .
  moreover have "\<exists>v s2. request r s' = Some (v, s2) \<and> written s' s2 \<inter> live_bytes (abs s') = {}" if "legal r" for r
    using simulates [OF s'(2) that] by blast
  ultimately show ?thesis using records_apart [OF s'(2)] by blast
qed

end

subsection \<open>The heap manager implements it\<close>

definition mm_regions :: "mipos_mm \<Rightarrow> regions" where
  "mm_regions m = (\<lambda>p. if mm_live m p then Some (mm_block_size m p) else None)"

text \<open>
  The descriptors are the manager's records: those that the two lists link. A request writes
  the bytes of each descriptor it changes, and the data bytes it changes.
\<close>

definition desc_bytes :: "nat \<Rightarrow> nat set" where
  "desc_bytes x = {x ..< x + MDESC_SIZE}"

definition mm_descriptors :: "mipos_mm \<Rightarrow> nat set" where
  "mm_descriptors m =
     {x. \<exists>xs. (dll (mm_heap m) (mm_free_memory m) xs \<or> dll (mm_heap m) (mm_used_memory m) xs) \<and> x \<in> set xs}"

definition mm_records :: "mipos_mm \<Rightarrow> nat set" where
  "mm_records m = (\<Union>x \<in> mm_descriptors m. desc_bytes x)"

definition mm_written :: "mipos_mm \<Rightarrow> mipos_mm \<Rightarrow> nat set" where
  "mm_written m m' = {i. \<exists>x. mm_heap m' x \<noteq> mm_heap m x \<and> i \<in> desc_bytes x} \<union> {i. mm_data m' i \<noteq> mm_data m i}"

fun mm_request :: "heap_req \<Rightarrow> mipos_mm \<Rightarrow> (nat \<times> mipos_mm) option" where
  "mm_request (Req_alloc k) m = mipos_mm_alloc k m"
| "mm_request (Req_free p) m = mipos_mm_free p m"

fun mm_legal :: "heap_req \<Rightarrow> bool" where
  "mm_legal (Req_alloc k) \<longleftrightarrow> k + 3 < W"
| "mm_legal (Req_free p) \<longleftrightarrow> True"

lemma mm_regions_eq:
  assumes "mm_inv a n m fs us"
  shows "mm_regions m = (\<lambda>p. if \<exists>x \<in> set us. p = x + MDESC_SIZE
    then Some (bsize (mm_heap m) (p - MDESC_SIZE)) else None)"
  using mm_live_iff [OF assms] mm_block_size_live(1) [OF assms] by (auto simp: mm_regions_def fun_eq_iff)

lemma mm_regions_same:
  assumes "mm_inv a n m fs us" "mm_inv a n m' fs' us" "\<forall>x \<in> set us. bsize (mm_heap m') x = bsize (mm_heap m) x"
  shows "mm_regions m' = mm_regions m"
  using same_used_blocks [OF assms] by (auto simp: mm_regions_def)

lemma dseg_unique: "dseg h p prv xs 0 l1 \<Longrightarrow> dseg h p prv ys 0 l2 \<Longrightarrow> xs = ys"
proof (induction xs arbitrary: p prv ys)
  case Nil
  then show ?case by (cases ys) auto
next
  case (Cons x xs)
  then show ?case by (cases ys) auto
qed

lemma mm_descriptors_eq:
  assumes "mm_inv a n m fs us"
  shows "mm_descriptors m = set (fs @ us)"
proof -
  have "dll (mm_heap m) (mm_free_memory m) xs \<longleftrightarrow> xs = fs" "dll (mm_heap m) (mm_used_memory m) xs \<longleftrightarrow> xs = us" for xs
    using assms dseg_unique unfolding mm_inv_def dll_def by blast+
  then show ?thesis by (auto simp: mm_descriptors_def)
qed

text \<open>A descriptor outside the used blocks is apart from the callers' bytes.\<close>

lemma outside_used_live:
  assumes "mm_inv a n m fs us" "outside_used m us x"
  shows "desc_bytes x \<inter> live_bytes (mm_regions m) = {}"
  unfolding mm_regions_eq [OF assms(1)] live_bytes_def desc_bytes_def
  using assms(2) by (fastforce simp: outside_used_def split: if_splits)

lemma spares_written:
  assumes "mm_inv a n m fs us" "spares m us m'" "mm_data m' = mm_data m"
  shows "mm_written m m' \<inter> live_bytes (mm_regions m) = {}"
proof -
  have "mm_written m m' = (\<Union>x \<in> {x. mm_heap m' x \<noteq> mm_heap m x}. desc_bytes x)"
    using assms(3) by (auto simp: mm_written_def)
  moreover have "desc_bytes x \<inter> live_bytes (mm_regions m) = {}" if "mm_heap m' x \<noteq> mm_heap m x" for x
    using outside_used_live [OF assms(1)] assms(2) that by (simp add: spares_def)
  ultimately show ?thesis by blast
qed

lemma mm_records_apart:
  assumes inv: "mm_inv a n m fs us"
  shows "mm_records m \<subseteq> {a ..< a + n} - live_bytes (mm_regions m)"
proof -
  have "desc_bytes x \<subseteq> {a ..< a + n} - live_bytes (mm_regions m)" if "x \<in> set (fs @ us)" for x
    using outside_used_live [OF inv mm_inv_outside [OF inv that]] mm_inv_block(1,2) [OF inv that]
    by (auto simp: desc_bytes_def)
  then show ?thesis unfolding mm_records_def mm_descriptors_eq [OF inv] by blast
qed

lemma mm_descriptors_disjoint:
  assumes inv: "mm_inv a n m fs us"
  shows "pairwise (\<lambda>x y. desc_bytes x \<inter> desc_bytes y = {}) (mm_descriptors m)"
proof -
  obtain bs where bs: "tiles (bsize (mm_heap m)) a (a + n) bs" "set bs = set (fs @ us)"
    using inv by (auto simp: mm_inv_def)
  have "desc_bytes x \<inter> desc_bytes y = {}" if "x \<in> set bs" "y \<in> set bs" "x \<noteq> y" for x y
    using tiles_disjoint [OF bs(1) that(1,2)] tiles_disjoint [OF bs(1) that(2,1)] that(3)
    by (cases "x < y") (auto simp: desc_bytes_def)
  then show ?thesis unfolding pairwise_def mm_descriptors_eq [OF inv] bs(2) [symmetric] by blast
qed

lemma alloc_ok_regions:
  assumes inv: "mm_inv a n m fs us" and ok: "alloc_ok a n s m us b m'"
  shows "mm_regions m' = (mm_regions m)(b + MDESC_SIZE \<mapsto> bsize (mm_heap m') b)"
    and "apart (mm_regions m) (b + MDESC_SIZE) (bsize (mm_heap m') b)"
    and "a \<le> b + MDESC_SIZE" "b + MDESC_SIZE + bsize (mm_heap m') b \<le> a + n"
proof -
  from ok obtain fs' where inv': "mm_inv a n m' fs' (add_second b us)" and b: "b \<notin> set us"
    and same: "\<forall>x \<in> set us. bsize (mm_heap m') x = bsize (mm_heap m) x" by (auto simp: alloc_ok_def)
  have bin: "b \<in> set (fs' @ add_second b us)" by simp
  show "mm_regions m' = (mm_regions m)(b + MDESC_SIZE \<mapsto> bsize (mm_heap m') b)"
    unfolding mm_regions_eq [OF inv] mm_regions_eq [OF inv'] using same by (auto simp: fun_eq_iff)
  show "a \<le> b + MDESC_SIZE" "b + MDESC_SIZE + bsize (mm_heap m') b \<le> a + n"
    using mm_inv_block(1,2) [OF inv' bin] by auto
  obtain bs where bs: "tiles (bsize (mm_heap m')) a (a + n) bs" "set bs = set (fs' @ add_second b us)"
    using inv' by (auto simp: mm_inv_def)
  have "b + MDESC_SIZE + bsize (mm_heap m') b \<le> x \<or> x + MDESC_SIZE + bsize (mm_heap m) x \<le> b"
    if "x \<in> set us" for x
    using tiles_disjoint [OF bs(1), of b x] tiles_disjoint [OF bs(1), of x b] that b bs(2) same
    by (cases "x = b"; cases "x < b") auto
  then show "apart (mm_regions m) (b + MDESC_SIZE) (bsize (mm_heap m') b)"
    unfolding mm_regions_eq [OF inv] apart_def using b by (fastforce split: if_splits)
qed

lemma mm_simulates_free:
  assumes inv: "mm_inv a n m fs us"
  shows "\<exists>v m'. mipos_mm_free p m = Some (v, m') \<and> mm_ok a n m' \<and> mm_data m' = mm_data m \<and>
    mm_written m m' \<inter> live_bytes (mm_regions m) = {} \<and>
    heap_step a (a + n) (mm_regions m) (Req_free p) v (mm_regions m')"
proof (cases "\<exists>x \<in> set us. p = x + MDESC_SIZE")
  case True
  then obtain x xs ys where x: "p = x + MDESC_SIZE" "us = xs @ x # ys" by (auto simp: in_set_conv_decomp)
  obtain m' where m': "mipos_mm_free p m = Some (1, m')" "mm_inv a n m' (add_second x fs) (xs @ ys)"
      "bsize (mm_heap m') = bsize (mm_heap m)" "mm_data m' = mm_data m" "spares m us m'"
    using mm_free_used [OF inv x(2)] x(1) by blast
  have "x \<notin> set (xs @ ys)" using inv x(2) by (auto simp: mm_inv_def)
  then have "mm_regions m' = (mm_regions m)(p := None)" "p \<in> dom (mm_regions m)"
    unfolding mm_regions_eq [OF inv] mm_regions_eq [OF m'(2)] using m'(3) x by (auto simp: fun_eq_iff)
  with m' heap_step.release [of a "a + n" "mm_regions m" p] spares_written [OF inv m'(5,4)]
  show ?thesis by (auto simp: mm_ok_def)
next
  case False
  then have "mm_regions m p = None" by (simp add: mm_regions_eq [OF inv])
  then have "(mm_regions m)(p := None) = mm_regions m" "p \<notin> dom (mm_regions m)" by auto
  with mm_free_other [OF inv False] inv heap_step.release [of a "a + n" "mm_regions m" p]
    spares_written [OF inv spares_refl refl]
  show ?thesis by (auto simp: mm_ok_def)
qed

lemma mm_simulates_alloc:
  assumes inv: "mm_inv a n m fs us" and k: "0 < k" "k + 3 < W"
  shows "\<exists>p m'. mipos_mm_alloc k m = Some (p, m') \<and> mm_ok a n m' \<and> mm_data m' = mm_data m \<and>
    mm_written m m' \<inter> live_bytes (mm_regions m) = {} \<and>
    heap_step a (a + n) (mm_regions m) (Req_alloc k) p (mm_regions m')"
proof -
  have le: "k \<le> align4 k" using k(2) by (rule align4_bound)
  then have "0 < align4 k" using k(1) by simp
  from mm_alloc_result [OF inv k(1) this] obtain p m' where m': "mipos_mm_alloc k m = Some (p, m')"
    and fail: "p = 0 \<Longrightarrow> \<exists>fs'. mm_inv a n m' fs' us \<and> mm_data m' = mm_data m \<and> spares m us m' \<and>
        (\<forall>x \<in> set us. bsize (mm_heap m') x = bsize (mm_heap m) x)"
    and new: "p \<noteq> 0 \<Longrightarrow> \<exists>b. p = b + MDESC_SIZE \<and> alloc_ok a n (align4 k) m us b m'"
    by (auto split: if_splits)
  show ?thesis
  proof (cases "p = 0")
    case True
    with fail obtain fs' where "mm_inv a n m' fs' us" "mm_data m' = mm_data m" "spares m us m'"
        "\<forall>x \<in> set us. bsize (mm_heap m') x = bsize (mm_heap m) x" by auto
    moreover from this have "mm_regions m' = mm_regions m" "mm_written m m' \<inter> live_bytes (mm_regions m) = {}"
      using mm_regions_same [OF inv] spares_written [OF inv] by blast+
    ultimately show ?thesis using m' True by (auto simp: mm_ok_def intro: heap_step.no_room)
  next
    case False
    with new obtain b where b: "p = b + MDESC_SIZE" "alloc_ok a n (align4 k) m us b m'" by auto
    have "k \<le> bsize (mm_heap m') b" "mm_data m' = mm_data m" "mm_ok a n m'" "spares m us m'"
      using b(2) le by (auto simp: alloc_ok_def mm_ok_def)
    with alloc_ok_regions [OF inv b(2)] heap_step.region [of "mm_regions m" p "bsize (mm_heap m') b" k a "a + n"]
      spares_written [OF inv]
    show ?thesis using m' b(1) False k(1) by auto
  qed
qed

interpretation mmgr: heap_manager "mm_ok a n" mm_regions mm_legal mm_request mm_written mm_records a "a + n" for a n
proof
  fix m r assume ok: "mm_ok a n m" and legal: "mm_legal r"
  obtain fs us where inv: "mm_inv a n m fs us" using ok by (auto simp: mm_ok_def)
  show "\<exists>v m'. mm_request r m = Some (v, m') \<and> mm_ok a n m' \<and> mm_written m m' \<inter> live_bytes (mm_regions m) = {} \<and>
      heap_step a (a + n) (mm_regions m) r v (mm_regions m')"
  proof (cases r)
    case (Req_alloc k)
    with mm_simulates_alloc [OF inv, of k] legal ok spares_written [OF inv spares_refl refl] show ?thesis
      by (cases "k = 0") (auto simp: mipos_mm_alloc_def intro: heap_step.no_room)
  next
    case (Req_free p)
    with mm_simulates_free [OF inv, of p] show ?thesis by auto
  qed
qed (auto simp: mm_ok_def dest: mm_records_apart)

lemma mm_init_inv:
  assumes "0 < a" "a + n < W" "n < 2 ^ 63" "MDESC_SIZE \<le> n"
  shows "mm_inv a n (mipos_mm_init a n d) [a] []"
proof -
  have "(n + W - MDESC_SIZE) mod W = n - MDESC_SIZE"
  proof -
    have "n + W - MDESC_SIZE = (n - MDESC_SIZE) + W" "n - MDESC_SIZE < W" using assms by auto
    then show ?thesis by (simp only: mod_add_self2 mod_less)
  qed
  with assms show ?thesis
    by (auto simp: mm_inv_def mipos_mm_init_def mdesc_init_def dll_def bsize_def intro!: exI [of _ "[a]"])
qed

lemma mm_init_regions:
  assumes "0 < a" "a + n < W" "n < 2 ^ 63" "MDESC_SIZE \<le> n"
  shows "mm_regions (mipos_mm_init a n d) = Map.empty"
  using mm_regions_eq [OF mm_init_inv [OF assms]] by simp

subsection \<open>Reports\<close>

lemma mm_rows:
  assumes "dseg h p prv xs 0 lst" "tot < W"
  shows "\<exists>rows. mm_rows h p i tot = Some (rows, i + length xs, (tot + (\<Sum>x\<leftarrow>xs. bsize h x)) mod W) \<and>
    map (\<lambda>(_, _, s, _). s) rows = map (bsize h) xs"
  using assms
proof (induction xs arbitrary: p prv i tot)
  case Nil
  then show ?case by (subst mm_rows.simps) simp
next
  case (Cons x xs)
  then obtain d where d: "p = x" "x \<noteq> 0" "h x = Some d" "dseg h (md_next d) x xs 0 lst" by auto
  have "(tot + md_block_size d) mod W < W" by (simp add: W_def)
  from Cons.IH [OF d(4) this, of "i + 1"] obtain rows where
      "mm_rows h (md_next d) (i + 1) ((tot + md_block_size d) mod W) =
         Some (rows, i + 1 + length xs, ((tot + md_block_size d) mod W + (\<Sum>x\<leftarrow>xs. bsize h x)) mod W)"
      "map (\<lambda>(_, _, s, _). s) rows = map (bsize h) xs" by blast
  moreover have "bsize h x = md_block_size d" using d(3) by (simp add: bsize_def)
  ultimately show ?case
    using d by (subst mm_rows.simps) (simp add: mod_add_left_eq add.assoc)
qed

lemma sum_list_lists:
  assumes "distinct bs" "distinct (fs @ us)" "set bs = set (fs @ us)"
  shows "(\<Sum>x\<leftarrow>bs. f x) = (\<Sum>x\<leftarrow>fs. f x) + (\<Sum>x\<leftarrow>us. f x :: nat)"
proof -
  have "(\<Sum>x\<leftarrow>bs. f x) = sum f (set (fs @ us))" using assms(1,3) by (simp add: sum_list_distinct_conv_sum_set)
  also have "\<dots> = (\<Sum>x\<leftarrow>fs @ us. f x)" using assms(2) by (simp only: sum_list_distinct_conv_sum_set)
  finally show ?thesis by simp
qed

lemma mm_inv_sum:
  assumes "mm_inv a n m fs us"
  shows "(\<Sum>x\<leftarrow>fs. bsize (mm_heap m) x) + (\<Sum>x\<leftarrow>us. bsize (mm_heap m) x) +
    (length fs * MDESC_SIZE + length us * MDESC_SIZE) = n"
proof -
  obtain bs where bs: "tiles (bsize (mm_heap m)) a (a + n) bs" "set bs = set (fs @ us)"
    using assms by (auto simp: mm_inv_def)
  have len: "(\<Sum>x\<leftarrow>zs. MDESC_SIZE + f x) = length zs * MDESC_SIZE + (\<Sum>x\<leftarrow>zs. f x)" for zs :: "nat list" and f
    by (induction zs) auto
  from tiles_sum [OF bs(1)] have "(\<Sum>b\<leftarrow>bs. MDESC_SIZE + bsize (mm_heap m) b) = n" by simp
  with sum_list_lists [OF tiles_distinct [OF bs(1)] _ bs(2), of "\<lambda>b. MDESC_SIZE + bsize (mm_heap m) b"] assms
  show ?thesis by (simp add: mm_inv_def len)
qed

lemma dbg_print_result:
  assumes inv: "mm_inv a n m fs us"
  shows "\<exists>rep. mipos_mm_dbg_print m = Some rep \<and>
    rep_free_total rep = (\<Sum>x\<leftarrow>fs. bsize (mm_heap m) x) \<and> rep_used_total rep = (\<Sum>x\<leftarrow>us. bsize (mm_heap m) x) \<and>
    rep_reserved rep = (length fs + length us) * MDESC_SIZE \<and> rep_total rep = n \<and> \<not> rep_error rep"
proof -
  let ?sz = "bsize (mm_heap m)"
  obtain l1 l2 where ls: "dseg (mm_heap m) (mm_free_memory m) 0 fs 0 l1" "dseg (mm_heap m) (mm_used_memory m) 0 us 0 l2"
    using inv by (auto simp: mm_inv_def dll_def)
  have n: "n < W" "mm_arena_size m = n" "0 < W" using inv by (auto simp: mm_inv_def W_def)
  note sum = mm_inv_sum [OF inv]
  obtain r1 r2 where rows: "mm_rows (mm_heap m) (mm_free_memory m) 0 0 = Some (r1, length fs, \<Sum>x\<leftarrow>fs. ?sz x)"
      "mm_rows (mm_heap m) (mm_used_memory m) 0 0 = Some (r2, length us, \<Sum>x\<leftarrow>us. ?sz x)"
    using mm_rows [OF ls(1) n(3), of 0] mm_rows [OF ls(2) n(3), of 0] sum n by auto
  have res: "(length fs * MDESC_SIZE + length us * MDESC_SIZE) mod W = length fs * MDESC_SIZE + length us * MDESC_SIZE"
    using sum n by auto
  show ?thesis
    by (simp only: mipos_mm_dbg_print_def rows Option.bind.simps prod.case Let_def res sum n)
      (use n in \<open>simp add: add_mult_distrib\<close>)
qed

subsection \<open>Resizing\<close>

lemma realloc_moves:
  assumes inv: "mm_inv a n m fs us" and x: "x \<in> set us" and sz: "0 < bsize (mm_heap m) x" "bsize (mm_heap m) x \<le> sz"
  shows "mipos_mm_realloc (x + MDESC_SIZE) sz m =
    do { (q, mq) \<leftarrow> mipos_mm_alloc sz m;
         d \<leftarrow> mem_copy q (x + MDESC_SIZE) (bsize (mm_heap m) x) (mm_data mq);
         (r, m2) \<leftarrow> mipos_mm_free (x + MDESC_SIZE) (mq\<lparr>mm_data := d\<rparr>);
         Some (q, m2) }"
  using mm_block_size_live(2) [OF inv x] sz
  by (cases "mipos_mm_alloc sz m")
    (auto simp: mipos_mm_realloc_def mip_simps min_def case_prod_unfold Option.bind_assoc)

lemma mm_inv_data [simp]: "mm_inv a n (m\<lparr>mm_data := d\<rparr>) fs us = mm_inv a n m fs us"
  by (simp add: mm_inv_def)

lemma mm_lookup_data [simp]:
  "mm_live (m\<lparr>mm_data := d\<rparr>) = mm_live m" "mm_block_size (m\<lparr>mm_data := d\<rparr>) = mm_block_size m"
  by (simp_all add: fun_eq_iff mm_live_def mm_block_size_def mipos_mm_is_in_def
      get_part_ptr_allocated_mem_size_def mm_find_used_def cong: if_cong)

lemma mm_regions_data [simp]: "mm_regions (m\<lparr>mm_data := d\<rparr>) = mm_regions m"
  by (simp add: mm_regions_def cong: if_cong)

lemma mm_live_block:
  assumes "mm_inv a n m fs us" "mm_live m p"
  shows "\<exists>x. x \<in> set us \<and> p = x + MDESC_SIZE \<and> mm_block_size m p = bsize (mm_heap m) x"
proof -
  obtain x where "x \<in> set us" "p = x + MDESC_SIZE" using assms mm_live_iff [OF assms(1), of p] by auto
  with mm_block_size_live(1) [OF assms(1), of x] show ?thesis by auto
qed

text \<open>Two small arenas: one of a single free block, and one that a single used block fills.\<close>

definition full_arena :: mipos_mm where
  "full_arena = \<lparr>mm_arena_size = 100, mm_free_memory = 0, mm_used_memory = 4096,
     mm_heap = [4096 \<mapsto> \<lparr>md_next = 0, md_prev = 0, md_block_size = 76\<rparr>], mm_data = (\<lambda>_. 0)\<rparr>"

lemma full_arena_inv: "mm_inv 4096 100 full_arena [] [4096]"
  by (auto simp: mm_inv_def full_arena_def dll_def bsize_def W_def mip_simps intro!: exI [of _ "[4096]"])

lemma full_arena_alloc: "mipos_mm_alloc 200 full_arena = Some (0, full_arena)"
proof -
  have "align4 200 = 200" by (simp add: align4_def W_def)
  moreover have "mm_alloc_aux 200 full_arena = Some (0, full_arena)"
    using mm_alloc_aux [OF full_arena_inv, of 200] by simp
  moreover have "mipos_mm_compact_freemem 200 full_arena = Some (0, full_arena)"
    unfolding mipos_mm_compact_freemem_def by (subst mm_compact_loop.simps) (simp add: full_arena_def)
  ultimately show ?thesis by (simp add: mipos_mm_alloc_def)
qed

lemma full_arena_live: "mm_live full_arena 4120" "mm_block_size full_arena 4120 = 76"
  using mm_live_iff [OF full_arena_inv, of 4120] mm_block_size_live(1) [OF full_arena_inv, of 4096]
  by (simp_all add: mip_simps) (simp add: full_arena_def bsize_def)

definition half_arena :: mipos_mm where
  "half_arena = \<lparr>mm_arena_size = 300, mm_free_memory = 4136, mm_used_memory = 4096,
     mm_heap = [4096 \<mapsto> \<lparr>md_next = 0, md_prev = 0, md_block_size = 16\<rparr>,
                4136 \<mapsto> \<lparr>md_next = 0, md_prev = 0, md_block_size = 236\<rparr>], mm_data = (\<lambda>x. of_nat x)\<rparr>"

lemma half_arena_inv: "mm_inv 4096 300 half_arena [4136] [4096]"
  by (auto simp: mm_inv_def half_arena_def dll_def bsize_def W_def mip_simps intro!: exI [of _ "[4096, 4136]"])

lemma half_arena_alloc: "\<exists>q m'. mipos_mm_alloc 20 half_arena = Some (q, m') \<and> q \<noteq> 0"
proof -
  have al: "align4 20 = 20" by (simp add: align4_def W_def)
  have "bsize (mm_heap half_arena) 4136 = 236" by (simp add: half_arena_def bsize_def)
  with mm_alloc_aux [OF half_arena_inv, of 20] obtain b m' where
      b: "mm_alloc_aux 20 half_arena = Some (b, m')" "alloc_ok 4096 300 20 half_arena [4096] b m'" by auto
  then have "b \<noteq> 0" "mdesc_get_data_addr b = b + MDESC_SIZE"
    by (auto simp: alloc_ok_def intro: mm_inv_block(4))
  with b(1) al show ?thesis by (simp add: mipos_mm_alloc_def)
qed

lemma half_arena_full: "\<exists>m'. mipos_mm_alloc 240 half_arena = Some (0, m')"
proof -
  have al: "align4 240 = 240" by (simp add: align4_def W_def)
  have sz: "bsize (mm_heap half_arena) 4136 = 236" by (simp add: half_arena_def bsize_def)
  then have small: "\<forall>x \<in> set [4136]. bsize (mm_heap half_arena) x < 240" by simp
  have first: "mm_alloc_aux 240 half_arena = Some (0, half_arena)"
    using mm_alloc_aux [OF half_arena_inv, of 240] small by simp
  have "mm_find_cont_free_pred_mb 4136 half_arena = Some 0"
    unfolding mm_find_cont_free_pred_mb_def
    by (subst mm_find_cont_loop.simps) (simp add: half_arena_def mdesc_next_def mm_find_cont_loop.simps)
  then have "mipos_mm_compact_freemem 240 half_arena = Some (0, half_arena)"
    unfolding mipos_mm_compact_freemem_def
    by (subst mm_compact_loop.simps) (simp add: half_arena_def mdesc_next_def mm_compact_loop.simps)
  with first al show ?thesis by (simp add: mipos_mm_alloc_def)
qed

lemma half_arena_live: "mm_live half_arena 4120" "mm_block_size half_arena 4120 = 16"
  using mm_live_iff [OF half_arena_inv, of 4120] mm_block_size_live(1) [OF half_arena_inv, of 4096]
  by (simp_all add: mip_simps) (simp add: half_arena_def bsize_def)

subsection \<open>Properties\<close>

text \<open>C2. The heap manager refines its contract. From a freshly initialised arena, every
  sequence of allocations (below 2^64 - 3 bytes) and releases, of any addresses, runs to the
  end, and its results and the blocks it leaves are a run of the abstract heap: live blocks
  lie in the arena and never overlap. In the state it leaves, the descriptors that the two
  lists link lie in the arena, share no byte with each other or with a live block, and
  whatever legal request comes next returns and writes no byte of a block that is live.\<close>

theorem heap_run_refines:
  assumes "0 < a" "a + n < W" "n < 2 ^ 63" "MDESC_SIZE \<le> n" and "list_all mm_legal rs"
  shows "\<exists>vs m'. run_requests mm_request rs (mipos_mm_init a n d) = Some (vs, m') \<and>
    heap_steps a (a + n) Map.empty rs vs (mm_regions m') \<and> separated a (a + n) (mm_regions m') \<and>
    mm_records m' \<subseteq> {a ..< a + n} - live_bytes (mm_regions m') \<and>
    pairwise (\<lambda>x y. desc_bytes x \<inter> desc_bytes y = {}) (mm_descriptors m') \<and>
    (\<forall>r. mm_legal r \<longrightarrow> (\<exists>v m2. mm_request r m' = Some (v, m2) \<and>
       mm_written m' m2 \<inter> live_bytes (mm_regions m') = {}))"
proof -
  have "mm_ok a n (mipos_mm_init a n d)" using mm_init_inv [OF assms(1-4)] by (auto simp: mm_ok_def)
  moreover have "separated a (a + n) Map.empty" by (simp add: separated_def)
  ultimately obtain vs m' where "mm_ok a n m'" "run_requests mm_request rs (mipos_mm_init a n d) = Some (vs, m')"
      "heap_steps a (a + n) Map.empty rs vs (mm_regions m')" "separated a (a + n) (mm_regions m')"
      "mm_records m' \<subseteq> {a ..< a + n} - live_bytes (mm_regions m')"
      "\<forall>r. mm_legal r \<longrightarrow> (\<exists>v m2. mm_request r m' = Some (v, m2) \<and>
         mm_written m' m2 \<inter> live_bytes (mm_regions m') = {})"
    using mmgr.run_spares [of a n "mipos_mm_init a n d" rs] assms(5) mm_init_regions [OF assms(1-4)] by auto
  moreover from this(1) have "pairwise (\<lambda>x y. desc_bytes x \<inter> desc_bytes y = {}) (mm_descriptors m')"
    by (auto simp: mm_ok_def intro: mm_descriptors_disjoint)
  ultimately show ?thesis by blast
qed

theorem heap_run_refines_witness:
  "\<exists>vs m' v m2. run_requests mm_request [Req_alloc 40, Req_alloc 100, Req_free 4096, Req_alloc 7]
      (mipos_mm_init 4096 1024 (\<lambda>_. 0xAA)) = Some (vs, m') \<and>
    heap_steps 4096 5120 Map.empty [Req_alloc 40, Req_alloc 100, Req_free 4096, Req_alloc 7] vs (mm_regions m') \<and>
    separated 4096 5120 (mm_regions m') \<and> mm_records m' \<subseteq> {4096 ..< 5120} - live_bytes (mm_regions m') \<and>
    pairwise (\<lambda>x y. desc_bytes x \<inter> desc_bytes y = {}) (mm_descriptors m') \<and>
    mm_request (Req_alloc 300) m' = Some (v, m2) \<and> mm_written m' m2 \<inter> live_bytes (mm_regions m') = {}"
proof -
  have *: "(4096::nat) + 1024 = 5120" by simp
  have legal: "mm_legal (Req_alloc 300)" by (simp add: W_def)
  have "list_all mm_legal [Req_alloc 40, Req_alloc 100, Req_free 4096, Req_alloc 7]" by (simp add: W_def)
  then have "\<exists>vs m'. run_requests mm_request [Req_alloc 40, Req_alloc 100, Req_free 4096, Req_alloc 7]
        (mipos_mm_init 4096 1024 (\<lambda>_. 0xAA)) = Some (vs, m') \<and>
      heap_steps 4096 5120 Map.empty [Req_alloc 40, Req_alloc 100, Req_free 4096, Req_alloc 7] vs (mm_regions m') \<and>
      separated 4096 5120 (mm_regions m') \<and> mm_records m' \<subseteq> {4096 ..< 5120} - live_bytes (mm_regions m') \<and>
      pairwise (\<lambda>x y. desc_bytes x \<inter> desc_bytes y = {}) (mm_descriptors m') \<and>
      (\<forall>r. mm_legal r \<longrightarrow> (\<exists>v m2. mm_request r m' = Some (v, m2) \<and>
         mm_written m' m2 \<inter> live_bytes (mm_regions m') = {}))"
    by (rule heap_run_refines [where a = 4096 and n = 1024, unfolded *, rotated 4]) (simp_all add: W_def mip_simps)
  with legal show ?thesis by blast
qed

text \<open>C26. An allocation fails only when it has to: when \<^verbatim>\<open>mipos_mm_alloc\<close> returns the null
  pointer for a request of at least one and fewer than 2^64 - 3 bytes, every free block is
  smaller than the rounded request and no two free blocks are neighbours, so that no merge
  could help; and no live block has changed. (A request of 0 bytes always gets the null
  pointer.)\<close>

theorem alloc_fails_only_when_full:
  assumes "mm_ok a n m" "0 < k" "k + 3 < W" "mipos_mm_alloc k m = Some (0, m')"
  shows "mm_regions m' = mm_regions m \<and>
    (\<exists>fs us. mm_inv a n m' fs us \<and> (\<forall>x \<in> set fs. bsize (mm_heap m') x < align4 k) \<and>
       (\<forall>x \<in> set fs. \<forall>y \<in> set fs. \<not> touch (bsize (mm_heap m')) x y))"
proof -
  obtain fs us where inv: "mm_inv a n m fs us" using assms(1) by (auto simp: mm_ok_def)
  have "0 < align4 k" using align4_bound [OF assms(3)] assms(2) by simp
  from mm_alloc_result [OF inv assms(2) this] assms(4) obtain fs' where
      "mm_inv a n m' fs' us" "\<forall>x \<in> set us. bsize (mm_heap m') x = bsize (mm_heap m) x"
      "\<forall>x \<in> set fs'. bsize (mm_heap m') x < align4 k"
      "\<forall>x \<in> set fs'. \<forall>y \<in> set fs'. \<not> touch (bsize (mm_heap m')) x y" by auto
  with mm_regions_same [OF inv] show ?thesis by blast
qed

theorem alloc_fails_only_when_full_witness:
  "\<exists>m'. mipos_mm_alloc 240 half_arena = Some (0, m') \<and> mm_regions m' = mm_regions half_arena \<and>
    (\<exists>fs us. mm_inv 4096 300 m' fs us \<and> (\<forall>x \<in> set fs. bsize (mm_heap m') x < align4 240) \<and>
       (\<forall>x \<in> set fs. \<forall>y \<in> set fs. \<not> touch (bsize (mm_heap m')) x y))"
proof -
  have ok: "mm_ok 4096 300 half_arena" using half_arena_inv by (auto simp: mm_ok_def)
  obtain m' where "mipos_mm_alloc 240 half_arena = Some (0, m')" using half_arena_full by blast
  with alloc_fails_only_when_full [OF ok _ _ this] show ?thesis by (simp add: W_def)
qed

text \<open>The memory report always balances: on every reachable state of the manager the
  walk over both lists ends, the free bytes, the used bytes and the descriptors add up to
  the arena, and the mismatch message is never printed.\<close>

theorem report_balances:
  assumes "mm_ok a n m"
  shows "\<exists>rep. mipos_mm_dbg_print m = Some rep \<and> rep_free_total rep + rep_used_total rep + rep_reserved rep = n \<and>
    rep_total rep = n \<and> \<not> rep_error rep"
proof -
  obtain fs us where inv: "mm_inv a n m fs us" using assms by (auto simp: mm_ok_def)
  from dbg_print_result [OF inv] mm_inv_sum [OF inv] show ?thesis by (auto simp: add_mult_distrib)
qed

theorem report_balances_witness:
  "\<exists>rep. mipos_mm_dbg_print (mipos_mm_init 4096 1024 (\<lambda>_. 0)) = Some rep \<and>
    rep_free_total rep + rep_used_total rep + rep_reserved rep = 1024 \<and> rep_total rep = 1024 \<and> \<not> rep_error rep"
  using report_balances [of 4096 1024 "mipos_mm_init 4096 1024 (\<lambda>_. 0)"] mm_init_inv [of 4096 1024 "\<lambda>_. 0"]
  by (auto simp: mm_ok_def W_def mip_simps)

text \<open>C32. Growing a block: when the larger block can be had, \<^verbatim>\<open>mipos_mm_realloc\<close> returns it with
  the old contents at its start, every byte elsewhere as it was, and gives up
  exactly the old block.\<close>

theorem realloc_copies:
  assumes "mm_ok a n m" "mm_live m p" "0 < mm_block_size m p" "mm_block_size m p \<le> sz" "sz + 3 < W"
    "mipos_mm_alloc sz m = Some (q, mq)" "q \<noteq> 0"
  shows "\<exists>m'. mipos_mm_realloc p sz m = Some (q, m') \<and> mm_ok a n m' \<and>
    mm_regions m' = (mm_regions mq)(p := None) \<and> mm_live m' q \<and>
    (\<forall>i. mm_data m' i = (if q \<le> i \<and> i < q + mm_block_size m p then mm_data m (p + (i - q)) else mm_data m i))"
proof -
  obtain fs us where inv: "mm_inv a n m fs us" using assms(1) by (auto simp: mm_ok_def)
  obtain x where x: "x \<in> set us" "p = x + MDESC_SIZE" "mm_block_size m p = bsize (mm_heap m) x"
    using mm_live_block [OF inv assms(2)] by auto
  let ?d = "\<lambda>i. if q \<le> i \<and> i < q + mm_block_size m p then mm_data m (p + (i - q)) else mm_data m i"
  from mm_simulates_alloc [OF inv _ assms(5)] assms(3,4,6) have ok: "mm_ok a n mq" "mm_data mq = mm_data m"
    and step: "heap_step a (a + n) (mm_regions m) (Req_alloc sz) q (mm_regions mq)" by auto
  have "mm_regions m p = Some (mm_block_size m p)" using assms(2) by (simp add: mm_regions_def)
  with step assms(7) have q: "q \<noteq> p" "mm_regions mq q \<noteq> None"
    by (fastforce simp: apart_def elim!: heap_step_cases)+
  obtain fs' us' where inv': "mm_inv a n (mq\<lparr>mm_data := ?d\<rparr>) fs' us'" using ok(1) by (auto simp: mm_ok_def)
  obtain v m' where m': "mipos_mm_free p (mq\<lparr>mm_data := ?d\<rparr>) = Some (v, m')" "mm_ok a n m'" "mm_data m' = ?d"
      "heap_step a (a + n) (mm_regions mq) (Req_free p) v (mm_regions m')"
    using mm_simulates_free [OF inv', of p] by auto
  have regions: "mm_regions m' = (mm_regions mq)(p := None)" using m'(4) by (auto elim!: heap_step_cases)
  have "mem_copy q p (mm_block_size m p) (mm_data mq) = Some ?d"
    using assms(7) x(2) ok(2) by (auto simp: mem_copy_def mip_simps)
  then have "mipos_mm_realloc p sz m = Some (q, m')"
    using realloc_moves [OF inv x(1)] assms(3,4,6) x m'(1) by simp
  moreover have "mm_live m' q" using fun_cong [OF regions, of q] q by (auto simp: mm_regions_def split: if_splits)
  ultimately show ?thesis using m' regions by simp
qed

theorem realloc_copies_witness:
  "\<exists>q m'. mipos_mm_realloc 4120 20 half_arena = Some (q, m') \<and> mm_ok 4096 300 m' \<and> mm_live m' q \<and>
    (\<forall>i. mm_data m' i = (if q \<le> i \<and> i < q + 16 then mm_data half_arena (4120 + (i - q)) else mm_data half_arena i))"
proof -
  have ok: "mm_ok 4096 300 half_arena" using half_arena_inv by (auto simp: mm_ok_def)
  obtain q mq where "mipos_mm_alloc 20 half_arena = Some (q, mq)" "q \<noteq> 0" using half_arena_alloc by blast
  with realloc_copies [OF ok half_arena_live(1), of 20 q mq] half_arena_live(2) show ?thesis
    by (auto simp: W_def)
qed

text \<open>A failed resize is not reported but faults: when no larger block can be had,
  \<^verbatim>\<open>mipos_mm_realloc\<close> copies the contents to the null pointer that the allocation returned.\<close>

theorem realloc_failure_faults:
  assumes "mm_ok a n m" "mm_live m p" "0 < mm_block_size m p" "mm_block_size m p \<le> sz"
    "mipos_mm_alloc sz m = Some (0, m')"
  shows "mipos_mm_realloc p sz m = None"
proof -
  obtain fs us where inv: "mm_inv a n m fs us" using assms(1) by (auto simp: mm_ok_def)
  from mm_live_block [OF inv assms(2)] obtain x where
      "x \<in> set us" "p = x + MDESC_SIZE" "mm_block_size m p = bsize (mm_heap m) x" by auto
  with realloc_moves [OF inv, of x sz] assms(3-5) show ?thesis by (simp add: mem_copy_def)
qed

theorem realloc_failure_faults_witness: "mipos_mm_realloc 4120 200 full_arena = None"
proof -
  have "mm_ok 4096 100 full_arena" using full_arena_inv by (auto simp: mm_ok_def)
  then show ?thesis
    by (rule realloc_failure_faults [where m' = full_arena]) (simp_all add: full_arena_live full_arena_alloc)
qed

text \<open>Rounding the three largest requests up to a multiple of four wraps to 0: while any
  block is free, \<^verbatim>\<open>mipos_mm_alloc\<close> answers them with a block, which of course is smaller
  than the arena.\<close>

theorem huge_request_succeeds:
  assumes "mm_inv a n m fs us" "fs \<noteq> []" "W \<le> sz + 3" "sz < W"
  shows "\<exists>p m'. mipos_mm_alloc sz m = Some (p, m') \<and> p \<noteq> 0 \<and> mm_live m' p \<and> mm_block_size m' p < n"
proof -
  have "(sz + 3) mod W = sz + 3 - W" "sz + 3 - W < 4" using assms(3,4) by (auto simp: mod_if W_def)
  then have al: "align4 sz = 0" "0 < sz" using assms(3) by (auto simp: align4_def Let_def W_def)
  from mm_alloc_aux [OF assms(1), of 0] assms(2) obtain b m' where
      b: "mm_alloc_aux 0 m = Some (b, m')" "alloc_ok a n 0 m us b m'"
    by (cases fs) (auto split: if_splits)
  then obtain fs' where inv': "mm_inv a n m' fs' (add_second b us)" by (auto simp: alloc_ok_def)
  note blk = mm_inv_block [OF inv', of b]
  have "mm_block_size m' (b + MDESC_SIZE) < n"
    using mm_block_size_live(1) [OF inv', of b] blk(1,2) by (simp add: mip_simps)
  moreover have "mm_live m' (b + MDESC_SIZE)" using mm_live_iff [OF inv'] by auto
  ultimately show ?thesis
    using b(1) al blk(3,4) by (simp add: mipos_mm_alloc_def mip_simps)
qed

theorem huge_request_succeeds_witness:
  "\<exists>p m'. mipos_mm_alloc 18446744073709551615 half_arena = Some (p, m') \<and> p \<noteq> 0 \<and> mm_live m' p \<and>
    mm_block_size m' p < 300"
  by (rule huge_request_succeeds [OF half_arena_inv]) (simp_all add: W_def)

end
