(* ===== verification/Mipos_Tfs_Types.thy ===== *)
theory Mipos_Tfs_Types
  imports Mipos_Mutex
begin

text \<open>
  The data of the tiny file system (\<^verbatim>\<open>mipos_tfs.h\<close>): constants, file descriptors, the file
  table and its image on the device. Characters are bytes. The image of a structure is its
  layout on a little-endian target with four-byte alignment: a descriptor takes 16
  bytes without padding, the table 204 bytes with two padding bytes after the version.
\<close>

type_synonym bytes = "char list"

abbreviation NUL :: char where
  "NUL \<equiv> CHR 0x00"

definition tfs_MAX_VERSION :: nat where [mip_simps]: "tfs_MAX_VERSION = 1"
definition tfs_MIN_VERSION :: nat where [mip_simps]: "tfs_MIN_VERSION = 0"
definition tfs_STORAGE_AREA_SIZE :: nat where [mip_simps]: "tfs_STORAGE_AREA_SIZE = 1024"
definition tfs_CLUSTER_SIZE :: nat where [mip_simps]: "tfs_CLUSTER_SIZE = 32"
definition tfs_CLUSTERS_COUNT :: nat where
  [mip_simps]: "tfs_CLUSTERS_COUNT = tfs_STORAGE_AREA_SIZE div tfs_CLUSTER_SIZE"
definition tfs_MAX_N_OF_FILES :: nat where [mip_simps]: "tfs_MAX_N_OF_FILES = 8"
definition tfs_MAX_FILENAME_LENGTH :: nat where [mip_simps]: "tfs_MAX_FILENAME_LENGTH = 8"
definition tfs_MAX_VOLUME_LENGTH :: nat where [mip_simps]: "tfs_MAX_VOLUME_LENGTH = 8"
definition tfs_OFFSET :: nat where [mip_simps]: "tfs_OFFSET = 0"

definition FREE_CLUSTER :: u16 where [mip_simps]: "FREE_CLUSTER = 0xFFFF"
definition LAST_ALLOCATED_CLUSTER :: u16 where [mip_simps]: "LAST_ALLOCATED_CLUSTER = 0xFFFD"
definition RESERVED_CLUSTER :: u16 where [mip_simps]: "RESERVED_CLUSTER = 0xFFFC"
definition EMPTY_CLUSTER :: u16 where [mip_simps]: "EMPTY_CLUSTER = 0xFFFB"
definition INVALID_FILE_HANDLE :: u16 where [mip_simps]: "INVALID_FILE_HANDLE = 0xFFFF"

datatype tfs_err_code =
    ERR_SUCCESS | ERR_NO_ENOUGH_FREE_BLOCKS | ERR_BAD_FILENAME | ERR_FILENAME_ALREADY_PRESENT
  | ERR_FILE_NOT_FOUND | ERR_DELETE_FAILED | ERR_WRITE_FAILED | ERR_CLOSE_FAILED | ERR_READ_FAILED
  | ERR_READ_NOT_COMPLETED | ERR_SEEK_FAILED

datatype tfs_fopenmode = FILE_OPEN_READ | FILE_OPEN_WRITE

definition tfs_SEEK_BEGIN :: nat where [mip_simps]: "tfs_SEEK_BEGIN = 0"
definition tfs_SEEK_CURRENT :: nat where [mip_simps]: "tfs_SEEK_CURRENT = 1"
definition tfs_SEEK_END :: nat where [mip_simps]: "tfs_SEEK_END = 2"

text \<open>The flags \<^verbatim>\<open>erased\<close> and \<^verbatim>\<open>readonly\<close> are one byte each on the device; any non-zero byte is true.\<close>

record tfs_fd =
  fd_filename :: bytes
  fd_size :: u32
  fd_first_cluster :: u16
  fd_erased :: char
  fd_readonly :: char

record tfs_ctl =
  ctl_seek_pointer :: u32
  ctl_eof_while_read :: bool
  ctl_open :: bool
  ctl_locked :: bool
  ctl_file_open_mode :: tfs_fopenmode

record tfs_ftbl =
  ft_volume_description :: bytes
  ft_maj_version :: char
  ft_min_version :: char
  ft_file_fs_desc :: "tfs_fd list"
  ft_cluster_tbl :: "u16 list"

text \<open>
  The device driver: \<^verbatim>\<open>io_write\<close> stores bytes at an offset, \<^verbatim>\<open>io_read\<close> delivers that many bytes
  from an offset. Both are supplied by the application and may be null; \<open>None\<close> as a result is an
  access outside the storage they drive.
\<close>

record 'd io_dev =
  io_write :: "(bytes \<Rightarrow> u32 \<Rightarrow> 'd \<Rightarrow> (int \<times> 'd) option) option"
  io_read :: "(nat \<Rightarrow> u32 \<Rightarrow> 'd \<Rightarrow> (int \<times> bytes) option) option"

record 'd tfs =
  tfs_io_dev :: "'d io_dev"
  tfs_file_ctl :: "tfs_ctl list"
  tfs_ftbl_of :: tfs_ftbl
  tfs_lock :: mipos_mtx
  tfs_last_error :: tfs_err_code
  tfs_disk :: 'd

definition zero_ctl :: tfs_ctl where
  "zero_ctl = \<lparr>ctl_seek_pointer = 0, ctl_eof_while_read = False, ctl_open = False, ctl_locked = False,
     ctl_file_open_mode = FILE_OPEN_READ\<rparr>"

definition zero_fd :: tfs_fd where
  "zero_fd = \<lparr>fd_filename = replicate tfs_MAX_FILENAME_LENGTH NUL, fd_size = 0, fd_first_cluster = 0,
     fd_erased = NUL, fd_readonly = NUL\<rparr>"

subsection \<open>Images\<close>

definition put_u16 :: "u16 \<Rightarrow> bytes" where
  "put_u16 w = [char_of (unat w), char_of (unat w div 256)]"

definition put_u32 :: "u32 \<Rightarrow> bytes" where
  "put_u32 w = [char_of (unat w), char_of (unat w div 256), char_of (unat w div 65536),
     char_of (unat w div 16777216)]"

definition get_u16 :: "bytes \<Rightarrow> u16" where
  "get_u16 bs = of_nat (of_char (bs ! 0) + 256 * of_char (bs ! 1))"

definition get_u32 :: "bytes \<Rightarrow> u32" where
  "get_u32 bs = of_nat (of_char (bs ! 0) + 256 * of_char (bs ! 1) + 65536 * of_char (bs ! 2) +
     16777216 * of_char (bs ! 3))"

definition put_fd :: "tfs_fd \<Rightarrow> bytes" where
  "put_fd fd = fd_filename fd @ put_u32 (fd_size fd) @ put_u16 (fd_first_cluster fd) @
     [fd_erased fd, fd_readonly fd]"

definition get_fd :: "bytes \<Rightarrow> tfs_fd" where
  "get_fd bs = \<lparr>fd_filename = take 8 bs, fd_size = get_u32 (drop 8 bs), fd_first_cluster = get_u16 (drop 12 bs),
     fd_erased = bs ! 14, fd_readonly = bs ! 15\<rparr>"

definition fd_ok :: "tfs_fd \<Rightarrow> bool" where
  "fd_ok fd \<longleftrightarrow> length (fd_filename fd) = tfs_MAX_FILENAME_LENGTH"

definition sizeof_fd :: nat where [mip_simps]: "sizeof_fd = 16"
definition sizeof_ftbl :: nat where [mip_simps]: "sizeof_ftbl = 204"

definition tfs_SIZE :: nat where
  [mip_simps]: "tfs_SIZE = (sizeof_ftbl div tfs_CLUSTER_SIZE + 1) * tfs_CLUSTER_SIZE * 2"

definition put_ftbl :: "tfs_ftbl \<Rightarrow> bytes" where
  "put_ftbl t = ft_volume_description t @ [ft_maj_version t, ft_min_version t, NUL, NUL] @
     concat (map put_fd (ft_file_fs_desc t)) @ concat (map put_u16 (ft_cluster_tbl t))"

definition get_ftbl :: "bytes \<Rightarrow> tfs_ftbl" where
  "get_ftbl bs = \<lparr>ft_volume_description = take 8 bs, ft_maj_version = bs ! 8, ft_min_version = bs ! 9,
     ft_file_fs_desc = map (\<lambda>i. get_fd (drop (12 + 16 * i) bs)) [0..<tfs_MAX_N_OF_FILES],
     ft_cluster_tbl = map (\<lambda>i. get_u16 (drop (140 + 2 * i) bs)) [0..<tfs_CLUSTERS_COUNT]\<rparr>"

definition ftbl_ok :: "tfs_ftbl \<Rightarrow> bool" where
  "ftbl_ok t \<longleftrightarrow> length (ft_volume_description t) = tfs_MAX_VOLUME_LENGTH \<and>
     length (ft_file_fs_desc t) = tfs_MAX_N_OF_FILES \<and> list_all fd_ok (ft_file_fs_desc t) \<and>
     length (ft_cluster_tbl t) = tfs_CLUSTERS_COUNT"

lemma of_char_nat [simp]: "(of_char (char_of (n :: nat)) :: nat) = n mod 256"
  by simp

lemma get_put_u16: "get_u16 (put_u16 w @ bs) = w"
proof -
  have "unat w mod 256 + 256 * (unat w div 256 mod 256) = unat w"
    using unat_range(2) [of w] by (simp add: mult.commute)
  then show ?thesis by (simp add: get_u16_def put_u16_def)
qed

lemma base_256: "n mod 256 + 256 * (n div 256 mod 256) + 65536 * (n div 65536 mod 256) +
    16777216 * (n div 16777216) = (n :: nat)"
proof -
  have digits: "b = a1 + 256 * c \<Longrightarrow> c = a2 + 256 * d \<Longrightarrow> d = a3 + 256 * e \<Longrightarrow>
      a1 + 256 * a2 + 65536 * a3 + 16777216 * e = b" for a1 a2 a3 b c d e :: nat by simp
  have "n div 65536 = n div 256 div 256" "n div 16777216 = n div 65536 div 256"
    using div_mult2_eq [of n 256 256] div_mult2_eq [of n 65536 256] by simp_all
  then show ?thesis
    by (intro digits [of n _ "n div 256" _ "n div 65536"])
      (simp_all only: mod_mult_div_eq)
qed

lemma get_put_u32: "get_u32 (put_u32 w @ bs) = w"
proof -
  have "unat w div 16777216 < 256" using unat_range(3) [of w] by (simp add: less_mult_imp_div_less)
  with base_256 [of "unat w"] show ?thesis by (simp add: get_u32_def put_u32_def)
qed

lemma length_put_words [simp]: "length (put_u16 w) = 2" "length (put_u32 v) = 4"
  by (simp_all add: put_u16_def put_u32_def)

lemma get_put_fd:
  assumes "fd_ok fd"
  shows "get_fd (put_fd fd @ bs) = fd"
proof -
  have len: "length (fd_filename fd) = 8" using assms by (simp add: fd_ok_def mip_simps)
  have "drop 8 (put_fd fd @ bs) = put_u32 (fd_size fd) @ put_u16 (fd_first_cluster fd) @
      [fd_erased fd, fd_readonly fd] @ bs"
    "drop 12 (put_fd fd @ bs) = put_u16 (fd_first_cluster fd) @ [fd_erased fd, fd_readonly fd] @ bs"
    "take 8 (put_fd fd @ bs) = fd_filename fd"
    "(put_fd fd @ bs) ! 14 = fd_erased fd" "(put_fd fd @ bs) ! 15 = fd_readonly fd"
    using len by (simp_all add: put_fd_def nth_append)
  then show ?thesis by (simp only: get_fd_def get_put_u16 get_put_u32) simp
qed

lemma length_put_fd: "fd_ok fd \<Longrightarrow> length (put_fd fd) = sizeof_fd"
  by (simp add: put_fd_def fd_ok_def put_u16_def put_u32_def mip_simps)

text \<open>The \<open>i\<close>-th element of a sequence of images of equal length.\<close>

lemma drop_concat_images:
  assumes "\<forall>x \<in> set xs. length (f x) = n" "i < length xs"
  shows "\<exists>rest. drop (n * i) (concat (map f xs)) = f (xs ! i) @ rest"
  using assms
proof (induction xs arbitrary: i)
  case Nil
  then show ?case by simp
next
  case (Cons x xs)
  then show ?case
  proof (cases i)
    case (Suc j)
    with Cons have "\<exists>rest. drop (n * j) (concat (map f xs)) = f (xs ! j) @ rest" by auto
    with Cons.prems Suc show ?thesis by simp
  qed simp
qed

lemma drop_images_append:
  assumes "\<forall>x \<in> set xs. length (f x) = n" "i < length xs"
  shows "\<exists>rest. drop (n * i) (concat (map f xs) @ ys) = f (xs ! i) @ rest"
proof -
  have "length (concat (map f xs)) = n * length xs"
    using assms(1) by (induction xs) (auto simp: add_mult_distrib2)
  with assms(2) drop_concat_images [OF assms] show ?thesis by auto
qed

lemma length_put_ftbl: "ftbl_ok t \<Longrightarrow> length (put_ftbl t) = sizeof_ftbl"
proof -
  assume ok: "ftbl_ok t"
  have "length (concat (map put_fd xs)) = 16 * length xs" if "list_all fd_ok xs" for xs
    using that by (induction xs) (auto simp: length_put_fd mip_simps)
  moreover have "length (concat (map put_u16 xs)) = 2 * length xs" for xs by (induction xs) auto
  ultimately show ?thesis using ok by (simp add: put_ftbl_def ftbl_ok_def mip_simps)
qed

text \<open>Writing the table to the device and reading it back gives the table.\<close>

lemma get_put_ftbl:
  assumes ok: "ftbl_ok t"
  shows "get_ftbl (put_ftbl t) = t"
proof -
  let ?fds = "ft_file_fs_desc t" and ?tbl = "ft_cluster_tbl t"
  have len: "length (ft_volume_description t) = 8" "length ?fds = 8" "length ?tbl = 32"
    and fds: "\<forall>x \<in> set ?fds. length (put_fd x) = 16" "\<forall>x \<in> set ?fds. fd_ok x"
    using ok by (auto simp: ftbl_ok_def list_all_iff length_put_fd mip_simps)
  have sum: "length (concat (map put_fd ?fds)) = 128"
  proof -
    have "length (concat (map put_fd xs)) = 16 * length xs" if "\<forall>x \<in> set xs. length (put_fd x) = 16" for xs
      using that by (induction xs) auto
    with fds(1) len(2) show ?thesis by simp
  qed
  have drop_image: "drop (12 + k) (put_ftbl t) = drop k (concat (map put_fd ?fds) @ concat (map put_u16 ?tbl))" for k
  proof -
    have "put_ftbl t = (ft_volume_description t @ [ft_maj_version t, ft_min_version t, NUL, NUL]) @
        concat (map put_fd ?fds) @ concat (map put_u16 ?tbl)" by (simp add: put_ftbl_def)
    moreover have "length (ft_volume_description t @ [ft_maj_version t, ft_min_version t, NUL, NUL]) = 12"
      using len(1) by simp
    ultimately show ?thesis by (metis drop_append drop_all add_diff_cancel_left' append_Nil le_add1)
  qed
  have "get_fd (drop (12 + 16 * i) (put_ftbl t)) = ?fds ! i" if "i < 8" for i
  proof -
    from drop_images_append [OF fds(1), of i "concat (map put_u16 ?tbl)"] that len obtain rest where
      "drop (16 * i) (concat (map put_fd ?fds) @ concat (map put_u16 ?tbl)) = put_fd (?fds ! i) @ rest" by auto
    then have "drop (12 + 16 * i) (put_ftbl t) = put_fd (?fds ! i) @ rest"
      using drop_image [of "16 * i"] by simp
    with get_put_fd [of "?fds ! i" rest] fds(2) that len(2) show ?thesis by simp
  qed
  moreover have "get_u16 (drop (140 + 2 * i) (put_ftbl t)) = ?tbl ! i" if "i < 32" for i
  proof -
    have "\<forall>x \<in> set ?tbl. length (put_u16 x) = 2" by simp
    from drop_concat_images [OF this, of i] that len(3) obtain rest where
      "drop (2 * i) (concat (map put_u16 ?tbl)) = put_u16 (?tbl ! i) @ rest" by auto
    then have "drop (140 + 2 * i) (put_ftbl t) = put_u16 (?tbl ! i) @ rest"
      using drop_image [of "128 + 2 * i"] sum by simp
    then show ?thesis by (simp add: get_put_u16)
  qed
  ultimately have "ft_file_fs_desc (get_ftbl (put_ftbl t)) = ?fds" "ft_cluster_tbl (get_ftbl (put_ftbl t)) = ?tbl"
    using len by (auto simp: get_ftbl_def mip_simps intro!: nth_equalityI)
  moreover have "ft_volume_description (get_ftbl (put_ftbl t)) = ft_volume_description t"
      "ft_maj_version (get_ftbl (put_ftbl t)) = ft_maj_version t" "ft_min_version (get_ftbl (put_ftbl t)) = ft_min_version t"
    using len(1) by (simp_all add: get_ftbl_def put_ftbl_def nth_append)
  ultimately show ?thesis by simp
qed

end
