(* ===== verification/Mipos_Tfs.thy ===== *)
theory Mipos_Tfs
  imports Mipos_Tfs_Types "HOL-Library.Char_ord" "HOL-Library.Monad_Syntax"
begin

text \<open>
  The operations of the tiny file system (\<^verbatim>\<open>mipos_tfs.c\<close>), each as a function of the file
  system state; \<open>None\<close> is a fault (an access outside an array, a null driver routine), an
  endless loop, or a wait for the access mutex that the waiting task itself holds. The calls
  of the scheduler inside the loops do not change the file system and are left out; all
  they allow is that other tasks run, which cannot enter the sections under the mutex.
\<close>

type_synonym ('d, 'a) tfs_op = "'d tfs \<Rightarrow> ('a \<times> 'd tfs) option"

subsection \<open>Access to the tables\<close>

definition tfs_lock_access :: "'d tfs \<Rightarrow> 'd tfs option" where
  "tfs_lock_access fs =
     (if mtx_state (tfs_lock fs) = MUTEX_UNLOCKED
      then Some (fs\<lparr>tfs_lock := (tfs_lock fs)\<lparr>mtx_state := mtx_state (tfs_lock fs) OR MUTEX_LOCKED\<rparr>\<rparr>)
      else None)"

definition tfs_unlock_access :: "'d tfs \<Rightarrow> 'd tfs" where
  "tfs_unlock_access fs = fs\<lparr>tfs_lock := mipos_mu_unlock (tfs_lock fs)\<rparr>"

text \<open>A section between \<^verbatim>\<open>mipos_tfs_lock_access\<close> and \<^verbatim>\<open>mipos_tfs_unlock_access\<close>.\<close>

definition with_access :: "('d, 'a) tfs_op \<Rightarrow> ('d, 'a) tfs_op" where
  "with_access f fs =
     do { fs1 \<leftarrow> tfs_lock_access fs; (r, fs2) \<leftarrow> f fs1; Some (r, tfs_unlock_access fs2) }"

abbreviation cluster_tbl :: "'d tfs \<Rightarrow> u16 list" where
  "cluster_tbl fs \<equiv> ft_cluster_tbl (tfs_ftbl_of fs)"

abbreviation file_fs_desc :: "'d tfs \<Rightarrow> tfs_fd list" where
  "file_fs_desc fs \<equiv> ft_file_fs_desc (tfs_ftbl_of fs)"

definition upd_tbl :: "nat \<Rightarrow> u16 \<Rightarrow> 'd tfs \<Rightarrow> 'd tfs" where
  "upd_tbl i v fs = fs\<lparr>tfs_ftbl_of := (tfs_ftbl_of fs)\<lparr>ft_cluster_tbl := (cluster_tbl fs)[i := v]\<rparr>\<rparr>"

definition upd_fd :: "nat \<Rightarrow> (tfs_fd \<Rightarrow> tfs_fd) \<Rightarrow> 'd tfs \<Rightarrow> 'd tfs" where
  "upd_fd i f fs =
     fs\<lparr>tfs_ftbl_of := (tfs_ftbl_of fs)\<lparr>ft_file_fs_desc := (file_fs_desc fs)[i := f (file_fs_desc fs ! i)]\<rparr>\<rparr>"

definition upd_ctl :: "nat \<Rightarrow> (tfs_ctl \<Rightarrow> tfs_ctl) \<Rightarrow> 'd tfs \<Rightarrow> 'd tfs" where
  "upd_ctl i f fs = fs\<lparr>tfs_file_ctl := (tfs_file_ctl fs)[i := f (tfs_file_ctl fs ! i)]\<rparr>"

definition set_err :: "tfs_err_code \<Rightarrow> 'd tfs \<Rightarrow> 'd tfs" where
  "set_err e fs = fs\<lparr>tfs_last_error := e\<rparr>"

definition dev_write :: "bytes \<Rightarrow> nat \<Rightarrow> ('d, int) tfs_op" where
  "dev_write bs off fs =
     do { w \<leftarrow> io_write (tfs_io_dev fs);
          (ret, d) \<leftarrow> w bs (of_nat off) (tfs_disk fs);
          Some (ret, fs\<lparr>tfs_disk := d\<rparr>) }"

definition dev_read :: "nat \<Rightarrow> nat \<Rightarrow> 'd tfs \<Rightarrow> (int \<times> bytes) option" where
  "dev_read n off fs = do { r \<leftarrow> io_read (tfs_io_dev fs); r n (of_nat off) (tfs_disk fs) }"

definition update_fs_on_disk :: "('d, int) tfs_op" where
  "update_fs_on_disk fs = dev_write (put_ftbl (tfs_ftbl_of fs)) tfs_OFFSET fs"

subsection \<open>Clusters\<close>

definition tfs_get_cluster_val :: "u16 \<Rightarrow> ('d, u16) tfs_op" where
  "tfs_get_cluster_val current =
     with_access (\<lambda>fs. if unat current < length (cluster_tbl fs)
                       then Some (cluster_tbl fs ! unat current, fs) else None)"

definition set_cluster_val :: "u16 \<Rightarrow> u16 \<Rightarrow> ('d, unit) tfs_op" where
  "set_cluster_val current v =
     with_access (\<lambda>fs. if unat current < length (cluster_tbl fs)
                       then Some ((), upd_tbl (unat current) v fs) else None)"

definition reserve_cluster :: "('d, u16 option) tfs_op" where
  "reserve_cluster =
     with_access (\<lambda>fs.
       case first_index (\<lambda>i. cluster_tbl fs ! i = FREE_CLUSTER) 0 tfs_CLUSTERS_COUNT of
         None \<Rightarrow> Some (None, fs)
       | Some i \<Rightarrow> Some (Some (of_nat i), upd_tbl i RESERVED_CLUSTER fs))"

definition get_next_cluster :: "u16 \<Rightarrow> ('d, u16 option) tfs_op" where
  "get_next_cluster current fs =
     (if unat current \<ge> tfs_CLUSTERS_COUNT then Some (None, fs)
      else do { (v, fs1) \<leftarrow> tfs_get_cluster_val current fs;
                Some (if unat v \<ge> tfs_CLUSTERS_COUNT then None else Some v, fs1) })"

definition link_cluster :: "u16 \<Rightarrow> u16 \<Rightarrow> ('d, bool) tfs_op" where
  "link_cluster current link_to fs =
     (if unat current \<ge> tfs_CLUSTERS_COUNT \<or> unat link_to \<ge> tfs_CLUSTERS_COUNT then Some (False, fs)
      else do { (_, fs1) \<leftarrow> set_cluster_val current link_to fs; Some (True, fs1) })"

definition mark_cluster_last :: "u16 \<Rightarrow> ('d, unit) tfs_op" where
  "mark_cluster_last cluster = set_cluster_val cluster LAST_ALLOCATED_CLUSTER"

definition mark_cluster_free :: "u16 \<Rightarrow> ('d, unit) tfs_op" where
  "mark_cluster_free cluster = set_cluster_val cluster FREE_CLUSTER"

definition mark_cluster_reserved :: "u16 \<Rightarrow> ('d, unit) tfs_op" where
  "mark_cluster_reserved cluster = set_cluster_val cluster RESERVED_CLUSTER"

text \<open>
  \<^verbatim>\<open>get_cluster_seek_pt\<close>: the first argument counts the clusters still to go. When the chain ends
  exactly one step early the last cluster is returned with success: that is how an
  append at a cluster boundary finds the cluster to link from.
\<close>

fun seek_walk :: "nat \<Rightarrow> u16 \<Rightarrow> ('d, bool \<times> u16) tfs_op" where
  "seek_walk 0 current fs = Some ((True, current), fs)"
| "seek_walk (Suc n) current fs =
     do { (nx, fs1) \<leftarrow> get_next_cluster current fs;
          (case nx of None \<Rightarrow> Some ((n = 0, current), fs1) | Some c \<Rightarrow> seek_walk n c fs1) }"

definition get_cluster_seek_pt :: "tfs_fd \<Rightarrow> tfs_ctl \<Rightarrow> ('d, bool \<times> u16) tfs_op" where
  "get_cluster_seek_pt fd ctl =
     seek_walk (unat (of_nat (unat (ctl_seek_pointer ctl) div tfs_CLUSTER_SIZE) :: u16))
       (fd_first_cluster fd)"

definition cluster_address :: "u16 \<Rightarrow> nat \<Rightarrow> nat" where
  "cluster_address cluster offset = unat cluster * tfs_CLUSTER_SIZE + offset + tfs_SIZE + tfs_OFFSET"

text \<open>Both return the driver's result and the number of bytes moved; reading also the bytes.\<close>

definition write_cluster :: "u16 \<Rightarrow> nat \<Rightarrow> bytes \<Rightarrow> nat \<Rightarrow> ('d, int \<times> nat) tfs_op" where
  "write_cluster cluster cluster_offset src wbytes =
     with_access (\<lambda>fs.
       let offset = cluster_offset mod tfs_CLUSTER_SIZE; n = min wbytes (tfs_CLUSTER_SIZE - offset) in
       if n = 0 then Some ((0, 0), fs)
       else if length src < n then None
       else do { (ret, fs1) \<leftarrow> dev_write (take n src) (cluster_address cluster offset) fs;
                 Some ((ret, n), fs1) })"

definition read_cluster :: "u16 \<Rightarrow> nat \<Rightarrow> nat \<Rightarrow> ('d, int \<times> nat \<times> bytes) tfs_op" where
  "read_cluster cluster cluster_offset rbytes =
     with_access (\<lambda>fs.
       let offset = cluster_offset mod tfs_CLUSTER_SIZE; n = min rbytes (tfs_CLUSTER_SIZE - offset) in
       if n = 0 then Some ((0, 0, []), fs)
       else do { (ret, bs) \<leftarrow> dev_read n (cluster_address cluster offset) fs;
                 Some ((ret, n, bs), fs) })"

subsection \<open>Names\<close>

definition name_char :: "char \<Rightarrow> bool" where
  "name_char c \<longleftrightarrow> (CHR ''0'' \<le> c \<and> c \<le> CHR ''9'') \<or> (CHR ''A'' \<le> c \<and> c \<le> CHR ''Z'') \<or>
     (CHR ''a'' \<le> c \<and> c \<le> CHR ''z'') \<or> c = CHR ''_'' \<or> c = CHR ''-'' \<or> c = CHR ''.''"

definition tfs_check_file_name :: "bytes \<Rightarrow> bool" where
  "tfs_check_file_name filename \<longleftrightarrow>
     length filename < tfs_MAX_FILENAME_LENGTH \<and> list_all name_char filename"

text \<open>\<^verbatim>\<open>strncpy\<close> into the front of a buffer, and the string that a buffer holds, if it ends in it.\<close>

definition strncpy :: "bytes \<Rightarrow> bytes \<Rightarrow> nat \<Rightarrow> bytes option" where
  "strncpy dst src n =
     (if length dst < n then None else Some (take n (src @ replicate n NUL) @ drop n dst))"

definition c_str :: "bytes \<Rightarrow> bytes option" where
  "c_str buf = (if NUL \<in> set buf then Some (takeWhile (\<lambda>c. c \<noteq> NUL) buf) else None)"

subsection \<open>Locks of files and copies of descriptors\<close>

definition tfs_lock_file :: "u16 \<Rightarrow> 'd tfs \<Rightarrow> bool \<times> 'd tfs" where
  "tfs_lock_file h fs =
     (if unat h \<ge> tfs_MAX_N_OF_FILES then (False, fs)
      else if \<not> ctl_locked (tfs_file_ctl fs ! unat h)
      then (True, upd_ctl (unat h) (\<lambda>c. c\<lparr>ctl_locked := True\<rparr>) fs)
      else (False, fs))"

definition tfs_unlock_file :: "u16 \<Rightarrow> 'd tfs \<Rightarrow> bool \<times> 'd tfs" where
  "tfs_unlock_file h fs =
     (if unat h \<ge> tfs_MAX_N_OF_FILES then (False, fs)
      else if ctl_locked (tfs_file_ctl fs ! unat h)
      then (True, upd_ctl (unat h) (\<lambda>c. c\<lparr>ctl_locked := False\<rparr>) fs)
      else (False, fs))"

text \<open>\<open>None\<close> inside the result when the handle is out of range: the buffer is not written.\<close>

definition tfs_get_ctl :: "u16 \<Rightarrow> ('d, tfs_ctl option) tfs_op" where
  "tfs_get_ctl h fs =
     (if unat h \<ge> tfs_MAX_N_OF_FILES then Some (None, fs)
      else with_access (\<lambda>fs. Some (Some (tfs_file_ctl fs ! unat h), fs)) fs)"

definition tfs_get_fd :: "u16 \<Rightarrow> ('d, (bool \<times> tfs_fd) option) tfs_op" where
  "tfs_get_fd h fs =
     (if unat h \<ge> tfs_MAX_N_OF_FILES then Some (None, fs)
      else do { (fd, fs1) \<leftarrow> with_access (\<lambda>fs. Some (file_fs_desc fs ! unat h, fs)) fs;
                Some (Some (fd_erased fd = NUL, fd), fs1) })"

subsection \<open>Formatting and mounting\<close>

definition tfs_get_last_error :: "'d tfs \<Rightarrow> tfs_err_code" where
  "tfs_get_last_error fs = tfs_last_error fs"

definition tfs_setup :: "('d, bool) tfs_op" where
  "tfs_setup fs =
     (if io_read (tfs_io_dev fs) = None \<or> io_write (tfs_io_dev fs) = None then Some (False, fs)
      else do {
        (ret, bs) \<leftarrow> dev_read sizeof_ftbl tfs_OFFSET fs;
        if ret < 0 then Some (False, fs\<lparr>tfs_ftbl_of := get_ftbl bs\<rparr>)
        else do {
          (_, fs1) \<leftarrow> update_fs_on_disk
            (fs\<lparr>tfs_ftbl_of := get_ftbl bs, tfs_file_ctl := replicate tfs_MAX_N_OF_FILES zero_ctl\<rparr>);
          Some (True, fs1\<lparr>tfs_lock := mipos_mu_init (tfs_lock fs1)\<rparr>)
        }
      })"

definition tfs_get_label :: "('d, bytes) tfs_op" where
  "tfs_get_label = with_access (\<lambda>fs. do { l \<leftarrow> c_str (ft_volume_description (tfs_ftbl_of fs)); Some (l, fs) })"

text \<open>\<^verbatim>\<open>mipos_tfs_mkfs\<close>: the loop over the clusters stops at the first write that fails.\<close>

fun mkfs_clusters :: "nat list \<Rightarrow> int \<Rightarrow> ('d, int) tfs_op" where
  "mkfs_clusters [] ret fs = Some (ret, fs)"
| "mkfs_clusters (j # js) ret fs =
     do { (r, fs1) \<leftarrow> dev_write (replicate tfs_CLUSTER_SIZE NUL) (j * tfs_CLUSTER_SIZE + tfs_OFFSET)
            (upd_tbl j FREE_CLUSTER fs);
          if r \<noteq> 0 then Some (r, fs1) else mkfs_clusters js r fs1 }"

definition mkfs_table :: "bytes option \<Rightarrow> 'd tfs \<Rightarrow> 'd tfs option" where
  "mkfs_table volume fs =
     do { v \<leftarrow> (case volume of
                  Some d \<Rightarrow> strncpy (ft_volume_description (tfs_ftbl_of fs)) d tfs_MAX_VOLUME_LENGTH
                | None \<Rightarrow> Some (replicate tfs_MAX_VOLUME_LENGTH NUL));
          Some (fs\<lparr>tfs_ftbl_of := (tfs_ftbl_of fs)\<lparr>
                     ft_volume_description := v,
                     ft_maj_version := char_of tfs_MAX_VERSION, ft_min_version := char_of tfs_MIN_VERSION,
                     ft_file_fs_desc := replicate tfs_MAX_N_OF_FILES (zero_fd\<lparr>fd_erased := CHR 0x01\<rparr>)\<rparr>,
                   tfs_file_ctl := replicate tfs_MAX_N_OF_FILES zero_ctl\<rparr>) }"

definition tfs_mkfs :: "bytes option \<Rightarrow> ('d, bool) tfs_op" where
  "tfs_mkfs volume fs =
     do { (ret, fs1) \<leftarrow> with_access
            (\<lambda>fs. do { fs0 \<leftarrow> mkfs_table volume fs; mkfs_clusters [0..<tfs_CLUSTERS_COUNT] 0 fs0 }) fs;
          if ret = 0 then do { (r, fs2) \<leftarrow> update_fs_on_disk fs1; Some (r = 0, fs2) }
          else Some (False, fs1) }"

subsection \<open>Directory\<close>

text \<open>The position of the first \<^verbatim>\<open>*\<close>, or the length of the name.\<close>

definition jolly_pos :: "bytes \<Rightarrow> nat" where
  "jolly_pos filename = length (takeWhile (\<lambda>c. c \<noteq> CHR ''*'') filename)"

text \<open>
  \<^verbatim>\<open>mipos_tfs_ffirst\<close>: only the first \<open>jolly_pos\<close> characters of the names are compared. Copying more
  than the eight bytes of \<^verbatim>\<open>tmpFileName\<close>, or filling it without a final null character, is a fault.
\<close>

fun ffirst_scan :: "bytes \<Rightarrow> nat \<Rightarrow> nat list \<Rightarrow> ('d, u16 option) tfs_op" where
  "ffirst_scan name n [] fs = Some (None, fs)"
| "ffirst_scan name n (i # is) fs =
     do { (fd, fs1) \<leftarrow> with_access (\<lambda>fs. Some (file_fs_desc fs ! i, fs)) fs;
          if fd_erased fd = NUL
          then do { (desc, fs2) \<leftarrow> with_access (\<lambda>fs. Some (file_fs_desc fs ! i, fs)) fs1;
                    if takeWhile (\<lambda>c. c \<noteq> NUL) (take n (fd_filename desc)) = name
                    then Some (Some (of_nat i), fs2) else ffirst_scan name n is fs2 }
          else ffirst_scan name n is fs1 }"

definition tfs_ffirst :: "bytes option \<Rightarrow> ('d, u16 option) tfs_op" where
  "tfs_ffirst filename fs =
     (case filename of
        None \<Rightarrow> Some (None, set_err ERR_BAD_FILENAME fs)
      | Some name \<Rightarrow>
          do { buf \<leftarrow> strncpy (replicate tfs_MAX_FILENAME_LENGTH NUL) name (jolly_pos name);
               tmp \<leftarrow> c_str buf;
               if \<not> tfs_check_file_name tmp then Some (None, set_err ERR_BAD_FILENAME fs)
               else ffirst_scan tmp (jolly_pos name) [0..<tfs_MAX_N_OF_FILES] fs })"

fun fnext_scan :: "nat list \<Rightarrow> ('d, u16 option) tfs_op" where
  "fnext_scan [] fs = Some (None, fs)"
| "fnext_scan (i # is) fs =
     do { (fd, fs1) \<leftarrow> with_access (\<lambda>fs. Some (file_fs_desc fs ! i, fs)) fs;
          if fd_erased fd = NUL then Some (Some (of_nat i), fs1) else fnext_scan is fs1 }"

text \<open>The handle is incremented in place, so it moves on even when nothing is found.\<close>

definition tfs_fnext :: "u16 \<Rightarrow> ('d, bool \<times> u16) tfs_op" where
  "tfs_fnext h fs =
     do { (r, fs1) \<leftarrow> fnext_scan [unat (h + 1)..<tfs_MAX_N_OF_FILES] fs;
          Some (case r of None \<Rightarrow> (False, h + 1) | Some i \<Rightarrow> (True, i), fs1) }"

definition tfs_fexist :: "bytes option \<Rightarrow> ('d, bool) tfs_op" where
  "tfs_fexist filename fs = do { (r, fs1) \<leftarrow> tfs_ffirst filename fs; Some (r \<noteq> None, fs1) }"

definition tfs_get_fsize :: "bytes option \<Rightarrow> ('d, u32 option) tfs_op" where
  "tfs_get_fsize filename fs =
     do { (r, fs1) \<leftarrow> tfs_ffirst filename fs;
          (case r of None \<Rightarrow> Some (None, fs1)
           | Some h \<Rightarrow> do { (fd, fs2) \<leftarrow> tfs_get_fd h fs1;
                            Some (case fd of Some (True, d) \<Rightarrow> Some (fd_size d) | _ \<Rightarrow> None, fs2) }) }"

text \<open>
  \<^verbatim>\<open>mipos_tfs_rename_file\<close> copies the new name to \<^verbatim>\<open>&file_fs_desc->filename[handle]\<close>: eight bytes
  from byte \<open>handle\<close> of the first descriptor on, whatever file was found.
\<close>

definition tfs_rename_file :: "bytes option \<Rightarrow> bytes \<Rightarrow> ('d, bool) tfs_op" where
  "tfs_rename_file filename new_filename fs =
     do { (r, fs1) \<leftarrow> tfs_ffirst filename fs;
          (case r of
             Some h \<Rightarrow>
               if tfs_check_file_name new_filename
               then do {
                 (_, fs2) \<leftarrow> with_access (\<lambda>fs. do {
                   let old = put_fd (file_fs_desc fs ! 0);
                   new \<leftarrow> strncpy (drop (unat h) old) new_filename tfs_MAX_FILENAME_LENGTH;
                   Some ((), upd_fd 0 (\<lambda>_. get_fd (take (unat h) old @ new)) fs) }) fs1;
                 (ret, fs3) \<leftarrow> update_fs_on_disk fs2;
                 Some (ret = 0, fs3)
               }
               else Some (False, set_err ERR_BAD_FILENAME fs1)
           | None \<Rightarrow> Some (False, set_err ERR_BAD_FILENAME fs1)) }"

subsection \<open>Opening, creating, closing, deleting\<close>

text \<open>
  The scan of \<^verbatim>\<open>mipos_tfs_open_file\<close> for a file of that name that is neither open nor
  locked. A stored name without a final null character overruns \<^verbatim>\<open>tmpFileName\<close>.
\<close>

fun open_scan :: "bytes \<Rightarrow> nat list \<Rightarrow> ('d, nat option) tfs_op" where
  "open_scan filename [] fs = Some (None, fs)"
| "open_scan filename (i # is) fs =
     do { (fd, fs1) \<leftarrow> with_access (\<lambda>fs. Some (file_fs_desc fs ! i, fs)) fs;
          if fd_erased fd = NUL
          then do {
            ((tmp, ctl), fs2) \<leftarrow> with_access (\<lambda>fs. do {
              t \<leftarrow> c_str (fd_filename (file_fs_desc fs ! i)); Some ((t, tfs_file_ctl fs ! i), fs) }) fs1;
            if filename = tmp \<and> \<not> ctl_locked ctl \<and> \<not> ctl_open ctl
            then Some (Some i, fs2) else open_scan filename is fs2
          }
          else open_scan filename is fs1 }"

definition tfs_open_file :: "bytes \<Rightarrow> tfs_fopenmode \<Rightarrow> ('d, bool \<times> u16) tfs_op" where
  "tfs_open_file filename mode fs =
     (if \<not> tfs_check_file_name filename then Some ((False, INVALID_FILE_HANDLE), fs)
      else do {
        (r, fs1) \<leftarrow> open_scan filename [0..<tfs_MAX_N_OF_FILES] fs;
        (case r of
           None \<Rightarrow> Some ((False, INVALID_FILE_HANDLE), fs1)
         | Some i \<Rightarrow>
             if mode = FILE_OPEN_WRITE \<and> fd_readonly (file_fs_desc fs1 ! i) \<noteq> NUL
             then Some ((False, INVALID_FILE_HANDLE), fs1)
             else with_access (\<lambda>fs. Some ((True, of_nat i), upd_ctl i (\<lambda>c. c\<lparr>ctl_open := True,
               ctl_file_open_mode := mode, ctl_seek_pointer := 0, ctl_eof_while_read := False\<rparr>) fs)) fs1)
      })"

fun erased_scan :: "nat list \<Rightarrow> ('d, nat option) tfs_op" where
  "erased_scan [] fs = Some (None, fs)"
| "erased_scan (i # is) fs =
     do { (fd, fs1) \<leftarrow> with_access (\<lambda>fs. Some (file_fs_desc fs ! i, fs)) fs;
          if fd_erased fd \<noteq> NUL then Some (Some i, fs1) else erased_scan is fs1 }"

definition create_desc :: "nat \<Rightarrow> bytes \<Rightarrow> 'd tfs \<Rightarrow> 'd tfs option" where
  "create_desc i filename fs =
     do { name \<leftarrow> strncpy (fd_filename (file_fs_desc fs ! i)) filename (tfs_MAX_FILENAME_LENGTH - 1);
          Some (upd_ctl i (\<lambda>c. c\<lparr>ctl_open := True, ctl_locked := False, ctl_seek_pointer := 0,
                                  ctl_file_open_mode := FILE_OPEN_WRITE\<rparr>)
            (upd_fd i (\<lambda>d. d\<lparr>fd_first_cluster := EMPTY_CLUSTER, fd_erased := NUL, fd_readonly := NUL,
                                fd_size := 0, fd_filename := name\<rparr>) fs)) }"

definition tfs_create_file :: "bytes \<Rightarrow> ('d, bool \<times> u16) tfs_op" where
  "tfs_create_file filename fs =
     (if \<not> tfs_check_file_name filename
      then Some ((False, INVALID_FILE_HANDLE), set_err ERR_BAD_FILENAME fs)
      else do {
        (exists, fs1) \<leftarrow> tfs_fexist (Some filename) fs;
        if exists then Some ((False, INVALID_FILE_HANDLE), set_err ERR_FILENAME_ALREADY_PRESENT fs1)
        else do {
          (r, fs2) \<leftarrow> erased_scan [0..<tfs_MAX_N_OF_FILES] fs1;
          (case r of
             None \<Rightarrow> Some ((False, INVALID_FILE_HANDLE), set_err ERR_NO_ENOUGH_FREE_BLOCKS fs2)
           | Some i \<Rightarrow> do {
               (_, fs3) \<leftarrow> with_access (\<lambda>fs. do { fs' \<leftarrow> create_desc i filename fs; Some ((), fs') }) fs2;
               (ret, fs4) \<leftarrow> update_fs_on_disk fs3;
               Some ((ret = 0, of_nat i), fs4) })
        }
      })"

definition tfs_close_file :: "u16 \<Rightarrow> ('d, bool) tfs_op" where
  "tfs_close_file h fs =
     (if unat h \<ge> tfs_MAX_N_OF_FILES then Some (False, set_err ERR_CLOSE_FAILED fs)
      else with_access (\<lambda>fs. Some (True,
        upd_ctl (unat h) (\<lambda>c. c\<lparr>ctl_open := False, ctl_seek_pointer := 0\<rparr>) fs)) fs)"

text \<open>Giving back the clusters of a chain.\<close>

partial_function (option) free_chain_loop :: "u16 \<Rightarrow> 'd tfs \<Rightarrow> 'd tfs option" where
  "free_chain_loop current fs =
     do { (nx, fs1) \<leftarrow> get_next_cluster current fs;
          (_, fs2) \<leftarrow> (if unat current < tfs_CLUSTERS_COUNT then mark_cluster_free current fs1 else Some ((), fs1));
          (case nx of None \<Rightarrow> Some fs2 | Some c \<Rightarrow> free_chain_loop c fs2) }"

definition tfs_delete_file :: "bytes option \<Rightarrow> ('d, bool) tfs_op" where
  "tfs_delete_file filename fs =
     do { (r, fs1) \<leftarrow> tfs_ffirst filename fs;
          (case r of
             None \<Rightarrow> Some (False, set_err ERR_CLOSE_FAILED fs1)
           | Some h \<Rightarrow>
               (case tfs_lock_file h fs1 of
                  (False, fs2) \<Rightarrow> Some (False, set_err ERR_DELETE_FAILED fs2)
                | (True, fs2) \<Rightarrow> do {
                    (fd, fs3) \<leftarrow> with_access (\<lambda>fs. Some (file_fs_desc fs ! unat h, fs)) fs2;
                    if fd_erased fd \<noteq> NUL \<or> fd_readonly fd \<noteq> NUL
                    then Some (False, set_err ERR_DELETE_FAILED (snd (tfs_unlock_file h fs3)))
                    else do {
                      (c, fs4) \<leftarrow> with_access (\<lambda>fs. Some (fd_first_cluster (file_fs_desc fs ! unat h),
                        upd_fd (unat h) (\<lambda>_. zero_fd\<lparr>fd_erased := CHR 0x01\<rparr>) fs)) fs3;
                      fs5 \<leftarrow> free_chain_loop c fs4;
                      (ret, fs6) \<leftarrow> update_fs_on_disk fs5;
                      Some (ret = 0, fs6)
                    } })) }"

subsection \<open>Positioning, reading, writing\<close>

definition tfs_seek_file :: "nat \<Rightarrow> int \<Rightarrow> u16 \<Rightarrow> ('d, bool) tfs_op" where
  "tfs_seek_file seek_code seekpos h fs =
     (case tfs_lock_file h fs of
        (False, fs1) \<Rightarrow> Some (False, set_err ERR_SEEK_FAILED fs1)
      | (True, fs1) \<Rightarrow>
          do { (size, fs2) \<leftarrow> with_access (\<lambda>fs. Some (fd_size (file_fs_desc fs ! unat h), fs)) fs1;
               (ok, fs3) \<leftarrow>
                 (if seek_code = tfs_SEEK_BEGIN then
                    with_access (\<lambda>fs.
                      if seekpos > 0 \<and> (word_of_int seekpos :: u32) < size
                      then Some (True, upd_ctl (unat h) (\<lambda>c. c\<lparr>ctl_seek_pointer := word_of_int seekpos\<rparr>) fs)
                      else Some (False, set_err ERR_SEEK_FAILED fs)) fs2
                  else if seek_code = tfs_SEEK_CURRENT then
                    with_access (\<lambda>fs. Some (True, upd_ctl (unat h)
                      (\<lambda>c. c\<lparr>ctl_seek_pointer := ctl_seek_pointer c + word_of_int seekpos\<rparr>) fs)) fs2
                  else if seek_code = tfs_SEEK_END then
                    with_access (\<lambda>fs. Some (True, upd_ctl (unat h)
                      (\<lambda>c. c\<lparr>ctl_seek_pointer := fd_size (file_fs_desc fs ! unat h) + word_of_int seekpos\<rparr>) fs)) fs2
                  else Some (False, set_err ERR_SEEK_FAILED fs2));
               Some (ok, snd (tfs_unlock_file h fs3)) })"

text \<open>
  The loop of \<^verbatim>\<open>mipos_tfs_read_file\<close>: \<open>rem\<close> bytes are still to be read, \<open>acc\<close> are those delivered.
  The result tells whether all was read, how many bytes are missing, and the bytes.
\<close>

function read_loop :: "u16 \<Rightarrow> u16 \<Rightarrow> nat \<Rightarrow> nat \<Rightarrow> bytes \<Rightarrow> ('d, bool \<times> nat \<times> bytes) tfs_op" where
  "read_loop h cluster off rem acc fs =
     do { ((_, n, bs), fs1) \<leftarrow> read_cluster cluster off rem fs;
          if n = 0 then Some ((False, rem, acc), set_err ERR_READ_NOT_COMPLETED fs1)
          else do {
            (_, fs2) \<leftarrow> with_access (\<lambda>fs. Some ((), upd_ctl (unat h)
              (\<lambda>c. c\<lparr>ctl_seek_pointer := ctl_seek_pointer c + of_nat n\<rparr>) fs)) fs1;
            if n \<ge> rem then Some ((True, rem - n, acc @ bs), fs2)
            else do {
              (nx, fs3) \<leftarrow> get_next_cluster cluster fs2;
              (case nx of
                 None \<Rightarrow> Some ((False, rem - n, acc @ bs), set_err ERR_READ_NOT_COMPLETED fs3)
               | Some c \<Rightarrow> read_loop h c 0 (rem - n) (acc @ bs) fs3)
            }
          } }"
  by pat_completeness auto

termination
  by (relation "measure (\<lambda>(h, cluster, off, rem, acc, fs). rem)") auto

declare read_loop.simps [simp del]

definition read_fail :: "u32 \<Rightarrow> u16 \<Rightarrow> ('d, bool \<times> u32 \<times> bytes) tfs_op" where
  "read_fail rbytes h fs = Some ((False, rbytes, []), snd (tfs_unlock_file h (set_err ERR_READ_FAILED fs)))"

text \<open>The result: success, the value left in \<^verbatim>\<open>*rbytes\<close>, the bytes stored in the buffer.\<close>

definition tfs_read_file :: "u32 \<Rightarrow> u16 \<Rightarrow> ('d, bool \<times> u32 \<times> bytes) tfs_op" where
  "tfs_read_file rbytes h fs =
     (case tfs_lock_file h fs of
        (False, fs1) \<Rightarrow> read_fail rbytes h fs1
      | (True, fs1) \<Rightarrow>
          do { (r_fd, fs2) \<leftarrow> tfs_get_fd h fs1;
               (r_ctl, fs3) \<leftarrow> tfs_get_ctl h fs2;
               fd \<leftarrow> map_option snd r_fd;
               ctl \<leftarrow> r_ctl;
               if \<not> ctl_open ctl \<or> fd_size fd \<le> ctl_seek_pointer ctl then read_fail rbytes h fs3
               else do {
                 ((found, cluster), fs4) \<leftarrow> get_cluster_seek_pt fd ctl fs3;
                 if \<not> found then read_fail rbytes h fs4
                 else do {
                   let off = unat (ctl_seek_pointer ctl) mod tfs_CLUSTER_SIZE;
                   let beyond = fd_size fd < rbytes + ctl_seek_pointer ctl;
                   (_, fs5) \<leftarrow> (if beyond then with_access (\<lambda>fs. Some ((), upd_ctl (unat h)
                       (\<lambda>c. c\<lparr>ctl_eof_while_read := True\<rparr>) fs)) fs4 else Some ((), fs4));
                   let to_read = (if beyond then fd_size fd - ctl_seek_pointer ctl else rbytes);
                   ((ok, missing, bs), fs6) \<leftarrow> read_loop h cluster off (unat to_read) [] fs5;
                   Some ((ok, of_nat (unat to_read - missing), bs), snd (tfs_unlock_file h fs6))
                 }
               } })"

text \<open>
  The loop of \<^verbatim>\<open>mipos_tfs_write_file\<close>: \<open>tot\<close> bytes of \<open>src\<close> are still to be written. The result is
  the driver's last answer and the number of bytes not written. The size added in the middle
  of the loop is \<^verbatim>\<open>bytes_written\<close>, which is 0 until the loop has ended.
\<close>

definition next_for_write :: "u16 \<Rightarrow> u16 \<Rightarrow> ('d, u16 option) tfs_op" where
  "next_for_write h cluster fs =
     (if fd_size (file_fs_desc fs ! unat h) < ctl_seek_pointer (tfs_file_ctl fs ! unat h)
      then do { (r, fs1) \<leftarrow> reserve_cluster fs;
                (case r of None \<Rightarrow> do { (_, fs2) \<leftarrow> mark_cluster_last cluster fs1; Some (None, fs2) }
                 | Some c \<Rightarrow> Some (Some c, fs1)) }
      else do { (r, fs1) \<leftarrow> get_next_cluster cluster fs;
                (case r of None \<Rightarrow> do { (_, fs2) \<leftarrow> mark_cluster_last cluster fs1; Some (None, fs2) }
                 | Some c \<Rightarrow> Some (Some c, fs1)) })"

definition finish_write :: "u16 \<Rightarrow> u16 \<Rightarrow> 'd tfs \<Rightarrow> 'd tfs option" where
  "finish_write h cluster fs =
     (let seek = ctl_seek_pointer (tfs_file_ctl fs ! unat h) in
      if fd_size (file_fs_desc fs ! unat h) < seek
      then do { (_, fs1) \<leftarrow> mark_cluster_last cluster (upd_fd (unat h) (\<lambda>d. d\<lparr>fd_size := seek\<rparr>) fs); Some fs1 }
      else Some fs)"

lemma write_cluster_amount:
  "write_cluster cluster off src tot fs = Some ((ret, n), fs1) \<Longrightarrow> n = min tot (tfs_CLUSTER_SIZE - off mod tfs_CLUSTER_SIZE)"
  by (auto simp: write_cluster_def with_access_def Let_def dev_write_def split: Option.bind_splits if_splits prod.splits)

lemma write_cluster_progress:
  assumes "write_cluster cluster off src tot fs = Some ((ret, n), fs1)" "\<not> tot \<le> n"
  shows "tot - n < tot"
proof -
  have "0 < tfs_CLUSTER_SIZE - off mod tfs_CLUSTER_SIZE" by (simp add: mip_simps)
  then have "0 < n" using write_cluster_amount [OF assms(1)] assms(2) by (auto simp: min_def split: if_splits)
  then show ?thesis using assms(2) by simp
qed

function write_loop :: "u16 \<Rightarrow> u16 \<Rightarrow> nat \<Rightarrow> nat \<Rightarrow> bytes \<Rightarrow> ('d, int \<times> nat) tfs_op" where
  "write_loop h cluster off tot src fs =
     do { ((ret, n), fs1) \<leftarrow> write_cluster cluster off src tot fs;
          (_, fs2) \<leftarrow> with_access (\<lambda>fs. Some ((), upd_ctl (unat h)
            (\<lambda>c. c\<lparr>ctl_seek_pointer := ctl_seek_pointer c + of_nat n\<rparr>) fs)) fs1;
          if tot - n = 0 then do { fs3 \<leftarrow> finish_write h cluster fs2; Some ((ret, 0), fs3) }
          else do {
            (nx, fs3) \<leftarrow> next_for_write h cluster fs2;
            (case nx of
               None \<Rightarrow> Some ((ret, tot - n), fs3)
             | Some c \<Rightarrow>
                 if ret \<noteq> 0 then Some ((ret, tot - n), fs3)
                 else do { (_, fs4) \<leftarrow> link_cluster cluster c fs3;
                           write_loop h c 0 (tot - n) (drop n src) fs4 })
          } }"
  by pat_completeness auto

termination
  by (relation "measure (\<lambda>(h, cluster, off, tot, src, fs). tot)") (auto intro: write_cluster_progress)

declare write_loop.simps [simp del]

definition write_fail :: "u16 \<Rightarrow> ('d, bool \<times> u32) tfs_op" where
  "write_fail h fs = Some ((False, 0), snd (tfs_unlock_file h (set_err ERR_WRITE_FAILED fs)))"

text \<open>The cluster that the first byte goes to: a new one when the file ends at a cluster boundary.\<close>

definition first_for_write :: "tfs_fd \<Rightarrow> tfs_ctl \<Rightarrow> ('d, u16 option) tfs_op" where
  "first_for_write fd ctl fs =
     (if ctl_seek_pointer ctl = fd_size fd \<and> unat (ctl_seek_pointer ctl) mod tfs_CLUSTER_SIZE = 0
      then
        if ctl_seek_pointer ctl > 0
        then do {
          ((found, cluster), fs1) \<leftarrow> get_cluster_seek_pt fd ctl fs;
          if \<not> found then Some (None, fs1)
          else do {
            (r, fs2) \<leftarrow> reserve_cluster fs1;
            (case r of None \<Rightarrow> Some (None, fs2)
             | Some c \<Rightarrow> do { (ok, fs3) \<leftarrow> link_cluster cluster c fs2; Some (if ok then Some c else None, fs3) })
          }
        }
        else reserve_cluster fs
      else do {
        ((found, cluster), fs1) \<leftarrow> get_cluster_seek_pt fd ctl fs;
        Some (if found then Some cluster else None, fs1)
      })"

text \<open>The result: success and the value left in \<^verbatim>\<open>*wbytes\<close>.\<close>

definition tfs_write_file :: "bytes \<Rightarrow> u32 \<Rightarrow> u16 \<Rightarrow> ('d, bool \<times> u32) tfs_op" where
  "tfs_write_file src wbytes h fs =
     (case tfs_lock_file h fs of
        (False, fs1) \<Rightarrow> write_fail h fs1
      | (True, fs1) \<Rightarrow>
          do { (r_fd, fs2) \<leftarrow> tfs_get_fd h fs1;
               (r_ctl, fs3) \<leftarrow> tfs_get_ctl h fs2;
               fd \<leftarrow> map_option snd r_fd;
               ctl \<leftarrow> r_ctl;
               if fd_readonly fd \<noteq> NUL \<or> ctl_file_open_mode ctl \<noteq> FILE_OPEN_WRITE \<or> \<not> ctl_open ctl \<or>
                  fd_size fd < ctl_seek_pointer ctl
               then write_fail h fs3
               else do {
                 (first, fs4) \<leftarrow> first_for_write fd ctl fs3;
                 (case first of
                    None \<Rightarrow> write_fail h fs4
                  | Some c \<Rightarrow> do {
                      ((ret, missing), fs5) \<leftarrow>
                        write_loop h c (unat (ctl_seek_pointer ctl) mod tfs_CLUSTER_SIZE) (unat wbytes) src fs4;
                      if ret \<noteq> 0 then Some ((False, wbytes), snd (tfs_unlock_file h fs5))
                      else do {
                        (_, fs6) \<leftarrow> with_access (\<lambda>fs. Some ((),
                          if unat (fd_first_cluster (file_fs_desc fs ! unat h)) \<ge> tfs_CLUSTERS_COUNT
                          then upd_fd (unat h) (\<lambda>d. d\<lparr>fd_first_cluster := c\<rparr>) fs else fs)) fs5;
                        Some ((missing = 0, of_nat (unat wbytes - missing)), snd (tfs_unlock_file h fs6))
                      } })
               } })"

subsection \<open>The RAM disk of the file system example\<close>

text \<open>\<^verbatim>\<open>memcpy\<close> to or from beyond the end of the array \<^verbatim>\<open>ramdisk_ptr\<close> is a fault.\<close>

type_synonym ramdisk = "nat \<Rightarrow> char"

definition tfs_capacity :: nat where
  [mip_simps]: "tfs_capacity = tfs_SIZE + tfs_OFFSET + tfs_STORAGE_AREA_SIZE"

definition disk_write :: "bytes \<Rightarrow> u32 \<Rightarrow> ramdisk \<Rightarrow> (int \<times> ramdisk) option" where
  "disk_write srcbuf doffset d =
     (if tfs_capacity < unat doffset + length srcbuf then None
      else Some (0, \<lambda>i. if unat doffset \<le> i \<and> i < unat doffset + length srcbuf
                         then srcbuf ! (i - unat doffset) else d i))"

definition disk_read :: "nat \<Rightarrow> u32 \<Rightarrow> ramdisk \<Rightarrow> (int \<times> bytes) option" where
  "disk_read bsize soffset d =
     (if tfs_capacity < unat soffset + bsize then None
      else Some (0, map d [unat soffset..<unat soffset + bsize]))"

definition ramdisk_dev :: "ramdisk io_dev" where
  "ramdisk_dev = \<lparr>io_write = Some disk_write, io_read = Some disk_read\<rparr>"

text \<open>The zero-initialised \<^verbatim>\<open>mipos_tiny_fs\<close> once its drivers are set.\<close>

definition blank_fs :: "ramdisk tfs" where
  "blank_fs = \<lparr>tfs_io_dev = ramdisk_dev, tfs_file_ctl = replicate tfs_MAX_N_OF_FILES zero_ctl,
     tfs_ftbl_of = \<lparr>ft_volume_description = replicate tfs_MAX_VOLUME_LENGTH NUL, ft_maj_version = NUL, ft_min_version = NUL,
       ft_file_fs_desc = replicate tfs_MAX_N_OF_FILES zero_fd, ft_cluster_tbl = replicate tfs_CLUSTERS_COUNT 0\<rparr>,
     tfs_lock = \<lparr>mtx_state = 0\<rparr>, tfs_last_error = ERR_SUCCESS, tfs_disk = (\<lambda>_. NUL)\<rparr>"

end
