(* ===== verification/Mipos_Tfs_Safe.thy ===== *)
theory Mipos_Tfs_Safe
  imports Mipos_Tfs
begin

text \<open>
  Total correctness of the file system's operations in the small: a triple \<open>safe P Q f\<close> says
  that \<open>f\<close> started in \<open>P\<close> returns, in \<open>Q\<close>. On well-formed tables, with a driver that reports
  no errors, every operation returns with the tables well-formed and the access
  mutex free, whatever the calls and their order.
\<close>

definition safe :: "('d tfs \<Rightarrow> bool) \<Rightarrow> ('a \<Rightarrow> 'd tfs \<Rightarrow> bool) \<Rightarrow> ('d, 'a) tfs_op \<Rightarrow> bool" where
  "safe P Q f \<longleftrightarrow> (\<forall>fs. P fs \<longrightarrow> (\<exists>r fs'. f fs = Some (r, fs') \<and> Q r fs'))"

lemma safeI: "(\<And>fs. P fs \<Longrightarrow> \<exists>r fs'. f fs = Some (r, fs') \<and> Q r fs') \<Longrightarrow> safe P Q f"
  by (simp add: safe_def)

lemma safeD: "safe P Q f \<Longrightarrow> P fs \<Longrightarrow> \<exists>r fs'. f fs = Some (r, fs') \<and> Q r fs'"
  by (simp add: safe_def)

lemma safe_bind:
  "safe P Q f \<Longrightarrow> (\<And>r. safe (Q r) R (g r)) \<Longrightarrow>
     safe P R (\<lambda>fs. Option.bind (f fs) (\<lambda>(r, fs1). g r fs1))"
  by (fastforce simp: safe_def)

lemma safe_if:
  "(b \<Longrightarrow> safe P Q f) \<Longrightarrow> (\<not> b \<Longrightarrow> safe P Q g) \<Longrightarrow> safe P Q (\<lambda>fs. if b then f fs else g fs)"
  by (cases b) simp_all

lemma safe_weaken: "safe P Q f \<Longrightarrow> (\<And>fs. P' fs \<Longrightarrow> P fs) \<Longrightarrow> (\<And>r fs. Q r fs \<Longrightarrow> Q' r fs) \<Longrightarrow> safe P' Q' f"
  by (fastforce simp: safe_def)

lemma safe_pure: "(\<And>fs. P fs \<Longrightarrow> Q r (g fs)) \<Longrightarrow> safe P Q (\<lambda>fs. Some (r, g fs))"
  by (simp add: safe_def)

lemma safe_pre: "(c \<Longrightarrow> safe P Q f) \<Longrightarrow> safe (\<lambda>fs. c \<and> P fs) Q f"
  by (simp add: safe_def)

subsection \<open>The invariant\<close>

text \<open>A driver that serves every access within its storage and whose writes succeed.\<close>

definition reliable :: "'d io_dev \<Rightarrow> bool" where
  "reliable dev \<longleftrightarrow>
     (\<exists>r. io_read dev = Some r \<and> (\<forall>n off d. unat off + n \<le> tfs_capacity \<longrightarrow> r n off d \<noteq> None)) \<and>
     (\<exists>w. io_write dev = Some w \<and>
        (\<forall>bs off d. unat off + length bs \<le> tfs_capacity \<longrightarrow> (\<exists>d'. w bs off d = Some (0, d'))))"

definition tables_ok :: "'d tfs \<Rightarrow> bool" where
  "tables_ok fs \<longleftrightarrow> reliable (tfs_io_dev fs) \<and> ftbl_ok (tfs_ftbl_of fs) \<and>
     list_all (\<lambda>d. fd_filename d ! (tfs_MAX_FILENAME_LENGTH - 1) = NUL) (file_fs_desc fs) \<and>
     length (tfs_file_ctl fs) = tfs_MAX_N_OF_FILES"

definition tfs_inv :: "(tfs_fd list \<Rightarrow> bool) \<Rightarrow> 'd tfs \<Rightarrow> bool" where
  "tfs_inv F fs \<longleftrightarrow> mtx_state (tfs_lock fs) = MUTEX_UNLOCKED \<and> tables_ok fs \<and> F (file_fs_desc fs)"

text \<open>A file that has bytes has a first cluster.\<close>

definition firsts :: "tfs_fd list \<Rightarrow> bool" where
  "firsts ds \<longleftrightarrow> (\<forall>d \<in> set ds. 0 < fd_size d \<longrightarrow> unat (fd_first_cluster d) < tfs_CLUSTERS_COUNT)"

lemma tables_ok_lock [simp]: "tables_ok (fs\<lparr>tfs_lock := m\<rparr>) = tables_ok fs"
  by (simp add: tables_ok_def)

lemma tables_ok_disk [simp]: "tables_ok (fs\<lparr>tfs_disk := d\<rparr>) = tables_ok fs"
  by (simp add: tables_ok_def)

lemma tables_ok_err [simp]: "tables_ok (set_err e fs) = tables_ok fs"
  by (simp add: tables_ok_def set_err_def)

lemma tables_ok_tbl [simp]: "tables_ok fs \<Longrightarrow> tables_ok (upd_tbl i v fs)"
  by (simp add: tables_ok_def upd_tbl_def ftbl_ok_def)

lemma tables_ok_ctl [simp]: "tables_ok fs \<Longrightarrow> tables_ok (upd_ctl i f fs)"
  by (simp add: tables_ok_def upd_ctl_def)

lemma tables_ok_fd:
  "tables_ok fs \<Longrightarrow> fd_ok (f (file_fs_desc fs ! i)) \<Longrightarrow>
     fd_filename (f (file_fs_desc fs ! i)) ! (tfs_MAX_FILENAME_LENGTH - 1) = NUL \<Longrightarrow>
     tables_ok (upd_fd i f fs)"
  unfolding tables_ok_def upd_fd_def ftbl_ok_def list_all_iff
  by (auto dest!: set_update_subset_insert [THEN subsetD])

lemma tables_ok_nth:
  assumes "tables_ok fs" "i < tfs_MAX_N_OF_FILES"
  shows "fd_ok (file_fs_desc fs ! i)" "fd_filename (file_fs_desc fs ! i) ! (tfs_MAX_FILENAME_LENGTH - 1) = NUL"
    "NUL \<in> set (fd_filename (file_fs_desc fs ! i))"
proof -
  show ok: "fd_ok (file_fs_desc fs ! i)" "fd_filename (file_fs_desc fs ! i) ! (tfs_MAX_FILENAME_LENGTH - 1) = NUL"
    using assms by (auto simp: tables_ok_def ftbl_ok_def list_all_length)
  then show "NUL \<in> set (fd_filename (file_fs_desc fs ! i))"
    using nth_mem [of "tfs_MAX_FILENAME_LENGTH - 1" "fd_filename (file_fs_desc fs ! i)"]
    by (simp add: fd_ok_def mip_simps)
qed

lemma tables_ok_length: "tables_ok fs \<Longrightarrow> length (cluster_tbl fs) = tfs_CLUSTERS_COUNT"
  "tables_ok fs \<Longrightarrow> length (file_fs_desc fs) = tfs_MAX_N_OF_FILES"
  by (simp_all add: tables_ok_def ftbl_ok_def)

lemma desc_frame [simp]:
  "file_fs_desc (upd_tbl i v fs) = file_fs_desc fs" "file_fs_desc (upd_ctl i f fs) = file_fs_desc fs"
  "file_fs_desc (set_err e fs) = file_fs_desc fs"
  "file_fs_desc (upd_fd i g fs) = (file_fs_desc fs)[i := g (file_fs_desc fs ! i)]"
  by (simp_all add: upd_tbl_def upd_ctl_def set_err_def upd_fd_def)

lemma safe_access:
  fixes f :: "('d, 'a) tfs_op"
  assumes "\<And>fs. tables_ok fs \<Longrightarrow> F (file_fs_desc fs) \<Longrightarrow>
    \<exists>r fs'. f fs = Some (r, fs') \<and> tables_ok fs' \<and> G r (file_fs_desc fs')"
  shows "safe (tfs_inv F) (\<lambda>r. tfs_inv (G r)) (with_access f)"
proof (rule safeI)
  fix fs :: "'d tfs" assume inv: "tfs_inv F fs"
  let ?fs1 = "fs\<lparr>tfs_lock := (tfs_lock fs)\<lparr>mtx_state := mtx_state (tfs_lock fs) OR MUTEX_LOCKED\<rparr>\<rparr>"
  have "tables_ok ?fs1" "F (file_fs_desc ?fs1)" using inv by (simp_all add: tfs_inv_def)
  from assms [OF this] obtain r fs' where "f ?fs1 = Some (r, fs')" "tables_ok fs'" "G r (file_fs_desc fs')" by blast
  with inv show "\<exists>r fs'. with_access f fs = Some (r, fs') \<and> tfs_inv (G r) fs'"
    by (auto simp: with_access_def tfs_lock_access_def tfs_unlock_access_def tfs_inv_def mipos_mu_unlock_def)
qed

text \<open>Operations that leave the descriptors alone keep whatever is known of them.\<close>

abbreviation keeps :: "(tfs_fd list \<Rightarrow> bool) \<Rightarrow> ('d, 'a) tfs_op \<Rightarrow> bool" where
  "keeps F f \<equiv> safe (tfs_inv F) (\<lambda>r. tfs_inv F) f"

lemma unat_u32: "k < 4294967296 \<Longrightarrow> unat (of_nat k :: u32) = k"
  by (simp add: unat_of_nat)

lemma tfs_offset: "off \<le> tfs_capacity \<Longrightarrow> unat (of_nat off :: u32) = off"
  by (simp add: unat_u32 mip_simps)

lemma table_in_range: "unat (of_nat tfs_OFFSET :: u32) = tfs_OFFSET" "tfs_OFFSET + sizeof_ftbl \<le> tfs_capacity"
  "tfs_OFFSET + sizeof_ftbl \<le> cluster_address 0 0"
  by (simp_all add: cluster_address_def mip_simps)

lemma dev_write_ok:
  assumes "tables_ok fs" "off + length bs \<le> tfs_capacity"
  shows "\<exists>fs'. dev_write bs off fs = Some (0, fs') \<and> tables_ok fs' \<and> file_fs_desc fs' = file_fs_desc fs \<and>
    tfs_lock fs' = tfs_lock fs \<and> tfs_file_ctl fs' = tfs_file_ctl fs \<and> tfs_ftbl_of fs' = tfs_ftbl_of fs"
proof -
  obtain w where w: "io_write (tfs_io_dev fs) = Some w"
      "\<forall>bs off d. unat off + length bs \<le> tfs_capacity \<longrightarrow> (\<exists>d'. w bs off d = Some (0, d'))"
    using assms(1) by (auto simp: tables_ok_def reliable_def)
  obtain d where "w bs (of_nat off) (tfs_disk fs) = Some (0, d)"
    using w(2) assms(2) tfs_offset [of off] by fastforce
  with w(1) assms(1) show ?thesis by (simp add: dev_write_def)
qed

lemma dev_read_ok:
  assumes "tables_ok fs" "off + n \<le> tfs_capacity"
  shows "\<exists>r bs. dev_read n off fs = Some (r, bs)"
proof -
  obtain r where r: "io_read (tfs_io_dev fs) = Some r" "\<forall>n off d. unat off + n \<le> tfs_capacity \<longrightarrow> r n off d \<noteq> None"
    using assms(1) by (auto simp: tables_ok_def reliable_def)
  have "r n (of_nat off) (tfs_disk fs) \<noteq> None" using r(2) assms(2) tfs_offset [of off] by simp
  with r(1) show ?thesis by (auto simp: dev_read_def)
qed

lemma safe_update_fs_on_disk: "safe (tfs_inv F) (\<lambda>r. tfs_inv (\<lambda>ds. r = 0 \<and> F ds)) update_fs_on_disk"
proof (rule safeI)
  fix fs assume "tfs_inv F fs"
  moreover from this have "tfs_OFFSET + length (put_ftbl (tfs_ftbl_of fs)) \<le> tfs_capacity"
    using length_put_ftbl [of "tfs_ftbl_of fs"] table_in_range(2) by (simp add: tfs_inv_def tables_ok_def)
  ultimately
  show "\<exists>r fs'. update_fs_on_disk fs = Some (r, fs') \<and> tfs_inv (\<lambda>ds. r = 0 \<and> F ds) fs'"
    using dev_write_ok [of fs tfs_OFFSET "put_ftbl (tfs_ftbl_of fs)"]
    by (auto simp: update_fs_on_disk_def tfs_inv_def)
qed

subsection \<open>Clusters\<close>

abbreviation cluster_ok :: "u16 \<Rightarrow> bool" where
  "cluster_ok c \<equiv> unat c < tfs_CLUSTERS_COUNT"

lemma cluster_in_range:
  "cluster_ok x \<Longrightarrow> off + n \<le> tfs_CLUSTER_SIZE \<Longrightarrow>
     cluster_address x off + n \<le> tfs_capacity \<and> unat (of_nat (cluster_address x off) :: u32) = cluster_address x off"
proof -
  assume "cluster_ok x" "off + n \<le> tfs_CLUSTER_SIZE"
  then have "cluster_address x off + n \<le> tfs_capacity" by (simp add: cluster_address_def mip_simps)
  moreover have "tfs_capacity < 4294967296" by (simp add: mip_simps)
  ultimately show ?thesis by (simp add: unat_u32)
qed

lemma safe_get_cluster_val: "cluster_ok c \<Longrightarrow> keeps F (tfs_get_cluster_val c)"
  unfolding tfs_get_cluster_val_def by (rule safe_access) (auto simp: tables_ok_length)

lemma safe_set_cluster_val: "cluster_ok c \<Longrightarrow> keeps F (set_cluster_val c v)"
  unfolding set_cluster_val_def by (rule safe_access) (auto simp: tables_ok_length)

lemma of_nat_cluster: "i < tfs_CLUSTERS_COUNT \<Longrightarrow> unat (of_nat i :: u16) = i"
  by (simp add: unat_of_nat mip_simps)

lemma safe_reserve_cluster:
  "safe (tfs_inv F) (\<lambda>r. tfs_inv (\<lambda>ds. (\<forall>c. r = Some c \<longrightarrow> cluster_ok c) \<and> F ds)) reserve_cluster"
  unfolding reserve_cluster_def
  by (rule safe_access) (auto split: option.split dest: first_index_bounds simp: of_nat_cluster)

lemma safe_get_next_cluster:
  "safe (tfs_inv F) (\<lambda>r. tfs_inv (\<lambda>ds. (\<forall>c. r = Some c \<longrightarrow> cluster_ok c) \<and> F ds)) (get_next_cluster c)"
proof (rule safeI)
  fix fs assume inv: "tfs_inv F fs"
  show "\<exists>r fs'. get_next_cluster c fs = Some (r, fs') \<and>
      tfs_inv (\<lambda>ds. (\<forall>c. r = Some c \<longrightarrow> cluster_ok c) \<and> F ds) fs'"
  proof (cases "cluster_ok c")
    case True
    with inv safeD [OF safe_get_cluster_val [OF True, of F] inv] show ?thesis
      by (auto simp: get_next_cluster_def tfs_inv_def)
  qed (use inv in \<open>auto simp: get_next_cluster_def tfs_inv_def\<close>)
qed

lemma safe_link_cluster: "keeps F (link_cluster a b)"
proof (rule safeI)
  fix fs assume inv: "tfs_inv F fs"
  show "\<exists>r fs'. link_cluster a b fs = Some (r, fs') \<and> tfs_inv F fs'"
  proof (cases "cluster_ok a")
    case True
    with inv safeD [OF safe_set_cluster_val [OF True, of F b] inv] show ?thesis
      by (auto simp: link_cluster_def)
  qed (use inv in \<open>auto simp: link_cluster_def\<close>)
qed

lemma safe_mark:
  "cluster_ok c \<Longrightarrow> keeps F (mark_cluster_last c)" "cluster_ok c \<Longrightarrow> keeps F (mark_cluster_free c)"
  by (simp_all add: mark_cluster_last_def mark_cluster_free_def safe_set_cluster_val)

lemma safe_seek_walk:
  "cluster_ok c \<Longrightarrow> safe (tfs_inv F) (\<lambda>r. tfs_inv (\<lambda>ds. cluster_ok (snd r) \<and> F ds)) (seek_walk n c :: ('d, bool \<times> u16) tfs_op)"
proof (induction n arbitrary: c)
  case 0
  then show ?case by (auto simp: safe_def tfs_inv_def)
next
  case (Suc n)
  show ?case
  proof (rule safeI)
    fix fs :: "'d tfs" assume "tfs_inv F fs"
    from safeD [OF safe_get_next_cluster this, of c] obtain nx fs1 where
        nx: "get_next_cluster c fs = Some (nx, fs1)" "tfs_inv F fs1" "\<forall>c. nx = Some c \<longrightarrow> cluster_ok c"
      by (auto simp: tfs_inv_def)
    show "\<exists>r fs'. seek_walk (Suc n) c fs = Some (r, fs') \<and> tfs_inv (\<lambda>ds. cluster_ok (snd r) \<and> F ds) fs'"
    proof (cases nx)
      case (Some d)
      then have "cluster_ok d" using nx(3) by simp
      from nx(1) Some safeD [OF Suc.IH [OF this] nx(2)] show ?thesis by auto
    qed (use Suc.prems nx in \<open>auto simp: tfs_inv_def\<close>)
  qed
qed

lemma safe_write_cluster:
  "tot \<le> length src \<Longrightarrow> cluster_ok c \<Longrightarrow>
     safe (tfs_inv F) (\<lambda>r. tfs_inv (\<lambda>ds. fst r = 0 \<and> F ds)) (write_cluster c off src tot)"
  unfolding write_cluster_def
proof (rule safe_access)
  fix fs :: "'d tfs" assume c: "cluster_ok c" and "tables_ok fs" "F (file_fs_desc fs)" "tot \<le> length src"
  let ?off = "off mod tfs_CLUSTER_SIZE" and ?n = "min tot (tfs_CLUSTER_SIZE - off mod tfs_CLUSTER_SIZE)"
  have "?off < tfs_CLUSTER_SIZE" by (simp add: mip_simps)
  then have "cluster_address c ?off + length (take ?n src) \<le> tfs_capacity"
    using cluster_in_range [OF c, of ?off "length (take ?n src)"] by simp
  with dev_write_ok [of fs "cluster_address c ?off" "take ?n src"] \<open>tables_ok fs\<close> \<open>F _\<close> \<open>tot \<le> _\<close>
  show "\<exists>r fs'. (let offset = off mod tfs_CLUSTER_SIZE; n = min tot (tfs_CLUSTER_SIZE - offset) in
       if n = 0 then Some ((0, 0), fs)
       else if length src < n then None
       else do { (ret, fs1) \<leftarrow> dev_write (take n src) (cluster_address c offset) fs;
                 Some ((ret, n), fs1) }) = Some (r, fs') \<and> tables_ok fs' \<and> fst r = 0 \<and> F (file_fs_desc fs')"
    by (auto simp: Let_def)
qed

lemma safe_read_cluster: "cluster_ok c \<Longrightarrow> keeps F (read_cluster c off n)"
  unfolding read_cluster_def
proof (rule safe_access)
  fix fs :: "'d tfs" assume c: "cluster_ok c" and "tables_ok fs" "F (file_fs_desc fs)"
  let ?off = "off mod tfs_CLUSTER_SIZE" and ?n = "min n (tfs_CLUSTER_SIZE - off mod tfs_CLUSTER_SIZE)"
  have "?off < tfs_CLUSTER_SIZE" by (simp add: mip_simps)
  then have "cluster_address c ?off + ?n \<le> tfs_capacity" using cluster_in_range [OF c, of ?off ?n] by simp
  with dev_read_ok [of fs "cluster_address c ?off" ?n] \<open>tables_ok fs\<close> \<open>F _\<close>
  show "\<exists>r fs'. (let offset = off mod tfs_CLUSTER_SIZE; k = min n (tfs_CLUSTER_SIZE - offset) in
       if k = 0 then Some ((0, 0, []), fs)
       else do { (ret, bs) \<leftarrow> dev_read k (cluster_address c offset) fs;
                 Some ((ret, k, bs), fs) }) = Some (r, fs') \<and> tables_ok fs' \<and> F (file_fs_desc fs')"
    by (auto simp: Let_def)
qed

subsection \<open>Sections under the access mutex\<close>

text \<open>When the mutex is free, a section that does not look at it is just its body.\<close>

abbreviation unlocked :: "'d tfs \<Rightarrow> bool" where
  "unlocked fs \<equiv> mtx_state (tfs_lock fs) = MUTEX_UNLOCKED"

lemma with_access_eq:
  assumes free: "unlocked fs"
    and f: "\<And>m. f (fs\<lparr>tfs_lock := m\<rparr>) = map_option (\<lambda>(r, fs'). (r, fs'\<lparr>tfs_lock := m\<rparr>)) (f fs)"
  shows "with_access f fs = f fs"
proof -
  have "fs\<lparr>tfs_lock := tfs_lock fs\<rparr> = fs" by simp
  with f [of "tfs_lock fs"] have "f fs = map_option (\<lambda>(r, fs'). (r, fs'\<lparr>tfs_lock := tfs_lock fs\<rparr>)) (f fs)" by simp
  then have lock: "f fs = Some (r, fs') \<Longrightarrow> fs'\<lparr>tfs_lock := tfs_lock fs\<rparr> = fs'" for r fs' by auto
  have unlocked: "(tfs_lock fs)\<lparr>mtx_state := MUTEX_UNLOCKED\<rparr> = tfs_lock fs" using free by simp
  show ?thesis
    using free f lock
    by (cases "f fs")
      (auto simp: with_access_def tfs_lock_access_def tfs_unlock_access_def mipos_mu_unlock_def unlocked)
qed

lemma lock_commutes [simp]:
  "upd_tbl i v (fs\<lparr>tfs_lock := m\<rparr>) = (upd_tbl i v fs)\<lparr>tfs_lock := m\<rparr>"
  "upd_ctl i f (fs\<lparr>tfs_lock := m\<rparr>) = (upd_ctl i f fs)\<lparr>tfs_lock := m\<rparr>"
  "upd_fd i g (fs\<lparr>tfs_lock := m\<rparr>) = (upd_fd i g fs)\<lparr>tfs_lock := m\<rparr>"
  "set_err e (fs\<lparr>tfs_lock := m\<rparr>) = (set_err e fs)\<lparr>tfs_lock := m\<rparr>"
  by (simp_all add: upd_tbl_def upd_ctl_def upd_fd_def set_err_def)

lemma access_simple [simp]:
  assumes "unlocked fs" "\<And>m. g (fs\<lparr>tfs_lock := m\<rparr>) = g fs" "\<And>m. u (fs\<lparr>tfs_lock := m\<rparr>) = (u fs)\<lparr>tfs_lock := m\<rparr>"
  shows "with_access (\<lambda>fs. Some (g fs, u fs)) fs = Some (g fs, u fs)"
  using assms by (subst with_access_eq) simp_all

lemma unlocked_frame [simp]:
  "tfs_lock (upd_tbl i v fs) = tfs_lock fs" "tfs_lock (upd_ctl i f fs) = tfs_lock fs"
  "tfs_lock (upd_fd i g fs) = tfs_lock fs" "tfs_lock (set_err e fs) = tfs_lock fs"
  by (simp_all add: upd_tbl_def upd_ctl_def upd_fd_def set_err_def)

lemma get_cluster_val_eq:
  "unlocked fs \<Longrightarrow> tfs_get_cluster_val c fs =
     (if unat c < length (cluster_tbl fs) then Some (cluster_tbl fs ! unat c, fs) else None)"
  unfolding tfs_get_cluster_val_def by (subst with_access_eq) simp_all

lemma set_cluster_val_eq:
  "unlocked fs \<Longrightarrow> set_cluster_val c v fs =
     (if unat c < length (cluster_tbl fs) then Some ((), upd_tbl (unat c) v fs) else None)"
  unfolding set_cluster_val_def by (subst with_access_eq) (simp_all add: upd_tbl_def)

lemma reserve_cluster_eq:
  "unlocked fs \<Longrightarrow> reserve_cluster fs =
     (case first_index (\<lambda>i. cluster_tbl fs ! i = FREE_CLUSTER) 0 tfs_CLUSTERS_COUNT of
        None \<Rightarrow> Some (None, fs)
      | Some i \<Rightarrow> Some (Some (of_nat i), upd_tbl i RESERVED_CLUSTER fs))"
  unfolding reserve_cluster_def by (subst with_access_eq) (auto simp: upd_tbl_def split: option.split)

lemma get_next_cluster_eq:
  "unlocked fs \<Longrightarrow> length (cluster_tbl fs) = tfs_CLUSTERS_COUNT \<Longrightarrow> get_next_cluster c fs =
     Some (if cluster_ok c \<and> cluster_ok (cluster_tbl fs ! unat c) then Some (cluster_tbl fs ! unat c) else None, fs)"
  by (simp add: get_next_cluster_def get_cluster_val_eq)

lemma link_cluster_eq:
  "unlocked fs \<Longrightarrow> length (cluster_tbl fs) = tfs_CLUSTERS_COUNT \<Longrightarrow> cluster_ok a \<Longrightarrow> cluster_ok b \<Longrightarrow>
     link_cluster a b fs = Some (True, upd_tbl (unat a) b fs)"
  by (simp add: link_cluster_def set_cluster_val_eq)

lemma ffirst_scan_eq:
  "unlocked fs \<Longrightarrow> ffirst_scan name n is fs =
     Some (map_option of_nat (List.find (\<lambda>i. fd_erased (file_fs_desc fs ! i) = NUL \<and>
       takeWhile (\<lambda>c. c \<noteq> NUL) (take n (fd_filename (file_fs_desc fs ! i))) = name) is), fs)"
  by (induction "is") auto

lemma fnext_scan_eq:
  "unlocked fs \<Longrightarrow> fnext_scan is fs =
     Some (map_option of_nat (List.find (\<lambda>i. fd_erased (file_fs_desc fs ! i) = NUL) is), fs)"
  by (induction "is") auto

lemma erased_scan_eq:
  "unlocked fs \<Longrightarrow> erased_scan is fs = Some (List.find (\<lambda>i. fd_erased (file_fs_desc fs ! i) \<noteq> NUL) is, fs)"
  by (induction "is") auto

lemma open_scan_eq:
  "unlocked fs \<Longrightarrow> \<forall>i \<in> set is. NUL \<in> set (fd_filename (file_fs_desc fs ! i)) \<Longrightarrow>
     open_scan name is fs =
     Some (List.find (\<lambda>i. fd_erased (file_fs_desc fs ! i) = NUL \<and>
       name = takeWhile (\<lambda>c. c \<noteq> NUL) (fd_filename (file_fs_desc fs ! i)) \<and>
       \<not> ctl_locked (tfs_file_ctl fs ! i) \<and> \<not> ctl_open (tfs_file_ctl fs ! i)) is, fs)"
proof (induction "is")
  case (Cons i "is")
  have "with_access (\<lambda>fs. do { t \<leftarrow> c_str (fd_filename (file_fs_desc fs ! i)); Some ((t, tfs_file_ctl fs ! i), fs) }) fs =
      Some ((takeWhile (\<lambda>c. c \<noteq> NUL) (fd_filename (file_fs_desc fs ! i)), tfs_file_ctl fs ! i), fs)"
    using Cons.prems by (subst with_access_eq) (simp_all add: c_str_def)
  with Cons show ?case by auto
qed simp

lemma ffirst_eq:
  assumes "unlocked fs" "jolly_pos name < tfs_MAX_FILENAME_LENGTH" "NUL \<notin> set name"
  shows "tfs_ffirst (Some name) fs =
    (if list_all name_char (take (jolly_pos name) name)
     then Some (map_option of_nat (List.find (\<lambda>i. fd_erased (file_fs_desc fs ! i) = NUL \<and>
       takeWhile (\<lambda>c. c \<noteq> NUL) (take (jolly_pos name) (fd_filename (file_fs_desc fs ! i))) =
       take (jolly_pos name) name) [0..<tfs_MAX_N_OF_FILES]), fs)
     else Some (None, set_err ERR_BAD_FILENAME fs))"
proof -
  let ?j = "jolly_pos name"
  have j: "?j \<le> length name" by (simp add: jolly_pos_def length_takeWhile_le)
  let ?buf = "take ?j name @ replicate (tfs_MAX_FILENAME_LENGTH - ?j) NUL"
  have "strncpy (replicate tfs_MAX_FILENAME_LENGTH NUL) name ?j = Some ?buf"
    using assms(2) j by (simp add: strncpy_def)
  moreover have "NUL \<notin> set (take ?j name)" using assms(3) by (meson in_set_takeD)
  then have "c_str ?buf = Some (take ?j name)"
    using assms(2) by (auto simp: c_str_def takeWhile_append takeWhile_eq_all_conv)
  ultimately show ?thesis
    using assms j by (simp add: tfs_ffirst_def tfs_check_file_name_def ffirst_scan_eq)
qed

end
