(* ===== verification/Mipos_Tfs_Calls.thy ===== *)
theory Mipos_Tfs_Calls
  imports Mipos_Tfs_Safe
begin

text \<open>
  The triples of the file system's public operations, and sequences of calls: on a formatted
  volume with a driver that reports no errors no sequence of calls faults, hangs or
  leaves the access mutex held.
\<close>

lemma lock_file_inv:
  "tfs_inv F fs \<Longrightarrow> tfs_lock_file h fs = (b, fs') \<Longrightarrow>
     tfs_inv F fs' \<and> (b \<longrightarrow> unat h < tfs_MAX_N_OF_FILES) \<and> file_fs_desc fs' = file_fs_desc fs"
  by (auto simp: tfs_lock_file_def tfs_inv_def split: if_splits)

lemma unlock_file_inv: "tfs_inv F fs \<Longrightarrow> tfs_inv F (snd (tfs_unlock_file h fs))"
  by (auto simp: tfs_unlock_file_def tfs_inv_def)

lemma inv_err: "tfs_inv F fs \<Longrightarrow> tfs_inv F (set_err e fs)"
  by (simp add: tfs_inv_def)

lemma inv_ctl: "tfs_inv F fs \<Longrightarrow> tfs_inv F (upd_ctl i f fs)"
  by (simp add: tfs_inv_def)

lemma inv_unlocked: "tfs_inv F fs \<Longrightarrow> unlocked fs"
  by (simp add: tfs_inv_def)

lemma firsts_nth: "firsts ds \<Longrightarrow> i < length ds \<Longrightarrow> 0 < fd_size (ds ! i) \<Longrightarrow> cluster_ok (fd_first_cluster (ds ! i))"
  by (simp add: firsts_def)

lemma inv_firsts:
  "tfs_inv firsts fs \<Longrightarrow> unat h < tfs_MAX_N_OF_FILES \<Longrightarrow> 0 < fd_size (file_fs_desc fs ! unat h) \<Longrightarrow>
     cluster_ok (fd_first_cluster (file_fs_desc fs ! unat h))"
  by (simp add: tfs_inv_def firsts_nth tables_ok_length(2))

lemma firsts_update: "firsts ds \<Longrightarrow> (0 < fd_size d \<longrightarrow> cluster_ok (fd_first_cluster d)) \<Longrightarrow> firsts (ds[i := d])"
  unfolding firsts_def by (auto dest!: set_update_subset_insert [THEN subsetD])

subsection \<open>Directory\<close>

definition legal_name :: "bytes \<Rightarrow> bool" where
  "legal_name name \<longleftrightarrow> NUL \<notin> set name \<and> jolly_pos name < tfs_MAX_FILENAME_LENGTH"

lemma of_nat_handle: "i < tfs_MAX_N_OF_FILES \<Longrightarrow> unat (of_nat i :: u16) = i"
  by (simp add: unat_of_nat mip_simps)

lemma safe_ffirst:
  assumes "legal_name name"
  shows "safe (tfs_inv F) (\<lambda>r. tfs_inv (\<lambda>ds. (\<forall>h. r = Some h \<longrightarrow> unat h < tfs_MAX_N_OF_FILES) \<and> F ds))
    (tfs_ffirst (Some name))"
proof (rule safeI)
  fix fs :: "'a tfs" assume inv: "tfs_inv F fs"
  have "unat (of_nat i :: u16) < tfs_MAX_N_OF_FILES" if "List.find P [0..<tfs_MAX_N_OF_FILES] = Some i" for P i
    using that find_upt_Some [of P 0 tfs_MAX_N_OF_FILES i] by (simp add: of_nat_handle)
  then show "\<exists>r fs'. tfs_ffirst (Some name) fs = Some (r, fs') \<and>
      tfs_inv (\<lambda>ds. (\<forall>h. r = Some h \<longrightarrow> unat h < tfs_MAX_N_OF_FILES) \<and> F ds) fs'"
    using ffirst_eq [OF inv_unlocked [OF inv], of name] assms inv inv_err [OF inv]
    by (auto simp: legal_name_def tfs_inv_def)
qed

lemma safe_fexist: "legal_name name \<Longrightarrow> keeps F (tfs_fexist (Some name))"
  using safe_ffirst [of name F] by (fastforce simp: safe_def tfs_fexist_def tfs_inv_def)

lemma safe_fnext: "keeps F (tfs_fnext h)"
  by (auto simp: safe_def tfs_fnext_def fnext_scan_eq [OF inv_unlocked])

lemma safe_get_fd: "keeps F (tfs_get_fd h)"
  by (auto simp: safe_def tfs_get_fd_def inv_unlocked)

lemma safe_get_fsize: "legal_name name \<Longrightarrow> keeps F (tfs_get_fsize (Some name))"
proof (rule safeI)
  fix fs :: "'a tfs" assume "legal_name name" and inv: "tfs_inv F fs"
  from safeD [OF safe_ffirst [OF this(1)] inv] obtain r fs1 where r:
      "tfs_ffirst (Some name) fs = Some (r, fs1)" "tfs_inv F fs1" by (auto simp: tfs_inv_def)
  show "\<exists>r fs'. tfs_get_fsize (Some name) fs = Some (r, fs') \<and> tfs_inv F fs'"
  proof (cases r)
    case (Some h)
    from safeD [OF safe_get_fd r(2), of h] r(1) Some show ?thesis by (auto simp: tfs_get_fsize_def)
  qed (use r in \<open>simp add: tfs_get_fsize_def\<close>)
qed

lemma name_legal: "tfs_check_file_name name \<Longrightarrow> NUL \<notin> set name \<Longrightarrow> legal_name name"
  by (auto simp: legal_name_def tfs_check_file_name_def jolly_pos_def intro: le_less_trans [OF length_takeWhile_le])

lemma safe_open_file: "keeps F (tfs_open_file name mode)"
proof (rule safeI)
  fix fs :: "'a tfs" assume inv: "tfs_inv F fs"
  have "\<forall>i \<in> set [0..<tfs_MAX_N_OF_FILES]. NUL \<in> set (fd_filename (file_fs_desc fs ! i))"
    using inv tables_ok_nth(3) by (auto simp: tfs_inv_def)
  from open_scan_eq [OF inv_unlocked [OF inv] this, of name] inv
  show "\<exists>r fs'. tfs_open_file name mode fs = Some (r, fs') \<and> tfs_inv F fs'"
    by (auto simp: tfs_open_file_def inv_unlocked inv_ctl split: option.split)
qed

subsection \<open>Creating, deleting, formatting\<close>

lemma create_name:
  assumes "fd_ok d" "fd_filename d ! (tfs_MAX_FILENAME_LENGTH - 1) = NUL" "length name < tfs_MAX_FILENAME_LENGTH"
  shows "strncpy (fd_filename d) name (tfs_MAX_FILENAME_LENGTH - 1) =
    Some (name @ replicate (tfs_MAX_FILENAME_LENGTH - length name) NUL)"
proof -
  have len: "length (fd_filename d) = 8" "length name \<le> 7" using assms by (simp_all add: fd_ok_def mip_simps)
  then have "drop 7 (fd_filename d) = [fd_filename d ! 7]" by (simp add: Cons_nth_drop_Suc [symmetric])
  moreover have "replicate (7 - length name) NUL @ [NUL] = replicate (8 - length name) NUL"
    using len(2) by (simp add: replicate_append_same Suc_diff_le flip: replicate_Suc)
  ultimately show ?thesis using assms(2) len by (simp add: strncpy_def mip_simps)
qed

lemma safe_create_desc:
  assumes "i < tfs_MAX_N_OF_FILES" "length name < tfs_MAX_FILENAME_LENGTH"
  shows "safe (tfs_inv firsts) (\<lambda>r. tfs_inv firsts)
    (with_access (\<lambda>fs. do { fs' \<leftarrow> create_desc i name fs; Some ((), fs') }))"
proof (rule safe_access)
  fix fs :: "'a tfs" assume ok: "tables_ok fs" and f: "firsts (file_fs_desc fs)"
  note n = tables_ok_nth [OF ok assms(1)]
  let ?n = "name @ replicate (tfs_MAX_FILENAME_LENGTH - length name) NUL"
  let ?fs = "upd_fd i (\<lambda>d. d\<lparr>fd_first_cluster := EMPTY_CLUSTER, fd_erased := NUL, fd_readonly := NUL,
                                fd_size := 0, fd_filename := ?n\<rparr>) fs"
  have "length ?n = tfs_MAX_FILENAME_LENGTH" "?n ! (tfs_MAX_FILENAME_LENGTH - 1) = NUL"
    using assms(2) by (simp_all add: fd_ok_def mip_simps nth_append)
  with ok have "tables_ok ?fs" by (intro tables_ok_fd) (simp_all add: fd_ok_def)
  moreover have "firsts (file_fs_desc ?fs)" using f by (simp add: firsts_update)
  ultimately show "\<exists>r fs'. do { fs' \<leftarrow> create_desc i name fs; Some ((), fs') } = Some (r, fs') \<and>
      tables_ok fs' \<and> firsts (file_fs_desc fs')"
    using create_name [OF n(1,2) assms(2)] by (simp add: create_desc_def)
qed

lemma safe_create_file: "NUL \<notin> set name \<Longrightarrow> keeps firsts (tfs_create_file name)"
proof (rule safeI)
  fix fs :: "'a tfs" assume nul: "NUL \<notin> set name" and inv: "tfs_inv firsts fs"
  show "\<exists>r fs'. tfs_create_file name fs = Some (r, fs') \<and> tfs_inv firsts fs'"
  proof (cases "tfs_check_file_name name")
    case ok: True
    from safeD [OF safe_fexist [OF name_legal [OF ok nul]] inv] obtain ex fs1 where
        ex: "tfs_fexist (Some name) fs = Some (ex, fs1)" "tfs_inv firsts fs1" by blast
    show ?thesis
    proof (cases "List.find (\<lambda>i. fd_erased (file_fs_desc fs1 ! i) \<noteq> NUL) [0..<tfs_MAX_N_OF_FILES]")
      case (Some i)
      then have "i < tfs_MAX_N_OF_FILES" by (auto simp: find_upt_Some)
      moreover have "length name < tfs_MAX_FILENAME_LENGTH" using ok by (simp add: tfs_check_file_name_def)
      ultimately obtain fs3 where fs3: "with_access (\<lambda>fs. do { fs' \<leftarrow> create_desc i name fs; Some ((), fs') }) fs1 = Some ((), fs3)"
          "tfs_inv firsts fs3"
        using safeD [OF safe_create_desc ex(2)] by fastforce
      from safeD [OF safe_update_fs_on_disk fs3(2)] obtain fs4 where
          "update_fs_on_disk fs3 = Some (0, fs4)" "tfs_inv firsts fs4" by (auto simp: tfs_inv_def)
      with ok ex fs3 Some inv_err [OF ex(2)] show ?thesis
        by (cases ex) (auto simp: tfs_create_file_def erased_scan_eq [OF inv_unlocked])
    qed (use ok ex inv_err in \<open>auto simp: tfs_create_file_def erased_scan_eq [OF inv_unlocked]\<close>)
  qed (use inv inv_err in \<open>auto simp: tfs_create_file_def\<close>)
qed

lemma safe_close_file: "keeps F (tfs_close_file h)"
  by (auto simp: safe_def tfs_close_file_def inv_unlocked inv_ctl inv_err)

lemma filter_update_less:
  assumes "i < length xs" "P (xs ! i)" "\<not> P v"
  shows "length (filter P (xs[i := v])) < length (filter P xs)"
  using assms
proof (induction xs arbitrary: i)
  case (Cons x xs)
  then show ?case by (cases i) auto
qed simp

text \<open>Giving back a chain always ends: each step but the last turns a link into a free entry.\<close>

lemma free_chain_loop_ok:
  assumes "tfs_inv F fs"
  shows "\<exists>fs'. free_chain_loop c fs = Some fs' \<and> tfs_inv F fs' \<and> tfs_file_ctl fs' = tfs_file_ctl fs"
  using assms
proof (induction "length (filter cluster_ok (cluster_tbl fs))" arbitrary: c fs rule: less_induct)
  case less
  let ?t = "cluster_tbl fs"
  have ok: "unlocked fs" "tables_ok fs" "length ?t = tfs_CLUSTERS_COUNT"
    using less.prems tables_ok_length by (auto simp: tfs_inv_def)
  show ?case
  proof (cases "cluster_ok c")
    case True
    let ?fs2 = "upd_tbl (unat c) FREE_CLUSTER fs"
    have inv2: "tfs_inv F ?fs2" "tfs_file_ctl ?fs2 = tfs_file_ctl fs" using less.prems ok
      by (simp_all add: tfs_inv_def) (simp add: upd_tbl_def)
    have step: "free_chain_loop c fs =
        (if cluster_ok (?t ! unat c) then free_chain_loop (?t ! unat c) ?fs2 else Some ?fs2)"
      using ok True by (subst free_chain_loop.simps)
        (simp add: get_next_cluster_eq mark_cluster_free_def set_cluster_val_eq)
    show ?thesis
    proof (cases "cluster_ok (?t ! unat c)")
      case link: True
      have "cluster_tbl ?fs2 = ?t[unat c := FREE_CLUSTER]" by (simp add: upd_tbl_def)
      moreover have "\<not> cluster_ok FREE_CLUSTER" by (simp add: mip_simps)
      ultimately have "length (filter cluster_ok (cluster_tbl ?fs2)) < length (filter cluster_ok ?t)"
        using filter_update_less [of "unat c" ?t cluster_ok FREE_CLUSTER] True link ok(3) by simp
      from less.hyps [OF this inv2(1)] step link inv2(2) show ?thesis by auto
    qed (use step inv2 in simp)
  next
    case False
    with less.prems ok show ?thesis
      by (subst free_chain_loop.simps) (simp add: get_next_cluster_eq)
  qed
qed

lemma inv_fd:
  "tfs_inv firsts fs \<Longrightarrow> fd_ok (f (file_fs_desc fs ! i)) \<Longrightarrow>
     fd_filename (f (file_fs_desc fs ! i)) ! (tfs_MAX_FILENAME_LENGTH - 1) = NUL \<Longrightarrow>
     (0 < fd_size (f (file_fs_desc fs ! i)) \<longrightarrow> cluster_ok (fd_first_cluster (f (file_fs_desc fs ! i)))) \<Longrightarrow>
     tfs_inv firsts (upd_fd i f fs)"
  by (simp add: tfs_inv_def tables_ok_fd firsts_update)

lemma safe_delete_file: "legal_name name \<Longrightarrow> keeps firsts (tfs_delete_file (Some name))"
proof (rule safeI)
  fix fs :: "'a tfs" assume name: "legal_name name" and inv: "tfs_inv firsts fs"
  from safeD [OF safe_ffirst [OF name] inv] obtain r fs1 where
      r: "tfs_ffirst (Some name) fs = Some (r, fs1)" "tfs_inv firsts fs1" by (auto simp: tfs_inv_def)
  show "\<exists>r fs'. tfs_delete_file (Some name) fs = Some (r, fs') \<and> tfs_inv firsts fs'"
  proof (cases r)
    case (Some h)
    obtain b fs2 where b: "tfs_lock_file h fs1 = (b, fs2)" by fastforce
    with lock_file_inv [OF r(2)] have inv2: "tfs_inv firsts fs2" by blast
    let ?fs4 = "upd_fd (unat h) (\<lambda>_. zero_fd\<lparr>fd_erased := CHR 0x01\<rparr>) fs2"
    have inv4: "tfs_inv firsts ?fs4" using inv2 by (intro inv_fd) (simp_all add: zero_fd_def fd_ok_def mip_simps)
    obtain fs5 where fs5: "free_chain_loop (fd_first_cluster (file_fs_desc fs2 ! unat h)) ?fs4 = Some fs5"
        "tfs_inv firsts fs5" using free_chain_loop_ok [OF inv4] by blast
    from safeD [OF safe_update_fs_on_disk fs5(2)] obtain fs6 where
        "update_fs_on_disk fs5 = Some (0, fs6)" "tfs_inv firsts fs6" by (auto simp: tfs_inv_def)
    with r Some b fs5 inv2 inv_unlocked [OF inv2] show ?thesis
      by (cases b) (auto simp: tfs_delete_file_def inv_err unlock_file_inv)
  qed (use r inv_err in \<open>auto simp: tfs_delete_file_def\<close>)
qed

lemma mkfs_clusters_ok:
  "tables_ok fs \<Longrightarrow> \<forall>j \<in> set js. j < tfs_CLUSTERS_COUNT \<Longrightarrow> \<exists>fs'. mkfs_clusters js 0 fs = Some (0, fs') \<and> tables_ok fs' \<and> file_fs_desc fs' = file_fs_desc fs"
proof (induction js arbitrary: fs)
  case (Cons j js)
  then have "tables_ok (upd_tbl j FREE_CLUSTER fs)" "j < tfs_CLUSTERS_COUNT" by simp_all
  moreover from this(2) have "j * tfs_CLUSTER_SIZE + tfs_OFFSET + length (replicate tfs_CLUSTER_SIZE NUL) \<le> tfs_capacity"
    by (simp add: mip_simps)
  ultimately
  obtain fs1 where "dev_write (replicate tfs_CLUSTER_SIZE NUL) (j * tfs_CLUSTER_SIZE + tfs_OFFSET) (upd_tbl j FREE_CLUSTER fs) = Some (0, fs1)"
      "tables_ok fs1" "file_fs_desc fs1 = file_fs_desc fs"
    using dev_write_ok [of "upd_tbl j FREE_CLUSTER fs" "j * tfs_CLUSTER_SIZE + tfs_OFFSET"] by fastforce
  with Cons.IH [of fs1] Cons.prems(2) show ?case by auto
qed simp

lemma safe_mkfs: "keeps firsts (tfs_mkfs volume)"
proof (rule safeI)
  fix fs :: "'a tfs" assume inv: "tfs_inv firsts fs"
  let ?body = "\<lambda>fs :: 'a tfs. do { fs0 \<leftarrow> mkfs_table volume fs; mkfs_clusters [0..<tfs_CLUSTERS_COUNT] 0 fs0 }"
  have "safe (tfs_inv firsts) (\<lambda>r. tfs_inv (\<lambda>ds. r = 0 \<and> firsts ds)) (with_access ?body)"
  proof (rule safe_access)
    fix fs :: "'a tfs" assume ok: "tables_ok fs"
    have len: "length (ft_volume_description (tfs_ftbl_of fs)) = tfs_MAX_VOLUME_LENGTH"
      using ok by (simp add: tables_ok_def ftbl_ok_def)
    obtain fs0 where fs0: "mkfs_table volume fs = Some fs0" "tables_ok fs0" "firsts (file_fs_desc fs0)"
      using ok len by (cases volume)
        (auto simp: mkfs_table_def strncpy_def tables_ok_def ftbl_ok_def zero_fd_def fd_ok_def firsts_def list_all_iff
          min_def mip_simps)
    from mkfs_clusters_ok [OF fs0(2), of "[0..<tfs_CLUSTERS_COUNT]"] fs0(1,3)
    show "\<exists>r fs'. ?body fs = Some (r, fs') \<and> tables_ok fs' \<and> r = 0 \<and> firsts (file_fs_desc fs')"
      by auto
  qed
  from safeD [OF this inv] obtain fs1 where fs1: "with_access ?body fs = Some (0, fs1)" "tfs_inv firsts fs1"
    by (auto simp: tfs_inv_def)
  with safeD [OF safe_update_fs_on_disk fs1(2)] show "\<exists>r fs'. tfs_mkfs volume fs = Some (r, fs') \<and> tfs_inv firsts fs'"
    by (auto simp: tfs_mkfs_def tfs_inv_def)
qed

subsection \<open>Positioning and reading\<close>

lemma safe_seek_file: "keeps F (tfs_seek_file code pos h)"
proof (rule safeI)
  fix fs :: "'a tfs" assume inv: "tfs_inv F fs"
  obtain b fs1 where b: "tfs_lock_file h fs = (b, fs1)" by fastforce
  with lock_file_inv [OF inv] have inv1: "tfs_inv F fs1" by blast
  have to_begin: "with_access (\<lambda>fs.
      if pos > 0 \<and> (word_of_int pos :: u32) < s
      then Some (True, upd_ctl (unat h) (\<lambda>c. c\<lparr>ctl_seek_pointer := word_of_int pos\<rparr>) fs)
      else Some (False, set_err ERR_SEEK_FAILED fs)) fs1 =
      (if pos > 0 \<and> (word_of_int pos :: u32) < s
       then Some (True, upd_ctl (unat h) (\<lambda>c. c\<lparr>ctl_seek_pointer := word_of_int pos\<rparr>) fs1)
       else Some (False, set_err ERR_SEEK_FAILED fs1))" for s
    using inv_unlocked [OF inv1] by (subst with_access_eq) simp_all
  show "\<exists>r fs'. tfs_seek_file code pos h fs = Some (r, fs') \<and> tfs_inv F fs'"
    using b inv1 inv_unlocked [OF inv1]
    by (cases b) (auto simp: tfs_seek_file_def to_begin inv_err inv_ctl unlock_file_inv)
qed

lemma safe_read_loop:
  "unat h < tfs_MAX_N_OF_FILES \<Longrightarrow> cluster_ok c \<Longrightarrow> tfs_inv F fs \<Longrightarrow>
     \<exists>r fs'. read_loop h c off rem acc fs = Some (r, fs') \<and> tfs_inv F fs'"
proof (induction rem arbitrary: c off acc fs rule: less_induct)
  case (less rem)
  from safeD [OF safe_read_cluster [OF less.prems(2)] less.prems(3)] obtain ret n bs fs1 where
      rd: "read_cluster c off rem fs = Some ((ret, n, bs), fs1)" "tfs_inv F fs1" by (metis prod_cases3)
  let ?fs2 = "upd_ctl (unat h) (\<lambda>c. c\<lparr>ctl_seek_pointer := ctl_seek_pointer c + of_nat n\<rparr>) fs1"
  have inv2: "tfs_inv F ?fs2" using rd(2) by (rule inv_ctl)
  have acc: "with_access (\<lambda>fs. Some ((), upd_ctl (unat h)
      (\<lambda>c. c\<lparr>ctl_seek_pointer := ctl_seek_pointer c + of_nat n\<rparr>) fs)) fs1 = Some ((), ?fs2)"
    using inv_unlocked [OF rd(2)] by simp
  from safeD [OF safe_get_next_cluster inv2, of c] obtain nx fs3 where
      nx: "get_next_cluster c ?fs2 = Some (nx, fs3)" "tfs_inv F fs3" "\<forall>d. nx = Some d \<longrightarrow> cluster_ok d"
    by (auto simp: tfs_inv_def)
  show ?case
  proof (cases "n = 0 \<or> n \<ge> rem \<or> nx = None")
    case True
    then show ?thesis
      using rd acc inv2 nx by (subst read_loop.simps) (auto simp: inv_err)
  next
    case False
    then obtain d where "nx = Some d" by auto
    with less.IH [of "rem - n" d fs3 0 "acc @ bs"] False nx less.prems(1) rd acc show ?thesis
      by (subst read_loop.simps) auto
  qed
qed

lemma read_fail_ok: "tfs_inv F fs \<Longrightarrow> \<exists>r fs'. read_fail n h fs = Some (r, fs') \<and> tfs_inv F fs'"
  by (auto simp: read_fail_def unlock_file_inv inv_err)

lemma seek_pt_ok:
  assumes "tfs_inv F fs" "cluster_ok (fd_first_cluster fd)"
  shows "\<exists>found c fs'. get_cluster_seek_pt fd ctl fs = Some ((found, c), fs') \<and> tfs_inv F fs' \<and> cluster_ok c"
  using safeD [OF safe_seek_walk [OF assms(2)] assms(1)]
  by (fastforce simp: get_cluster_seek_pt_def tfs_inv_def)

lemma locked_copies:
  assumes "tfs_inv F fs" "unat h < tfs_MAX_N_OF_FILES"
  shows "tfs_get_fd h fs = Some (Some (fd_erased (file_fs_desc fs ! unat h) = NUL, file_fs_desc fs ! unat h), fs)"
    and "tfs_get_ctl h fs = Some (Some (tfs_file_ctl fs ! unat h), fs)"
  using assms inv_unlocked [OF assms(1)] by (simp_all add: tfs_get_fd_def tfs_get_ctl_def)

lemma safe_read_file: "keeps firsts (tfs_read_file n h)"
proof (rule safeI)
  fix fs :: "'a tfs" assume inv: "tfs_inv firsts fs"
  obtain b fs1 where b: "tfs_lock_file h fs = (b, fs1)" by fastforce
  with lock_file_inv [OF inv] have inv1: "tfs_inv firsts fs1" "b \<longrightarrow> unat h < tfs_MAX_N_OF_FILES" by auto
  let ?fd = "file_fs_desc fs1 ! unat h" and ?ctl = "tfs_file_ctl fs1 ! unat h"
  show "\<exists>r fs'. tfs_read_file n h fs = Some (r, fs') \<and> tfs_inv firsts fs'"
  proof (cases "b \<and> ctl_open ?ctl \<and> ctl_seek_pointer ?ctl < fd_size ?fd")
    case False
    then show ?thesis
      using b inv1 read_fail_ok [OF inv1(1)] locked_copies [OF inv1(1), of h]
      by (cases b) (auto simp: tfs_read_file_def)
  next
    case True
    then have h: "unat h < tfs_MAX_N_OF_FILES" and pos: "0 < fd_size ?fd"
      using inv1(2) le_less_trans [OF word_zero_le, of "ctl_seek_pointer ?ctl" "fd_size ?fd"] by auto
    have "cluster_ok (fd_first_cluster ?fd)"
      using inv_firsts [OF inv1(1) h pos] .
    from seek_pt_ok [OF inv1(1) this] obtain found c fs4 where
        c: "get_cluster_seek_pt ?fd ?ctl fs1 = Some ((found, c), fs4)" "tfs_inv firsts fs4" "cluster_ok c" by blast
    let ?eof = "upd_ctl (unat h) (\<lambda>c. c\<lparr>ctl_eof_while_read := True\<rparr>) fs4"
    have rl: "\<exists>ok k bs fs'. read_loop h c off rem [] fs5 = Some ((ok, k, bs), fs') \<and> tfs_inv firsts fs'"
      if "fs5 = fs4 \<or> fs5 = ?eof" for off rem fs5
      using safe_read_loop [OF h c(3), of firsts fs5 off rem "[]"] that c(2) inv_ctl by (metis prod_cases3)
    show ?thesis
    proof (cases found)
      case found: True
      have nle: "(fd_size ?fd \<le> ctl_seek_pointer ?ctl) = False" using True by (simp add: not_le)
      let ?beyond = "fd_size ?fd < n + ctl_seek_pointer ?ctl"
      define fs5 where "fs5 = (if ?beyond then ?eof else fs4)"
      define k where "k = (if ?beyond then fd_size ?fd - ctl_seek_pointer ?ctl else n)"
      have "fs5 = fs4 \<or> fs5 = ?eof" by (simp add: fs5_def)
      from rl [OF this, of "unat (ctl_seek_pointer ?ctl) mod tfs_CLUSTER_SIZE" "unat k"] obtain ok j bs fs6 where
          fs6: "read_loop h c (unat (ctl_seek_pointer ?ctl) mod tfs_CLUSTER_SIZE) (unat k) [] fs5 = Some ((ok, j, bs), fs6)"
          "tfs_inv firsts fs6" by blast
      show ?thesis
        using b True c inv_unlocked [OF c(2)] locked_copies [OF inv1(1) h] found unlock_file_inv [OF fs6(2), of h]
          fs6(1) [unfolded fs5_def k_def]
        by (cases ?beyond) (simp_all add: tfs_read_file_def Let_def nle)
    qed (use b True c locked_copies [OF inv1(1) h] read_fail_ok [OF c(2)] in \<open>auto simp: tfs_read_file_def not_le\<close>)
  qed
qed

subsection \<open>Writing\<close>

text \<open>While the loop runs, the size of the file written is all that changes in the descriptors.\<close>

definition resized :: "nat \<Rightarrow> tfs_fd list \<Rightarrow> tfs_fd list \<Rightarrow> bool" where
  "resized i ds0 ds \<longleftrightarrow> (\<exists>s. ds = ds0[i := (ds0 ! i)\<lparr>fd_size := s\<rparr>])"

lemma inv_resize:
  assumes "tfs_inv (resized i ds0) fs" "i < tfs_MAX_N_OF_FILES"
  shows "tfs_inv (resized i ds0) (upd_fd i (\<lambda>d. d\<lparr>fd_size := s\<rparr>) fs)"
proof -
  have ok: "tables_ok fs" "resized i ds0 (file_fs_desc fs)" using assms(1) by (auto simp: tfs_inv_def)
  have "i < length ds0" using ok assms(2) tables_ok_length(2) [OF ok(1)] by (auto simp: resized_def)
  then have "resized i ds0 (file_fs_desc (upd_fd i (\<lambda>d. d\<lparr>fd_size := s\<rparr>) fs))"
    using ok(2) by (auto simp: resized_def)
  moreover have "tables_ok (upd_fd i (\<lambda>d. d\<lparr>fd_size := s\<rparr>) fs)"
    using ok(1) tables_ok_nth [OF ok(1) assms(2)] by (intro tables_ok_fd) (simp_all add: fd_ok_def)
  ultimately show ?thesis using assms(1) by (simp add: tfs_inv_def)
qed

lemma finish_write_ok:
  assumes inv: "tfs_inv (resized (unat h) ds0) fs" and "unat h < tfs_MAX_N_OF_FILES" "cluster_ok c"
  shows "\<exists>fs'. finish_write h c fs = Some fs' \<and> tfs_inv (resized (unat h) ds0) fs'"
proof -
  let ?s = "ctl_seek_pointer (tfs_file_ctl fs ! unat h)"
  from safeD [OF safe_mark(1) [OF assms(3)] inv_resize [OF assms(1,2), of ?s]] obtain fs' where
      "mark_cluster_last c (upd_fd (unat h) (\<lambda>d. d\<lparr>fd_size := ?s\<rparr>) fs) = Some ((), fs')"
      "tfs_inv (resized (unat h) ds0) fs'" by auto
  with inv show ?thesis by (simp add: finish_write_def Let_def)
qed

lemma next_for_write_ok:
  assumes inv: "tfs_inv F fs" and "cluster_ok c"
  shows "\<exists>nx fs'. next_for_write h c fs = Some (nx, fs') \<and> tfs_inv F fs' \<and> (\<forall>d. nx = Some d \<longrightarrow> cluster_ok d)"
proof -
  from safeD [OF safe_reserve_cluster inv] obtain r1 f1 where
      r1: "reserve_cluster fs = Some (r1, f1)" "tfs_inv F f1" "\<forall>d. r1 = Some d \<longrightarrow> cluster_ok d" by (auto simp: tfs_inv_def)
  from safeD [OF safe_get_next_cluster inv, of c] obtain r2 f2 where
      r2: "get_next_cluster c fs = Some (r2, f2)" "tfs_inv F f2" "\<forall>d. r2 = Some d \<longrightarrow> cluster_ok d" by (auto simp: tfs_inv_def)
  from safeD [OF safe_mark(1) [OF assms(2)] r1(2)] safeD [OF safe_mark(1) [OF assms(2)] r2(2)] r1 r2
  show ?thesis by (auto simp: next_for_write_def split: option.split)
qed

lemma safe_write_loop:
  "unat h < tfs_MAX_N_OF_FILES \<Longrightarrow> cluster_ok c \<Longrightarrow> tot \<le> length src \<Longrightarrow> tfs_inv (resized (unat h) ds0) fs \<Longrightarrow>
     \<exists>k fs'. write_loop h c off tot src fs = Some ((0, k), fs') \<and> tfs_inv (resized (unat h) ds0) fs'"
proof (induction tot arbitrary: c off src fs rule: less_induct)
  case (less tot)
  let ?F = "resized (unat h) ds0"
  from safeD [OF safe_write_cluster [OF less.prems(3,2)] less.prems(4), of off] obtain n fs1 where
      wr: "write_cluster c off src tot fs = Some ((0, n), fs1)" "tfs_inv ?F fs1" by (auto simp: tfs_inv_def)
  let ?fs2 = "upd_ctl (unat h) (\<lambda>c. c\<lparr>ctl_seek_pointer := ctl_seek_pointer c + of_nat n\<rparr>) fs1"
  have inv2: "tfs_inv ?F ?fs2" using wr(2) by (rule inv_ctl)
  have acc: "with_access (\<lambda>fs. Some ((), upd_ctl (unat h)
      (\<lambda>c. c\<lparr>ctl_seek_pointer := ctl_seek_pointer c + of_nat n\<rparr>) fs)) fs1 = Some ((), ?fs2)"
    using inv_unlocked [OF wr(2)] by simp
  show ?case
  proof (cases "tot - n = 0")
    case True
    with finish_write_ok [OF inv2 less.prems(1,2)] wr acc show ?thesis
      by (subst write_loop.simps) auto
  next
    case False
    then have dec: "tot - n < tot" using write_cluster_progress [OF wr(1)] by simp
    obtain nx fs3 where nx: "next_for_write h c ?fs2 = Some (nx, fs3)" "tfs_inv ?F fs3" "\<forall>d. nx = Some d \<longrightarrow> cluster_ok d"
      using next_for_write_ok [OF inv2 less.prems(2)] by blast
    show ?thesis
    proof (cases nx)
      case (Some d)
      from safeD [OF safe_link_cluster nx(2), of c d] obtain l fs4 where
          fs4: "link_cluster c d fs3 = Some (l, fs4)" "tfs_inv ?F fs4" by blast
      have "tot - n \<le> length (drop n src)" using less.prems(3) by simp
      from less.IH [OF dec less.prems(1) _ this fs4(2), of d 0] nx(3) Some fs4(1) wr(1) acc nx(1) False show ?thesis
        by (subst write_loop.simps) auto
    qed (use wr acc nx False in \<open>subst write_loop.simps, auto\<close>)
  qed
qed

lemma write_fail_ok: "tfs_inv F fs \<Longrightarrow> \<exists>r fs'. write_fail h fs = Some (r, fs') \<and> tfs_inv F fs'"
  by (auto simp: write_fail_def unlock_file_inv inv_err)

lemma first_for_write_ok:
  assumes inv: "tfs_inv F fs" and first: "0 < fd_size fd \<longrightarrow> cluster_ok (fd_first_cluster fd)"
    and "ctl_seek_pointer ctl \<le> fd_size fd"
  shows "\<exists>r fs'. first_for_write fd ctl fs = Some (r, fs') \<and> tfs_inv F fs' \<and> (\<forall>c. r = Some c \<longrightarrow> cluster_ok c)"
proof -
  have res: "\<exists>r fs'. reserve_cluster f = Some (r, fs') \<and> tfs_inv F fs' \<and> (\<forall>d. r = Some d \<longrightarrow> cluster_ok d)"
    if "tfs_inv F f" for f using safeD [OF safe_reserve_cluster that] by (auto simp: tfs_inv_def)
  show ?thesis
  proof (cases "fd_size fd = 0")
    case True
    then have "ctl_seek_pointer ctl = 0" using assms(3) by (simp add: word_le_nat_alt unsigned_eq_0_iff)
    with True res [OF inv] show ?thesis by (simp add: first_for_write_def)
  next
    case False
    then have "cluster_ok (fd_first_cluster fd)" using first by (simp add: word_neq_0_conv)
    from seek_pt_ok [OF inv this, of ctl] obtain found c fs1 where
        c: "get_cluster_seek_pt fd ctl fs = Some ((found, c), fs1)" "tfs_inv F fs1" "cluster_ok c" by blast
    obtain r fs2 where r: "reserve_cluster fs1 = Some (r, fs2)" "tfs_inv F fs2" "\<forall>d. r = Some d \<longrightarrow> cluster_ok d"
      using res [OF c(2)] by blast
    show ?thesis
    proof (cases r)
      case (Some d)
      from safeD [OF safe_link_cluster r(2), of c d] obtain l fs3 where
          "link_cluster c d fs2 = Some (l, fs3)" "tfs_inv F fs3" by blast
      with c r False Some show ?thesis
        by (cases found; cases "ctl_seek_pointer ctl = 0") (auto simp: first_for_write_def word_neq_0_conv)
    qed (use c r False in \<open>cases found; auto simp: first_for_write_def word_neq_0_conv\<close>)
  qed
qed

lemma write_done:
  assumes inv: "tfs_inv (resized (unat h) ds0) fs" and f: "firsts ds0" and h: "unat h < tfs_MAX_N_OF_FILES" and c: "cluster_ok c"
  shows "tfs_inv firsts (if \<not> cluster_ok (fd_first_cluster (file_fs_desc fs ! unat h))
    then upd_fd (unat h) (\<lambda>d. d\<lparr>fd_first_cluster := c\<rparr>) fs else fs)"
proof -
  have ok: "tables_ok fs" "unlocked fs" using inv by (auto simp: tfs_inv_def)
  obtain s where s: "file_fs_desc fs = ds0[unat h := (ds0 ! unat h)\<lparr>fd_size := s\<rparr>]"
    using inv by (auto simp: tfs_inv_def resized_def)
  have len: "unat h < length ds0" using arg_cong [OF s, of length] tables_ok_length(2) [OF ok(1)] h by simp
  note n = tables_ok_nth [OF ok(1) h]
  have "firsts (ds0[unat h := d])" if "cluster_ok (fd_first_cluster d)" for d
    using f that by (simp add: firsts_update)
  moreover have "tables_ok (upd_fd (unat h) (\<lambda>d. d\<lparr>fd_first_cluster := c\<rparr>) fs)"
    using ok(1) n by (intro tables_ok_fd) (simp_all add: fd_ok_def)
  ultimately show ?thesis using ok c s len by (simp add: tfs_inv_def)
qed

lemma safe_write_file:
  assumes "unat w \<le> length src"
  shows "keeps firsts (tfs_write_file src w h)"
proof (rule safeI)
  fix fs :: "'a tfs" assume inv: "tfs_inv firsts fs"
  obtain b fs1 where b: "tfs_lock_file h fs = (b, fs1)" by fastforce
  with lock_file_inv [OF inv] have inv1: "tfs_inv firsts fs1" "b \<longrightarrow> unat h < tfs_MAX_N_OF_FILES" by auto
  let ?fd = "file_fs_desc fs1 ! unat h" and ?ctl = "tfs_file_ctl fs1 ! unat h" and ?ds = "file_fs_desc fs1"
  show "\<exists>r fs'. tfs_write_file src w h fs = Some (r, fs') \<and> tfs_inv firsts fs'"
  proof (cases "b \<and> \<not> (fd_readonly ?fd \<noteq> NUL \<or> ctl_file_open_mode ?ctl \<noteq> FILE_OPEN_WRITE \<or> \<not> ctl_open ?ctl \<or>
      fd_size ?fd < ctl_seek_pointer ?ctl)")
    case False
    then show ?thesis
      using b inv1 write_fail_ok [OF inv1(1)] locked_copies [OF inv1(1), of h]
      by (cases b) (auto simp: tfs_write_file_def)
  next
    case True
    then have h: "unat h < tfs_MAX_N_OF_FILES" and le: "ctl_seek_pointer ?ctl \<le> fd_size ?fd" using inv1(2) by auto
    have "tfs_inv ((=) ?ds) fs1" using inv1(1) by (simp add: tfs_inv_def)
    from first_for_write_ok [OF this _ le] inv_firsts [OF inv1(1) h] obtain r fs4 where
        r: "first_for_write ?fd ?ctl fs1 = Some (r, fs4)" "tfs_inv ((=) ?ds) fs4"
        "\<forall>c. r = Some c \<longrightarrow> cluster_ok c" by blast
    have f: "firsts ?ds" using inv1(1) by (simp add: tfs_inv_def)
    have inv4: "tfs_inv firsts fs4" "tfs_inv (resized (unat h) ?ds) fs4"
      using r(2) f by (auto simp: tfs_inv_def resized_def intro!: exI [of _ "fd_size ?fd"])
    have pre: "tfs_write_file src w h fs = (case r of None \<Rightarrow> write_fail h fs4 | Some c \<Rightarrow> do {
        ((ret, missing), fs5) \<leftarrow> write_loop h c (unat (ctl_seek_pointer ?ctl) mod tfs_CLUSTER_SIZE) (unat w) src fs4;
        if ret \<noteq> 0 then Some ((False, w), snd (tfs_unlock_file h fs5))
        else do {
          (_, fs6) \<leftarrow> with_access (\<lambda>fs. Some ((),
            if unat (fd_first_cluster (file_fs_desc fs ! unat h)) \<ge> tfs_CLUSTERS_COUNT
            then upd_fd (unat h) (\<lambda>d. d\<lparr>fd_first_cluster := c\<rparr>) fs else fs)) fs5;
          Some ((missing = 0, of_nat (unat w - missing)), snd (tfs_unlock_file h fs6)) } })"
      using b True locked_copies [OF inv1(1) h] r(1) by (simp add: tfs_write_file_def)
    show ?thesis
    proof (cases r)
      case None
      with pre write_fail_ok [OF inv4(1)] show ?thesis by simp
    next
      case (Some c)
      obtain k fs5 where fs5: "write_loop h c (unat (ctl_seek_pointer ?ctl) mod tfs_CLUSTER_SIZE) (unat w) src fs4 = Some ((0, k), fs5)"
          "tfs_inv (resized (unat h) ?ds) fs5"
        using safe_write_loop [OF h _ assms inv4(2)] r(3) Some by blast
      have "cluster_ok c" using r(3) Some by simp
      from write_done [OF fs5(2) f h this] pre Some fs5(1) inv_unlocked [OF fs5(2)] show ?thesis
        by (auto simp: not_less unlock_file_inv split: if_splits)
    qed
  qed
qed

subsection \<open>Renaming, mounting and the label\<close>

text \<open>
  The descriptor that \<^verbatim>\<open>mipos_tfs_rename_file\<close> leaves in slot 0 when the handle and the length
  of the new name stay below the length of a name together.
\<close>

lemma get_fd_nth:
  "length bs = 16 \<Longrightarrow> fd_ok (get_fd bs) \<and> fd_filename (get_fd bs) ! 7 = bs ! 7 \<and>
     (bs ! 8 = NUL \<and> bs ! 9 = NUL \<and> bs ! 10 = NUL \<and> bs ! 11 = NUL \<longrightarrow> fd_size (get_fd bs) = 0) \<and>
     fd_first_cluster (get_fd bs) = get_u16 [bs ! 12, bs ! 13]"
  by (simp add: get_fd_def fd_ok_def get_u32_def get_u16_def mip_simps)

lemma put_fd_nth:
  assumes "fd_ok d"
  shows "fd_size d = 0 \<Longrightarrow> 8 \<le> i \<Longrightarrow> i < 12 \<Longrightarrow> put_fd d ! i = NUL"
    and "get_u16 [put_fd d ! 12, put_fd d ! 13] = fd_first_cluster d"
proof -
  have len: "length (fd_filename d) = 8" using assms by (simp add: fd_ok_def mip_simps)
  show "put_fd d ! i = NUL" if "fd_size d = 0" "8 \<le> i" "i < 12"
  proof -
    have "\<not> i < 8" "i - 8 < 4" using that by auto
    then have "put_fd d ! i = put_u32 0 ! (i - 8)" using len that(1) by (simp add: put_fd_def nth_append)
    moreover have "set (put_u32 0) = {NUL}" by (simp add: put_u32_def char_of_def)
    moreover have "put_u32 0 ! (i - 8) \<in> set (put_u32 0)" using that by (intro nth_mem) simp
    ultimately show ?thesis by simp
  qed
  show "get_u16 [put_fd d ! 12, put_fd d ! 13] = fd_first_cluster d"
    using get_put_u16 [of "fd_first_cluster d" "[]"] len by (simp add: put_fd_def nth_append put_u16_def)
qed

lemma renamed_desc:
  assumes d: "fd_ok d" "0 < fd_size d \<longrightarrow> cluster_ok (fd_first_cluster d)" and h: "h + length new < tfs_MAX_FILENAME_LENGTH"
    and bs: "bs = take h (put_fd d) @ take 8 (new @ replicate 8 NUL) @ drop (h + 8) (put_fd d)"
  shows "fd_ok (get_fd bs) \<and> fd_filename (get_fd bs) ! 7 = NUL \<and>
    (0 < fd_size (get_fd bs) \<longrightarrow> cluster_ok (fd_first_cluster (get_fd bs)))"
proof -
  have len: "length (put_fd d) = 16" using length_put_fd [OF d(1)] by (simp add: mip_simps)
  have h': "h + length new < 8" using h by (simp add: mip_simps)
  then have lbs: "length bs = 16" using len bs by simp
  have nul: "bs ! i = NUL" if "h + length new \<le> i" "i < h + 8" for i
  proof -
    have "\<not> i < h" "i - h < 8" using that by auto
    then have "bs ! i = take 8 (new @ replicate 8 NUL) ! (i - h)"
      using len h' by (simp add: bs nth_append del: take_append)
    moreover have "\<not> i - h < length new" "i - h - length new < 8" using that by auto
    ultimately show ?thesis using \<open>i - h < 8\<close> by (simp add: nth_append del: take_append)
  qed
  have old: "bs ! i = put_fd d ! i" if "h + 8 \<le> i" "i < 16" for i
  proof -
    have "\<not> i < h" "\<not> i - h < 8" "h + 8 + (i - h - 8) = i" using that by auto
    then show ?thesis using len h' by (simp add: bs nth_append del: take_append)
  qed
  have size: "bs ! i = NUL" if "fd_size d = 0 \<or> 4 \<le> h" "8 \<le> i" "i < 12" for i
    using that nul [of i] old [of i] put_fd_nth(1) [OF d(1), of i] h' by (cases "i < h + 8") auto
  show ?thesis
  proof (cases "fd_size d = 0 \<or> 4 \<le> h")
    case True
    with size [of 8] size [of 9] size [of 10] size [of 11] get_fd_nth [OF lbs] nul [of 7] h' show ?thesis by simp
  next
    case False
    then have "fd_first_cluster (get_fd bs) = fd_first_cluster d"
      using get_fd_nth [OF lbs] old [of 12] old [of 13] put_fd_nth(2) [OF d(1)] by simp
    with False d(2) get_fd_nth [OF lbs] nul [of 7] h' show ?thesis by (simp add: word_neq_0_conv)
  qed
qed

lemma rename_ok:
  assumes inv: "tfs_inv firsts fs" and name: "legal_name name"
    and short: "\<And>h fs1. tfs_ffirst (Some name) fs = Some (Some h, fs1) \<Longrightarrow>
      unat h + length new < tfs_MAX_FILENAME_LENGTH"
  shows "\<exists>r fs'. tfs_rename_file (Some name) new fs = Some (r, fs') \<and> tfs_inv firsts fs'"
proof -
  from safeD [OF safe_ffirst [OF name] inv] obtain r fs1 where
      r: "tfs_ffirst (Some name) fs = Some (r, fs1)" "tfs_inv firsts fs1" by (auto simp: tfs_inv_def)
  show ?thesis
  proof (cases "\<exists>h. r = Some h \<and> tfs_check_file_name new")
    case False
    then show ?thesis using r inv_err [OF r(2)] by (auto simp: tfs_rename_file_def split: option.split)
  next
    case True
    then obtain h where h: "r = Some h" "tfs_check_file_name new" by blast
    let ?d = "file_fs_desc fs1 ! 0"
    let ?bs = "take (unat h) (put_fd ?d) @ take 8 (new @ replicate 8 NUL) @ drop (unat h + 8) (put_fd ?d)"
    let ?fs2 = "upd_fd 0 (\<lambda>_. get_fd ?bs) fs1"
    have ok: "tables_ok fs1" "unlocked fs1" "firsts (file_fs_desc fs1)" using r(2) by (auto simp: tfs_inv_def)
    have z: "0 < tfs_MAX_N_OF_FILES" by (simp add: mip_simps)
    note d = tables_ok_nth(1) [OF ok(1) z]
    have f: "0 < fd_size ?d \<longrightarrow> cluster_ok (fd_first_cluster ?d)"
      using firsts_nth [OF ok(3), of 0] tables_ok_length(2) [OF ok(1)] z by simp
    have sh: "unat h + length new < tfs_MAX_FILENAME_LENGTH" using short r(1) h(1) by simp
    have inv2: "tfs_inv firsts ?fs2"
      using renamed_desc [OF d f sh refl] by (intro inv_fd [OF r(2)]) (simp_all add: mip_simps)
    have "strncpy (drop (unat h) (put_fd ?d)) new tfs_MAX_FILENAME_LENGTH =
        Some (take 8 (new @ replicate 8 NUL) @ drop (unat h + 8) (put_fd ?d))"
      using sh length_put_fd [OF d] by (simp add: strncpy_def mip_simps add.commute)
    then have body: "with_access (\<lambda>fs. do {
        let old = put_fd (file_fs_desc fs ! 0);
        new \<leftarrow> strncpy (drop (unat h) old) new tfs_MAX_FILENAME_LENGTH;
        Some ((), upd_fd 0 (\<lambda>_. get_fd (take (unat h) old @ new)) fs) }) fs1 = Some ((), ?fs2)"
      using ok(2) by (subst with_access_eq) (simp_all add: Let_def upd_fd_def)
    from safeD [OF safe_update_fs_on_disk inv2] obtain fs3 where
        "update_fs_on_disk ?fs2 = Some (0, fs3)" "tfs_inv firsts fs3" by (auto simp: tfs_inv_def)
    with r(1) h body show ?thesis by (auto simp: tfs_rename_file_def)
  qed
qed

text \<open>Mounting takes the table over from the device, in whatever state it is there.\<close>

definition stored_ok :: "'d tfs \<Rightarrow> bool" where
  "stored_ok fs \<longleftrightarrow>
     (case dev_read sizeof_ftbl tfs_OFFSET fs of None \<Rightarrow> False
      | Some (ret, bs) \<Rightarrow>
          ftbl_ok (get_ftbl bs) \<and> firsts (ft_file_fs_desc (get_ftbl bs)) \<and>
          list_all (\<lambda>d. fd_filename d ! (tfs_MAX_FILENAME_LENGTH - 1) = NUL) (ft_file_fs_desc (get_ftbl bs)))"

lemma setup_ok:
  assumes inv: "tfs_inv firsts fs" and st: "stored_ok fs"
  shows "\<exists>r fs'. tfs_setup fs = Some (r, fs') \<and> tfs_inv firsts fs'"
proof -
  obtain ret bs where rd: "dev_read sizeof_ftbl tfs_OFFSET fs = Some (ret, bs)"
      "ftbl_ok (get_ftbl bs)" "firsts (ft_file_fs_desc (get_ftbl bs))"
      "list_all (\<lambda>d. fd_filename d ! (tfs_MAX_FILENAME_LENGTH - 1) = NUL) (ft_file_fs_desc (get_ftbl bs))"
    using st by (auto simp: stored_ok_def split: option.splits)
  have drv: "io_read (tfs_io_dev fs) \<noteq> None" "io_write (tfs_io_dev fs) \<noteq> None"
    using inv by (auto simp: tfs_inv_def tables_ok_def reliable_def)
  let ?fs1 = "fs\<lparr>tfs_ftbl_of := get_ftbl bs, tfs_file_ctl := replicate tfs_MAX_N_OF_FILES zero_ctl\<rparr>"
  have inv1: "tfs_inv firsts ?fs1" "tfs_inv firsts (fs\<lparr>tfs_ftbl_of := get_ftbl bs\<rparr>)"
    using inv rd(2-4) by (simp_all add: tfs_inv_def tables_ok_def)
  from safeD [OF safe_update_fs_on_disk inv1(1)] obtain fs2 where
      "update_fs_on_disk ?fs1 = Some (0, fs2)" "tfs_inv firsts fs2" by (auto simp: tfs_inv_def)
  moreover from this(2) have "tfs_inv firsts (fs2\<lparr>tfs_lock := mipos_mu_init (tfs_lock fs2)\<rparr>)"
    by (simp add: tfs_inv_def mipos_mu_init_def)
  ultimately show ?thesis using rd(1) drv inv1(2) by (auto simp: tfs_setup_def)
qed

lemma get_label_ok:
  assumes "tfs_inv F fs" "NUL \<in> set (ft_volume_description (tfs_ftbl_of fs))"
  shows "\<exists>r fs'. tfs_get_label fs = Some (r, fs') \<and> tfs_inv F fs'"
  unfolding tfs_get_label_def using assms inv_unlocked [OF assms(1)]
  by (subst with_access_eq) (simp_all add: c_str_def)

lemma safe_get_ctl: "keeps F (tfs_get_ctl h)"
  by (auto simp: safe_def tfs_get_ctl_def inv_unlocked)

subsection \<open>Sequences of calls\<close>

lemma blank_fs_inv: "tfs_inv firsts blank_fs"
  by (simp add: tfs_inv_def tables_ok_def reliable_def blank_fs_def ramdisk_dev_def disk_write_def disk_read_def ftbl_ok_def
      fd_ok_def zero_fd_def firsts_def list_all_iff mip_simps)

datatype tfs_call =
    Call_mkfs "bytes option" | Call_create bytes | Call_open bytes tfs_fopenmode | Call_close u16
  | Call_delete bytes | Call_exists bytes | Call_next u16 | Call_size bytes
  | Call_seek nat int u16 | Call_read u32 u16 | Call_write bytes u16
  | Call_rename bytes bytes | Call_setup | Call_label | Call_first bytes
  | Call_get_fd u16 | Call_get_ctl u16 | Call_lock u16 | Call_unlock u16

definition forget :: "('a \<times> 'd tfs) option \<Rightarrow> 'd tfs option" where
  "forget r = map_option snd r"

fun tfs_do :: "tfs_call \<Rightarrow> 'd tfs \<Rightarrow> 'd tfs option" where
  "tfs_do (Call_mkfs v) fs = forget (tfs_mkfs v fs)"
| "tfs_do (Call_create n) fs = forget (tfs_create_file n fs)"
| "tfs_do (Call_open n mode) fs = forget (tfs_open_file n mode fs)"
| "tfs_do (Call_close h) fs = forget (tfs_close_file h fs)"
| "tfs_do (Call_delete n) fs = forget (tfs_delete_file (Some n) fs)"
| "tfs_do (Call_exists n) fs = forget (tfs_fexist (Some n) fs)"
| "tfs_do (Call_next h) fs = forget (tfs_fnext h fs)"
| "tfs_do (Call_size n) fs = forget (tfs_get_fsize (Some n) fs)"
| "tfs_do (Call_seek code pos h) fs = forget (tfs_seek_file code pos h fs)"
| "tfs_do (Call_read n h) fs = forget (tfs_read_file n h fs)"
| "tfs_do (Call_write src h) fs = forget (tfs_write_file src (of_nat (length src)) h fs)"
| "tfs_do (Call_rename n new) fs = forget (tfs_rename_file (Some n) new fs)"
| "tfs_do Call_setup fs = forget (tfs_setup fs)"
| "tfs_do Call_label fs = forget (tfs_get_label fs)"
| "tfs_do (Call_first n) fs = forget (tfs_ffirst (Some n) fs)"
| "tfs_do (Call_get_fd h) fs = forget (tfs_get_fd h fs)"
| "tfs_do (Call_get_ctl h) fs = forget (tfs_get_ctl h fs)"
| "tfs_do (Call_lock h) fs = Some (snd (tfs_lock_file h fs))"
| "tfs_do (Call_unlock h) fs = Some (snd (tfs_unlock_file h fs))"

fun tfs_do_all :: "tfs_call list \<Rightarrow> 'd tfs \<Rightarrow> 'd tfs option" where
  "tfs_do_all [] fs = Some fs"
| "tfs_do_all (c # cs) fs = do { fs1 \<leftarrow> tfs_do c fs; tfs_do_all cs fs1 }"

text \<open>
  The calls that are sound in a state. Strings hold no null character; names that go to
  \<^verbatim>\<open>mipos_tfs_ffirst\<close> are shorter than the buffer before any \<^verbatim>\<open>*\<close>. A call of \<^verbatim>\<open>mipos_tfs_rename_file\<close>
  must find a file whose handle and the length of the new name together stay below the
  length of a name (it writes to the first descriptor, from the byte with the number of
  the handle on); \<^verbatim>\<open>mipos_tfs_setup\<close> needs a table in order on the device and
  \<^verbatim>\<open>mipos_tfs_get_label\<close> a terminated label.
\<close>

fun tfs_legal :: "tfs_call \<Rightarrow> 'd tfs \<Rightarrow> bool" where
  "tfs_legal (Call_create n) fs \<longleftrightarrow> NUL \<notin> set n"
| "tfs_legal (Call_delete n) fs \<longleftrightarrow> legal_name n"
| "tfs_legal (Call_exists n) fs \<longleftrightarrow> legal_name n"
| "tfs_legal (Call_first n) fs \<longleftrightarrow> legal_name n"
| "tfs_legal (Call_size n) fs \<longleftrightarrow> legal_name n"
| "tfs_legal (Call_rename n new) fs \<longleftrightarrow> legal_name n \<and> NUL \<notin> set new \<and>
     (case tfs_ffirst (Some n) fs of
        Some (Some h, _) \<Rightarrow> unat h + length new < tfs_MAX_FILENAME_LENGTH | _ \<Rightarrow> True)"
| "tfs_legal Call_setup fs \<longleftrightarrow> stored_ok fs"
| "tfs_legal Call_label fs \<longleftrightarrow> NUL \<in> set (ft_volume_description (tfs_ftbl_of fs))"
| "tfs_legal _ fs \<longleftrightarrow> True"

text \<open>Each call of a sequence is legal in the state in which it is made.\<close>

fun tfs_all_legal :: "tfs_call list \<Rightarrow> 'd tfs \<Rightarrow> bool" where
  "tfs_all_legal [] fs \<longleftrightarrow> True"
| "tfs_all_legal (c # cs) fs \<longleftrightarrow>
     tfs_legal c fs \<and> (case tfs_do c fs of None \<Rightarrow> True | Some fs1 \<Rightarrow> tfs_all_legal cs fs1)"

lemma forget_ok: "keeps F f \<Longrightarrow> tfs_inv F fs \<Longrightarrow> \<exists>fs'. forget (f fs) = Some fs' \<and> tfs_inv F fs'"
  by (auto simp: safe_def forget_def)

lemma forget_some: "\<exists>r fs'. x = Some (r, fs') \<and> P fs' \<Longrightarrow> \<exists>fs'. forget x = Some fs' \<and> P fs'"
  by (auto simp: forget_def)

lemma safe_ffirst_keeps: "legal_name name \<Longrightarrow> keeps F (tfs_ffirst (Some name))"
  using safe_ffirst [of name F] by (fastforce simp: safe_def tfs_inv_def)

lemma tfs_do_ok:
  assumes "tfs_inv firsts fs" "tfs_legal c fs"
  shows "\<exists>fs'. tfs_do c fs = Some fs' \<and> tfs_inv firsts fs'"
proof (cases c)
  case (Call_write src h)
  have "unat (of_nat (length src) :: u32) \<le> length src" by (simp add: unat_of_nat)
  from forget_ok [OF safe_write_file [OF this] assms(1)] Call_write show ?thesis by simp
next
  case (Call_rename n new)
  with assms(2) show ?thesis unfolding Call_rename tfs_do.simps
    by (intro forget_some rename_ok [OF assms(1)]) auto
next
  case Call_setup
  with assms(2) show ?thesis by (auto intro: forget_some setup_ok [OF assms(1)])
next
  case Call_label
  with assms(2) show ?thesis by (auto intro: forget_some get_label_ok [OF assms(1)])
next
  case (Call_lock h)
  with lock_file_inv [OF assms(1), of h] show ?thesis by (metis prod.collapse tfs_do.simps(18))
next
  case (Call_unlock h)
  with unlock_file_inv [OF assms(1), of h] show ?thesis by simp
qed (use assms in \<open>auto intro!: forget_ok safe_mkfs safe_create_file safe_open_file safe_close_file safe_delete_file
    safe_fexist safe_fnext safe_get_fsize safe_seek_file safe_read_file safe_ffirst_keeps safe_get_fd safe_get_ctl\<close>)

text \<open>
  C15. The file system never faults, hangs or deadlocks on its own mutex: on tables in order,
  with a driver that serves every access within its storage and whose writes succeed, every
  sequence of calls of the public operations returns, whatever the handles, positions and
  lengths, when each call is legal in the state in which it is made (\<open>tfs_legal\<close>: names short
  enough for the buffers, no renaming that damages the first descriptor, mounting only of a
  table in order, no label without a final null character); the driver is never asked for a
  byte outside its storage, and afterwards the tables are in order and the access mutex is
  free.
\<close>

theorem tfs_calls_return:
  assumes "tfs_inv firsts fs" "tfs_all_legal cs fs"
  shows "\<exists>fs'. tfs_do_all cs fs = Some fs' \<and> tfs_inv firsts fs'"
  using assms
proof (induction cs arbitrary: fs)
  case (Cons c cs)
  then obtain fs1 where "tfs_do c fs = Some fs1" "tfs_inv firsts fs1" using tfs_do_ok [of fs c] by auto
  with Cons show ?case by auto
qed simp

text \<open>For calls whose legality does not depend on the state it can be checked once and for all.\<close>

fun tfs_static :: "tfs_call \<Rightarrow> bool" where
  "tfs_static (Call_rename n new) \<longleftrightarrow> False"
| "tfs_static Call_setup \<longleftrightarrow> False"
| "tfs_static Call_label \<longleftrightarrow> False"
| "tfs_static _ \<longleftrightarrow> True"

lemma static_all_legal:
  "list_all (\<lambda>c. tfs_static c \<and> tfs_legal c fs) cs \<Longrightarrow> tfs_all_legal cs fs'"
proof (induction cs arbitrary: fs')
  case (Cons c cs x)
  then have "tfs_legal c x" by (cases c) auto
  with Cons show ?case by (auto split: option.split)
qed simp

lemma blank_label:
  "tfs_legal Call_label blank_fs" "tfs_do Call_label blank_fs = Some blank_fs"
proof -
  have nul: "NUL \<in> set (ft_volume_description (tfs_ftbl_of blank_fs))" by (simp add: blank_fs_def mip_simps)
  then show "tfs_legal Call_label blank_fs" by simp
  show "tfs_do Call_label blank_fs = Some blank_fs"
    using nul inv_unlocked [OF blank_fs_inv]
    by (simp add: forget_def tfs_get_label_def) (subst with_access_eq; simp add: c_str_def)
qed

lemma blank_first: "tfs_ffirst (Some ''*'') blank_fs = Some (Some 0, blank_fs)"
proof -
  have "[0..<tfs_MAX_N_OF_FILES] = 0 # [1..<tfs_MAX_N_OF_FILES]" by (simp add: upt_conv_Cons mip_simps)
  moreover have "fd_erased (file_fs_desc blank_fs ! 0) = NUL" by (simp add: blank_fs_def zero_fd_def mip_simps)
  ultimately show ?thesis
    using ffirst_eq [OF inv_unlocked [OF blank_fs_inv], of "''*''"] by (simp add: jolly_pos_def mip_simps)
qed

theorem tfs_calls_return_witness:
  "\<exists>fs'. tfs_do_all [Call_label, Call_rename ''*'' ''first'', Call_mkfs (Some ''RAMDISK''), Call_create ''test1'',
      Call_write ''0123456789'' 0, Call_close 0, Call_open ''test1'' FILE_OPEN_READ, Call_read 4 0,
      Call_seek 2 (- 1) 0, Call_read 100 9, Call_delete ''te*''] blank_fs = Some fs' \<and>
    tfs_inv firsts fs'"
proof -
  have rest: "tfs_all_legal [Call_mkfs (Some ''RAMDISK''), Call_create ''test1'', Call_write ''0123456789'' 0,
      Call_close 0, Call_open ''test1'' FILE_OPEN_READ, Call_read 4 0, Call_seek 2 (- 1) 0, Call_read 100 9,
      Call_delete ''te*''] fs" for fs :: "ramdisk tfs"
    by (rule static_all_legal [where fs = blank_fs]) (simp add: legal_name_def jolly_pos_def mip_simps)
  have "tfs_legal (Call_rename ''*'' ''first'') blank_fs"
    by (simp add: blank_first legal_name_def jolly_pos_def mip_simps)
  then have "tfs_all_legal [Call_label, Call_rename ''*'' ''first'', Call_mkfs (Some ''RAMDISK''), Call_create ''test1'',
      Call_write ''0123456789'' 0, Call_close 0, Call_open ''test1'' FILE_OPEN_READ, Call_read 4 0,
      Call_seek 2 (- 1) 0, Call_read 100 9, Call_delete ''te*''] blank_fs"
    using blank_label rest
    unfolding tfs_all_legal.simps(2) [of Call_label] tfs_all_legal.simps(2) [of "Call_rename ''*'' ''first''"]
    by (simp del: tfs_all_legal.simps tfs_legal.simps tfs_do.simps split: option.split)
  then show ?thesis by (rule tfs_calls_return [OF blank_fs_inv])
qed

end
