(* ===== verification/Mipos_Tfs_Contents.thy ===== *)
theory Mipos_Tfs_Contents
  imports Mipos_Tfs_Calls
begin

text \<open>
  What the files hold. \<open>chain\<close> follows the cluster table from a first cluster; the contents of a
  file are the bytes of its clusters, cut at its size. The interface \<open>byte_device\<close> is what
  the file system needs of a driver; on such a device reading returns the contents
  from the seek pointer on, and a write at the end appends.
\<close>

subsection \<open>Chains\<close>

fun chain :: "u16 list \<Rightarrow> u16 \<Rightarrow> u16 list \<Rightarrow> bool" where
  "chain t c [] \<longleftrightarrow> \<not> cluster_ok c"
| "chain t c (x # xs) \<longleftrightarrow> c = x \<and> cluster_ok x \<and> chain t (t ! unat x) xs"

lemma chain_unique: "chain t c xs \<Longrightarrow> chain t c ys \<Longrightarrow> xs = ys"
proof (induction xs arbitrary: c ys)
  case Nil
  then show ?case by (cases ys) auto
next
  case (Cons x xs)
  then show ?case by (cases ys) auto
qed

lemma chain_drop: "chain t c (xs @ x # ys) \<Longrightarrow> chain t x (x # ys)"
  by (induction xs arbitrary: c) auto

lemma chain_distinct: "chain t c xs \<Longrightarrow> distinct xs"
proof (induction xs arbitrary: c)
  case (Cons x xs)
  have "x \<notin> set xs"
  proof
    assume "x \<in> set xs"
    then obtain as bs where "xs = as @ x # bs" by (auto simp: in_set_conv_decomp)
    with Cons.prems have "chain t x (x # bs)" "chain t x (x # as @ x # bs)"
      using chain_drop [of t c "x # as" x bs] by auto
    from chain_unique [OF this] show False by (simp add: list_eq_iff_nth_eq)
  qed
  with Cons show ?case by auto
qed simp

lemma chain_cluster_ok: "chain t c xs \<Longrightarrow> x \<in> set xs \<Longrightarrow> cluster_ok x"
  by (induction xs arbitrary: c) auto

lemma chain_length:
  assumes "chain t c xs"
  shows "length xs \<le> tfs_CLUSTERS_COUNT"
proof -
  have "card (unat ` set xs) = card (set xs)" by (rule card_image) (simp add: inj_on_def word_unat_eq_iff)
  then have "length xs = card (unat ` set xs)" using distinct_card [OF chain_distinct [OF assms]] by simp
  also have "\<dots> \<le> card {..<tfs_CLUSTERS_COUNT}"
    using chain_cluster_ok [OF assms] by (intro card_mono) auto
  finally show ?thesis by simp
qed

lemma chain_cong: "(\<And>x. x \<in> set xs \<Longrightarrow> t' ! unat x = t ! unat x) \<Longrightarrow> chain t' c xs = chain t c xs"
  by (induction xs arbitrary: c) auto

lemma seek_walk_chain:
  assumes "unlocked fs" "length (cluster_tbl fs) = tfs_CLUSTERS_COUNT" "chain (cluster_tbl fs) c xs"
  shows "n < length xs \<Longrightarrow> seek_walk n c fs = Some ((True, xs ! n), fs)"
    and "xs \<noteq> [] \<Longrightarrow> seek_walk (length xs) c fs = Some ((True, last xs), fs)"
proof -
  show "n < length xs \<Longrightarrow> seek_walk n c fs = Some ((True, xs ! n), fs)"
    using assms(3)
  proof (induction xs arbitrary: c n)
    case (Cons x xs)
    show ?case
    proof (cases n)
      case 0
      with Cons.prems show ?thesis by simp
    next
      case (Suc m)
      with Cons.prems obtain y ys where "xs = y # ys" by (cases xs) auto
      with Cons Suc assms(1,2) show ?thesis by (simp add: get_next_cluster_eq)
    qed
  qed simp
  show "xs \<noteq> [] \<Longrightarrow> seek_walk (length xs) c fs = Some ((True, last xs), fs)"
    using assms(3)
  proof (induction xs arbitrary: c)
    case (Cons x xs)
    show ?case
    proof (cases xs)
      case Nil
      with Cons.prems assms(1,2) show ?thesis by (simp add: get_next_cluster_eq)
    next
      case (Cons y ys)
      with Cons.IH [of y] Cons.prems assms(1,2) show ?thesis by (simp add: get_next_cluster_eq)
    qed
  qed simp
qed

subsection \<open>Devices\<close>

text \<open>The bytes of the device after \<open>bs\<close> has been stored at \<open>off\<close>.\<close>

definition overlay :: "nat \<Rightarrow> bytes \<Rightarrow> (nat \<Rightarrow> char) \<Rightarrow> nat \<Rightarrow> char" where
  "overlay off bs img i = (if off \<le> i \<and> i < off + length bs then bs ! (i - off) else img i)"

definition cluster_bytes :: "(nat \<Rightarrow> char) \<Rightarrow> u16 \<Rightarrow> bytes" where
  "cluster_bytes img x = map img [cluster_address x 0..<cluster_address x 0 + tfs_CLUSTER_SIZE]"

definition chain_bytes :: "(nat \<Rightarrow> char) \<Rightarrow> u16 list \<Rightarrow> bytes" where
  "chain_bytes img xs = concat (map (cluster_bytes img) xs)"

lemma length_cluster_bytes [simp]: "length (cluster_bytes img x) = tfs_CLUSTER_SIZE"
  by (simp add: cluster_bytes_def)

lemma length_chain_bytes [simp]: "length (chain_bytes img xs) = tfs_CLUSTER_SIZE * length xs"
  by (induction xs) (simp_all add: chain_bytes_def)

lemma chain_bytes_simps [simp]:
  "chain_bytes img [] = []" "chain_bytes img (x # xs) = cluster_bytes img x @ chain_bytes img xs"
  "chain_bytes img (xs @ ys) = chain_bytes img xs @ chain_bytes img ys"
  by (simp_all add: chain_bytes_def)

lemma cluster_bytes_slice:
  "off + n \<le> tfs_CLUSTER_SIZE \<Longrightarrow>
     map img [cluster_address x off..<cluster_address x off + n] = take n (drop off (cluster_bytes img x))"
  by (simp add: cluster_bytes_def cluster_address_def drop_map take_map ac_simps)

text \<open>
  The file behind a handle: an open, unlocked descriptor whose chain of clusters covers its size.
\<close>

definition file_at :: "u16 \<Rightarrow> u16 list \<Rightarrow> 'd tfs \<Rightarrow> bool" where
  "file_at h xs fs \<longleftrightarrow> unlocked fs \<and> length (cluster_tbl fs) = tfs_CLUSTERS_COUNT \<and>
     length (tfs_file_ctl fs) = tfs_MAX_N_OF_FILES \<and> length (file_fs_desc fs) = tfs_MAX_N_OF_FILES \<and>
     unat h < tfs_MAX_N_OF_FILES \<and>
     ctl_open (tfs_file_ctl fs ! unat h) \<and> \<not> ctl_locked (tfs_file_ctl fs ! unat h) \<and>
     chain (cluster_tbl fs) (fd_first_cluster (file_fs_desc fs ! unat h)) xs \<and>
     unat (fd_size (file_fs_desc fs ! unat h)) \<le> tfs_CLUSTER_SIZE * length xs"

definition file_bytes :: "(nat \<Rightarrow> char) \<Rightarrow> u16 \<Rightarrow> u16 list \<Rightarrow> 'd tfs \<Rightarrow> bytes" where
  "file_bytes img h xs fs = take (unat (fd_size (file_fs_desc fs ! unat h))) (chain_bytes img xs)"

lemma upd_ctl_twice: "i < length (tfs_file_ctl fs) \<Longrightarrow> upd_ctl i f (upd_ctl i g fs) = upd_ctl i (\<lambda>c. f (g c)) fs"
  by (simp add: upd_ctl_def)

lemma upd_ctl_eq: "f (tfs_file_ctl fs ! i) = g (tfs_file_ctl fs ! i) \<Longrightarrow> upd_ctl i f fs = upd_ctl i g fs"
  by (simp add: upd_ctl_def)

lemma upd_ctl_frame [simp]:
  "tfs_io_dev (upd_ctl i f fs) = tfs_io_dev fs" "tfs_ftbl_of (upd_ctl i f fs) = tfs_ftbl_of fs"
  "tfs_disk (upd_ctl i f fs) = tfs_disk fs" "length (tfs_file_ctl (upd_ctl i f fs)) = length (tfs_file_ctl fs)"
  "i < length (tfs_file_ctl fs) \<Longrightarrow> tfs_file_ctl (upd_ctl i f fs) ! i = f (tfs_file_ctl fs ! i)"
  by (simp_all add: upd_ctl_def)

locale byte_device =
  fixes dev :: "'d io_dev" and image :: "'d \<Rightarrow> nat \<Rightarrow> char"
  assumes writes: "\<exists>w. io_write dev = Some w \<and> (\<forall>bs off d. unat off + length bs \<le> tfs_capacity \<longrightarrow>
      (\<exists>d'. w bs off d = Some (0, d') \<and> image d' = overlay (unat off) bs (image d)))"
    and reads: "\<exists>r. io_read dev = Some r \<and> (\<forall>n off d. unat off + n \<le> tfs_capacity \<longrightarrow>
      r n off d = Some (0, map (image d) [unat off..<unat off + n]))"
begin

text \<open>The bytes behind a file system on this device.\<close>

abbreviation img :: "'d tfs \<Rightarrow> nat \<Rightarrow> char" where
  "img fs \<equiv> image (tfs_disk fs)"

lemma read_cluster_bytes:
  assumes "tfs_io_dev fs = dev" "unlocked fs" "cluster_ok x" "off < tfs_CLUSTER_SIZE" "0 < rem"
  shows "read_cluster x off rem fs = Some ((0, min rem (tfs_CLUSTER_SIZE - off),
    take (min rem (tfs_CLUSTER_SIZE - off)) (drop off (cluster_bytes (img fs) x))), fs)"
proof -
  let ?n = "min rem (tfs_CLUSTER_SIZE - off)"
  have n: "off + ?n \<le> tfs_CLUSTER_SIZE" "?n \<noteq> 0" "off mod tfs_CLUSTER_SIZE = off" using assms(4,5) by auto
  obtain r where r: "io_read dev = Some r" "\<forall>n off d. unat off + n \<le> tfs_capacity \<longrightarrow>
      r n off d = Some (0, map (image d) [unat off..<unat off + n])" using reads by blast
  have "dev_read ?n (cluster_address x off) fs = Some (0, take ?n (drop off (cluster_bytes (img fs) x)))"
    using r cluster_in_range [OF assms(3) n(1)] assms(1) by (simp add: dev_read_def cluster_bytes_slice [OF n(1)])
  then have "dev_read ?n (cluster_address x off) (fs\<lparr>tfs_lock := m\<rparr>) =
      Some (0, take ?n (drop off (cluster_bytes (img fs) x)))" for m by (simp add: dev_read_def)
  with n show ?thesis
    unfolding read_cluster_def using assms(2) by (subst with_access_eq) (simp_all add: Let_def dev_read_def)
qed

lemma read_loop_chain:
  assumes "tfs_io_dev fs = dev" "unlocked fs" "length (cluster_tbl fs) = tfs_CLUSTERS_COUNT"
    "unat h < length (tfs_file_ctl fs)" "chain (cluster_tbl fs) x (x # ys)"
    "off < tfs_CLUSTER_SIZE" "0 < rem" "off + rem \<le> tfs_CLUSTER_SIZE * length (x # ys)"
  shows "read_loop h x off rem acc fs =
    Some ((True, 0, acc @ take rem (drop off (chain_bytes (img fs) (x # ys)))),
      upd_ctl (unat h) (\<lambda>c. c\<lparr>ctl_seek_pointer := ctl_seek_pointer c + of_nat rem\<rparr>) fs)"
  using assms
proof (induction ys arbitrary: x off rem acc fs)
  case Nil
  then have n: "min rem (tfs_CLUSTER_SIZE - off) = rem" by auto
  show ?case
    using read_cluster_bytes [of fs x off rem] Nil n by (subst read_loop.simps) simp
next
  case (Cons y ys)
  let ?k = "tfs_CLUSTER_SIZE - off"
  show ?case
  proof (cases "rem \<le> ?k")
    case True
    then have n: "min rem ?k = rem" by auto
    with True Cons.prems read_cluster_bytes [of fs x off rem] show ?thesis by (subst read_loop.simps) simp
  next
    case False
    then have n: "min rem ?k = ?k" "0 < ?k" "?k < rem" using Cons.prems by auto
    let ?fs1 = "upd_ctl (unat h) (\<lambda>c. c\<lparr>ctl_seek_pointer := ctl_seek_pointer c + of_nat ?k\<rparr>) fs"
    have frame: "tfs_io_dev ?fs1 = dev" "unlocked ?fs1" "length (cluster_tbl ?fs1) = tfs_CLUSTERS_COUNT"
      "unat h < length (tfs_file_ctl ?fs1)" "cluster_tbl ?fs1 = cluster_tbl fs" "img ?fs1 = img fs"
      using Cons.prems by (simp_all add: upd_ctl_def)
    have y: "chain (cluster_tbl fs) y (y # ys)" "cluster_tbl fs ! unat x = y" using Cons.prems(5) by auto
    have "get_next_cluster x ?fs1 = Some (Some y, ?fs1)"
      using get_next_cluster_eq [OF frame(2,3)] frame(5) Cons.prems(5) by simp
    moreover have "read_loop h y 0 (rem - ?k) (acc @ drop off (cluster_bytes (img fs) x)) ?fs1 =
        Some ((True, 0, (acc @ drop off (cluster_bytes (img fs) x)) @ take (rem - ?k) (chain_bytes (img fs) (y # ys))),
          upd_ctl (unat h) (\<lambda>c. c\<lparr>ctl_seek_pointer := ctl_seek_pointer c + of_nat (rem - ?k)\<rparr>) ?fs1)"
    proof -
      have "0 < tfs_CLUSTER_SIZE" "0 < rem - ?k" "0 + (rem - ?k) \<le> tfs_CLUSTER_SIZE * length (y # ys)"
        using n Cons.prems(6,8) by auto
      from Cons.IH [OF frame(1-4) _ this, of "acc @ drop off (cluster_bytes (img fs) x)"] y(1) frame(5,6)
      show ?thesis by (simp only: drop_0)
    qed
    moreover have "upd_ctl (unat h) (\<lambda>c. c\<lparr>ctl_seek_pointer := ctl_seek_pointer c + of_nat (rem - ?k)\<rparr>) ?fs1 =
        upd_ctl (unat h) (\<lambda>c. c\<lparr>ctl_seek_pointer := ctl_seek_pointer c + of_nat rem\<rparr>) fs"
      using Cons.prems(4) n(3) by (simp add: upd_ctl_def add.assoc flip: of_nat_add)
    ultimately show ?thesis
      using read_cluster_bytes [of fs x off rem] Cons.prems n by (subst read_loop.simps) simp
  qed
qed

lemma seek_pt_chain:
  assumes "unlocked fs" "length (cluster_tbl fs) = tfs_CLUSTERS_COUNT"
    "chain (cluster_tbl fs) (fd_first_cluster fd) xs"
    "unat (ctl_seek_pointer ctl) < tfs_CLUSTER_SIZE * length xs"
  shows "get_cluster_seek_pt fd ctl fs =
    Some ((True, xs ! (unat (ctl_seek_pointer ctl) div tfs_CLUSTER_SIZE)), fs)"
proof -
  let ?n = "unat (ctl_seek_pointer ctl) div tfs_CLUSTER_SIZE"
  have n: "?n < length xs" using assms(4) by (simp add: less_mult_imp_div_less mult.commute)
  then have "?n < 65536" using chain_length [OF assms(3)] by (simp add: mip_simps)
  then have "unat (of_nat ?n :: u16) = ?n" by (simp add: unat_of_nat)
  with seek_walk_chain(1) [OF assms(1-3) n] show ?thesis by (simp only: get_cluster_seek_pt_def)
qed

lemma drop_chain_bytes:
  assumes "n < length xs" "off \<le> tfs_CLUSTER_SIZE"
  shows "drop (tfs_CLUSTER_SIZE * n + off) (chain_bytes i xs) = drop off (chain_bytes i (drop n xs))"
  using assms
proof (induction xs arbitrary: n)
  case (Cons x xs)
  then show ?case by (cases n) (auto simp: add.assoc)
qed simp

lemma slice_room:
  assumes "s + k \<le> S * L"
  shows "s mod S + k \<le> S * (L - s div (S :: nat))"
proof -
  have "S * (s div S) + s mod S = s" by simp
  then have "s mod S + k \<le> S * L - S * (s div S)" using assms by linarith
  then show ?thesis by (simp add: diff_mult_distrib2)
qed

lemma file_slice:
  assumes "s < z" "z \<le> tfs_CLUSTER_SIZE * length xs" "s + k \<le> z"
  shows "take k (drop (s mod tfs_CLUSTER_SIZE) (chain_bytes i (drop (s div tfs_CLUSTER_SIZE) xs))) =
    take k (drop s (take z (chain_bytes i xs)))"
proof -
  have q: "s div tfs_CLUSTER_SIZE < length xs" using assms(1,2) by (simp add: less_mult_imp_div_less mult.commute)
  have "s mod tfs_CLUSTER_SIZE \<le> tfs_CLUSTER_SIZE" by (simp add: mip_simps)
  from drop_chain_bytes [OF q this, of i] have "drop (s mod tfs_CLUSTER_SIZE) (chain_bytes i (drop (s div tfs_CLUSTER_SIZE) xs)) =
      drop s (chain_bytes i xs)" by (simp add: mult.commute)
  with assms(3) show ?thesis by (simp add: drop_take min_def)
qed

lemma read_file_at:
  assumes dev: "tfs_io_dev fs = dev" and f: "file_at h xs fs"
    and fd: "fd = file_fs_desc fs ! unat h" and ctl: "ctl = tfs_file_ctl fs ! unat h"
    and pos: "ctl_seek_pointer ctl < fd_size fd" and n: "0 < n" "unat n + unat (ctl_seek_pointer ctl) < 2 ^ 32"
    and k: "k = min (unat n) (unat (fd_size fd) - unat (ctl_seek_pointer ctl))"
  shows "tfs_read_file n h fs =
    Some ((True, of_nat k, take k (drop (unat (ctl_seek_pointer ctl)) (file_bytes (img fs) h xs fs))),
      upd_ctl (unat h) (\<lambda>c. c\<lparr>ctl_seek_pointer := ctl_seek_pointer c + of_nat k,
        ctl_eof_while_read := (ctl_eof_while_read c \<or> unat (fd_size fd) < unat n + unat (ctl_seek_pointer ctl))\<rparr>) fs)"
proof -
  let ?s = "unat (ctl_seek_pointer ctl)" and ?z = "unat (fd_size fd)"
  let ?eof = "?z < unat n + ?s"
  have sz: "?s < ?z" "?z \<le> tfs_CLUSTER_SIZE * length xs" "?s + k \<le> ?z" "0 < k"
    using pos f fd n(1) k by (auto simp: file_at_def word_less_nat_alt)
  have beyond: "(fd_size fd < n + ctl_seek_pointer ctl) = ?eof"
    using n(2) by (simp add: word_less_nat_alt unat_word_ariths)
  have to_read: "unat (if ?eof then fd_size fd - ctl_seek_pointer ctl else n) = k"
    using pos k by (auto simp: unat_sub order_less_imp_le)
  define fs1 where "fs1 = upd_ctl (unat h) (\<lambda>c. c\<lparr>ctl_locked := True\<rparr>) fs"
  define fs5 where "fs5 = (if ?eof then upd_ctl (unat h) (\<lambda>c. c\<lparr>ctl_eof_while_read := True\<rparr>) fs1 else fs1)"
  have fs1: "tfs_lock_file h fs = (True, fs1)" "unlocked fs1" "cluster_tbl fs1 = cluster_tbl fs"
    "file_fs_desc fs1 ! unat h = fd" "tfs_file_ctl fs1 ! unat h = ctl\<lparr>ctl_locked := True\<rparr>" "unat h < tfs_MAX_N_OF_FILES"
    "unat h < length (tfs_file_ctl fs)"
    using f fd ctl by (auto simp: file_at_def fs1_def tfs_lock_file_def)
  have walk: "get_cluster_seek_pt fd (ctl\<lparr>ctl_locked := True\<rparr>) fs1 = Some ((True, xs ! (?s div tfs_CLUSTER_SIZE)), fs1)"
    using seek_pt_chain [of fs1 fd xs "ctl\<lparr>ctl_locked := True\<rparr>"] fs1 f fd sz by (simp add: file_at_def)
  have q: "?s div tfs_CLUSTER_SIZE < length xs" using sz by (simp add: less_mult_imp_div_less mult.commute)
  then obtain ys where ys: "drop (?s div tfs_CLUSTER_SIZE) xs = xs ! (?s div tfs_CLUSTER_SIZE) # ys"
    by (metis Cons_nth_drop_Suc)
  have chain: "chain (cluster_tbl fs5) (xs ! (?s div tfs_CLUSTER_SIZE)) (xs ! (?s div tfs_CLUSTER_SIZE) # ys)"
    using f ys chain_drop [of "cluster_tbl fs" _ "take (?s div tfs_CLUSTER_SIZE) xs"] fs1(3)
    by (metis append_take_drop_id file_at_def fs5_def upd_ctl_frame(2))
  have room: "?s mod tfs_CLUSTER_SIZE + k \<le> tfs_CLUSTER_SIZE * length (xs ! (?s div tfs_CLUSTER_SIZE) # ys)"
    using slice_room [of ?s k tfs_CLUSTER_SIZE "length xs"] sz arg_cong [OF ys, of length] by simp
  have loop: "read_loop h (xs ! (?s div tfs_CLUSTER_SIZE)) (?s mod tfs_CLUSTER_SIZE) k [] fs5 =
      Some ((True, 0, take k (drop ?s (file_bytes (img fs) h xs fs))),
        upd_ctl (unat h) (\<lambda>c. c\<lparr>ctl_seek_pointer := ctl_seek_pointer c + of_nat k\<rparr>) fs5)"
  proof -
    have "tfs_io_dev fs5 = dev" "unlocked fs5" "length (cluster_tbl fs5) = tfs_CLUSTERS_COUNT"
      "unat h < length (tfs_file_ctl fs5)" "img fs5 = img fs" "?s mod tfs_CLUSTER_SIZE < tfs_CLUSTER_SIZE"
      using dev f fs1 by (auto simp: fs5_def fs1_def file_at_def mip_simps)
    with read_loop_chain [OF _ _ _ _ chain _ sz(4) room, of h "[]"] file_slice [OF sz(1-3), of "img fs"] ys fd
    show ?thesis by (simp add: file_bytes_def)
  qed
  have opened: "ctl_open ctl" "(fd_size fd \<le> ctl_seek_pointer ctl) = False" using f ctl pos by (auto simp: file_at_def)
  have acc: "(if ?eof then with_access (\<lambda>fs. Some ((), upd_ctl (unat h) (\<lambda>c. c\<lparr>ctl_eof_while_read := True\<rparr>) fs)) fs1
      else Some ((), fs1)) = Some ((), fs5)" using fs1(2) by (simp add: fs5_def)
  have "tfs_read_file n h fs = Some ((True, of_nat k, take k (drop ?s (file_bytes (img fs) h xs fs))),
      snd (tfs_unlock_file h (upd_ctl (unat h) (\<lambda>c. c\<lparr>ctl_seek_pointer := ctl_seek_pointer c + of_nat k\<rparr>) fs5)))"
    using fs1 opened acc to_read walk loop beyond
    by (cases ?eof) (simp_all add: tfs_read_file_def tfs_get_fd_def tfs_get_ctl_def Let_def)
  moreover have "snd (tfs_unlock_file h (upd_ctl (unat h) (\<lambda>c. c\<lparr>ctl_seek_pointer := ctl_seek_pointer c + of_nat k\<rparr>) fs5)) =
      upd_ctl (unat h) (\<lambda>c. c\<lparr>ctl_seek_pointer := ctl_seek_pointer c + of_nat k,
        ctl_eof_while_read := (ctl_eof_while_read c \<or> ?eof)\<rparr>) fs"
    using fs1(6,7) f ctl
    by (auto simp: tfs_unlock_file_def fs5_def fs1_def upd_ctl_twice file_at_def intro!: upd_ctl_eq)
  ultimately show ?thesis by simp
qed

end

end
