(* ===== verification/Mipos_Tfs_Append.thy ===== *)
theory Mipos_Tfs_Append
  imports Mipos_Tfs_Contents
begin

text \<open>
  Writing at the end of a file: on a device that keeps what is written, with enough free
  clusters, \<^verbatim>\<open>mipos_tfs_write_file\<close> appends its bytes to the contents, takes only free
  clusters for it and changes no byte of any other cluster.
\<close>

lemma upd_tbl_frame [simp]:
  "tfs_io_dev (upd_tbl i v fs) = tfs_io_dev fs" "tfs_file_ctl (upd_tbl i v fs) = tfs_file_ctl fs"
  "tfs_disk (upd_tbl i v fs) = tfs_disk fs" "cluster_tbl (upd_tbl i v fs) = (cluster_tbl fs)[i := v]"
  by (simp_all add: upd_tbl_def)

lemma upd_fd_frame [simp]:
  "tfs_io_dev (upd_fd i f fs) = tfs_io_dev fs" "tfs_file_ctl (upd_fd i f fs) = tfs_file_ctl fs"
  "tfs_disk (upd_fd i f fs) = tfs_disk fs" "cluster_tbl (upd_fd i f fs) = cluster_tbl fs"
  by (simp_all add: upd_fd_def)

lemma nth_update_cluster: "y \<noteq> x \<Longrightarrow> (t[unat x := v]) ! unat y = t ! unat (y :: u16)"
  by (simp add: word_unat_eq_iff)

lemma overlay_nth: "overlay off bs img i = (if off \<le> i \<and> i < off + length bs then bs ! (i - off) else img i)"
  by (simp add: overlay_def)

lemma cluster_bytes_overlay_same:
  assumes "off + length bs \<le> tfs_CLUSTER_SIZE"
  shows "cluster_bytes (overlay (cluster_address x off) bs img) x =
    take off (cluster_bytes img x) @ bs @ drop (off + length bs) (cluster_bytes img x)"
  using assms
  by (intro nth_equalityI) (auto simp: cluster_bytes_def overlay_def cluster_address_def nth_append mip_simps)

lemma cluster_bytes_overlay_other:
  assumes "off + length bs \<le> tfs_CLUSTER_SIZE" "x \<noteq> y"
  shows "cluster_bytes (overlay (cluster_address x off) bs img) y = cluster_bytes img y"
proof -
  have "unat x \<noteq> unat y" using assms(2) by (simp add: word_unat_eq_iff)
  then have "unat x < unat y \<or> unat y < unat x" by linarith
  then show ?thesis
    using assms(1) by (auto simp: cluster_bytes_def overlay_def cluster_address_def mip_simps)
qed

lemma overlay_before: "i < cluster_address 0 0 \<Longrightarrow> overlay (cluster_address x off) bs img i = img i"
  by (simp add: overlay_def cluster_address_def)

definition free_clusters :: "u16 list \<Rightarrow> nat set" where
  "free_clusters t = {i. i < tfs_CLUSTERS_COUNT \<and> t ! i = FREE_CLUSTER}"

lemma finite_free [simp]: "finite (free_clusters t)"
  by (simp add: free_clusters_def)

lemma reserve_some:
  assumes "unlocked fs" "free_clusters (cluster_tbl fs) \<noteq> {}"
  shows "\<exists>i. i \<in> free_clusters (cluster_tbl fs) \<and> reserve_cluster fs = Some (Some (of_nat i), upd_tbl i RESERVED_CLUSTER fs)"
proof -
  obtain i where i: "first_index (\<lambda>i. cluster_tbl fs ! i = FREE_CLUSTER) 0 tfs_CLUSTERS_COUNT = Some i"
  proof (cases "first_index (\<lambda>i. cluster_tbl fs ! i = FREE_CLUSTER) 0 tfs_CLUSTERS_COUNT")
    case None
    with assms(2) show ?thesis by (auto simp: first_index_None free_clusters_def)
  qed (use that in blast)
  then have "i \<in> free_clusters (cluster_tbl fs)" by (auto simp: first_index_Some free_clusters_def)
  with i assms(1) show ?thesis by (auto simp: reserve_cluster_eq)
qed

text \<open>
  \<open>fs'\<close> results from \<open>fs\<close> by writing \<open>src\<close> from byte \<open>off\<close> of cluster \<open>x\<close> on, into \<open>x\<close> and the clusters \<open>zs\<close>, which
  were free; the file of handle \<open>h\<close> now ends where the bytes end.
\<close>

definition appended ::
    "('d \<Rightarrow> nat \<Rightarrow> char) \<Rightarrow> u16 \<Rightarrow> u16 \<Rightarrow> nat \<Rightarrow> bytes \<Rightarrow> 'd tfs \<Rightarrow> u16 list \<Rightarrow> 'd tfs \<Rightarrow> bool" where
  "appended im h x off src fs zs fs' \<longleftrightarrow>
     (let i = unat h; ctl = tfs_file_ctl fs ! i; end_pos = ctl_seek_pointer ctl + of_nat (length src) in
      tfs_io_dev fs' = tfs_io_dev fs \<and> tfs_lock fs' = tfs_lock fs \<and>
      tfs_file_ctl fs' = (tfs_file_ctl fs)[i := ctl\<lparr>ctl_seek_pointer := end_pos\<rparr>] \<and>
      file_fs_desc fs' = (file_fs_desc fs)[i := (file_fs_desc fs ! i)\<lparr>fd_size := end_pos\<rparr>] \<and>
      length (cluster_tbl fs') = length (cluster_tbl fs) \<and> chain (cluster_tbl fs') x (x # zs) \<and>
      length zs = (off + length src - 1) div tfs_CLUSTER_SIZE \<and>
      (\<forall>z \<in> set zs. unat z \<in> free_clusters (cluster_tbl fs)) \<and>
      (\<forall>z \<in> set (x # zs). cluster_tbl fs' ! unat z \<noteq> FREE_CLUSTER) \<and>
      (\<forall>y. cluster_ok y \<and> y \<notin> set (x # zs) \<longrightarrow> cluster_tbl fs' ! unat y = cluster_tbl fs ! unat y \<and>
         cluster_bytes (im (tfs_disk fs')) y = cluster_bytes (im (tfs_disk fs)) y) \<and>
      (\<forall>i < cluster_address 0 0. im (tfs_disk fs') i = im (tfs_disk fs) i) \<and>
      take off (cluster_bytes (im (tfs_disk fs')) x) = take off (cluster_bytes (im (tfs_disk fs)) x) \<and>
      take (length src) (drop off (chain_bytes (im (tfs_disk fs')) (x # zs))) = src)"

context byte_device
begin

lemma write_cluster_bytes:
  assumes "tfs_io_dev fs = dev" "unlocked fs" "cluster_ok x" "off < tfs_CLUSTER_SIZE" "0 < tot" "tot \<le> length src"
    and n: "n = min tot (tfs_CLUSTER_SIZE - off)"
  shows "\<exists>d'. write_cluster x off src tot fs = Some ((0, n), fs\<lparr>tfs_disk := d'\<rparr>) \<and>
    image d' = overlay (cluster_address x off) (take n src) (img fs)"
proof -
  have k: "off + n \<le> tfs_CLUSTER_SIZE" "n \<noteq> 0" "\<not> length src < n" "off mod tfs_CLUSTER_SIZE = off"
    "length (take n src) = n" using assms by auto
  obtain w where w: "io_write dev = Some w" "\<forall>bs off d. unat off + length bs \<le> tfs_capacity \<longrightarrow>
      (\<exists>d'. w bs off d = Some (0, d') \<and> image d' = overlay (unat off) bs (image d))" using writes by blast
  have at: "unat (of_nat (cluster_address x off) :: u32) = cluster_address x off"
    "unat (of_nat (cluster_address x off) :: u32) + length (take n src) \<le> tfs_capacity"
    using cluster_in_range [OF assms(3) k(1)] k(5) by auto
  from w(2) [rule_format, OF at(2), of "tfs_disk fs"] obtain d' where
      d': "w (take n src) (of_nat (cluster_address x off)) (tfs_disk fs) = Some (0, d')"
      "image d' = overlay (cluster_address x off) (take n src) (img fs)" unfolding at(1) by blast
  then have "dev_write (take n src) (cluster_address x off) (fs\<lparr>tfs_lock := m\<rparr>) =
      Some (0, fs\<lparr>tfs_lock := m, tfs_disk := d'\<rparr>)" for m using w(1) assms(1) by (simp add: dev_write_def)
  moreover from d' have "dev_write (take n src) (cluster_address x off) fs = Some (0, fs\<lparr>tfs_disk := d'\<rparr>)"
    using w(1) assms(1) by (simp add: dev_write_def)
  ultimately have "write_cluster x off src tot fs = Some ((0, n), fs\<lparr>tfs_disk := d'\<rparr>)"
    unfolding write_cluster_def Let_def k(4) n [symmetric] using assms(2) k(2,3)
    by (subst with_access_eq) simp_all
  with d'(2) show ?thesis by blast
qed

abbreviation advance :: "u16 \<Rightarrow> nat \<Rightarrow> 'd tfs \<Rightarrow> 'd tfs" where
  "advance h n fs \<equiv> upd_ctl (unat h) (\<lambda>c. c\<lparr>ctl_seek_pointer := ctl_seek_pointer c + of_nat n\<rparr>) fs"

text \<open>A state in which the file of handle \<open>h\<close> can be extended by \<open>k\<close> bytes from byte \<open>off\<close> of cluster \<open>x\<close> on.\<close>

definition extendable :: "u16 \<Rightarrow> u16 \<Rightarrow> nat \<Rightarrow> nat \<Rightarrow> 'd tfs \<Rightarrow> bool" where
  "extendable h x off k fs \<longleftrightarrow> tfs_io_dev fs = dev \<and> unlocked fs \<and> length (cluster_tbl fs) = tfs_CLUSTERS_COUNT \<and>
     unat h < length (tfs_file_ctl fs) \<and> unat h < length (file_fs_desc fs) \<and> cluster_ok x \<and>
     off < tfs_CLUSTER_SIZE \<and> 0 < k \<and>
     fd_size (file_fs_desc fs ! unat h) \<le> ctl_seek_pointer (tfs_file_ctl fs ! unat h) \<and>
     unat (ctl_seek_pointer (tfs_file_ctl fs ! unat h)) + k < 2 ^ 32 \<and>
     cluster_tbl fs ! unat x \<noteq> FREE_CLUSTER \<and>
     (off + k - 1) div tfs_CLUSTER_SIZE \<le> card (free_clusters (cluster_tbl fs))"

lemma advance_beyond:
  assumes "extendable h x off k fs" "0 < n" "n \<le> k"
  shows "fd_size (file_fs_desc fs ! unat h) < ctl_seek_pointer (tfs_file_ctl fs ! unat h) + of_nat n"
    and "unat (ctl_seek_pointer (tfs_file_ctl fs ! unat h) + of_nat n) = unat (ctl_seek_pointer (tfs_file_ctl fs ! unat h)) + n"
proof -
  let ?s = "ctl_seek_pointer (tfs_file_ctl fs ! unat h)"
  have lt: "unat ?s + n < 4294967296" "fd_size (file_fs_desc fs ! unat h) \<le> ?s"
    using assms by (auto simp: extendable_def)
  then have "unat (of_nat n :: u32) = n" by (simp add: unat_u32)
  with lt(1) show "unat (?s + of_nat n) = unat ?s + n" by (simp add: unat_word_ariths)
  with lt(2) assms(2) show "fd_size (file_fs_desc fs ! unat h) < ?s + of_nat n"
    by (simp add: word_less_nat_alt word_le_nat_alt)
qed

lemma write_last:
  assumes e: "extendable h x off (length src) fs" and fits: "length src \<le> tfs_CLUSTER_SIZE - off"
  shows "\<exists>fs'. write_loop h x off (length src) src fs = Some ((0, 0), fs') \<and> appended image h x off src fs [] fs'"
proof -
  let ?n = "length src" and ?i = "unat h"
  have b: "tfs_io_dev fs = dev" "unlocked fs" "cluster_ok x" "off < tfs_CLUSTER_SIZE" "0 < ?n" "?n \<le> length src"
    "?n = min ?n (tfs_CLUSTER_SIZE - off)" "?i < length (tfs_file_ctl fs)" "?i < length (file_fs_desc fs)"
    "length (cluster_tbl fs) = tfs_CLUSTERS_COUNT" "off + ?n \<le> tfs_CLUSTER_SIZE"
    using e fits by (auto simp: extendable_def)
  from write_cluster_bytes [OF b(1-7)] obtain d' where
      d': "write_cluster x off src ?n fs = Some ((0, ?n), fs\<lparr>tfs_disk := d'\<rparr>)"
      "image d' = overlay (cluster_address x off) src (img fs)" by auto
  let ?fs2 = "advance h ?n (fs\<lparr>tfs_disk := d'\<rparr>)"
  let ?last = "ctl_seek_pointer (tfs_file_ctl fs ! ?i) + of_nat ?n"
  let ?fs' = "upd_tbl (unat x) LAST_ALLOCATED_CLUSTER (upd_fd ?i (\<lambda>d. d\<lparr>fd_size := ?last\<rparr>) ?fs2)"
  have "finish_write h x ?fs2 = Some ?fs'"
    using advance_beyond(1) [OF e b(5) order_refl] b
    by (simp add: finish_write_def mark_cluster_last_def set_cluster_val_eq)
  then have "write_loop h x off ?n src fs = Some ((0, 0), ?fs')"
    using d'(1) b(2) by (subst write_loop.simps) simp
  moreover have "appended image h x off src fs [] ?fs'"
  proof -
    have "off + ?n - 1 < tfs_CLUSTER_SIZE" using b(5,11) by linarith
    moreover have "take off (cluster_bytes (image d') x) = take off (cluster_bytes (img fs) x)"
        "take ?n (drop off (cluster_bytes (image d') x)) = src"
      unfolding d'(2) using cluster_bytes_overlay_same [OF b(11), of x "img fs"] b(4) by (simp_all add: min_def)
    moreover have "cluster_bytes (image d') y = cluster_bytes (img fs) y" if "y \<noteq> x" for y
      unfolding d'(2) using cluster_bytes_overlay_other [OF b(11), of x y] that by auto
    moreover have "\<forall>i < cluster_address 0 0. image d' i = img fs i" unfolding d'(2) by (simp add: overlay_before)
    moreover have "\<not> cluster_ok LAST_ALLOCATED_CLUSTER" "LAST_ALLOCATED_CLUSTER \<noteq> FREE_CLUSTER" by (simp_all add: mip_simps)
    ultimately show ?thesis
      using b by (simp add: appended_def Let_def) (auto simp: upd_ctl_def intro!: nth_update_cluster)
  qed
  ultimately show ?thesis by blast
qed

text \<open>The state after a cluster has been filled and the next one reserved and linked.\<close>

abbreviation linked :: "u16 \<Rightarrow> u16 \<Rightarrow> nat \<Rightarrow> nat \<Rightarrow> 'd \<Rightarrow> 'd tfs \<Rightarrow> 'd tfs" where
  "linked h x n i d fs \<equiv>
     upd_tbl (unat x) (of_nat i) (upd_tbl i RESERVED_CLUSTER (advance h n (fs\<lparr>tfs_disk := d\<rparr>)))"

lemma free_after_link:
  assumes "i \<in> free_clusters t" "t ! unat x \<noteq> FREE_CLUSTER" "cluster_ok x" "length t = tfs_CLUSTERS_COUNT"
  shows "free_clusters (t[i := RESERVED_CLUSTER, unat x := of_nat i]) = free_clusters t - {i}"
    and "i \<noteq> unat x" "i < tfs_CLUSTERS_COUNT"
    and "(t[i := RESERVED_CLUSTER, unat x := of_nat i]) ! i = RESERVED_CLUSTER"
proof -
  show i: "i \<noteq> unat x" "i < tfs_CLUSTERS_COUNT" using assms by (auto simp: free_clusters_def)
  have "(of_nat i :: u16) \<noteq> FREE_CLUSTER"
  proof
    assume "(of_nat i :: u16) = FREE_CLUSTER"
    then have "unat (of_nat i :: u16) = unat FREE_CLUSTER" by simp
    with i(2) show False by (simp add: of_nat_cluster) (simp add: mip_simps)
  qed
  moreover have "RESERVED_CLUSTER \<noteq> FREE_CLUSTER" by (simp add: mip_simps)
  ultimately show "free_clusters (t[i := RESERVED_CLUSTER, unat x := of_nat i]) = free_clusters t - {i}"
    using assms i by (auto simp: free_clusters_def nth_list_update)
  show "(t[i := RESERVED_CLUSTER, unat x := of_nat i]) ! i = RESERVED_CLUSTER" using i assms(4) by simp
qed

lemma write_step:
  assumes e: "extendable h x off (length src) fs" and more: "tfs_CLUSTER_SIZE - off < length src"
    and n: "n = tfs_CLUSTER_SIZE - off"
  shows "\<exists>i d. i \<in> free_clusters (cluster_tbl fs) \<and>
    image d = overlay (cluster_address x off) (take n src) (img fs) \<and>
    write_loop h x off (length src) src fs = write_loop h (of_nat i) 0 (length src - n) (drop n src) (linked h x n i d fs) \<and>
    extendable h (of_nat i) 0 (length (drop n src)) (linked h x n i d fs)"
proof -
  have b: "tfs_io_dev fs = dev" "unlocked fs" "cluster_ok x" "off < tfs_CLUSTER_SIZE" "0 < length src" "length src \<le> length src"
    "n = min (length src) (tfs_CLUSTER_SIZE - off)" "length (cluster_tbl fs) = tfs_CLUSTERS_COUNT"
    "cluster_tbl fs ! unat x \<noteq> FREE_CLUSTER" "0 < n" "n \<le> length src" "unat h < length (tfs_file_ctl fs)"
    "unat h < length (file_fs_desc fs)"
    using e more n by (auto simp: extendable_def)
  from write_cluster_bytes [OF b(1-7)] obtain d where
      d: "write_cluster x off src (length src) fs = Some ((0, n), fs\<lparr>tfs_disk := d\<rparr>)"
      "image d = overlay (cluster_address x off) (take n src) (img fs)" by auto
  let ?fs2 = "advance h n (fs\<lparr>tfs_disk := d\<rparr>)"
  have div: "(off + length src - 1) div tfs_CLUSTER_SIZE = Suc ((0 + length (drop n src) - 1) div tfs_CLUSTER_SIZE)"
  proof -
    have "off + length src - 1 = (length (drop n src) - 1) + tfs_CLUSTER_SIZE" using more n b(4) by auto
    then show ?thesis by (simp add: mip_simps)
  qed
  then have room: "Suc ((0 + length (drop n src) - 1) div tfs_CLUSTER_SIZE) \<le> card (free_clusters (cluster_tbl fs))"
    using e by (simp add: extendable_def)
  then have "free_clusters (cluster_tbl ?fs2) \<noteq> {}" by (auto simp: upd_ctl_def)
  from reserve_some [OF _ this] b(2) obtain i where i: "i \<in> free_clusters (cluster_tbl fs)"
      "reserve_cluster ?fs2 = Some (Some (of_nat i), upd_tbl i RESERVED_CLUSTER ?fs2)" by auto
  note fr = free_after_link [OF i(1) b(9,3,8)]
  have nxt: "next_for_write h x ?fs2 = Some (Some (of_nat i), upd_tbl i RESERVED_CLUSTER ?fs2)"
    using i(2) advance_beyond(1) [OF e b(10,11)] b(12) by (simp add: next_for_write_def)
  have link: "link_cluster x (of_nat i) (upd_tbl i RESERVED_CLUSTER ?fs2) = Some (True, linked h x n i d fs)"
    using b(2,3,8) fr(3) by (simp add: link_cluster_eq of_nat_cluster)
  have "write_loop h x off (length src) src fs = write_loop h (of_nat i) 0 (length src - n) (drop n src) (linked h x n i d fs)"
    using d(1) b(2,11) more n nxt link by (subst write_loop.simps) simp
  moreover have "extendable h (of_nat i) 0 (length (drop n src)) (linked h x n i d fs)"
  proof -
    have "fd_size (file_fs_desc fs ! unat h) \<le> ctl_seek_pointer (tfs_file_ctl fs ! unat h) + of_nat n"
      using advance_beyond(1) [OF e b(10,11)] by simp
    moreover have "unat (ctl_seek_pointer (tfs_file_ctl fs ! unat h) + of_nat n) + length (drop n src) < 2 ^ 32"
      using advance_beyond(2) [OF e b(10,11)] e b(11) by (simp add: extendable_def)
    moreover have "(0 + length (drop n src) - 1) div tfs_CLUSTER_SIZE \<le> card (free_clusters (cluster_tbl fs) - {i})"
      using room card_Diff_singleton [OF i(1)] by simp
    moreover have "0 < length (drop n src)" "0 < tfs_CLUSTER_SIZE" "RESERVED_CLUSTER \<noteq> FREE_CLUSTER"
      using more n by (simp_all add: mip_simps)
    ultimately show ?thesis
      unfolding extendable_def using b(1-4,8,9,12,13) fr of_nat_cluster [OF fr(3)] by simp
  qed
  ultimately show ?thesis using i(1) d(2) by blast
qed

lemma appended_step:
  assumes e: "extendable h x off (length src) fs" and more: "tfs_CLUSTER_SIZE - off < length src"
    and n: "n = tfs_CLUSTER_SIZE - off" and i: "i \<in> free_clusters (cluster_tbl fs)"
    and d: "image d = overlay (cluster_address x off) (take n src) (img fs)"
    and rest: "appended image h (of_nat i) 0 (drop n src) (linked h x n i d fs) zs fs'"
  shows "appended image h x off src fs (of_nat i # zs) fs'"
proof -
  let ?c = "of_nat i :: u16" and ?f = "linked h x n i d fs" and ?k = "unat h" and ?t = "cluster_tbl fs"
  have b: "cluster_ok x" "off < tfs_CLUSTER_SIZE" "length ?t = tfs_CLUSTERS_COUNT" "?t ! unat x \<noteq> FREE_CLUSTER"
    "?k < length (tfs_file_ctl fs)" "?k < length (file_fs_desc fs)" "length (take n src) = n" "off + n = tfs_CLUSTER_SIZE"
    using e more n by (auto simp: extendable_def)
  note fr = free_after_link [OF i b(4,1,3)]
  have c: "unat ?c = i" "?c \<noteq> x" "cluster_ok ?c" using of_nat_cluster [OF fr(3)] fr(2,3) by auto
  have r: "tfs_io_dev fs' = tfs_io_dev fs" "tfs_lock fs' = tfs_lock fs" "length (cluster_tbl fs') = length ?t"
    "chain (cluster_tbl fs') ?c (?c # zs)" "length zs = (length (drop n src) - 1) div tfs_CLUSTER_SIZE"
    "\<forall>z \<in> set zs. unat z \<in> free_clusters ?t - {i}"
    "\<forall>z \<in> set (?c # zs). cluster_tbl fs' ! unat z \<noteq> FREE_CLUSTER"
    "\<forall>y. cluster_ok y \<and> y \<notin> set (?c # zs) \<longrightarrow> cluster_tbl fs' ! unat y = cluster_tbl ?f ! unat y \<and>
       cluster_bytes (img fs') y = cluster_bytes (image d) y"
    "take (length (drop n src)) (chain_bytes (img fs') (?c # zs)) = drop n src"
    "\<forall>i < cluster_address 0 0. img fs' i = image d i"
    using rest fr(1) by (auto simp: appended_def Let_def)
  have x: "x \<notin> set (?c # zs)" using r(6) b(4) c(2) by (auto simp: free_clusters_def)
  have tx: "cluster_tbl fs' ! unat x = ?c" using r(8) x b(1,3) by auto
  have bx: "cluster_bytes (img fs') x = take off (cluster_bytes (img fs) x) @ take n src"
    using r(8) x b(1,8) cluster_bytes_overlay_same [of off "take n src" x "img fs"] b(7) by (auto simp: d)
  have other: "cluster_tbl fs' ! unat y = ?t ! unat y \<and> cluster_bytes (img fs') y = cluster_bytes (img fs) y"
    if "cluster_ok y" "y \<notin> set (x # ?c # zs)" for y
  proof -
    have "i \<noteq> unat y" "unat x \<noteq> unat y" using that(2) c(1) by (auto simp: word_unat_eq_iff)
    then show ?thesis
      using r(8) that b(7,8) cluster_bytes_overlay_other [of off "take n src" x y "img fs"] by (auto simp: d)
  qed
  have "of_nat n + of_nat (length (drop n src)) = (of_nat (length src) :: u32)"
    using more n by (simp flip: of_nat_add)
  then have ctl: "tfs_file_ctl fs' = (tfs_file_ctl fs)[?k := (tfs_file_ctl fs ! ?k)\<lparr>ctl_seek_pointer :=
        ctl_seek_pointer (tfs_file_ctl fs ! ?k) + of_nat (length src)\<rparr>]"
      "file_fs_desc fs' = (file_fs_desc fs)[?k := (file_fs_desc fs ! ?k)\<lparr>fd_size :=
        ctl_seek_pointer (tfs_file_ctl fs ! ?k) + of_nat (length src)\<rparr>]"
    using rest b(5) by (simp_all add: appended_def Let_def add.assoc) (simp_all add: upd_ctl_def)
  have len: "Suc (length zs) = (off + length src - 1) div tfs_CLUSTER_SIZE"
  proof -
    have "off + length src - 1 = (length (drop n src) - 1) + tfs_CLUSTER_SIZE" using more n b(2) by auto
    then show ?thesis using r(5) by (simp add: mip_simps)
  qed
  have bytes: "take (length src) (drop off (chain_bytes (img fs') (x # ?c # zs))) = src"
  proof -
    have "drop off (chain_bytes (img fs') (x # ?c # zs)) = take n src @ chain_bytes (img fs') (?c # zs)"
      using bx b(2) by (simp add: min_def)
    moreover have "take (length src) (take n src @ L) = take n src @ take (length (drop n src)) L" for L
      using b(7) by (simp add: take_append)
    ultimately have "take (length src) (drop off (chain_bytes (img fs') (x # ?c # zs))) =
        take n src @ take (length (drop n src)) (chain_bytes (img fs') (?c # zs))" by (simp only:)
    then show ?thesis by (simp only: r(9) append_take_drop_id)
  qed
  have pre: "take off (cluster_bytes (img fs') x) = take off (cluster_bytes (img fs) x)"
    using bx b(2) by (simp add: min_def)
  have table: "\<forall>i < cluster_address 0 0. img fs' i = img fs i"
    using r(10) unfolding d by (simp add: overlay_before)
  have nf: "?c \<noteq> FREE_CLUSTER"
  proof
    assume "?c = FREE_CLUSTER"
    with c(3) show False by (simp add: mip_simps)
  qed
  show ?thesis
    unfolding appended_def Let_def
  proof (intro conjI)
    show "\<forall>i < cluster_address 0 0. img fs' i = img fs i" by (rule table)
    show "take (length src) (drop off (chain_bytes (img fs') (x # ?c # zs))) = src" by (rule bytes)
    show "take off (cluster_bytes (img fs') x) = take off (cluster_bytes (img fs) x)" by (rule pre)
    show "\<forall>y. cluster_ok y \<and> y \<notin> set (x # ?c # zs) \<longrightarrow> cluster_tbl fs' ! unat y = ?t ! unat y \<and>
        cluster_bytes (img fs') y = cluster_bytes (img fs) y" using other by blast
    show "\<forall>z \<in> set (x # ?c # zs). cluster_tbl fs' ! unat z \<noteq> FREE_CLUSTER" using r(7) tx nf by simp
    show "\<forall>z \<in> set (?c # zs). unat z \<in> free_clusters ?t" using r(6) i c(1) by simp
    show "chain (cluster_tbl fs') x (x # ?c # zs)" using r(4) tx b(1) by simp
  qed (use r(1-3) ctl len in simp_all)
qed

lemma write_loop_append:
  "extendable h x off (length src) fs \<Longrightarrow>
     \<exists>zs fs'. write_loop h x off (length src) src fs = Some ((0, 0), fs') \<and> appended image h x off src fs zs fs'"
proof (induction "length src" arbitrary: src x off fs rule: less_induct)
  case less
  let ?n = "tfs_CLUSTER_SIZE - off"
  show ?case
  proof (cases "length src \<le> ?n")
    case True
    with write_last [OF less.prems] show ?thesis by blast
  next
    case False
    then have more: "?n < length src" by simp
    from write_step [OF less.prems more refl] obtain i d where s: "i \<in> free_clusters (cluster_tbl fs)"
        "image d = overlay (cluster_address x off) (take ?n src) (img fs)"
        "write_loop h x off (length src) src fs = write_loop h (of_nat i) 0 (length src - ?n) (drop ?n src) (linked h x ?n i d fs)"
        "extendable h (of_nat i) 0 (length (drop ?n src)) (linked h x ?n i d fs)" by blast
    have "0 < ?n" using less.prems by (simp add: extendable_def)
    then have "length (drop ?n src) < length src" using more by simp
    from less.hyps [OF this s(4)] obtain zs fs' where
        "write_loop h (of_nat i) 0 (length (drop ?n src)) (drop ?n src) (linked h x ?n i d fs) = Some ((0, 0), fs')"
        "appended image h (of_nat i) 0 (drop ?n src) (linked h x ?n i d fs) zs fs'" by blast
    with appended_step [OF less.prems more refl s(1,2)] s(3) show ?thesis by auto
  qed
qed

end

end
