(* ===== verification/Mipos_Tfs_Write.thy ===== *)
theory Mipos_Tfs_Write
  imports Mipos_Tfs_Append
begin

text \<open>
  The whole of \<^verbatim>\<open>mipos_tfs_write_file\<close> at the end of a file: where the first byte goes, and what
  the file and the rest of the volume are afterwards; then the properties of reading, writing
  and mounting on any device that keeps what is written.
\<close>

text \<open>A file that has exactly the clusters its size needs, positioned at its end and open for writing.\<close>

definition at_end :: "u16 \<Rightarrow> u16 list \<Rightarrow> 'd tfs \<Rightarrow> bool" where
  "at_end h xs fs \<longleftrightarrow> file_at h xs fs \<and>
     (let fd = file_fs_desc fs ! unat h; ctl = tfs_file_ctl fs ! unat h in
      fd_readonly fd = NUL \<and> ctl_file_open_mode ctl = FILE_OPEN_WRITE \<and> ctl_seek_pointer ctl = fd_size fd \<and>
      length xs = (unat (fd_size fd) + tfs_CLUSTER_SIZE - 1) div tfs_CLUSTER_SIZE \<and>
      (\<forall>x \<in> set xs. cluster_tbl fs ! unat x \<noteq> FREE_CLUSTER))"

text \<open>
  The cluster \<open>x\<close> and the offset that the first byte goes to, when the table is \<open>t\<close> and the clusters
  before \<open>x\<close> in the chain are \<open>ps\<close>.
\<close>

definition entry_point :: "'d tfs \<Rightarrow> u16 \<Rightarrow> u16 list \<Rightarrow> nat \<Rightarrow> nat \<Rightarrow> u16 list \<Rightarrow> u16 \<Rightarrow> nat \<Rightarrow> 'd tfs \<Rightarrow> bool" where
  "entry_point fs first xs z len ps x off fs' \<longleftrightarrow>
     (\<exists>t. fs' = fs\<lparr>tfs_ftbl_of := (tfs_ftbl_of fs)\<lparr>ft_cluster_tbl := t\<rparr>\<rparr> \<and> length t = tfs_CLUSTERS_COUNT \<and>
       cluster_ok x \<and> t ! unat x \<noteq> FREE_CLUSTER \<and> off < tfs_CLUSTER_SIZE \<and>
       tfs_CLUSTER_SIZE * length ps + off = z \<and> (off + len - 1) div tfs_CLUSTER_SIZE \<le> card (free_clusters t) \<and>
       free_clusters t \<subseteq> free_clusters (cluster_tbl fs) \<and>
       (x \<in> set xs \<and> xs = ps @ [x] \<or> unat x \<in> free_clusters (cluster_tbl fs) \<and> x \<notin> set xs \<and> ps = xs \<and> off = 0) \<and>
       (\<forall>y. cluster_ok y \<and> y \<notin> set (x # xs) \<longrightarrow> t ! unat y = cluster_tbl fs ! unat y) \<and>
       (\<forall>y \<in> set ps. t ! unat y \<noteq> FREE_CLUSTER) \<and>
       (\<forall>t' zs. chain t' x (x # zs) \<and> (\<forall>y \<in> set ps. t' ! unat y = t ! unat y) \<longrightarrow>
          chain t' (if cluster_ok first then first else x) (ps @ x # zs)))"

lemma chain_extend:
  assumes "chain t c (ps @ [x])" "\<forall>y \<in> set ps. t' ! unat y = t ! unat y" "chain t' x (x # zs)"
  shows "chain t' c (ps @ x # zs)"
  using assms by (induction ps arbitrary: c) auto

lemma chain_relink:
  assumes "chain t c xs" "\<forall>y \<in> set (butlast xs). t' ! unat y = t ! unat y" "xs \<noteq> []" "t' ! unat (last xs) = x"
    "chain t' x (x # zs)"
  shows "chain t' c (xs @ x # zs)"
  using assms
proof (induction xs arbitrary: c)
  case (Cons y ys)
  then show ?case by (cases ys) auto
qed simp

lemma round_up: "0 < len \<Longrightarrow> 0 < S \<Longrightarrow> (z + len - 1) div S = z div S + (z mod S + len - 1) div (S :: nat)"
proof -
  assume "0 < len" "0 < S"
  have "z + len - 1 = S * (z div S) + (z mod S + len - 1)" using \<open>0 < len\<close> by simp
  then show ?thesis using \<open>0 < S\<close> by simp
qed

lemma upd_tbl_is: "upd_tbl i v fs = fs\<lparr>tfs_ftbl_of := (tfs_ftbl_of fs)\<lparr>ft_cluster_tbl := (cluster_tbl fs)[i := v]\<rparr>\<rparr>"
  by (simp add: upd_tbl_def)

lemma unlock_moved:
  "\<not> ctl_locked c \<Longrightarrow> c\<lparr>ctl_seek_pointer := p, ctl_locked := False\<rparr> = c\<lparr>ctl_seek_pointer := p\<rparr>"
  by (cases c) simp

lemma cluster_count:
  fixes z S :: nat
  assumes "length xs = (z + S - 1) div S" "0 < S"
  shows "z mod S = 0 \<Longrightarrow> length xs = z div S" and "z mod S \<noteq> 0 \<Longrightarrow> length xs = z div S + 1"
proof -
  have eq: "length xs = z div S + (z mod S + S - 1) div S" using round_up [of S S z] assms by simp
  show "z mod S = 0 \<Longrightarrow> length xs = z div S" using eq assms(2) by simp
  have "(z mod S + S - 1) div S = 1" if "z mod S \<noteq> 0"
  proof -
    have "z mod S + S - 1 = S + (z mod S - 1)" using that by simp
    moreover have "z mod S - 1 < S" using mod_less_divisor [OF assms(2), of z] by simp
    ultimately show ?thesis using assms(2) by (simp only: div_add_self1 div_less)
  qed
  with eq show "z mod S \<noteq> 0 \<Longrightarrow> length xs = z div S + 1" by simp
qed

context byte_device
begin

text \<open>The last cluster has room: the bytes go on behind its last byte.\<close>

lemma entry_inside:
  assumes u: "unlocked fs" "length (cluster_tbl fs) = tfs_CLUSTERS_COUNT" "chain (cluster_tbl fs) (fd_first_cluster fd) xs"
    and z: "z = unat (fd_size fd)" "ctl_seek_pointer ctl = fd_size fd" "z mod tfs_CLUSTER_SIZE \<noteq> 0"
      "length xs = (z + tfs_CLUSTER_SIZE - 1) div tfs_CLUSTER_SIZE"
    and nf: "\<forall>x \<in> set xs. cluster_tbl fs ! unat x \<noteq> FREE_CLUSTER" and len: "0 < len"
    and room: "(z + len - 1) div tfs_CLUSTER_SIZE + 1 \<le> length xs + card (free_clusters (cluster_tbl fs))"
  shows "first_for_write fd ctl fs = Some (Some (last xs), fs) \<and>
    entry_point fs (fd_first_cluster fd) xs z len (butlast xs) (last xs) (z mod tfs_CLUSTER_SIZE) fs"
proof -
  have S: "0 < tfs_CLUSTER_SIZE" by (simp add: mip_simps)
  have n: "length xs = z div tfs_CLUSTER_SIZE + 1" using cluster_count(2) [OF z(4) S z(3)] .
  then have ne: "xs \<noteq> []" by auto
  then have split: "xs = butlast xs @ [last xs]" by simp
  have "z < tfs_CLUSTER_SIZE * length xs"
    using n dividend_less_times_div [OF S, of z] by simp
  then have "get_cluster_seek_pt fd ctl fs = Some ((True, last xs), fs)"
    using seek_pt_chain [OF u, of ctl] z(1,2) n ne by (simp add: last_conv_nth)
  then have "first_for_write fd ctl fs = Some (Some (last xs), fs)"
    using z by (simp add: first_for_write_def)
  moreover have "tfs_CLUSTER_SIZE * length (butlast xs) + z mod tfs_CLUSTER_SIZE = z" using n by simp
  moreover have "(z mod tfs_CLUSTER_SIZE + len - 1) div tfs_CLUSTER_SIZE \<le> card (free_clusters (cluster_tbl fs))"
    using room round_up [OF len S, of z] n by simp
  moreover have "cluster_ok (last xs)" "cluster_ok (fd_first_cluster fd)"
    using chain_cluster_ok [OF u(3)] u(3) ne by (auto simp: neq_Nil_conv)
  moreover have "chain t' (fd_first_cluster fd) (butlast xs @ last xs # zs)"
    if "chain t' (last xs) (last xs # zs)" "\<forall>y \<in> set (butlast xs). t' ! unat y = cluster_tbl fs ! unat y" for t' zs
    using chain_extend [of "cluster_tbl fs" _ "butlast xs" "last xs" t' zs] u(3) split that by simp
  ultimately show ?thesis
    unfolding entry_point_def using u(2) nf ne S
    by (intro conjI exI [of _ "cluster_tbl fs"]) (auto dest: in_set_butlastD)
qed

text \<open>An empty file: a cluster is reserved, and it becomes the first one.\<close>

lemma entry_empty:
  assumes u: "unlocked fs" "length (cluster_tbl fs) = tfs_CLUSTERS_COUNT" "chain (cluster_tbl fs) (fd_first_cluster fd) []"
    and z: "fd_size fd = 0" "ctl_seek_pointer ctl = 0" and len: "0 < len"
    and room: "(len - 1) div tfs_CLUSTER_SIZE + 1 \<le> card (free_clusters (cluster_tbl fs))"
  shows "\<exists>x fs'. first_for_write fd ctl fs = Some (Some x, fs') \<and>
    entry_point fs (fd_first_cluster fd) [] 0 len [] x 0 fs'"
proof -
  have "free_clusters (cluster_tbl fs) \<noteq> {}" using room by auto
  from reserve_some [OF u(1) this] obtain i where i: "i \<in> free_clusters (cluster_tbl fs)"
      "reserve_cluster fs = Some (Some (of_nat i), upd_tbl i RESERVED_CLUSTER fs)" by blast
  then have k: "i < tfs_CLUSTERS_COUNT" by (simp add: free_clusters_def)
  have r: "RESERVED_CLUSTER \<noteq> FREE_CLUSTER" "0 < tfs_CLUSTER_SIZE" by (simp_all add: mip_simps)
  have fr: "free_clusters ((cluster_tbl fs)[i := RESERVED_CLUSTER]) = free_clusters (cluster_tbl fs) - {i}"
    using k u(2) r(1) by (auto simp: free_clusters_def nth_list_update)
  have "first_for_write fd ctl fs = Some (Some (of_nat i), upd_tbl i RESERVED_CLUSTER fs)"
    using z i(2) by (simp add: first_for_write_def)
  moreover have "(len - 1) div tfs_CLUSTER_SIZE \<le> card (free_clusters (cluster_tbl fs) - {i})"
    using room card_Diff_singleton [OF i(1)] by simp
  moreover have "(cluster_tbl fs)[i := RESERVED_CLUSTER] ! unat y = cluster_tbl fs ! unat y" if "y \<noteq> of_nat i" for y :: u16
    using that of_nat_cluster [OF k] nth_update_cluster [OF that] by metis
  ultimately show ?thesis
    using i(1) k u fr r of_nat_cluster [OF k]
    by (intro exI [of _ "of_nat i"] exI [of _ "upd_tbl i RESERVED_CLUSTER fs"] conjI)
      (auto simp: entry_point_def upd_tbl_is intro!: exI [of _ "(cluster_tbl fs)[i := RESERVED_CLUSTER]"])
qed

text \<open>A file whose last cluster is full: a cluster is reserved and linked behind the last one.\<close>

lemma entry_full:
  assumes u: "unlocked fs" "length (cluster_tbl fs) = tfs_CLUSTERS_COUNT" "chain (cluster_tbl fs) (fd_first_cluster fd) xs"
    and z: "z = unat (fd_size fd)" "ctl_seek_pointer ctl = fd_size fd" "z mod tfs_CLUSTER_SIZE = 0" "0 < z"
      "length xs = (z + tfs_CLUSTER_SIZE - 1) div tfs_CLUSTER_SIZE"
    and nf: "\<forall>x \<in> set xs. cluster_tbl fs ! unat x \<noteq> FREE_CLUSTER" and len: "0 < len"
    and room: "(z + len - 1) div tfs_CLUSTER_SIZE + 1 \<le> length xs + card (free_clusters (cluster_tbl fs))"
  shows "\<exists>x fs'. first_for_write fd ctl fs = Some (Some x, fs') \<and>
    entry_point fs (fd_first_cluster fd) xs z len xs x 0 fs'"
proof -
  let ?t = "cluster_tbl fs" and ?l = "last xs"
  have S: "0 < tfs_CLUSTER_SIZE" "RESERVED_CLUSTER \<noteq> FREE_CLUSTER" by (simp_all add: mip_simps)
  have n: "length xs = z div tfs_CLUSTER_SIZE" using cluster_count(1) [OF z(5) S(1) z(3)] .
  then have zn: "tfs_CLUSTER_SIZE * length xs = z" using z(3) by auto
  with z(4) have ne: "xs \<noteq> []" by auto
  have "length xs < 65536" using chain_length [OF u(3)] by (simp add: mip_simps)
  then have "unat (of_nat (length xs) :: u16) = length xs" by (simp add: unat_of_nat)
  then have walk: "get_cluster_seek_pt fd ctl fs = Some ((True, ?l), fs)"
    using seek_walk_chain(2) [OF u ne] z(1,2) n by (simp add: get_cluster_seek_pt_def)
  have room': "(len - 1) div tfs_CLUSTER_SIZE + 1 \<le> card (free_clusters ?t)"
    using room round_up [OF len S(1), of z] n z(3) by simp
  then have "free_clusters ?t \<noteq> {}" by auto
  from reserve_some [OF u(1) this] obtain i where i: "i \<in> free_clusters ?t"
      "reserve_cluster fs = Some (Some (of_nat i), upd_tbl i RESERVED_CLUSTER fs)" by blast
  have l: "cluster_ok ?l" "?t ! unat ?l \<noteq> FREE_CLUSTER" using chain_cluster_ok [OF u(3)] nf ne by auto
  note fr = free_after_link [OF i(1) l(2,1) u(2)]
  note c = of_nat_cluster [OF fr(3)]
  let ?t' = "?t[i := RESERVED_CLUSTER, unat ?l := of_nat i]"
  have first: "first_for_write fd ctl fs = Some (Some (of_nat i), fs\<lparr>tfs_ftbl_of := (tfs_ftbl_of fs)\<lparr>ft_cluster_tbl := ?t'\<rparr>\<rparr>)"
    using z i(2) walk u(1,2) fr(3) c l(1)
    by (simp add: first_for_write_def link_cluster_eq word_less_nat_alt) (simp add: upd_tbl_is)
  have x: "(of_nat i :: u16) \<notin> set xs" using i(1) nf c by (auto simp: free_clusters_def)
  have same: "?t' ! unat y = ?t ! unat y" if "y \<noteq> of_nat i" "y \<noteq> ?l" for y :: u16
    using that nth_update_cluster [of y ?l "?t[i := RESERVED_CLUSTER]"] nth_update_cluster [of y "of_nat i" ?t] c by simp
  have same': "?t' ! unat y = ?t ! unat y" if "y \<noteq> of_nat i" "y \<notin> set xs" for y :: u16
    using same [of y] that last_in_set [OF ne] by metis
  have first_ok: "cluster_ok (fd_first_cluster fd)" using u(3) ne by (cases xs) auto
  have nf': "?t' ! unat y \<noteq> FREE_CLUSTER" if "y \<in> set xs" for y
  proof -
    have "unat y \<notin> free_clusters ?t" using nf that by (simp add: free_clusters_def)
    then have "unat y \<notin> free_clusters ?t'" by (simp only: fr(1)) simp
    then show ?thesis using chain_cluster_ok [OF u(3) that] by (simp add: free_clusters_def)
  qed
  have tail: "chain t' (fd_first_cluster fd) (xs @ of_nat i # zs)"
    if t': "chain t' (of_nat i) (of_nat i # zs)" "\<forall>y \<in> set xs. t' ! unat y = ?t' ! unat y" for t' zs
  proof (rule chain_relink [OF u(3) _ ne _ t'(1)])
    show "\<forall>y \<in> set (butlast xs). t' ! unat y = ?t ! unat y"
    proof
      fix y assume y: "y \<in> set (butlast xs)"
      have "distinct (butlast xs @ [?l])" using chain_distinct [OF u(3)] ne by simp
      with y have "y \<noteq> ?l" "y \<in> set xs" by (auto dest: in_set_butlastD)
      with same [of y] x t'(2) show "t' ! unat y = ?t ! unat y" by metis
    qed
    show "t' ! unat ?l = of_nat i" using t'(2) ne u(2) l(1) by simp
  qed
  have "(0 + len - 1) div tfs_CLUSTER_SIZE \<le> card (free_clusters ?t')"
    using room' card_Diff_singleton [OF i(1)] by (simp add: fr(1))
  then have "entry_point fs (fd_first_cluster fd) xs z len xs (of_nat i) 0 (fs\<lparr>tfs_ftbl_of := (tfs_ftbl_of fs)\<lparr>ft_cluster_tbl := ?t'\<rparr>\<rparr>)"
    unfolding entry_point_def
    using u(2) c S zn i(1) x same' nf' tail first_ok fr ne
    by (intro exI [of _ ?t'] conjI) (auto simp: fr(1))
  with first show ?thesis by blast
qed

lemma first_entry:
  assumes u: "unlocked fs" "length (cluster_tbl fs) = tfs_CLUSTERS_COUNT" "chain (cluster_tbl fs) (fd_first_cluster fd) xs"
    and z: "ctl_seek_pointer ctl = fd_size fd" "length xs = (unat (fd_size fd) + tfs_CLUSTER_SIZE - 1) div tfs_CLUSTER_SIZE"
    and nf: "\<forall>x \<in> set xs. cluster_tbl fs ! unat x \<noteq> FREE_CLUSTER" and len: "0 < len"
    and room: "(unat (fd_size fd) + len - 1) div tfs_CLUSTER_SIZE + 1 \<le> length xs + card (free_clusters (cluster_tbl fs))"
  shows "\<exists>ps x off fs'. first_for_write fd ctl fs = Some (Some x, fs') \<and>
    entry_point fs (fd_first_cluster fd) xs (unat (fd_size fd)) len ps x off fs' \<and> off = unat (fd_size fd) mod tfs_CLUSTER_SIZE"
proof -
  let ?z = "unat (fd_size fd)"
  consider "?z mod tfs_CLUSTER_SIZE \<noteq> 0" | "?z = 0" | "?z mod tfs_CLUSTER_SIZE = 0" "0 < ?z" by (metis gr0I)
  then show ?thesis
  proof cases
    case 1
    with entry_inside [OF u refl z(1) _ z(2) nf len room] show ?thesis by blast
  next
    case 2
    then have "xs = []" "fd_size fd = 0" using z(2) by (simp_all add: mip_simps unsigned_eq_0_iff)
    with entry_empty [OF u(1,2) _ _ _ len, of fd ctl] u(3) z(1) room show ?thesis by auto
  next
    case 3
    with entry_full [OF u refl z(1) _ _ z(2) nf len room] show ?thesis by auto
  qed
qed

lemma entry_bytes:
  assumes "entry_point fs first xs z len ps x off fs'"
  shows "take z (chain_bytes im xs) = chain_bytes im ps @ take off (cluster_bytes im x)"
proof -
  have z: "z = tfs_CLUSTER_SIZE * length ps + off" "xs = ps @ [x] \<or> ps = xs \<and> off = 0"
    using assms by (auto simp: entry_point_def)
  from z(2) show ?thesis by (rule disjE) (simp_all add: z(1))
qed

text \<open>What the loop leaves, seen from the state before the write.\<close>

lemma entry_appended:
  assumes e: "entry_point fs first xs z (length src) ps x off fs4" and a: "appended im h x off src fs4 zs fs5"
    and xs: "chain (cluster_tbl fs) first xs" and len: "src \<noteq> []"
    and nf: "\<forall>y \<in> set xs. cluster_tbl fs ! unat y \<noteq> FREE_CLUSTER"
  shows "chain (cluster_tbl fs5) (if cluster_ok first then first else x) (ps @ x # zs)"
    and "take (z + length src) (chain_bytes (im (tfs_disk fs5)) (ps @ x # zs)) = take z (chain_bytes (im (tfs_disk fs)) xs) @ src"
    and "\<exists>ys. ps @ x # zs = xs @ ys \<and> (\<forall>y \<in> set ys. unat y \<in> free_clusters (cluster_tbl fs))"
    and "cluster_ok y \<Longrightarrow> y \<notin> set (ps @ x # zs) \<Longrightarrow> cluster_tbl fs5 ! unat y = cluster_tbl fs ! unat y \<and>
      cluster_bytes (im (tfs_disk fs5)) y = cluster_bytes (im (tfs_disk fs)) y"
    and "\<forall>y \<in> set (ps @ x # zs). cluster_tbl fs5 ! unat y \<noteq> FREE_CLUSTER"
    and "length (ps @ x # zs) = (z + length src + tfs_CLUSTER_SIZE - 1) div tfs_CLUSTER_SIZE"
proof -
  obtain t where t: "fs4 = fs\<lparr>tfs_ftbl_of := (tfs_ftbl_of fs)\<lparr>ft_cluster_tbl := t\<rparr>\<rparr>" and off: "off < tfs_CLUSTER_SIZE"
    and z: "tfs_CLUSTER_SIZE * length ps + off = z" and fr: "free_clusters t \<subseteq> free_clusters (cluster_tbl fs)"
    and x: "x \<in> set xs \<and> xs = ps @ [x] \<or> unat x \<in> free_clusters (cluster_tbl fs) \<and> x \<notin> set xs \<and> ps = xs \<and> off = 0"
    and same: "\<forall>y. cluster_ok y \<and> y \<notin> set (x # xs) \<longrightarrow> t ! unat y = cluster_tbl fs ! unat y"
    and ps: "\<forall>y \<in> set ps. t ! unat y \<noteq> FREE_CLUSTER"
    and tail: "\<forall>t' zs. chain t' x (x # zs) \<and> (\<forall>y \<in> set ps. t' ! unat y = t ! unat y) \<longrightarrow>
          chain t' (if cluster_ok first then first else x) (ps @ x # zs)"
    using e unfolding entry_point_def by blast
  have r: "chain (cluster_tbl fs5) x (x # zs)" "length zs = (off + length src - 1) div tfs_CLUSTER_SIZE"
      "\<forall>y \<in> set zs. unat y \<in> free_clusters t" "\<forall>y \<in> set (x # zs). cluster_tbl fs5 ! unat y \<noteq> FREE_CLUSTER"
      "\<forall>y. cluster_ok y \<and> y \<notin> set (x # zs) \<longrightarrow> cluster_tbl fs5 ! unat y = t ! unat y \<and>
         cluster_bytes (im (tfs_disk fs5)) y = cluster_bytes (im (tfs_disk fs)) y"
      "take off (cluster_bytes (im (tfs_disk fs5)) x) = take off (cluster_bytes (im (tfs_disk fs)) x)"
      "take (length src) (drop off (chain_bytes (im (tfs_disk fs5)) (x # zs))) = src"
    using a by (auto simp: appended_def Let_def t)
  have sub: "set ps \<subseteq> set xs" "x \<notin> set ps" using x chain_distinct [OF xs] by auto
  have dis: "y \<notin> set (x # zs)" "cluster_ok y" if "y \<in> set ps" for y
    using that sub ps r(3) chain_cluster_ok [OF xs] by (auto simp: free_clusters_def)
  have keep: "\<forall>y \<in> set ps. cluster_tbl fs5 ! unat y = t ! unat y" using dis r(5) by auto
  with tail r(1) show "chain (cluster_tbl fs5) (if cluster_ok first then first else x) (ps @ x # zs)" by blast
  from keep ps r(4) show "\<forall>y \<in> set (ps @ x # zs). cluster_tbl fs5 ! unat y \<noteq> FREE_CLUSTER" by auto
  have all: "\<forall>y \<in> set zs. unat y \<in> free_clusters (cluster_tbl fs)" using r(3) fr by auto
  from x show "\<exists>ys. ps @ x # zs = xs @ ys \<and> (\<forall>y \<in> set ys. unat y \<in> free_clusters (cluster_tbl fs))"
  proof
    assume "x \<in> set xs \<and> xs = ps @ [x]"
    with all show ?thesis by (intro exI [of _ zs]) auto
  next
    assume "unat x \<in> free_clusters (cluster_tbl fs) \<and> x \<notin> set xs \<and> ps = xs \<and> off = 0"
    with all show ?thesis by (intro exI [of _ "x # zs"]) auto
  qed
  show "cluster_ok y \<Longrightarrow> y \<notin> set (ps @ x # zs) \<Longrightarrow> cluster_tbl fs5 ! unat y = cluster_tbl fs ! unat y \<and>
      cluster_bytes (im (tfs_disk fs5)) y = cluster_bytes (im (tfs_disk fs)) y"
    using r(5) same x by auto
  have "length (ps @ x # zs) = length ps + (off + length src + tfs_CLUSTER_SIZE - 1) div tfs_CLUSTER_SIZE"
  proof -
    have "off + length src + tfs_CLUSTER_SIZE - 1 = (off + length src - 1) + tfs_CLUSTER_SIZE" using len by (cases src) auto
    then show ?thesis using r(2) by (simp add: mip_simps)
  qed
  also have "\<dots> = (tfs_CLUSTER_SIZE * length ps + (off + length src + tfs_CLUSTER_SIZE - 1)) div tfs_CLUSTER_SIZE"
    by (simp add: mip_simps)
  also have "tfs_CLUSTER_SIZE * length ps + (off + length src + tfs_CLUSTER_SIZE - 1) = z + length src + tfs_CLUSTER_SIZE - 1"
    using z len by (cases src) auto
  finally show "length (ps @ x # zs) = (z + length src + tfs_CLUSTER_SIZE - 1) div tfs_CLUSTER_SIZE" .
  let ?B = "chain_bytes (im (tfs_disk fs5))"
  have "?B ps = chain_bytes (im (tfs_disk fs)) ps"
    using dis r(5) by (auto simp: chain_bytes_def intro!: arg_cong [of _ _ concat])
  moreover have "take (off + length src) (?B (x # zs)) = take off (?B (x # zs)) @ src"
    using r(7) by (simp only: take_add)
  moreover have "take off (?B (x # zs)) = take off (cluster_bytes (im (tfs_disk fs)) x)"
    using off r(6) by simp
  moreover have "take (z + length src) (?B (ps @ x # zs)) = ?B ps @ take (off + length src) (?B (x # zs))"
    unfolding z [symmetric] chain_bytes_simps(3) by (simp add: take_append add.assoc)
  ultimately show "take (z + length src) (?B (ps @ x # zs)) = take z (chain_bytes (im (tfs_disk fs)) xs) @ src"
    using entry_bytes [OF e] by (simp only: append_assoc)
qed

end

text \<open>The file of handle \<open>h\<close> has grown by \<open>src\<close>, into the clusters \<open>ys\<close>, which were free, and nothing else has changed.\<close>

definition grown :: "('d \<Rightarrow> nat \<Rightarrow> char) \<Rightarrow> u16 \<Rightarrow> u16 list \<Rightarrow> bytes \<Rightarrow> 'd tfs \<Rightarrow> u16 list \<Rightarrow> 'd tfs \<Rightarrow> bool" where
  "grown im h xs src fs ys fs' \<longleftrightarrow>
     tfs_io_dev fs' = tfs_io_dev fs \<and> at_end h (xs @ ys) fs' \<and>
     file_bytes (im (tfs_disk fs')) h (xs @ ys) fs' = file_bytes (im (tfs_disk fs)) h xs fs @ src \<and>
     (\<forall>y \<in> set ys. unat y \<in> free_clusters (cluster_tbl fs)) \<and>
     (\<forall>y. cluster_ok y \<and> y \<notin> set (xs @ ys) \<longrightarrow> cluster_tbl fs' ! unat y = cluster_tbl fs ! unat y \<and>
        cluster_bytes (im (tfs_disk fs')) y = cluster_bytes (im (tfs_disk fs)) y) \<and>
     (\<forall>i < cluster_address 0 0. im (tfs_disk fs') i = im (tfs_disk fs) i) \<and>
     (\<forall>i. i \<noteq> unat h \<longrightarrow> file_fs_desc fs' ! i = file_fs_desc fs ! i \<and> tfs_file_ctl fs' ! i = tfs_file_ctl fs ! i)"

context byte_device
begin

lemma room_bound:
  assumes "chain t c xs" "(z + len - 1) div tfs_CLUSTER_SIZE + 1 \<le> length xs + card (free_clusters t')"
  shows "z + len < 2 ^ 32"
proof -
  have "card (free_clusters t') \<le> card {..<tfs_CLUSTERS_COUNT}" by (intro card_mono) (auto simp: free_clusters_def)
  with assms(2) chain_length [OF assms(1)] have "(z + len - 1) div tfs_CLUSTER_SIZE < 2 * tfs_CLUSTERS_COUNT" by simp
  then show ?thesis by (simp add: mip_simps)
qed

lemma write_file_append:
  assumes dev: "tfs_io_dev fs = dev" and e: "at_end h xs fs" and w: "unat w = length src" "src \<noteq> []"
    and room: "(unat (fd_size (file_fs_desc fs ! unat h)) + length src - 1) div tfs_CLUSTER_SIZE + 1
      \<le> length xs + card (free_clusters (cluster_tbl fs))"
  shows "\<exists>ys fs'. tfs_write_file src w h fs = Some ((True, w), fs') \<and> grown image h xs src fs ys fs'"
proof -
  let ?i = "unat h"
  define fd where "fd = file_fs_desc fs ! ?i"
  define ctl where "ctl = tfs_file_ctl fs ! ?i"
  define fs1 where "fs1 = upd_ctl ?i (\<lambda>c. c\<lparr>ctl_locked := True\<rparr>) fs"
  let ?z = "unat (fd_size fd)" and ?first = "fd_first_cluster fd"
  have a: "unlocked fs" "length (cluster_tbl fs) = tfs_CLUSTERS_COUNT" "?i < tfs_MAX_N_OF_FILES" "ctl_open ctl" "\<not> ctl_locked ctl"
    "chain (cluster_tbl fs) ?first xs" "fd_readonly fd = NUL" "ctl_file_open_mode ctl = FILE_OPEN_WRITE"
    "ctl_seek_pointer ctl = fd_size fd" "length xs = (?z + tfs_CLUSTER_SIZE - 1) div tfs_CLUSTER_SIZE"
    "\<forall>x \<in> set xs. cluster_tbl fs ! unat x \<noteq> FREE_CLUSTER" "length (tfs_file_ctl fs) = tfs_MAX_N_OF_FILES"
    "length (file_fs_desc fs) = tfs_MAX_N_OF_FILES"
    using e by (auto simp: at_end_def file_at_def Let_def fd_def ctl_def)
  have len: "0 < length src" using w(2) by simp
  have fs1: "tfs_lock_file h fs = (True, fs1)" "unlocked fs1" "cluster_tbl fs1 = cluster_tbl fs"
    "file_fs_desc fs1 = file_fs_desc fs" "tfs_file_ctl fs1 = (tfs_file_ctl fs)[?i := ctl\<lparr>ctl_locked := True\<rparr>]"
    "tfs_io_dev fs1 = dev" "tfs_disk fs1 = tfs_disk fs"
    using a dev by (auto simp: fs1_def tfs_lock_file_def ctl_def upd_ctl_def)
  from first_entry [of fs1 fd xs "ctl\<lparr>ctl_locked := True\<rparr>" "length src"] obtain ps x off fs4 where
      f: "first_for_write fd (ctl\<lparr>ctl_locked := True\<rparr>) fs1 = Some (Some x, fs4)" "off = ?z mod tfs_CLUSTER_SIZE"
      "entry_point fs1 ?first xs ?z (length src) ps x off fs4"
    using fs1 a len room by (auto simp: fd_def)
  then obtain t where t: "fs4 = fs1\<lparr>tfs_ftbl_of := (tfs_ftbl_of fs1)\<lparr>ft_cluster_tbl := t\<rparr>\<rparr>" "cluster_ok x"
      "length t = tfs_CLUSTERS_COUNT" "t ! unat x \<noteq> FREE_CLUSTER" "off < tfs_CLUSTER_SIZE"
      "(off + length src - 1) div tfs_CLUSTER_SIZE \<le> card (free_clusters t)"
    unfolding entry_point_def by blast
  have "extendable h x off (length src) fs4"
    using t fs1 a len room_bound [OF a(6) room [folded fd_def]] by (simp add: extendable_def fd_def)
  from write_loop_append [OF this] obtain zs fs5 where
      l: "write_loop h x off (length src) src fs4 = Some ((0, 0), fs5)" "appended image h x off src fs4 zs fs5" by blast
  define fs6 where "fs6 = (if cluster_ok ?first then fs5 else upd_fd ?i (\<lambda>d. d\<lparr>fd_first_cluster := x\<rparr>) fs5)"
  define fs7 where "fs7 = upd_ctl ?i (\<lambda>c. c\<lparr>ctl_locked := False\<rparr>) fs6"
  let ?last = "fd_size fd + of_nat (length src)"
  have fs5: "unlocked fs5" "tfs_io_dev fs5 = dev" "length (cluster_tbl fs5) = tfs_CLUSTERS_COUNT"
    "tfs_file_ctl fs5 = (tfs_file_ctl fs)[?i := ctl\<lparr>ctl_locked := True, ctl_seek_pointer := ?last\<rparr>]"
    "file_fs_desc fs5 = (file_fs_desc fs)[?i := fd\<lparr>fd_size := ?last\<rparr>]"
    using l(2) t(1,3) fs1 a by (auto simp: appended_def Let_def fd_def)
  have "tfs_write_file src w h fs = Some ((True, w), fs7)"
  proof -
    have "tfs_unlock_file h fs6 = (True, fs7)"
      using fs5 a(3,12) by (simp add: tfs_unlock_file_def fs7_def fs6_def)
    moreover have "(of_nat (unat w) :: u32) = w" by simp
    ultimately show ?thesis
      using fs1 a f l(1) fs5 w by (cases "cluster_ok ?first") (simp_all add: tfs_write_file_def tfs_get_fd_def tfs_get_ctl_def fs6_def fd_def not_le)
  qed
  moreover obtain ys where "ps @ x # zs = xs @ ys" "\<forall>y \<in> set ys. unat y \<in> free_clusters (cluster_tbl fs1)"
    using entry_appended(3) [OF f(3) l(2)] a fs1(3) w(2) by auto
  moreover have "grown image h xs src fs ys fs7" if "ps @ x # zs = xs @ ys" "\<forall>y \<in> set ys. unat y \<in> free_clusters (cluster_tbl fs1)"
  proof -
    let ?first' = "if cluster_ok ?first then ?first else x"
    have nf1: "chain (cluster_tbl fs1) ?first xs" "\<forall>y \<in> set xs. cluster_tbl fs1 ! unat y \<noteq> FREE_CLUSTER" using a fs1(3) by auto
    note g = entry_appended [OF f(3) l(2) nf1(1) w(2) nf1(2), unfolded that(1) fs1(3,7)]
    have z: "unat ?last = ?z + length src"
      using room_bound [OF a(6) room [folded fd_def]] by (simp add: unat_word_ariths unat_u32)
    have fs7: "unlocked fs7" "tfs_io_dev fs7 = tfs_io_dev fs" "cluster_tbl fs7 = cluster_tbl fs5" "tfs_disk fs7 = tfs_disk fs5"
      "tfs_file_ctl fs7 = (tfs_file_ctl fs)[?i := ctl\<lparr>ctl_seek_pointer := ?last\<rparr>]"
      "file_fs_desc fs7 = (file_fs_desc fs)[?i := fd\<lparr>fd_size := ?last, fd_first_cluster := ?first'\<rparr>]"
      using fs5 a(3,5,12,13) dev by (auto simp: fs7_def fs6_def upd_ctl_def upd_fd_def unlock_moved)
    have "unat ?last \<le> tfs_CLUSTER_SIZE * length (xs @ ys)"
      using g(6) z by (simp add: mip_simps)
    with fs7 fs5(3) g(1,5,6) a z have "at_end h (xs @ ys) fs7"
      by (simp add: at_end_def file_at_def Let_def)
    moreover have "file_bytes (img fs7) h (xs @ ys) fs7 = file_bytes (img fs) h xs fs @ src"
      using g(2) fs7 a(3,13) z by (simp add: file_bytes_def fd_def)
    ultimately show ?thesis
      unfolding grown_def using fs7 g(4) that(2) fs1(3,7) l(2) t(1) by (simp add: appended_def Let_def)
  qed
  ultimately show ?thesis by blast
qed

end

end
