(* ===== verification/Mipos_Tfs_Props.thy ===== *)
theory Mipos_Tfs_Props
  imports Mipos_Tfs_Write "HOL-Library.Sublist"
begin

text \<open>
  The properties of the tiny file system: reading and appending on any device that keeps its
  bytes, what becomes of the other files, mounting, and names. The RAM disk of the
  example is such a device.
\<close>

interpretation ram: byte_device ramdisk_dev "\<lambda>d. d"
proof
  show "\<exists>w. io_write ramdisk_dev = Some w \<and> (\<forall>bs off d. unat off + length bs \<le> tfs_capacity \<longrightarrow>
      (\<exists>d'. w bs off d = Some (0, d') \<and> d' = overlay (unat off) bs d))"
    by (intro exI [of _ disk_write]) (simp add: ramdisk_dev_def disk_write_def overlay_def [abs_def])
  show "\<exists>r. io_read ramdisk_dev = Some r \<and> (\<forall>n off d. unat off + n \<le> tfs_capacity \<longrightarrow>
      r n off d = Some (0, map d [unat off..<unat off + n]))"
    by (simp add: ramdisk_dev_def disk_read_def)
qed

lemma ram_device: "byte_device ramdisk_dev (\<lambda>d. d)"
  by (rule ram.byte_device_axioms)

subsection \<open>A file system to try them on\<close>

text \<open>A formatted volume with an empty file, open for writing at handle 0.\<close>

definition fresh_fs :: "ramdisk tfs" where
  "fresh_fs = blank_fs\<lparr>
     tfs_file_ctl := (replicate tfs_MAX_N_OF_FILES zero_ctl)[0 := zero_ctl\<lparr>ctl_open := True, ctl_file_open_mode := FILE_OPEN_WRITE\<rparr>],
     tfs_ftbl_of := (tfs_ftbl_of blank_fs)\<lparr>
       ft_file_fs_desc := (replicate tfs_MAX_N_OF_FILES (zero_fd\<lparr>fd_erased := CHR 0x01\<rparr>))[0 :=
         zero_fd\<lparr>fd_filename := ''test1'' @ replicate 3 NUL, fd_first_cluster := EMPTY_CLUSTER\<rparr>],
       ft_cluster_tbl := replicate tfs_CLUSTERS_COUNT FREE_CLUSTER\<rparr>\<rparr>"

lemma fresh_fs_simps:
  "tfs_io_dev fresh_fs = ramdisk_dev" "unlocked fresh_fs" "cluster_tbl fresh_fs = replicate tfs_CLUSTERS_COUNT FREE_CLUSTER"
  "fd_size (file_fs_desc fresh_fs ! 0) = 0"
  by (simp_all add: fresh_fs_def blank_fs_def zero_fd_def zero_ctl_def mip_simps)

lemma fresh_at_end: "at_end 0 [] fresh_fs"
  by (simp add: at_end_def file_at_def fresh_fs_def blank_fs_def zero_fd_def zero_ctl_def Let_def mip_simps)

lemma fresh_free: "card (free_clusters (cluster_tbl fresh_fs)) = 32"
proof -
  have "free_clusters (cluster_tbl fresh_fs) = {..<32}"
    by (auto simp: free_clusters_def fresh_fs_simps(3) mip_simps)
  then show ?thesis by simp
qed

text \<open>Beside it a second file, of one cluster, open for reading at handle 1.\<close>

definition read_fs :: "ramdisk tfs" where
  "read_fs = fresh_fs\<lparr>
     tfs_file_ctl := (tfs_file_ctl fresh_fs)[1 := zero_ctl\<lparr>ctl_open := True\<rparr>],
     tfs_ftbl_of := (tfs_ftbl_of fresh_fs)\<lparr>
       ft_file_fs_desc := (file_fs_desc fresh_fs)[1 :=
         zero_fd\<lparr>fd_filename := ''other'' @ replicate 3 NUL, fd_size := 3, fd_first_cluster := 5\<rparr>],
       ft_cluster_tbl := (cluster_tbl fresh_fs)[5 := LAST_ALLOCATED_CLUSTER]\<rparr>,
     tfs_disk := (\<lambda>i. if i = cluster_address 5 0 then CHR ''a'' else if i = cluster_address 5 1 then CHR ''b'' else CHR ''c'')\<rparr>"

lemma read_fs_files: "at_end 0 [] read_fs" "file_at 1 [5] read_fs" "tfs_io_dev read_fs = ramdisk_dev"
  by (simp_all add: at_end_def file_at_def read_fs_def fresh_fs_def blank_fs_def zero_fd_def zero_ctl_def Let_def mip_simps)

lemma read_fs_simps:
  "ctl_seek_pointer (tfs_file_ctl read_fs ! 1) = 0" "fd_size (file_fs_desc read_fs ! 1) = 3"
  "fd_size (file_fs_desc read_fs ! 0) = 0" "cluster_tbl read_fs ! 5 \<noteq> FREE_CLUSTER"
  by (simp_all add: read_fs_def fresh_fs_def blank_fs_def zero_fd_def zero_ctl_def mip_simps)

lemma read_fs_free: "0 < card (free_clusters (cluster_tbl read_fs))"
proof -
  have "0 \<in> free_clusters (cluster_tbl read_fs)"
    by (simp add: free_clusters_def read_fs_def fresh_fs_simps(3)) (simp add: mip_simps)
  then show ?thesis by (auto simp: card_gt_0_iff)
qed

lemma length_file_bytes: "file_at h xs fs \<Longrightarrow> length (file_bytes i h xs fs) = unat (fd_size (file_fs_desc fs ! unat h))"
  by (simp only: file_bytes_def file_at_def length_take length_chain_bytes) simp

subsection \<open>Reading and appending\<close>


text \<open>
  C8. Writing at the end of a file appends: the call succeeds and reports all bytes, the contents are
  the old ones followed by the new ones, the chain has exactly the clusters the new size needs,
  the added ones were free, and no other cluster, descriptor or control block is touched. Enough
  free clusters for the new size are all it takes.
\<close>

theorem append_extends_file:
  assumes "byte_device dev im" "tfs_io_dev fs = dev" "at_end h xs fs" "unat w = length src" "src \<noteq> []"
    and "(unat (fd_size (file_fs_desc fs ! unat h)) + length src - 1) div tfs_CLUSTER_SIZE + 1
      \<le> length xs + card (free_clusters (cluster_tbl fs))"
  shows "\<exists>ys fs'. tfs_write_file src w h fs = Some ((True, w), fs') \<and> grown im h xs src fs ys fs'"
  using byte_device.write_file_append [OF assms] .

theorem append_extends_file_witness:
  "\<exists>ys fs'. tfs_write_file (replicate 70 CHR ''x'') 70 0 fresh_fs = Some ((True, 70), fs') \<and>
     grown (\<lambda>d. d) 0 [] (replicate 70 CHR ''x'') fresh_fs ys fs'"
proof (rule append_extends_file [OF ram_device fresh_fs_simps(1) fresh_at_end])
  show "(unat (fd_size (file_fs_desc fresh_fs ! unat (0 :: u16))) + length (replicate 70 CHR ''x'') - 1) div tfs_CLUSTER_SIZE + 1
      \<le> length ([] :: u16 list) + card (free_clusters (cluster_tbl fresh_fs))"
    by (simp add: fresh_fs_simps(4) fresh_free mip_simps)
qed simp_all


text \<open>
  C11. What was appended can be read back: after seeking back from the end by the length of the data, a
  read of that length succeeds and delivers exactly the data.
\<close>

theorem append_read_back:
  assumes "byte_device dev im" "tfs_io_dev fs = dev" "at_end h xs fs" "unat w = length src" "src \<noteq> []"
    and "(unat (fd_size (file_fs_desc fs ! unat h)) + length src - 1) div tfs_CLUSTER_SIZE + 1
      \<le> length xs + card (free_clusters (cluster_tbl fs))"
  shows "\<exists>fs1 fs2 fs3. tfs_write_file src w h fs = Some ((True, w), fs1) \<and>
    tfs_seek_file tfs_SEEK_END (- int (length src)) h fs1 = Some (True, fs2) \<and>
    tfs_read_file w h fs2 = Some ((True, w, src), fs3)"
proof -
  let ?i = "unat h" and ?z = "unat (fd_size (file_fs_desc fs ! unat h))"
  obtain ys fs1 where g: "tfs_write_file src w h fs = Some ((True, w), fs1)" "grown im h xs src fs ys fs1"
    using byte_device.write_file_append [OF assms] by blast
  have e: "file_at h (xs @ ys) fs1" "tfs_io_dev fs1 = dev" "at_end h xs fs" "file_at h xs fs"
    and fb: "file_bytes (im (tfs_disk fs1)) h (xs @ ys) fs1 = file_bytes (im (tfs_disk fs)) h xs fs @ src"
    using g(2) assms(2,3) by (auto simp: grown_def at_end_def)
  let ?z1 = "fd_size (file_fs_desc fs1 ! ?i)"
  define pos where "pos = ?z1 - w"
  note lens = length_file_bytes [OF e(4), of "im (tfs_disk fs)"] length_file_bytes [OF e(1), of "im (tfs_disk fs1)"]
  with fb assms(4) have z1: "unat ?z1 = ?z + unat w" by simp
  then have pos: "unat pos = ?z" unfolding pos_def by (simp add: unat_sub word_le_nat_alt)
  have w0: "0 < w" using assms(4,5) by (simp add: word_less_nat_alt)
  have lw: "(of_nat (length src) :: u32) = w" unfolding assms(4) [symmetric] by simp
  define fs2 where "fs2 = upd_ctl ?i (\<lambda>c. c\<lparr>ctl_seek_pointer := pos\<rparr>) fs1"
  have "tfs_seek_file tfs_SEEK_END (- int (length src)) h fs1 = Some (True, fs2)"
  proof -
    have "tfs_SEEK_END \<noteq> tfs_SEEK_BEGIN" "tfs_SEEK_END \<noteq> tfs_SEEK_CURRENT" by (simp_all add: mip_simps)
    then show ?thesis
      using e(1) by (simp add: tfs_seek_file_def tfs_lock_file_def tfs_unlock_file_def file_at_def lw fs2_def pos_def
          upd_ctl_twice) (rule upd_ctl_eq, simp add: unlock_moved)
  qed
  moreover have "\<exists>fs3. tfs_read_file w h fs2 = Some ((True, w, src), fs3)"
  proof -
    have f2: "file_at h (xs @ ys) fs2" "tfs_io_dev fs2 = dev" "tfs_disk fs2 = tfs_disk fs1" "file_fs_desc fs2 = file_fs_desc fs1"
      "ctl_seek_pointer (tfs_file_ctl fs2 ! ?i) = pos"
      using e(1,2) by (simp_all add: file_at_def fs2_def)
    have "pos < ?z1" "unat w + unat pos < 2 ^ 32" "unat w = min (unat w) (unat ?z1 - unat pos)"
      using pos z1 w0 unsigned_less [of ?z1, where 'a = nat] by (simp_all add: word_less_nat_alt)
    from byte_device.read_file_at [OF assms(1) f2(2,1) refl refl, of w "unat w"] this f2(3-5) w0
    have "\<exists>fs3. tfs_read_file w h fs2 = Some ((True, of_nat (unat w),
        take (unat w) (drop (unat pos) (file_bytes (im (tfs_disk fs1)) h (xs @ ys) fs2))), fs3)" by simp
    moreover have "file_bytes (im (tfs_disk fs1)) h (xs @ ys) fs2 = file_bytes (im (tfs_disk fs1)) h (xs @ ys) fs1"
      using f2(4) by (simp add: file_bytes_def)
    ultimately show ?thesis using fb lens(1) pos assms(4) lw by simp
  qed
  ultimately show ?thesis using g(1) by blast
qed

theorem append_read_back_witness:
  "\<exists>fs1 fs2 fs3. tfs_write_file (replicate 70 CHR ''x'') 70 0 fresh_fs = Some ((True, 70), fs1) \<and>
    tfs_seek_file tfs_SEEK_END (- int (length (replicate 70 CHR ''x''))) 0 fs1 = Some (True, fs2) \<and>
    tfs_read_file 70 0 fs2 = Some ((True, 70, replicate 70 CHR ''x''), fs3)"
proof (rule append_read_back [OF ram_device fresh_fs_simps(1) fresh_at_end])
  show "(unat (fd_size (file_fs_desc fresh_fs ! unat (0 :: u16))) + length (replicate 70 CHR ''x'') - 1) div tfs_CLUSTER_SIZE + 1
      \<le> length ([] :: u16 list) + card (free_clusters (cluster_tbl fresh_fs))"
    by (simp add: fresh_fs_simps(4) fresh_free mip_simps)
qed simp_all

text \<open>
  The clusters of all the files of a volume, open or closed: the chain of each file covers its
  size, is not free, and shares no cluster with another file.
\<close>

definition stored_at :: "u16 \<Rightarrow> u16 list \<Rightarrow> 'd tfs \<Rightarrow> bool" where
  "stored_at g xs fs \<longleftrightarrow>
     chain (cluster_tbl fs) (fd_first_cluster (file_fs_desc fs ! unat g)) xs \<and>
     unat (fd_size (file_fs_desc fs ! unat g)) \<le> tfs_CLUSTER_SIZE * length xs \<and>
     (\<forall>x \<in> set xs. cluster_tbl fs ! unat x \<noteq> FREE_CLUSTER)"

definition is_file :: "u16 \<Rightarrow> 'd tfs \<Rightarrow> bool" where
  "is_file g fs \<longleftrightarrow> unat g < tfs_MAX_N_OF_FILES \<and> fd_erased (file_fs_desc fs ! unat g) = NUL"

definition volume_of :: "(u16 \<Rightarrow> u16 list) \<Rightarrow> 'd tfs \<Rightarrow> bool" where
  "volume_of F fs \<longleftrightarrow>
     (\<forall>g. is_file g fs \<longrightarrow> stored_at g (F g) fs) \<and>
     (\<forall>g g'. is_file g fs \<and> is_file g' fs \<and> g \<noteq> g' \<longrightarrow> set (F g) \<inter> set (F g') = {})"

text \<open>A file that is apart from the clusters written stays as it was.\<close>

lemma grown_other:
  assumes g: "grown im h xs src fs ys fs'" and "stored_at g ws fs" "g \<noteq> h" "set ws \<inter> set xs = {}"
  shows "stored_at g ws fs' \<and> set ws \<inter> set ys = {} \<and> file_fs_desc fs' ! unat g = file_fs_desc fs ! unat g \<and>
    file_bytes (im (tfs_disk fs')) g ws fs' = file_bytes (im (tfs_disk fs)) g ws fs"
proof -
  have d: "file_fs_desc fs' ! unat g = file_fs_desc fs ! unat g"
    using g assms(3) unfolding grown_def by (simp add: word_unat_eq_iff)
  have out: "cluster_ok y \<and> y \<notin> set (xs @ ys)" if "y \<in> set ws" for y
  proof -
    have "cluster_ok y" using chain_cluster_ok that assms(2) unfolding stored_at_def by blast
    moreover have "unat y \<notin> free_clusters (cluster_tbl fs)"
      using assms(2) that by (simp add: free_clusters_def stored_at_def)
    ultimately show ?thesis using assms(4) that g by (auto simp: grown_def)
  qed
  then have same: "cluster_tbl fs' ! unat y = cluster_tbl fs ! unat y"
      "cluster_bytes (im (tfs_disk fs')) y = cluster_bytes (im (tfs_disk fs)) y" if "y \<in> set ws" for y
    using that g unfolding grown_def by blast+
  have "stored_at g ws fs'"
    using assms(2) d chain_cong [of ws "cluster_tbl fs'" "cluster_tbl fs"] same(1) by (simp add: stored_at_def)
  moreover have "map (cluster_bytes (im (tfs_disk fs'))) ws = map (cluster_bytes (im (tfs_disk fs))) ws"
    using same(2) by simp
  then have "file_bytes (im (tfs_disk fs')) g ws fs' = file_bytes (im (tfs_disk fs)) g ws fs"
    using d by (simp only: file_bytes_def chain_bytes_def)
  moreover have "set ws \<inter> set ys = {}" using out by auto
  ultimately show ?thesis using d by blast
qed

text \<open>
  C25. Appending to a file keeps the whole volume in order and every other file, open or closed,
  as it was. Let the files have chains that cover their sizes and share no cluster; then
  after the call they have such chains again, the one of the file written extended and all
  others the same, the file holds its old bytes followed by the new ones, and the
  descriptor and the bytes of every other file are what they were. The file written is open
  for writing, unlocked and positioned at its end, and there are enough free clusters.
\<close>

theorem append_keeps_volume:
  assumes "byte_device dev im" "tfs_io_dev fs = dev" "at_end h xs fs" "unat w = length src" "src \<noteq> []"
    and "(unat (fd_size (file_fs_desc fs ! unat h)) + length src - 1) div tfs_CLUSTER_SIZE + 1
      \<le> length xs + card (free_clusters (cluster_tbl fs))"
    and vol: "volume_of F fs" "is_file h fs"
  shows "\<exists>ys fs'. tfs_write_file src w h fs = Some ((True, w), fs') \<and> volume_of (F(h := F h @ ys)) fs' \<and>
    file_bytes (im (tfs_disk fs')) h (F h @ ys) fs' = file_bytes (im (tfs_disk fs)) h (F h) fs @ src \<and>
    (\<forall>g. is_file g fs \<and> g \<noteq> h \<longrightarrow> is_file g fs' \<and> file_fs_desc fs' ! unat g = file_fs_desc fs ! unat g \<and>
       file_bytes (im (tfs_disk fs')) g (F g) fs' = file_bytes (im (tfs_disk fs)) g (F g) fs)"
proof -
  obtain ys fs1 where g: "tfs_write_file src w h fs = Some ((True, w), fs1)" "grown im h xs src fs ys fs1"
    using byte_device.write_file_append [OF assms(1-6)] by blast
  have "chain (cluster_tbl fs) (fd_first_cluster (file_fs_desc fs ! unat h)) (F h)"
    using vol unfolding volume_of_def stored_at_def by blast
  then have xs: "F h = xs" using assms(3) chain_unique unfolding at_end_def file_at_def by blast
  have other: "stored_at i (F i) fs1 \<and> set (F i) \<inter> set (xs @ ys) = {} \<and>
      file_fs_desc fs1 ! unat i = file_fs_desc fs ! unat i \<and>
      file_bytes (im (tfs_disk fs1)) i (F i) fs1 = file_bytes (im (tfs_disk fs)) i (F i) fs"
    if "is_file i fs" "i \<noteq> h" for i
  proof -
    have apart: "set (F i) \<inter> set xs = {}" using vol that xs unfolding volume_of_def by blast
    have "stored_at i (F i) fs" using vol(1) that(1) by (simp add: volume_of_def)
    from grown_other [OF g(2) this that(2) apart] apart show ?thesis by auto
  qed
  have new: "is_file i fs1 \<longleftrightarrow> is_file i fs" if "i \<noteq> h" for i
    using g(2) that unfolding grown_def is_file_def by (simp add: word_unat_eq_iff)
  have "stored_at h (xs @ ys) fs1"
    using g(2) unfolding grown_def at_end_def file_at_def stored_at_def Let_def by blast
  then have "stored_at i ((F(h := xs @ ys)) i) fs1" if "is_file i fs1" for i
    using that other [of i] new [of i] by (cases "i = h") auto
  moreover have "set ((F(h := xs @ ys)) i) \<inter> set ((F(h := xs @ ys)) j) = {}"
    if "is_file i fs1" "is_file j fs1" "i \<noteq> j" for i j
  proof (cases "i = h \<or> j = h")
    case True
    then show ?thesis using that other [of i] other [of j] new [of i] new [of j] by auto
  next
    case False
    then show ?thesis using that new vol(1) unfolding volume_of_def by simp
  qed
  ultimately have "volume_of (F(h := xs @ ys)) fs1" unfolding volume_of_def by blast
  moreover have "file_bytes (im (tfs_disk fs1)) h (xs @ ys) fs1 = file_bytes (im (tfs_disk fs)) h xs fs @ src"
    using g(2) unfolding grown_def by blast
  ultimately show ?thesis using g(1) other new xs by blast
qed

lemma read_fs_volume: "volume_of ((\<lambda>_. [])(1 := [5])) read_fs" "is_file 0 read_fs" "is_file 1 read_fs"
proof -
  have files: "is_file g read_fs \<longleftrightarrow> g = 0 \<or> g = 1" for g
  proof -
    have "g = 0 \<longleftrightarrow> unat g = 0" "g = 1 \<longleftrightarrow> unat g = 1" by (auto simp: word_unat_eq_iff)
    then show ?thesis
      by (auto simp: is_file_def read_fs_def fresh_fs_def blank_fs_def zero_fd_def nth_list_update mip_simps)
  qed
  then show "is_file 0 read_fs" "is_file 1 read_fs" by simp_all
  have "stored_at 0 [] read_fs" "stored_at 1 [5] read_fs"
    by (simp_all add: stored_at_def read_fs_def fresh_fs_def blank_fs_def zero_fd_def mip_simps)
  with files show "volume_of ((\<lambda>_. [])(1 := [5])) read_fs" by (auto simp: volume_of_def)
qed

theorem append_keeps_volume_witness:
  "\<exists>ys fs'. tfs_write_file ''xyz'' 3 0 read_fs = Some ((True, 3), fs') \<and>
    volume_of ((\<lambda>_. [])(1 := [5], 0 := ys)) fs' \<and>
    file_bytes (tfs_disk fs') 1 [5] fs' = file_bytes (tfs_disk read_fs) 1 [5] read_fs"
proof -
  have room: "(unat (fd_size (file_fs_desc read_fs ! unat (0 :: u16))) + length ''xyz'' - 1) div tfs_CLUSTER_SIZE + 1
      \<le> length ([] :: u16 list) + card (free_clusters (cluster_tbl read_fs))"
    using read_fs_free by (simp add: read_fs_simps(3)) (simp add: mip_simps)
  have "unat (3 :: u32) = length ''xyz''" "''xyz'' \<noteq> []" by simp_all
  from append_keeps_volume [OF ram_device read_fs_files(3,1) this room read_fs_volume(1,2)] read_fs_volume(3)
  show ?thesis by fastforce
qed

subsection \<open>Mounting\<close>

text \<open>The table that the device holds.\<close>

definition table_on_disk :: "('d \<Rightarrow> nat \<Rightarrow> char) \<Rightarrow> 'd \<Rightarrow> tfs_ftbl \<Rightarrow> bool" where
  "table_on_disk im d t \<longleftrightarrow> ftbl_ok t \<and> map (im d) [tfs_OFFSET..<tfs_OFFSET + sizeof_ftbl] = put_ftbl t"

context byte_device
begin

lemma store_table:
  assumes "tfs_io_dev fs = dev" "ftbl_ok (tfs_ftbl_of fs)"
  shows "\<exists>d. update_fs_on_disk fs = Some (0, fs\<lparr>tfs_disk := d\<rparr>) \<and> table_on_disk image d (tfs_ftbl_of fs)"
proof -
  let ?bs = "put_ftbl (tfs_ftbl_of fs)"
  obtain w where w: "io_write dev = Some w" "\<forall>bs off d. unat off + length bs \<le> tfs_capacity \<longrightarrow>
      (\<exists>d'. w bs off d = Some (0, d') \<and> image d' = overlay (unat off) bs (image d))" using writes by blast
  have len: "length ?bs = sizeof_ftbl" using length_put_ftbl [OF assms(2)] .
  then have "unat (of_nat tfs_OFFSET :: u32) + length ?bs \<le> tfs_capacity" using table_in_range(1,2) by metis
  with w(2) table_in_range(1) obtain d' where d': "w ?bs (of_nat tfs_OFFSET) (tfs_disk fs) = Some (0, d')"
      "image d' = overlay tfs_OFFSET ?bs (img fs)" by metis
  have "map (image d') [tfs_OFFSET..<tfs_OFFSET + sizeof_ftbl] = ?bs"
    unfolding d'(2) using len by (intro nth_equalityI) (simp_all add: overlay_def)
  with d'(1) w(1) assms show ?thesis
    by (intro exI [of _ d']) (simp add: update_fs_on_disk_def dev_write_def table_on_disk_def)
qed

lemma setup_loads:
  assumes "tfs_io_dev m = dev" "table_on_disk image (tfs_disk m) t"
  shows "\<exists>m'. tfs_setup m = Some (True, m') \<and> tfs_ftbl_of m' = t \<and> unlocked m' \<and>
    tfs_file_ctl m' = replicate tfs_MAX_N_OF_FILES zero_ctl \<and> table_on_disk image (tfs_disk m') t"
proof -
  obtain r where r: "io_read dev = Some r" "\<forall>n off d. unat off + n \<le> tfs_capacity \<longrightarrow>
      r n off d = Some (0, map (image d) [unat off..<unat off + n])" using reads by blast
  have t: "ftbl_ok t" "map (img m) [tfs_OFFSET..<tfs_OFFSET + sizeof_ftbl] = put_ftbl t"
    using assms(2) by (simp_all add: table_on_disk_def)
  have read: "dev_read sizeof_ftbl tfs_OFFSET m = Some (0, put_ftbl t)"
    using r(1) assms(1) r(2) [rule_format, of "of_nat tfs_OFFSET" sizeof_ftbl "tfs_disk m"] t(2) table_in_range(1,2)
    by (simp add: dev_read_def)
  let ?m = "m\<lparr>tfs_ftbl_of := t, tfs_file_ctl := replicate tfs_MAX_N_OF_FILES zero_ctl\<rparr>"
  from store_table [of ?m] assms(1) t(1) obtain d where
      d: "update_fs_on_disk ?m = Some (0, ?m\<lparr>tfs_disk := d\<rparr>)" "table_on_disk image d t" by auto
  have "io_write dev \<noteq> None" using writes by auto
  with read d r(1) assms(1) get_put_ftbl [OF t(1)] show ?thesis
    by (simp add: tfs_setup_def mipos_mu_init_def)
qed

end

text \<open>
  C18. Once the table has been stored on the device, mounting the device, also with another
  file system object, succeeds and gives that table, with all files closed and the access mutex free.
\<close>

theorem mount_restores_table:
  assumes "byte_device dev im" "tfs_io_dev fs = dev" "ftbl_ok (tfs_ftbl_of fs)" "update_fs_on_disk fs = Some (r, fs1)"
    and "tfs_io_dev m = dev" "tfs_disk m = tfs_disk fs1"
  shows "r = 0 \<and> (\<exists>m'. tfs_setup m = Some (True, m') \<and> tfs_ftbl_of m' = tfs_ftbl_of fs \<and> unlocked m' \<and>
    tfs_file_ctl m' = replicate tfs_MAX_N_OF_FILES zero_ctl)"
proof -
  from byte_device.store_table [OF assms(1-3)] assms(4) have "r = 0" "table_on_disk im (tfs_disk m) (tfs_ftbl_of fs)"
    using assms(6) by auto
  with byte_device.setup_loads [OF assms(1,5)] show ?thesis by blast
qed

lemma fresh_stored: "ftbl_ok (tfs_ftbl_of fresh_fs)"
  by (simp add: ftbl_ok_def fd_ok_def fresh_fs_def blank_fs_def zero_fd_def list_all_length nth_list_update mip_simps)

theorem mount_restores_table_witness:
  "\<exists>fs1. update_fs_on_disk fresh_fs = Some (0, fs1) \<and>
     (\<exists>m'. tfs_setup (blank_fs\<lparr>tfs_disk := tfs_disk fs1\<rparr>) = Some (True, m') \<and> tfs_ftbl_of m' = tfs_ftbl_of fresh_fs)"
proof -
  obtain fs1 where u: "update_fs_on_disk fresh_fs = Some (0, fs1)"
    using ram.store_table [OF fresh_fs_simps(1) fresh_stored] by blast
  have "tfs_io_dev (blank_fs\<lparr>tfs_disk := tfs_disk fs1\<rparr>) = ramdisk_dev" by (simp add: blank_fs_def)
  from mount_restores_table [OF ram_device fresh_fs_simps(1) fresh_stored u this] u show ?thesis by auto
qed

text \<open>
  C36. What a write adds is not on the device after closing the file: when the table was stored before, the
  file is written and closed and the device is mounted again, the table is the old one, so
  the size and the clusters of the file are those from before the write.
\<close>

theorem append_lost_on_remount:
  assumes "byte_device dev im" "tfs_io_dev fs = dev" "at_end h xs fs" "unat w = length src" "src \<noteq> []"
    and "(unat (fd_size (file_fs_desc fs ! unat h)) + length src - 1) div tfs_CLUSTER_SIZE + 1
      \<le> length xs + card (free_clusters (cluster_tbl fs))"
    and "table_on_disk im (tfs_disk fs) (tfs_ftbl_of fs)" "tfs_io_dev m = dev"
  shows "\<exists>fs1 fs2 m'. tfs_write_file src w h fs = Some ((True, w), fs1) \<and> tfs_close_file h fs1 = Some (True, fs2) \<and>
    fd_size (file_fs_desc fs2 ! unat h) = fd_size (file_fs_desc fs ! unat h) + w \<and>
    tfs_setup (m\<lparr>tfs_disk := tfs_disk fs2\<rparr>) = Some (True, m') \<and> tfs_ftbl_of m' = tfs_ftbl_of fs"
proof -
  obtain ys fs1 where g: "tfs_write_file src w h fs = Some ((True, w), fs1)" "grown im h xs src fs ys fs1"
    using byte_device.write_file_append [OF assms(1-6)] by blast
  have f: "file_at h (xs @ ys) fs1" "file_at h xs fs" using g(2) assms(3) by (auto simp: grown_def at_end_def)
  let ?fs2 = "upd_ctl (unat h) (\<lambda>c. c\<lparr>ctl_open := False, ctl_seek_pointer := 0\<rparr>) fs1"
  have close: "tfs_close_file h fs1 = Some (True, ?fs2)"
    using f(1) by (simp add: tfs_close_file_def file_at_def)
  have "length (file_bytes (im (tfs_disk fs1)) h (xs @ ys) fs1) = length (file_bytes (im (tfs_disk fs)) h xs fs) + unat w"
    using g(2) assms(4) by (simp add: grown_def)
  then have "unat (fd_size (file_fs_desc fs1 ! unat h)) = unat (fd_size (file_fs_desc fs ! unat h)) + unat w"
    using length_file_bytes [OF f(1)] length_file_bytes [OF f(2)] by simp
  then have size1: "fd_size (file_fs_desc fs1 ! unat h) = fd_size (file_fs_desc fs ! unat h) + w"
    using unsigned_less [of "fd_size (file_fs_desc fs1 ! unat h)", where 'a = nat]
    by (simp add: word_unat_eq_iff unat_word_ariths)
  have "\<forall>i < cluster_address 0 0. im (tfs_disk fs1) i = im (tfs_disk fs) i" using g(2) unfolding grown_def by blast
  then have "map (im (tfs_disk fs1)) [tfs_OFFSET..<tfs_OFFSET + sizeof_ftbl] =
      map (im (tfs_disk fs)) [tfs_OFFSET..<tfs_OFFSET + sizeof_ftbl]" using table_in_range(3) by simp
  then have "table_on_disk im (tfs_disk fs1) (tfs_ftbl_of fs)" using assms(7) by (simp only: table_on_disk_def)
  with byte_device.setup_loads [OF assms(1), of "m\<lparr>tfs_disk := tfs_disk fs1\<rparr>"] assms(8)
  obtain m' where "tfs_setup (m\<lparr>tfs_disk := tfs_disk fs1\<rparr>) = Some (True, m')" "tfs_ftbl_of m' = tfs_ftbl_of fs" by auto
  with g(1) close size1 show ?thesis by (intro exI [of _ fs1] exI [of _ ?fs2] exI [of _ m'] conjI) simp_all
qed

theorem append_lost_on_remount_witness:
  "\<exists>fs0 fs1 fs2 m'. update_fs_on_disk fresh_fs = Some (0, fs0) \<and> tfs_write_file ''xyz'' 3 0 fs0 = Some ((True, 3), fs1) \<and>
    tfs_close_file 0 fs1 = Some (True, fs2) \<and> fd_size (file_fs_desc fs2 ! 0) = 3 \<and>
    tfs_setup (blank_fs\<lparr>tfs_disk := tfs_disk fs2\<rparr>) = Some (True, m') \<and> fd_size (file_fs_desc m' ! 0) = 0"
proof -
  obtain d where u: "update_fs_on_disk fresh_fs = Some (0, fresh_fs\<lparr>tfs_disk := d\<rparr>)" "table_on_disk (\<lambda>d. d) d (tfs_ftbl_of fresh_fs)"
    using ram.store_table [OF fresh_fs_simps(1) fresh_stored] by blast
  let ?fs0 = "fresh_fs\<lparr>tfs_disk := d\<rparr>"
  have h: "tfs_io_dev ?fs0 = ramdisk_dev" "at_end 0 [] ?fs0" "unat (3 :: u32) = length ''xyz''" "''xyz'' \<noteq> []"
    "(unat (fd_size (file_fs_desc ?fs0 ! unat (0 :: u16))) + length ''xyz'' - 1) div tfs_CLUSTER_SIZE + 1
      \<le> length ([] :: u16 list) + card (free_clusters (cluster_tbl ?fs0))"
    "table_on_disk (\<lambda>d. d) (tfs_disk ?fs0) (tfs_ftbl_of ?fs0)" "tfs_io_dev blank_fs = ramdisk_dev"
  proof -
    show "at_end 0 [] ?fs0" using fresh_at_end by (simp add: at_end_def file_at_def)
    show "(unat (fd_size (file_fs_desc ?fs0 ! unat (0 :: u16))) + length ''xyz'' - 1) div tfs_CLUSTER_SIZE + 1
      \<le> length ([] :: u16 list) + card (free_clusters (cluster_tbl ?fs0))"
      using fresh_free by (simp add: fresh_fs_simps(4)) (simp add: mip_simps)
  qed (use u(2) in \<open>simp_all add: fresh_fs_simps(1) blank_fs_def\<close>)
  from append_lost_on_remount [OF ram_device h] u(1) fresh_fs_simps(4) show ?thesis by fastforce
qed

subsection \<open>Names\<close>

lemma takeWhile_take: "takeWhile P (take n xs) = take n (takeWhile P xs)"
  by (induction xs arbitrary: n) (auto simp: take_Cons split: nat.splits)

lemma take_prefix: "take (length p) xs = p \<longleftrightarrow> prefix p xs"
  by (metis append_eq_conv_conj prefix_def)

text \<open>
  The search by name, on which existence, size, renaming, deletion and the check of
  a new name rest, finds the first file whose name begins with the name given, also
  when that holds no \<^verbatim>\<open>*\<close>.
\<close>

theorem lookup_is_by_prefix:
  assumes "unlocked fs" "tfs_check_file_name name" "name_of = (\<lambda>i. takeWhile (\<lambda>c. c \<noteq> NUL) (fd_filename (file_fs_desc fs ! i)))"
  shows "tfs_ffirst (Some name) fs =
    Some (map_option of_nat (List.find (\<lambda>i. fd_erased (file_fs_desc fs ! i) = NUL \<and> prefix name (name_of i))
      [0..<tfs_MAX_N_OF_FILES]), fs)"
proof -
  have c: "length name < tfs_MAX_FILENAME_LENGTH" "list_all name_char name" using assms(2) by (simp_all add: tfs_check_file_name_def)
  have "\<not> name_char CHR ''*''" "\<not> name_char NUL" by (simp_all add: name_char_def less_eq_char_def)
  then have "CHR ''*'' \<notin> set name" "NUL \<notin> set name" using c(2) by (auto simp: list_all_iff)
  moreover from this(1) have "takeWhile (\<lambda>c. c \<noteq> CHR ''*'') name = name" by (induction name) auto
  then have "jolly_pos name = length name" by (simp only: jolly_pos_def)
  ultimately show ?thesis
    using ffirst_eq [OF assms(1), of name] c assms(3) by (simp add: takeWhile_take take_prefix)
qed

theorem lookup_is_by_prefix_witness:
  "tfs_ffirst (Some ''te'') fresh_fs = Some (Some 0, fresh_fs)"
proof -
  have "tfs_check_file_name ''te''" by (simp add: tfs_check_file_name_def name_char_def less_eq_char_def mip_simps)
  moreover have "[0..<tfs_MAX_N_OF_FILES] = 0 # [Suc 0..<tfs_MAX_N_OF_FILES]"
    by (rule upt_conv_Cons) (simp add: mip_simps)
  moreover have "fd_erased (file_fs_desc fresh_fs ! 0) = NUL"
      "takeWhile (\<lambda>c. c \<noteq> NUL) (fd_filename (file_fs_desc fresh_fs ! 0)) = ''test1''"
    by (simp_all add: fresh_fs_def blank_fs_def zero_fd_def mip_simps)
  ultimately show ?thesis
    using lookup_is_by_prefix [OF fresh_fs_simps(2) _ refl, of "''te''"] by simp
qed

text \<open>
  Renaming a file whose descriptor is not the first leaves its name as it was: the new
  name is written over the first descriptor, from the byte with the number of the handle on.
\<close>

theorem rename_misses_file:
  assumes "byte_device dev im" "tfs_io_dev fs = dev" "unlocked fs" "ftbl_ok (tfs_ftbl_of fs)"
    and "tfs_ffirst (Some name) fs = Some (Some h, fs)" "0 < unat h" "unat h < tfs_MAX_N_OF_FILES" "tfs_check_file_name new"
  shows "\<exists>fs'. tfs_rename_file (Some name) new fs = Some (True, fs') \<and> (\<forall>i > 0. file_fs_desc fs' ! i = file_fs_desc fs ! i) \<and>
    file_fs_desc fs' ! 0 = get_fd (take (unat h) (put_fd (file_fs_desc fs ! 0)) @
      take tfs_MAX_FILENAME_LENGTH (new @ replicate tfs_MAX_FILENAME_LENGTH NUL) @
      drop (unat h + tfs_MAX_FILENAME_LENGTH) (put_fd (file_fs_desc fs ! 0)))"
proof -
  let ?old = "put_fd (file_fs_desc fs ! 0)" and ?h = "unat h"
  let ?new = "take tfs_MAX_FILENAME_LENGTH (new @ replicate tfs_MAX_FILENAME_LENGTH NUL) @ drop (?h + tfs_MAX_FILENAME_LENGTH) ?old"
  let ?fs2 = "upd_fd 0 (\<lambda>_. get_fd (take ?h ?old @ ?new)) fs"
  have n: "0 < length (file_fs_desc fs)" "fd_ok (file_fs_desc fs ! 0)"
    using assms(4) by (simp_all add: ftbl_ok_def list_all_length) (simp_all add: mip_simps)
  then have len: "length ?old = 16" by (simp add: length_put_fd mip_simps)
  then have "strncpy (drop ?h ?old) new tfs_MAX_FILENAME_LENGTH = Some ?new"
    using assms(7) by (simp add: strncpy_def mip_simps add.commute)
  then have "with_access (\<lambda>fs. do {
      let old = put_fd (file_fs_desc fs ! 0);
      new \<leftarrow> strncpy (drop ?h old) new tfs_MAX_FILENAME_LENGTH;
      Some ((), upd_fd 0 (\<lambda>_. get_fd (take ?h old @ new)) fs) }) fs = Some ((), ?fs2)"
    using assms(3) by (subst with_access_eq) (simp_all add: Let_def upd_fd_def)
  then have "tfs_rename_file (Some name) new fs = do { (ret, fs3) \<leftarrow> update_fs_on_disk ?fs2; Some (ret = 0, fs3) }"
    using assms(5,8) by (simp add: tfs_rename_file_def)
  moreover have "ftbl_ok (tfs_ftbl_of ?fs2)"
  proof -
    have "fd_ok (get_fd (take ?h ?old @ ?new))" using len assms(7) by (simp add: fd_ok_def get_fd_def mip_simps)
    then show ?thesis using assms(4) n(1)
      by (simp add: ftbl_ok_def upd_fd_def list_all_length nth_list_update)
  qed
  moreover have "tfs_io_dev ?fs2 = dev" using assms(2) by simp
  ultimately obtain d where "tfs_rename_file (Some name) new fs = Some (True, ?fs2\<lparr>tfs_disk := d\<rparr>)"
    using byte_device.store_table [OF assms(1), of ?fs2] by fastforce
  then show ?thesis using n(1) by (simp add: upd_fd_def)
qed

theorem rename_misses_file_witness:
  "\<exists>fs'. tfs_rename_file (Some ''other'') ''new'' read_fs = Some (True, fs') \<and>
    fd_filename (file_fs_desc fs' ! 1) = ''other'' @ replicate 3 NUL"
proof -
  have n: "tfs_check_file_name ''other''" "tfs_check_file_name ''new''" "0 < unat (1 :: u16)" "unat (1 :: u16) < tfs_MAX_N_OF_FILES"
    by (simp_all add: tfs_check_file_name_def name_char_def less_eq_char_def mip_simps)
  have d: "file_fs_desc read_fs ! 0 = zero_fd\<lparr>fd_filename := ''test1'' @ replicate 3 NUL, fd_first_cluster := EMPTY_CLUSTER\<rparr>"
      "file_fs_desc read_fs ! 1 = zero_fd\<lparr>fd_filename := ''other'' @ replicate 3 NUL, fd_size := 3, fd_first_cluster := 5\<rparr>"
    by (simp_all add: read_fs_def fresh_fs_def blank_fs_def mip_simps)
  have u: "unlocked read_fs" "ftbl_ok (tfs_ftbl_of read_fs)"
    by (simp_all add: read_fs_def ftbl_ok_def fd_ok_def fresh_fs_def blank_fs_def zero_fd_def list_all_length nth_list_update mip_simps)
  have "[0..<tfs_MAX_N_OF_FILES] = 0 # 1 # [Suc 1..<tfs_MAX_N_OF_FILES]"
    using upt_conv_Cons [of 0 tfs_MAX_N_OF_FILES] upt_conv_Cons [of 1 tfs_MAX_N_OF_FILES] by (simp add: mip_simps)
  then have "tfs_ffirst (Some ''other'') read_fs = Some (Some 1, read_fs)"
    using ffirst_eq [OF u(1), of "''other''"] n(1) d
    by (simp add: jolly_pos_def tfs_check_file_name_def zero_fd_def)
  from rename_misses_file [OF ram_device read_fs_files(3) u this n(3,4,2)] d(2) show ?thesis by auto
qed

end
