(* ===== verification/Mipos_Stdio.thy ===== *)
theory Mipos_Stdio
  imports Mipos_Tfs_Props
begin

text \<open>
  The stream interface over the tiny file system (\<^verbatim>\<open>mipos_stdio.c\<close>). The file system that
  \<^verbatim>\<open>_fs_ptr\<close> points to is the state; a stream is the structure that \<^verbatim>\<open>fopen\<close> allocates, and \<open>None\<close>
  is the null pointer. Whether \<^verbatim>\<open>malloc\<close> delivers is an argument of \<^verbatim>\<open>fopen\<close>.
\<close>

record tfs_FILE =
  FILE_handle :: u16
  FILE_read_only :: bool

definition EOF :: int where [mip_simps]: "EOF = - 1"
definition SEEK_SET :: int where [mip_simps]: "SEEK_SET = 0"
definition SEEK_CUR :: int where [mip_simps]: "SEEK_CUR = 1"
definition SEEK_END :: int where [mip_simps]: "SEEK_END = 2"

definition init_ramdisk_stdio :: "'d tfs \<Rightarrow> 'd tfs option \<Rightarrow> 'd tfs option" where
  "init_ramdisk_stdio fs _ = Some fs"

text \<open>
  Only the first seven characters of the mode count. The test for a binary mode reads the
  character before the buffer when the mode is empty, which is a fault, and does nothing else.
\<close>

definition tfs_fopen :: "bytes \<Rightarrow> bytes \<Rightarrow> bool \<Rightarrow> ('d, tfs_FILE option) tfs_op" where
  "tfs_fopen name mode malloc_ok fs =
     (let m = take 7 mode in
      if m = [] then None
      else if m = ''r'' \<or> m = ''r+'' then do {
        ((ok, h), fs1) \<leftarrow> tfs_open_file name (if m = ''r'' then FILE_OPEN_READ else FILE_OPEN_WRITE) fs;
        Some (if ok \<and> malloc_ok then Some \<lparr>FILE_handle = h, FILE_read_only = True\<rparr> else None, fs1)
      }
      else if m = ''w+'' \<or> m = ''w'' then do {
        (_, fs1) \<leftarrow> tfs_delete_file (Some name) fs;
        ((ok, h), fs2) \<leftarrow> tfs_create_file name fs1;
        Some (if ok \<and> malloc_ok then Some \<lparr>FILE_handle = h, FILE_read_only = False\<rparr> else None, fs2)
      }
      else Some (None, fs))"

definition tfs_fclose :: "tfs_FILE option \<Rightarrow> ('d, int) tfs_op" where
  "tfs_fclose f fs =
     (case f of None \<Rightarrow> Some (EOF, fs)
      | Some s \<Rightarrow> do { (ok, fs1) \<leftarrow> tfs_close_file (FILE_handle s) fs; Some (if ok then 0 else EOF, fs1) })"

definition tfs_feof :: "tfs_FILE \<Rightarrow> ('d, int) tfs_op" where
  "tfs_feof f fs =
     (if \<not> FILE_read_only f then Some (0, fs)
      else do { (r, fs1) \<leftarrow> tfs_get_ctl (FILE_handle f) fs;
                Some (case r of None \<Rightarrow> 0 | Some ctl \<Rightarrow> of_bool (ctl_eof_while_read ctl), fs1) })"

definition tfs_ftell :: "tfs_FILE \<Rightarrow> ('d, int) tfs_op" where
  "tfs_ftell f fs =
     do { (r, fs1) \<leftarrow> tfs_get_ctl (FILE_handle f) fs;
          Some (case r of None \<Rightarrow> EOF | Some ctl \<Rightarrow> uint (ctl_seek_pointer ctl), fs1) }"

text \<open>The position is cut to an \<^verbatim>\<open>int\<close>; an unknown origin is answered with 0 at once.\<close>

definition tiny_fseek :: "tfs_FILE \<Rightarrow> int \<Rightarrow> int \<Rightarrow> ('d, int) tfs_op" where
  "tiny_fseek f pos origin fs =
     (let new_pos = sint (word_of_int pos :: u32);
          seek = (\<lambda>code. do { (ok, fs1) \<leftarrow> tfs_seek_file code new_pos (FILE_handle f) fs;
                              Some (if ok then 0 else new_pos, fs1) }) in
      if origin = SEEK_SET then seek tfs_SEEK_BEGIN
      else if origin = SEEK_CUR then seek tfs_SEEK_CURRENT
      else if origin = SEEK_END then seek tfs_SEEK_END
      else Some (0, fs))"

text \<open>Division of two \<^verbatim>\<open>size_t\<close>; by zero it is a fault.\<close>

definition size_div :: "u64 \<Rightarrow> u64 \<Rightarrow> u64 option" where
  "size_div a b = (if b = 0 then None else Some (a div b))"

text \<open>The result: the number of elements, and the bytes stored in the buffer.\<close>

definition tfs_fread :: "u64 \<Rightarrow> u64 \<Rightarrow> tfs_FILE \<Rightarrow> ('d, u64 \<times> bytes) tfs_op" where
  "tfs_fread sz count f fs =
     do { ((ok, rbytes, bs), fs1) \<leftarrow> tfs_read_file (ucast (sz * count)) (FILE_handle f) fs;
          if ok then do { n \<leftarrow> size_div (ucast rbytes) sz; Some ((n, bs), fs1) }
          else do {
            (_, fs2) \<leftarrow> tfs_get_fd (FILE_handle f) fs1;
            n \<leftarrow> (if (ucast rbytes :: u64) < sz * count then size_div (ucast rbytes) sz else Some 0);
            Some ((n, bs), fs2)
          } }"

definition tfs_fwrite :: "bytes \<Rightarrow> u64 \<Rightarrow> u64 \<Rightarrow> tfs_FILE \<Rightarrow> ('d, u64) tfs_op" where
  "tfs_fwrite buffer sz count f fs =
     do { ((ok, wbytes), fs1) \<leftarrow> tfs_write_file buffer (ucast (sz * count)) (FILE_handle f) fs;
          n \<leftarrow> (if ok \<or> (ucast wbytes :: u64) < sz * count then size_div (ucast wbytes) sz else Some 0);
          Some (n, fs1) }"

text \<open>A \<^verbatim>\<open>char\<close> is signed on the hosts of the simulator.\<close>

definition char_value :: "char \<Rightarrow> int" where
  "char_value c = sint (of_nat (of_char c) :: u8)"

definition tfs_fgetc :: "tfs_FILE \<Rightarrow> ('d, int) tfs_op" where
  "tfs_fgetc stream fs =
     do { ((n, bs), fs1) \<leftarrow> tfs_fread 1 1 stream fs;
          let c = (if bs = [] then NUL else hd bs);
          Some (if n = 1 then char_value c else sint (ucast n :: u32), fs1) }"

definition stdio_rename :: "bytes option \<Rightarrow> bytes \<Rightarrow> ('d, int) tfs_op" where
  "stdio_rename source_file dest_file fs =
     do { (ok, fs1) \<leftarrow> tfs_rename_file source_file dest_file fs; Some (if ok then 0 else - 1, fs1) }"

definition tfs_remove :: "bytes option \<Rightarrow> ('d, int) tfs_op" where
  "tfs_remove filename fs =
     do { (ok, fs1) \<leftarrow> tfs_delete_file filename fs; Some (if ok then 0 else - 1, fs1) }"

definition tfs_filesize :: "bytes option \<Rightarrow> ('d, int) tfs_op" where
  "tfs_filesize filename fs =
     do { (r, fs1) \<leftarrow> tfs_get_fsize filename fs;
          Some (case r of None \<Rightarrow> - 1 | Some n \<Rightarrow> sint n, fs1) }"

subsection \<open>Elements\<close>

lemma ucast_bytes:
  assumes "unat sz * unat count < 2 ^ 32"
  shows "unat (ucast (sz * count :: u64) :: u32) = unat sz * unat count" "unat (sz * count) = unat sz * unat count"
proof -
  have "unat sz * unat count < 2 ^ 64" using assms by simp
  then show eq: "unat (sz * count) = unat sz * unat count" by (simp add: unat_word_ariths)
  with assms show "unat (ucast (sz * count) :: u32) = unat sz * unat count" by (simp add: unsigned_ucast_eq take_bit_eq_mod)
qed

lemma size_div_elements:
  assumes "0 < unat sz" "unat r = k"
  shows "size_div (ucast (r :: u32)) sz = Some (of_nat (k div unat sz))"
proof -
  have "unat (ucast r :: u64) = k" using assms(2) unsigned_less [of r, where 'a = nat] by (simp add: unsigned_ucast_eq take_bit_eq_mod)
  then have "unat ((ucast r :: u64) div sz) = k div unat sz" by (simp add: unat_div)
  moreover have "(ucast r :: u64) div sz = of_nat (unat ((ucast r :: u64) div sz))" by simp
  ultimately show ?thesis using assms(1) by (auto simp: size_div_def)
qed

text \<open>
  C39. \<^verbatim>\<open>fread\<close> reads as many bytes as the elements have, or as are left, and returns the number of whole
  elements among them; the seek pointer stands behind the last byte read, also when that is in the
  middle of an element.
\<close>

theorem fread_counts_elements:
  assumes "byte_device dev im" "tfs_io_dev fs = dev" "file_at (FILE_handle f) xs fs"
    and "pos = ctl_seek_pointer (tfs_file_ctl fs ! unat (FILE_handle f))" "fsize = fd_size (file_fs_desc fs ! unat (FILE_handle f))"
    and "pos < fsize" "0 < sz" "0 < count" "unat sz * unat count + unat pos < 2 ^ 32"
    and "k = min (unat sz * unat count) (unat fsize - unat pos)"
  shows "\<exists>fs'. tfs_fread sz count f fs =
      Some ((of_nat (k div unat sz), take k (drop (unat pos) (file_bytes (im (tfs_disk fs)) (FILE_handle f) xs fs))), fs') \<and>
    ctl_seek_pointer (tfs_file_ctl fs' ! unat (FILE_handle f)) = pos + of_nat k"
proof -
  let ?n = "ucast (sz * count) :: u32" and ?h = "FILE_handle f"
  have n: "unat ?n = unat sz * unat count" using ucast_bytes(1) [of sz count] assms(9) by simp
  have sz: "0 < unat sz" "0 < unat count" using assms(7,8) by (simp_all add: word_less_nat_alt)
  then have "0 < ?n" using n by (simp add: word_less_nat_alt)
  moreover have kn: "k = min (unat ?n) (unat fsize - unat pos)" "unat ?n + unat pos < 2 ^ 32" using n assms(9,10) by simp_all
  ultimately have "tfs_read_file ?n ?h fs =
    Some ((True, of_nat k, take k (drop (unat pos) (file_bytes (im (tfs_disk fs)) ?h xs fs))),
      upd_ctl (unat ?h) (\<lambda>c. c\<lparr>ctl_seek_pointer := ctl_seek_pointer c + of_nat k,
        ctl_eof_while_read := (ctl_eof_while_read c \<or> unat fsize < unat ?n + unat pos)\<rparr>) fs)"
    using byte_device.read_file_at [OF assms(1-3) refl refl, of ?n k] assms(4-6) by simp
  moreover have "unat (of_nat k :: u32) = k" using kn by (intro unat_u32) simp
  then have "size_div (ucast (of_nat k :: u32)) sz = Some (of_nat (k div unat sz))" by (rule size_div_elements [OF sz(1)])
  moreover have "unat ?h < length (tfs_file_ctl fs)" using assms(3) by (simp add: file_at_def)
  ultimately show ?thesis using assms(4) by (simp add: tfs_fread_def)
qed

theorem fread_counts_elements_witness:
  "\<exists>fs'. tfs_fread 2 4 \<lparr>FILE_handle = 1, FILE_read_only = True\<rparr> read_fs =
      Some ((1, file_bytes (tfs_disk read_fs) 1 [5] read_fs), fs') \<and> ctl_seek_pointer (tfs_file_ctl fs' ! 1) = 3"
proof -
  let ?f = "\<lparr>FILE_handle = 1, FILE_read_only = True\<rparr>"
  have pos: "0 = ctl_seek_pointer (tfs_file_ctl read_fs ! unat (FILE_handle ?f))" "3 = fd_size (file_fs_desc read_fs ! unat (FILE_handle ?f))"
    using read_fs_simps(1,2) by simp_all
  have f: "file_at (FILE_handle ?f) [5] read_fs" using read_fs_files(2) by simp
  have num: "(0 :: u32) < 3" "(0 :: u64) < 2" "(0 :: u64) < 4" "unat (2 :: u64) * unat (4 :: u64) + unat (0 :: u32) < 2 ^ 32"
    "3 = min (unat (2 :: u64) * unat (4 :: u64)) (unat (3 :: u32) - unat (0 :: u32))" by simp_all
  have "take 3 (drop (unat (0 :: u32)) (file_bytes (tfs_disk read_fs) 1 [5] read_fs)) = file_bytes (tfs_disk read_fs) 1 [5] read_fs"
    using length_file_bytes [OF read_fs_files(2), of "tfs_disk read_fs"] read_fs_simps(2) by simp
  with fread_counts_elements [OF ram_device read_fs_files(3) f pos num] show ?thesis by simp
qed

text \<open>
  \<^verbatim>\<open>fwrite\<close> at the end of a file, with room for all elements, returns the number of elements and appends
  exactly their bytes.
\<close>

theorem fwrite_appends_elements:
  assumes "byte_device dev im" "tfs_io_dev fs = dev" "at_end (FILE_handle f) xs fs"
    and "length buffer = unat sz * unat count" "buffer \<noteq> []"
    and "(unat (fd_size (file_fs_desc fs ! unat (FILE_handle f))) + length buffer - 1) div tfs_CLUSTER_SIZE + 1
      \<le> length xs + card (free_clusters (cluster_tbl fs))"
  shows "\<exists>ys fs'. tfs_fwrite buffer sz count f fs = Some (count, fs') \<and> grown im (FILE_handle f) xs buffer fs ys fs'"
proof -
  let ?h = "FILE_handle f"
  have "chain (cluster_tbl fs) (fd_first_cluster (file_fs_desc fs ! unat ?h)) xs"
    using assms(3) by (simp add: at_end_def file_at_def)
  from byte_device.room_bound [OF assms(1) this assms(6)] have small: "unat sz * unat count < 2 ^ 32" using assms(4) by simp
  note n = ucast_bytes(1) [OF small]
  from byte_device.write_file_append [OF assms(1-3) _ assms(5,6), of "ucast (sz * count)"] n assms(4)
  obtain ys fs' where w: "tfs_write_file buffer (ucast (sz * count)) ?h fs = Some ((True, ucast (sz * count)), fs')"
      "grown im ?h xs buffer fs ys fs'" by auto
  have "0 < unat sz" using assms(4,5) by (cases "unat sz = 0") auto
  with size_div_elements [OF this n] have "size_div (ucast (ucast (sz * count) :: u32)) sz = Some count" by simp
  with w show ?thesis by (auto simp: tfs_fwrite_def)
qed

subsection \<open>What differs from the standard library\<close>

text \<open>
  Going back to the beginning of a file is refused by the file system and reported as a success: the
  stream stays where it was.
\<close>

theorem rewind_is_ignored:
  assumes "file_at (FILE_handle f) xs fs"
  shows "tiny_fseek f 0 SEEK_SET fs = Some (0, set_err ERR_SEEK_FAILED fs)"
proof -
  let ?i = "unat (FILE_handle f)"
  have f: "unlocked fs" "?i < tfs_MAX_N_OF_FILES" "length (tfs_file_ctl fs) = tfs_MAX_N_OF_FILES" "\<not> ctl_locked (tfs_file_ctl fs ! ?i)"
    using assms by (simp_all add: file_at_def)
  have "(tfs_file_ctl fs ! ?i)\<lparr>ctl_locked := False\<rparr> = tfs_file_ctl fs ! ?i" using f(4) by (cases "tfs_file_ctl fs ! ?i") simp
  then have same: "(tfs_file_ctl fs)[?i := (tfs_file_ctl fs ! ?i)\<lparr>ctl_locked := False\<rparr>] = tfs_file_ctl fs" by simp
  have "tfs_seek_file tfs_SEEK_BEGIN 0 (FILE_handle f) fs = Some (False, set_err ERR_SEEK_FAILED fs)"
    using f same by (simp add: tfs_seek_file_def tfs_lock_file_def tfs_unlock_file_def set_err_def upd_ctl_def)
  then show ?thesis by (simp add: tiny_fseek_def Let_def SEEK_SET_def)
qed

theorem rewind_is_ignored_witness:
  "tiny_fseek \<lparr>FILE_handle = 1, FILE_read_only = True\<rparr> 0 SEEK_SET read_fs = Some (0, set_err ERR_SEEK_FAILED read_fs)"
  by (rule rewind_is_ignored [of _ "[5]"]) (use read_fs_files(2) in simp)

text \<open>At the end of a file \<^verbatim>\<open>fgetc\<close> returns 0, not \<^verbatim>\<open>EOF\<close>.\<close>

lemma fgetc_at_end_is_zero:
  assumes "file_at (FILE_handle f) xs fs"
    "fd_size (file_fs_desc fs ! unat (FILE_handle f)) \<le> ctl_seek_pointer (tfs_file_ctl fs ! unat (FILE_handle f))"
  shows "\<exists>fs'. tfs_fgetc f fs = Some (0, fs')"
proof -
  have f: "unlocked fs" "unat (FILE_handle f) < tfs_MAX_N_OF_FILES" "length (tfs_file_ctl fs) = tfs_MAX_N_OF_FILES"
    "\<not> ctl_locked (tfs_file_ctl fs ! unat (FILE_handle f))"
    using assms(1) by (simp_all add: file_at_def)
  then have "\<exists>fs'. tfs_read_file 1 (FILE_handle f) fs = Some ((False, 1, []), fs') \<and> unlocked fs'"
    using assms(2) by (simp add: tfs_read_file_def tfs_lock_file_def tfs_get_fd_def tfs_get_ctl_def read_fail_def tfs_unlock_file_def
        set_err_def)
  with f(2) show ?thesis by (auto simp: tfs_fgetc_def tfs_fread_def tfs_get_fd_def)
qed

text \<open>A mode with a \<^verbatim>\<open>b\<close> opens nothing.\<close>

lemma fopen_binary_refused: "tfs_fopen name ''rb'' mem fs = Some (None, fs)" "tfs_fopen name ''wb'' mem fs = Some (None, fs)"
  by (simp_all add: tfs_fopen_def)

end
