(* ===== verification/Mipos_Diskio.thy ===== *)
theory Mipos_Diskio
  imports Mipos_Tfs_Types "HOL-Library.Monad_Syntax"
begin

text \<open>
  Disk drivers: the table of registered drivers and the calls it dispatches
  (\<^verbatim>\<open>mipos_diskio.c\<close>), the glue between FatFs and the table (\<^verbatim>\<open>fatfs/diskio.c\<close>), the RAM
  disk of the FatFs example and the disk of the emulated ARM board, whose sectors are those of an image
  file of the host. \<open>'s\<close> is the state behind the drivers; \<open>None\<close> is a fault: a call of a null
  routine or an access outside a buffer.
\<close>

type_synonym octets = "u8 list"

definition MIPOS_DISK_STS_NOINIT :: int where [mip_simps]: "MIPOS_DISK_STS_NOINIT = 1"
definition MIPOS_DISK_STS_NODISK :: int where [mip_simps]: "MIPOS_DISK_STS_NODISK = 2"
definition MIPOS_DISK_RES_OK :: int where [mip_simps]: "MIPOS_DISK_RES_OK = 0"
definition MIPOS_DISK_RES_ERROR :: int where [mip_simps]: "MIPOS_DISK_RES_ERROR = 1"
definition MIPOS_DISK_RES_NOTRDY :: int where [mip_simps]: "MIPOS_DISK_RES_NOTRDY = 3"
definition MIPOS_DISK_RES_INVPAR :: int where [mip_simps]: "MIPOS_DISK_RES_INVPAR = 4"
definition MIPOS_PH_DISK_DRVS :: nat where [mip_simps]: "MIPOS_PH_DISK_DRVS = 1"

definition CTRL_SYNC :: int where [mip_simps]: "CTRL_SYNC = 0"
definition GET_SECTOR_COUNT :: int where [mip_simps]: "GET_SECTOR_COUNT = 1"
definition GET_SECTOR_SIZE :: int where [mip_simps]: "GET_SECTOR_SIZE = 2"
definition GET_BLOCK_SIZE :: int where [mip_simps]: "GET_BLOCK_SIZE = 3"

text \<open>What a control call stores in its buffer.\<close>

datatype ioctl_out = No_out | Out_u16 u16 | Out_u32 u32

type_synonym ('s, 'a) disk_op = "'s \<Rightarrow> ('a \<times> 's) option"

text \<open>
  A read delivers the result code and the bytes it stored at the front of the buffer. The flag of a
  control call tells whether its buffer pointer is not null.
\<close>

record 's mipos_disk =
  disk_pdrv :: u32
  disk_init_fn :: "(u32 \<Rightarrow> ('s, int) disk_op) option"
  disk_status_fn :: "(u32 \<Rightarrow> ('s, int) disk_op) option"
  disk_read_fn :: "(u32 \<Rightarrow> u32 \<Rightarrow> u32 \<Rightarrow> ('s, int \<times> octets) disk_op) option"
  disk_write_fn :: "(u32 \<Rightarrow> octets \<Rightarrow> u32 \<Rightarrow> u32 \<Rightarrow> ('s, int) disk_op) option"
  disk_ioctl_fn :: "(u32 \<Rightarrow> int \<Rightarrow> bool \<Rightarrow> ('s, int \<times> ioctl_out) disk_op) option"

definition null_disk :: "'s mipos_disk" where
  "null_disk = \<lparr>disk_pdrv = 0, disk_init_fn = None, disk_status_fn = None, disk_read_fn = None, disk_write_fn = None,
     disk_ioctl_fn = None\<rparr>"

record 's disk_table =
  disk_drv :: "'s mipos_disk list"
  disk_drv_cnt :: nat

definition empty_table :: "'s disk_table" where
  "empty_table = \<lparr>disk_drv = replicate MIPOS_PH_DISK_DRVS null_disk, disk_drv_cnt = 0\<rparr>"

definition mipos_add_disk_driver :: "'s mipos_disk \<Rightarrow> 's disk_table \<Rightarrow> int \<times> 's disk_table" where
  "mipos_add_disk_driver drv t =
     (if disk_drv_cnt t < MIPOS_PH_DISK_DRVS
      then (0, t\<lparr>disk_drv_cnt := disk_drv_cnt t + 1, disk_drv := (disk_drv t)[disk_drv_cnt t := drv]\<rparr>)
      else (- 1, t))"

text \<open>The loop over the first \<open>cnt\<close> entries.\<close>

fun find_driver_loop :: "'s mipos_disk list \<Rightarrow> u32 \<Rightarrow> nat \<Rightarrow> nat \<Rightarrow> 's mipos_disk option" where
  "find_driver_loop drvs pdrv i 0 = None"
| "find_driver_loop drvs pdrv i (Suc n) =
     (if disk_pdrv (drvs ! i) = pdrv then Some (drvs ! i) else find_driver_loop drvs pdrv (Suc i) n)"

definition mipos_find_disk_driver :: "u32 \<Rightarrow> 's disk_table \<Rightarrow> 's mipos_disk option" where
  "mipos_find_disk_driver pdrv t =
     (if disk_drv_cnt t < 1 then None else find_driver_loop (disk_drv t) pdrv 0 (disk_drv_cnt t))"

definition mipos_disk_status :: "'s disk_table \<Rightarrow> u32 \<Rightarrow> ('s, int) disk_op" where
  "mipos_disk_status t pdrv s =
     (case mipos_find_disk_driver pdrv t of
        None \<Rightarrow> Some (MIPOS_DISK_STS_NOINIT, s)
      | Some d \<Rightarrow> do { f \<leftarrow> disk_status_fn d; f pdrv s })"

definition mipos_disk_init :: "'s disk_table \<Rightarrow> u32 \<Rightarrow> ('s, int) disk_op" where
  "mipos_disk_init t pdrv s =
     (case mipos_find_disk_driver pdrv t of
        None \<Rightarrow> Some (MIPOS_DISK_STS_NOINIT, s)
      | Some d \<Rightarrow> do { f \<leftarrow> disk_init_fn d; f pdrv s })"

definition mipos_disk_read :: "'s disk_table \<Rightarrow> u32 \<Rightarrow> u32 \<Rightarrow> u32 \<Rightarrow> ('s, int \<times> octets) disk_op" where
  "mipos_disk_read t pdrv sec count s =
     (case mipos_find_disk_driver pdrv t of
        None \<Rightarrow> Some ((MIPOS_DISK_RES_NOTRDY, []), s)
      | Some d \<Rightarrow> do { f \<leftarrow> disk_read_fn d; f pdrv sec count s })"

definition mipos_disk_write :: "'s disk_table \<Rightarrow> u32 \<Rightarrow> octets \<Rightarrow> u32 \<Rightarrow> u32 \<Rightarrow> ('s, int) disk_op" where
  "mipos_disk_write t pdrv buf sec count s =
     (case mipos_find_disk_driver pdrv t of
        None \<Rightarrow> Some (MIPOS_DISK_RES_NOTRDY, s)
      | Some d \<Rightarrow> do { f \<leftarrow> disk_write_fn d; f pdrv buf sec count s })"

definition mipos_disk_ioctl :: "'s disk_table \<Rightarrow> u32 \<Rightarrow> int \<Rightarrow> bool \<Rightarrow> ('s, int \<times> ioctl_out) disk_op" where
  "mipos_disk_ioctl t pdrv cmd buf s =
     (case mipos_find_disk_driver pdrv t of
        None \<Rightarrow> Some ((MIPOS_DISK_RES_INVPAR, No_out), s)
      | Some d \<Rightarrow> do { f \<leftarrow> disk_ioctl_fn d; f pdrv cmd buf s })"

subsection \<open>The calls FatFs makes\<close>

text \<open>The status of a drive is cut to a byte.\<close>

definition fatfs_disk_status :: "'s disk_table \<Rightarrow> u8 \<Rightarrow> ('s, u8) disk_op" where
  "fatfs_disk_status t pdrv s = do { (r, s1) \<leftarrow> mipos_disk_status t (ucast pdrv) s; Some (word_of_int r, s1) }"

definition fatfs_disk_initialize :: "'s disk_table \<Rightarrow> u8 \<Rightarrow> ('s, u8) disk_op" where
  "fatfs_disk_initialize t pdrv s = do { (r, s1) \<leftarrow> mipos_disk_init t (ucast pdrv) s; Some (word_of_int r, s1) }"

definition fatfs_disk_read :: "'s disk_table \<Rightarrow> u8 \<Rightarrow> u32 \<Rightarrow> u32 \<Rightarrow> ('s, int \<times> octets) disk_op" where
  "fatfs_disk_read t pdrv sector count = mipos_disk_read t (ucast pdrv) sector count"

definition fatfs_disk_write :: "'s disk_table \<Rightarrow> u8 \<Rightarrow> octets \<Rightarrow> u32 \<Rightarrow> u32 \<Rightarrow> ('s, int) disk_op" where
  "fatfs_disk_write t pdrv buff sector count = mipos_disk_write t (ucast pdrv) buff sector count"

definition fatfs_disk_ioctl :: "'s disk_table \<Rightarrow> u8 \<Rightarrow> u8 \<Rightarrow> bool \<Rightarrow> ('s, int \<times> ioctl_out) disk_op" where
  "fatfs_disk_ioctl t pdrv cmd buff = mipos_disk_ioctl t (ucast pdrv) (uint cmd) buff"

subsection \<open>The RAM disk of the FatFs example\<close>

definition SECTOR_SIZE :: u32 where [mip_simps]: "SECTOR_SIZE = 512"

record fat_ramdisk =
  ramdisk_ptr :: "octets option"
  ramdisk_size :: u64
  ramdisk_disk_status :: int

text \<open>The state before the image is loaded.\<close>

definition no_ramdisk :: fat_ramdisk where
  "no_ramdisk = \<lparr>ramdisk_ptr = None, ramdisk_size = 0, ramdisk_disk_status = MIPOS_DISK_STS_NOINIT\<rparr>"

definition ramdisk_status :: "u32 \<Rightarrow> (fat_ramdisk, int) disk_op" where
  "ramdisk_status pdrv s = Some (if pdrv \<noteq> 0 then MIPOS_DISK_RES_NOTRDY else ramdisk_disk_status s, s)"

text \<open>
  Loading the image: the first argument is the contents of the image file, if the host has it, the second
  tells whether \<^verbatim>\<open>malloc\<close> delivers.
\<close>

definition ramdisk_init :: "octets option \<Rightarrow> bool \<Rightarrow> u32 \<Rightarrow> (fat_ramdisk, int) disk_op" where
  "ramdisk_init file malloc_ok pdrv s =
     (if pdrv \<noteq> 0 then Some (MIPOS_DISK_RES_NOTRDY, s)
      else case file of None \<Rightarrow> Some (MIPOS_DISK_RES_NOTRDY, s)
      | Some bs \<Rightarrow>
          if sint (of_nat (length bs) :: u32) < 1 then Some (MIPOS_DISK_RES_NOTRDY, s)
          else let s1 = s\<lparr>ramdisk_size := of_nat (length bs)\<rparr> in
          if \<not> malloc_ok then Some (MIPOS_DISK_RES_NOTRDY, s1\<lparr>ramdisk_ptr := None\<rparr>)
          else Some (0, s1\<lparr>ramdisk_ptr := Some bs, ramdisk_disk_status := 0\<rparr>))"

text \<open>The part of the RAM disk that a transfer touches; the products are of \<^verbatim>\<open>unsigned int\<close>.\<close>

definition ramdisk_span :: "u32 \<Rightarrow> u32 \<Rightarrow> fat_ramdisk \<Rightarrow> (nat \<times> nat \<times> octets) option" where
  "ramdisk_span sector count s =
     do { bs \<leftarrow> ramdisk_ptr s;
          let start = unat (sector * SECTOR_SIZE);
          let n = unat (count * SECTOR_SIZE);
          if length bs < start + n then None else Some (start, n, bs) }"

definition ramdisk_read :: "u32 \<Rightarrow> u32 \<Rightarrow> u32 \<Rightarrow> (fat_ramdisk, int \<times> octets) disk_op" where
  "ramdisk_read pdrv sector count s =
     (if pdrv \<noteq> 0 \<or> odd (ramdisk_disk_status s) then Some ((MIPOS_DISK_RES_NOTRDY, []), s)
      else do { (start, n, bs) \<leftarrow> ramdisk_span sector count s;
                Some ((MIPOS_DISK_RES_OK, take n (drop start bs)), s) })"

definition ramdisk_write :: "u32 \<Rightarrow> octets \<Rightarrow> u32 \<Rightarrow> u32 \<Rightarrow> (fat_ramdisk, int) disk_op" where
  "ramdisk_write pdrv buf sector count s =
     (if pdrv \<noteq> 0 \<or> odd (ramdisk_disk_status s) then Some (MIPOS_DISK_RES_NOTRDY, s)
      else do { (start, n, bs) \<leftarrow> ramdisk_span sector count s;
                if length buf < n then None
                else Some (MIPOS_DISK_RES_OK,
                  s\<lparr>ramdisk_ptr := Some (take start bs @ take n buf @ drop (start + n) bs)\<rparr>) })"

definition ramdisk_ioctl :: "u32 \<Rightarrow> int \<Rightarrow> bool \<Rightarrow> (fat_ramdisk, int \<times> ioctl_out) disk_op" where
  "ramdisk_ioctl pdrv cmd buf s =
     (if cmd = GET_SECTOR_COUNT then
        if buf then Some ((MIPOS_DISK_RES_OK, Out_u32 (ucast (ramdisk_size s div 512))), s) else None
      else if cmd = GET_BLOCK_SIZE then
        if buf then Some ((MIPOS_DISK_RES_OK, Out_u32 32), s) else None
      else Some ((MIPOS_DISK_RES_OK, No_out), s))"

definition ramdisk_drv :: "octets option \<Rightarrow> bool \<Rightarrow> fat_ramdisk mipos_disk" where
  "ramdisk_drv file malloc_ok = \<lparr>disk_pdrv = 0, disk_init_fn = Some (ramdisk_init file malloc_ok),
     disk_status_fn = Some ramdisk_status, disk_read_fn = Some ramdisk_read, disk_write_fn = Some ramdisk_write,
     disk_ioctl_fn = Some ramdisk_ioctl\<rparr>"

end
