(* ===== verification/Mipos_Hostdisk.thy ===== *)
theory Mipos_Hostdisk
  imports Mipos_Diskio
begin

text \<open>
  The disk of the emulated ARM board (\<^verbatim>\<open>mipos_qemu_hostdisk.c\<close>) over the semihosting calls
  (\<^verbatim>\<open>mipos_qemu_semihosting.c\<close>). The trap to the host is a parameter: a function of the
  operation and its arguments that yields the returned register, the bytes stored in a read buffer
  and the new state of the host. Words are those of the 32-bit board.
\<close>

datatype semihost_args =
    Open_args bytes int nat
  | Handle_args int
  | Seek_args int u32
  | Read_args int u32
  | Write_args int octets u32

type_synonym 'h semihost = "int \<Rightarrow> semihost_args \<Rightarrow> 'h \<Rightarrow> (int \<times> octets) \<times> 'h"

definition SYS_OPEN :: int where [mip_simps]: "SYS_OPEN = 0x01"
definition SYS_CLOSE :: int where [mip_simps]: "SYS_CLOSE = 0x02"
definition SYS_WRITE :: int where [mip_simps]: "SYS_WRITE = 0x05"
definition SYS_READ :: int where [mip_simps]: "SYS_READ = 0x06"
definition SYS_SEEK :: int where [mip_simps]: "SYS_SEEK = 0x0A"
definition SYS_FLEN :: int where [mip_simps]: "SYS_FLEN = 0x0C"
definition MIPOS_QEMU_SEMIHOST_OPEN_RBP :: int where [mip_simps]: "MIPOS_QEMU_SEMIHOST_OPEN_RBP = 3"
definition MIPOS_QEMU_HOSTDISK_SECTOR_SIZE :: u32 where [mip_simps]: "MIPOS_QEMU_HOSTDISK_SECTOR_SIZE = 512"

definition semihost_open :: "'h semihost \<Rightarrow> bytes option \<Rightarrow> int \<Rightarrow> 'h \<Rightarrow> int \<times> 'h" where
  "semihost_open call path mode h =
     (case path of None \<Rightarrow> (- 1, h)
      | Some p \<Rightarrow> (case call SYS_OPEN (Open_args p mode (length p)) h of ((r, _), h1) \<Rightarrow> (r, h1)))"

definition semihost_close :: "'h semihost \<Rightarrow> int \<Rightarrow> 'h \<Rightarrow> int \<times> 'h" where
  "semihost_close call handle h = (case call SYS_CLOSE (Handle_args handle) h of ((r, _), h1) \<Rightarrow> (r, h1))"

definition semihost_seek :: "'h semihost \<Rightarrow> int \<Rightarrow> u32 \<Rightarrow> 'h \<Rightarrow> int \<times> 'h" where
  "semihost_seek call handle pos h = (case call SYS_SEEK (Seek_args handle pos) h of ((r, _), h1) \<Rightarrow> (r, h1))"

definition semihost_flen :: "'h semihost \<Rightarrow> int \<Rightarrow> 'h \<Rightarrow> int \<times> 'h" where
  "semihost_flen call handle h = (case call SYS_FLEN (Handle_args handle) h of ((r, _), h1) \<Rightarrow> (r, h1))"

text \<open>The host returns the number of bytes it did not transfer.\<close>

definition transferred :: "int \<Rightarrow> u32 \<Rightarrow> int" where
  "transferred not_transferred len =
     (if not_transferred < 0 \<or> uint len < not_transferred then - 1
      else sint (len - word_of_int not_transferred))"

definition semihost_read :: "'h semihost \<Rightarrow> int \<Rightarrow> u32 \<Rightarrow> 'h \<Rightarrow> (int \<times> octets) \<times> 'h" where
  "semihost_read call handle len h =
     (case call SYS_READ (Read_args handle len) h of ((r, bs), h1) \<Rightarrow> ((transferred r len, bs), h1))"

definition semihost_write :: "'h semihost \<Rightarrow> int \<Rightarrow> octets \<Rightarrow> u32 \<Rightarrow> 'h \<Rightarrow> int \<times> 'h" where
  "semihost_write call handle buffer len h =
     (case call SYS_WRITE (Write_args handle buffer len) h of ((r, _), h1) \<Rightarrow> (transferred r len, h1))"

record 'h hostdisk =
  g_image_path :: bytes
  g_handle :: int
  g_sector_count :: u32
  g_status :: int
  hd_host :: 'h

definition hostdisk_boot :: "'h \<Rightarrow> 'h hostdisk" where
  "hostdisk_boot h = \<lparr>g_image_path = ''qemu-fatfs.img'', g_handle = - 1, g_sector_count = 0,
     g_status = MIPOS_DISK_STS_NOINIT, hd_host = h\<rparr>"

text \<open>The path is copied into a buffer of 128 bytes and cut to 127.\<close>

definition hostdisk_set_image :: "bytes option \<Rightarrow> 'h hostdisk \<Rightarrow> 'h hostdisk" where
  "hostdisk_set_image path s =
     (case path of None \<Rightarrow> s | Some p \<Rightarrow> if p = [] then s else s\<lparr>g_image_path := take 127 p\<rparr>)"

definition hostdisk_image :: "'h hostdisk \<Rightarrow> bytes" where
  "hostdisk_image s = g_image_path s"

definition hostdisk_status :: "u32 \<Rightarrow> ('h hostdisk, int) disk_op" where
  "hostdisk_status pdrv s = Some (if pdrv \<noteq> 0 then MIPOS_DISK_STS_NODISK else g_status s, s)"

definition hostdisk_init :: "'h semihost \<Rightarrow> u32 \<Rightarrow> ('h hostdisk, int) disk_op" where
  "hostdisk_init call pdrv s =
     (if pdrv \<noteq> 0 then Some (MIPOS_DISK_STS_NODISK, s)
      else if 0 \<le> g_handle s then Some (0, s\<lparr>g_status := 0\<rparr>)
      else
        let (handle, h1) = semihost_open call (Some (g_image_path s)) MIPOS_QEMU_SEMIHOST_OPEN_RBP (hd_host s);
            s1 = s\<lparr>g_handle := handle, hd_host := h1\<rparr> in
        if handle < 0 then Some (MIPOS_DISK_STS_NOINIT, s1\<lparr>g_status := MIPOS_DISK_STS_NOINIT\<rparr>)
        else
          let (image_size, h2) = semihost_flen call handle h1 in
          if image_size \<le> 0 \<or> image_size mod 512 \<noteq> 0
          then let (_, h3) = semihost_close call handle h2 in
            Some (MIPOS_DISK_STS_NOINIT, s1\<lparr>hd_host := h3, g_handle := - 1, g_status := MIPOS_DISK_STS_NOINIT\<rparr>)
          else Some (0, s1\<lparr>hd_host := h2, g_sector_count := word_of_int (image_size div 512), g_status := 0\<rparr>))"

definition hostdisk_check_range :: "u32 \<Rightarrow> u32 \<Rightarrow> 'h hostdisk \<Rightarrow> int" where
  "hostdisk_check_range sector count s =
     (if count = 0 then 0
      else if g_sector_count s \<le> sector \<or> g_sector_count s - sector < count then - 1 else 0)"

definition hostdisk_seek_sector :: "'h semihost \<Rightarrow> u32 \<Rightarrow> 'h hostdisk \<Rightarrow> int \<times> 'h hostdisk" where
  "hostdisk_seek_sector call sector s =
     (case semihost_seek call (g_handle s) (sector * MIPOS_QEMU_HOSTDISK_SECTOR_SIZE) (hd_host s) of
        (r, h1) \<Rightarrow> (r, s\<lparr>hd_host := h1\<rparr>))"

text \<open>The buffers of the calls FatFs makes are never null.\<close>

definition hostdisk_read :: "'h semihost \<Rightarrow> u32 \<Rightarrow> u32 \<Rightarrow> u32 \<Rightarrow> ('h hostdisk, int \<times> octets) disk_op" where
  "hostdisk_read call pdrv sector count s =
     (let n = count * MIPOS_QEMU_HOSTDISK_SECTOR_SIZE in
      if pdrv \<noteq> 0 \<or> odd (g_status s) then Some ((MIPOS_DISK_RES_NOTRDY, []), s)
      else if hostdisk_check_range sector count s \<noteq> 0 then Some ((MIPOS_DISK_RES_INVPAR, []), s)
      else case hostdisk_seek_sector call sector s of (r, s1) \<Rightarrow>
        if r \<noteq> 0 then Some ((MIPOS_DISK_RES_INVPAR, []), s1)
        else case semihost_read call (g_handle s1) n (hd_host s1) of ((k, bs), h2) \<Rightarrow>
          Some ((if k \<noteq> sint n then MIPOS_DISK_RES_ERROR else MIPOS_DISK_RES_OK, bs), s1\<lparr>hd_host := h2\<rparr>))"

definition hostdisk_write :: "'h semihost \<Rightarrow> u32 \<Rightarrow> octets \<Rightarrow> u32 \<Rightarrow> u32 \<Rightarrow> ('h hostdisk, int) disk_op" where
  "hostdisk_write call pdrv buf sector count s =
     (let n = count * MIPOS_QEMU_HOSTDISK_SECTOR_SIZE in
      if pdrv \<noteq> 0 \<or> odd (g_status s) then Some (MIPOS_DISK_RES_NOTRDY, s)
      else if hostdisk_check_range sector count s \<noteq> 0 then Some (MIPOS_DISK_RES_INVPAR, s)
      else case hostdisk_seek_sector call sector s of (r, s1) \<Rightarrow>
        if r \<noteq> 0 then Some (MIPOS_DISK_RES_INVPAR, s1)
        else case semihost_write call (g_handle s1) buf n (hd_host s1) of (k, h2) \<Rightarrow>
          Some (if k \<noteq> sint n then MIPOS_DISK_RES_ERROR else MIPOS_DISK_RES_OK, s1\<lparr>hd_host := h2\<rparr>))"

definition hostdisk_ioctl :: "u32 \<Rightarrow> int \<Rightarrow> bool \<Rightarrow> ('h hostdisk, int \<times> ioctl_out) disk_op" where
  "hostdisk_ioctl pdrv cmd buf s =
     Some (if pdrv \<noteq> 0 \<or> odd (g_status s) then (MIPOS_DISK_RES_NOTRDY, No_out)
       else if cmd = CTRL_SYNC then (MIPOS_DISK_RES_OK, No_out)
       else if cmd = GET_SECTOR_COUNT then
         if \<not> buf then (MIPOS_DISK_RES_INVPAR, No_out) else (MIPOS_DISK_RES_OK, Out_u32 (g_sector_count s))
       else if cmd = GET_SECTOR_SIZE then
         if \<not> buf then (MIPOS_DISK_RES_INVPAR, No_out) else (MIPOS_DISK_RES_OK, Out_u16 512)
       else if cmd = GET_BLOCK_SIZE then
         if \<not> buf then (MIPOS_DISK_RES_INVPAR, No_out) else (MIPOS_DISK_RES_OK, Out_u32 1)
       else (MIPOS_DISK_RES_INVPAR, No_out), s)"

definition hostdisk_driver :: "'h semihost \<Rightarrow> 'h hostdisk mipos_disk" where
  "hostdisk_driver call = \<lparr>disk_pdrv = 0, disk_init_fn = Some (hostdisk_init call), disk_status_fn = Some hostdisk_status,
     disk_read_fn = Some (hostdisk_read call), disk_write_fn = Some (hostdisk_write call), disk_ioctl_fn = Some hostdisk_ioctl\<rparr>"

end
