(* ===== verification/Mipos_Disk_Props.thy ===== *)
theory Mipos_Disk_Props
  imports Mipos_Hostdisk
begin

text \<open>
  What the disk layer promises: which driver a call reaches, and that both disks are arrays of
  sectors that keep what is written. The interface \<open>sector_device\<close> is what FatFs needs of the
  calls it makes.
\<close>

subsection \<open>Dispatch\<close>

lemma find_driver_loop:
  "i + n \<le> length drvs \<Longrightarrow> find_driver_loop drvs p i n = List.find (\<lambda>d. disk_pdrv d = p) (take n (drop i drvs))"
proof (induction n arbitrary: i)
  case (Suc n)
  then have "drop i drvs = drvs ! i # drop (Suc i) drvs" by (simp add: Cons_nth_drop_Suc)
  with Suc show ?case by simp
qed simp

fun register_all :: "'s mipos_disk list \<Rightarrow> 's disk_table \<Rightarrow> int list \<times> 's disk_table" where
  "register_all [] t = ([], t)"
| "register_all (d # ds) t =
     (case mipos_add_disk_driver d t of (r, t1) \<Rightarrow> (case register_all ds t1 of (rs, t2) \<Rightarrow> (r # rs, t2)))"

text \<open>The drivers that the table holds.\<close>

definition accepted :: "'s disk_table \<Rightarrow> 's mipos_disk list" where
  "accepted t = take (disk_drv_cnt t) (disk_drv t)"

lemma add_driver_accepted:
  assumes "length (disk_drv t) = MIPOS_PH_DISK_DRVS" "disk_drv_cnt t \<le> MIPOS_PH_DISK_DRVS" "mipos_add_disk_driver d t = (r, t1)"
  shows "length (disk_drv t1) = MIPOS_PH_DISK_DRVS" "disk_drv_cnt t1 = min MIPOS_PH_DISK_DRVS (Suc (disk_drv_cnt t))"
    "accepted t1 = take MIPOS_PH_DISK_DRVS (accepted t @ [d])" "r = (if disk_drv_cnt t < MIPOS_PH_DISK_DRVS then 0 else - 1)"
proof -
  have "accepted t1 = take MIPOS_PH_DISK_DRVS (accepted t @ [d]) \<and> length (disk_drv t1) = MIPOS_PH_DISK_DRVS \<and>
      disk_drv_cnt t1 = min MIPOS_PH_DISK_DRVS (Suc (disk_drv_cnt t)) \<and> r = (if disk_drv_cnt t < MIPOS_PH_DISK_DRVS then 0 else - 1)"
  proof (cases "disk_drv_cnt t < MIPOS_PH_DISK_DRVS")
    case True
    then have t1: "r = 0" "t1 = t\<lparr>disk_drv_cnt := disk_drv_cnt t + 1, disk_drv := (disk_drv t)[disk_drv_cnt t := d]\<rparr>"
      using assms(3) by (auto simp: mipos_add_disk_driver_def)
    with True assms(1) show ?thesis by (simp add: accepted_def take_Suc_conv_app_nth)
  next
    case False
    then have "t1 = t" "r = - 1" "disk_drv_cnt t = MIPOS_PH_DISK_DRVS"
      using assms(2,3) by (auto simp: mipos_add_disk_driver_def)
    with assms(1) show ?thesis by (simp add: accepted_def)
  qed
  then show "length (disk_drv t1) = MIPOS_PH_DISK_DRVS" "disk_drv_cnt t1 = min MIPOS_PH_DISK_DRVS (Suc (disk_drv_cnt t))"
    "accepted t1 = take MIPOS_PH_DISK_DRVS (accepted t @ [d])" "r = (if disk_drv_cnt t < MIPOS_PH_DISK_DRVS then 0 else - 1)" by auto
qed

lemma take_take_append: "take n (take n xs @ ys) = take n (xs @ ys)"
  by (cases "n \<le> length xs") auto

lemma register_all_spec:
  assumes "length (disk_drv t) = MIPOS_PH_DISK_DRVS" "disk_drv_cnt t \<le> MIPOS_PH_DISK_DRVS" "register_all ds t = (rs, t')"
  shows "length (disk_drv t') = MIPOS_PH_DISK_DRVS \<and> disk_drv_cnt t' = min MIPOS_PH_DISK_DRVS (disk_drv_cnt t + length ds) \<and>
    accepted t' = take MIPOS_PH_DISK_DRVS (accepted t @ ds) \<and>
    rs = map (\<lambda>i. if disk_drv_cnt t + i < MIPOS_PH_DISK_DRVS then 0 else - 1) [0..<length ds]"
  using assms
proof (induction ds arbitrary: t rs)
  case Nil
  then show ?case by (auto simp: min_def accepted_def)
next
  case (Cons d ds)
  obtain r t1 rs1 where s: "mipos_add_disk_driver d t = (r, t1)" "register_all ds t1 = (rs1, t')" "rs = r # rs1"
    using Cons.prems(3) by (auto split: prod.splits)
  note a = add_driver_accepted [OF Cons.prems(1,2) s(1)]
  have upt: "map f [0..<length (d # ds)] = f 0 # map (\<lambda>i. f (Suc i)) [0..<length ds]" for f :: "nat \<Rightarrow> int"
    by (simp add: upt_conv_Cons map_Suc_upt [symmetric] del: upt_Suc)
  have "disk_drv_cnt t1 \<le> MIPOS_PH_DISK_DRVS" using a(2) by simp
  note ih = Cons.IH [OF a(1) this s(2)]
  have acc: "take MIPOS_PH_DISK_DRVS (accepted t1 @ ds) = take MIPOS_PH_DISK_DRVS (accepted t @ d # ds)"
    unfolding a(3) take_take_append by simp
  have "(\<lambda>i. if disk_drv_cnt t1 + i < MIPOS_PH_DISK_DRVS then 0 else - 1 :: int) =
      (\<lambda>i. if disk_drv_cnt t + Suc i < MIPOS_PH_DISK_DRVS then 0 else - 1)" using a(2) by (auto simp: min_def)
  then have "rs = map (\<lambda>i. if disk_drv_cnt t + i < MIPOS_PH_DISK_DRVS then 0 else - 1) [0..<length (d # ds)]"
    unfolding upt s(3) a(4) using ih by (simp only: add_0_right)
  moreover have "disk_drv_cnt t' = min MIPOS_PH_DISK_DRVS (disk_drv_cnt t + length (d # ds))"
    using ih a(2) Cons.prems(2) by (auto simp: min_def)
  ultimately show ?case using ih acc by auto
qed

text \<open>
  From the empty table, registrations are accepted until the table is full and refused with -1 from then on;
  a call for a drive reaches the first accepted driver with that number, and without one it is answered with the
  code of a drive that is not there. No driver is ever displaced.
\<close>

theorem disk_dispatch:
  assumes "register_all ds empty_table = (rs, t)"
    and "found = List.find (\<lambda>d. disk_pdrv d = p) (take MIPOS_PH_DISK_DRVS ds)"
  shows "rs = map (\<lambda>i. if i < MIPOS_PH_DISK_DRVS then 0 else - 1) [0..<length ds] \<and>
    mipos_find_disk_driver p t = found \<and>
    mipos_disk_read t p sec count s =
      (case found of None \<Rightarrow> Some ((MIPOS_DISK_RES_NOTRDY, []), s) | Some d \<Rightarrow> do { f \<leftarrow> disk_read_fn d; f p sec count s }) \<and>
    mipos_disk_write t p buf sec count s =
      (case found of None \<Rightarrow> Some (MIPOS_DISK_RES_NOTRDY, s) | Some d \<Rightarrow> do { f \<leftarrow> disk_write_fn d; f p buf sec count s })"
proof -
  have r: "length (disk_drv t) = MIPOS_PH_DISK_DRVS" "disk_drv_cnt t = min MIPOS_PH_DISK_DRVS (length ds)"
    "accepted t = take MIPOS_PH_DISK_DRVS ds"
    "rs = map (\<lambda>i. if i < MIPOS_PH_DISK_DRVS then 0 else - 1) [0..<length ds]"
    using register_all_spec [OF _ _ assms(1)] by (simp_all add: empty_table_def) (simp add: accepted_def)
  have "find_driver_loop (disk_drv t) p 0 (disk_drv_cnt t) = found"
    using find_driver_loop [of 0 "disk_drv_cnt t" "disk_drv t" p] r(1-3) assms(2) by (simp add: accepted_def)
  then have f: "mipos_find_disk_driver p t = found"
    using r(2) assms(2) by (cases ds) (auto simp: mipos_find_disk_driver_def mip_simps)
  show ?thesis by (intro conjI) (simp_all only: r(4) f mipos_disk_read_def mipos_disk_write_def)
qed

theorem disk_dispatch_witness:
  "mipos_find_disk_driver 0 (snd (register_all [ramdisk_drv None True, null_disk] empty_table)) = Some (ramdisk_drv None True) \<and>
   fst (register_all [ramdisk_drv None True, null_disk] empty_table) = [0, - 1]"
proof -
  obtain rs t where r: "register_all [ramdisk_drv None True, null_disk] empty_table = (rs, t)" by (metis surj_pair)
  from disk_dispatch [OF r refl] have
    "rs = map (\<lambda>i. if i < MIPOS_PH_DISK_DRVS then 0 else - 1) [0..<length [ramdisk_drv None True, null_disk]]"
    "mipos_find_disk_driver 0 t = List.find (\<lambda>d. disk_pdrv d = 0) (take MIPOS_PH_DISK_DRVS [ramdisk_drv None True, null_disk])"
    by blast+
  with r show ?thesis by (simp add: ramdisk_drv_def mip_simps)
qed

subsection \<open>Arrays of sectors\<close>

locale sector_device =
  fixes t :: "'s disk_table" and pdrv :: u8 and ready :: "'s \<Rightarrow> bool" and sectors :: "'s \<Rightarrow> octets list"
  assumes sector_size: "ready s \<Longrightarrow> b \<in> set (sectors s) \<Longrightarrow> length b = 512"
    and reads: "ready s \<Longrightarrow> unat n < length (sectors s) \<Longrightarrow>
      \<exists>s'. fatfs_disk_read t pdrv n 1 s = Some ((MIPOS_DISK_RES_OK, sectors s ! unat n), s') \<and> ready s' \<and> sectors s' = sectors s"
    and writes: "ready s \<Longrightarrow> unat n < length (sectors s) \<Longrightarrow> length b = 512 \<Longrightarrow>
      \<exists>s'. fatfs_disk_write t pdrv b n 1 s = Some (MIPOS_DISK_RES_OK, s') \<and> ready s' \<and> sectors s' = (sectors s)[unat n := b]"
    and syncs: "ready s \<Longrightarrow>
      \<exists>s' out. fatfs_disk_ioctl t pdrv 0 False s = Some ((MIPOS_DISK_RES_OK, out), s') \<and> ready s' \<and> sectors s' = sectors s"

text \<open>The sectors of an image.\<close>

definition sector_at :: "octets \<Rightarrow> nat \<Rightarrow> octets" where
  "sector_at bs i = take 512 (drop (512 * i) bs)"

definition image_sectors :: "octets \<Rightarrow> octets list" where
  "image_sectors bs = map (sector_at bs) [0..<length bs div 512]"

lemma length_sector_at: "i < length bs div 512 \<Longrightarrow> length (sector_at bs i) = 512"
proof -
  assume "i < length bs div 512"
  then have "512 * i + 512 \<le> length bs" by simp
  then show ?thesis by (simp add: sector_at_def)
qed

lemma image_sectors_size: "b \<in> set (image_sectors bs) \<Longrightarrow> length b = 512"
  by (auto simp: image_sectors_def length_sector_at)

lemma image_sectors_update:
  assumes "i < length bs div 512" "length b = 512"
  shows "image_sectors (take (512 * i) bs @ b @ drop (512 * i + 512) bs) = (image_sectors bs)[i := b]"
proof (rule nth_equalityI)
  have le: "512 * i + 512 \<le> length bs" using assms(1) by simp
  then have len: "length (take (512 * i) bs @ b @ drop (512 * i + 512) bs) = length bs" using assms(2) by simp
  then show "length (image_sectors (take (512 * i) bs @ b @ drop (512 * i + 512) bs)) = length ((image_sectors bs)[i := b])"
    by (simp only: image_sectors_def length_map length_upt length_list_update)
  fix j assume "j < length (image_sectors (take (512 * i) bs @ b @ drop (512 * i + 512) bs))"
  then have j: "j < length bs div 512" using len by (simp only: image_sectors_def length_map length_upt)
  consider "j < i" | "j = i" | "i < j" by linarith
  then have "sector_at (take (512 * i) bs @ b @ drop (512 * i + 512) bs) j = (if j = i then b else sector_at bs j)"
  proof cases
    case 1
    then have "512 * j + 512 \<le> 512 * i" by simp
    with 1 le show ?thesis by (simp add: sector_at_def drop_take)
  next
    case 2
    with le assms(2) show ?thesis by (simp add: sector_at_def)
  next
    case 3
    then have "512 * i + 512 \<le> 512 * j" by simp
    with 3 le assms(2) show ?thesis by (simp add: sector_at_def)
  qed
  with j len show "image_sectors (take (512 * i) bs @ b @ drop (512 * i + 512) bs) ! j = (image_sectors bs)[i := b] ! j"
    by (simp add: image_sectors_def nth_list_update)
qed

subsection \<open>The RAM disk\<close>

definition ram_table :: "fat_ramdisk disk_table" where
  "ram_table = snd (mipos_add_disk_driver (ramdisk_drv None True) empty_table)"

definition ram_ready :: "fat_ramdisk \<Rightarrow> bool" where
  "ram_ready s \<longleftrightarrow> ramdisk_disk_status s = 0 \<and> (\<exists>bs. ramdisk_ptr s = Some bs \<and> length bs < 2 ^ 32)"

definition ram_sectors :: "fat_ramdisk \<Rightarrow> octets list" where
  "ram_sectors s = (case ramdisk_ptr s of None \<Rightarrow> [] | Some bs \<Rightarrow> image_sectors bs)"

lemma found_ram: "mipos_find_disk_driver 0 ram_table = Some (ramdisk_drv None True)"
  by (simp add: ram_table_def mipos_add_disk_driver_def mipos_find_disk_driver_def empty_table_def ramdisk_drv_def mip_simps)

lemma sector_offset: "unat (n :: u32) < len div 512 \<Longrightarrow> len < 2 ^ 32 \<Longrightarrow> unat (n * 512) = 512 * unat n"
  by (simp add: unat_word_ariths)

lemma ram_span:
  assumes "ramdisk_ptr s = Some bs" "length bs < 2 ^ 32" "unat n < length bs div 512"
  shows "ramdisk_span n 1 s = Some (512 * unat n, 512, bs)"
  using assms sector_offset [OF assms(3,2)] by (simp add: ramdisk_span_def Let_def mip_simps)

interpretation ramdev: sector_device ram_table 0 ram_ready ram_sectors
proof
  fix s b assume "ram_ready s" "b \<in> set (ram_sectors s)"
  then show "length b = 512" by (auto simp: ram_sectors_def image_sectors_size split: option.splits)
next
  fix s and n :: u32 assume a: "ram_ready s" "unat n < length (ram_sectors s)"
  then obtain bs where bs: "ramdisk_ptr s = Some bs" "length bs < 2 ^ 32" "unat n < length bs div 512" "ramdisk_disk_status s = 0"
    by (auto simp: ram_ready_def ram_sectors_def image_sectors_def)
  from ram_span [OF bs(1-3)] bs a show "\<exists>s'. fatfs_disk_read ram_table 0 n 1 s = Some ((MIPOS_DISK_RES_OK, ram_sectors s ! unat n), s') \<and>
      ram_ready s' \<and> ram_sectors s' = ram_sectors s"
    by (simp add: fatfs_disk_read_def mipos_disk_read_def found_ram ramdisk_drv_def ramdisk_read_def ram_sectors_def image_sectors_def
        sector_at_def)
next
  fix s and n :: u32 and b :: octets assume a: "ram_ready s" "unat n < length (ram_sectors s)" "length b = 512"
  then obtain bs where bs: "ramdisk_ptr s = Some bs" "length bs < 2 ^ 32" "unat n < length bs div 512" "ramdisk_disk_status s = 0"
    by (auto simp: ram_ready_def ram_sectors_def image_sectors_def)
  let ?bs = "take (512 * unat n) bs @ b @ drop (512 * unat n + 512) bs"
  have w: "fatfs_disk_write ram_table 0 b n 1 s = Some (MIPOS_DISK_RES_OK, s\<lparr>ramdisk_ptr := Some ?bs\<rparr>)"
    using ram_span [OF bs(1-3)] bs a(3)
    by (simp add: fatfs_disk_write_def mipos_disk_write_def found_ram ramdisk_drv_def ramdisk_write_def)
  have "512 * unat n + 512 \<le> length bs" using bs(3) by simp
  then have "ram_ready (s\<lparr>ramdisk_ptr := Some ?bs\<rparr>)" using bs(2,4) a(3) by (simp add: ram_ready_def)
  moreover have "ram_sectors (s\<lparr>ramdisk_ptr := Some ?bs\<rparr>) = (ram_sectors s)[unat n := b]"
    using image_sectors_update [OF bs(3) a(3)] bs(1) by (simp add: ram_sectors_def)
  ultimately show "\<exists>s'. fatfs_disk_write ram_table 0 b n 1 s = Some (MIPOS_DISK_RES_OK, s') \<and> ram_ready s' \<and>
      ram_sectors s' = (ram_sectors s)[unat n := b]" using w by blast
next
  fix s assume "ram_ready s"
  then show "\<exists>s' out. fatfs_disk_ioctl ram_table 0 0 False s = Some ((MIPOS_DISK_RES_OK, out), s') \<and> ram_ready s' \<and>
      ram_sectors s' = ram_sectors s"
    by (simp add: fatfs_disk_ioctl_def mipos_disk_ioctl_def found_ram ramdisk_drv_def ramdisk_ioctl_def mip_simps)
qed

subsection \<open>The disk on the host\<close>

text \<open>
  What the semihosting interface documents of an open file: seeking inside the file sets the position
  and returns 0; reading and writing move the bytes at the position and return the number of those not moved.
\<close>

definition host_file :: "'h semihost \<Rightarrow> int \<Rightarrow> ('h \<Rightarrow> octets) \<Rightarrow> ('h \<Rightarrow> nat) \<Rightarrow> bool" where
  "host_file call handle contents pos \<longleftrightarrow>
     (\<forall>h p. unat p \<le> length (contents h) \<longrightarrow>
        (\<exists>h' d. call SYS_SEEK (Seek_args handle p) h = ((0, d), h') \<and> contents h' = contents h \<and> pos h' = unat p)) \<and>
     (\<forall>h n. pos h + unat n \<le> length (contents h) \<longrightarrow>
        (\<exists>h'. call SYS_READ (Read_args handle n) h = ((0, take (unat n) (drop (pos h) (contents h))), h') \<and>
           contents h' = contents h)) \<and>
     (\<forall>h n b. pos h + unat n \<le> length (contents h) \<and> length b = unat n \<longrightarrow>
        (\<exists>h' d. call SYS_WRITE (Write_args handle b n) h = ((0, d), h') \<and>
           contents h' = take (pos h) (contents h) @ b @ drop (pos h + unat n) (contents h)))"

definition host_table :: "'h semihost \<Rightarrow> 'h hostdisk disk_table" where
  "host_table call = snd (mipos_add_disk_driver (hostdisk_driver call) empty_table)"

text \<open>An initialised disk on an image of whole sectors.\<close>

definition host_ready :: "int \<Rightarrow> ('h \<Rightarrow> octets) \<Rightarrow> 'h hostdisk \<Rightarrow> bool" where
  "host_ready handle contents s \<longleftrightarrow> g_status s = 0 \<and> g_handle s = handle \<and> length (contents (hd_host s)) < 2 ^ 31 \<and>
     unat (g_sector_count s) = length (contents (hd_host s)) div 512"

lemma found_host: "mipos_find_disk_driver 0 (host_table call) = Some (hostdisk_driver call)"
  by (simp add: host_table_def mipos_add_disk_driver_def mipos_find_disk_driver_def empty_table_def hostdisk_driver_def mip_simps)

lemma host_seek:
  assumes "host_file call handle contents pos" "host_ready handle contents s" "unat n < length (contents (hd_host s)) div 512"
  shows "hostdisk_check_range n 1 s = 0"
    and "\<exists>h'. hostdisk_seek_sector call n s = (0, s\<lparr>hd_host := h'\<rparr>) \<and> contents h' = contents (hd_host s) \<and> pos h' = 512 * unat n"
proof -
  let ?len = "length (contents (hd_host s))"
  have r: "g_handle s = handle" "?len < 2 ^ 31" "unat (g_sector_count s) = ?len div 512" using assms(2) by (auto simp: host_ready_def)
  have lt: "n < g_sector_count s" using assms(3) r(3) by (simp add: word_less_nat_alt)
  then have "unat (g_sector_count s - n) = unat (g_sector_count s) - unat n" by (simp add: unat_sub order_less_imp_le)
  with lt have "1 \<le> g_sector_count s - n" by (simp add: word_le_nat_alt word_less_nat_alt)
  with lt show "hostdisk_check_range n 1 s = 0" by (auto simp: hostdisk_check_range_def)
  have off: "unat (n * 512) = 512 * unat n" using sector_offset [OF assms(3)] r(2) by simp
  then have "unat (n * 512) \<le> ?len" using assms(3) by simp
  with assms(1) obtain h' d where "call SYS_SEEK (Seek_args handle (n * 512)) (hd_host s) = ((0, d), h')"
      "contents h' = contents (hd_host s)" "pos h' = 512 * unat n"
    unfolding host_file_def using off by metis
  with r(1) show "\<exists>h'. hostdisk_seek_sector call n s = (0, s\<lparr>hd_host := h'\<rparr>) \<and> contents h' = contents (hd_host s) \<and> pos h' = 512 * unat n"
    by (auto simp: hostdisk_seek_sector_def semihost_seek_def MIPOS_QEMU_HOSTDISK_SECTOR_SIZE_def)
qed

lemma host_reads:
  assumes "host_file call handle contents pos" "host_ready handle contents s" "unat n < length (contents (hd_host s)) div 512"
  shows "\<exists>h'. hostdisk_read call 0 n 1 s = Some ((MIPOS_DISK_RES_OK, sector_at (contents (hd_host s)) (unat n)), s\<lparr>hd_host := h'\<rparr>) \<and>
    contents h' = contents (hd_host s)"
proof -
  obtain h1 where k: "hostdisk_seek_sector call n s = (0, s\<lparr>hd_host := h1\<rparr>)" "contents h1 = contents (hd_host s)"
      "pos h1 = 512 * unat n" using host_seek(2) [OF assms] by blast
  have u: "unat (512 :: u32) = 512" by simp
  have "pos h1 + unat (512 :: u32) \<le> length (contents h1)" using k(2,3) assms(3) by simp
  then obtain h2 where "call SYS_READ (Read_args handle 512) h1 = ((0, take 512 (drop (512 * unat n) (contents (hd_host s)))), h2)"
      "contents h2 = contents (hd_host s)"
    using assms(1) k(2,3) u unfolding host_file_def by metis
  with k(1) host_seek(1) [OF assms] assms(2) show ?thesis
    by (auto simp: hostdisk_read_def host_ready_def semihost_read_def transferred_def sector_at_def mip_simps)
qed

lemma host_writes:
  assumes "host_file call handle contents pos" "host_ready handle contents s" "unat n < length (contents (hd_host s)) div 512"
    "length b = 512"
  shows "\<exists>h'. hostdisk_write call 0 b n 1 s = Some (MIPOS_DISK_RES_OK, s\<lparr>hd_host := h'\<rparr>) \<and>
    contents h' = take (512 * unat n) (contents (hd_host s)) @ b @ drop (512 * unat n + 512) (contents (hd_host s))"
proof -
  obtain h1 where k: "hostdisk_seek_sector call n s = (0, s\<lparr>hd_host := h1\<rparr>)" "contents h1 = contents (hd_host s)"
      "pos h1 = 512 * unat n" using host_seek(2) [OF assms(1-3)] by blast
  have u: "unat (512 :: u32) = 512" by simp
  have "pos h1 + unat (512 :: u32) \<le> length (contents h1) \<and> length b = unat (512 :: u32)" using k(2,3) assms(3,4) by simp
  then obtain h2 d where "call SYS_WRITE (Write_args handle b 512) h1 = ((0, d), h2)"
      "contents h2 = take (512 * unat n) (contents (hd_host s)) @ b @ drop (512 * unat n + 512) (contents (hd_host s))"
    using assms(1) k(2,3) u unfolding host_file_def by metis
  with k(1) host_seek(1) [OF assms(1-3)] assms(2) show ?thesis
    by (auto simp: hostdisk_write_def host_ready_def semihost_write_def transferred_def mip_simps)
qed

text \<open>
  The disk of the board is an array of sectors: with a host whose files behave as documented, every
  sector of the image can be read and written through the driver table, a write changes exactly that
  sector of the image file, and nothing else is touched.
\<close>

lemma host_sector_device:
  assumes "host_file call handle contents pos"
  shows "sector_device (host_table call) 0 (host_ready handle contents) (\<lambda>s. image_sectors (contents (hd_host s)))"
proof
  fix s :: "'a hostdisk" and b :: octets assume "b \<in> set (image_sectors (contents (hd_host s)))"
  then show "length b = 512" by (rule image_sectors_size)
next
  fix s :: "'a hostdisk" and n :: u32
  assume a: "host_ready handle contents s" "unat n < length (image_sectors (contents (hd_host s)))"
  then have "unat n < length (contents (hd_host s)) div 512" by (simp add: image_sectors_def)
  from host_reads [OF assms a(1) this] this a(1)
  show "\<exists>s'. fatfs_disk_read (host_table call) 0 n 1 s = Some ((MIPOS_DISK_RES_OK, image_sectors (contents (hd_host s)) ! unat n), s') \<and>
      host_ready handle contents s' \<and> image_sectors (contents (hd_host s')) = image_sectors (contents (hd_host s))"
    by (auto simp: fatfs_disk_read_def mipos_disk_read_def found_host hostdisk_driver_def image_sectors_def host_ready_def)
next
  fix s :: "'a hostdisk" and n :: u32 and b :: octets
  assume a: "host_ready handle contents s" "unat n < length (image_sectors (contents (hd_host s)))" "length b = 512"
  then have n: "unat n < length (contents (hd_host s)) div 512" by (simp add: image_sectors_def)
  from host_writes [OF assms a(1) n a(3)] obtain h' where
      w: "hostdisk_write call 0 b n 1 s = Some (MIPOS_DISK_RES_OK, s\<lparr>hd_host := h'\<rparr>)"
      "contents h' = take (512 * unat n) (contents (hd_host s)) @ b @ drop (512 * unat n + 512) (contents (hd_host s))" by blast
  have "512 * unat n + 512 \<le> length (contents (hd_host s))" using n by simp
  then have "length (contents h') = length (contents (hd_host s))" using w(2) a(3) by simp
  with w image_sectors_update [OF n a(3)] a(1)
  show "\<exists>s'. fatfs_disk_write (host_table call) 0 b n 1 s = Some (MIPOS_DISK_RES_OK, s') \<and> host_ready handle contents s' \<and>
      image_sectors (contents (hd_host s')) = (image_sectors (contents (hd_host s)))[unat n := b]"
    by (intro exI [of _ "s\<lparr>hd_host := h'\<rparr>"])
      (simp add: fatfs_disk_write_def mipos_disk_write_def found_host hostdisk_driver_def host_ready_def)
next
  fix s :: "'a hostdisk" assume "host_ready handle contents s"
  then show "\<exists>s' out. fatfs_disk_ioctl (host_table call) 0 0 False s = Some ((MIPOS_DISK_RES_OK, out), s') \<and>
      host_ready handle contents s' \<and> image_sectors (contents (hd_host s')) = image_sectors (contents (hd_host s))"
    by (simp add: fatfs_disk_ioctl_def mipos_disk_ioctl_def found_host hostdisk_driver_def hostdisk_ioctl_def host_ready_def mip_simps)
qed

text \<open>A host with one file: its bytes and the position in it.\<close>

fun one_file_host :: "(octets \<times> nat) semihost" where
  "one_file_host op (Seek_args fd p) (bs, k) = ((0, []), (bs, unat p))"
| "one_file_host op (Read_args fd n) (bs, k) = ((0, take (unat n) (drop k bs)), (bs, k + unat n))"
| "one_file_host op (Write_args fd b n) (bs, k) = ((0, []), (take k bs @ b @ drop (k + unat n) bs, k + unat n))"
| "one_file_host op (Handle_args fd) (bs, k) = ((if op = SYS_FLEN then int (length bs) else 0, []), (bs, k))"
| "one_file_host op (Open_args p m l) (bs, k) = ((1, []), (bs, k))"

lemma one_file_host_file: "host_file one_file_host 1 fst snd"
  by (simp add: host_file_def split_paired_all)

lemma hostdisk_init_ready:
  "map_option (\<lambda>(r, s). (r, host_ready 1 fst s)) (hostdisk_init one_file_host 0 (hostdisk_boot (replicate 1024 0, 0))) = Some (0, True)"
  by (simp add: hostdisk_init_def hostdisk_boot_def semihost_open_def semihost_flen_def host_ready_def mip_simps)

end
