(* ===== verification/Mipos_Fat.thy ===== *)
theory Mipos_Fat
  imports Mipos_Disk_Props
begin

text \<open>
  The core of FatFs (\<^verbatim>\<open>fatfs/ff.c\<close>) in the configuration of \<^verbatim>\<open>ffconf.h\<close>: 512-byte sectors, one volume,
  no long names, no exFAT. A volume is the \<^verbatim>\<open>FATFS\<close> structure together with the driver table and the
  state of the device its calls reach; \<open>None\<close> is a fault of a driver or an endless loop.
  \<^verbatim>\<open>DWORD\<close> has 32 bits, as \<^verbatim>\<open>integer.h\<close> demands.
\<close>

unbundle bit_operations_syntax

definition SS :: nat where [mip_simps]: "SS = 512"
definition FS_FAT12 :: u8 where [mip_simps]: "FS_FAT12 = 1"
definition FS_FAT16 :: u8 where [mip_simps]: "FS_FAT16 = 2"
definition FS_FAT32 :: u8 where [mip_simps]: "FS_FAT32 = 3"

datatype FRESULT =
    FR_OK | FR_DISK_ERR | FR_INT_ERR | FR_NOT_READY | FR_NO_FILE | FR_NO_PATH | FR_INVALID_NAME | FR_DENIED | FR_EXIST
  | FR_INVALID_OBJECT | FR_WRITE_PROTECTED | FR_INVALID_DRIVE | FR_NOT_ENABLED | FR_NO_FILESYSTEM | FR_MKFS_ABORTED
  | FR_TIMEOUT | FR_LOCKED | FR_NOT_ENOUGH_CORE | FR_TOO_MANY_OPEN_FILES | FR_INVALID_PARAMETER

record 's FATFS =
  fs_type :: u8
  fs_pdrv :: u8
  n_fats :: u8
  wflag :: bool
  fsi_flag :: u8
  fs_id :: u16
  n_rootdir :: u16
  csize :: u16
  last_clst :: u32
  free_clst :: u32
  n_fatent :: u32
  fsize :: u32
  volbase :: u32
  fatbase :: u32
  dirbase :: u32
  fs_database :: u32
  winsect :: u32
  win :: octets
  fs_table :: "'s disk_table"
  fs_dev :: 's

type_synonym ('s, 'a) fat_op = "'s FATFS \<Rightarrow> ('a \<times> 's FATFS) option"

subsection \<open>Words in memory\<close>

definition ld_word :: "octets \<Rightarrow> u16" where
  "ld_word ptr = push_bit 8 (ucast (ptr ! 1)) OR ucast (ptr ! 0)"

definition ld_dword :: "octets \<Rightarrow> u32" where
  "ld_dword ptr = push_bit 8 (push_bit 8 (push_bit 8 (ucast (ptr ! 3)) OR ucast (ptr ! 2)) OR ucast (ptr ! 1)) OR ucast (ptr ! 0)"

text \<open>Both store into a buffer from an offset on.\<close>

definition st_word :: "octets \<Rightarrow> nat \<Rightarrow> u16 \<Rightarrow> octets" where
  "st_word buf i val = buf[i := ucast val, i + 1 := ucast (drop_bit 8 val)]"

definition st_dword :: "octets \<Rightarrow> nat \<Rightarrow> u32 \<Rightarrow> octets" where
  "st_dword buf i val = buf[i := ucast val, i + 1 := ucast (drop_bit 8 val), i + 2 := ucast (drop_bit 8 (drop_bit 8 val)),
     i + 3 := ucast (drop_bit 8 (drop_bit 8 (drop_bit 8 val)))]"

subsection \<open>The window\<close>

definition fat_write :: "octets \<Rightarrow> u32 \<Rightarrow> ('s, int) fat_op" where
  "fat_write b sector fs =
     do { (r, d) \<leftarrow> fatfs_disk_write (fs_table fs) (fs_pdrv fs) b sector 1 (fs_dev fs); Some (r, fs\<lparr>fs_dev := d\<rparr>) }"

text \<open>A read overwrites the front of the buffer with what the driver delivers.\<close>

definition fat_read :: "octets \<Rightarrow> u32 \<Rightarrow> ('s, int \<times> octets) fat_op" where
  "fat_read buf sector fs =
     do { ((r, bs), d) \<leftarrow> fatfs_disk_read (fs_table fs) (fs_pdrv fs) sector 1 (fs_dev fs);
          Some ((r, bs @ drop (length bs) buf), fs\<lparr>fs_dev := d\<rparr>) }"

definition sync_window :: "('s, FRESULT) fat_op" where
  "sync_window fs =
     (if \<not> wflag fs then Some (FR_OK, fs)
      else do {
        (r, fs1) \<leftarrow> fat_write (win fs) (winsect fs) fs;
        if r \<noteq> MIPOS_DISK_RES_OK then Some (FR_DISK_ERR, fs1)
        else do {
          let fs2 = fs1\<lparr>wflag := False\<rparr>;
          if winsect fs - fatbase fs < fsize fs \<and> n_fats fs = 2
          then do { (_, fs3) \<leftarrow> fat_write (win fs) (winsect fs + fsize fs) fs2; Some (FR_OK, fs3) }
          else Some (FR_OK, fs2)
        }
      })"

definition move_window :: "u32 \<Rightarrow> ('s, FRESULT) fat_op" where
  "move_window sector fs =
     (if sector = winsect fs then Some (FR_OK, fs)
      else do {
        (res, fs1) \<leftarrow> sync_window fs;
        if res \<noteq> FR_OK then Some (res, fs1)
        else do {
          ((r, bs), fs2) \<leftarrow> fat_read (win fs1) sector fs1;
          if r \<noteq> MIPOS_DISK_RES_OK then Some (FR_DISK_ERR, fs2\<lparr>win := bs, winsect := 0xFFFFFFFF\<rparr>)
          else Some (FR_OK, fs2\<lparr>win := bs, winsect := sector\<rparr>)
        }
      })"

definition FSI_LeadSig :: nat where [mip_simps]: "FSI_LeadSig = 0"
definition FSI_StrucSig :: nat where [mip_simps]: "FSI_StrucSig = 484"
definition FSI_Free_Count :: nat where [mip_simps]: "FSI_Free_Count = 488"
definition FSI_Nxt_Free :: nat where [mip_simps]: "FSI_Nxt_Free = 492"
definition BS_55AA :: nat where [mip_simps]: "BS_55AA = 510"

text \<open>The FSInfo sector that \<^verbatim>\<open>sync_fs\<close> builds in the window.\<close>

definition fsinfo_sector :: "u32 \<Rightarrow> u32 \<Rightarrow> octets" where
  "fsinfo_sector free last_c =
     st_dword (st_dword (st_dword (st_dword (st_word (replicate SS 0) BS_55AA 0xAA55)
       FSI_LeadSig 0x41615252) FSI_StrucSig 0x61417272) FSI_Free_Count free) FSI_Nxt_Free last_c"

definition write_fsinfo :: "'s FATFS \<Rightarrow> 's FATFS option" where
  "write_fsinfo fs =
     (if fs_type fs = FS_FAT32 \<and> fsi_flag fs = 1
      then do { let w = fsinfo_sector (free_clst fs) (last_clst fs);
                (_, fs1) \<leftarrow> fat_write w (volbase fs + 1) (fs\<lparr>win := w, winsect := volbase fs + 1\<rparr>);
                Some (fs1\<lparr>fsi_flag := 0\<rparr>) }
      else Some fs)"

definition sync_fs :: "('s, FRESULT) fat_op" where
  "sync_fs fs =
     do { (res, fs1) \<leftarrow> sync_window fs;
          if res \<noteq> FR_OK then Some (res, fs1)
          else do {
            fs2 \<leftarrow> write_fsinfo fs1;
            ((r, _), d) \<leftarrow> fatfs_disk_ioctl (fs_table fs2) (fs_pdrv fs2) (word_of_int CTRL_SYNC) False (fs_dev fs2);
            Some (if r \<noteq> MIPOS_DISK_RES_OK then FR_DISK_ERR else FR_OK, fs2\<lparr>fs_dev := d\<rparr>)
          } }"

subsection \<open>The file allocation table\<close>

definition clst2sect :: "'s FATFS \<Rightarrow> u32 \<Rightarrow> u32" where
  "clst2sect fs clst =
     (let c = clst - 2 in if c \<ge> n_fatent fs - 2 then 0 else fs_database fs + ucast (csize fs) * c)"

definition win_at :: "u32 \<Rightarrow> 's FATFS \<Rightarrow> octets" where
  "win_at ofs fs = drop (unat (ofs mod 512)) (win fs)"

text \<open>The byte offset of an entry of a FAT12.\<close>

definition fat12_ofs :: "u32 \<Rightarrow> u32" where
  "fat12_ofs clst = clst + clst div 2"

definition get_fat :: "u32 \<Rightarrow> ('s, u32) fat_op" where
  "get_fat clst fs =
     (if clst < 2 \<or> clst \<ge> n_fatent fs then Some (1, fs)
      else if fs_type fs = FS_FAT12 then do {
        let bc = fat12_ofs clst;
        (res, fs1) \<leftarrow> move_window (fatbase fs + bc div 512) fs;
        if res \<noteq> FR_OK then Some (0xFFFFFFFF, fs1)
        else do {
          let b0 = win_at bc fs1 ! 0;
          (res2, fs2) \<leftarrow> move_window (fatbase fs1 + (bc + 1) div 512) fs1;
          if res2 \<noteq> FR_OK then Some (0xFFFFFFFF, fs2)
          else let wc = ucast b0 OR push_bit 8 (ucast (win_at (bc + 1) fs2 ! 0)) :: u32 in
            Some (if odd clst then drop_bit 4 wc else wc AND 0xFFF, fs2)
        }
      }
      else if fs_type fs = FS_FAT16 then do {
        (res, fs1) \<leftarrow> move_window (fatbase fs + clst div 256) fs;
        Some (if res \<noteq> FR_OK then 0xFFFFFFFF else ucast (ld_word (win_at (clst * 2) fs1)), fs1)
      }
      else if fs_type fs = FS_FAT32 then do {
        (res, fs1) \<leftarrow> move_window (fatbase fs + clst div 128) fs;
        Some (if res \<noteq> FR_OK then 0xFFFFFFFF else ld_dword (win_at (clst * 4) fs1) AND 0x0FFFFFFF, fs1)
      }
      else Some (1, fs))"

definition set_win :: "octets \<Rightarrow> 's FATFS \<Rightarrow> 's FATFS" where
  "set_win w fs = fs\<lparr>win := w, wflag := True\<rparr>"

definition put_fat :: "u32 \<Rightarrow> u32 \<Rightarrow> ('s, FRESULT) fat_op" where
  "put_fat clst val fs =
     (if \<not> (clst \<ge> 2 \<and> clst < n_fatent fs) then Some (FR_INT_ERR, fs)
      else if fs_type fs = FS_FAT12 then do {
        let bc = fat12_ofs clst;
        (res, fs1) \<leftarrow> move_window (fatbase fs + bc div 512) fs;
        if res \<noteq> FR_OK then Some (res, fs1)
        else do {
          let i = unat (bc mod 512);
          let p = win fs1 ! i;
          let b = (if odd clst then (p AND 0x0F) OR push_bit 4 (ucast val) else ucast val);
          (res2, fs2) \<leftarrow> move_window (fatbase fs1 + (bc + 1) div 512) (set_win ((win fs1)[i := b]) fs1);
          if res2 \<noteq> FR_OK then Some (res2, fs2)
          else let j = unat ((bc + 1) mod 512); q = win fs2 ! j;
                   c = (if odd clst then ucast (drop_bit 4 val) else (q AND 0xF0) OR (ucast (drop_bit 8 val) AND 0x0F)) in
            Some (FR_OK, set_win ((win fs2)[j := c]) fs2)
        }
      }
      else if fs_type fs = FS_FAT16 then do {
        (res, fs1) \<leftarrow> move_window (fatbase fs + clst div 256) fs;
        Some (if res \<noteq> FR_OK then (res, fs1)
              else (FR_OK, set_win (st_word (win fs1) (unat (clst * 2 mod 512)) (ucast val)) fs1))
      }
      else if fs_type fs = FS_FAT32 then do {
        (res, fs1) \<leftarrow> move_window (fatbase fs + clst div 128) fs;
        Some (if res \<noteq> FR_OK then (res, fs1)
              else let v = (val AND 0x0FFFFFFF) OR (ld_dword (win_at (clst * 4) fs1) AND 0xF0000000) in
                (FR_OK, set_win (st_dword (win fs1) (unat (clst * 4 mod 512)) v) fs1))
      }
      else Some (FR_INT_ERR, fs))"

subsection \<open>Chains\<close>

partial_function (option) remove_chain_loop :: "u32 \<Rightarrow> 's FATFS \<Rightarrow> (FRESULT \<times> 's FATFS) option" where
  "remove_chain_loop clst fs =
     do { (nxt, fs1) \<leftarrow> get_fat clst fs;
          if nxt = 0 then Some (FR_OK, fs1)
          else if nxt = 1 then Some (FR_INT_ERR, fs1)
          else if nxt = 0xFFFFFFFF then Some (FR_DISK_ERR, fs1)
          else do {
            (res, fs2) \<leftarrow> put_fat clst 0 fs1;
            if res \<noteq> FR_OK then Some (res, fs2)
            else do {
              let fs3 = (if free_clst fs2 < n_fatent fs2 - 2
                         then fs2\<lparr>free_clst := free_clst fs2 + 1, fsi_flag := fsi_flag fs2 OR 1\<rparr> else fs2);
              if nxt < n_fatent fs3 then remove_chain_loop nxt fs3 else Some (FR_OK, fs3)
            }
          } }"

definition remove_chain :: "u32 \<Rightarrow> u32 \<Rightarrow> ('s, FRESULT) fat_op" where
  "remove_chain clst pclst fs =
     (if clst < 2 \<or> clst \<ge> n_fatent fs then Some (FR_INT_ERR, fs)
      else if pclst \<noteq> 0 then do {
        (res, fs1) \<leftarrow> put_fat pclst 0xFFFFFFFF fs;
        if res \<noteq> FR_OK then Some (res, fs1) else remove_chain_loop clst fs1
      }
      else remove_chain_loop clst fs)"

text \<open>
  The search for a free cluster: \<open>Inl\<close> is a value that \<^verbatim>\<open>create_chain\<close> returns at once, \<open>Inr\<close> the free cluster.
\<close>

partial_function (option) find_free_loop :: "u32 \<Rightarrow> u32 \<Rightarrow> 's FATFS \<Rightarrow> ((u32 + u32) \<times> 's FATFS) option" where
  "find_free_loop scl n fs =
     (let ncl = (if n + 1 \<ge> n_fatent fs then 2 else n + 1) in
      if n + 1 \<ge> n_fatent fs \<and> 2 > scl then Some (Inl 0, fs)
      else do {
        (cs, fs1) \<leftarrow> get_fat ncl fs;
        if cs = 0 then Some (Inr ncl, fs1)
        else if cs = 1 \<or> cs = 0xFFFFFFFF then Some (Inl cs, fs1)
        else if ncl = scl then Some (Inl 0, fs1)
        else find_free_loop scl ncl fs1
      })"

text \<open>Where the search starts, or the value to return at once.\<close>

definition chain_start :: "u32 \<Rightarrow> ('s, u32 + u32) fat_op" where
  "chain_start clst fs =
     (if clst = 0
      then Some (Inr (if last_clst fs = 0 \<or> last_clst fs \<ge> n_fatent fs then 1 else last_clst fs), fs)
      else do {
        (cs, fs1) \<leftarrow> get_fat clst fs;
        Some (if cs < 2 then Inl 1 else if cs = 0xFFFFFFFF then Inl cs else if cs < n_fatent fs1 then Inl cs else Inr clst, fs1)
      })"

text \<open>The cluster behind the last one when it is free, else the next free one.\<close>

definition pick_cluster :: "u32 \<Rightarrow> u32 \<Rightarrow> ('s, u32 + u32) fat_op" where
  "pick_cluster clst scl fs =
     (if scl \<noteq> clst then find_free_loop scl scl fs
      else do {
        let ncl = (if scl + 1 \<ge> n_fatent fs then 2 else scl + 1);
        (cs, fs1) \<leftarrow> get_fat ncl fs;
        if cs = 1 \<or> cs = 0xFFFFFFFF then Some (Inl cs, fs1)
        else if cs = 0 then Some (Inr ncl, fs1)
        else let l = last_clst fs1; scl' = (if l \<ge> 2 \<and> l < n_fatent fs1 then l else scl) in find_free_loop scl' scl' fs1
      })"

definition create_chain :: "u32 \<Rightarrow> ('s, u32) fat_op" where
  "create_chain clst fs =
     do { (start, fs1) \<leftarrow> chain_start clst fs;
          (case start of
             Inl v \<Rightarrow> Some (v, fs1)
           | Inr scl \<Rightarrow>
               if free_clst fs1 = 0 then Some (0, fs1)
               else do {
                 (pick, fs2) \<leftarrow> pick_cluster clst scl fs1;
                 (case pick of
                    Inl v \<Rightarrow> Some (v, fs2)
                  | Inr ncl \<Rightarrow> do {
                      (res, fs3) \<leftarrow> put_fat ncl 0xFFFFFFFF fs2;
                      (res', fs4) \<leftarrow> (if res = FR_OK \<and> clst \<noteq> 0 then put_fat clst ncl fs3 else Some (res, fs3));
                      if res' = FR_OK
                      then Some (ncl, fs4\<lparr>last_clst := ncl,
                        free_clst := (if free_clst fs4 \<le> n_fatent fs4 - 2 then free_clst fs4 - 1 else free_clst fs4),
                        fsi_flag := fsi_flag fs4 OR 1\<rparr>)
                      else Some (if res' = FR_DISK_ERR then 0xFFFFFFFF else 1, fs4)
                    })
               }) }"

end
