(* ===== verification/Mipos_Fat_Window.thy ===== *)
theory Mipos_Fat_Window
  imports Mipos_Fat
begin

text \<open>
  The window of a mounted FAT volume as a write-back cache of one sector. What a reader of the
  volume sees is the window where it stands and the device elsewhere; moving the window changes
  nothing of that, and the second copy of the table follows the first.
\<close>

lemma FRESULT_eq_code [simp]: "FR_DISK_ERR \<noteq> FR_OK" "FR_INT_ERR \<noteq> FR_OK" by simp_all

subsection \<open>Well-formed volumes\<close>

definition in_mirror :: "'s FATFS \<Rightarrow> nat \<Rightarrow> bool" where
  "in_mirror fs n \<longleftrightarrow> n_fats fs = 2 \<and> unat (fatbase fs) + unat (fsize fs) \<le> n \<and> n < unat (fatbase fs) + 2 * unat (fsize fs)"

text \<open>What the volume holds at a sector.\<close>

definition view :: "('s \<Rightarrow> octets list) \<Rightarrow> 's FATFS \<Rightarrow> nat \<Rightarrow> octets" where
  "view sectors fs n = (if n = unat (winsect fs) then win fs else sectors (fs_dev fs) ! n)"

definition window_ok :: "('s \<Rightarrow> octets list) \<Rightarrow> 's FATFS \<Rightarrow> bool" where
  "window_ok sectors fs \<longleftrightarrow> length (win fs) = 512 \<and> unat (winsect fs) < length (sectors (fs_dev fs)) \<and>
     \<not> in_mirror fs (unat (winsect fs)) \<and> (\<not> wflag fs \<longrightarrow> win fs = sectors (fs_dev fs) ! unat (winsect fs))"

definition copies_ok :: "('s \<Rightarrow> octets list) \<Rightarrow> 's FATFS \<Rightarrow> bool" where
  "copies_ok sectors fs \<longleftrightarrow> (n_fats fs = 2 \<longrightarrow>
     (\<forall>i < unat (fsize fs). \<not> (wflag fs \<and> unat (winsect fs) = unat (fatbase fs) + i) \<longrightarrow>
        sectors (fs_dev fs) ! (unat (fatbase fs) + unat (fsize fs) + i) = sectors (fs_dev fs) ! (unat (fatbase fs) + i)))"

definition place_ok :: "nat \<Rightarrow> 's FATFS \<Rightarrow> bool" where
  "place_ok len fs \<longleftrightarrow> len \<le> 2 ^ 32 \<and> (n_fats fs = 1 \<or> n_fats fs = 2) \<and>
     unat (fatbase fs) + unat (n_fats fs) * unat (fsize fs) \<le> len"

definition fat_wf :: "('s \<Rightarrow> bool) \<Rightarrow> ('s \<Rightarrow> octets list) \<Rightarrow> 's FATFS \<Rightarrow> bool" where
  "fat_wf ready sectors fs \<longleftrightarrow> ready (fs_dev fs) \<and> place_ok (length (sectors (fs_dev fs))) fs \<and>
     window_ok sectors fs \<and> copies_ok sectors fs"

definition fat_volume :: "'s disk_table \<Rightarrow> u8 \<Rightarrow> ('s \<Rightarrow> bool) \<Rightarrow> ('s \<Rightarrow> octets list) \<Rightarrow> 's FATFS \<Rightarrow> bool" where
  "fat_volume t pdrv ready sectors fs \<longleftrightarrow> fs_table fs = t \<and> fs_pdrv fs = pdrv \<and> fat_wf ready sectors fs"

text \<open>The volume after the window has moved or been changed.\<close>

definition rewound :: "'s FATFS \<Rightarrow> 's FATFS \<Rightarrow> bool" where
  "rewound fs fs' \<longleftrightarrow> (\<exists>f n w d. fs' = fs\<lparr>wflag := f, winsect := n, win := w, fs_dev := d\<rparr>)"

definition same_view :: "('s \<Rightarrow> bool) \<Rightarrow> ('s \<Rightarrow> octets list) \<Rightarrow> 's FATFS \<Rightarrow> 's FATFS \<Rightarrow> bool" where
  "same_view ready sectors fs fs' \<longleftrightarrow> rewound fs fs' \<and> fat_wf ready sectors fs' \<and>
     length (sectors (fs_dev fs')) = length (sectors (fs_dev fs)) \<and>
     (\<forall>n < length (sectors (fs_dev fs)). \<not> in_mirror fs n \<longrightarrow> view sectors fs' n = view sectors fs n)"

lemma rewound_simps:
  assumes "rewound fs fs'"
  shows "fs_type fs' = fs_type fs" "fs_pdrv fs' = fs_pdrv fs" "n_fats fs' = n_fats fs" "fsi_flag fs' = fsi_flag fs"
    "last_clst fs' = last_clst fs" "free_clst fs' = free_clst fs" "n_fatent fs' = n_fatent fs" "fsize fs' = fsize fs"
    "fatbase fs' = fatbase fs" "volbase fs' = volbase fs" "dirbase fs' = dirbase fs" "fs_database fs' = fs_database fs"
    "csize fs' = csize fs" "n_rootdir fs' = n_rootdir fs" "fs_table fs' = fs_table fs" "fs_id fs' = fs_id fs"
    "in_mirror fs' = in_mirror fs"
  using assms by (auto simp: rewound_def in_mirror_def fun_eq_iff)

lemma rewound_refl [simp]: "rewound fs fs"
  unfolding rewound_def by (intro exI [of _ "wflag fs"] exI [of _ "winsect fs"] exI [of _ "win fs"] exI [of _ "fs_dev fs"]) simp

lemma rewound_trans: "rewound a b \<Longrightarrow> rewound b c \<Longrightarrow> rewound a c"
  unfolding rewound_def by clarify (simp, blast)

lemma same_view_refl: "fat_wf ready sectors fs \<Longrightarrow> same_view ready sectors fs fs"
  by (simp add: same_view_def)

lemma same_view_trans: "same_view r s a b \<Longrightarrow> same_view r s b c \<Longrightarrow> same_view r s a c"
  by (auto simp: same_view_def rewound_simps(17) intro: rewound_trans)

lemma same_view_fat_wf: "same_view r s fs fs' \<Longrightarrow> fat_wf r s fs'" by (simp add: same_view_def)

lemma same_view_rewound: "same_view r s fs fs' \<Longrightarrow> rewound fs fs'" by (simp add: same_view_def)

lemma length_view:
  assumes "fat_wf r s fs" "\<And>b. b \<in> set (s (fs_dev fs)) \<Longrightarrow> length b = 512" "n < length (s (fs_dev fs))"
  shows "length (view s fs n) = 512"
  using assms by (auto simp: view_def fat_wf_def window_ok_def)

text \<open>The first copy of the table, as the code tests for it.\<close>

lemma in_first_copy:
  assumes "place_ok len fs" "unat n < len"
  shows "n - fatbase fs < fsize fs \<longleftrightarrow> unat (fatbase fs) \<le> unat n \<and> unat n < unat (fatbase fs) + unat (fsize fs)"
proof (cases "fatbase fs \<le> n")
  case True
  then have "unat (n - fatbase fs) = unat n - unat (fatbase fs)" by (rule unat_sub)
  with True show ?thesis by (auto simp: word_less_nat_alt word_le_nat_alt)
next
  case False
  then have lt: "unat n < unat (fatbase fs)" by (simp add: word_le_nat_alt)
  have top: "unat (fatbase fs) + unat (fsize fs) \<le> 2 ^ 32" using assms(1) by (auto simp: place_ok_def)
  have "unat (n - fatbase fs) = 2 ^ 32 + unat n - unat (fatbase fs)"
    using False unat_sub_if' [of n "fatbase fs"] by (simp add: word_le_nat_alt)
  with lt top show ?thesis by (simp add: word_less_nat_alt)
qed

subsection \<open>Flushing and moving\<close>

context sector_device
begin

abbreviation vol :: "'s FATFS \<Rightarrow> bool" where
  "vol \<equiv> fat_volume t pdrv ready sectors"

lemmas vol_def = fat_volume_def

lemma write_at:
  assumes "fs_table fs = t" "fs_pdrv fs = pdrv" "ready (fs_dev fs)" "unat n < length (sectors (fs_dev fs))" "length b = 512"
  shows "\<exists>d. fat_write b n fs = Some (MIPOS_DISK_RES_OK, fs\<lparr>fs_dev := d\<rparr>) \<and> ready d \<and> sectors d = (sectors (fs_dev fs))[unat n := b]"
  using writes [OF assms(3-5)] assms(1,2) by (auto simp: fat_write_def)

lemma read_at:
  assumes "fs_table fs = t" "fs_pdrv fs = pdrv" "ready (fs_dev fs)" "unat n < length (sectors (fs_dev fs))" "length buf = 512"
  shows "\<exists>d. fat_read buf n fs = Some ((MIPOS_DISK_RES_OK, sectors (fs_dev fs) ! unat n), fs\<lparr>fs_dev := d\<rparr>) \<and> ready d \<and>
    sectors d = sectors (fs_dev fs)"
proof -
  have "length (sectors (fs_dev fs) ! unat n) = 512" using sector_size [OF assms(3)] assms(4) nth_mem by blast
  then show ?thesis using reads [OF assms(3,4)] assms(1,2,5) by (auto simp: fat_read_def)
qed

lemma flush_dirty:
  assumes v: "vol fs" and dirty: "wflag fs"
  shows "\<exists>d. sync_window fs = Some (FR_OK, fs\<lparr>wflag := False, fs_dev := d\<rparr>) \<and> ready d \<and>
    sectors d = (let s1 = (sectors (fs_dev fs))[unat (winsect fs) := win fs] in
      if winsect fs - fatbase fs < fsize fs \<and> n_fats fs = 2
      then s1[unat (winsect fs) + unat (fsize fs) := win fs] else s1)"
proof -
  have wf: "fs_table fs = t" "fs_pdrv fs = pdrv" "ready (fs_dev fs)" "unat (winsect fs) < length (sectors (fs_dev fs))"
    "length (win fs) = 512" "place_ok (length (sectors (fs_dev fs))) fs"
    using v by (auto simp: vol_def fat_wf_def window_ok_def)
  obtain d1 where d1: "fat_write (win fs) (winsect fs) fs = Some (MIPOS_DISK_RES_OK, fs\<lparr>fs_dev := d1\<rparr>)" "ready d1"
      "sectors d1 = (sectors (fs_dev fs))[unat (winsect fs) := win fs]"
    using write_at [OF wf(1-5)] by blast
  show ?thesis
  proof (cases "winsect fs - fatbase fs < fsize fs \<and> n_fats fs = 2")
    case True
    then have "unat (winsect fs) + unat (fsize fs) < length (sectors (fs_dev fs))"
      using in_first_copy [OF wf(6,4)] wf(6) by (simp add: place_ok_def)
    moreover from this have "unat (winsect fs + fsize fs) = unat (winsect fs) + unat (fsize fs)"
      using wf(6) by (simp add: place_ok_def unat_word_ariths)
    ultimately obtain d2 where d2: "fat_write (win fs) (winsect fs + fsize fs) (fs\<lparr>fs_dev := d1, wflag := False\<rparr>) =
        Some (MIPOS_DISK_RES_OK, fs\<lparr>wflag := False, fs_dev := d2\<rparr>)" "ready d2"
        "sectors d2 = (sectors d1)[unat (winsect fs) + unat (fsize fs) := win fs]"
      using write_at [of "fs\<lparr>fs_dev := d1, wflag := False\<rparr>" "winsect fs + fsize fs" "win fs"] wf(1,2,5) d1(2,3) by auto
    have "sync_window fs = Some (FR_OK, fs\<lparr>wflag := False, fs_dev := d2\<rparr>)"
      using True dirty d1(1) d2(1) by (simp add: sync_window_def)
    moreover have "sectors d2 = (let s1 = (sectors (fs_dev fs))[unat (winsect fs) := win fs] in
      if winsect fs - fatbase fs < fsize fs \<and> n_fats fs = 2
      then s1[unat (winsect fs) + unat (fsize fs) := win fs] else s1)"
      unfolding d2(3) d1(3) Let_def if_P [OF True] by (rule refl)
    ultimately show ?thesis using d2(2) by blast
  next
    case False
    have "fs\<lparr>fs_dev := d1, wflag := False\<rparr> = fs\<lparr>wflag := False, fs_dev := d1\<rparr>" by simp
    with dirty d1(1) have "sync_window fs = Some (FR_OK, fs\<lparr>wflag := False, fs_dev := d1\<rparr>)"
      unfolding sync_window_def by (simp only: False not_True_eq_False if_False if_True simp_thms bind.simps prod.case Let_def)
    moreover have "sectors d1 = (let s1 = (sectors (fs_dev fs))[unat (winsect fs) := win fs] in
      if winsect fs - fatbase fs < fsize fs \<and> n_fats fs = 2
      then s1[unat (winsect fs) + unat (fsize fs) := win fs] else s1)"
      unfolding d1(3) Let_def if_not_P [OF False] by (rule refl)
    ultimately show ?thesis using d1(2) by blast
  qed
qed

lemma sync_window_clean:
  assumes v: "vol fs"
  shows "\<exists>fs'. sync_window fs = Some (FR_OK, fs') \<and> vol fs' \<and> same_view ready sectors fs fs' \<and> \<not> wflag fs' \<and>
    winsect fs' = winsect fs \<and> win fs' = win fs"
proof (cases "wflag fs")
  case False
  with v show ?thesis by (simp add: sync_window_def same_view_refl vol_def)
next
  case True
  let ?s = "sectors (fs_dev fs)" and ?w = "unat (winsect fs)" and ?b = "unat (fatbase fs)" and ?z = "unat (fsize fs)"
  have wf: "fs_table fs = t" "fs_pdrv fs = pdrv" "?w < length ?s" "length (win fs) = 512" "place_ok (length ?s) fs"
    "\<not> in_mirror fs ?w" "copies_ok sectors fs"
    using v by (auto simp: vol_def fat_wf_def window_ok_def)
  obtain d where d: "sync_window fs = Some (FR_OK, fs\<lparr>wflag := False, fs_dev := d\<rparr>)" "ready d"
      "sectors d = (let s1 = ?s[?w := win fs] in
        if winsect fs - fatbase fs < fsize fs \<and> n_fats fs = 2 then s1[?w + ?z := win fs] else s1)"
    using flush_dirty [OF v True] by blast
  let ?fs = "fs\<lparr>wflag := False, fs_dev := d\<rparr>"
  have first: "winsect fs - fatbase fs < fsize fs \<longleftrightarrow> ?b \<le> ?w \<and> ?w < ?b + ?z" by (rule in_first_copy [OF wf(5,3)])
  have len: "length (sectors d) = length ?s" using d(3) by (simp add: Let_def)
  have at: "sectors d ! n = (if n = ?w \<or> ?b \<le> ?w \<and> ?w < ?b + ?z \<and> n_fats fs = 2 \<and> n = ?w + ?z then win fs else ?s ! n)"
    if "n < length ?s" for n using that wf(3) unfolding d(3) first by (auto simp: Let_def nth_list_update)
  have keep: "view sectors ?fs n = view sectors fs n" if "n < length ?s" "\<not> in_mirror fs n" for n
    using at [OF that(1)] that(2) by (auto simp: view_def in_mirror_def)
  have mirror: "in_mirror ?fs = in_mirror fs" by (simp add: in_mirror_def fun_eq_iff)
  have place: "place_ok (length (sectors d)) ?fs" using wf(5) len by (simp add: place_ok_def)
  have window: "window_ok sectors ?fs" using wf(3,4,6) len at [OF wf(3)] mirror by (simp add: window_ok_def)
  have copies: "copies_ok sectors ?fs"
    unfolding copies_ok_def
  proof (intro impI allI)
    fix i assume a: "n_fats ?fs = 2" "i < unat (fsize ?fs)"
    then have lt: "?b + ?z + i < length ?s" "?b + i < length ?s" using wf(5) by (simp_all add: place_ok_def)
    have old: "\<not> ?w = ?b + i \<longrightarrow> ?s ! (?b + ?z + i) = ?s ! (?b + i)" using wf(7) a by (simp add: copies_ok_def)
    have "\<not> (?b + ?z + i = ?w)" using wf(6) a by (auto simp: in_mirror_def)
    with old a show "sectors (fs_dev ?fs) ! (unat (fatbase ?fs) + unat (fsize ?fs) + i) = sectors (fs_dev ?fs) ! (unat (fatbase ?fs) + i)"
      by (simp add: at [OF lt(1)] at [OF lt(2)])
  qed
  have "rewound fs ?fs" unfolding rewound_def
    by (intro exI [of _ False] exI [of _ "winsect fs"] exI [of _ "win fs"] exI [of _ d]) simp
  with d(1,2) wf(1,2) len keep place window copies show ?thesis
    by (simp add: vol_def same_view_def fat_wf_def)
qed

lemma move_window_to:
  assumes v: "vol fs" and n: "unat n < length (sectors (fs_dev fs))" "\<not> in_mirror fs (unat n)"
  shows "\<exists>fs'. move_window n fs = Some (FR_OK, fs') \<and> vol fs' \<and> same_view ready sectors fs fs' \<and> winsect fs' = n \<and>
    win fs' = view sectors fs (unat n)"
proof (cases "n = winsect fs")
  case True
  with v show ?thesis by (simp add: move_window_def same_view_refl vol_def view_def)
next
  case False
  obtain fs1 where s: "sync_window fs = Some (FR_OK, fs1)" "vol fs1" "same_view ready sectors fs fs1" "\<not> wflag fs1"
      "winsect fs1 = winsect fs" "win fs1 = win fs"
    using sync_window_clean [OF v] by blast
  have wf1: "fs_table fs1 = t" "fs_pdrv fs1 = pdrv" "ready (fs_dev fs1)" "length (win fs1) = 512" "copies_ok sectors fs1"
    "place_ok (length (sectors (fs_dev fs1))) fs1" "win fs1 = sectors (fs_dev fs1) ! unat (winsect fs1)"
    using s(2,4) by (auto simp: vol_def fat_wf_def window_ok_def)
  have len: "length (sectors (fs_dev fs1)) = length (sectors (fs_dev fs))" using s(3) by (simp add: same_view_def)
  have mir: "in_mirror fs1 = in_mirror fs" using s(3) by (simp add: same_view_def rewound_simps)
  obtain d where d: "fat_read (win fs1) n fs1 = Some ((MIPOS_DISK_RES_OK, sectors (fs_dev fs1) ! unat n), fs1\<lparr>fs_dev := d\<rparr>)"
      "ready d" "sectors d = sectors (fs_dev fs1)"
    using read_at [OF wf1(1-3), of n "win fs1"] wf1(4) n(1) len by auto
  let ?fs = "fs1\<lparr>fs_dev := d, win := sectors (fs_dev fs1) ! unat n, winsect := n\<rparr>"
  have m: "move_window n fs = Some (FR_OK, ?fs)" using False s(1) d(1) by (simp add: move_window_def)
  have "length (sectors (fs_dev fs1) ! unat n) = 512" using sector_size [OF wf1(3)] n(1) len nth_mem by metis
  moreover have "in_mirror ?fs = in_mirror fs" using mir by (simp add: in_mirror_def fun_eq_iff)
  ultimately have "window_ok sectors ?fs" using n len d(3) by (simp add: window_ok_def)
  moreover have "copies_ok sectors ?fs" using wf1(5) s(4) d(3) by (simp add: copies_ok_def)
  moreover have "place_ok (length (sectors d)) ?fs" using wf1(6) d(3) by (simp add: place_ok_def)
  ultimately have wf: "fat_wf ready sectors ?fs" using d(2) by (simp add: fat_wf_def)
  have "rewound fs1 ?fs" unfolding rewound_def
    by (intro exI [of _ "wflag fs1"] exI [of _ n] exI [of _ "sectors (fs_dev fs1) ! unat n"] exI [of _ d]) simp
  moreover have "view sectors ?fs k = view sectors fs1 k" for k using wf1(7) d(3) by (auto simp: view_def)
  ultimately have "same_view ready sectors fs1 ?fs" using wf d(3) by (simp add: same_view_def)
  then have sv: "same_view ready sectors fs ?fs" using s(3) same_view_trans by blast
  then have "view sectors ?fs (unat n) = view sectors fs (unat n)" using n by (simp add: same_view_def)
  then have "win ?fs = view sectors fs (unat n)" by (simp add: view_def)
  with m sv wf wf1(1,2) show ?thesis by (simp add: vol_def)
qed

end

end
