(* ===== verification/Mipos_Fat_Table.thy ===== *)
theory Mipos_Fat_Table
  imports Mipos_Fat_Window
begin

text \<open>
  The file allocation table as a function from clusters to entries, over the bytes of the first copy
  of the table. \<^verbatim>\<open>get_fat\<close> reads that function and \<^verbatim>\<open>put_fat\<close> changes it at one cluster, in the
  three formats, whatever the window does in between.
\<close>

unbundle bit_operations_syntax

subsection \<open>Entries\<close>

definition raw32 :: "(nat \<Rightarrow> u8) \<Rightarrow> nat \<Rightarrow> u32" where
  "raw32 F i = push_bit 8 (push_bit 8 (push_bit 8 (ucast (F (i + 3))) OR ucast (F (i + 2))) OR ucast (F (i + 1))) OR ucast (F i)"

definition raw16 :: "(nat \<Rightarrow> u8) \<Rightarrow> nat \<Rightarrow> u16" where
  "raw16 F i = push_bit 8 (ucast (F (i + 1))) OR ucast (F i)"

definition at12 :: "nat \<Rightarrow> nat" where
  "at12 c = c + c div 2"

definition fat_entry :: "u8 \<Rightarrow> (nat \<Rightarrow> u8) \<Rightarrow> nat \<Rightarrow> u32" where
  "fat_entry ty F c =
     (if ty = FS_FAT12 then
        let w = ucast (F (at12 c)) OR push_bit 8 (ucast (F (at12 c + 1))) in if odd c then drop_bit 4 w else w AND 0xFFF
      else if ty = FS_FAT16 then ucast (raw16 F (2 * c))
      else raw32 F (4 * c) AND 0x0FFFFFFF)"

definition store32 :: "(nat \<Rightarrow> u8) \<Rightarrow> nat \<Rightarrow> u32 \<Rightarrow> nat \<Rightarrow> u8" where
  "store32 F i v = F(i := ucast v, i + 1 := ucast (drop_bit 8 v), i + 2 := ucast (drop_bit 8 (drop_bit 8 v)),
     i + 3 := ucast (drop_bit 8 (drop_bit 8 (drop_bit 8 v))))"

definition fat_store :: "u8 \<Rightarrow> (nat \<Rightarrow> u8) \<Rightarrow> nat \<Rightarrow> u32 \<Rightarrow> nat \<Rightarrow> u8" where
  "fat_store ty F c v =
     (if ty = FS_FAT12 then
        F(at12 c := if odd c then (F (at12 c) AND 0x0F) OR push_bit 4 (ucast v) else ucast v,
          at12 c + 1 := if odd c then ucast (drop_bit 4 v) else (F (at12 c + 1) AND 0xF0) OR (ucast (drop_bit 8 v) AND 0x0F))
      else if ty = FS_FAT16 then
        F(2 * c := ucast (ucast v :: u16), 2 * c + 1 := ucast (drop_bit 8 (ucast v :: u16)))
      else store32 F (4 * c) ((v AND 0x0FFFFFFF) OR (raw32 F (4 * c) AND 0xF0000000)))"

text \<open>The bits of a value that an entry keeps.\<close>

definition entry_mask :: "u8 \<Rightarrow> u32" where
  "entry_mask ty = (if ty = FS_FAT12 then 0xFFF else if ty = FS_FAT16 then 0xFFFF else 0x0FFFFFFF)"

lemma at12_less: "c < d \<Longrightarrow> at12 c < at12 d"
  by (simp add: at12_def add_less_le_mono div_le_mono)

lemma at12_inj: "at12 c = at12 d \<Longrightarrow> c = d"
  by (metis at12_less less_irrefl nat_neq_iff)

lemma at12_next: "at12 d = at12 c + 1 \<Longrightarrow> even c \<and> odd d"
proof -
  assume a: "at12 d = at12 c + 1"
  have step: "at12 c + 1 = at12 (c + 1) \<or> odd c" by (auto simp: at12_def elim!: evenE)
  have two: "odd c \<Longrightarrow> at12 c + 2 = at12 (c + 1)" by (auto simp: at12_def elim!: oddE)
  have "c < d" using a at12_less [of d c] by (cases c d rule: linorder_cases) auto
  then have "c + 1 = d \<or> at12 (c + 1) < at12 d" using at12_less by (cases "c + 1 = d") auto
  with a step two show ?thesis by (cases "odd c") auto
qed

lemma masks:
  "(0xF :: u8) = mask 4" "(0xF0 :: u8) = push_bit 4 (mask 4)" "(0xFFF :: u32) = mask 12" "(0xFFFF :: u32) = mask 16"
  "(0x0FFFFFFF :: u32) = mask 28" "(0xF0000000 :: u32) = push_bit 28 (mask 4)"
  by (simp_all add: mask_eq_exp_minus_1)

lemma bit_high8: "bit (x :: u8) k \<Longrightarrow> k < 8" by (drule bit_imp_le_length) simp

lemma nibble_odd:
  "drop_bit 4 (ucast (((p :: u8) AND 0xF) OR push_bit 4 (ucast v)) OR push_bit 8 (ucast (ucast (drop_bit 4 v) :: u8))) =
     (v :: u32) AND 0xFFF"
  unfolding masks by (rule bit_eqI) (auto simp: bit_simps)

lemma nibble_even:
  "(ucast (ucast v :: u8) OR push_bit 8 (ucast (((q :: u8) AND 0xF0) OR (ucast (drop_bit 8 v) AND 0xF)))) AND 0xFFF =
     (v :: u32) AND 0xFFF"
  unfolding masks by (rule bit_eqI) (auto simp: bit_simps)

text \<open>The neighbour that shares a byte keeps its half of it.\<close>

lemma nibble_keep_odd:
  "drop_bit 4 (ucast (((p :: u8) AND 0xF0) OR (x AND 0xF)) OR push_bit 8 (ucast (q :: u8))) =
     (drop_bit 4 (ucast p OR push_bit 8 (ucast q)) :: u32)"
  unfolding masks by (rule bit_eqI) (auto simp: bit_simps dest: bit_high8)

lemma nibble_keep_even:
  "(ucast (q :: u8) OR push_bit 8 (ucast (((p :: u8) AND 0xF) OR push_bit 4 x))) AND 0xFFF =
     (ucast q OR push_bit 8 (ucast p) :: u32) AND 0xFFF"
  unfolding masks by (rule bit_eqI) (auto simp: bit_simps)

lemma word_of_bytes: "push_bit 8 (ucast (ucast (drop_bit 8 v) :: u8)) OR ucast (ucast v :: u8) = (v :: u16)"
  by (rule bit_eqI) (auto simp: bit_simps)

lemma raw32_store32: "raw32 (store32 F i v) i = v"
proof (rule bit_eqI)
  fix n assume "possible_bit TYPE(u32) n"
  then have "n < 32" by simp
  then consider "n < 8" | "8 \<le> n" "n < 16" | "16 \<le> n" "n < 24" | "24 \<le> n" "n < 32" by linarith
  then show "bit (raw32 (store32 F i v) i) n \<longleftrightarrow> bit v n" by cases (auto simp: raw32_def store32_def bit_simps)
qed

lemma raw32_other: "c \<noteq> d \<Longrightarrow> raw32 (store32 F (4 * c) v) (4 * d) = raw32 F (4 * d)"
proof -
  assume ne: "c \<noteq> d"
  then have "4 * d + j \<noteq> 4 * c + i" if "i < 4" "j < 4" for i j using that by linarith
  from ne this [of _ 0] this [of _ 1] this [of _ 2] this [of _ 3] this [of 0] this [of 1] this [of 2] this [of 3] show ?thesis
    by (simp add: raw32_def store32_def)
qed

lemma low28: "((v AND 0x0FFFFFFF) OR (w AND 0xF0000000)) AND 0x0FFFFFFF = (v :: u32) AND 0x0FFFFFFF"
  unfolding masks by (rule bit_eqI) (auto simp: bit_simps)

lemma low16: "ucast (ucast v :: u16) = (v :: u32) AND 0xFFFF"
  unfolding masks by (rule bit_eqI) (auto simp: bit_simps)

text \<open>An entry reads back what was stored there, cut to its width, and all others are as before.\<close>

lemma fat_entry_store_same: "fat_entry ty (fat_store ty F c v) c = v AND entry_mask ty"
proof (cases "ty = FS_FAT12")
  case True
  then show ?thesis by (simp add: fat_entry_def fat_store_def entry_mask_def Let_def nibble_odd nibble_even del: drop_bit_or)
next
  case False
  then show ?thesis
    by (simp add: fat_entry_def fat_store_def entry_mask_def raw16_def word_of_bytes low16 raw32_store32 low28)
qed

lemma fat_entry_store_other:
  assumes "c \<noteq> d"
  shows "fat_entry ty (fat_store ty F c v) d = fat_entry ty F d"
proof -
  have ne: "at12 d \<noteq> at12 c" using at12_inj assms by blast
  have up: "at12 d = at12 c + 1 \<Longrightarrow> even c \<and> odd d" by (rule at12_next)
  have down: "at12 c = at12 d + 1 \<Longrightarrow> even d \<and> odd c" by (rule at12_next)
  consider "at12 d = at12 c + 1" | "at12 c = at12 d + 1" | "at12 d \<noteq> at12 c + 1" "at12 c \<noteq> at12 d + 1" by blast
  then have "fat_entry FS_FAT12 (fat_store FS_FAT12 F c v) d = fat_entry FS_FAT12 F d"
  proof cases
    case 1
    with up show ?thesis by (simp add: fat_entry_def fat_store_def Let_def nibble_keep_odd del: drop_bit_or)
  next
    case 2
    with down show ?thesis by (simp add: fat_entry_def fat_store_def Let_def nibble_keep_even)
  next
    case 3
    with ne show ?thesis by (simp add: fat_entry_def fat_store_def Let_def)
  qed
  moreover have "2 * d \<noteq> 2 * c + 1" "2 * d + 1 \<noteq> 2 * c" by presburger+
  ultimately show ?thesis using assms
    by (auto simp: fat_entry_def fat_store_def raw16_def raw32_other)
qed

lemma fat_store_range:
  assumes "i \<noteq> at12 c" "i \<noteq> at12 c + 1" "i div 2 \<noteq> c" "i div 4 \<noteq> c"
  shows "fat_store ty F c v i = F i"
proof -
  have "i \<noteq> 2 * c" "i \<noteq> 2 * c + 1" "i \<noteq> 4 * c" "i \<noteq> 4 * c + 1" "i \<noteq> 4 * c + 2" "i \<noteq> 4 * c + 3" using assms(3,4) by auto
  with assms show ?thesis by (simp add: fat_store_def store32_def)
qed

end
