(* ===== verification/Mipos_Fat_Access.thy ===== *)
theory Mipos_Fat_Access
  imports Mipos_Fat_Table
begin

text \<open>
  \<^verbatim>\<open>get_fat\<close> and \<^verbatim>\<open>put_fat\<close> on a well-formed volume: they return without an error, deliver or change
  exactly one entry of the table, and leave everything outside the table as it was.
\<close>

unbundle bit_operations_syntax

subsection \<open>The table of a volume\<close>

definition fat_byte :: "('s \<Rightarrow> octets list) \<Rightarrow> 's FATFS \<Rightarrow> nat \<Rightarrow> u8" where
  "fat_byte sectors fs i =
     (if i < 512 * unat (fsize fs) then view sectors fs (unat (fatbase fs) + i div 512) ! (i mod 512) else 0)"

definition entry :: "('s \<Rightarrow> octets list) \<Rightarrow> 's FATFS \<Rightarrow> nat \<Rightarrow> u32" where
  "entry sectors fs c = fat_entry (fs_type fs) (fat_byte sectors fs) c"

definition table_bytes :: "u8 \<Rightarrow> nat \<Rightarrow> nat" where
  "table_bytes ty n = (if ty = FS_FAT12 then (3 * n + 1) div 2 else if ty = FS_FAT16 then 2 * n else 4 * n)"

text \<open>Clusters above these numbers have a reserved meaning.\<close>

definition max_entries :: "u8 \<Rightarrow> nat" where
  "max_entries ty = (if ty = FS_FAT12 then 0xFF7 else if ty = FS_FAT16 then 0xFFF7 else 0x0FFFFFF7)"

definition table_ok :: "'s FATFS \<Rightarrow> bool" where
  "table_ok fs \<longleftrightarrow> fs_type fs \<in> {FS_FAT12, FS_FAT16, FS_FAT32} \<and> 2 < unat (n_fatent fs) \<and>
     unat (n_fatent fs) \<le> max_entries (fs_type fs) \<and> table_bytes (fs_type fs) (unat (n_fatent fs)) \<le> 512 * unat (fsize fs)"

definition in_table :: "'s FATFS \<Rightarrow> nat \<Rightarrow> bool" where
  "in_table fs n \<longleftrightarrow> unat (fatbase fs) \<le> n \<and> n < unat (fatbase fs) + unat (n_fats fs) * unat (fsize fs)"

text \<open>A change of the table only.\<close>

definition same_data :: "('s \<Rightarrow> octets list) \<Rightarrow> 's FATFS \<Rightarrow> 's FATFS \<Rightarrow> bool" where
  "same_data sectors fs fs' \<longleftrightarrow> rewound fs fs' \<and> length (sectors (fs_dev fs')) = length (sectors (fs_dev fs)) \<and>
     (\<forall>n < length (sectors (fs_dev fs)). \<not> in_table fs n \<longrightarrow> view sectors fs' n = view sectors fs n)"

lemma same_data_refl: "same_data sectors fs fs" by (simp add: same_data_def)

lemma same_data_trans: "same_data s a b \<Longrightarrow> same_data s b c \<Longrightarrow> same_data s a c"
  by (auto simp: same_data_def in_table_def rewound_simps intro: rewound_trans)

lemma in_mirror_in_table: "in_mirror fs n \<Longrightarrow> in_table fs n"
  by (auto simp: in_mirror_def in_table_def)

lemma same_view_same_data: "same_view r s fs fs' \<Longrightarrow> same_data s fs fs'"
  using in_mirror_in_table by (auto simp: same_view_def same_data_def)

lemma same_data_rewound: "same_data s fs fs' \<Longrightarrow> rewound fs fs'" by (simp add: same_data_def)

lemma table_ok_rewound: "rewound fs fs' \<Longrightarrow> table_ok fs' = table_ok fs"
  by (simp add: table_ok_def rewound_simps)

lemma table_sector:
  assumes "fat_wf r s fs" "i < 512 * unat (fsize fs)"
  shows "unat (fatbase fs) + i div 512 < length (s (fs_dev fs))" "\<not> in_mirror fs (unat (fatbase fs) + i div 512)"
proof -
  have lt: "i div 512 < unat (fsize fs)" using assms(2) by (simp add: less_mult_imp_div_less mult.commute)
  then show "unat (fatbase fs) + i div 512 < length (s (fs_dev fs))" "\<not> in_mirror fs (unat (fatbase fs) + i div 512)"
    using assms(1) by (auto simp: fat_wf_def place_ok_def in_mirror_def)
qed

lemma same_view_fat_byte:
  assumes "same_view r s fs fs'" "fat_wf r s fs"
  shows "fat_byte s fs' = fat_byte s fs"
proof
  fix i show "fat_byte s fs' i = fat_byte s fs i"
    using assms(1) table_sector [OF assms(2), of i]
    by (simp add: fat_byte_def same_view_def rewound_simps [OF same_view_rewound [OF assms(1)]])
qed

lemma same_view_entry: "same_view r s fs fs' \<Longrightarrow> fat_wf r s fs \<Longrightarrow> entry s fs' = entry s fs"
  by (simp add: entry_def fun_eq_iff same_view_fat_byte rewound_simps [OF same_view_rewound])

subsection \<open>Places of entries\<close>

lemma entry_place:
  assumes "table_ok fs" "c < unat (n_fatent fs)"
  shows "fs_type fs = FS_FAT12 \<Longrightarrow> at12 c + 1 < 512 * unat (fsize fs)"
    "fs_type fs = FS_FAT16 \<Longrightarrow> 2 * c + 1 < 512 * unat (fsize fs)"
    "fs_type fs = FS_FAT32 \<Longrightarrow> 4 * c + 3 < 512 * unat (fsize fs)"
proof -
  assume ty: "fs_type fs = FS_FAT12"
  have "c + c div 2 + 1 < (3 * unat (n_fatent fs) + 1) div 2" using assms(2) by linarith
  with ty assms(1) show "at12 c + 1 < 512 * unat (fsize fs)" by (simp add: at12_def table_ok_def table_bytes_def)
next
  assume "fs_type fs = FS_FAT16"
  with assms show "2 * c + 1 < 512 * unat (fsize fs)" by (simp add: table_ok_def table_bytes_def mip_simps)
next
  assume "fs_type fs = FS_FAT32"
  with assms show "4 * c + 3 < 512 * unat (fsize fs)" by (simp add: table_ok_def table_bytes_def mip_simps)
qed

lemma unat_fat12_ofs: "unat c < 0x1000 \<Longrightarrow> unat (fat12_ofs c) = at12 (unat c)" "unat c < 0x1000 \<Longrightarrow> unat (fat12_ofs c + 1) = at12 (unat c) + 1"
  by (simp_all add: fat12_ofs_def at12_def unat_word_ariths unat_div)

lemma sector_word:
  assumes "fat_wf r s fs" "i < 512 * unat (fsize fs)" "unat k = i div 512"
  shows "unat (fatbase fs + k) = unat (fatbase fs) + i div 512"
  using table_sector(1) [OF assms(1,2)] assms(1,3) by (simp add: fat_wf_def place_ok_def unat_word_ariths)

lemma aligned2:
  "(2 * c) div 512 = c div 256" "(2 * c + 1) div 512 = c div 256" "(2 * c + 1) mod 512 = (2 * c) mod 512 + (1 :: nat)"
proof -
  have "(2 * c) div (2 * 256) = c div 256" "(2 * c + 1) div (2 * 256) = c div 256" "(2 * c + 1) mod (2 * 256) = (2 * c) mod (2 * 256) + 1"
    unfolding div_mult2_eq mod_mult2_eq by simp_all
  then show "(2 * c) div 512 = c div 256" "(2 * c + 1) div 512 = c div 256" "(2 * c + 1) mod 512 = (2 * c) mod 512 + 1" by simp_all
qed

lemma aligned4:
  assumes "k < 4"
  shows "(4 * c + k) div 512 = c div 128" "(4 * c + k) mod 512 = (4 * c) mod 512 + (k :: nat)"
proof -
  have "(4 * c + k) div (4 * 128) = c div 128" "(4 * c + k) mod (4 * 128) = (4 * c) mod (4 * 128) + k"
    unfolding div_mult2_eq mod_mult2_eq using assms by simp_all
  then show "(4 * c + k) div 512 = c div 128" "(4 * c + k) mod 512 = (4 * c) mod 512 + k" by simp_all
qed

lemma entry_offset:
  fixes c :: u32
  assumes "table_ok fs" "unat c < unat (n_fatent fs)"
  shows "fs_type fs = FS_FAT16 \<Longrightarrow> unat (c * 2 mod 512) = 2 * unat c mod 512"
    "fs_type fs = FS_FAT32 \<Longrightarrow> unat (c * 4 mod 512) = 4 * unat c mod 512"
  using assms by (simp_all add: table_ok_def max_entries_def mip_simps unat_mod unat_word_ariths mult.commute)

lemma odd_unat: "odd (unat c) = odd (c :: u32)"
  by (simp add: bit_unsigned_iff flip: bit_0)

context sector_device
begin

text \<open>The window on the sector of a byte of the table.\<close>

lemma move_to_byte:
  assumes v: "vol fs" and i: "i < 512 * unat (fsize fs)" and k: "unat k = i div 512"
  shows "\<exists>fs'. move_window (fatbase fs + k) fs = Some (FR_OK, fs') \<and> vol fs' \<and> same_view ready sectors fs fs' \<and>
    winsect fs' = fatbase fs + k \<and> (\<forall>j. j div 512 = i div 512 \<longrightarrow> win fs' ! (j mod 512) = fat_byte sectors fs j)"
proof -
  have wf: "fat_wf ready sectors fs" using v by (simp add: vol_def)
  note n = sector_word [OF wf i k]
  obtain fs' where m: "move_window (fatbase fs + k) fs = Some (FR_OK, fs')" "vol fs'" "same_view ready sectors fs fs'"
      "winsect fs' = fatbase fs + k" "win fs' = view sectors fs (unat (fatbase fs) + i div 512)"
    using move_window_to [OF v, of "fatbase fs + k"] table_sector [OF wf i] n by auto
  have "win fs' ! (j mod 512) = fat_byte sectors fs j" if "j div 512 = i div 512" for j
  proof -
    have "j < 512 * unat (fsize fs)" using i that by (metis div_less_iff_less_mult mult.commute zero_less_numeral)
    with m(5) that show ?thesis by (simp add: fat_byte_def)
  qed
  with m show ?thesis by blast
qed

text \<open>A byte changed in the window.\<close>

lemma set_byte:
  fixes b :: u8
  assumes v: "vol fs" and i: "i < 512 * unat (fsize fs)" and w: "unat (winsect fs) = unat (fatbase fs) + i div 512"
  defines "fs' \<equiv> set_win ((win fs)[i mod 512 := b]) fs"
  shows "vol fs'" "same_data sectors fs fs'" "fat_byte sectors fs' = (fat_byte sectors fs)(i := b)"
proof -
  have wf: "fat_wf ready sectors fs" using v by (simp add: vol_def)
  have sel: "fs' = fs\<lparr>win := (win fs)[i mod 512 := b], wflag := True\<rparr>" by (simp add: fs'_def set_win_def)
  have mir: "in_mirror fs' = in_mirror fs" by (simp add: sel in_mirror_def fun_eq_iff)
  have "window_ok sectors fs'" using wf mir by (simp add: sel fat_wf_def window_ok_def)
  moreover have "copies_ok sectors fs'" unfolding copies_ok_def
  proof (intro impI allI)
    fix j assume a: "n_fats fs' = 2" "j < unat (fsize fs')" "\<not> (wflag fs' \<and> unat (winsect fs') = unat (fatbase fs') + j)"
    with wf show "sectors (fs_dev fs') ! (unat (fatbase fs') + unat (fsize fs') + j) = sectors (fs_dev fs') ! (unat (fatbase fs') + j)"
      by (simp add: sel fat_wf_def copies_ok_def)
  qed
  ultimately show "vol fs'" using v wf by (simp add: vol_def sel fat_wf_def place_ok_def)
  have lt: "i div 512 < unat (fsize fs)" using i by (simp add: less_mult_imp_div_less mult.commute)
  have len: "length (win fs) = 512" using wf by (simp add: fat_wf_def window_ok_def)
  have "rewound fs fs'" unfolding rewound_def sel
    by (intro exI [of _ True] exI [of _ "winsect fs"] exI [of _ "(win fs)[i mod 512 := b]"] exI [of _ "fs_dev fs"]) simp
  moreover have "in_table fs (unat (winsect fs))" using lt w wf by (auto simp: in_table_def fat_wf_def place_ok_def)
  ultimately show "same_data sectors fs fs'" by (auto simp: same_data_def sel view_def)
  show "fat_byte sectors fs' = (fat_byte sectors fs)(i := b)"
  proof
    fix j
    have "j = i \<longleftrightarrow> j div 512 = i div 512 \<and> j mod 512 = i mod 512" by (metis div_mult_mod_eq)
    then show "fat_byte sectors fs' j = ((fat_byte sectors fs)(i := b)) j"
      using i w len by (auto simp: fat_byte_def sel view_def)
  qed
qed

lemma get_fat12:
  assumes v: "vol fs" and tab: "table_ok fs" and c: "2 \<le> unat c" "unat c < unat (n_fatent fs)" and ty: "fs_type fs = FS_FAT12"
  shows "\<exists>fs'. get_fat c fs = Some (entry sectors fs (unat c), fs') \<and> vol fs' \<and> same_view ready sectors fs fs'"
proof -
  let ?i = "at12 (unat c)" and ?F = "fat_byte sectors fs"
  have lt: "?i + 1 < 512 * unat (fsize fs)" by (rule entry_place(1) [OF tab c(2) ty])
  have small: "unat c < 0x1000" using tab c(2) ty by (simp add: table_ok_def max_entries_def)
  note ofs = unat_fat12_ofs [OF small]
  have k: "unat (fat12_ofs c div 512) = ?i div 512" "unat ((fat12_ofs c + 1) div 512) = (?i + 1) div 512"
    using ofs by (simp_all add: unat_div)
  have j: "unat (fat12_ofs c mod 512) = ?i mod 512" "unat ((fat12_ofs c + 1) mod 512) = (?i + 1) mod 512"
    using ofs by (simp_all add: unat_mod)
  have "?i < 512 * unat (fsize fs)" using lt by simp
  then obtain fs1 where m1: "move_window (fatbase fs + fat12_ofs c div 512) fs = Some (FR_OK, fs1)" "vol fs1"
      "same_view ready sectors fs fs1" "win fs1 ! (?i mod 512) = ?F ?i"
    using move_to_byte [OF v _ k(1)] by blast
  have geo: "fsize fs1 = fsize fs" "fatbase fs1 = fatbase fs" using rewound_simps [OF same_view_rewound [OF m1(3)]] by simp_all
  have F1: "fat_byte sectors fs1 = ?F" using same_view_fat_byte [OF m1(3)] v by (simp add: vol_def)
  obtain fs2 where m2: "move_window (fatbase fs + (fat12_ofs c + 1) div 512) fs1 = Some (FR_OK, fs2)" "vol fs2"
      "same_view ready sectors fs1 fs2" "win fs2 ! ((?i + 1) mod 512) = ?F (?i + 1)"
    using move_to_byte [OF m1(2) _ k(2)] lt unfolding geo F1 by blast
  have at: "win_at (fat12_ofs c) fs1 ! 0 = ?F ?i" "win_at (fat12_ofs c + 1) fs2 ! 0 = ?F (?i + 1)"
    using m1(2,4) m2(2,4) unfolding win_at_def j by (simp_all add: vol_def fat_wf_def window_ok_def)
  have rng: "\<not> (c < 2 \<or> n_fatent fs \<le> c)" using c by (simp add: word_less_nat_alt word_le_nat_alt)
  have "get_fat c fs = Some (entry sectors fs (unat c), fs2)"
    using m1(1) m2(1) at ty rng by (simp add: get_fat_def geo entry_def fat_entry_def Let_def odd_unat del: drop_bit_or)
  with m2(2) same_view_trans [OF m1(3) m2(3)] show ?thesis by blast
qed

lemma get_fat16:
  assumes v: "vol fs" and tab: "table_ok fs" and c: "2 \<le> unat c" "unat c < unat (n_fatent fs)" and ty: "fs_type fs = FS_FAT16"
  shows "\<exists>fs'. get_fat c fs = Some (entry sectors fs (unat c), fs') \<and> vol fs' \<and> same_view ready sectors fs fs'"
proof -
  let ?i = "2 * unat c" and ?F = "fat_byte sectors fs"
  have "?i < 512 * unat (fsize fs)" using entry_place(2) [OF tab c(2) ty] by simp
  moreover have "unat (c div 256) = ?i div 512" by (simp add: unat_div aligned2)
  ultimately obtain fs1 where m: "move_window (fatbase fs + c div 256) fs = Some (FR_OK, fs1)" "vol fs1"
      "same_view ready sectors fs fs1" "\<forall>j. j div 512 = ?i div 512 \<longrightarrow> win fs1 ! (j mod 512) = ?F j"
    using move_to_byte [OF v] by blast
  have "length (win fs1) = 512" using m(2) by (simp add: vol_def fat_wf_def window_ok_def)
  then have "win_at (c * 2) fs1 ! 0 = ?F ?i" "win_at (c * 2) fs1 ! 1 = ?F (?i + 1)"
    using m(4) [rule_format, of ?i] m(4) [rule_format, of "?i + 1"] unfolding win_at_def entry_offset(1) [OF tab c(2) ty]
    by (simp_all only: nth_drop aligned2 add_0_right less_imp_le mod_less_divisor zero_less_numeral)
  then have "ld_word (win_at (c * 2) fs1) = raw16 ?F ?i" by (simp only: ld_word_def raw16_def)
  moreover have "\<not> (c < 2 \<or> n_fatent fs \<le> c)" using c by (simp add: word_less_nat_alt word_le_nat_alt)
  ultimately have "get_fat c fs = Some (entry sectors fs (unat c), fs1)"
    using m(1) ty by (simp add: get_fat_def entry_def fat_entry_def mip_simps)
  with m(2,3) show ?thesis by blast
qed

lemma get_fat32:
  assumes v: "vol fs" and tab: "table_ok fs" and c: "2 \<le> unat c" "unat c < unat (n_fatent fs)" and ty: "fs_type fs = FS_FAT32"
  shows "\<exists>fs'. get_fat c fs = Some (entry sectors fs (unat c), fs') \<and> vol fs' \<and> same_view ready sectors fs fs' \<and>
    unat (winsect fs') = unat (fatbase fs) + 4 * unat c div 512 \<and> ld_dword (win_at (c * 4) fs') = raw32 (fat_byte sectors fs) (4 * unat c)"
proof -
  let ?i = "4 * unat c" and ?F = "fat_byte sectors fs"
  have i: "?i < 512 * unat (fsize fs)" using entry_place(3) [OF tab c(2) ty] by simp
  have k: "unat (c div 128) = ?i div 512" using aligned4(1) [of 0] by (simp add: unat_div)
  obtain fs1 where m: "move_window (fatbase fs + c div 128) fs = Some (FR_OK, fs1)" "vol fs1"
      "same_view ready sectors fs fs1" "winsect fs1 = fatbase fs + c div 128"
      "\<forall>j. j div 512 = ?i div 512 \<longrightarrow> win fs1 ! (j mod 512) = ?F j"
    using move_to_byte [OF v i k] by blast
  have len: "length (win fs1) = 512" using m(2) by (simp add: vol_def fat_wf_def window_ok_def)
  have at: "win_at (c * 4) fs1 ! j = ?F (?i + j)" if "j < 4" for j
    using m(5) [rule_format, of "?i + j"] len aligned4 [OF that] aligned4(1) [of 0 "unat c"]
    unfolding win_at_def entry_offset(2) [OF tab c(2) ty] by (simp add: less_imp_le)
  have "ld_dword (win_at (c * 4) fs1) = raw32 ?F ?i" by (simp only: ld_dword_def raw32_def at [of 0, simplified] at rel_simps add_0_right)
  moreover have "\<not> (c < 2 \<or> n_fatent fs \<le> c)" using c by (simp add: word_less_nat_alt word_le_nat_alt)
  ultimately have "get_fat c fs = Some (entry sectors fs (unat c), fs1)"
    using m(1) ty by (simp add: get_fat_def entry_def fat_entry_def mip_simps)
  moreover have "unat (winsect fs1) = unat (fatbase fs) + ?i div 512" using sector_word [of ready sectors, OF _ i k] v m(4) by (simp add: vol_def)
  ultimately show ?thesis using m(2,3) \<open>ld_dword (win_at (c * 4) fs1) = raw32 ?F ?i\<close> by blast
qed

lemma get_fat_entry:
  assumes "vol fs" "table_ok fs" "2 \<le> unat c" "unat c < unat (n_fatent fs)"
  shows "\<exists>fs'. get_fat c fs = Some (entry sectors fs (unat c), fs') \<and> vol fs' \<and> same_view ready sectors fs fs'"
  using get_fat12 [OF assms] get_fat16 [OF assms] get_fat32 [OF assms] assms(2) by (auto simp: table_ok_def)

text \<open>Several bytes changed in the window, one after the other.\<close>

definition patched :: "'s FATFS \<Rightarrow> (nat \<Rightarrow> u8) \<Rightarrow> 's FATFS \<Rightarrow> bool" where
  "patched fs G a \<longleftrightarrow> vol a \<and> same_data sectors fs a \<and> winsect a = winsect fs \<and> fat_byte sectors a = G"

lemma patched_start: "vol fs \<Longrightarrow> patched fs (fat_byte sectors fs) fs"
  by (simp add: patched_def same_data_refl)

lemma patch:
  assumes p: "patched fs G a" and i: "i < 512 * unat (fsize fs)" "unat (winsect fs) = unat (fatbase fs) + i div 512"
  shows "patched fs (G(i := b)) (set_win ((win a)[i mod 512 := b]) a)"
proof -
  have geo: "fsize a = fsize fs" "fatbase a = fatbase fs" "winsect a = winsect fs" "fat_byte sectors a = G" "vol a" "same_data sectors fs a"
    using p rewound_simps [OF same_data_rewound, of sectors fs a] by (simp_all add: patched_def)
  then have "i < 512 * unat (fsize a)" "unat (winsect a) = unat (fatbase a) + i div 512" using i by simp_all
  from set_byte [OF geo(5) this, of b] geo same_data_trans show ?thesis
    by (auto simp: patched_def) (simp add: set_win_def)
qed

lemma set_win_again [simp]: "set_win w (set_win w' fs) = set_win w fs" "win (set_win w fs) = w"
  by (simp_all add: set_win_def)

text \<open>The window moved to a byte of the table, and the byte changed there.\<close>

lemma move_and_set:
  assumes v: "vol fs" and i: "i < 512 * unat (fsize fs)" and k: "unat k = i div 512"
  shows "\<exists>fs1. move_window (fatbase fs + k) fs = Some (FR_OK, fs1) \<and> win fs1 ! (i mod 512) = fat_byte sectors fs i \<and>
    fatbase fs1 = fatbase fs \<and>
    (\<forall>b. vol (set_win ((win fs1)[i mod 512 := b]) fs1) \<and> same_data sectors fs (set_win ((win fs1)[i mod 512 := b]) fs1) \<and>
       fat_byte sectors (set_win ((win fs1)[i mod 512 := b]) fs1) = (fat_byte sectors fs)(i := b))"
proof -
  obtain fs1 where m: "move_window (fatbase fs + k) fs = Some (FR_OK, fs1)" "vol fs1" "same_view ready sectors fs fs1"
      "winsect fs1 = fatbase fs + k" "win fs1 ! (i mod 512) = fat_byte sectors fs i"
    using move_to_byte [OF v i k] by blast
  have geo: "fsize fs1 = fsize fs" "fatbase fs1 = fatbase fs" using rewound_simps [OF same_view_rewound [OF m(3)]] by simp_all
  have F1: "fat_byte sectors fs1 = fat_byte sectors fs" using same_view_fat_byte [OF m(3)] v by (simp add: vol_def)
  have w: "unat (winsect fs1) = unat (fatbase fs1) + i div 512"
    using sector_word [of ready sectors, OF _ i k] v m(4) geo by (simp add: vol_def)
  have "i < 512 * unat (fsize fs1)" using i geo by simp
  from set_byte [OF m(2) this w] F1 same_data_trans [OF same_view_same_data [OF m(3)]] m(1,5) geo(2) show ?thesis by auto
qed

lemma put_fat12:
  assumes v: "vol fs" and tab: "table_ok fs" and c: "2 \<le> unat c" "unat c < unat (n_fatent fs)" and ty: "fs_type fs = FS_FAT12"
  shows "\<exists>fs'. put_fat c x fs = Some (FR_OK, fs') \<and> vol fs' \<and> same_data sectors fs fs' \<and>
    fat_byte sectors fs' = fat_store FS_FAT12 (fat_byte sectors fs) (unat c) x"
proof -
  let ?i = "at12 (unat c)" and ?F = "fat_byte sectors fs"
  let ?b = "if odd c then (?F ?i AND 0xF) OR push_bit 4 (ucast x) else ucast x"
  let ?d = "if odd c then ucast (drop_bit 4 x) else (?F (?i + 1) AND 0xF0) OR (ucast (drop_bit 8 x) AND 0xF)"
  have lt: "?i + 1 < 512 * unat (fsize fs)" "?i < 512 * unat (fsize fs)" using entry_place(1) [OF tab c(2) ty] by simp_all
  have small: "unat c < 0x1000" using tab c(2) ty by (simp add: table_ok_def max_entries_def)
  note ofs = unat_fat12_ofs [OF small]
  have k: "unat (fat12_ofs c div 512) = ?i div 512" "unat ((fat12_ofs c + 1) div 512) = (?i + 1) div 512"
    using ofs by (simp_all add: unat_div)
  have j: "unat (fat12_ofs c mod 512) = ?i mod 512" "unat ((fat12_ofs c + 1) mod 512) = (?i + 1) mod 512"
    using ofs by (simp_all add: unat_mod)
  obtain fs1 where m1: "move_window (fatbase fs + fat12_ofs c div 512) fs = Some (FR_OK, fs1)" "win fs1 ! (?i mod 512) = ?F ?i"
      "fatbase fs1 = fatbase fs" and A: "\<And>b. vol (set_win ((win fs1)[?i mod 512 := b]) fs1)"
      "\<And>b. same_data sectors fs (set_win ((win fs1)[?i mod 512 := b]) fs1)"
      "\<And>b. fat_byte sectors (set_win ((win fs1)[?i mod 512 := b]) fs1) = ?F(?i := b)"
    using move_and_set [OF v lt(2) k(1)] by blast
  let ?a = "set_win ((win fs1)[?i mod 512 := ?b]) fs1"
  have geo: "fsize ?a = fsize fs" "fatbase ?a = fatbase fs" using rewound_simps [OF same_data_rewound [OF A(2)]] by simp_all
  have F: "(?F(?i := ?b)) (?i + 1) = ?F (?i + 1)" by simp
  have "?i + 1 < 512 * unat (fsize ?a)" using lt(1) geo by simp
  from move_and_set [OF A(1) this k(2)] obtain fs2 where
      m2: "move_window (fatbase fs + (fat12_ofs c + 1) div 512) ?a = Some (FR_OK, fs2)" "win fs2 ! ((?i + 1) mod 512) = ?F (?i + 1)"
      and B: "\<And>b. vol (set_win ((win fs2)[(?i + 1) mod 512 := b]) fs2)"
      "\<And>b. same_data sectors ?a (set_win ((win fs2)[(?i + 1) mod 512 := b]) fs2)"
      "\<And>b. fat_byte sectors (set_win ((win fs2)[(?i + 1) mod 512 := b]) fs2) = ?F(?i := ?b, ?i + 1 := b)"
    unfolding geo A(3) F by blast
  let ?r = "set_win ((win fs2)[(?i + 1) mod 512 := ?d]) fs2"
  have "c \<ge> 2 \<and> c < n_fatent fs" using c by (simp add: word_less_nat_alt word_le_nat_alt)
  then have "put_fat c x fs = Some (FR_OK, ?r)"
    using m1(1,2) m2 ty unfolding put_fat_def j Let_def by (cases "odd c") (simp_all add: m1(3))
  moreover have "same_data sectors fs ?r" using A(2) B(2) by (rule same_data_trans)
  moreover have "fat_byte sectors ?r = fat_store FS_FAT12 ?F (unat c) x" unfolding B(3) fat_store_def by (simp add: odd_unat)
  ultimately show ?thesis using B(1) by blast
qed

text \<open>The window after \<^verbatim>\<open>st_word\<close> and \<^verbatim>\<open>st_dword\<close>: the same bytes of the table changed.\<close>

lemma st_word_patched:
  assumes v: "vol fs" and i: "2 * c + 1 < 512 * unat (fsize fs)" "unat (winsect fs) = unat (fatbase fs) + 2 * c div 512"
  shows "patched fs ((fat_byte sectors fs)(2 * c := ucast x, 2 * c + 1 := ucast (drop_bit 8 x)))
    (set_win (st_word (win fs) (2 * c mod 512) x) fs)"
proof -
  have "unat (winsect fs) = unat (fatbase fs) + (2 * c + 1) div 512" using i(2) by (simp only: aligned2)
  from patch [OF patch [OF patched_start [OF v] _ i(2)] i(1) this, of "ucast x" "ucast (drop_bit 8 x)"] i(1) show ?thesis
    by (simp add: st_word_def aligned2 [simplified])
qed

lemma st_dword_patched:
  assumes v: "vol fs" and i: "4 * c + 3 < 512 * unat (fsize fs)" "unat (winsect fs) = unat (fatbase fs) + 4 * c div 512"
  shows "patched fs (store32 (fat_byte sectors fs) (4 * c) x) (set_win (st_dword (win fs) (4 * c mod 512) x) fs)"
proof -
  have w: "unat (winsect fs) = unat (fatbase fs) + (4 * c + k) div 512" "4 * c + k < 512 * unat (fsize fs)" if "k < 4" for k
    using i that aligned4(1) [OF that] aligned4(1) [of 0 c] by simp_all
  have m: "(4 * c + k) mod 512 = 4 * c mod 512 + k" if "k < 4" for k by (rule aligned4(2) [OF that])
  from patch [OF patch [OF patch [OF patch [OF patched_start [OF v] w(2,1) [of 0]] w(2,1) [of 1]] w(2,1) [of 2]] w(2,1) [of 3],
      of "ucast x" "ucast (drop_bit 8 x)" "ucast (drop_bit 8 (drop_bit 8 x))" "ucast (drop_bit 8 (drop_bit 8 (drop_bit 8 x)))"]
  show ?thesis by (simp only: m st_dword_def store32_def set_win_again add_0_right rel_simps)
qed

lemma patched_from:
  assumes "vol fs" "same_view ready sectors fs fs1" "patched fs1 G a"
  shows "vol a" "same_data sectors fs a" "fat_byte sectors a = G"
  using assms same_data_trans [OF same_view_same_data [OF assms(2)]] by (auto simp: patched_def)

lemma put_fat16:
  assumes v: "vol fs" and tab: "table_ok fs" and c: "2 \<le> unat c" "unat c < unat (n_fatent fs)" and ty: "fs_type fs = FS_FAT16"
  shows "\<exists>fs'. put_fat c x fs = Some (FR_OK, fs') \<and> vol fs' \<and> same_data sectors fs fs' \<and>
    fat_byte sectors fs' = fat_store FS_FAT16 (fat_byte sectors fs) (unat c) x"
proof -
  let ?i = "2 * unat c" and ?F = "fat_byte sectors fs"
  have lt: "?i + 1 < 512 * unat (fsize fs)" by (rule entry_place(2) [OF tab c(2) ty])
  then have i: "?i < 512 * unat (fsize fs)" by simp
  have k: "unat (c div 256) = ?i div 512" by (simp add: unat_div aligned2)
  obtain fs1 where m: "move_window (fatbase fs + c div 256) fs = Some (FR_OK, fs1)" "vol fs1"
      "same_view ready sectors fs fs1" "winsect fs1 = fatbase fs + c div 256"
    using move_to_byte [OF v i k] by blast
  have geo: "fsize fs1 = fsize fs" "fatbase fs1 = fatbase fs" using rewound_simps [OF same_view_rewound [OF m(3)]] by simp_all
  have F1: "fat_byte sectors fs1 = ?F" using same_view_fat_byte [OF m(3)] v by (simp add: vol_def)
  have "unat (winsect fs1) = unat (fatbase fs1) + 2 * unat c div 512"
    using sector_word [of ready sectors, OF _ i k] v m(4) geo by (simp add: vol_def)
  from st_word_patched [OF m(2) _ this, of "ucast x"] lt
  have "patched fs1 (?F(?i := ucast (ucast x :: u16), ?i + 1 := ucast (drop_bit 8 (ucast x :: u16))))
      (set_win (st_word (win fs1) (?i mod 512) (ucast x)) fs1)"
    unfolding F1 geo by blast
  note r = patched_from [OF v m(3) this]
  have "c \<ge> 2 \<and> c < n_fatent fs" using c by (simp add: word_less_nat_alt word_le_nat_alt)
  then have "put_fat c x fs = Some (FR_OK, set_win (st_word (win fs1) (?i mod 512) (ucast x)) fs1)"
    using m(1) ty entry_offset(1) [OF tab c(2) ty] by (simp add: put_fat_def mip_simps)
  with r show ?thesis by (auto simp: fat_store_def mip_simps)
qed

lemma put_fat32:
  assumes v: "vol fs" and tab: "table_ok fs" and c: "2 \<le> unat c" "unat c < unat (n_fatent fs)" and ty: "fs_type fs = FS_FAT32"
  shows "\<exists>fs'. put_fat c x fs = Some (FR_OK, fs') \<and> vol fs' \<and> same_data sectors fs fs' \<and>
    fat_byte sectors fs' = fat_store FS_FAT32 (fat_byte sectors fs) (unat c) x"
proof -
  let ?i = "4 * unat c" and ?F = "fat_byte sectors fs"
  let ?x = "(x AND 0x0FFFFFFF) OR (raw32 ?F ?i AND 0xF0000000)"
  have rng: "c \<ge> 2 \<and> c < n_fatent fs" using c by (simp add: word_less_nat_alt word_le_nat_alt)
  have lt: "?i + 3 < 512 * unat (fsize fs)" by (rule entry_place(3) [OF tab c(2) ty])
  obtain fs1 where m: "get_fat c fs = Some (entry sectors fs (unat c), fs1)" "vol fs1" "same_view ready sectors fs fs1"
      "unat (winsect fs1) = unat (fatbase fs) + ?i div 512" "ld_dword (win_at (c * 4) fs1) = raw32 ?F ?i"
    using get_fat32 [OF v tab c ty] by blast
  have mv: "move_window (fatbase fs + c div 128) fs = Some (FR_OK, fs1)"
    using m(1) rng ty move_to_byte [OF v, of ?i "c div 128"] lt aligned4(1) [of 0 "unat c"]
    by (fastforce simp: get_fat_def mip_simps unat_div not_less not_le split: if_splits)
  have geo: "fsize fs1 = fsize fs" "fatbase fs1 = fatbase fs" using rewound_simps [OF same_view_rewound [OF m(3)]] by simp_all
  have F1: "fat_byte sectors fs1 = ?F" using same_view_fat_byte [OF m(3)] v by (simp add: vol_def)
  from st_dword_patched [OF m(2), of "unat c" ?x] lt m(4)
  have "patched fs1 (store32 ?F ?i ?x) (set_win (st_dword (win fs1) (?i mod 512) ?x) fs1)" unfolding F1 geo by blast
  note r = patched_from [OF v m(3) this]
  have "put_fat c x fs = Some (FR_OK, set_win (st_dword (win fs1) (?i mod 512) ?x) fs1)"
    using mv rng ty entry_offset(2) [OF tab c(2) ty] m(5) by (simp add: put_fat_def mip_simps)
  with r show ?thesis by (auto simp: fat_store_def mip_simps)
qed

lemma put_fat_entry:
  assumes "vol fs" "table_ok fs" "2 \<le> unat c" "unat c < unat (n_fatent fs)"
  shows "\<exists>fs'. put_fat c x fs = Some (FR_OK, fs') \<and> vol fs' \<and> same_data sectors fs fs' \<and>
    entry sectors fs' = (entry sectors fs)(unat c := x AND entry_mask (fs_type fs))"
proof -
  obtain fs' where r: "put_fat c x fs = Some (FR_OK, fs')" "vol fs'" "same_data sectors fs fs'"
      "fat_byte sectors fs' = fat_store (fs_type fs) (fat_byte sectors fs) (unat c) x"
    using put_fat12 [OF assms, of x] put_fat16 [OF assms, of x] put_fat32 [OF assms, of x] assms(2) by (auto simp: table_ok_def)
  have "fs_type fs' = fs_type fs" using rewound_simps(1) [OF same_data_rewound [OF r(3)]] .
  then have "entry sectors fs' = (entry sectors fs)(unat c := x AND entry_mask (fs_type fs))"
    by (intro ext) (simp add: entry_def r(4) fat_entry_store_same fat_entry_store_other)
  with r show ?thesis by blast
qed

end

end
