(* ===== verification/Mipos_Fat_Chain.thy ===== *)
theory Mipos_Fat_Chain
  imports Mipos_Fat_Access
begin

text \<open>
  Allocation and release of clusters. A file is a chain of entries of the table; \<^verbatim>\<open>create_chain\<close> takes
  a free cluster and links it behind the end of a chain, \<^verbatim>\<open>remove_chain\<close> gives back the clusters of a
  chain, and the count of free clusters that the volume carries stays right.
\<close>

unbundle bit_operations_syntax

subsection \<open>Chains\<close>

fun fat_chain :: "(nat \<Rightarrow> u32) \<Rightarrow> nat \<Rightarrow> nat list \<Rightarrow> bool" where
  "fat_chain E n [] = False"
| "fat_chain E n [x] = (2 \<le> x \<and> x < n \<and> n \<le> unat (E x))"
| "fat_chain E n (x # y # ys) = (2 \<le> x \<and> x < n \<and> unat (E x) = y \<and> fat_chain E n (y # ys))"

definition free_set :: "(nat \<Rightarrow> u32) \<Rightarrow> nat \<Rightarrow> nat set" where
  "free_set E n = {c. 2 \<le> c \<and> c < n \<and> E c = 0}"

definition sane :: "(nat \<Rightarrow> u32) \<Rightarrow> nat \<Rightarrow> bool" where
  "sane E n \<longleftrightarrow> (\<forall>c. 2 \<le> c \<and> c < n \<longrightarrow> E c \<noteq> 1)"

text \<open>The count of free clusters is right unless it is unknown.\<close>

definition count_ok :: "('s \<Rightarrow> octets list) \<Rightarrow> 's FATFS \<Rightarrow> bool" where
  "count_ok sectors fs \<longleftrightarrow> unat (free_clst fs) \<le> unat (n_fatent fs) - 2 \<longrightarrow>
     unat (free_clst fs) = card (free_set (entry sectors fs) (unat (n_fatent fs)))"

lemma finite_free_set [simp]: "finite (free_set E n)"
  by (rule finite_subset [of _ "{..<n}"]) (auto simp: free_set_def)

lemma fat_chain_head: "fat_chain E n (x # xs) \<Longrightarrow> 2 \<le> x \<and> x < n"
  by (cases xs) auto

lemma fat_chain_elem: "fat_chain E n xs \<Longrightarrow> x \<in> set xs \<Longrightarrow> 2 \<le> x \<and> x < n \<and> 2 \<le> unat (E x)"
proof (induction E n xs rule: fat_chain.induct)
  case (3 E n a y ys)
  then show ?case using fat_chain_head [of E n y ys] by auto
qed auto

lemma fat_chain_determined: "fat_chain E n (x # xs) \<Longrightarrow> fat_chain E n (x # ys) \<Longrightarrow> xs = ys"
proof (induction xs arbitrary: x ys)
  case Nil
  then show ?case using fat_chain_head by (cases ys) fastforce+
next
  case (Cons a xs)
  then show ?case using fat_chain_head by (cases ys) fastforce+
qed

lemma fat_chain_suffix: "fat_chain E n (xs @ y # ys) \<Longrightarrow> fat_chain E n (y # ys)"
proof (induction xs)
  case (Cons a xs)
  then show ?case by (cases xs) auto
qed simp

lemma fat_chain_distinct: "fat_chain E n xs \<Longrightarrow> distinct xs"
proof (induction xs)
  case (Cons x xs)
  have "x \<notin> set xs"
  proof
    assume "x \<in> set xs"
    then obtain us vs where xs: "xs = us @ x # vs" by (auto dest: split_list)
    then have "fat_chain E n (x # vs)" using Cons.prems fat_chain_suffix [of E n "x # us"] by simp
    then have "xs = vs" using Cons.prems fat_chain_determined by blast
    with xs show False by simp
  qed
  moreover have "xs = [] \<or> fat_chain E n xs" using Cons.prems by (cases xs) auto
  ultimately show ?case using Cons.IH by auto
qed simp

lemma fat_chain_cong: "fat_chain E n xs \<Longrightarrow> (\<And>x. x \<in> set xs \<Longrightarrow> E' x = E x) \<Longrightarrow> fat_chain E' n xs"
  by (induction E n xs rule: fat_chain.induct) auto

lemma fat_chain_extend:
  assumes "fat_chain E n (xs @ [l])" "2 \<le> r" "r < n" "r \<notin> set (xs @ [l])" "unat (E' l) = r" "n \<le> unat (E' r)"
    "\<And>x. x \<in> set xs \<Longrightarrow> E' x = E x"
  shows "fat_chain E' n (xs @ [l, r])"
  using assms
proof (induction xs)
  case Nil
  then show ?case by simp
next
  case (Cons a xs)
  then show ?case by (cases xs) auto
qed

subsection \<open>The order of the search\<close>

text \<open>The clusters that \<^verbatim>\<open>create_chain\<close> still has to look at.\<close>

definition rest :: "nat \<Rightarrow> nat \<Rightarrow> nat \<Rightarrow> nat list" where
  "rest n s c = (if s \<le> c then [c + 1..<n] @ [2..<s + 1] else [c + 1..<s + 1])"

lemma rest_stop: "n \<le> c + 1 \<Longrightarrow> s < 2 \<Longrightarrow> s \<le> c \<Longrightarrow> rest n s c = []"
  by (simp add: rest_def)

lemma rest_step:
  assumes "1 \<le> s" "s < n" "1 \<le> c" "c < n" "\<not> (n \<le> c + 1 \<and> s < 2)" "m = (if n \<le> c + 1 then 2 else c + 1)"
  shows "2 \<le> m" "m < n" "rest n s c = m # (if m = s then [] else rest n s m)"
proof -
  show "2 \<le> m" "m < n" using assms by auto
  show "rest n s c = m # (if m = s then [] else rest n s m)"
  proof (cases "n \<le> c + 1")
    case True
    with assms have "c + 1 = n" "s \<le> c" "m = 2" "2 \<le> s" by auto
    then show ?thesis by (simp add: rest_def upt_conv_Cons)
  next
    case False
    with assms have m: "m = c + 1" "c + 1 < n" by auto
    have "[c + 1..<n] = (c + 1) # [Suc (c + 1)..<n]" using m(2) by (rule upt_conv_Cons)
    moreover have "\<not> s \<le> c \<Longrightarrow> [c + 1..<s + 1] = (c + 1) # [Suc (c + 1)..<s + 1]" by (rule upt_conv_Cons) simp
    ultimately show ?thesis unfolding m(1) rest_def by auto
  qed
qed

lemma set_rest: "1 \<le> s \<Longrightarrow> s < n \<Longrightarrow> set (rest n s s) = {2..<n}"
  by (auto simp: rest_def)

subsection \<open>Values of entries\<close>

lemma entry_not_error: "entry sectors fs c \<noteq> 0xFFFFFFFF"
proof
  assume "entry sectors fs c = 0xFFFFFFFF"
  moreover have "\<not> bit (entry sectors fs c) 31"
    by (auto simp: entry_def fat_entry_def masks Let_def bit_simps dest: bit_imp_le_length)
  ultimately have "\<not> bit (0xFFFFFFFF :: u32) 31" by simp
  then show False by simp
qed

text \<open>What marks the end of a chain.\<close>

definition eoc :: "u8 \<Rightarrow> u32" where
  "eoc ty = 0xFFFFFFFF AND entry_mask ty"

lemma eoc_end: "table_ok fs \<Longrightarrow> unat (n_fatent fs) \<le> unat (eoc (fs_type fs))" "eoc ty \<noteq> 0" "eoc ty \<noteq> 1"
  by (auto simp: table_ok_def eoc_def entry_mask_def max_entries_def mip_simps)

lemma masked_cluster:
  assumes "table_ok fs" "unat r < unat (n_fatent fs)"
  shows "r AND entry_mask (fs_type fs) = r"
proof -
  have small: "take_bit k r = r" if "unat r < 2 ^ k" for k
    using that by (simp add: word_unat_eq_iff unsigned_take_bit_eq take_bit_nat_eq_self)
  show ?thesis
    using assms small [of 12] small [of 16] small [of 28]
    by (auto simp: table_ok_def entry_mask_def max_entries_def masks mip_simps simp flip: take_bit_eq_mask)
qed

subsection \<open>Volumes up to the table and the counters\<close>

definition fs_shape :: "'s FATFS \<Rightarrow> _" where
  "fs_shape fs = (fs_type fs, fs_pdrv fs, n_fats fs, fs_id fs, n_rootdir fs, csize fs, n_fatent fs, fsize fs,
     volbase fs, fatbase fs, dirbase fs, fs_database fs, fs_table fs)"

definition table_only :: "('s \<Rightarrow> octets list) \<Rightarrow> 's FATFS \<Rightarrow> 's FATFS \<Rightarrow> bool" where
  "table_only sectors fs fs' \<longleftrightarrow> fs_shape fs' = fs_shape fs \<and> length (sectors (fs_dev fs')) = length (sectors (fs_dev fs)) \<and>
     (\<forall>n < length (sectors (fs_dev fs)). \<not> in_table fs n \<longrightarrow> view sectors fs' n = view sectors fs n)"

lemma shape_simps:
  assumes "fs_shape fs' = fs_shape fs"
  shows "fs_type fs' = fs_type fs" "n_fatent fs' = n_fatent fs" "fsize fs' = fsize fs" "fatbase fs' = fatbase fs" "n_fats fs' = n_fats fs"
    "csize fs' = csize fs" "fs_database fs' = fs_database fs" "table_ok fs' = table_ok fs" "in_table fs' = in_table fs"
  using assms by (auto simp: fs_shape_def table_ok_def in_table_def fun_eq_iff)

lemma table_only_shape: "table_only s fs fs' \<Longrightarrow> fs_shape fs' = fs_shape fs" by (simp add: table_only_def)

lemma table_only_refl: "table_only s fs fs" by (simp add: table_only_def)

lemma table_only_trans:
  assumes "table_only s a b" "table_only s b c"
  shows "table_only s a c"
  using assms shape_simps(9) [OF table_only_shape [OF assms(1)]] by (simp add: table_only_def)

lemma same_data_table_only:
  assumes "same_data s fs fs'"
  shows "table_only s fs fs'"
  using assms rewound_simps [OF same_data_rewound [OF assms]] by (simp add: table_only_def same_data_def fs_shape_def)

lemma same_view_table_only: "same_view r s fs fs' \<Longrightarrow> table_only s fs fs'"
  by (intro same_data_table_only same_view_same_data)

text \<open>The counters say nothing about the sectors.\<close>

lemma counters:
  "fat_volume t p r s (fs\<lparr>free_clst := f, fsi_flag := g\<rparr>) = fat_volume t p r s fs"
  "fat_volume t p r s (fs\<lparr>last_clst := l, free_clst := f, fsi_flag := g\<rparr>) = fat_volume t p r s fs"
  "entry s (fs\<lparr>free_clst := f, fsi_flag := g\<rparr>) = entry s fs"
  "entry s (fs\<lparr>last_clst := l, free_clst := f, fsi_flag := g\<rparr>) = entry s fs"
  "table_only s fs (fs\<lparr>free_clst := f, fsi_flag := g\<rparr>)"
  "table_only s fs (fs\<lparr>last_clst := l, free_clst := f, fsi_flag := g\<rparr>)"
proof -
  have b: "fat_byte s (fs\<lparr>free_clst := f, fsi_flag := g\<rparr>) = fat_byte s fs"
    "fat_byte s (fs\<lparr>last_clst := l, free_clst := f, fsi_flag := g\<rparr>) = fat_byte s fs"
    by (auto simp: fun_eq_iff fat_byte_def view_def)
  show "entry s (fs\<lparr>free_clst := f, fsi_flag := g\<rparr>) = entry s fs"
    "entry s (fs\<lparr>last_clst := l, free_clst := f, fsi_flag := g\<rparr>) = entry s fs" by (rule ext, simp add: entry_def b)+
qed (simp_all add: fat_volume_def fat_wf_def place_ok_def window_ok_def copies_ok_def in_mirror_def table_only_def fs_shape_def view_def)

subsection \<open>The search\<close>

definition found :: "nat option \<Rightarrow> u32 + u32" where
  "found r = (case r of None \<Rightarrow> Inl 0 | Some c \<Rightarrow> Inr (of_nat c))"

text \<open>A cluster that a new one can be linked to: none, or the end of a chain.\<close>

definition extensible :: "(nat \<Rightarrow> u32) \<Rightarrow> nat \<Rightarrow> nat \<Rightarrow> bool" where
  "extensible E n c \<longleftrightarrow> c = 0 \<or> 2 \<le> c \<and> c < n \<and> n \<le> unat (E c)"

text \<open>The table with a new cluster linked behind another.\<close>

definition linked :: "u8 \<Rightarrow> nat \<Rightarrow> nat \<Rightarrow> (nat \<Rightarrow> u32) \<Rightarrow> nat \<Rightarrow> u32" where
  "linked ty c r E = (if c = 0 then E(r := eoc ty) else E(r := eoc ty, c := of_nat r))"

lemma free_set_linked:
  assumes "r \<in> free_set E n" "extensible E n c" "n < 2 ^ 32"
  shows "free_set (linked ty c r E) n = free_set E n - {r}"
proof -
  have "of_nat r \<noteq> (0 :: u32)" using assms(1,3) by (auto simp: free_set_def word_unat_eq_iff unsigned_of_nat take_bit_nat_eq_self)
  then show ?thesis using assms(1,2) eoc_end(2) [of ty] by (auto simp: free_set_def linked_def extensible_def)
qed

lemma count_ok_taken:
  assumes "count_ok s fs" "free_clst fs \<noteq> 0" "r \<in> free_set (entry s fs) (unat (n_fatent fs))" "n_fatent fs' = n_fatent fs"
    "free_set (entry s fs') (unat (n_fatent fs)) = free_set (entry s fs) (unat (n_fatent fs)) - {r}"
    "2 < unat (n_fatent fs)" "free_clst fs' = (if free_clst fs \<le> n_fatent fs - 2 then free_clst fs - 1 else free_clst fs)"
  shows "count_ok s fs'"
proof -
  have "unat (n_fatent fs - 2) = unat (n_fatent fs) - 2" using assms(6) by (simp add: unat_sub word_le_nat_alt)
  then have "free_clst fs \<le> n_fatent fs - 2 \<longleftrightarrow> unat (free_clst fs) \<le> unat (n_fatent fs) - 2" by (simp add: word_le_nat_alt)
  moreover have "unat (free_clst fs - 1) = unat (free_clst fs) - 1" using assms(2) by (simp add: unat_minus_one)
  ultimately show ?thesis using assms(1,3-5,7) by (auto simp: count_ok_def)
qed

lemma count_ok_given:
  assumes "count_ok s fs" "2 \<le> c" "c < unat (n_fatent fs)" "c \<notin> free_set (entry s fs) (unat (n_fatent fs))" "n_fatent fs' = n_fatent fs"
    "free_set (entry s fs') (unat (n_fatent fs)) = insert c (free_set (entry s fs) (unat (n_fatent fs)))"
    "free_clst fs' = (if free_clst fs < n_fatent fs - 2 then free_clst fs + 1 else free_clst fs)"
  shows "count_ok s fs'"
proof -
  let ?n = "unat (n_fatent fs)" and ?A = "free_set (entry s fs) (unat (n_fatent fs))"
  have n: "unat (n_fatent fs - 2) = ?n - 2" using assms(2,3) by (simp add: unat_sub word_le_nat_alt)
  have "insert c ?A \<subseteq> {2..<?n}" using assms(2,3) by (auto simp: free_set_def)
  then have "card (insert c ?A) \<le> ?n - 2" using card_mono [of "{2..<?n}"] by fastforce
  then have "card ?A < ?n - 2" using assms(4) by simp
  moreover have "unat (free_clst fs) < ?n - 2 \<Longrightarrow> unat (free_clst fs + 1) = unat (free_clst fs) + 1"
    using unsigned_less [of "n_fatent fs", where 'a = nat] by (simp add: unat_word_ariths)
  ultimately show ?thesis using assms(1,4-7) n by (auto simp: count_ok_def word_less_nat_alt)
qed

definition released :: "nat set \<Rightarrow> (nat \<Rightarrow> u32) \<Rightarrow> nat \<Rightarrow> u32" where
  "released X E x = (if x \<in> X then 0 else E x)"

context sector_device
begin

lemma find_free:
  assumes "vol fs" "table_ok fs" "sane E n" "E = entry sectors fs" "n = unat (n_fatent fs)"
    and "1 \<le> unat scl" "unat scl < n" "1 \<le> unat cur" "unat cur < n"
  shows "\<exists>fs'. find_free_loop scl cur fs = Some (found (find (\<lambda>c. E c = 0) (rest n (unat scl) (unat cur))), fs') \<and>
    vol fs' \<and> same_view ready sectors fs fs'"
  using assms
proof (induction "length (rest n (unat scl) (unat cur))" arbitrary: cur fs rule: less_induct)
  case less
  note a = less.prems
  have n: "n \<le> 0x0FFFFFF7" using a(2,5) by (auto simp: table_ok_def max_entries_def mip_simps split: if_splits)
  then have suc: "unat (cur + 1) = unat cur + 1" using a(9) by (simp add: unat_word_ariths)
  have wrap: "cur + 1 \<ge> n_fatent fs \<longleftrightarrow> n \<le> unat cur + 1" using suc a(5) by (simp add: word_le_nat_alt)
  have two: "2 > scl \<longleftrightarrow> unat scl < 2" by (simp add: word_less_nat_alt)
  define m where "m = (if n \<le> unat cur + 1 then 2 else unat cur + 1)"
  define ncl where "ncl = (if n \<le> unat cur + 1 then 2 else cur + 1)"
  have m: "unat ncl = m" using wrap suc by (simp add: ncl_def m_def)
  have loop0: "find_free_loop scl cur fs = (if n \<le> unat cur + 1 \<and> unat scl < 2 then Some (Inl 0, fs)
      else do { (cs, fs1) \<leftarrow> get_fat ncl fs;
        if cs = 0 then Some (Inr ncl, fs1) else if cs = 1 \<or> cs = 0xFFFFFFFF then Some (Inl cs, fs1)
        else if ncl = scl then Some (Inl 0, fs1) else find_free_loop scl ncl fs1 })"
    unfolding find_free_loop.simps [of scl cur fs] Let_def wrap two ncl_def by (rule refl)
  show ?case
  proof (cases "n \<le> unat cur + 1 \<and> unat scl < 2")
    case True
    then have "rest n (unat scl) (unat cur) = []" using a(6,8) by (intro rest_stop) auto
    with True loop0 a(1) same_view_refl show ?thesis by (auto simp: found_def vol_def)
  next
    case False
    note step = rest_step [OF a(6-9) False m_def]
    have "2 \<le> unat ncl" "unat ncl < unat (n_fatent fs)" using step(1,2) a(5) m by auto
    from get_fat_entry [OF a(1,2) this] obtain fs1 where g: "get_fat ncl fs = Some (E m, fs1)" "vol fs1" "same_view ready sectors fs fs1"
      unfolding m a(4) [symmetric] by blast
    have ne: "E m \<noteq> 1" "E m \<noteq> 0xFFFFFFFF" using a(3,4) step(1,2) entry_not_error by (auto simp: sane_def)
    have same: "ncl = scl \<longleftrightarrow> m = unat scl" using m by (metis unsigned_word_eqI)
    have loop: "find_free_loop scl cur fs =
        (if E m = 0 then Some (Inr ncl, fs1) else if m = unat scl then Some (Inl 0, fs1) else find_free_loop scl ncl fs1)"
      unfolding loop0 if_not_P [OF False] g(1) by (simp add: ne same)
    have nat_m: "of_nat m = ncl" unfolding m [symmetric] by simp
    show ?thesis
    proof (cases "E m = 0 \<or> m = unat scl")
      case True
      then show ?thesis using g(2,3) unfolding loop step(3) by (auto simp: found_def nat_m)
    next
      case rec: False
      have geo: "n_fatent fs1 = n_fatent fs" using rewound_simps [OF same_view_rewound [OF g(3)]] by simp
      have E1: "E = entry sectors fs1" using same_view_entry [OF g(3)] a(1,4) by (simp add: vol_def)
      have t1: "table_ok fs1" using a(2) table_ok_rewound [OF same_view_rewound [OF g(3)]] by simp
      have r: "rest n (unat scl) (unat cur) = m # rest n (unat scl) (unat ncl)" using step(3) rec m by simp
      have "length (rest n (unat scl) (unat ncl)) < length (rest n (unat scl) (unat cur))" unfolding r by simp
      moreover have "n = unat (n_fatent fs1)" "1 \<le> unat ncl" "unat ncl < n" using a(5) geo step(1,2) m by auto
      ultimately obtain fs2 where
          f: "find_free_loop scl ncl fs1 = Some (found (find (\<lambda>c. E c = 0) (rest n (unat scl) (unat ncl))), fs2)" "vol fs2"
          "same_view ready sectors fs1 fs2" using less.hyps [OF _ g(2) t1 a(3) E1 _ a(6,7), of ncl] by blast
      from f(2) same_view_trans [OF g(3) f(3)] show ?thesis unfolding loop r using rec f(1) by auto
    qed
  qed
qed

text \<open>The cluster that is picked: a free one, if there is one.\<close>

definition picks :: "(nat \<Rightarrow> u32) \<Rightarrow> nat \<Rightarrow> u32 + u32 \<Rightarrow> bool" where
  "picks E n r \<longleftrightarrow> (case r of Inl v \<Rightarrow> v = 0 \<and> free_set E n = {} | Inr c \<Rightarrow> unat c \<in> free_set E n)"

lemma found_picks:
  assumes "1 \<le> scl" "scl < n" "n < 2 ^ 32"
  shows "picks E n (found (find (\<lambda>c. E c = 0) (rest n scl scl)))"
proof (cases "find (\<lambda>c. E c = 0) (rest n scl scl)")
  case None
  then have "\<forall>c \<in> {2..<n}. E c \<noteq> 0" unfolding set_rest [OF assms(1,2), symmetric] by (auto simp: find_None_iff)
  then show ?thesis using None by (auto simp: picks_def found_def free_set_def)
next
  case (Some c)
  then have "c \<in> {2..<n}" "E c = 0" unfolding set_rest [OF assms(1,2), symmetric] by (auto simp: find_Some_iff)
  moreover from this assms(3) have "unat (of_nat c :: u32) = c" by (simp add: unsigned_of_nat take_bit_nat_eq_self)
  ultimately show ?thesis using Some by (auto simp: picks_def found_def free_set_def)
qed

lemma search_picks:
  assumes "vol fs" "table_ok fs" "sane (entry sectors fs) (unat (n_fatent fs))" "1 \<le> unat scl" "unat scl < unat (n_fatent fs)"
  shows "\<exists>r fs'. find_free_loop scl scl fs = Some (r, fs') \<and> picks (entry sectors fs) (unat (n_fatent fs)) r \<and> vol fs' \<and>
    same_view ready sectors fs fs'"
  using find_free [OF assms(1-3) refl refl assms(4,5,4,5)]
    found_picks [OF assms(4,5), of "entry sectors fs"] unsigned_less [of "n_fatent fs", where 'a = nat] by auto

lemma pick_cluster_picks:
  assumes v: "vol fs" and tab: "table_ok fs" and ok: "sane (entry sectors fs) (unat (n_fatent fs))"
    and s: "1 \<le> unat scl" "unat scl < unat (n_fatent fs)"
  shows "\<exists>r fs'. pick_cluster clst scl fs = Some (r, fs') \<and> picks (entry sectors fs) (unat (n_fatent fs)) r \<and> vol fs' \<and>
    same_view ready sectors fs fs'"
proof (cases "scl = clst")
  case False
  then show ?thesis using search_picks [OF assms] by (simp add: pick_cluster_def)
next
  case True
  let ?E = "entry sectors fs" and ?n = "unat (n_fatent fs)"
  define ncl where "ncl = (if scl + 1 \<ge> n_fatent fs then 2 else scl + 1)"
  have n: "2 < ?n" "?n \<le> 0x0FFFFFF7" using tab by (auto simp: table_ok_def max_entries_def mip_simps split: if_splits)
  then have "unat (scl + 1) = unat scl + 1" using s by (simp add: unat_word_ariths)
  then have rng: "2 \<le> unat ncl" "unat ncl < ?n" using s n by (auto simp: ncl_def word_le_nat_alt)
  obtain fs1 where g: "get_fat ncl fs = Some (?E (unat ncl), fs1)" "vol fs1" "same_view ready sectors fs fs1"
    using get_fat_entry [OF v tab rng] by blast
  have ne: "?E (unat ncl) \<noteq> 1" "?E (unat ncl) \<noteq> 0xFFFFFFFF" using ok rng entry_not_error by (auto simp: sane_def)
  define l where "l = (if last_clst fs1 \<ge> 2 \<and> last_clst fs1 < n_fatent fs1 then last_clst fs1 else scl)"
  have geo: "n_fatent fs1 = n_fatent fs" using rewound_simps [OF same_view_rewound [OF g(3)]] by simp
  have E1: "entry sectors fs1 = ?E" using same_view_entry [OF g(3)] v by (simp add: vol_def)
  have t1: "table_ok fs1" using tab table_ok_rewound [OF same_view_rewound [OF g(3)]] by simp
  have "1 \<le> unat l" "unat l < unat (n_fatent fs1)" using s geo by (auto simp: l_def word_le_nat_alt word_less_nat_alt)
  from search_picks [OF g(2) t1 _ this] ok obtain r fs2 where f: "find_free_loop l l fs1 = Some (r, fs2)" "picks ?E ?n r" "vol fs2"
      "same_view ready sectors fs1 fs2" unfolding E1 geo by blast
  have "pick_cluster clst scl fs = (if ?E (unat ncl) = 0 then Some (Inr ncl, fs1) else find_free_loop l l fs1)"
    unfolding pick_cluster_def Let_def ncl_def [symmetric] g(1) using True ne by (simp add: l_def)
  moreover have "?E (unat ncl) = 0 \<Longrightarrow> picks ?E ?n (Inr ncl)" using rng by (simp add: picks_def free_set_def)
  ultimately show ?thesis using g(2,3) f same_view_trans [OF g(3) f(4)] by auto
qed

lemma chain_start_ok:
  assumes "vol fs" "table_ok fs" "extensible (entry sectors fs) (unat (n_fatent fs)) (unat clst)"
  shows "\<exists>scl fs1. chain_start clst fs = Some (Inr scl, fs1) \<and> 1 \<le> unat scl \<and> unat scl < unat (n_fatent fs) \<and> vol fs1 \<and>
    same_view ready sectors fs fs1"
proof (cases "clst = 0")
  case True
  have n: "2 < unat (n_fatent fs)" using assms(2) by (simp add: table_ok_def)
  let ?l = "if last_clst fs = 0 \<or> last_clst fs \<ge> n_fatent fs then 1 else last_clst fs"
  have "1 \<le> unat ?l" "unat ?l < unat (n_fatent fs)"
    using n by (auto simp: word_le_nat_alt Suc_le_eq unat_gt_0)
  with True assms(1) same_view_refl show ?thesis by (auto simp: chain_start_def vol_def)
next
  case False
  then have c: "2 \<le> unat clst" "unat clst < unat (n_fatent fs)" "unat (n_fatent fs) \<le> unat (entry sectors fs (unat clst))"
    using assms(3) by (auto simp: extensible_def unsigned_eq_0_iff)
  obtain fs1 where g: "get_fat clst fs = Some (entry sectors fs (unat clst), fs1)" "vol fs1" "same_view ready sectors fs fs1"
    using get_fat_entry [OF assms(1,2) c(1,2)] by blast
  have "n_fatent fs1 = n_fatent fs" using rewound_simps [OF same_view_rewound [OF g(3)]] by simp
  then have "\<not> entry sectors fs (unat clst) < 2" "\<not> entry sectors fs (unat clst) < n_fatent fs1"
    using c by (simp_all add: word_less_nat_alt)
  with False g entry_not_error c show ?thesis by (auto simp: chain_start_def)
qed

lemma link_new:
  assumes v: "vol fs" and tab: "table_ok fs" and r: "unat r \<in> free_set (entry sectors fs) (unat (n_fatent fs))"
    and c: "extensible (entry sectors fs) (unat (n_fatent fs)) (unat clst)"
  shows "\<exists>fs3 fs4. put_fat r 0xFFFFFFFF fs = Some (FR_OK, fs3) \<and>
    (if clst \<noteq> 0 then put_fat clst r fs3 else Some (FR_OK, fs3)) = Some (FR_OK, fs4) \<and> vol fs4 \<and> same_data sectors fs fs4 \<and>
    entry sectors fs4 = linked (fs_type fs) (unat clst) (unat r) (entry sectors fs)"
proof -
  have rr: "2 \<le> unat r" "unat r < unat (n_fatent fs)" using r by (simp_all add: free_set_def)
  obtain fs3 where p: "put_fat r 0xFFFFFFFF fs = Some (FR_OK, fs3)" "vol fs3" "same_data sectors fs fs3"
      "entry sectors fs3 = (entry sectors fs)(unat r := eoc (fs_type fs))"
    using put_fat_entry [OF v tab rr] by (auto simp: eoc_def)
  note geo = rewound_simps [OF same_data_rewound [OF p(3)]]
  show ?thesis
  proof (cases "clst = 0")
    case True
    with p show ?thesis by (simp add: linked_def)
  next
    case False
    then have cc: "2 \<le> unat clst" "unat clst < unat (n_fatent fs3)" using c geo by (auto simp: extensible_def unsigned_eq_0_iff)
    have "table_ok fs3" using tab table_ok_rewound [OF same_data_rewound [OF p(3)]] by simp
    from put_fat_entry [OF p(2) this cc, of r] masked_cluster [OF tab rr(2)] geo(1) obtain fs4 where
        q: "put_fat clst r fs3 = Some (FR_OK, fs4)" "vol fs4" "same_data sectors fs3 fs4" "entry sectors fs4 = (entry sectors fs3)(unat clst := r)"
      by auto
    have "unat clst \<noteq> 0" using cc by simp
    with False p q same_data_trans show ?thesis by (auto simp: linked_def)
  qed
qed

lemma create_chain_ok:
  assumes v: "vol fs" and tab: "table_ok fs" and ok: "sane (entry sectors fs) (unat (n_fatent fs))" and cnt: "count_ok sectors fs"
    and ext: "extensible (entry sectors fs) (unat (n_fatent fs)) (unat clst)"
  shows "\<exists>r fs'. create_chain clst fs = Some (r, fs') \<and> vol fs' \<and> table_only sectors fs fs' \<and> count_ok sectors fs' \<and>
    (if free_set (entry sectors fs) (unat (n_fatent fs)) = {} then r = 0 \<and> entry sectors fs' = entry sectors fs
     else unat r \<in> free_set (entry sectors fs) (unat (n_fatent fs)) \<and>
       entry sectors fs' = linked (fs_type fs) (unat clst) (unat r) (entry sectors fs))"
proof -
  let ?E = "entry sectors fs" and ?n = "unat (n_fatent fs)"
  obtain scl fs1 where st: "chain_start clst fs = Some (Inr scl, fs1)" "1 \<le> unat scl" "unat scl < ?n" "vol fs1" "same_view ready sectors fs fs1"
    using chain_start_ok [OF v tab ext] by blast
  note geo1 = rewound_simps [OF same_view_rewound [OF st(5)]]
  have E1: "entry sectors fs1 = ?E" using same_view_entry [OF st(5)] v by (simp add: vol_def)
  have t1: "table_ok fs1" using tab table_ok_rewound [OF same_view_rewound [OF st(5)]] by simp
  have unchanged: "count_ok sectors fs'" if "same_view ready sectors fs fs'" for fs'
    using cnt that v same_view_entry [OF that] rewound_simps [OF same_view_rewound [OF that]] by (simp add: count_ok_def vol_def)
  show ?thesis
  proof (cases "free_clst fs = 0")
    case True
    then have "free_set ?E ?n = {}" using cnt by (simp add: count_ok_def)
    moreover have "create_chain clst fs = Some (0, fs1)" using st(1) True geo1 by (simp add: create_chain_def)
    ultimately show ?thesis using st(4,5) E1 unchanged same_view_table_only by auto
  next
    case some: False
    obtain p fs2 where pk: "pick_cluster clst scl fs1 = Some (p, fs2)" "picks ?E ?n p" "vol fs2" "same_view ready sectors fs1 fs2"
      using pick_cluster_picks [OF st(4) t1, of scl clst] ok st(2,3) unfolding E1 geo1 by blast
    have sv: "same_view ready sectors fs fs2" by (rule same_view_trans [OF st(5) pk(4)])
    note geo2 = rewound_simps [OF same_view_rewound [OF sv]]
    have E2: "entry sectors fs2 = ?E" using same_view_entry [OF sv] v by (simp add: vol_def)
    have t2: "table_ok fs2" using tab table_ok_rewound [OF same_view_rewound [OF sv]] by simp
    show ?thesis
    proof (cases p)
      case (Inl x)
      then have "create_chain clst fs = Some (0, fs2)" "free_set ?E ?n = {}" using st(1) pk some geo1 by (auto simp: create_chain_def picks_def)
      then show ?thesis using pk(3) sv E2 unchanged same_view_table_only by auto
    next
      case (Inr r)
      then have r: "unat r \<in> free_set ?E ?n" using pk(2) by (simp add: picks_def)
      obtain fs3 fs4 where lk: "put_fat r 0xFFFFFFFF fs2 = Some (FR_OK, fs3)"
          "(if clst \<noteq> 0 then put_fat clst r fs3 else Some (FR_OK, fs3)) = Some (FR_OK, fs4)" "vol fs4" "same_data sectors fs2 fs4"
          "entry sectors fs4 = linked (fs_type fs) (unat clst) (unat r) ?E"
        using link_new [OF pk(3) t2, of r clst] r ext unfolding E2 geo2 by blast
      note geo4 = rewound_simps [OF same_data_rewound [OF lk(4)]]
      let ?f = "if free_clst fs4 \<le> n_fatent fs4 - 2 then free_clst fs4 - 1 else free_clst fs4"
      let ?fs = "fs4\<lparr>last_clst := r, free_clst := ?f, fsi_flag := fsi_flag fs4 OR 1\<rparr>"
      have run: "create_chain clst fs = Some (r, ?fs)" using st(1) pk(1) some geo1 Inr lk(1,2) by (simp add: create_chain_def)
      have n: "2 < ?n" "?n < 2 ^ 32" using tab unsigned_less [of "n_fatent fs", where 'a = nat] by (auto simp: table_ok_def)
      have e: "entry sectors ?fs = linked (fs_type fs) (unat clst) (unat r) ?E" by (simp only: counters(4) lk(5))
      have "count_ok sectors ?fs"
      proof (rule count_ok_taken [OF cnt some r])
        show "free_set (entry sectors ?fs) ?n = free_set ?E ?n - {unat r}" unfolding e by (rule free_set_linked [OF r ext n(2)])
        show "free_clst ?fs = (if free_clst fs \<le> n_fatent fs - 2 then free_clst fs - 1 else free_clst fs)"
          by (simp add: geo4 geo2 cong: if_cong)
      qed (simp_all add: geo4 geo2 n(1))
      moreover have "table_only sectors fs ?fs"
        using same_view_table_only [OF sv] same_data_table_only [OF lk(4)] counters(6) table_only_trans by blast
      moreover have "vol ?fs" using lk(3) by (simp only: counters(2))
      ultimately show ?thesis using run r e by auto
    qed
  qed
qed

lemma release_one:
  assumes v: "vol fs" and tab: "table_ok fs" and cnt: "count_ok sectors fs" and c: "2 \<le> unat c" "unat c < unat (n_fatent fs)"
    "2 \<le> unat (entry sectors fs (unat c))"
  shows "\<exists>fs1. remove_chain_loop c fs =
      (if entry sectors fs (unat c) < n_fatent fs then remove_chain_loop (entry sectors fs (unat c)) fs1 else Some (FR_OK, fs1)) \<and>
    vol fs1 \<and> table_only sectors fs fs1 \<and> count_ok sectors fs1 \<and> entry sectors fs1 = (entry sectors fs)(unat c := 0)"
proof -
  let ?E = "entry sectors fs"
  obtain fs1 where g: "get_fat c fs = Some (?E (unat c), fs1)" "vol fs1" "same_view ready sectors fs fs1"
    using get_fat_entry [OF v tab c(1,2)] by blast
  note geo1 = rewound_simps [OF same_view_rewound [OF g(3)]]
  have E1: "entry sectors fs1 = ?E" using same_view_entry [OF g(3)] v by (simp add: vol_def)
  have t1: "table_ok fs1" using tab table_ok_rewound [OF same_view_rewound [OF g(3)]] by simp
  obtain fs2 where p: "put_fat c 0 fs1 = Some (FR_OK, fs2)" "vol fs2" "same_data sectors fs1 fs2" "entry sectors fs2 = ?E(unat c := 0)"
    using put_fat_entry [OF g(2) t1, of c 0] c geo1 E1 by auto
  note geo2 = rewound_simps [OF same_data_rewound [OF p(3)]]
  define fs3 where "fs3 = (if free_clst fs2 < n_fatent fs2 - 2
    then fs2\<lparr>free_clst := free_clst fs2 + 1, fsi_flag := fsi_flag fs2 OR 1\<rparr> else fs2)"
  have ne: "?E (unat c) \<noteq> 0" "?E (unat c) \<noteq> 1" using c(3) by auto
  have "n_fatent fs3 = n_fatent fs" using geo1 geo2 by (simp add: fs3_def)
  then have run: "remove_chain_loop c fs = (if ?E (unat c) < n_fatent fs then remove_chain_loop (?E (unat c)) fs3 else Some (FR_OK, fs3))"
    using g(1) p(1) ne entry_not_error [of sectors fs "unat c"] by (subst remove_chain_loop.simps) (simp add: Let_def fs3_def [symmetric])
  have e: "entry sectors fs3 = ?E(unat c := 0)" by (simp add: fs3_def counters p(4))
  have "count_ok sectors fs3"
  proof (rule count_ok_given [OF cnt c(1,2)])
    show "unat c \<notin> free_set ?E (unat (n_fatent fs))" using ne by (simp add: free_set_def)
    show "free_set (entry sectors fs3) (unat (n_fatent fs)) = insert (unat c) (free_set ?E (unat (n_fatent fs)))"
      using c unfolding e by (auto simp: free_set_def)
    show "free_clst fs3 = (if free_clst fs < n_fatent fs - 2 then free_clst fs + 1 else free_clst fs)"
      using geo1 geo2 by (simp add: fs3_def)
  qed (use geo1 geo2 in \<open>simp add: fs3_def\<close>)
  moreover have "vol fs3" using p(2) by (simp add: fs3_def counters)
  moreover have "table_only sectors fs2 fs3" by (simp add: fs3_def counters(5) table_only_refl)
  then have "table_only sectors fs fs3"
    using same_view_table_only [OF g(3)] same_data_table_only [OF p(3)] table_only_trans by blast
  ultimately show ?thesis using run e by blast
qed

lemma remove_loop_ok:
  assumes "vol fs" "table_ok fs" "count_ok sectors fs" "fat_chain (entry sectors fs) (unat (n_fatent fs)) (unat c # xs)"
  shows "\<exists>fs'. remove_chain_loop c fs = Some (FR_OK, fs') \<and> vol fs' \<and> table_only sectors fs fs' \<and> count_ok sectors fs' \<and>
    entry sectors fs' = released (set (unat c # xs)) (entry sectors fs)"
  using assms
proof (induction xs arbitrary: c fs)
  case Nil
  let ?E = "entry sectors fs"
  have c: "2 \<le> unat c" "unat c < unat (n_fatent fs)" "2 \<le> unat (?E (unat c))" using Nil.prems(2,4) by (auto simp: table_ok_def)
  have stop: "\<not> ?E (unat c) < n_fatent fs" using Nil.prems(4) by (simp add: word_less_nat_alt)
  have "?E(unat c := 0) = released (set [unat c]) ?E" by (auto simp: released_def)
  with release_one [OF Nil.prems(1-3) c] stop show ?case by auto
next
  case (Cons y ys)
  let ?E = "entry sectors fs" and ?n = "unat (n_fatent fs)"
  have y: "y = unat (?E (unat c))" "fat_chain ?E ?n (y # ys)" using Cons.prems(4) by auto
  have c: "2 \<le> unat c" "unat c < ?n" "2 \<le> unat (?E (unat c))" using Cons.prems(4) fat_chain_head [OF y(2)] y(1) by auto
  have go: "?E (unat c) < n_fatent fs" using fat_chain_head [OF y(2)] y(1) by (simp add: word_less_nat_alt)
  obtain fs1 where o: "remove_chain_loop c fs = remove_chain_loop (?E (unat c)) fs1" "vol fs1" "table_only sectors fs fs1"
      "count_ok sectors fs1" "entry sectors fs1 = ?E(unat c := 0)"
    using release_one [OF Cons.prems(1-3) c] go by auto
  note geo = shape_simps [OF table_only_shape [OF o(3)]]
  have "unat c \<notin> set (y # ys)" using fat_chain_distinct [OF Cons.prems(4)] by simp
  then have "fat_chain (entry sectors fs1) (unat (n_fatent fs1)) (unat (?E (unat c)) # ys)"
    unfolding y(1) [symmetric] geo o(5) by (intro fat_chain_cong [OF y(2)]) auto
  with Cons.IH [OF o(2) _ o(4) this] Cons.prems(2) geo obtain fs' where
      r: "remove_chain_loop (?E (unat c)) fs1 = Some (FR_OK, fs')" "vol fs'" "table_only sectors fs1 fs'" "count_ok sectors fs'"
      "entry sectors fs' = released (set (y # ys)) (entry sectors fs1)" unfolding y(1) by auto
  have "entry sectors fs' = released (set (unat c # y # ys)) ?E" unfolding r(5) o(5) by (auto simp: released_def fun_eq_iff)
  with o(1) r table_only_trans [OF o(3) r(3)] show ?case by auto
qed

lemma remove_chain_ok:
  assumes v: "vol fs" and tab: "table_ok fs" and cnt: "count_ok sectors fs"
    and ch: "fat_chain (entry sectors fs) (unat (n_fatent fs)) (xs @ unat c # ys)"
    and pclst: "unat pclst = (if xs = [] then 0 else last xs)"
  shows "\<exists>fs'. remove_chain c pclst fs = Some (FR_OK, fs') \<and> vol fs' \<and> table_only sectors fs fs' \<and> count_ok sectors fs' \<and>
    entry sectors fs' = released (set (unat c # ys)) (if xs = [] then entry sectors fs else (entry sectors fs)(last xs := eoc (fs_type fs)))"
proof -
  let ?E = "entry sectors fs" and ?n = "unat (n_fatent fs)"
  have tl: "fat_chain ?E ?n (unat c # ys)" by (rule fat_chain_suffix [OF ch])
  have "2 \<le> unat c \<and> unat c < ?n" by (rule fat_chain_head [OF tl])
  then have rng: "\<not> (c < 2 \<or> c \<ge> n_fatent fs)" by (simp add: word_less_nat_alt word_le_nat_alt)
  show ?thesis
  proof (cases "xs = []")
    case True
    with remove_loop_ok [OF v tab cnt tl] rng pclst show ?thesis by (simp add: remove_chain_def unsigned_eq_0_iff)
  next
    case False
    then have l: "last xs \<in> set (xs @ unat c # ys)" "last xs = unat pclst" using pclst by auto
    have p: "2 \<le> unat pclst" "unat pclst < ?n" "?E (unat pclst) \<noteq> 0" using fat_chain_elem [OF ch l(1)] l(2) by auto
    obtain fs1 where q: "put_fat pclst 0xFFFFFFFF fs = Some (FR_OK, fs1)" "vol fs1" "same_data sectors fs fs1"
        "entry sectors fs1 = ?E(unat pclst := eoc (fs_type fs))"
      using put_fat_entry [OF v tab p(1,2), of "0xFFFFFFFF"] by (auto simp: eoc_def)
    note geo = rewound_simps [OF same_data_rewound [OF q(3)]]
    have t1: "table_ok fs1" using tab table_ok_rewound [OF same_data_rewound [OF q(3)]] by simp
    have "free_set (entry sectors fs1) ?n = free_set ?E ?n" using p eoc_end(2) unfolding q(4) by (auto simp: free_set_def)
    then have c1: "count_ok sectors fs1" using cnt geo by (simp add: count_ok_def)
    have "last xs \<notin> set (unat c # ys)" using fat_chain_distinct [OF ch] False by (auto dest: last_in_set)
    then have "fat_chain (entry sectors fs1) (unat (n_fatent fs1)) (unat c # ys)"
      unfolding geo q(4) using l(2) by (intro fat_chain_cong [OF tl]) auto
    from remove_loop_ok [OF q(2) t1 c1 this] obtain fs' where r: "remove_chain_loop c fs1 = Some (FR_OK, fs')" "vol fs'"
        "table_only sectors fs1 fs'" "count_ok sectors fs'" "entry sectors fs' = released (set (unat c # ys)) (entry sectors fs1)" by blast
    have "pclst \<noteq> 0" using p(1) by auto
    then have "remove_chain c pclst fs = Some (FR_OK, fs')" using rng q(1) r(1) by (simp add: remove_chain_def)
    with r table_only_trans [OF same_data_table_only [OF q(3)] r(3)] False l(2) q(4) show ?thesis by auto
  qed
qed

end

lemma fat_chain_truncate:
  assumes "fat_chain E n (xs @ ys)" "xs \<noteq> []" "n \<le> unat (E' (last xs))" "\<And>x. x \<in> set xs \<Longrightarrow> x \<noteq> last xs \<Longrightarrow> E' x = E x"
  shows "fat_chain E' n xs"
  using assms fat_chain_distinct [OF assms(1)]
proof (induction xs)
  case (Cons a xs)
  show ?case
  proof (cases xs)
    case Nil
    with Cons.prems fat_chain_head [of E n a ys] show ?thesis by simp
  next
    case (Cons b zs)
    then have "last xs \<in> set xs" by simp
    then have "a \<noteq> last xs" using Cons.prems(5) by auto
    with Cons.prems Cons.IH Cons show ?thesis by auto
  qed
qed simp

lemma fat_chain_extensible:
  assumes "cs = [] \<and> c = 0 \<or> fat_chain E n cs \<and> last cs = c"
  shows "extensible E n c"
proof (cases "cs = []")
  case False
  then have "cs = butlast cs @ [c]" using assms by (metis append_butlast_last_id)
  with False assms fat_chain_suffix [of E n "butlast cs" c "[]"] show ?thesis by (auto simp: extensible_def)
qed (use assms in \<open>auto simp: extensible_def\<close>)

lemma linked_chains:
  assumes r: "r \<in> free_set E n" and cs: "cs = [] \<and> c = 0 \<or> fat_chain E n cs \<and> last cs = c" and ok: "sane E n"
    and eoc: "n \<le> unat (eoc ty)" and n: "n < 2 ^ 32"
  shows "fat_chain (linked ty c r E) n (cs @ [r])" "sane (linked ty c r E) n"
    "fat_chain E n ds \<Longrightarrow> c \<notin> set ds \<Longrightarrow> fat_chain (linked ty c r E) n ds"
proof -
  have rr: "2 \<le> r" "r < n" "E r = 0" using r by (auto simp: free_set_def)
  have word: "unat (of_nat r :: u32) = r" using rr(2) n by (simp add: unsigned_of_nat take_bit_nat_eq_self)
  have ne: "c \<noteq> r" using fat_chain_extensible [OF cs] rr by (auto simp: extensible_def)
  have out: "r \<notin> set ds" if "fat_chain E n ds" for ds using fat_chain_elem [OF that, of r] rr(3) by auto
  have "of_nat r \<noteq> (1 :: u32)" using word rr(1) by auto
  then show "sane (linked ty c r E) n" using ok eoc_end(3) [of ty] by (auto simp: sane_def linked_def)
  show "fat_chain (linked ty c r E) n ds" if "fat_chain E n ds" "c \<notin> set ds" for ds
    using that out [OF that(1)] by (intro fat_chain_cong [OF that(1)]) (auto simp: linked_def)
  show "fat_chain (linked ty c r E) n (cs @ [r])"
  proof (cases "cs = []")
    case True
    with cs rr eoc show ?thesis by (auto simp: linked_def)
  next
    case False
    then obtain xs where xs: "cs = xs @ [c]" "fat_chain E n (xs @ [c])" using cs by (metis append_butlast_last_id fat_chain.simps(1))
    then have c: "c \<noteq> 0" "c \<notin> set xs" using fat_chain_distinct [OF xs(2)] fat_chain_elem [OF xs(2), of c] by auto
    have "fat_chain (linked ty c r E) n (xs @ [c, r])"
      by (intro fat_chain_extend [OF xs(2) rr(1,2) out [OF xs(2)]]) (use c ne eoc word out [OF xs(2)] in \<open>auto simp: linked_def\<close>)
    with xs(1) show ?thesis by simp
  qed
qed

end
