(* ===== verification/Mipos_Fat_Dir.thy ===== *)
theory Mipos_Fat_Dir
  imports Mipos_Fat_Chain
begin

text \<open>
  Directories and names of FatFs (\<^verbatim>\<open>fatfs/ff.c\<close>): directory tables as sequences of 32-byte entries in the root area
  or in a chain of clusters, 8.3 names in code page 932, and paths. The pointer \<^verbatim>\<open>dir\<close> of a directory object
  into the window is an offset. A path is a C string: the list of its bytes, read as 0 behind the last one.
\<close>

subsection \<open>Memory\<close>

definition mem_cpy :: "octets \<Rightarrow> nat \<Rightarrow> octets \<Rightarrow> nat \<Rightarrow> octets" where
  "mem_cpy dst i src cnt = take i dst @ take cnt src @ drop (i + cnt) dst"

definition mem_set :: "octets \<Rightarrow> nat \<Rightarrow> u8 \<Rightarrow> nat \<Rightarrow> octets" where
  "mem_set dst i val cnt = take i dst @ replicate cnt val @ drop (i + cnt) dst"

fun mem_cmp :: "octets \<Rightarrow> octets \<Rightarrow> nat \<Rightarrow> int" where
  "mem_cmp (d # ds) (s # ss) (Suc cnt) =
     (let r = uint d - uint s in if cnt = 0 \<or> r \<noteq> 0 then r else mem_cmp ds ss cnt)"
| "mem_cmp _ _ _ = 0"

fun chk_chr :: "octets \<Rightarrow> u8 \<Rightarrow> u8" where
  "chk_chr [] chr = 0"
| "chk_chr (s # ss) chr = (if s \<noteq> chr then chk_chr ss chr else s)"

definition DbcTbl :: octets where
  "DbcTbl = [0x81, 0x9F, 0xE0, 0xFC, 0x40, 0x7E, 0x80, 0xFC, 0x00, 0x00]"

definition dbc_1st :: "u8 \<Rightarrow> bool" where
  "dbc_1st c \<longleftrightarrow> c \<ge> DbcTbl ! 0 \<and> (c \<le> DbcTbl ! 1 \<or> c \<ge> DbcTbl ! 2 \<and> c \<le> DbcTbl ! 3)"

definition dbc_2nd :: "u8 \<Rightarrow> bool" where
  "dbc_2nd c \<longleftrightarrow> c \<ge> DbcTbl ! 4 \<and>
     (c \<le> DbcTbl ! 5 \<or> c \<ge> DbcTbl ! 6 \<and> c \<le> DbcTbl ! 7 \<or> c \<ge> DbcTbl ! 8 \<and> c \<le> DbcTbl ! 9)"

definition IsLower :: "u8 \<Rightarrow> bool" where "IsLower c \<longleftrightarrow> c \<ge> 0x61 \<and> c \<le> 0x7A"
definition IsDigit :: "u8 \<Rightarrow> bool" where "IsDigit c \<longleftrightarrow> c \<ge> 0x30 \<and> c \<le> 0x39"

subsection \<open>Constants and objects\<close>

definition AM_RDO :: u8 where [mip_simps]: "AM_RDO = 0x01"
definition AM_VOL :: u8 where [mip_simps]: "AM_VOL = 0x08"
definition AM_LFN :: u8 where [mip_simps]: "AM_LFN = 0x0F"
definition AM_DIR :: u8 where [mip_simps]: "AM_DIR = 0x10"
definition AM_ARC :: u8 where [mip_simps]: "AM_ARC = 0x20"
definition AM_MASK :: u8 where [mip_simps]: "AM_MASK = 0x3F"
definition NSFLAG :: nat where [mip_simps]: "NSFLAG = 11"
definition NS_LAST :: u8 where [mip_simps]: "NS_LAST = 0x04"
definition NS_DOT :: u8 where [mip_simps]: "NS_DOT = 0x20"
definition NS_NONAME :: u8 where [mip_simps]: "NS_NONAME = 0x80"
definition MAX_DIR :: u32 where [mip_simps]: "MAX_DIR = 0x200000"
definition DIR_Name :: nat where [mip_simps]: "DIR_Name = 0"
definition DIR_Attr :: nat where [mip_simps]: "DIR_Attr = 11"
definition DIR_CrtTime :: nat where [mip_simps]: "DIR_CrtTime = 14"
definition DIR_LstAccDate :: nat where [mip_simps]: "DIR_LstAccDate = 18"
definition DIR_FstClusHI :: nat where [mip_simps]: "DIR_FstClusHI = 20"
definition DIR_ModTime :: nat where [mip_simps]: "DIR_ModTime = 22"
definition DIR_FstClusLO :: nat where [mip_simps]: "DIR_FstClusLO = 26"
definition DIR_FileSize :: nat where [mip_simps]: "DIR_FileSize = 28"
definition SZDIRE :: nat where [mip_simps]: "SZDIRE = 32"
definition DDEM :: u8 where [mip_simps]: "DDEM = 0xE5"
definition RDDEM :: u8 where [mip_simps]: "RDDEM = 0x05"

text \<open>The clock is fixed: \<^verbatim>\<open>FF_FS_NORTC\<close> is 1.\<close>

definition GET_FATTIME :: u32 where
  "GET_FATTIME = push_bit 25 (2017 - 1980) OR push_bit 21 5 OR push_bit 16 1"

text \<open>\<open>obj_fs\<close> tells whether the object points to the volume or is null.\<close>

record FFOBJID =
  obj_fs :: bool
  obj_id :: u16
  obj_attr :: u8
  obj_stat :: u8
  obj_sclust :: u32
  obj_objsize :: u32

record DIR =
  d_obj :: FFOBJID
  d_dptr :: u32
  d_clust :: u32
  d_sect :: u32
  d_dir :: nat
  d_fn :: octets

record FILINFO =
  fi_fsize :: u32
  fi_fdate :: u16
  fi_ftime :: u16
  fi_fattrib :: u8
  fi_fname :: octets

definition set_sclust :: "u32 \<Rightarrow> DIR \<Rightarrow> DIR" where
  "set_sclust c dp = dp\<lparr>d_obj := (d_obj dp)\<lparr>obj_sclust := c\<rparr>\<rparr>"

definition set_attr :: "u8 \<Rightarrow> DIR \<Rightarrow> DIR" where
  "set_attr a dp = dp\<lparr>d_obj := (d_obj dp)\<lparr>obj_attr := a\<rparr>\<rparr>"

type_synonym 's dir_op = "DIR \<Rightarrow> 's FATFS \<Rightarrow> ((FRESULT \<times> DIR) \<times> 's FATFS) option"

subsection \<open>Directory tables\<close>

text \<open>The loop over the sectors of a cluster that are left; it tells whether all were written.\<close>

fun dir_clear_loop :: "nat \<Rightarrow> u32 \<Rightarrow> ('s, bool) fat_op" where
  "dir_clear_loop 0 sect fs = Some (True, fs)"
| "dir_clear_loop (Suc n) sect fs =
     do { (r, fs1) \<leftarrow> fat_write (win fs) sect fs;
          if r = MIPOS_DISK_RES_OK then dir_clear_loop n (sect + 1) fs1 else Some (False, fs1) }"

definition dir_clear :: "u32 \<Rightarrow> ('s, FRESULT) fat_op" where
  "dir_clear clst fs =
     do { (res, fs1) \<leftarrow> sync_window fs;
          if res \<noteq> FR_OK then Some (FR_DISK_ERR, fs1)
          else do {
            let sect = clst2sect fs1 clst;
            (full, fs2) \<leftarrow> dir_clear_loop (unat (csize fs1)) sect (fs1\<lparr>winsect := sect, win := mem_set (win fs1) 0 0 SS\<rparr>);
            Some (if full then FR_OK else FR_DISK_ERR, fs2)
          } }"

partial_function (option) dir_sdi_loop :: "u32 \<Rightarrow> u32 \<Rightarrow> u32 \<Rightarrow> 's FATFS \<Rightarrow> ((FRESULT + u32 \<times> u32) \<times> 's FATFS) option" where
  "dir_sdi_loop csz ofs clst fs =
     (if ofs \<ge> csz then do {
        (nxt, fs1) \<leftarrow> get_fat clst fs;
        if nxt = 0xFFFFFFFF then Some (Inl FR_DISK_ERR, fs1)
        else if nxt < 2 \<or> nxt \<ge> n_fatent fs1 then Some (Inl FR_INT_ERR, fs1)
        else dir_sdi_loop csz (ofs - csz) nxt fs1
      }
      else Some (Inr (clst, ofs), fs))"

definition dir_sdi_end :: "u32 \<Rightarrow> u32 \<Rightarrow> u32 \<Rightarrow> DIR \<Rightarrow> FRESULT \<times> DIR" where
  "dir_sdi_end clst sect ofs dp =
     (if sect = 0 then (FR_INT_ERR, dp\<lparr>d_clust := clst, d_sect := 0\<rparr>)
      else (FR_OK, dp\<lparr>d_clust := clst, d_sect := sect + ofs div 512, d_dir := unat (ofs mod 512)\<rparr>))"

definition dir_sdi :: "u32 \<Rightarrow> 's dir_op" where
  "dir_sdi ofs dp fs =
     (if ofs \<ge> MAX_DIR \<or> ofs mod 32 \<noteq> 0 then Some ((FR_INT_ERR, dp), fs)
      else let dp1 = dp\<lparr>d_dptr := ofs\<rparr>;
               scl = obj_sclust (d_obj dp);
               clst = (if scl = 0 \<and> fs_type fs \<ge> FS_FAT32 then dirbase fs else scl) in
        if clst = 0 then
          if ofs div 32 \<ge> ucast (n_rootdir fs) then Some ((FR_INT_ERR, dp1), fs)
          else Some (dir_sdi_end 0 (dirbase fs) ofs dp1, fs)
        else do {
          (r, fs1) \<leftarrow> dir_sdi_loop (ucast (csize fs) * 512) ofs clst fs;
          (case r of
             Inl e \<Rightarrow> Some ((e, dp1), fs1)
           | Inr (c, o') \<Rightarrow> Some (dir_sdi_end c (clst2sect fs1 c) o' dp1, fs1))
        })"

text \<open>The next cluster of a table, a new one at its end when it may be stretched; \<open>Inl\<close> ends \<^verbatim>\<open>dir_next\<close>.\<close>

definition dir_next_clust :: "bool \<Rightarrow> u32 \<Rightarrow> ('s, FRESULT + u32) fat_op" where
  "dir_next_clust stretch clust fs =
     do { (clst, fs1) \<leftarrow> get_fat clust fs;
          if clst \<le> 1 then Some (Inl FR_INT_ERR, fs1)
          else if clst = 0xFFFFFFFF then Some (Inl FR_DISK_ERR, fs1)
          else if clst < n_fatent fs1 then Some (Inr clst, fs1)
          else if \<not> stretch then Some (Inl FR_NO_FILE, fs1)
          else do {
            (clst, fs2) \<leftarrow> create_chain clust fs1;
            if clst = 0 then Some (Inl FR_DENIED, fs2)
            else if clst = 1 then Some (Inl FR_INT_ERR, fs2)
            else if clst = 0xFFFFFFFF then Some (Inl FR_DISK_ERR, fs2)
            else do {
              (res, fs3) \<leftarrow> dir_clear clst fs2;
              Some (if res \<noteq> FR_OK then Inl FR_DISK_ERR else Inr clst, fs3)
            }
          } }"

definition dir_next :: "bool \<Rightarrow> 's dir_op" where
  "dir_next stretch dp fs =
     (let ofs = d_dptr dp + 32; here = (\<lambda>dp. dp\<lparr>d_dptr := ofs, d_dir := unat (ofs mod 512)\<rparr>) in
      if d_sect dp = 0 \<or> ofs \<ge> MAX_DIR then Some ((FR_NO_FILE, dp), fs)
      else if ofs mod 512 \<noteq> 0 then Some ((FR_OK, here dp), fs)
      else let dp1 = dp\<lparr>d_sect := d_sect dp + 1\<rparr> in
      if d_clust dp1 = 0 then
        if ofs div 32 \<ge> ucast (n_rootdir fs) then Some ((FR_NO_FILE, dp1\<lparr>d_sect := 0\<rparr>), fs)
        else Some ((FR_OK, here dp1), fs)
      else if ofs div 512 AND (ucast (csize fs) - 1) \<noteq> 0 then Some ((FR_OK, here dp1), fs)
      else do {
        (r, fs1) \<leftarrow> dir_next_clust stretch (d_clust dp1) fs;
        Some (case r of
                Inl e \<Rightarrow> (e, if e = FR_NO_FILE then dp1\<lparr>d_sect := 0\<rparr> else dp1)
              | Inr clst \<Rightarrow> (FR_OK, here (dp1\<lparr>d_clust := clst, d_sect := clst2sect fs1 clst\<rparr>)), fs1)
      })"

text \<open>The byte of the entry a directory object points to.\<close>

definition dir_byte :: "DIR \<Rightarrow> 's FATFS \<Rightarrow> nat \<Rightarrow> u8" where
  "dir_byte dp fs i = win fs ! (d_dir dp + i)"

partial_function (option) dir_alloc_loop :: "nat \<Rightarrow> nat \<Rightarrow> DIR \<Rightarrow> 's FATFS \<Rightarrow> ((FRESULT \<times> DIR) \<times> 's FATFS) option" where
  "dir_alloc_loop nent n dp fs =
     do { (res, fs1) \<leftarrow> move_window (d_sect dp) fs;
          if res \<noteq> FR_OK then Some ((res, dp), fs1)
          else let b = dir_byte dp fs1 DIR_Name; blank = (b = DDEM \<or> b = 0); n1 = (if blank then n + 1 else 0) in
            if blank \<and> n1 = nent then Some ((FR_OK, dp), fs1)
            else do {
              ((res1, dp1), fs2) \<leftarrow> dir_next True dp fs1;
              if res1 = FR_OK then dir_alloc_loop nent n1 dp1 fs2 else Some ((res1, dp1), fs2)
            } }"

definition dir_alloc :: "nat \<Rightarrow> 's dir_op" where
  "dir_alloc nent dp fs =
     do { ((res, dp1), fs1) \<leftarrow> dir_sdi 0 dp fs;
          ((res1, dp2), fs2) \<leftarrow> (if res = FR_OK then dir_alloc_loop nent 0 dp1 fs1 else Some ((res, dp1), fs1));
          Some ((if res1 = FR_NO_FILE then FR_DENIED else res1, dp2), fs2) }"

subsection \<open>Entries\<close>

definition ld_clust :: "'s FATFS \<Rightarrow> octets \<Rightarrow> u32" where
  "ld_clust fs dir =
     (let cl = ucast (ld_word (drop DIR_FstClusLO dir)) in
      if fs_type fs = FS_FAT32 then cl OR push_bit 16 (ucast (ld_word (drop DIR_FstClusHI dir))) else cl)"

definition st_clust :: "'s FATFS \<Rightarrow> octets \<Rightarrow> nat \<Rightarrow> u32 \<Rightarrow> octets" where
  "st_clust fs buf dir cl =
     (let b = st_word buf (dir + DIR_FstClusLO) (ucast cl) in
      if fs_type fs = FS_FAT32 then st_word b (dir + DIR_FstClusHI) (ucast (drop_bit 16 cl)) else b)"

partial_function (option) dir_read_loop :: "bool \<Rightarrow> FRESULT \<Rightarrow> DIR \<Rightarrow> 's FATFS \<Rightarrow> ((FRESULT \<times> DIR) \<times> 's FATFS) option" where
  "dir_read_loop label res dp fs =
     (if d_sect dp = 0 then Some ((res, dp), fs)
      else do {
        (res1, fs1) \<leftarrow> move_window (d_sect dp) fs;
        if res1 \<noteq> FR_OK then Some ((res1, dp), fs1)
        else let c = dir_byte dp fs1 DIR_Name in
          if c = 0 then Some ((FR_NO_FILE, dp), fs1)
          else let a = dir_byte dp fs1 DIR_Attr AND AM_MASK; dp1 = set_attr a dp in
            if c \<noteq> DDEM \<and> c \<noteq> 0x2E \<and> a \<noteq> AM_LFN \<and> (a AND NOT AM_ARC = AM_VOL) = label then Some ((FR_OK, dp1), fs1)
            else do {
              ((res2, dp2), fs2) \<leftarrow> dir_next False dp1 fs1;
              if res2 \<noteq> FR_OK then Some ((res2, dp2), fs2) else dir_read_loop label res2 dp2 fs2
            }
      })"

definition dir_read :: "bool \<Rightarrow> 's dir_op" where
  "dir_read label dp fs =
     do { ((res, dp1), fs1) \<leftarrow> dir_read_loop label FR_NO_FILE dp fs;
          Some ((res, if res \<noteq> FR_OK then dp1\<lparr>d_sect := 0\<rparr> else dp1), fs1) }"

partial_function (option) dir_find_loop :: "DIR \<Rightarrow> 's FATFS \<Rightarrow> ((FRESULT \<times> DIR) \<times> 's FATFS) option" where
  "dir_find_loop dp fs =
     do { (res, fs1) \<leftarrow> move_window (d_sect dp) fs;
          if res \<noteq> FR_OK then Some ((res, dp), fs1)
          else if dir_byte dp fs1 DIR_Name = 0 then Some ((FR_NO_FILE, dp), fs1)
          else let a = dir_byte dp fs1 DIR_Attr; dp1 = set_attr (a AND AM_MASK) dp in
            if a AND AM_VOL = 0 \<and> mem_cmp (drop (d_dir dp) (win fs1)) (d_fn dp) 11 = 0 then Some ((FR_OK, dp1), fs1)
            else do {
              ((res1, dp2), fs2) \<leftarrow> dir_next False dp1 fs1;
              if res1 = FR_OK then dir_find_loop dp2 fs2 else Some ((res1, dp2), fs2)
            } }"

definition dir_find :: "'s dir_op" where
  "dir_find dp fs =
     do { ((res, dp1), fs1) \<leftarrow> dir_sdi 0 dp fs;
          if res \<noteq> FR_OK then Some ((res, dp1), fs1) else dir_find_loop dp1 fs1 }"

definition dir_register :: "'s dir_op" where
  "dir_register dp fs =
     do { ((res, dp1), fs1) \<leftarrow> dir_alloc 1 dp fs;
          if res \<noteq> FR_OK then Some ((res, dp1), fs1)
          else do {
            (res1, fs2) \<leftarrow> move_window (d_sect dp1) fs1;
            Some ((res1, dp1),
              if res1 = FR_OK
              then set_win (mem_cpy (mem_set (win fs2) (d_dir dp1) 0 SZDIRE) (d_dir dp1 + DIR_Name) (d_fn dp1) 11) fs2
              else fs2)
          } }"

definition dir_remove :: "'s dir_op" where
  "dir_remove dp fs =
     do { (res, fs1) \<leftarrow> move_window (d_sect dp) fs;
          Some ((res, dp), if res = FR_OK then set_win ((win fs1)[d_dir dp + DIR_Name := DDEM]) fs1 else fs1) }"

text \<open>The name of an entry as it is shown, from its byte \<open>i\<close> on.\<close>

fun sfn_text :: "nat \<Rightarrow> octets \<Rightarrow> octets" where
  "sfn_text i [] = []"
| "sfn_text i (b # bs) =
     (if i \<ge> 11 then []
      else if b = 0x20 then sfn_text (i + 1) bs
      else (if i + 1 = 9 then [0x2E] else []) @ (if b = RDDEM then DDEM else b) # sfn_text (i + 1) bs)"

definition get_fileinfo :: "DIR \<Rightarrow> 's FATFS \<Rightarrow> FILINFO \<Rightarrow> FILINFO" where
  "get_fileinfo dp fs fno =
     (if d_sect dp = 0 then fno\<lparr>fi_fname := []\<rparr>
      else let dir = drop (d_dir dp) (win fs); tm = ld_dword (drop DIR_ModTime dir) in
        \<lparr>fi_fsize = ld_dword (drop DIR_FileSize dir), fi_fdate = ucast (drop_bit 16 tm), fi_ftime = ucast tm,
         fi_fattrib = dir ! DIR_Attr, fi_fname = sfn_text 0 dir\<rparr>)"

subsection \<open>Names and paths\<close>

definition is_sep :: "u8 \<Rightarrow> bool" where "is_sep c \<longleftrightarrow> c = 0x2F \<or> c = 0x5C"

text \<open>The characters that an 8.3 name must not have.\<close>

definition sfn_illegal :: octets where
  "sfn_illegal = [0x22, 0x2A, 0x2B, 0x2C, 0x3A, 0x3B, 0x3C, 0x3D, 0x3E, 0x3F, 0x5B, 0x5D, 0x7C, 0x7F]"

text \<open>The loop over a segment: the name, where the next character would go, the last character, and the rest of the path.\<close>

fun create_name_loop :: "octets \<Rightarrow> octets \<Rightarrow> nat \<Rightarrow> nat \<Rightarrow> FRESULT \<times> octets \<times> nat \<times> u8 \<times> octets" where
  "create_name_loop [] sfn i ni = (FR_OK, sfn, i, 0, [])"
| "create_name_loop (c # p) sfn i ni =
     (if c \<le> 0x20 then (FR_OK, sfn, i, c, p)
      else if is_sep c then (FR_OK, sfn, i, c, dropWhile is_sep p)
      else if c = 0x2E \<or> i \<ge> ni then
        if ni = 11 \<or> c \<noteq> 0x2E then (FR_INVALID_NAME, sfn, i, c, p) else create_name_loop p sfn 8 11
      else if dbc_1st c then
        (case p of
           [] \<Rightarrow> (FR_INVALID_NAME, sfn, i, c, p)
         | d # p' \<Rightarrow> if \<not> dbc_2nd d \<or> i \<ge> ni - 1 then (FR_INVALID_NAME, sfn, i, c, p)
             else create_name_loop p' (sfn[i := c, i + 1 := d]) (i + 2) ni)
      else if chk_chr sfn_illegal c \<noteq> 0 then (FR_INVALID_NAME, sfn, i, c, p)
      else create_name_loop p (sfn[i := if IsLower c then c - 0x20 else c]) (i + 1) ni)"

definition create_name :: "octets \<Rightarrow> DIR \<Rightarrow> FRESULT \<times> DIR \<times> octets" where
  "create_name path dp =
     (let (res, sfn, i, c, rest) = create_name_loop path (mem_set (d_fn dp) 0 0x20 11) 0 8 in
      if res \<noteq> FR_OK then (res, dp\<lparr>d_fn := sfn\<rparr>, path)
      else if i = 0 then (FR_INVALID_NAME, dp\<lparr>d_fn := sfn\<rparr>, rest)
      else let sfn1 = (if sfn ! 0 = DDEM then sfn[0 := RDDEM] else sfn) in
        (FR_OK, dp\<lparr>d_fn := sfn1[NSFLAG := if c \<le> 0x20 then NS_LAST else 0]\<rparr>, rest))"

partial_function (option) follow_path_loop :: "octets \<Rightarrow> DIR \<Rightarrow> 's FATFS \<Rightarrow> ((FRESULT \<times> DIR) \<times> 's FATFS) option" where
  "follow_path_loop path dp fs =
     (let (res, dp1, path1) = create_name path dp in
      if res \<noteq> FR_OK then Some ((res, dp1), fs)
      else do {
        ((res1, dp2), fs1) \<leftarrow> dir_find dp1 fs;
        let ns = d_fn dp2 ! NSFLAG;
        if res1 \<noteq> FR_OK then Some ((if res1 = FR_NO_FILE \<and> ns AND NS_LAST = 0 then FR_NO_PATH else res1, dp2), fs1)
        else if ns AND NS_LAST \<noteq> 0 then Some ((FR_OK, dp2), fs1)
        else if obj_attr (d_obj dp2) AND AM_DIR = 0 then Some ((FR_NO_PATH, dp2), fs1)
        else follow_path_loop path1 (set_sclust (ld_clust fs1 (drop (unat (d_dptr dp2 mod 512)) (win fs1))) dp2) fs1
      })"

definition follow_path :: "octets \<Rightarrow> 's dir_op" where
  "follow_path path dp fs =
     (let p = dropWhile is_sep path; dp1 = set_sclust 0 dp in
      if p = [] \<or> hd p < 0x20
      then dir_sdi 0 (dp1\<lparr>d_fn := (d_fn dp1)[NSFLAG := NS_NONAME]\<rparr>) fs
      else follow_path_loop p dp1 fs)"

end
