(* ===== verification/Mipos_Fat_Mount.thy ===== *)
theory Mipos_Fat_Mount
  imports Mipos_Fat_Dir
begin

text \<open>
  Mounting: from the drive number of a path to a volume whose boot sector has been read and checked
  (\<^verbatim>\<open>get_ldnumber\<close>, \<^verbatim>\<open>check_fs\<close>, \<^verbatim>\<open>find_volume\<close>, \<^verbatim>\<open>validate\<close> and \<^verbatim>\<open>f_mount\<close> of \<^verbatim>\<open>fatfs/ff.c\<close>). The state of the module is
  the table \<^verbatim>\<open>FatFs\<close> of its one volume, the counter \<^verbatim>\<open>Fsid\<close>, and the structure the application registers.
\<close>

definition STA_NOINIT :: u8 where [mip_simps]: "STA_NOINIT = 0x01"
definition STA_PROTECT :: u8 where [mip_simps]: "STA_PROTECT = 0x04"
definition FA_READ :: u8 where [mip_simps]: "FA_READ = 0x01"
definition FA_WRITE :: u8 where [mip_simps]: "FA_WRITE = 0x02"
definition MAX_FAT12 :: u32 where [mip_simps]: "MAX_FAT12 = 0xFF5"
definition MAX_FAT16 :: u32 where [mip_simps]: "MAX_FAT16 = 0xFFF5"
definition MAX_FAT32 :: u32 where [mip_simps]: "MAX_FAT32 = 0x0FFFFFF5"
definition BS_JmpBoot :: nat where [mip_simps]: "BS_JmpBoot = 0"
definition BPB_BytsPerSec :: nat where [mip_simps]: "BPB_BytsPerSec = 11"
definition BPB_SecPerClus :: nat where [mip_simps]: "BPB_SecPerClus = 13"
definition BPB_RsvdSecCnt :: nat where [mip_simps]: "BPB_RsvdSecCnt = 14"
definition BPB_NumFATs :: nat where [mip_simps]: "BPB_NumFATs = 16"
definition BPB_RootEntCnt :: nat where [mip_simps]: "BPB_RootEntCnt = 17"
definition BPB_TotSec16 :: nat where [mip_simps]: "BPB_TotSec16 = 19"
definition BPB_FATSz16 :: nat where [mip_simps]: "BPB_FATSz16 = 22"
definition BPB_TotSec32 :: nat where [mip_simps]: "BPB_TotSec32 = 32"
definition BPB_FATSz32 :: nat where [mip_simps]: "BPB_FATSz32 = 36"
definition BPB_FSVer32 :: nat where [mip_simps]: "BPB_FSVer32 = 42"
definition BPB_RootClus32 :: nat where [mip_simps]: "BPB_RootClus32 = 44"
definition BPB_FSInfo32 :: nat where [mip_simps]: "BPB_FSInfo32 = 48"
definition BS_FilSysType :: nat where [mip_simps]: "BS_FilSysType = 54"
definition BS_FilSysType32 :: nat where [mip_simps]: "BS_FilSysType32 = 82"
definition MBR_Table :: nat where [mip_simps]: "MBR_Table = 446"
definition SZ_PTE :: nat where [mip_simps]: "SZ_PTE = 16"
definition PTE_System :: nat where [mip_simps]: "PTE_System = 4"
definition PTE_StLba :: nat where [mip_simps]: "PTE_StLba = 8"

record 's fatsys =
  sys_on :: bool
  Fsid :: u16
  sys_fs :: "'s FATFS"

type_synonym ('s, 'a) sys_op = "'s fatsys \<Rightarrow> ('a \<times> 's fatsys) option"

text \<open>The number of the drive, or -1, and the path behind it; \<open>None\<close> is the null pointer.\<close>

definition get_ldnumber :: "octets option \<Rightarrow> int \<times> octets" where
  "get_ldnumber path =
     (case path of None \<Rightarrow> (- 1, [])
      | Some p \<Rightarrow>
          let n = length (takeWhile (\<lambda>c. c \<ge> 0x21 \<and> c \<noteq> 0x3A) p); tt = drop n p in
          if tt \<noteq> [] \<and> hd tt = 0x3A
          then if IsDigit (hd p) \<and> n = 1 \<and> hd p - 0x30 < 1 then (uint (hd p - 0x30), tl tt) else (- 1, p)
          else (0, p))"

definition check_fs :: "u32 \<Rightarrow> ('s, u8) fat_op" where
  "check_fs sect fs =
     do { (res, fs1) \<leftarrow> move_window sect (fs\<lparr>wflag := False, winsect := 0xFFFFFFFF\<rparr>);
          let w = win fs1;
          Some (if res \<noteq> FR_OK then 4
                else if ld_word (drop BS_55AA w) \<noteq> 0xAA55 then 3
                else if (w ! BS_JmpBoot = 0xE9 \<or> w ! BS_JmpBoot = 0xEB \<and> w ! (BS_JmpBoot + 2) = 0x90) \<and>
                  (mem_cmp (drop BS_FilSysType w) [0x46, 0x41, 0x54] 3 = 0 \<or>
                   mem_cmp (drop BS_FilSysType32 w) [0x46, 0x41, 0x54, 0x33, 0x32] 5 = 0) then 0
                else 2, fs1) }"

definition partition_start :: "octets \<Rightarrow> nat \<Rightarrow> u32" where
  "partition_start w i =
     (let pt = drop (MBR_Table + i * SZ_PTE) w in if pt ! PTE_System \<noteq> 0 then ld_dword (drop PTE_StLba pt) else 0)"

text \<open>The loop over the partitions that are left; it starts with the verdict on the one before.\<close>

fun try_partitions :: "u32 list \<Rightarrow> u8 \<times> u32 \<Rightarrow> ('s, u8 \<times> u32) fat_op" where
  "try_partitions [] r fs = Some (r, fs)"
| "try_partitions (bsect # br) r fs =
     do { (fmt, fs1) \<leftarrow> (if bsect \<noteq> 0 then check_fs bsect fs else Some (3, fs));
          if fmt \<ge> 2 then try_partitions br (fmt, bsect) fs1 else Some ((fmt, bsect), fs1) }"

definition find_fat :: "('s, u8 \<times> u32) fat_op" where
  "find_fat fs =
     do { (fmt, fs1) \<leftarrow> check_fs 0 fs;
          if fmt = 2 then try_partitions (map (partition_start (win fs1)) [0..<4]) (fmt, 0) fs1
          else Some ((fmt, 0), fs1) }"

text \<open>The counters of a FAT32 volume.\<close>

definition load_fsinfo :: "u8 \<Rightarrow> u32 \<Rightarrow> 's FATFS \<Rightarrow> 's FATFS option" where
  "load_fsinfo fmt bsect fs =
     (let fs0 = fs\<lparr>last_clst := 0xFFFFFFFF, free_clst := 0xFFFFFFFF, fsi_flag := 0x80\<rparr> in
      if fmt = FS_FAT32 \<and> ld_word (drop BPB_FSInfo32 (win fs0)) = 1 then do {
        (res, fs1) \<leftarrow> move_window (bsect + 1) fs0;
        if res \<noteq> FR_OK then Some fs1
        else let w = win fs1; fs2 = fs1\<lparr>fsi_flag := 0\<rparr> in
          if ld_word (drop BS_55AA w) = 0xAA55 \<and> ld_dword (drop FSI_LeadSig w) = 0x41615252 \<and>
             ld_dword (drop FSI_StrucSig w) = 0x61417272
          then Some (fs2\<lparr>free_clst := ld_dword (drop FSI_Free_Count w), last_clst := ld_dword (drop FSI_Nxt_Free w)\<rparr>)
          else Some fs2
      }
      else Some fs0)"

text \<open>The type of the table by the number of clusters; 0 when there are too many.\<close>

definition fat_subtype :: "u32 \<Rightarrow> u8" where
  "fat_subtype nclst =
     (if nclst \<le> MAX_FAT12 then FS_FAT12 else if nclst \<le> MAX_FAT16 then FS_FAT16
      else if nclst \<le> MAX_FAT32 then FS_FAT32 else 0)"

definition needed_fat :: "u8 \<Rightarrow> u32 \<Rightarrow> u32" where
  "needed_fat fmt n =
     (if fmt = FS_FAT32 then n * 4 else if fmt = FS_FAT16 then n * 2 else n * 3 div 2 + (n AND 1))"

text \<open>
  The boot sector in the window, turned into the geometry of the volume; the second component is the type,
  to be set when all is done.
\<close>

definition parse_bpb :: "u32 \<Rightarrow> 's FATFS \<Rightarrow> (FRESULT \<times> u8) \<times> 's FATFS" where
  "parse_bpb bsect fs =
     (let w = win fs; no_fs = (\<lambda>fs. ((FR_NO_FILESYSTEM, 0), fs)) in
      if ld_word (drop BPB_BytsPerSec w) \<noteq> of_nat SS then no_fs fs
      else let sz16 = ld_word (drop BPB_FATSz16 w);
               sz = (if sz16 = 0 then ld_dword (drop BPB_FATSz32 w) else ucast sz16);
               fs1 = fs\<lparr>fsize := sz, n_fats := w ! BPB_NumFATs\<rparr> in
      if n_fats fs1 \<noteq> 1 \<and> n_fats fs1 \<noteq> 2 then no_fs fs1
      else let fasize = sz * ucast (n_fats fs1); fs2 = fs1\<lparr>csize := ucast (w ! BPB_SecPerClus)\<rparr> in
      if csize fs2 = 0 \<or> csize fs2 AND (csize fs2 - 1) \<noteq> 0 then no_fs fs2
      else let fs3 = fs2\<lparr>n_rootdir := ld_word (drop BPB_RootEntCnt w)\<rparr> in
      if n_rootdir fs3 mod 16 \<noteq> 0 then no_fs fs3
      else let ts16 = ld_word (drop BPB_TotSec16 w);
               tsect = (if ts16 = 0 then ld_dword (drop BPB_TotSec32 w) else ucast ts16) :: u32;
               nrsv = ld_word (drop BPB_RsvdSecCnt w) in
      if nrsv = 0 then no_fs fs3
      else let sysect = ucast nrsv + fasize + ucast (n_rootdir fs3) div 16 in
      if tsect < sysect then no_fs fs3
      else let nclst = (tsect - sysect) div ucast (csize fs3); fmt = fat_subtype nclst in
      if nclst = 0 \<or> fmt = 0 then no_fs fs3
      else let fs4 = fs3\<lparr>n_fatent := nclst + 2, volbase := bsect, fatbase := bsect + ucast nrsv, fs_database := bsect + sysect\<rparr> in
      if fmt = FS_FAT32 \<and> (ld_word (drop BPB_FSVer32 w) \<noteq> 0 \<or> n_rootdir fs4 \<noteq> 0) then no_fs fs4
      else if fmt \<noteq> FS_FAT32 \<and> n_rootdir fs4 = 0 then no_fs fs4
      else let fs5 = fs4\<lparr>dirbase := if fmt = FS_FAT32 then ld_dword (drop BPB_RootClus32 w) else fatbase fs4 + fasize\<rparr> in
      if fsize fs5 < (needed_fat fmt (n_fatent fs5) + 511) div 512 then no_fs fs5
      else ((FR_OK, fmt), fs5))"

definition mount_volume :: "('s, FRESULT \<times> u8) fat_op" where
  "mount_volume fs =
     do { ((fmt, bsect), fs1) \<leftarrow> find_fat fs;
          if fmt = 4 then Some ((FR_DISK_ERR, 0), fs1)
          else if fmt \<ge> 2 then Some ((FR_NO_FILESYSTEM, 0), fs1)
          else let ((res, ty), fs2) = parse_bpb bsect fs1 in
            if res \<noteq> FR_OK then Some ((res, 0), fs2)
            else do { fs3 \<leftarrow> load_fsinfo ty bsect fs2; Some ((FR_OK, ty), fs3) } }"

text \<open>The status of the drive and its initialisation.\<close>

definition fat_status :: "('s, u8) fat_op" where
  "fat_status fs = do { (stat, d) \<leftarrow> fatfs_disk_status (fs_table fs) (fs_pdrv fs) (fs_dev fs); Some (stat, fs\<lparr>fs_dev := d\<rparr>) }"

definition fat_initialize :: "('s, u8) fat_op" where
  "fat_initialize fs = do { (stat, d) \<leftarrow> fatfs_disk_initialize (fs_table fs) (fs_pdrv fs) (fs_dev fs); Some (stat, fs\<lparr>fs_dev := d\<rparr>) }"

definition remount :: "bool \<Rightarrow> ('s, FRESULT) sys_op" where
  "remount wr sys =
     do { (stat, fs1) \<leftarrow> fat_initialize ((sys_fs sys)\<lparr>fs_type := 0, fs_pdrv := 0\<rparr>);
          if stat AND STA_NOINIT \<noteq> 0 then Some (FR_NOT_READY, sys\<lparr>sys_fs := fs1\<rparr>)
          else if wr \<and> stat AND STA_PROTECT \<noteq> 0 then Some (FR_WRITE_PROTECTED, sys\<lparr>sys_fs := fs1\<rparr>)
          else do {
            ((res, ty), fs2) \<leftarrow> mount_volume fs1;
            Some (if res \<noteq> FR_OK then (res, sys\<lparr>sys_fs := fs2\<rparr>)
                  else (FR_OK, sys\<lparr>Fsid := Fsid sys + 1, sys_fs := fs2\<lparr>fs_type := ty, fs_id := Fsid sys + 1\<rparr>\<rparr>))
          } }"

text \<open>The verdict, and the path behind the drive number.\<close>

definition find_volume :: "octets option \<Rightarrow> u8 \<Rightarrow> ('s, FRESULT \<times> octets) sys_op" where
  "find_volume path mode sys =
     (let (v, p) = get_ldnumber path; wr = (mode AND NOT FA_READ \<noteq> 0) in
      if v < 0 then Some ((FR_INVALID_DRIVE, p), sys)
      else if \<not> sys_on sys then Some ((FR_NOT_ENABLED, p), sys)
      else do {
        (stat, fs1) \<leftarrow> (if fs_type (sys_fs sys) \<noteq> 0 then fat_status (sys_fs sys) else Some (STA_NOINIT, sys_fs sys));
        let sys1 = sys\<lparr>sys_fs := fs1\<rparr>;
        if stat AND STA_NOINIT = 0
        then Some ((if wr \<and> stat AND STA_PROTECT \<noteq> 0 then FR_WRITE_PROTECTED else FR_OK, p), sys1)
        else do { (res, sys2) \<leftarrow> remount wr sys1; Some ((res, p), sys2) }
      })"

definition validate :: "FFOBJID \<Rightarrow> ('s, FRESULT) fat_op" where
  "validate obj fs =
     (if obj_fs obj \<and> fs_type fs \<noteq> 0 \<and> obj_id obj = fs_id fs
      then do { (stat, fs1) \<leftarrow> fat_status fs; Some (if stat AND STA_NOINIT = 0 then FR_OK else FR_INVALID_OBJECT, fs1) }
      else Some (FR_INVALID_OBJECT, fs))"

text \<open>\<open>given\<close> tells whether the application passes its structure or a null pointer.\<close>

definition f_mount :: "bool \<Rightarrow> octets option \<Rightarrow> u8 \<Rightarrow> ('s, FRESULT) sys_op" where
  "f_mount given path opt sys =
     (if fst (get_ldnumber path) < 0 then Some (FR_INVALID_DRIVE, sys)
      else let sys1 = sys\<lparr>sys_on := given, sys_fs := (if sys_on sys \<or> given then (sys_fs sys)\<lparr>fs_type := 0\<rparr> else sys_fs sys)\<rparr> in
        if opt = 0 then Some (FR_OK, sys1)
        else do { ((res, _), sys2) \<leftarrow> find_volume path 0 sys1; Some (res, sys2) })"

end
