(* ===== verification/Mipos_Fat_File.thy ===== *)
theory Mipos_Fat_File
  imports Mipos_Fat_Mount
begin

text \<open>
  Files of FatFs (\<^verbatim>\<open>fatfs/ff.c\<close>): opening, reading, writing, seeking, truncating, synchronising and closing.
  A file object caches one sector of its file; \<open>f_dir_ptr\<close> is its pointer to the directory entry, an offset in the window.
\<close>

definition FA_CREATE_NEW :: u8 where [mip_simps]: "FA_CREATE_NEW = 0x04"
definition FA_CREATE_ALWAYS :: u8 where [mip_simps]: "FA_CREATE_ALWAYS = 0x08"
definition FA_OPEN_ALWAYS :: u8 where [mip_simps]: "FA_OPEN_ALWAYS = 0x10"
definition FA_OPEN_APPEND :: u8 where [mip_simps]: "FA_OPEN_APPEND = 0x30"
definition FA_SEEKEND :: u8 where [mip_simps]: "FA_SEEKEND = 0x20"
definition FA_MODIFIED :: u8 where [mip_simps]: "FA_MODIFIED = 0x40"
definition FA_DIRTY :: u8 where [mip_simps]: "FA_DIRTY = 0x80"

record FIL =
  f_obj :: FFOBJID
  f_flag :: u8
  f_err :: FRESULT
  f_fptr :: u32
  f_clust :: u32
  f_sect :: u32
  f_dir_sect :: u32
  f_dir_ptr :: nat
  f_buf :: octets

type_synonym 's fil_op = "FIL \<Rightarrow> 's FATFS \<Rightarrow> ((FRESULT \<times> FIL) \<times> 's FATFS) option"

definition fil_abort :: "FRESULT \<Rightarrow> FIL \<Rightarrow> FIL" where
  "fil_abort res fp = fp\<lparr>f_err := res\<rparr>"

text \<open>Bytes per cluster.\<close>

definition clust_bytes :: "'s FATFS \<Rightarrow> u32" where
  "clust_bytes fs = ucast (csize fs) * 512"

text \<open>Transfers of several sectors between the caller's memory and the drive, which gets no more of it than it is told.\<close>

definition fat_read_n :: "u32 \<Rightarrow> u32 \<Rightarrow> ('s, int \<times> octets) fat_op" where
  "fat_read_n sector cc fs =
     do { (r, d) \<leftarrow> fatfs_disk_read (fs_table fs) (fs_pdrv fs) sector cc (fs_dev fs); Some (r, fs\<lparr>fs_dev := d\<rparr>) }"

definition fat_write_n :: "octets \<Rightarrow> u32 \<Rightarrow> u32 \<Rightarrow> ('s, int) fat_op" where
  "fat_write_n b sector cc fs =
     do { (r, d) \<leftarrow> fatfs_disk_write (fs_table fs) (fs_pdrv fs) (take (unat (512 * cc)) b) sector cc (fs_dev fs);
          Some (r, fs\<lparr>fs_dev := d\<rparr>) }"

text \<open>The cached sector goes back to the drive when it is dirty.\<close>

definition fil_writeback :: "'s fil_op" where
  "fil_writeback fp fs =
     (if f_flag fp AND FA_DIRTY = 0 then Some ((FR_OK, fp), fs)
      else do {
        (r, fs1) \<leftarrow> fat_write (f_buf fp) (f_sect fp) fs;
        Some (if r \<noteq> MIPOS_DISK_RES_OK then (FR_DISK_ERR, fp) else (FR_OK, fp\<lparr>f_flag := f_flag fp AND NOT FA_DIRTY\<rparr>), fs1)
      })"

definition fil_fill :: "u32 \<Rightarrow> 's fil_op" where
  "fil_fill sect fp fs =
     do { ((r, bs), fs1) \<leftarrow> fat_read (f_buf fp) sect fs;
          Some ((if r \<noteq> MIPOS_DISK_RES_OK then FR_DISK_ERR else FR_OK, fp\<lparr>f_buf := bs\<rparr>), fs1) }"

text \<open>The common start of the operations on an open file.\<close>

definition fil_valid :: "FIL \<Rightarrow> ('s, FRESULT) fat_op" where
  "fil_valid fp fs = do { (res, fs1) \<leftarrow> validate (f_obj fp) fs; Some (if res \<noteq> FR_OK then res else f_err fp, fs1) }"

text \<open>The offset of the current sector in its cluster.\<close>

definition csect_of :: "FIL \<Rightarrow> 's FATFS \<Rightarrow> u32" where
  "csect_of fp fs = f_fptr fp div 512 AND (ucast (csize fs) - 1)"

definition clip_count :: "u32 \<Rightarrow> u32 \<Rightarrow> 's FATFS \<Rightarrow> u32" where
  "clip_count csect cc fs = (if csect + cc > ucast (csize fs) then ucast (csize fs) - csect else cc)"

subsection \<open>Reading\<close>

text \<open>The sector at a sector boundary, or the error that aborts.\<close>

definition f_read_sect :: "FIL \<Rightarrow> ('s, (FRESULT + u32) \<times> FIL) fat_op" where
  "f_read_sect fp fs =
     (let csect = csect_of fp fs;
          locate = (\<lambda>fp fs. let sect = clst2sect fs (f_clust fp) in (if sect = 0 then Inl FR_INT_ERR else Inr (sect + csect), fp)) in
      if csect \<noteq> 0 then Some (locate fp fs, fs)
      else do {
        (clst, fs1) \<leftarrow> (if f_fptr fp = 0 then Some (obj_sclust (f_obj fp), fs) else get_fat (f_clust fp) fs);
        if clst < 2 then Some ((Inl FR_INT_ERR, fp), fs1)
        else if clst = 0xFFFFFFFF then Some ((Inl FR_DISK_ERR, fp), fs1)
        else Some (locate (fp\<lparr>f_clust := clst\<rparr>) fs1, fs1)
      })"

text \<open>The sector is loaded into the cache unless it is there.\<close>

definition f_read_load :: "u32 \<Rightarrow> 's fil_op" where
  "f_read_load sect fp fs =
     (if f_sect fp = sect then Some ((FR_OK, fp), fs)
      else do {
        ((res, fp1), fs1) \<leftarrow> fil_writeback fp fs;
        if res \<noteq> FR_OK then Some ((res, fp1), fs1)
        else do {
          ((res1, fp2), fs2) \<leftarrow> fil_fill sect fp1 fs1;
          Some ((res1, if res1 = FR_OK then fp2\<lparr>f_sect := sect\<rparr> else fp2), fs2)
        }
      })"

definition f_read_part :: "u32 \<Rightarrow> u32 \<Rightarrow> octets \<Rightarrow> FIL \<Rightarrow> u32 \<times> octets" where
  "f_read_part btr br buff fp =
     (let left = 512 - f_fptr fp mod 512; rcnt = (if left > btr then btr else left) in
      (rcnt, mem_cpy buff (unat br) (drop (unat (f_fptr fp mod 512)) (f_buf fp)) (unat rcnt)))"

text \<open>A dirty sector in the cache is newer than what the drive delivered for it.\<close>

definition f_read_overlay :: "u32 \<Rightarrow> u32 \<Rightarrow> u32 \<Rightarrow> octets \<Rightarrow> FIL \<Rightarrow> octets" where
  "f_read_overlay sect cc br buff fp =
     (if f_flag fp AND FA_DIRTY \<noteq> 0 \<and> f_sect fp - sect < cc
      then mem_cpy buff (unat br + unat ((f_sect fp - sect) * 512)) (f_buf fp) 512 else buff)"

text \<open>One turn of the loop: the number of bytes transferred, the caller's buffer and the file.\<close>

definition f_read_step :: "u32 \<Rightarrow> u32 \<Rightarrow> octets \<Rightarrow> FIL \<Rightarrow> ('s, FRESULT \<times> (u32 \<times> octets) \<times> FIL) fat_op" where
  "f_read_step btr br buff fp fs =
     (if f_fptr fp mod 512 \<noteq> 0 then Some ((FR_OK, f_read_part btr br buff fp, fp), fs)
      else do {
        ((s, fp1), fs1) \<leftarrow> f_read_sect fp fs;
        (case s of
           Inl e \<Rightarrow> Some ((e, (0, buff), fp1), fs1)
         | Inr sect \<Rightarrow>
             if btr div 512 > 0 then do {
               let cc = clip_count (csect_of fp fs) (btr div 512) fs1;
               ((r, bs), fs2) \<leftarrow> fat_read_n sect cc fs1;
               let buff1 = mem_cpy buff (unat br) bs (length bs);
               Some (if r \<noteq> MIPOS_DISK_RES_OK then (FR_DISK_ERR, (0, buff1), fp1)
                     else (FR_OK, (512 * cc, f_read_overlay sect cc br buff1 fp1), fp1), fs2)
             }
             else do {
               ((res, fp2), fs2) \<leftarrow> f_read_load sect fp1 fs1;
               Some (if res \<noteq> FR_OK then (res, (0, buff), fp2) else (FR_OK, f_read_part btr br buff fp2, fp2), fs2)
             })
      })"

partial_function (option) f_read_loop ::
    "u32 \<Rightarrow> u32 \<Rightarrow> octets \<Rightarrow> FIL \<Rightarrow> 's FATFS \<Rightarrow> ((FRESULT \<times> u32 \<times> octets \<times> FIL) \<times> 's FATFS) option" where
  "f_read_loop btr br buff fp fs =
     (if btr = 0 then Some ((FR_OK, br, buff, fp), fs)
      else do {
        ((res, (rcnt, buff1), fp1), fs1) \<leftarrow> f_read_step btr br buff fp fs;
        if res \<noteq> FR_OK then Some ((res, br, buff1, fil_abort res fp1), fs1)
        else f_read_loop (btr - rcnt) (br + rcnt) buff1 (fp1\<lparr>f_fptr := f_fptr fp1 + rcnt\<rparr>) fs1
      })"

text \<open>The result, the number of bytes read, the caller's buffer and the file. A buffer that is too short is a fault.\<close>

definition f_read :: "octets \<Rightarrow> u32 \<Rightarrow> FIL \<Rightarrow> ('s, FRESULT \<times> u32 \<times> octets \<times> FIL) fat_op" where
  "f_read buff btr fp fs =
     do { (res, fs1) \<leftarrow> fil_valid fp fs;
          if res \<noteq> FR_OK then Some ((res, 0, buff, fp), fs1)
          else if f_flag fp AND FA_READ = 0 then Some ((FR_DENIED, 0, buff, fp), fs1)
          else let remain = obj_objsize (f_obj fp) - f_fptr fp; n = (if btr > remain then remain else btr) in
            if length buff < unat n then None else f_read_loop n 0 buff fp fs1 }"

subsection \<open>Writing\<close>

definition fil_set_sclust :: "u32 \<Rightarrow> FIL \<Rightarrow> FIL" where
  "fil_set_sclust c fp = fp\<lparr>f_obj := (f_obj fp)\<lparr>obj_sclust := c\<rparr>\<rparr>"

definition fil_set_size :: "u32 \<Rightarrow> FIL \<Rightarrow> FIL" where
  "fil_set_size n fp = fp\<lparr>f_obj := (f_obj fp)\<lparr>obj_objsize := n\<rparr>\<rparr>"

text \<open>The cluster of the next byte, allocated when the file ends before it: an error, a full disk (\<open>0\<close>), or the cluster.\<close>

definition f_write_clust :: "FIL \<Rightarrow> ('s, (FRESULT + u32) \<times> FIL) fat_op" where
  "f_write_clust fp fs =
     do { (clst, fs1) \<leftarrow>
            (if f_fptr fp = 0
             then if obj_sclust (f_obj fp) = 0 then create_chain 0 fs else Some (obj_sclust (f_obj fp), fs)
             else create_chain (f_clust fp) fs);
          if clst = 0 then Some ((Inr 0, fp), fs1)
          else if clst = 1 then Some ((Inl FR_INT_ERR, fp), fs1)
          else if clst = 0xFFFFFFFF then Some ((Inl FR_DISK_ERR, fp), fs1)
          else let fp1 = fp\<lparr>f_clust := clst\<rparr> in
            Some ((Inr clst, if obj_sclust (f_obj fp1) = 0 then fil_set_sclust clst fp1 else fp1), fs1) }"

text \<open>One turn: \<open>None\<close> for the number of bytes written means that the disk is full.\<close>

definition f_write_part :: "octets \<Rightarrow> FIL \<Rightarrow> u32 option \<times> FIL" where
  "f_write_part wbuff fp =
     (let btw = of_nat (length wbuff); left = 512 - f_fptr fp mod 512; wcnt = (if left > btw then btw else left) in
      (Some wcnt, fp\<lparr>f_buf := mem_cpy (f_buf fp) (unat (f_fptr fp mod 512)) wbuff (unat wcnt),
                     f_flag := f_flag fp OR FA_DIRTY\<rparr>))"

definition f_write_direct :: "octets \<Rightarrow> u32 \<Rightarrow> u32 \<Rightarrow> FIL \<Rightarrow> ('s, FRESULT \<times> u32 option \<times> FIL) fat_op" where
  "f_write_direct wbuff sect cc fp fs =
     do { (r, fs1) \<leftarrow> fat_write_n wbuff sect cc fs;
          Some (if r \<noteq> MIPOS_DISK_RES_OK then (FR_DISK_ERR, None, fp)
                else (FR_OK, Some (512 * cc),
                  if f_sect fp - sect < cc
                  then fp\<lparr>f_buf := mem_cpy (f_buf fp) 0 (drop (unat ((f_sect fp - sect) * 512)) wbuff) 512,
                          f_flag := f_flag fp AND NOT FA_DIRTY\<rparr>
                  else fp), fs1) }"

text \<open>From the write-back of the old sector on.\<close>

definition f_write_sect :: "octets \<Rightarrow> u32 \<Rightarrow> FIL \<Rightarrow> ('s, FRESULT \<times> u32 option \<times> FIL) fat_op" where
  "f_write_sect wbuff csect fp fs =
     do { ((res, fp1), fs1) \<leftarrow> fil_writeback fp fs;
          if res \<noteq> FR_OK then Some ((res, None, fp1), fs1)
          else let sect0 = clst2sect fs1 (f_clust fp1); sect = sect0 + csect; btw = of_nat (length wbuff) :: u32 in
            if sect0 = 0 then Some ((FR_INT_ERR, None, fp1), fs1)
            else if btw div 512 > 0 then f_write_direct wbuff sect (clip_count csect (btw div 512) fs1) fp1 fs1
            else do {
              ((res1, fp2), fs2) \<leftarrow> (if f_sect fp1 \<noteq> sect \<and> f_fptr fp1 < obj_objsize (f_obj fp1)
                                     then fil_fill sect fp1 fs1 else Some ((FR_OK, fp1), fs1));
              Some (if res1 \<noteq> FR_OK then (res1, None, fp2) else (FR_OK, f_write_part wbuff (fp2\<lparr>f_sect := sect\<rparr>)), fs2)
            } }"

definition f_write_step :: "octets \<Rightarrow> FIL \<Rightarrow> ('s, FRESULT \<times> u32 option \<times> FIL) fat_op" where
  "f_write_step wbuff fp fs =
     (if f_fptr fp mod 512 \<noteq> 0 then Some ((FR_OK, f_write_part wbuff fp), fs)
      else let csect = csect_of fp fs in
        if csect \<noteq> 0 then f_write_sect wbuff csect fp fs
        else do {
          ((s, fp1), fs1) \<leftarrow> f_write_clust fp fs;
          (case s of
             Inl e \<Rightarrow> Some ((e, None, fp1), fs1)
           | Inr clst \<Rightarrow> if clst = 0 then Some ((FR_OK, None, fp1), fs1) else f_write_sect wbuff 0 fp1 fs1)
        })"

text \<open>After a turn the pointer moves, and the size follows it.\<close>

definition f_advance :: "u32 \<Rightarrow> FIL \<Rightarrow> FIL" where
  "f_advance wcnt fp =
     (let p = f_fptr fp + wcnt; size = obj_objsize (f_obj fp) in
      fil_set_size (if p > size then p else size) (fp\<lparr>f_fptr := p\<rparr>))"

partial_function (option) f_write_loop :: "octets \<Rightarrow> u32 \<Rightarrow> FIL \<Rightarrow> 's FATFS \<Rightarrow> ((FRESULT \<times> u32 \<times> FIL) \<times> 's FATFS) option" where
  "f_write_loop wbuff bw fp fs =
     (if wbuff = [] then Some ((FR_OK, bw, fp), fs)
      else do {
        ((res, cnt, fp1), fs1) \<leftarrow> f_write_step wbuff fp fs;
        if res \<noteq> FR_OK then Some ((res, bw, fil_abort res fp1), fs1)
        else (case cnt of
                None \<Rightarrow> Some ((FR_OK, bw, fp1), fs1)
              | Some wcnt \<Rightarrow> f_write_loop (drop (unat wcnt) wbuff) (bw + wcnt) (f_advance wcnt fp1) fs1)
      })"

text \<open>A buffer shorter than what is to be written is a fault.\<close>

definition f_write :: "octets \<Rightarrow> u32 \<Rightarrow> FIL \<Rightarrow> ('s, FRESULT \<times> u32 \<times> FIL) fat_op" where
  "f_write buff btw fp fs =
     do { (res, fs1) \<leftarrow> fil_valid fp fs;
          if res \<noteq> FR_OK then Some ((res, 0, fp), fs1)
          else if f_flag fp AND FA_WRITE = 0 then Some ((FR_DENIED, 0, fp), fs1)
          else let n = (if f_fptr fp + btw < f_fptr fp then 0xFFFFFFFF - f_fptr fp else btw) in
          if length buff < unat n then None
          else do {
            ((res1, bw, fp1), fs2) \<leftarrow> f_write_loop (take (unat n) buff) 0 fp fs1;
            Some ((res1, bw, if res1 = FR_OK then fp1\<lparr>f_flag := f_flag fp1 OR FA_MODIFIED\<rparr> else fp1), fs2)
          } }"

subsection \<open>Synchronising and closing\<close>

text \<open>The directory entry of a file with its start, size and time.\<close>

definition f_sync_entry :: "FIL \<Rightarrow> 's FATFS \<Rightarrow> octets" where
  "f_sync_entry fp fs =
     (let o' = f_dir_ptr fp; w = win fs;
          w1 = st_clust fs (w[o' + DIR_Attr := w ! (o' + DIR_Attr) OR AM_ARC]) o' (obj_sclust (f_obj fp)) in
      st_word (st_dword (st_dword w1 (o' + DIR_FileSize) (obj_objsize (f_obj fp))) (o' + DIR_ModTime) GET_FATTIME)
        (o' + DIR_LstAccDate) 0)"

definition f_sync :: "'s fil_op" where
  "f_sync fp fs =
     do { (res, fs1) \<leftarrow> validate (f_obj fp) fs;
          if res \<noteq> FR_OK \<or> f_flag fp AND FA_MODIFIED = 0 then Some ((res, fp), fs1)
          else do {
            ((res1, fp1), fs2) \<leftarrow> fil_writeback fp fs1;
            if res1 \<noteq> FR_OK then Some ((res1, fp1), fs2)
            else do {
              (res2, fs3) \<leftarrow> move_window (f_dir_sect fp1) fs2;
              if res2 \<noteq> FR_OK then Some ((res2, fp1), fs3)
              else do {
                (res3, fs4) \<leftarrow> sync_fs (set_win (f_sync_entry fp1 fs3) fs3);
                Some ((res3, fp1\<lparr>f_flag := f_flag fp1 AND NOT FA_MODIFIED\<rparr>), fs4)
              }
            }
          } }"

definition fil_invalidate :: "FIL \<Rightarrow> FIL" where
  "fil_invalidate fp = fp\<lparr>f_obj := (f_obj fp)\<lparr>obj_fs := False\<rparr>\<rparr>"

definition f_close :: "'s fil_op" where
  "f_close fp fs =
     do { ((res, fp1), fs1) \<leftarrow> f_sync fp fs;
          if res \<noteq> FR_OK then Some ((res, fp1), fs1)
          else do {
            (res1, fs2) \<leftarrow> validate (f_obj fp1) fs1;
            Some ((res1, if res1 = FR_OK then fil_invalidate fp1 else fp1), fs2)
          } }"

subsection \<open>Seeking and truncating\<close>

text \<open>The loop along the chain: the error, the offset left, the cluster (0 for a full disk) and the file.\<close>

partial_function (option) f_lseek_loop :: "u32 \<Rightarrow> u32 \<Rightarrow> FIL \<Rightarrow> 's FATFS \<Rightarrow> ((FRESULT \<times> u32 \<times> u32 \<times> FIL) \<times> 's FATFS) option" where
  "f_lseek_loop ofs clst fp fs =
     (if ofs > clust_bytes fs then do {
        let fp1 = fp\<lparr>f_fptr := f_fptr fp + clust_bytes fs\<rparr>;
        let wr = (f_flag fp AND FA_WRITE \<noteq> 0);
        (nxt, fs1) \<leftarrow> (if wr then create_chain clst fs else get_fat clst fs);
        if wr \<and> nxt = 0 then Some ((FR_OK, 0, 0, fp1), fs1)
        else if nxt = 0xFFFFFFFF then Some ((FR_DISK_ERR, ofs, nxt, fp1), fs1)
        else if nxt \<le> 1 \<or> nxt \<ge> n_fatent fs1 then Some ((FR_INT_ERR, ofs, nxt, fp1), fs1)
        else f_lseek_loop (ofs - clust_bytes fs) nxt (fp1\<lparr>f_clust := nxt\<rparr>) fs1
      }
      else Some ((FR_OK, ofs, clst, fp), fs))"

text \<open>Where the loop starts: the current cluster or the first one, which is allocated when there is none.\<close>

definition f_lseek_start :: "u32 \<Rightarrow> u32 \<Rightarrow> FIL \<Rightarrow> ('s, FRESULT \<times> u32 \<times> u32 \<times> FIL) fat_op" where
  "f_lseek_start ofs ifptr fp fs =
     (let bcs = clust_bytes fs in
      if ifptr > 0 \<and> (ofs - 1) div bcs \<ge> (ifptr - 1) div bcs
      then let p = (ifptr - 1) AND NOT (bcs - 1) in Some ((FR_OK, ofs - p, f_clust fp, fp\<lparr>f_fptr := p\<rparr>), fs)
      else if obj_sclust (f_obj fp) \<noteq> 0
      then Some ((FR_OK, ofs, obj_sclust (f_obj fp), fp\<lparr>f_clust := obj_sclust (f_obj fp)\<rparr>), fs)
      else do {
        (clst, fs1) \<leftarrow> create_chain 0 fs;
        Some (if clst = 1 then (FR_INT_ERR, ofs, clst, fp)
              else if clst = 0xFFFFFFFF then (FR_DISK_ERR, ofs, clst, fp)
              else (FR_OK, ofs, clst, (fil_set_sclust clst fp)\<lparr>f_clust := clst\<rparr>), fs1)
      })"

text \<open>The pointer is moved; the second component is the sector of a position inside a sector.\<close>

definition f_lseek_move :: "u32 \<Rightarrow> FIL \<Rightarrow> ('s, FRESULT \<times> u32 \<times> FIL) fat_op" where
  "f_lseek_move ofs fp fs =
     (let fp0 = fp\<lparr>f_fptr := 0\<rparr> in
      if ofs = 0 then Some ((FR_OK, 0, fp0), fs)
      else do {
        ((res, ofs1, clst, fp1), fs1) \<leftarrow> f_lseek_start ofs (f_fptr fp) fp0 fs;
        if res \<noteq> FR_OK then Some ((res, 0, fp1), fs1)
        else if clst = 0 then Some ((FR_OK, 0, fp1), fs1)
        else do {
          ((res1, ofs2, clst2, fp2), fs2) \<leftarrow> f_lseek_loop ofs1 clst fp1 fs1;
          if res1 \<noteq> FR_OK then Some ((res1, 0, fp2), fs2)
          else let fp3 = fp2\<lparr>f_fptr := f_fptr fp2 + ofs2\<rparr>; nsect = clst2sect fs2 clst2 in
            Some (if ofs2 mod 512 = 0 then (FR_OK, 0, fp3)
                  else if nsect = 0 then (FR_INT_ERR, 0, fp3) else (FR_OK, nsect + ofs2 div 512, fp3), fs2)
        }
      })"

definition f_lseek :: "u32 \<Rightarrow> 's fil_op" where
  "f_lseek ofs fp fs =
     do { (res, fs1) \<leftarrow> fil_valid fp fs;
          if res \<noteq> FR_OK then Some ((res, fp), fs1)
          else do {
            let size = obj_objsize (f_obj fp);
            ((res1, nsect, fp1), fs2) \<leftarrow> f_lseek_move (if ofs > size \<and> f_flag fp AND FA_WRITE = 0 then size else ofs) fp fs1;
            if res1 \<noteq> FR_OK then Some ((res1, fil_abort res1 fp1), fs2)
            else do {
              let fp2 = (if f_fptr fp1 > obj_objsize (f_obj fp1)
                         then (fil_set_size (f_fptr fp1) fp1)\<lparr>f_flag := f_flag fp1 OR FA_MODIFIED\<rparr> else fp1);
              ((res2, fp3), fs3) \<leftarrow> (if f_fptr fp2 mod 512 \<noteq> 0 then f_read_load nsect fp2 fs2 else Some ((FR_OK, fp2), fs2));
              Some ((res2, if res2 \<noteq> FR_OK then fil_abort res2 fp3 else fp3), fs3)
            }
          } }"

text \<open>The clusters behind the pointer are released.\<close>

definition f_truncate_chain :: "'s fil_op" where
  "f_truncate_chain fp fs =
     (if f_fptr fp = 0
      then do { (res, fs1) \<leftarrow> remove_chain (obj_sclust (f_obj fp)) 0 fs; Some ((res, fil_set_sclust 0 fp), fs1) }
      else do {
        (ncl, fs1) \<leftarrow> get_fat (f_clust fp) fs;
        if ncl = 0xFFFFFFFF then Some ((FR_DISK_ERR, fp), fs1)
        else if ncl = 1 then Some ((FR_INT_ERR, fp), fs1)
        else if ncl < n_fatent fs1 then do { (res, fs2) \<leftarrow> remove_chain ncl (f_clust fp) fs1; Some ((res, fp), fs2) }
        else Some ((FR_OK, fp), fs1)
      })"

definition f_truncate :: "'s fil_op" where
  "f_truncate fp fs =
     do { (res, fs1) \<leftarrow> fil_valid fp fs;
          if res \<noteq> FR_OK then Some ((res, fp), fs1)
          else if f_flag fp AND FA_WRITE = 0 then Some ((FR_DENIED, fp), fs1)
          else if f_fptr fp \<ge> obj_objsize (f_obj fp) then Some ((FR_OK, fp), fs1)
          else do {
            ((res1, fp1), fs2) \<leftarrow> f_truncate_chain fp fs1;
            let fp2 = (fil_set_size (f_fptr fp1) fp1)\<lparr>f_flag := f_flag fp1 OR FA_MODIFIED\<rparr>;
            ((res2, fp3), fs3) \<leftarrow> (if res1 = FR_OK then fil_writeback fp2 fs2 else Some ((res1, fp2), fs2));
            Some ((res2, if res2 \<noteq> FR_OK then fil_abort res2 fp3 else fp3), fs3)
          } }"

end
