(* ===== verification/Mipos_Fat_Api.thy ===== *)
theory Mipos_Fat_Api
  imports Mipos_Fat_File
begin

text \<open>
  The operations of FatFs that take a path (\<^verbatim>\<open>fatfs/ff.c\<close>): opening files and directories, listing, free space, removing,
  making and renaming. Pointers to the caller's objects are not null. A directory object on the stack starts with
  arbitrary contents that are written before they are read; the model starts with zeros.
\<close>

definition blank_dir :: DIR where
  "blank_dir = \<lparr>d_obj = \<lparr>obj_fs = True, obj_id = 0, obj_attr = 0, obj_stat = 0, obj_sclust = 0, obj_objsize = 0\<rparr>,
     d_dptr = 0, d_clust = 0, d_sect = 0, d_dir = 0, d_fn = replicate 12 0\<rparr>"

text \<open>An operation on the volume of a path.\<close>

definition on_volume :: "octets option \<Rightarrow> u8 \<Rightarrow> 'a \<Rightarrow> (octets \<Rightarrow> ('s, FRESULT \<times> 'a) fat_op) \<Rightarrow> ('s, FRESULT \<times> 'a) sys_op" where
  "on_volume path mode a f sys =
     do { ((res, p), sys1) \<leftarrow> find_volume path mode sys;
          if res \<noteq> FR_OK then Some ((res, a), sys1)
          else do { (r, fs1) \<leftarrow> f p (sys_fs sys1); Some (r, sys1\<lparr>sys_fs := fs1\<rparr>) } }"

definition no_name :: "DIR \<Rightarrow> bool" where
  "no_name dp \<longleftrightarrow> d_fn dp ! NSFLAG AND NS_NONAME \<noteq> 0"

text \<open>The entry of a directory object, in the window.\<close>

definition dir_entry :: "DIR \<Rightarrow> 's FATFS \<Rightarrow> octets" where
  "dir_entry dp fs = drop (d_dir dp) (win fs)"

subsection \<open>Opening a file\<close>

text \<open>The entry of a created file starts empty; the clusters of an overwritten one are released.\<close>

definition f_open_reset :: "DIR \<Rightarrow> ('s, FRESULT) fat_op" where
  "f_open_reset dj fs =
     (let o' = d_dir dj; cl = ld_clust fs (dir_entry dj fs);
          w = st_dword (win fs) (o' + DIR_CrtTime) GET_FATTIME;
          w1 = st_dword (st_clust fs (w[o' + DIR_Attr := AM_ARC]) o' 0) (o' + DIR_FileSize) 0;
          fs1 = set_win w1 fs in
      if cl = 0 then Some (FR_OK, fs1)
      else do {
        (res, fs2) \<leftarrow> remove_chain cl 0 fs1;
        if res \<noteq> FR_OK then Some (res, fs2)
        else do { (res1, fs3) \<leftarrow> move_window (winsect fs1) fs2; Some (res1, fs3\<lparr>last_clst := cl - 1\<rparr>) }
      })"

definition f_open_create :: "u8 \<Rightarrow> FRESULT \<Rightarrow> DIR \<Rightarrow> ('s, FRESULT \<times> u8 \<times> DIR) fat_op" where
  "f_open_create mode res dj fs =
     do { ((res1, dj1), fs1) \<leftarrow> (if res = FR_NO_FILE then dir_register dj fs else Some ((res, dj), fs));
          let mode1 = (if res \<noteq> FR_OK then mode OR FA_CREATE_ALWAYS else mode);
          let res2 = (if res \<noteq> FR_OK then res1
                      else if obj_attr (d_obj dj) AND (AM_RDO OR AM_DIR) \<noteq> 0 then FR_DENIED
                      else if mode AND FA_CREATE_NEW \<noteq> 0 then FR_EXIST else FR_OK);
          if res2 = FR_OK \<and> mode1 AND FA_CREATE_ALWAYS \<noteq> 0
          then do { (res3, fs2) \<leftarrow> f_open_reset dj1 fs1; Some ((res3, mode1, dj1), fs2) }
          else Some ((res2, mode1, dj1), fs1) }"

definition f_open_existing :: "u8 \<Rightarrow> FRESULT \<Rightarrow> DIR \<Rightarrow> FRESULT" where
  "f_open_existing mode res dj =
     (if res \<noteq> FR_OK then res
      else if obj_attr (d_obj dj) AND AM_DIR \<noteq> 0 then FR_NO_FILE
      else if mode AND FA_WRITE \<noteq> 0 \<and> obj_attr (d_obj dj) AND AM_RDO \<noteq> 0 then FR_DENIED
      else FR_OK)"

partial_function (option) f_open_seek :: "u32 \<Rightarrow> u32 \<Rightarrow> 's FATFS \<Rightarrow> ((FRESULT \<times> u32 \<times> u32) \<times> 's FATFS) option" where
  "f_open_seek ofs clst fs =
     (if ofs > clust_bytes fs then do {
        (nxt, fs1) \<leftarrow> get_fat clst fs;
        if nxt \<le> 1 then Some ((FR_INT_ERR, ofs, nxt), fs1)
        else if nxt = 0xFFFFFFFF then Some ((FR_DISK_ERR, ofs, nxt), fs1)
        else f_open_seek (ofs - clust_bytes fs) nxt fs1
      }
      else Some ((FR_OK, ofs, clst), fs))"

text \<open>The file object of an entry, before any seek.\<close>

definition f_open_object :: "u8 \<Rightarrow> DIR \<Rightarrow> 's FATFS \<Rightarrow> FIL \<Rightarrow> FIL" where
  "f_open_object mode dj fs fp =
     fp\<lparr>f_obj := (f_obj fp)\<lparr>obj_fs := True, obj_id := fs_id fs, obj_sclust := ld_clust fs (dir_entry dj fs),
          obj_objsize := ld_dword (drop DIR_FileSize (dir_entry dj fs))\<rparr>,
        f_flag := (if mode AND FA_CREATE_ALWAYS \<noteq> 0 then mode OR FA_MODIFIED else mode), f_err := FR_OK, f_fptr := 0,
        f_sect := 0, f_dir_sect := winsect fs, f_dir_ptr := d_dir dj, f_buf := replicate 512 0\<rparr>"

definition f_open_append :: "'s fil_op" where
  "f_open_append fp fs =
     do { let size = obj_objsize (f_obj fp);
          ((res, ofs, clst), fs1) \<leftarrow> f_open_seek size (obj_sclust (f_obj fp)) fs;
          let fp1 = fp\<lparr>f_fptr := size, f_clust := clst\<rparr>;
          if res \<noteq> FR_OK \<or> ofs mod 512 = 0 then Some ((res, fp1), fs1)
          else if clst2sect fs1 clst = 0 then Some ((FR_INT_ERR, fp1), fs1)
          else let sect = clst2sect fs1 clst + ofs div 512 in fil_fill sect (fp1\<lparr>f_sect := sect\<rparr>) fs1 }"

definition f_open_on :: "u8 \<Rightarrow> FIL \<Rightarrow> octets \<Rightarrow> ('s, FRESULT \<times> FIL) fat_op" where
  "f_open_on mode fp p fs =
     do { ((res0, dj), fs1) \<leftarrow> follow_path p blank_dir fs;
          let res = (if res0 = FR_OK \<and> no_name dj then FR_INVALID_NAME else res0);
          ((res1, mode1, dj1), fs2) \<leftarrow>
            (if mode AND (FA_CREATE_ALWAYS OR FA_OPEN_ALWAYS OR FA_CREATE_NEW) \<noteq> 0 then f_open_create mode res dj fs1
             else Some ((f_open_existing mode res dj, mode, dj), fs1));
          if res1 \<noteq> FR_OK then Some ((res1, fp), fs2)
          else let fp1 = f_open_object mode1 dj1 fs2 fp in
            if mode1 AND FA_SEEKEND \<noteq> 0 \<and> obj_objsize (f_obj fp1) > 0 then f_open_append fp1 fs2
            else Some ((FR_OK, fp1), fs2) }"

definition f_open :: "octets option \<Rightarrow> u8 \<Rightarrow> FIL \<Rightarrow> ('s, FRESULT \<times> FIL) sys_op" where
  "f_open path mode0 fp sys =
     do { let mode = mode0 AND (FA_READ OR FA_WRITE OR FA_CREATE_ALWAYS OR FA_CREATE_NEW OR FA_OPEN_ALWAYS OR FA_OPEN_APPEND OR FA_SEEKEND);
          ((res, fp1), sys1) \<leftarrow> on_volume path mode fp (f_open_on mode fp) sys;
          Some ((res, if res \<noteq> FR_OK then fil_invalidate fp1 else fp1), sys1) }"

subsection \<open>Directories\<close>

definition dir_invalidate :: "DIR \<Rightarrow> DIR" where
  "dir_invalidate dp = dp\<lparr>d_obj := (d_obj dp)\<lparr>obj_fs := False\<rparr>\<rparr>"

definition f_opendir_on :: "DIR \<Rightarrow> octets \<Rightarrow> ('s, FRESULT \<times> DIR) fat_op" where
  "f_opendir_on dp p fs =
     do { ((res, dp1), fs1) \<leftarrow> follow_path p (dp\<lparr>d_obj := (d_obj dp)\<lparr>obj_fs := True\<rparr>\<rparr>) fs;
          ((res1, dp2), fs2) \<leftarrow>
            (if res \<noteq> FR_OK then Some ((res, dp1), fs1)
             else if \<not> no_name dp1 \<and> obj_attr (d_obj dp1) AND AM_DIR = 0 then Some ((FR_NO_PATH, dp1), fs1)
             else let dpc = (if no_name dp1 then dp1 else set_sclust (ld_clust fs1 (dir_entry dp1 fs1)) dp1) in
               dir_sdi 0 (dpc\<lparr>d_obj := (d_obj dpc)\<lparr>obj_id := fs_id fs1\<rparr>\<rparr>) fs1);
          Some ((if res1 = FR_NO_FILE then FR_NO_PATH else res1, dp2), fs2) }"

definition f_opendir :: "octets option \<Rightarrow> DIR \<Rightarrow> ('s, FRESULT \<times> DIR) sys_op" where
  "f_opendir path dp sys =
     do { ((res, dp1), sys1) \<leftarrow> on_volume path 0 dp (f_opendir_on dp) sys;
          Some ((res, if res \<noteq> FR_OK then dir_invalidate dp1 else dp1), sys1) }"

definition f_closedir :: "'s dir_op" where
  "f_closedir dp fs =
     do { (res, fs1) \<leftarrow> validate (d_obj dp) fs; Some ((res, if res = FR_OK then dir_invalidate dp else dp), fs1) }"

text \<open>The item read, when the caller asks for one; without a structure to fill the directory is rewound.\<close>

definition f_readdir :: "FILINFO option \<Rightarrow> DIR \<Rightarrow> ('s, FRESULT \<times> FILINFO option \<times> DIR) fat_op" where
  "f_readdir fno dp fs =
     do { (res, fs1) \<leftarrow> validate (d_obj dp) fs;
          if res \<noteq> FR_OK then Some ((res, fno, dp), fs1)
          else (case fno of
                  None \<Rightarrow> do { ((res1, dp1), fs2) \<leftarrow> dir_sdi 0 dp fs1; Some ((res1, None, dp1), fs2) }
                | Some fi \<Rightarrow> do {
                    ((res1, dp1), fs2) \<leftarrow> dir_read False dp fs1;
                    if res1 \<noteq> FR_OK \<and> res1 \<noteq> FR_NO_FILE then Some ((res1, fno, dp1), fs2)
                    else do {
                      ((res2, dp2), fs3) \<leftarrow> dir_next False dp1 fs2;
                      Some ((if res2 = FR_NO_FILE then FR_OK else res2, Some (get_fileinfo dp1 fs2 fi), dp2), fs3)
                    }
                  }) }"

definition f_stat_on :: "FILINFO option \<Rightarrow> octets \<Rightarrow> ('s, FRESULT \<times> FILINFO option) fat_op" where
  "f_stat_on fno p fs =
     do { ((res, dj), fs1) \<leftarrow> follow_path p blank_dir fs;
          Some (if res \<noteq> FR_OK then (res, fno)
                else if no_name dj then (FR_INVALID_NAME, fno)
                else (FR_OK, map_option (get_fileinfo dj fs1) fno), fs1) }"

definition f_stat :: "octets option \<Rightarrow> FILINFO option \<Rightarrow> ('s, FRESULT \<times> FILINFO option) sys_op" where
  "f_stat path fno = on_volume path 0 fno (f_stat_on fno)"

subsection \<open>Free space\<close>

partial_function (option) getfree_fat12 :: "u32 \<Rightarrow> u32 \<Rightarrow> 's FATFS \<Rightarrow> ((FRESULT \<times> u32) \<times> 's FATFS) option" where
  "getfree_fat12 clst nfree fs =
     do { (stat, fs1) \<leftarrow> get_fat clst fs;
          if stat = 0xFFFFFFFF then Some ((FR_DISK_ERR, nfree), fs1)
          else if stat = 1 then Some ((FR_INT_ERR, nfree), fs1)
          else let n = (if stat = 0 then nfree + 1 else nfree) in
            if clst + 1 < n_fatent fs1 then getfree_fat12 (clst + 1) n fs1 else Some ((FR_OK, n), fs1) }"

partial_function (option) getfree_scan :: "u32 \<Rightarrow> u32 \<Rightarrow> nat \<Rightarrow> u32 \<Rightarrow> 's FATFS \<Rightarrow> ((FRESULT \<times> u32) \<times> 's FATFS) option" where
  "getfree_scan clst sect i nfree fs =
     do { (res, fs1) \<leftarrow> (if i = 0 then move_window sect fs else Some (FR_OK, fs));
          if res \<noteq> FR_OK then Some ((res, nfree), fs1)
          else let sect1 = (if i = 0 then sect + 1 else sect); w = drop i (win fs1);
                   free = (if fs_type fs1 = FS_FAT16 then ld_word w = 0 else ld_dword w AND 0x0FFFFFFF = 0);
                   i1 = (if fs_type fs1 = FS_FAT16 then i + 2 else i + 4) mod SS;
                   n = (if free then nfree + 1 else nfree) in
            if clst - 1 \<noteq> 0 then getfree_scan (clst - 1) sect1 i1 n fs1 else Some ((FR_OK, n), fs1) }"

text \<open>The number is stored also when the scan ended with an error.\<close>

definition f_getfree_on :: "octets \<Rightarrow> ('s, FRESULT \<times> u32 option) fat_op" where
  "f_getfree_on p fs =
     (if free_clst fs \<le> n_fatent fs - 2 then Some ((FR_OK, Some (free_clst fs)), fs)
      else do {
        ((res, nfree), fs1) \<leftarrow> (if fs_type fs = FS_FAT12 then getfree_fat12 2 0 fs else getfree_scan (n_fatent fs) (fatbase fs) 0 0 fs);
        Some ((res, Some nfree), fs1\<lparr>free_clst := nfree, fsi_flag := fsi_flag fs1 OR 1\<rparr>)
      })"

definition f_getfree :: "octets option \<Rightarrow> ('s, FRESULT \<times> u32 option) sys_op" where
  "f_getfree path = on_volume path 0 None f_getfree_on"

subsection \<open>Removing, making, renaming\<close>

text \<open>Whether the directory that starts at a cluster can be removed.\<close>

definition dir_is_empty :: "u32 \<Rightarrow> ('s, FRESULT) fat_op" where
  "dir_is_empty dclst fs =
     do { ((res, sdj), fs1) \<leftarrow> dir_sdi 0 (set_sclust dclst blank_dir) fs;
          if res \<noteq> FR_OK then Some (res, fs1)
          else do {
            ((res1, _), fs2) \<leftarrow> dir_read False sdj fs1;
            Some (if res1 = FR_OK then FR_DENIED else if res1 = FR_NO_FILE then FR_OK else res1, fs2)
          } }"

definition f_unlink_on :: "octets \<Rightarrow> ('s, FRESULT \<times> unit) fat_op" where
  "f_unlink_on p fs =
     do { ((res, dj), fs1) \<leftarrow> follow_path p blank_dir fs;
          if res \<noteq> FR_OK then Some ((res, ()), fs1)
          else if no_name dj then Some ((FR_INVALID_NAME, ()), fs1)
          else if obj_attr (d_obj dj) AND AM_RDO \<noteq> 0 then Some ((FR_DENIED, ()), fs1)
          else do {
            let dclst = ld_clust fs1 (dir_entry dj fs1);
            (res1, fs2) \<leftarrow> (if obj_attr (d_obj dj) AND AM_DIR \<noteq> 0 then dir_is_empty dclst fs1 else Some (FR_OK, fs1));
            if res1 \<noteq> FR_OK then Some ((res1, ()), fs2)
            else do {
              ((res2, _), fs3) \<leftarrow> dir_remove dj fs2;
              (res3, fs4) \<leftarrow> (if res2 = FR_OK \<and> dclst \<noteq> 0 then remove_chain dclst 0 fs3 else Some (res2, fs3));
              (res4, fs5) \<leftarrow> (if res3 = FR_OK then sync_fs fs4 else Some (res3, fs4));
              Some ((res4, ()), fs5)
            }
          } }"

definition f_unlink :: "octets option \<Rightarrow> ('s, FRESULT \<times> unit) sys_op" where
  "f_unlink path = on_volume path FA_WRITE () f_unlink_on"

text \<open>The window of a new directory: its entries for itself and for its parent.\<close>

definition dot_entries :: "'s FATFS \<Rightarrow> u32 \<Rightarrow> u32 \<Rightarrow> octets" where
  "dot_entries fs dcl pcl =
     (let w = (mem_set (win fs) DIR_Name 0x20 11)[DIR_Name := 0x2E, DIR_Attr := AM_DIR];
          w1 = st_clust fs (st_dword w DIR_ModTime GET_FATTIME) 0 dcl;
          w2 = (mem_cpy w1 SZDIRE w1 SZDIRE)[SZDIRE + 1 := 0x2E] in
      st_clust fs w2 SZDIRE pcl)"

text \<open>The new table: its cluster, or the error of the allocation.\<close>

definition mkdir_table :: "u32 \<Rightarrow> u32 \<Rightarrow> ('s, FRESULT) fat_op" where
  "mkdir_table dcl pcl fs =
     (if dcl = 0 then Some (FR_DENIED, fs)
      else if dcl = 1 then Some (FR_INT_ERR, fs)
      else if dcl = 0xFFFFFFFF then Some (FR_DISK_ERR, fs)
      else do {
        (res, fs1) \<leftarrow> sync_window fs;
        if res \<noteq> FR_OK then Some (res, fs1)
        else do {
          (res1, fs2) \<leftarrow> dir_clear dcl fs1;
          Some (res1, if res1 = FR_OK then set_win (dot_entries fs2 dcl pcl) fs2 else fs2)
        }
      })"

definition f_mkdir_on :: "octets \<Rightarrow> ('s, FRESULT \<times> unit) fat_op" where
  "f_mkdir_on p fs =
     do { ((res, dj), fs1) \<leftarrow> follow_path p blank_dir fs;
          if res \<noteq> FR_NO_FILE then Some ((if res = FR_OK then FR_EXIST else res, ()), fs1)
          else do {
            (dcl, fs2) \<leftarrow> create_chain 0 fs1;
            (res1, fs3) \<leftarrow> mkdir_table dcl (obj_sclust (d_obj dj)) fs2;
            ((res2, dj1), fs4) \<leftarrow> (if res1 = FR_OK then dir_register dj fs3 else Some ((res1, dj), fs3));
            if res2 = FR_OK then do {
              let o' = d_dir dj1;
              let w = st_clust fs4 (st_dword (win fs4) (o' + DIR_ModTime) GET_FATTIME) o' dcl;
              (res3, fs5) \<leftarrow> sync_fs (set_win (w[o' + DIR_Attr := AM_DIR]) fs4);
              Some ((res3, ()), fs5)
            }
            else do { (_, fs5) \<leftarrow> remove_chain dcl 0 fs4; Some ((res2, ()), fs5) }
          } }"

definition f_mkdir :: "octets option \<Rightarrow> ('s, FRESULT \<times> unit) sys_op" where
  "f_mkdir path = on_volume path FA_WRITE () f_mkdir_on"

text \<open>The new entry gets the contents of the old one, its name apart.\<close>

definition rename_entry :: "octets \<Rightarrow> nat \<Rightarrow> octets \<Rightarrow> octets" where
  "rename_entry w o' buf =
     (let w1 = mem_cpy w (o' + 13) (drop 13 buf) (SZDIRE - 13); a = buf ! DIR_Attr in
      w1[o' + DIR_Attr := if a AND AM_DIR = 0 then a OR AM_ARC else a])"

text \<open>A directory that moves to another parent gets a new entry for it.\<close>

definition rename_parent :: "DIR \<Rightarrow> DIR \<Rightarrow> ('s, FRESULT) fat_op" where
  "rename_parent djo djn fs =
     (if dir_byte djn fs DIR_Attr AND AM_DIR \<noteq> 0 \<and> obj_sclust (d_obj djo) \<noteq> obj_sclust (d_obj djn) then do {
        let dw = clst2sect fs (ld_clust fs (dir_entry djn fs));
        if dw = 0 then Some (FR_INT_ERR, fs)
        else do {
          (res, fs1) \<leftarrow> move_window dw fs;
          Some (res, if res = FR_OK \<and> win fs1 ! (SZDIRE + 1) = 0x2E
                     then set_win (st_clust fs1 (win fs1) SZDIRE (obj_sclust (d_obj djn))) fs1 else fs1)
        }
      }
      else Some (FR_OK, fs))"

definition rename_to :: "octets \<Rightarrow> octets \<Rightarrow> DIR \<Rightarrow> ('s, FRESULT) fat_op" where
  "rename_to new buf djo fs =
     do { ((res, djn), fs1) \<leftarrow> follow_path new djo fs;
          let res1 = (if res = FR_OK
                      then if obj_sclust (d_obj djn) = obj_sclust (d_obj djo) \<and> d_dptr djn = d_dptr djo then FR_NO_FILE else FR_EXIST
                      else res);
          if res1 \<noteq> FR_NO_FILE then Some (res1, fs1)
          else do {
            ((res2, djn1), fs2) \<leftarrow> dir_register djn fs1;
            if res2 \<noteq> FR_OK then Some (res2, fs2)
            else rename_parent djo djn1 (set_win (rename_entry (win fs2) (d_dir djn1) buf) fs2)
          } }"

definition f_rename_on :: "octets \<Rightarrow> octets \<Rightarrow> ('s, FRESULT \<times> unit) fat_op" where
  "f_rename_on new p fs =
     do { ((res, djo), fs1) \<leftarrow> follow_path p blank_dir fs;
          if res \<noteq> FR_OK then Some ((res, ()), fs1)
          else if d_fn djo ! NSFLAG AND (NS_DOT OR NS_NONAME) \<noteq> 0 then Some ((FR_INVALID_NAME, ()), fs1)
          else do {
            (res1, fs2) \<leftarrow> rename_to new (take SZDIRE (dir_entry djo fs1)) djo fs1;
            if res1 \<noteq> FR_OK then Some ((res1, ()), fs2)
            else do {
              ((res2, _), fs3) \<leftarrow> dir_remove djo fs2;
              (res3, fs4) \<leftarrow> (if res2 = FR_OK then sync_fs fs3 else Some (res2, fs3));
              Some ((res3, ()), fs4)
            }
          } }"

definition f_rename :: "octets option \<Rightarrow> octets option \<Rightarrow> ('s, FRESULT \<times> unit) sys_op" where
  "f_rename path_old path_new =
     on_volume path_old FA_WRITE () (f_rename_on (snd (get_ldnumber path_new)))"

end
