(* ===== verification/Mipos_Blocks.thy ===== *)
theory Mipos_Blocks
  imports Mipos_Fat_Api
begin

text \<open>
  Transfers of several sectors. FatFs moves file data in runs of sectors, past its window; the locale \<open>block_device\<close>
  adds what it relies on there to \<open>sector_device\<close>: a run of sectors is read and written as if sector by sector, and
  a drive that is ready says so. The RAM disk and the disk of the board are such devices.
\<close>

subsection \<open>Runs of sectors of an image\<close>

lemma image_sectors_append:
  assumes "length a = 512 * k"
  shows "image_sectors (a @ b) = image_sectors a @ image_sectors b"
proof (rule nth_equalityI)
  show "length (image_sectors (a @ b)) = length (image_sectors a @ image_sectors b)"
    using assms by (simp add: image_sectors_def)
  fix i assume "i < length (image_sectors (a @ b))"
  then have i: "i < k + length b div 512" using assms by (simp add: image_sectors_def)
  show "image_sectors (a @ b) ! i = (image_sectors a @ image_sectors b) ! i"
  proof (cases "i < k")
    case True
    then have "512 * i + 512 \<le> length a" using assms by simp
    with True i assms show ?thesis by (simp add: image_sectors_def sector_at_def nth_append)
  next
    case False
    then have "512 * i - length a = 512 * (i - k)" using assms by (simp add: diff_mult_distrib2)
    with False i assms show ?thesis by (simp add: image_sectors_def sector_at_def nth_append)
  qed
qed

lemma length_image_sectors [simp]: "length (image_sectors bs) = length bs div 512" by (simp add: image_sectors_def)

lemma concat_image_sectors: "length bs = 512 * k \<Longrightarrow> concat (image_sectors bs) = bs"
proof (induction k arbitrary: bs)
  case (Suc k)
  then have "image_sectors bs = image_sectors (take 512 bs) @ image_sectors (drop 512 bs)"
    using image_sectors_append [of "take 512 bs" 1 "drop 512 bs"] by simp
  moreover have "image_sectors (take 512 bs) = [take 512 bs]" using Suc.prems by (simp add: image_sectors_def sector_at_def)
  ultimately show ?case using Suc by simp
qed (simp add: image_sectors_def)

lemma three_parts: "bs = take i bs @ take j (drop i bs) @ drop (i + j) bs"
  by (simp add: add.commute [of i] flip: drop_drop)

lemma image_parts:
  assumes "n + c \<le> length bs div 512"
  shows "take (512 * c) (drop (512 * n) bs) = concat (take c (drop n (image_sectors bs)))"
    and "length b = 512 * c \<Longrightarrow> image_sectors (take (512 * n) bs @ b @ drop (512 * n + 512 * c) bs) =
      take n (image_sectors bs) @ image_sectors b @ drop (n + c) (image_sectors bs)"
proof -
  let ?x = "take (512 * n) bs" and ?y = "take (512 * c) (drop (512 * n) bs)" and ?z = "drop (512 * n + 512 * c) bs"
  have len: "512 * n + 512 * c \<le> length bs" using assms by simp
  have split: "bs = ?x @ ?y @ ?z" by (rule three_parts)
  have lx: "length ?x = 512 * n" and ly: "length ?y = 512 * c" using len by simp_all
  have im: "image_sectors bs = image_sectors ?x @ image_sectors ?y @ image_sectors ?z"
    by (subst split, subst image_sectors_append [OF lx], subst image_sectors_append [OF ly]) (rule refl)
  have t: "take n (image_sectors bs) = image_sectors ?x" and d: "drop n (image_sectors bs) = image_sectors ?y @ image_sectors ?z"
    and e: "drop (n + c) (image_sectors bs) = image_sectors ?z"
    unfolding im using len by simp_all
  show "?y = concat (take c (drop n (image_sectors bs)))" unfolding d using len concat_image_sectors [OF ly] by simp
  show "image_sectors (?x @ b @ ?z) = take n (image_sectors bs) @ image_sectors b @ drop (n + c) (image_sectors bs)"
    if "length b = 512 * c"
    unfolding t e by (simp add: image_sectors_append [OF lx] image_sectors_append [OF that])
qed

subsection \<open>The interface\<close>

locale block_device = sector_device +
  assumes reads_many: "ready s \<Longrightarrow> 0 < cc \<Longrightarrow> unat n + unat cc \<le> length (sectors s) \<Longrightarrow>
      \<exists>s'. fatfs_disk_read t pdrv n cc s = Some ((MIPOS_DISK_RES_OK, concat (take (unat cc) (drop (unat n) (sectors s)))), s') \<and>
        ready s' \<and> sectors s' = sectors s"
    and writes_many: "ready s \<Longrightarrow> 0 < cc \<Longrightarrow> unat n + unat cc \<le> length (sectors s) \<Longrightarrow> length b = 512 * unat cc \<Longrightarrow>
      \<exists>s'. fatfs_disk_write t pdrv b n cc s = Some (MIPOS_DISK_RES_OK, s') \<and> ready s' \<and>
        sectors s' = take (unat n) (sectors s) @ image_sectors b @ drop (unat n + unat cc) (sectors s)"
    and status_ok: "ready s \<Longrightarrow> \<exists>s'. fatfs_disk_status t pdrv s = Some (0, s') \<and> ready s' \<and> sectors s' = sectors s"

subsection \<open>The RAM disk\<close>

lemma ram_span_many:
  assumes "ramdisk_ptr s = Some bs" "length bs < 2 ^ 32" "unat n + unat c \<le> length bs div 512" "0 < c"
  shows "ramdisk_span n c s = Some (512 * unat n, 512 * unat c, bs)"
proof -
  have "0 < unat c" using assms(4) by (simp add: word_less_nat_alt)
  then have "unat n < length bs div 512" "unat c \<le> length bs div 512" using assms(3) by linarith+
  then have "unat (n * 512) = 512 * unat n" "unat (c * 512) = 512 * unat c"
    using assms(2) by (simp_all add: unat_word_ariths)
  with assms show ?thesis by (simp add: ramdisk_span_def Let_def mip_simps)
qed

interpretation ramblk: block_device ram_table 0 ram_ready ram_sectors
proof
  fix s and cc n :: u32
  assume a: "ram_ready s" "0 < cc" "unat n + unat cc \<le> length (ram_sectors s)"
  then obtain bs where bs: "ramdisk_ptr s = Some bs" "length bs < 2 ^ 32" "unat n + unat cc \<le> length bs div 512"
      "ramdisk_disk_status s = 0"
    by (auto simp: ram_ready_def ram_sectors_def)
  note sp = ram_span_many [OF bs(1-3) a(2)]
  from sp bs image_parts(1) [OF bs(3)]
  show "\<exists>s'. fatfs_disk_read ram_table 0 n cc s =
      Some ((MIPOS_DISK_RES_OK, concat (take (unat cc) (drop (unat n) (ram_sectors s)))), s') \<and> ram_ready s' \<and> ram_sectors s' = ram_sectors s"
    using a(1) by (simp add: fatfs_disk_read_def mipos_disk_read_def found_ram ramdisk_drv_def ramdisk_read_def ram_sectors_def)
  fix b :: octets assume b: "length b = 512 * unat cc"
  let ?bs = "take (512 * unat n) bs @ b @ drop (512 * unat n + 512 * unat cc) bs"
  have w: "fatfs_disk_write ram_table 0 b n cc s = Some (MIPOS_DISK_RES_OK, s\<lparr>ramdisk_ptr := Some ?bs\<rparr>)"
    using sp bs b by (simp add: fatfs_disk_write_def mipos_disk_write_def found_ram ramdisk_drv_def ramdisk_write_def)
  have "512 * unat n + 512 * unat cc \<le> length bs" using bs(3) by simp
  then have "ram_ready (s\<lparr>ramdisk_ptr := Some ?bs\<rparr>)" using bs(2,4) b by (simp add: ram_ready_def)
  with w image_parts(2) [OF bs(3) b] bs(1)
  show "\<exists>s'. fatfs_disk_write ram_table 0 b n cc s = Some (MIPOS_DISK_RES_OK, s') \<and> ram_ready s' \<and>
      ram_sectors s' = take (unat n) (ram_sectors s) @ image_sectors b @ drop (unat n + unat cc) (ram_sectors s)"
    by (intro exI [of _ "s\<lparr>ramdisk_ptr := Some ?bs\<rparr>"]) (simp add: ram_sectors_def)
next
  fix s assume "ram_ready s"
  then show "\<exists>s'. fatfs_disk_status ram_table 0 s = Some (0, s') \<and> ram_ready s' \<and> ram_sectors s' = ram_sectors s"
    by (auto simp: fatfs_disk_status_def mipos_disk_status_def found_ram ramdisk_drv_def ramdisk_status_def ram_ready_def ram_sectors_def)
qed

subsection \<open>The disk on the host\<close>

lemma host_seek_many:
  assumes "host_ready handle contents s" "0 < c" "unat n + unat c \<le> length (contents (hd_host s)) div 512"
  shows "hostdisk_check_range n c s = 0" "unat n < length (contents (hd_host s)) div 512" "unat (c * 512) = 512 * unat c"
proof -
  let ?len = "length (contents (hd_host s))"
  have r: "?len < 2 ^ 31" "unat (g_sector_count s) = ?len div 512" using assms(1) by (auto simp: host_ready_def)
  have c: "0 < unat c" using assms(2) by (simp add: word_less_nat_alt)
  with assms(3) show lt: "unat n < ?len div 512" by linarith
  have "unat (g_sector_count s - n) = unat (g_sector_count s) - unat n" using lt r(2) by (simp add: unat_sub word_le_nat_alt)
  then have "\<not> g_sector_count s - n < c" using r(2) assms(3) by (simp add: word_less_nat_alt)
  then show "hostdisk_check_range n c s = 0"
    using lt r(2) by (simp add: hostdisk_check_range_def word_le_nat_alt)
  have "512 * unat c \<le> ?len" using assms(3) by simp
  then have "512 * unat c < 2 ^ 32" using r(1) by simp
  then show "unat (c * 512) = 512 * unat c" by (simp add: unat_word_ariths)
qed

lemma host_reads_many:
  assumes "host_file call handle contents pos" "host_ready handle contents s" "0 < c"
    "unat n + unat c \<le> length (contents (hd_host s)) div 512"
  shows "\<exists>h'. hostdisk_read call 0 n c s =
      Some ((MIPOS_DISK_RES_OK, take (512 * unat c) (drop (512 * unat n) (contents (hd_host s)))), s\<lparr>hd_host := h'\<rparr>) \<and>
    contents h' = contents (hd_host s)"
proof -
  note m = host_seek_many [OF assms(2-4)]
  obtain h1 where k: "hostdisk_seek_sector call n s = (0, s\<lparr>hd_host := h1\<rparr>)" "contents h1 = contents (hd_host s)"
      "pos h1 = 512 * unat n" using host_seek(2) [OF assms(1,2) m(2)] by blast
  have "pos h1 + unat (c * 512) \<le> length (contents h1)" using k(2,3) m(3) assms(4) by simp
  then obtain h2 where "call SYS_READ (Read_args handle (c * 512)) h1 =
      ((0, take (512 * unat c) (drop (512 * unat n) (contents (hd_host s)))), h2)" "contents h2 = contents (hd_host s)"
    using assms(1) k(2,3) m(3) unfolding host_file_def by metis
  with k(1) m(1) assms(2) show ?thesis
    by (auto simp: hostdisk_read_def host_ready_def semihost_read_def transferred_def mip_simps)
qed

lemma host_writes_many:
  assumes "host_file call handle contents pos" "host_ready handle contents s" "0 < c"
    "unat n + unat c \<le> length (contents (hd_host s)) div 512" "length b = 512 * unat c"
  shows "\<exists>h'. hostdisk_write call 0 b n c s = Some (MIPOS_DISK_RES_OK, s\<lparr>hd_host := h'\<rparr>) \<and>
    contents h' = take (512 * unat n) (contents (hd_host s)) @ b @ drop (512 * unat n + 512 * unat c) (contents (hd_host s))"
proof -
  note m = host_seek_many [OF assms(2-4)]
  obtain h1 where k: "hostdisk_seek_sector call n s = (0, s\<lparr>hd_host := h1\<rparr>)" "contents h1 = contents (hd_host s)"
      "pos h1 = 512 * unat n" using host_seek(2) [OF assms(1,2) m(2)] by blast
  have "pos h1 + unat (c * 512) \<le> length (contents h1) \<and> length b = unat (c * 512)" using k(2,3) m(3) assms(4,5) by simp
  then obtain h2 d where "call SYS_WRITE (Write_args handle b (c * 512)) h1 = ((0, d), h2)"
      "contents h2 = take (512 * unat n) (contents (hd_host s)) @ b @ drop (512 * unat n + 512 * unat c) (contents (hd_host s))"
    using assms(1) k(2,3) m(3) unfolding host_file_def by metis
  with k(1) m(1) assms(2) show ?thesis
    by (auto simp: hostdisk_write_def host_ready_def semihost_write_def transferred_def mip_simps)
qed

text \<open>
  C40. The disk of the board is a block device: with a host whose files behave as documented, every run of sectors of
  the image can be read and written through the driver table, a write changes exactly those sectors of the image file,
  and a ready drive reports that it is ready.
\<close>

theorem hostdisk_is_block_device:
  assumes "host_file call handle contents pos"
  shows "block_device (host_table call) 0 (host_ready handle contents) (\<lambda>s. image_sectors (contents (hd_host s)))"
proof -
  have base: "sector_device (host_table call) 0 (host_ready handle contents) (\<lambda>s. image_sectors (contents (hd_host s)))"
    by (rule host_sector_device [OF assms])
  have "block_device_axioms (host_table call) 0 (host_ready handle contents) (\<lambda>s. image_sectors (contents (hd_host s)))"
  proof
    fix s :: "'a hostdisk" and cc n :: u32
    assume a: "host_ready handle contents s" "0 < cc" "unat n + unat cc \<le> length (image_sectors (contents (hd_host s)))"
    then have n: "unat n + unat cc \<le> length (contents (hd_host s)) div 512" by simp
    from host_reads_many [OF assms a(1,2) n] image_parts(1) [OF n] a(1)
    show "\<exists>s'. fatfs_disk_read (host_table call) 0 n cc s =
        Some ((MIPOS_DISK_RES_OK, concat (take (unat cc) (drop (unat n) (image_sectors (contents (hd_host s)))))), s') \<and>
        host_ready handle contents s' \<and> image_sectors (contents (hd_host s')) = image_sectors (contents (hd_host s))"
      by (auto simp: fatfs_disk_read_def mipos_disk_read_def found_host hostdisk_driver_def host_ready_def)
    fix b :: octets assume b: "length b = 512 * unat cc"
    from host_writes_many [OF assms a(1,2) n b] obtain h' where
        w: "hostdisk_write call 0 b n cc s = Some (MIPOS_DISK_RES_OK, s\<lparr>hd_host := h'\<rparr>)"
        "contents h' = take (512 * unat n) (contents (hd_host s)) @ b @ drop (512 * unat n + 512 * unat cc) (contents (hd_host s))"
      by blast
    have "512 * unat n + 512 * unat cc \<le> length (contents (hd_host s))" using n by simp
    then have "length (contents h') = length (contents (hd_host s))" using w(2) b by simp
    with w image_parts(2) [OF n b] a(1)
    show "\<exists>s'. fatfs_disk_write (host_table call) 0 b n cc s = Some (MIPOS_DISK_RES_OK, s') \<and> host_ready handle contents s' \<and>
        image_sectors (contents (hd_host s')) = take (unat n) (image_sectors (contents (hd_host s))) @ image_sectors b @
          drop (unat n + unat cc) (image_sectors (contents (hd_host s)))"
      by (intro exI [of _ "s\<lparr>hd_host := h'\<rparr>"])
        (simp add: fatfs_disk_write_def mipos_disk_write_def found_host hostdisk_driver_def host_ready_def)
  next
    fix s :: "'a hostdisk" assume "host_ready handle contents s"
    then show "\<exists>s'. fatfs_disk_status (host_table call) 0 s = Some (0, s') \<and> host_ready handle contents s' \<and>
        image_sectors (contents (hd_host s')) = image_sectors (contents (hd_host s))"
      by (simp add: fatfs_disk_status_def mipos_disk_status_def found_host hostdisk_driver_def hostdisk_status_def host_ready_def)
  qed
  with base show ?thesis by (rule block_device.intro)
qed

theorem hostdisk_is_block_device_witness:
  "block_device (host_table one_file_host) 0 (host_ready 1 fst) (\<lambda>s. image_sectors (fst (hd_host s)))"
  by (rule hostdisk_is_block_device [OF one_file_host_file])

end
