(* ===== verification/Mipos_Fat_Stays.thy ===== *)
theory Mipos_Fat_Stays
  imports Mipos_Blocks
begin

text \<open>
  Where the window stands. The operations on the allocation table move the window to sectors of the table only, so
  the sectors of the files stay out of it: what FatFs writes to them past the window is what a reader finds there.
\<close>

definition table_place :: "'s FATFS \<Rightarrow> bool" where
  "table_place fs \<longleftrightarrow> table_ok fs \<and> 1 \<le> unat (n_fats fs) \<and> unat (fatbase fs) + unat (n_fats fs) * unat (fsize fs) \<le> 2 ^ 32"

definition stays :: "'s FATFS \<Rightarrow> 's FATFS \<Rightarrow> bool" where
  "stays fs fs' \<longleftrightarrow> fs_shape fs' = fs_shape fs \<and>
     (winsect fs' = winsect fs \<or> winsect fs' = 0xFFFFFFFF \<or> in_table fs (unat (winsect fs')))"

lemma stays_refl [simp]: "stays fs fs" by (simp add: stays_def)

lemma stays_shape: "stays fs fs' \<Longrightarrow> fs_shape fs' = fs_shape fs" by (simp add: stays_def)

lemma stays_trans:
  assumes "stays a b" "stays b c"
  shows "stays a c"
  using assms shape_simps(9) [OF stays_shape [OF assms(1)]] by (auto simp: stays_def)

lemma table_place_shape:
  assumes "fs_shape fs' = fs_shape fs"
  shows "table_place fs' = table_place fs"
  by (simp add: table_place_def shape_simps [OF assms])

lemma stays_place: "stays fs fs' \<Longrightarrow> table_place fs \<Longrightarrow> table_place fs'"
  by (simp add: table_place_shape [OF stays_shape])

lemma stays_update [simp]:
  "stays fs (set_win w fs') = stays fs fs'"
  "stays fs (fs'\<lparr>last_clst := l\<rparr>) = stays fs fs'"
  "stays fs (fs'\<lparr>free_clst := f\<rparr>) = stays fs fs'"
  "stays fs (fs'\<lparr>fsi_flag := g\<rparr>) = stays fs fs'"
  by (simp_all add: stays_def fs_shape_def set_win_def)

lemma sync_window_stays: "sync_window fs = Some (r, fs') \<Longrightarrow> fs_shape fs' = fs_shape fs \<and> winsect fs' = winsect fs"
  by (auto simp: sync_window_def fat_write_def fs_shape_def Let_def split: if_splits bind_splits)

lemma move_window_stays:
  assumes "move_window n fs = Some (r, fs')"
  shows "fs_shape fs' = fs_shape fs \<and> (winsect fs' = winsect fs \<or> winsect fs' = 0xFFFFFFFF \<or> winsect fs' = n)"
proof (cases "n = winsect fs")
  case False
  then obtain res fs1 where s: "sync_window fs = Some (res, fs1)" using assms by (cases "sync_window fs") (auto simp: move_window_def)
  with assms False sync_window_stays [OF s] show ?thesis
    by (auto simp: move_window_def fat_read_def fs_shape_def split: if_splits bind_splits)
qed (use assms in \<open>simp add: move_window_def\<close>)

lemma in_table_sector:
  assumes "table_place fs" "unat k < unat (fsize fs)"
  shows "in_table fs (unat (fatbase fs + k))"
proof -
  have "unat (fsize fs) \<le> unat (n_fats fs) * unat (fsize fs)" using assms(1) by (cases "unat (n_fats fs)") (simp_all add: table_place_def)
  then have lt: "unat (fatbase fs) + unat k < unat (fatbase fs) + unat (n_fats fs) * unat (fsize fs)" using assms(2) by linarith
  then have "unat (fatbase fs + k) = unat (fatbase fs) + unat k" using assms(1) by (simp add: table_place_def unat_word_ariths)
  with lt show ?thesis by (simp add: in_table_def)
qed

lemma table_move_stays:
  assumes "table_place fs" "move_window (fatbase fs + k) fs = Some (r, fs')" "unat k < unat (fsize fs)"
  shows "stays fs fs'"
  using move_window_stays [OF assms(2)] in_table_sector [OF assms(1,3)] by (auto simp: stays_def)

lemma entry_sector:
  assumes "table_place fs" "unat c < unat (n_fatent fs)"
  shows "fs_type fs = FS_FAT12 \<Longrightarrow> unat (fat12_ofs c div 512) < unat (fsize fs)"
    "fs_type fs = FS_FAT12 \<Longrightarrow> unat ((fat12_ofs c + 1) div 512) < unat (fsize fs)"
    "fs_type fs = FS_FAT16 \<Longrightarrow> unat (c div 256) < unat (fsize fs)"
    "fs_type fs = FS_FAT32 \<Longrightarrow> unat (c div 128) < unat (fsize fs)"
proof -
  have t: "table_ok fs" using assms(1) by (simp add: table_place_def)
  note p = entry_place [OF t assms(2)]
  show "unat (fat12_ofs c div 512) < unat (fsize fs)" "unat ((fat12_ofs c + 1) div 512) < unat (fsize fs)" if ty: "fs_type fs = FS_FAT12"
  proof -
    have "unat c < 0x1000" using t ty assms(2) by (simp add: table_ok_def max_entries_def)
    with p(1) [OF ty] show "unat (fat12_ofs c div 512) < unat (fsize fs)" "unat ((fat12_ofs c + 1) div 512) < unat (fsize fs)"
      by (simp_all add: unat_div unat_fat12_ofs)
  qed
  show "unat (c div 256) < unat (fsize fs)" if "fs_type fs = FS_FAT16" using p(2) [OF that] by (simp add: unat_div)
  show "unat (c div 128) < unat (fsize fs)" if "fs_type fs = FS_FAT32" using p(3) [OF that] by (simp add: unat_div)
qed

lemma get_fat_stays:
  assumes "table_place fs" "get_fat c fs = Some (r, fs')"
  shows "stays fs fs'"
proof (cases "c < 2 \<or> n_fatent fs \<le> c")
  case False
  then have c: "unat c < unat (n_fatent fs)" by (simp add: word_le_nat_alt)
  note e = entry_sector [OF assms(1) c]
  consider "fs_type fs = FS_FAT12" | "fs_type fs = FS_FAT16" | "fs_type fs = FS_FAT32"
    using assms(1) by (auto simp: table_place_def table_ok_def)
  then show ?thesis
  proof cases
    case 1
    with assms(2) False obtain res fs1 where m: "move_window (fatbase fs + fat12_ofs c div 512) fs = Some (res, fs1)"
      by (auto simp: get_fat_def Let_def bind_eq_Some_conv)
    have s1: "stays fs fs1" by (rule table_move_stays [OF assms(1) m e(1) [OF 1]])
    show ?thesis
    proof (cases "res = FR_OK")
      case True
      with assms(2) False 1 m obtain res2 where "move_window (fatbase fs1 + (fat12_ofs c + 1) div 512) fs1 = Some (res2, fs')"
        by (auto simp: get_fat_def Let_def bind_eq_Some_conv split: if_splits)
      from table_move_stays [OF stays_place [OF s1 assms(1)] this] e(2) [OF 1] shape_simps(3) [OF stays_shape [OF s1]]
      have "stays fs1 fs'" by simp
      with s1 show ?thesis by (rule stays_trans)
    qed (use s1 m assms(2) False 1 in \<open>simp add: get_fat_def Let_def\<close>)
  next
    case 2
    with assms(2) False obtain res where "move_window (fatbase fs + c div 256) fs = Some (res, fs')"
      by (auto simp: get_fat_def bind_eq_Some_conv mip_simps)
    from table_move_stays [OF assms(1) this e(3) [OF 2]] show ?thesis .
  next
    case 3
    with assms(2) False obtain res where "move_window (fatbase fs + c div 128) fs = Some (res, fs')"
      by (auto simp: get_fat_def bind_eq_Some_conv mip_simps)
    from table_move_stays [OF assms(1) this e(4) [OF 3]] show ?thesis .
  qed
qed (use assms in \<open>simp add: get_fat_def\<close>)

lemma put_fat_stays:
  assumes "table_place fs" "put_fat c v fs = Some (r, fs')"
  shows "stays fs fs'"
proof (cases "2 \<le> c \<and> c < n_fatent fs")
  case True
  then have c: "unat c < unat (n_fatent fs)" by (simp add: word_less_nat_alt)
  note e = entry_sector [OF assms(1) c]
  consider "fs_type fs = FS_FAT12" | "fs_type fs = FS_FAT16" | "fs_type fs = FS_FAT32"
    using assms(1) by (auto simp: table_place_def table_ok_def)
  then show ?thesis
  proof cases
    case 1
    with assms(2) True obtain res fs1 where m: "move_window (fatbase fs + fat12_ofs c div 512) fs = Some (res, fs1)"
      by (auto simp: put_fat_def Let_def bind_eq_Some_conv)
    have s1: "stays fs fs1" by (rule table_move_stays [OF assms(1) m e(1) [OF 1]])
    show ?thesis
    proof (cases "res = FR_OK")
      case ok: True
      from assms(2) True 1 m ok obtain w res2 fs2 w2 where
        m2: "move_window (fatbase fs1 + (fat12_ofs c + 1) div 512) (set_win w fs1) = Some (res2, fs2)"
        and fs': "fs' = fs2 \<or> fs' = set_win w2 fs2"
        by (auto simp: put_fat_def Let_def bind_eq_Some_conv split: if_splits)
      have s2: "stays fs (set_win w fs1)" using s1 by simp
      note g = shape_simps [OF stays_shape [OF s2]]
      have "stays (set_win w fs1) fs2"
        using table_move_stays [OF stays_place [OF s2 assms(1)], of "(fat12_ofs c + 1) div 512"] m2 e(2) [OF 1] g(3)
        by (simp add: set_win_def)
      with s2 have "stays fs fs2" by (rule stays_trans)
      with fs' show ?thesis by auto
    qed (use s1 m assms(2) True 1 in \<open>simp add: put_fat_def Let_def\<close>)
  next
    case 2
    with assms(2) True obtain res fs1 w where "move_window (fatbase fs + c div 256) fs = Some (res, fs1)" "fs' = fs1 \<or> fs' = set_win w fs1"
      by (auto simp: put_fat_def bind_eq_Some_conv mip_simps split: if_splits)
    with table_move_stays [OF assms(1) _ e(3) [OF 2]] show ?thesis by auto
  next
    case 3
    with assms(2) True obtain res fs1 w where "move_window (fatbase fs + c div 128) fs = Some (res, fs1)" "fs' = fs1 \<or> fs' = set_win w fs1"
      by (auto simp: put_fat_def Let_def bind_eq_Some_conv mip_simps split: if_splits)
    with table_move_stays [OF assms(1) _ e(4) [OF 3]] show ?thesis by auto
  qed
qed (use assms in \<open>auto simp: put_fat_def\<close>)

lemma find_free_stays:
  assumes "find_free_loop scl n fs = Some (r, fs')" "table_place fs"
  shows "stays fs fs'"
proof -
  have "table_place fs \<longrightarrow> stays fs (snd y)" if "find_free_loop scl n fs = Some y" for y
    using that
  proof (rule find_free_loop.raw_induct [where P = "\<lambda>scl n fs y. table_place fs \<longrightarrow> stays fs (snd y)", rotated])
    fix loop :: "u32 \<Rightarrow> u32 \<Rightarrow> 'a FATFS \<Rightarrow> ((u32 + u32) \<times> 'a FATFS) option" and scl n :: u32 and fs :: "'a FATFS" and y
    assume ih: "\<And>scl n fs y. loop scl n fs = Some y \<Longrightarrow> table_place fs \<longrightarrow> stays fs (snd y)"
      and run: "(let ncl = (if n + 1 \<ge> n_fatent fs then 2 else n + 1) in
      if n + 1 \<ge> n_fatent fs \<and> 2 > scl then Some (Inl 0, fs)
      else do {
        (cs, fs1) \<leftarrow> get_fat ncl fs;
        if cs = 0 then Some (Inr ncl, fs1)
        else if cs = 1 \<or> cs = 0xFFFFFFFF then Some (Inl cs, fs1)
        else if ncl = scl then Some (Inl 0, fs1)
        else loop scl ncl fs1
      }) = Some y"
    show "table_place fs \<longrightarrow> stays fs (snd y)"
    proof
      assume tp: "table_place fs"
      define ncl where "ncl = (if n + 1 \<ge> n_fatent fs then 2 else n + 1)"
      show "stays fs (snd y)"
      proof (cases "n + 1 \<ge> n_fatent fs \<and> 2 > scl")
        case False
        then obtain cs fs1 where g: "get_fat ncl fs = Some (cs, fs1)" using run by (cases "get_fat ncl fs") (auto simp: ncl_def Let_def)
        have s: "stays fs fs1" by (rule get_fat_stays [OF tp g])
        from False run g have "snd y = fs1 \<or> loop scl ncl fs1 = Some y"
          by (auto simp: Let_def ncl_def [symmetric] split: if_splits)
        with s ih [of scl ncl fs1 y] stays_place [OF s tp] show ?thesis by (auto intro: stays_trans)
      qed (use run in \<open>auto simp: Let_def\<close>)
    qed
  qed
  from this [OF assms(1)] assms(2) show ?thesis by simp
qed

lemma chain_start_stays: "table_place fs \<Longrightarrow> chain_start c fs = Some (r, fs') \<Longrightarrow> stays fs fs'"
  by (auto simp: chain_start_def bind_eq_Some_conv dest: get_fat_stays split: if_splits)

lemma pick_cluster_stays:
  assumes "table_place fs" "pick_cluster c scl fs = Some (r, fs')"
  shows "stays fs fs'"
proof (cases "scl = c")
  case False
  with assms find_free_stays show ?thesis by (auto simp: pick_cluster_def)
next
  case True
  then obtain cs fs1 where g: "get_fat (if scl + 1 \<ge> n_fatent fs then 2 else scl + 1) fs = Some (cs, fs1)"
    using assms(2) by (auto simp: pick_cluster_def Let_def bind_eq_Some_conv split: if_splits)
  have s: "stays fs fs1" by (rule get_fat_stays [OF assms(1) g])
  from True assms(2) g obtain a where "fs' = fs1 \<or> find_free_loop a a fs1 = Some (r, fs')"
    by (auto simp: pick_cluster_def Let_def split: if_splits)
  with s find_free_stays [OF _ stays_place [OF s assms(1)]] show ?thesis by (auto intro: stays_trans)
qed

lemma create_chain_stays:
  assumes "table_place fs" "create_chain c fs = Some (r, fs')"
  shows "stays fs fs'"
proof -
  obtain start fs1 where st: "chain_start c fs = Some (start, fs1)" using assms(2) by (auto simp: create_chain_def bind_eq_Some_conv)
  have s1: "stays fs fs1" by (rule chain_start_stays [OF assms(1) st])
  show ?thesis
  proof (cases start)
    case (Inl v)
    with st assms(2) s1 show ?thesis by (simp add: create_chain_def)
  next
    case start: (Inr scl)
    show ?thesis
    proof (cases "free_clst fs1 = 0")
      case True
      with st start assms(2) s1 show ?thesis by (simp add: create_chain_def)
    next
      case False
      then obtain pick fs2 where pk: "pick_cluster c scl fs1 = Some (pick, fs2)"
        using st start assms(2) by (auto simp: create_chain_def bind_eq_Some_conv)
      have s2: "stays fs fs2" using pick_cluster_stays [OF stays_place [OF s1 assms(1)] pk] s1 by (rule stays_trans [rotated])
      show ?thesis
      proof (cases pick)
        case (Inl v)
        with st start False pk assms(2) s2 show ?thesis by (simp add: create_chain_def)
      next
        case (Inr ncl)
        with st start False pk assms(2) have run: "do {
            (res, fs3) \<leftarrow> put_fat ncl 0xFFFFFFFF fs2;
            (res', fs4) \<leftarrow> (if res = FR_OK \<and> c \<noteq> 0 then put_fat c ncl fs3 else Some (res, fs3));
            if res' = FR_OK
            then Some (ncl, fs4\<lparr>last_clst := ncl,
              free_clst := (if free_clst fs4 \<le> n_fatent fs4 - 2 then free_clst fs4 - 1 else free_clst fs4),
              fsi_flag := fsi_flag fs4 OR 1\<rparr>)
            else Some (if res' = FR_DISK_ERR then 0xFFFFFFFF else 1, fs4)
          } = Some (r, fs')" by (simp add: create_chain_def)
        then obtain res fs3 where p1: "put_fat ncl 0xFFFFFFFF fs2 = Some (res, fs3)" by (cases "put_fat ncl 0xFFFFFFFF fs2") auto
        define second where "second = (if res = FR_OK \<and> c \<noteq> 0 then put_fat c ncl fs3 else Some (res, fs3))"
        from run p1 obtain res' fs4 where p2: "second = Some (res', fs4)" by (cases second) (auto simp: second_def [symmetric])
        from run p1 p2 have p3: "stays fs fs4 \<longrightarrow> stays fs fs'" by (simp add: second_def [symmetric] split: if_splits) auto
        have s3: "stays fs fs3" using put_fat_stays [OF stays_place [OF s2 assms(1)] p1] s2 by (rule stays_trans [rotated])
        have "stays fs fs4" using p2 put_fat_stays [OF stays_place [OF s3 assms(1)]] s3 by (auto simp: second_def intro: stays_trans split: if_splits)
        with p3 show ?thesis by simp
      qed
    qed
  qed
qed

end
