(* ===== verification/Mipos_Fat_Contents.thy ===== *)
theory Mipos_Fat_Contents
  imports Mipos_Fat_Stays
begin

text \<open>
  What a file of a FAT volume holds. The sectors of a file are those of the clusters of its chain, in order; its bytes
  are those of its sectors on the device, with the sector in the cache of the file object in place of the one it is
  newer than. An open file is consistent (\<open>file_ok\<close>) when its pointers into the chain and its cache are right.
\<close>

unbundle bit_operations_syntax

subsection \<open>The data area\<close>

abbreviation csz :: "'s FATFS \<Rightarrow> nat" where "csz fs \<equiv> unat (csize fs)"

definition csize_ok :: "u16 \<Rightarrow> bool" where
  "csize_ok c \<longleftrightarrow> c \<in> {1, 2, 4, 8, 16, 32, 64, 128}"

definition data_ok :: "nat \<Rightarrow> 's FATFS \<Rightarrow> bool" where
  "data_ok len fs \<longleftrightarrow> table_place fs \<and> csize_ok (csize fs) \<and>
     unat (fatbase fs) + unat (n_fats fs) * unat (fsize fs) \<le> unat (fs_database fs) \<and> 0 < unat (fs_database fs) \<and>
     unat (fs_database fs) + csz fs * (unat (n_fatent fs) - 2) \<le> len \<and> len < 2 ^ 32"

definition base :: "'s FATFS \<Rightarrow> nat \<Rightarrow> nat" where
  "base fs c = unat (fs_database fs) + csz fs * (c - 2)"

text \<open>The sector with a given index in the file.\<close>

definition file_sector :: "'s FATFS \<Rightarrow> nat list \<Rightarrow> nat \<Rightarrow> nat" where
  "file_sector fs cs k = base fs (cs ! (k div csz fs)) + k mod csz fs"

definition clusters_ok :: "'s FATFS \<Rightarrow> nat list \<Rightarrow> bool" where
  "clusters_ok fs cs \<longleftrightarrow> distinct cs \<and> (\<forall>c \<in> set cs. 2 \<le> c \<and> c < unat (n_fatent fs))"

lemma fat_chain_clusters: "fat_chain E (unat (n_fatent fs)) cs \<Longrightarrow> clusters_ok fs cs"
  using fat_chain_distinct fat_chain_elem by (auto simp: clusters_ok_def)

lemma csz_pos: "data_ok len fs \<Longrightarrow> 0 < csz fs" "data_ok len fs \<Longrightarrow> csz fs \<le> 128"
  by (auto simp: data_ok_def csize_ok_def)

lemma base_range:
  assumes "data_ok len fs" "2 \<le> c" "c < unat (n_fatent fs)" "i < csz fs"
  shows "base fs c + i < len" "unat (fs_database fs) \<le> base fs c"
proof -
  have "csz fs * (c - 2) + csz fs \<le> csz fs * (unat (n_fatent fs) - 2)"
    using mult_le_mono2 [of "c - 2 + 1" "unat (n_fatent fs) - 2" "csz fs"] assms(2,3) by (simp add: algebra_simps Suc_diff_le)
  with assms show "base fs c + i < len" by (simp add: base_def data_ok_def)
qed (simp add: base_def)

lemma base_inj:
  assumes "base fs c + i = base fs d + j" "i < csz fs" "j < csz fs" "2 \<le> c" "2 \<le> d"
  shows "c = d \<and> i = j"
proof -
  have eq: "csz fs * (c - 2) + i = csz fs * (d - 2) + j" using assms(1) by (simp add: base_def)
  have "(csz fs * (c - 2) + i) div csz fs = c - 2" "(csz fs * (d - 2) + j) div csz fs = d - 2" using assms(2,3) by simp_all
  with eq assms(4,5) have "c = d" by simp
  with eq show ?thesis by simp
qed

lemma outside_table: "data_ok len fs \<Longrightarrow> unat (fs_database fs) \<le> n \<Longrightarrow> \<not> in_table fs n"
  by (simp add: data_ok_def in_table_def)

lemma file_index: "data_ok len fs \<Longrightarrow> k < length cs * csz fs \<Longrightarrow> k div csz fs < length cs \<and> k mod csz fs < csz fs"
  using csz_pos(1) [of len fs] by (simp add: less_mult_imp_div_less)

lemma file_sector_range:
  assumes "data_ok len fs" "clusters_ok fs cs" "k < length cs * csz fs"
  shows "file_sector fs cs k < len" "\<not> in_table fs (file_sector fs cs k)" "0 < file_sector fs cs k" "unat (fs_database fs) \<le> file_sector fs cs k"
proof -
  note ix = file_index [OF assms(1,3)]
  then have c: "2 \<le> cs ! (k div csz fs)" "cs ! (k div csz fs) < unat (n_fatent fs)" using assms(2) by (auto simp: clusters_ok_def)
  show "file_sector fs cs k < len" "unat (fs_database fs) \<le> file_sector fs cs k"
    using base_range [OF assms(1) c] ix by (auto simp: file_sector_def base_def)
  with outside_table [OF assms(1)] assms(1) show "\<not> in_table fs (file_sector fs cs k)" "0 < file_sector fs cs k"
    by (auto simp: data_ok_def)
qed

lemma file_sector_inj:
  assumes "data_ok len fs" "clusters_ok fs cs" "k < length cs * csz fs" "l < length cs * csz fs" "file_sector fs cs k = file_sector fs cs l"
  shows "k = l"
proof -
  note ik = file_index [OF assms(1,3)] and il = file_index [OF assms(1,4)]
  have "2 \<le> cs ! (k div csz fs)" "2 \<le> cs ! (l div csz fs)" using assms(2) ik il by (auto simp: clusters_ok_def)
  with base_inj [of fs "cs ! (k div csz fs)" "k mod csz fs" "cs ! (l div csz fs)" "l mod csz fs"] assms(5) ik il
  have "cs ! (k div csz fs) = cs ! (l div csz fs)" "k mod csz fs = l mod csz fs" by (auto simp: file_sector_def)
  with assms(2) ik il have "k div csz fs = l div csz fs" by (simp add: clusters_ok_def nth_eq_iff_index_eq)
  with \<open>k mod csz fs = l mod csz fs\<close> show ?thesis by (metis div_mult_mod_eq)
qed

lemma file_sector_append: "0 < csz fs \<Longrightarrow> k < length cs * csz fs \<Longrightarrow> file_sector fs (cs @ ds) k = file_sector fs cs k"
  by (simp add: file_sector_def nth_append less_mult_imp_div_less)

text \<open>Sectors of one cluster follow each other.\<close>

lemma file_sector_run:
  assumes "0 < csz fs" "k mod csz fs + i < csz fs"
  shows "file_sector fs cs (k + i) = file_sector fs cs k + i"
proof -
  have "(k + i) div csz fs = k div csz fs" "(k + i) mod csz fs = k mod csz fs + i"
    using assms by (metis div_mult_mod_eq add.assoc div_mult_self3 div_less add_0_right less_nat_zero_code, 
      metis mod_add_left_eq mod_less)
  then show ?thesis by (simp add: file_sector_def)
qed

lemma unat_csize: "unat (ucast (c :: u16) :: u32) = unat c"
  using unsigned_less [of c, where 'a = nat] by (simp add: unsigned_ucast_eq take_bit_nat_eq_self)

lemma clst2sect_base:
  assumes "data_ok len fs" "2 \<le> unat c" "unat c < unat (n_fatent fs)"
  shows "unat (clst2sect fs c) = base fs (unat c)" "clst2sect fs c \<noteq> 0"
proof -
  have u: "unat (c - 2) = unat c - 2" using assms(2) by (simp add: unat_sub word_le_nat_alt)
  have n: "unat (n_fatent fs - 2) = unat (n_fatent fs) - 2" using assms(2,3) by (simp add: unat_sub word_le_nat_alt)
  have lt: "\<not> n_fatent fs - 2 \<le> c - 2" using assms(2,3) by (simp add: word_le_nat_alt u n)
  have top: "base fs (unat c) < 2 ^ 32"
    using base_range(1) [OF assms, of 0] csz_pos(1) [OF assms(1)] assms(1) by (simp add: data_ok_def)
  then have m: "csz fs * (unat c - 2) < 2 ^ 32" by (simp add: base_def)
  have uc: "unat (ucast (csize fs) :: u32) = csz fs" by (rule unat_csize)
  have "unat (ucast (csize fs) * (c - 2)) = csz fs * (unat c - 2)" using m by (simp add: unat_word_ariths u uc)
  then show "unat (clst2sect fs c) = base fs (unat c)" using lt top by (simp add: clst2sect_def Let_def base_def unat_word_ariths)
  with base_range(2) [OF assms, of 0] csz_pos(1) [OF assms(1)] assms(1) show "clst2sect fs c \<noteq> 0"
    by (auto simp: data_ok_def)
qed

subsection \<open>The bytes of a file\<close>

abbreviation dirty :: "FIL \<Rightarrow> bool" where "dirty fp \<equiv> f_flag fp AND FA_DIRTY \<noteq> 0"
abbreviation fsz :: "FIL \<Rightarrow> nat" where "fsz fp \<equiv> unat (obj_objsize (f_obj fp))"
abbreviation fpos :: "FIL \<Rightarrow> nat" where "fpos fp \<equiv> unat (f_fptr fp)"

definition eff :: "('s \<Rightarrow> octets list) \<Rightarrow> 's FATFS \<Rightarrow> FIL \<Rightarrow> nat \<Rightarrow> octets" where
  "eff sectors fs fp n = (if dirty fp \<and> n = unat (f_sect fp) then f_buf fp else sectors (fs_dev fs) ! n)"

definition file_byte :: "('s \<Rightarrow> octets list) \<Rightarrow> 's FATFS \<Rightarrow> FIL \<Rightarrow> nat list \<Rightarrow> nat \<Rightarrow> u8" where
  "file_byte sectors fs fp cs i = eff sectors fs fp (file_sector fs cs (i div 512)) ! (i mod 512)"

definition file_bytes :: "('s \<Rightarrow> octets list) \<Rightarrow> 's FATFS \<Rightarrow> FIL \<Rightarrow> nat list \<Rightarrow> octets" where
  "file_bytes sectors fs fp cs = map (file_byte sectors fs fp cs) [0..<fsz fp]"

text \<open>A clean cache agrees with the device on the bytes of the file; a dirty one holds a sector of the file.\<close>

definition cache_ok :: "('s \<Rightarrow> octets list) \<Rightarrow> 's FATFS \<Rightarrow> FIL \<Rightarrow> nat list \<Rightarrow> bool" where
  "cache_ok sectors fs fp cs \<longleftrightarrow> length (f_buf fp) = 512 \<and>
     (dirty fp \<longrightarrow> (\<exists>k < length cs * csz fs. unat (f_sect fp) = file_sector fs cs k)) \<and>
     (\<forall>i < fsz fp. file_sector fs cs (i div 512) = unat (f_sect fp) \<longrightarrow> f_buf fp ! (i mod 512) = file_byte sectors fs fp cs i)"

definition pos_ok :: "'s FATFS \<Rightarrow> FIL \<Rightarrow> nat list \<Rightarrow> bool" where
  "pos_ok fs fp cs \<longleftrightarrow> fpos fp \<le> fsz fp \<and> fsz fp \<le> length cs * csz fs * 512 \<and>
     (0 < fpos fp \<longrightarrow> unat (f_clust fp) = cs ! ((fpos fp - 1) div (csz fs * 512))) \<and>
     (fpos fp mod 512 \<noteq> 0 \<longrightarrow> unat (f_sect fp) = file_sector fs cs (fpos fp div 512))"

text \<open>The chain of the file; an empty file may have none.\<close>

definition file_chain :: "(nat \<Rightarrow> u32) \<Rightarrow> nat \<Rightarrow> FIL \<Rightarrow> nat list \<Rightarrow> bool" where
  "file_chain E n fp cs \<longleftrightarrow>
     (if cs = [] then obj_sclust (f_obj fp) = 0 else fat_chain E n cs \<and> unat (obj_sclust (f_obj fp)) = hd cs)"

text \<open>The window holds no sector of these clusters.\<close>

definition off_window :: "'s FATFS \<Rightarrow> nat set \<Rightarrow> bool" where
  "off_window fs C \<longleftrightarrow> (\<forall>c \<in> C. \<forall>i < csz fs. base fs c + i \<noteq> unat (winsect fs))"

definition file_ok :: "('s \<Rightarrow> octets list) \<Rightarrow> 's FATFS \<Rightarrow> FIL \<Rightarrow> nat list \<Rightarrow> bool" where
  "file_ok sectors fs fp cs \<longleftrightarrow> file_chain (entry sectors fs) (unat (n_fatent fs)) fp cs \<and> pos_ok fs fp cs \<and>
     cache_ok sectors fs fp cs \<and> off_window fs (set cs)"

lemma file_ok_clusters: "file_ok sectors fs fp cs \<Longrightarrow> clusters_ok fs cs"
  by (auto simp: file_ok_def file_chain_def clusters_ok_def split: if_splits dest: fat_chain_clusters [unfolded clusters_ok_def])

text \<open>All of this depends on the volume through its shape, its table and the sectors of the file.\<close>

lemma shape_data:
  assumes "fs_shape fs' = fs_shape fs"
  shows "base fs' = base fs" "file_sector fs' = file_sector fs" "csize fs' = csize fs" "n_fatent fs' = n_fatent fs"
    "data_ok len fs' = data_ok len fs" "clusters_ok fs' = clusters_ok fs" "clst2sect fs' = clst2sect fs"
proof -
  note s = shape_simps [OF assms]
  show b: "base fs' = base fs" by (intro ext) (simp add: base_def s)
  show "file_sector fs' = file_sector fs" by (intro ext) (simp add: file_sector_def b s)
  show "clusters_ok fs' = clusters_ok fs" "clst2sect fs' = clst2sect fs" by (intro ext, simp add: clusters_ok_def clst2sect_def s Let_def)+
  show "data_ok len fs' = data_ok len fs" by (simp add: data_ok_def s table_place_shape [OF assms])
qed (simp_all add: shape_simps [OF assms])

lemma off_window_sector:
  assumes "data_ok len fs" "off_window fs (set cs)" "k < length cs * csz fs"
  shows "file_sector fs cs k \<noteq> unat (winsect fs)"
  using assms(2) file_index [OF assms(1,3)] by (simp add: off_window_def file_sector_def)

text \<open>What an operation on a file may change: the table, and the sectors of the file.\<close>

definition calm :: "('s \<Rightarrow> octets list) \<Rightarrow> 's FATFS \<Rightarrow> 's FATFS \<Rightarrow> nat set \<Rightarrow> bool" where
  "calm sectors fs fs' S \<longleftrightarrow> stays fs fs' \<and> length (sectors (fs_dev fs')) = length (sectors (fs_dev fs)) \<and>
     (\<forall>n < length (sectors (fs_dev fs)). \<not> in_table fs n \<longrightarrow> n \<notin> S \<longrightarrow> view sectors fs' n = view sectors fs n)"

text \<open>An open file, its position apart.\<close>

definition file_at :: "('s \<Rightarrow> octets list) \<Rightarrow> 's FATFS \<Rightarrow> FIL \<Rightarrow> nat list \<Rightarrow> bool" where
  "file_at sectors fs fp cs \<longleftrightarrow> file_chain (entry sectors fs) (unat (n_fatent fs)) fp cs \<and> cache_ok sectors fs fp cs \<and>
     off_window fs (set cs) \<and> fsz fp \<le> length cs * csz fs * 512"

context block_device
begin

lemma device_kept:
  assumes "stays fs fs'" "table_only sectors fs fs'" "n < length (sectors (fs_dev fs))" "\<not> in_table fs n"
    "n \<noteq> unat (winsect fs)" "n < 2 ^ 32 - 1"
  shows "sectors (fs_dev fs') ! n = sectors (fs_dev fs) ! n" "n \<noteq> unat (winsect fs')"
proof -
  show ne: "n \<noteq> unat (winsect fs')" using assms(1,4-6) by (auto simp: stays_def)
  have "view sectors fs' n = view sectors fs n" using assms(2-4) by (simp add: table_only_def)
  with ne assms(5) show "sectors (fs_dev fs') ! n = sectors (fs_dev fs) ! n" by (simp add: view_def)
qed

text \<open>A change of sectors that are neither of the table nor in the window.\<close>

lemma vol_data:
  assumes v: "vol fs" and d: "ready d" "length (sectors d) = length (sectors (fs_dev fs))"
    and same: "\<And>m. m < length (sectors d) \<Longrightarrow> in_table fs m \<or> m = unat (winsect fs) \<Longrightarrow> sectors d ! m = sectors (fs_dev fs) ! m"
  shows "vol (fs\<lparr>fs_dev := d\<rparr>)" "entry sectors (fs\<lparr>fs_dev := d\<rparr>) = entry sectors fs" "stays fs (fs\<lparr>fs_dev := d\<rparr>)"
    "count_ok sectors (fs\<lparr>fs_dev := d\<rparr>) = count_ok sectors fs"
proof -
  let ?fs = "fs\<lparr>fs_dev := d\<rparr>"
  have wf: "fs_table fs = t" "fs_pdrv fs = pdrv" "place_ok (length (sectors (fs_dev fs))) fs" "window_ok sectors fs" "copies_ok sectors fs"
    using v by (auto simp: vol_def fat_wf_def)
  have w: "window_ok sectors ?fs" using wf(4) same d(2) by (auto simp: window_ok_def in_mirror_def)
  have tab: "in_table fs (unat (fatbase fs) + i)" "in_table fs (unat (fatbase fs) + unat (fsize fs) + i)"
    if "n_fats fs = 2" "i < unat (fsize fs)" for i using that by (auto simp: in_table_def)
  have lt: "unat (fatbase fs) + unat (fsize fs) + i < length (sectors d)" if "n_fats fs = 2" "i < unat (fsize fs)" for i
    using that wf(3) d(2) by (simp add: place_ok_def)
  have "copies_ok sectors ?fs" unfolding copies_ok_def
  proof (intro impI allI)
    fix i assume a: "n_fats ?fs = 2" "i < unat (fsize ?fs)" "\<not> (wflag ?fs \<and> unat (winsect ?fs) = unat (fatbase ?fs) + i)"
    then have "sectors d ! (unat (fatbase fs) + unat (fsize fs) + i) = sectors (fs_dev fs) ! (unat (fatbase fs) + unat (fsize fs) + i)"
      "sectors d ! (unat (fatbase fs) + i) = sectors (fs_dev fs) ! (unat (fatbase fs) + i)"
      using tab [of i] lt [of i] same by simp_all
    with a wf(5) show "sectors (fs_dev ?fs) ! (unat (fatbase ?fs) + unat (fsize ?fs) + i) = sectors (fs_dev ?fs) ! (unat (fatbase ?fs) + i)"
      by (simp add: copies_ok_def)
  qed
  with w wf d show "vol ?fs" by (simp add: vol_def fat_wf_def place_ok_def)
  have "fat_byte sectors ?fs i = fat_byte sectors fs i" for i
  proof (cases "i < 512 * unat (fsize fs)")
    case True
    then have q: "i div 512 < unat (fsize fs)" by (simp add: less_mult_imp_div_less mult.commute)
    then have "in_table fs (unat (fatbase fs) + i div 512)" "unat (fatbase fs) + i div 512 < length (sectors d)"
      using wf(3) d(2) by (auto simp: in_table_def place_ok_def)
    with True same show ?thesis by (simp add: fat_byte_def view_def)
  qed (simp add: fat_byte_def)
  then have "fat_byte sectors ?fs = fat_byte sectors fs" by (rule ext)
  then show e: "entry sectors ?fs = entry sectors fs" by (intro ext) (simp add: entry_def)
  then show "count_ok sectors ?fs = count_ok sectors fs" by (simp add: count_ok_def)
qed (simp add: stays_def fs_shape_def)

lemma calm_refl [simp]: "calm sectors fs fs S" by (simp add: calm_def)

lemma calm_trans:
  assumes "calm sectors a b S" "calm sectors b c T" "S \<subseteq> U" "T \<subseteq> U"
  shows "calm sectors a c U"
proof -
  have "stays a b" using assms(1) by (simp add: calm_def)
  from shape_simps(9) [OF stays_shape [OF this]] have "in_table b = in_table a" .
  moreover have "stays a c" using assms(1,2) stays_trans by (auto simp: calm_def)
  moreover have "n \<notin> S \<and> n \<notin> T" if "n \<notin> U" for n using that assms(3,4) by auto
  ultimately show ?thesis using assms(1,2) by (simp add: calm_def)
qed

lemma calm_table: "stays fs fs' \<Longrightarrow> table_only sectors fs fs' \<Longrightarrow> calm sectors fs fs' S"
  by (simp add: calm_def table_only_def)

lemma calm_shape: "calm sectors fs fs' S \<Longrightarrow> fs_shape fs' = fs_shape fs" by (simp add: calm_def stays_def)

lemma calm_length: "calm sectors fs fs' S \<Longrightarrow> length (sectors (fs_dev fs')) = length (sectors (fs_dev fs))" by (simp add: calm_def)

lemma calm_off_window:
  assumes "calm sectors fs fs' S" "data_ok (length (sectors (fs_dev fs))) fs" "off_window fs C" "\<And>c. c \<in> C \<Longrightarrow> 2 \<le> c \<and> c < unat (n_fatent fs)"
  shows "off_window fs' C"
  unfolding off_window_def
proof (intro ballI allI impI)
  fix c i assume c: "c \<in> C" and i: "i < csz fs'"
  note sh = shape_data [OF calm_shape [OF assms(1)]]
  have r: "base fs c + i < length (sectors (fs_dev fs))" "\<not> in_table fs (base fs c + i)" "base fs c + i \<noteq> unat (winsect fs)"
    using base_range [OF assms(2), of c i] outside_table [OF assms(2)] assms(3) assms(4) [OF c] c i sh(3)
    by (auto simp: off_window_def)
  then have "base fs c + i < 2 ^ 32 - 1" using assms(2) by (simp add: data_ok_def)
  with r assms(1) show "base fs' c + i \<noteq> unat (winsect fs')" by (auto simp: sh calm_def stays_def)
qed

lemma file_ok_at: "file_ok sectors fs fp cs \<longleftrightarrow> file_at sectors fs fp cs \<and> pos_ok fs fp cs"
  by (auto simp: file_ok_def file_at_def pos_ok_def)

lemma file_at_clusters: "file_at sectors fs fp cs \<Longrightarrow> clusters_ok fs cs"
  by (auto simp: file_at_def file_chain_def clusters_ok_def split: if_splits dest: fat_chain_clusters [unfolded clusters_ok_def])

text \<open>The file stays what it was when its sectors do.\<close>

lemma file_bytes_kept:
  assumes "fs_shape fs' = fs_shape fs" "\<And>k. k < length cs * csz fs \<Longrightarrow> sectors (fs_dev fs') ! file_sector fs cs k = sectors (fs_dev fs) ! file_sector fs cs k"
    "i < length cs * csz fs * 512"
  shows "file_byte sectors fs' fp cs i = file_byte sectors fs fp cs i"
proof -
  have "i div 512 < length cs * csz fs" using assms(3) by (simp add: less_mult_imp_div_less)
  then show ?thesis using assms(2) by (simp add: file_byte_def eff_def shape_data [OF assms(1)])
qed

lemma file_kept:
  assumes "data_ok (length (sectors (fs_dev fs))) fs" "file_at sectors fs fp cs" "calm sectors fs fs' S" "entry sectors fs' = entry sectors fs"
    and same: "\<And>k. k < length cs * csz fs \<Longrightarrow> sectors (fs_dev fs') ! file_sector fs cs k = sectors (fs_dev fs) ! file_sector fs cs k"
  shows "file_at sectors fs' fp cs" "i < fsz fp \<Longrightarrow> file_byte sectors fs' fp cs i = file_byte sectors fs fp cs i"
    "pos_ok fs' fp cs = pos_ok fs fp cs"
proof -
  note sh = shape_data [OF calm_shape [OF assms(3)]]
  have size: "fsz fp \<le> length cs * csz fs * 512" using assms(2) by (simp add: file_at_def)
  show byte: "file_byte sectors fs' fp cs i = file_byte sectors fs fp cs i" if "i < fsz fp" for i
    using that size by (intro file_bytes_kept [OF calm_shape [OF assms(3)] same]) simp_all
  have "off_window fs' (set cs)"
    using calm_off_window [OF assms(3,1)] assms(2) file_at_clusters [OF assms(2)] by (auto simp: file_at_def clusters_ok_def)
  with assms(2,4) byte show "file_at sectors fs' fp cs" by (simp add: file_at_def cache_ok_def sh)
qed (simp add: pos_ok_def shape_data [OF calm_shape [OF assms(3)]])

lemma get_fat_file:
  assumes "vol fs" "data_ok (length (sectors (fs_dev fs))) fs" "file_at sectors fs fp cs" "2 \<le> unat c" "unat c < unat (n_fatent fs)"
  shows "\<exists>fs'. get_fat c fs = Some (entry sectors fs (unat c), fs') \<and> vol fs' \<and> calm sectors fs fs' {} \<and> table_only sectors fs fs' \<and>
    entry sectors fs' = entry sectors fs \<and>
    (\<forall>k < length cs * csz fs. sectors (fs_dev fs') ! file_sector fs cs k = sectors (fs_dev fs) ! file_sector fs cs k)"
proof -
  have tp: "table_place fs" "table_ok fs" using assms(2) by (auto simp: data_ok_def table_place_def)
  obtain fs' where g: "get_fat c fs = Some (entry sectors fs (unat c), fs')" "vol fs'" "same_view ready sectors fs fs'"
    using get_fat_entry [OF assms(1) tp(2) assms(4,5)] by blast
  have st: "stays fs fs'" by (rule get_fat_stays [OF tp(1) g(1)])
  have to: "table_only sectors fs fs'" by (rule same_view_table_only [OF g(3)])
  have "sectors (fs_dev fs') ! file_sector fs cs k = sectors (fs_dev fs) ! file_sector fs cs k" if k: "k < length cs * csz fs" for k
  proof -
    note r = file_sector_range [OF assms(2) file_at_clusters [OF assms(3)] k]
    have "file_sector fs cs k < 2 ^ 32 - 1" using r(1) assms(2) by (simp add: data_ok_def)
    with device_kept(1) [OF st to r(1,2)] off_window_sector [OF assms(2) _ k] assms(3) show ?thesis by (simp add: file_at_def)
  qed
  with g calm_table [OF st to] to same_view_entry [OF g(3)] assms(1) show ?thesis by (auto simp: vol_def)
qed

end

end
