(* ===== verification/Mipos_Fat_Read.thy ===== *)
theory Mipos_Fat_Read
  imports Mipos_Fat_Contents
begin

text \<open>
  Reading from a file of a FAT volume. Each turn of the loop of \<^verbatim>\<open>f_read\<close> delivers the next bytes of the file, from the
  cache of the file object or from a run of sectors of one cluster, and leaves the file consistent.
\<close>

unbundle bit_operations_syntax

subsection \<open>Copies\<close>

lemma u32_below: "unat (x :: u32) < 2 ^ 32" using unsigned_less [of x] by simp

lemma length_mem_cpy: "i + n \<le> length d \<Longrightarrow> n \<le> length s \<Longrightarrow> length (mem_cpy d i s n) = length d"
  by (simp add: mem_cpy_def)

lemma nth_mem_cpy:
  assumes "i + n \<le> length d" "n \<le> length s" "j < length d"
  shows "mem_cpy d i s n ! j = (if i \<le> j \<and> j < i + n then s ! (j - i) else d ! j)"
proof -
  consider "j < i" | "i \<le> j" "j < i + n" | "i + n \<le> j" by linarith
  then show ?thesis using assms by cases (auto simp: mem_cpy_def nth_append)
qed

lemma mem_cpy_take: "take n s = take n s' \<Longrightarrow> mem_cpy d i s n = mem_cpy d i s' n"
  by (simp add: mem_cpy_def)

lemma mem_cpy_inside:
  assumes "b + n \<le> length d" "length s = n" "i + m \<le> n" "m \<le> length x"
  shows "mem_cpy (mem_cpy d b s n) (b + i) x m = mem_cpy d b (mem_cpy s i x m) n"
proof (rule nth_equalityI)
  have l1: "length (mem_cpy d b s n) = length d" "length (mem_cpy s i x m) = n" using assms by (simp_all add: length_mem_cpy)
  then show len: "length (mem_cpy (mem_cpy d b s n) (b + i) x m) = length (mem_cpy d b (mem_cpy s i x m) n)"
    using assms by (simp add: length_mem_cpy)
  fix j assume "j < length (mem_cpy (mem_cpy d b s n) (b + i) x m)"
  then have j: "j < length d" using l1 assms by (simp add: length_mem_cpy)
  have a: "mem_cpy (mem_cpy d b s n) (b + i) x m ! j = (if b + i \<le> j \<and> j < b + i + m then x ! (j - (b + i)) else mem_cpy d b s n ! j)"
    by (rule nth_mem_cpy) (use l1 j assms in simp_all)
  have c: "mem_cpy d b s n ! j = (if b \<le> j \<and> j < b + n then s ! (j - b) else d ! j)"
    by (rule nth_mem_cpy) (use j assms in simp_all)
  have e: "mem_cpy d b (mem_cpy s i x m) n ! j = (if b \<le> j \<and> j < b + n then mem_cpy s i x m ! (j - b) else d ! j)"
    by (rule nth_mem_cpy) (use l1 j assms in simp_all)
  have f: "mem_cpy s i x m ! (j - b) = (if i \<le> j - b \<and> j - b < i + m then x ! (j - b - i) else s ! (j - b))" if "b \<le> j" "j < b + n"
    by (rule nth_mem_cpy) (use that assms in simp_all)
  show "mem_cpy (mem_cpy d b s n) (b + i) x m ! j = mem_cpy d b (mem_cpy s i x m) n ! j"
    unfolding a c e using f assms(3) by (auto simp: algebra_simps)
qed

text \<open>A copy continued behind another.\<close>

lemma mem_cpy_append:
  assumes "b + length x + length y \<le> length d"
  shows "mem_cpy (mem_cpy d b x (length x)) (b + length x) y (length y) = mem_cpy d b (x @ y) (length x + length y)"
  using assms by (simp add: mem_cpy_def ac_simps)

lemma concat_sectors_nth:
  assumes "\<And>b. b \<in> set ss \<Longrightarrow> length b = 512" "j < 512 * length ss"
  shows "concat ss ! j = ss ! (j div 512) ! (j mod 512)"
  using assms
proof (induction ss arbitrary: j)
  case (Cons b ss)
  show ?case
  proof (cases "j < 512")
    case True
    with Cons.prems show ?thesis by (simp add: nth_append)
  next
    case False
    then have "j div 512 = Suc ((j - 512) div 512)" "j mod 512 = (j - 512) mod 512" by (simp_all add: le_div_geq le_mod_geq)
    with False Cons.prems Cons.IH [of "j - 512"] show ?thesis by (simp add: nth_append)
  qed
qed simp

lemma length_concat_sectors: "(\<And>b. b \<in> set ss \<Longrightarrow> length b = 512) \<Longrightarrow> length (concat ss) = 512 * length ss"
  by (induction ss) simp_all

subsection \<open>Positions\<close>

lemma pred_div: "p mod b \<noteq> 0 \<Longrightarrow> (p - 1) div b = p div (b :: nat)"
proof -
  assume a: "p mod b \<noteq> 0"
  then have b: "0 < b \<or> b = 0" "0 < p" by (auto intro: Nat.gr0I)
  show ?thesis
  proof (cases "b = 0")
    case False
    have "p - 1 = b * (p div b) + (p mod b - 1)" using a by (metis Nat.add_diff_assoc One_nat_def Suc_leI mult_div_mod_eq neq0_conv)
    moreover have "p mod b - 1 < b" using False by (meson less_imp_diff_less mod_less_divisor neq0_conv)
    ultimately show ?thesis by simp
  qed simp
qed

lemma pred_div_mult: "p mod b = 0 \<Longrightarrow> 0 < p \<Longrightarrow> (p - 1) div b = p div b - (1 :: nat)"
proof -
  assume a: "p mod b = 0" "0 < p"
  then obtain q where q: "p = b * q" by auto
  with a(2) have pos: "0 < b" "0 < q" by auto
  have "b * (q - 1) + b = p" using pos q by (cases q) simp_all
  then have "(p - 1) div b = q - 1" using pos a(2) by (intro div_nat_eqI) (simp_all add: q)
  with pos show ?thesis by (simp add: q)
qed

lemma within_div: "p mod b + r < b \<Longrightarrow> (p + r) div b = p div (b :: nat)"
proof -
  assume a: "p mod b + r < b"
  have "p + r = b * (p div b) + (p mod b + r)" by simp
  with a show ?thesis by (metis div_mult_self4 add.commute div_less add_0 less_nat_zero_code)
qed

lemma within_mod: "p mod b + r < b \<Longrightarrow> (p + r) mod b = p mod b + (r :: nat)"
  by (metis mod_add_left_eq mod_less)

lemma unat_fptr_mod: "unat (f_fptr fp mod 512) = fpos fp mod 512" "f_fptr fp mod 512 = 0 \<longleftrightarrow> fpos fp mod 512 = 0"
proof -
  show u: "unat (f_fptr fp mod 512) = fpos fp mod 512" by (simp add: unat_mod)
  then show "f_fptr fp mod 512 = 0 \<longleftrightarrow> fpos fp mod 512 = 0" by (simp flip: u add: unsigned_eq_0_iff)
qed

lemma and_pow2: "unat (x AND (2 ^ k - 1)) = unat (x :: u32) mod 2 ^ k"
proof -
  have "x AND (2 ^ k - 1) = take_bit k x" by (simp add: take_bit_eq_mask mask_eq_exp_minus_1)
  then have "unat (x AND (2 ^ k - 1)) = take_bit k (unat x)" by (simp only: unsigned_take_bit_eq)
  then show ?thesis by (simp only: take_bit_eq_mod)
qed

lemma csect_unat:
  assumes "data_ok len fs"
  shows "unat (csect_of fp fs) = fpos fp div 512 mod csz fs"
proof -
  have "csize_ok (csize fs)" using assms by (simp add: data_ok_def)
  then show ?thesis
    using and_pow2 [of "f_fptr fp div 512" 0] and_pow2 [of "f_fptr fp div 512" 1] and_pow2 [of "f_fptr fp div 512" 2]
      and_pow2 [of "f_fptr fp div 512" 3] and_pow2 [of "f_fptr fp div 512" 4] and_pow2 [of "f_fptr fp div 512" 5]
      and_pow2 [of "f_fptr fp div 512" 6] and_pow2 [of "f_fptr fp div 512" 7]
    by (auto simp: csize_ok_def csect_of_def unat_div)
qed

lemma fptr_add: "fpos fp + unat r < 2 ^ 32 \<Longrightarrow> unat (f_fptr fp + r) = fpos fp + unat r"
  by (simp add: unat_word_ariths)

lemma sector_cluster: "p div 512 div csz fs = p div (csz fs * 512)"
  by (simp add: mult.commute flip: div_mult2_eq)

lemma file_sector_pos: "file_sector fs cs (p div 512) = base fs (cs ! (p div (csz fs * 512))) + p div 512 mod csz fs"
  by (simp add: file_sector_def sector_cluster)

lemma fat_chain_next: "fat_chain E n cs \<Longrightarrow> Suc i < length cs \<Longrightarrow> unat (E (cs ! i)) = cs ! Suc i"
proof (induction E n cs arbitrary: i rule: fat_chain.induct)
  case (3 E n x y ys)
  then show ?case by (cases i) simp_all
qed simp_all

definition file_area :: "'s FATFS \<Rightarrow> nat list \<Rightarrow> nat set" where
  "file_area fs cs = {file_sector fs cs k | k. k < length cs * csz fs}"

lemma in_area: "k < length cs * csz fs \<Longrightarrow> file_sector fs cs k \<in> file_area fs cs"
  by (auto simp: file_area_def)

lemma calm_data:
  assumes "length (sectors d) = length (sectors (fs_dev fs))"
    "\<And>m. m < length (sectors (fs_dev fs)) \<Longrightarrow> m \<notin> S \<Longrightarrow> sectors d ! m = sectors (fs_dev fs) ! m"
  shows "calm sectors fs (fs\<lparr>fs_dev := d\<rparr>) S"
  using assms by (simp add: calm_def stays_def fs_shape_def view_def)

text \<open>An open file whose volume is still the mounted one.\<close>

definition handle_ok :: "'s FATFS \<Rightarrow> FIL \<Rightarrow> bool" where
  "handle_ok fs fp \<longleftrightarrow> obj_fs (f_obj fp) \<and> fs_type fs \<noteq> 0 \<and> obj_id (f_obj fp) = fs_id fs \<and> f_err fp = FR_OK"

lemma handle_kept: "handle_ok fs fp \<Longrightarrow> fs_shape fs' = fs_shape fs \<Longrightarrow> f_obj fp' = f_obj fp \<Longrightarrow> f_err fp' = f_err fp \<Longrightarrow> handle_ok fs' fp'"
  by (simp add: handle_ok_def fs_shape_def)

text \<open>What the operations on the cache leave as it is.\<close>

definition keeps :: "FIL \<Rightarrow> FIL \<Rightarrow> bool" where
  "keeps fp fp' \<longleftrightarrow> f_obj fp' = f_obj fp \<and> f_err fp' = f_err fp \<and> f_fptr fp' = f_fptr fp \<and> f_dir_sect fp' = f_dir_sect fp \<and>
     f_dir_ptr fp' = f_dir_ptr fp \<and> f_flag fp' AND NOT FA_DIRTY = f_flag fp AND NOT FA_DIRTY"

lemma keeps_refl [simp]: "keeps fp fp" by (simp add: keeps_def)

lemma keeps_trans: "keeps a b \<Longrightarrow> keeps b c \<Longrightarrow> keeps a c" by (simp add: keeps_def)

lemma clean_flag:
  assumes "x AND d = 0"
  shows "x AND NOT d = (x :: u8)"
proof (rule bit_word_eqI)
  fix n assume n: "n < LENGTH(8)"
  have "\<not> bit (x AND d) n" using assms by simp
  with n show "bit (x AND NOT d) n = bit x n" by (auto simp: bit_and_iff bit_not_iff)
qed

lemma file_at_moved [simp]:
  "file_at sectors fs (fp\<lparr>f_clust := c\<rparr>) cs = file_at sectors fs fp cs"
  "file_at sectors fs (fp\<lparr>f_fptr := p\<rparr>) cs = file_at sectors fs fp cs"
  by (simp_all add: file_at_def file_chain_def cache_ok_def file_byte_def eff_def)

lemma file_byte_moved [simp]:
  "file_byte sectors fs (fp\<lparr>f_clust := c\<rparr>) cs = file_byte sectors fs fp cs"
  "file_byte sectors fs (fp\<lparr>f_fptr := p\<rparr>) cs = file_byte sectors fs fp cs"
  by (intro ext, simp add: file_byte_def eff_def)+

lemma part_in_cluster:
  assumes "0 < c" "p mod 512 + r \<le> 512"
  shows "p mod (c * 512) + r \<le> c * (512 :: nat)"
proof -
  have "p mod (c * 512) = 512 * (p div 512 mod c) + p mod 512" by (simp add: mult.commute [of c] mod_mult2_eq)
  moreover have "512 * (p div 512 mod c) + 512 \<le> c * 512" using mod_less_divisor [OF assms(1), of "p div 512"] by simp
  ultimately show ?thesis using assms(2) by linarith
qed

lemma run_in_cluster:
  assumes "p mod 512 = 0" "p div 512 mod c + r \<le> c"
  shows "p mod (c * 512) + 512 * r \<le> c * (512 :: nat)"
proof -
  have "p mod (c * 512) = 512 * (p div 512 mod c) + p mod 512" by (simp add: mult.commute [of c] mod_mult2_eq)
  with assms show ?thesis by simp
qed

lemma clip_count_unat:
  assumes "data_ok len fs" "unat csect < csz fs" "unat cc < 2 ^ 24"
  shows "unat (clip_count csect cc fs) = min (unat cc) (csz fs - unat csect)"
proof -
  have "csz fs \<le> 128" by (rule csz_pos(2) [OF assms(1)])
  then have s: "unat (csect + cc) = unat csect + unat cc" using assms(2,3) by (simp add: unat_word_ariths)
  have "csect \<le> ucast (csize fs)" using assms(2) by (simp add: word_le_nat_alt unat_csize)
  from unat_sub [OF this] have "unat (ucast (csize fs) - csect) = csz fs - unat csect" by (simp add: unat_csize)
  then show ?thesis using s by (auto simp: clip_count_def word_less_nat_alt unat_csize)
qed

text \<open>The position behind \<open>r\<close> bytes of one cluster.\<close>

lemma pos_advance:
  assumes "unat (f_clust fp) = cs ! (fpos fp div (csz fs * 512))" "0 < r" "fpos fp mod (csz fs * 512) + unat r \<le> csz fs * 512"
    and "fpos fp + unat r \<le> fsz fp" "fsz fp \<le> length cs * csz fs * 512"
    and "(fpos fp + unat r) mod 512 \<noteq> 0 \<Longrightarrow> unat (f_sect fp) = file_sector fs cs ((fpos fp + unat r) div 512)"
  shows "pos_ok fs (fp\<lparr>f_fptr := f_fptr fp + r\<rparr>) cs"
proof -
  have r: "0 < unat r" using assms(2) by (simp add: word_less_nat_alt)
  have "fpos fp + unat r < 2 ^ 32" using assms(4) unsigned_less [of "obj_objsize (f_obj fp)", where 'a = nat] by simp
  then have u: "unat (f_fptr fp + r) = fpos fp + unat r" by (rule fptr_add)
  have "(fpos fp + (unat r - 1)) div (csz fs * 512) = fpos fp div (csz fs * 512)" by (rule within_div) (use assms(3) r in simp)
  then have "(fpos fp + unat r - 1) div (csz fs * 512) = fpos fp div (csz fs * 512)" using r by simp
  with assms u r show ?thesis by (simp add: pos_ok_def)
qed

lemma locate_sector:
  assumes geo: "data_ok len fs" and cl: "clusters_ok fs cs" and c: "unat c = cs ! (fpos fp div (csz fs * 512))"
    and size: "fpos fp < length cs * csz fs * 512"
  shows "unat (clst2sect fs c + csect_of fp fs) = file_sector fs cs (fpos fp div 512)" "clst2sect fs c \<noteq> 0"
proof -
  have "fpos fp div (csz fs * 512) < length cs" using size by (simp add: less_mult_imp_div_less mult.assoc)
  then have "2 \<le> unat c" "unat c < unat (n_fatent fs)" using cl c by (auto simp: clusters_ok_def)
  note b = clst2sect_base [OF geo this]
  have eq: "unat (clst2sect fs c) + unat (csect_of fp fs) = file_sector fs cs (fpos fp div 512)"
    by (simp add: b(1) c file_sector_pos csect_unat [OF geo])
  have "fpos fp div 512 < length cs * csz fs" using size by (simp add: less_mult_imp_div_less)
  from file_sector_range(1) [OF geo cl this] geo have "file_sector fs cs (fpos fp div 512) < 2 ^ 32" by (simp add: data_ok_def)
  with eq show "unat (clst2sect fs c + csect_of fp fs) = file_sector fs cs (fpos fp div 512)" by (simp add: unat_word_ariths)
qed (rule clst2sect_base(2) [OF geo], use assms in \<open>auto simp: clusters_ok_def less_mult_imp_div_less mult.assoc\<close>)

lemma unat_mult_512: "unat x < 2 ^ 23 \<Longrightarrow> unat (x * 512) = 512 * unat (x :: u32)"
  by (simp add: unat_word_ariths)

lemma word_range:
  assumes "unat s + unat c \<le> 2 ^ 32"
  shows "f - s < c \<longleftrightarrow> unat s \<le> unat f \<and> unat f < unat s + unat (c :: u32)"
proof (cases "s \<le> f")
  case True
  then have "unat (f - s) = unat f - unat s" by (rule unat_sub)
  with True show ?thesis by (auto simp: word_less_nat_alt word_le_nat_alt)
next
  case False
  then have lt: "unat f < unat s" by (simp add: word_le_nat_alt)
  have "unat (f - s) = 2 ^ 32 + unat f - unat s" using False unat_sub_if' [of f s] by (simp add: word_le_nat_alt)
  with lt assms show ?thesis by (simp add: word_less_nat_alt)
qed

lemma f_read_overlay_ok:
  assumes le: "unat s + unat cc \<le> 2 ^ 32" and c128: "unat cc \<le> 128" and lbs: "length bs = 512 * unat cc"
    and fb: "length (f_buf fp) = 512" and buf: "unat br + 512 * unat cc \<le> length buff"
    and data: "length data = 512 * unat cc"
      "\<And>j. j < 512 * unat cc \<Longrightarrow> data ! j = (if dirty fp \<and> unat s + j div 512 = unat (f_sect fp) then f_buf fp ! (j mod 512) else bs ! j)"
  shows "f_read_overlay s cc br (mem_cpy buff (unat br) bs (length bs)) fp = mem_cpy buff (unat br) data (512 * unat cc)"
proof (cases "dirty fp \<and> f_sect fp - s < cc")
  case False
  have "bs = data"
  proof (rule nth_equalityI)
    fix j assume "j < length bs"
    then have j: "j < 512 * unat cc" using lbs by simp
    have "j div 512 < unat cc" using j by (simp add: less_mult_imp_div_less mult.commute)
    then have "\<not> (dirty fp \<and> unat s + j div 512 = unat (f_sect fp))" using False word_range [OF le, of "f_sect fp"] by auto
    with data(2) [OF j] show "bs ! j = data ! j" by simp
  qed (simp add: lbs data)
  with False lbs show ?thesis by (auto simp: f_read_overlay_def)
next
  case True
  let ?o = "unat (f_sect fp) - unat s"
  have rng: "unat s \<le> unat (f_sect fp)" "unat (f_sect fp) < unat s + unat cc" using True word_range [OF le, of "f_sect fp"] by auto
  then have "unat (f_sect fp - s) = ?o" by (simp add: unat_sub word_le_nat_alt)
  then have o: "unat ((f_sect fp - s) * 512) = 512 * ?o" using rng c128 unat_mult_512 [of "f_sect fp - s"] by simp
  have in_o: "512 * ?o + 512 \<le> 512 * unat cc" using rng by simp
  have "mem_cpy bs (512 * ?o) (f_buf fp) 512 = data"
  proof (rule nth_equalityI)
    show "length (mem_cpy bs (512 * ?o) (f_buf fp) 512) = length data" using in_o fb lbs data(1) by (simp add: length_mem_cpy)
    fix j assume "j < length (mem_cpy bs (512 * ?o) (f_buf fp) 512)"
    then have j: "j < 512 * unat cc" using in_o fb lbs by (simp add: length_mem_cpy)
    have iff: "512 * ?o \<le> j \<and> j < 512 * ?o + 512 \<longleftrightarrow> unat s + j div 512 = unat (f_sect fp)" using rng by auto
    have hit: "j - 512 * ?o = j mod 512" if "unat s + j div 512 = unat (f_sect fp)"
      using that by (metis add_diff_cancel_left' minus_mult_div_eq_mod)
    have "mem_cpy bs (512 * ?o) (f_buf fp) 512 ! j = (if 512 * ?o \<le> j \<and> j < 512 * ?o + 512 then f_buf fp ! (j - 512 * ?o) else bs ! j)"
      by (rule nth_mem_cpy) (use in_o fb lbs j in simp_all)
    with iff hit data(2) [OF j] True show "mem_cpy bs (512 * ?o) (f_buf fp) 512 ! j = data ! j" by auto
  qed
  with True o mem_cpy_inside [of "unat br" "512 * unat cc" buff bs "512 * ?o" 512 "f_buf fp"] buf lbs in_o fb
  show ?thesis by (simp add: f_read_overlay_def)
qed

context block_device
begin

subsection \<open>The cache\<close>

lemma fil_writeback_ok:
  assumes v: "vol fs" and geo: "data_ok (length (sectors (fs_dev fs))) fs" and fok: "file_at sectors fs fp cs"
  shows "\<exists>fs'. fil_writeback fp fs = Some ((FR_OK, fp\<lparr>f_flag := f_flag fp AND NOT FA_DIRTY\<rparr>), fs') \<and> vol fs' \<and>
    calm sectors fs fs' (file_area fs cs) \<and> entry sectors fs' = entry sectors fs \<and> (count_ok sectors fs' = count_ok sectors fs) \<and>
    file_at sectors fs' (fp\<lparr>f_flag := f_flag fp AND NOT FA_DIRTY\<rparr>) cs \<and>
    (\<forall>i < fsz fp. file_byte sectors fs' (fp\<lparr>f_flag := f_flag fp AND NOT FA_DIRTY\<rparr>) cs i = file_byte sectors fs fp cs i)"
proof (cases "dirty fp")
  case False
  with clean_flag [of "f_flag fp" FA_DIRTY] have "f_flag fp AND NOT FA_DIRTY = f_flag fp" by simp
  with False v fok show ?thesis by (simp add: fil_writeback_def)
next
  case True
  let ?fp = "fp\<lparr>f_flag := f_flag fp AND NOT FA_DIRTY\<rparr>" and ?n = "unat (f_sect fp)"
  have buf: "length (f_buf fp) = 512" and size: "fsz fp \<le> length cs * csz fs * 512" using fok by (auto simp: file_at_def cache_ok_def)
  obtain k where k: "k < length cs * csz fs" "?n = file_sector fs cs k" using fok True by (auto simp: file_at_def cache_ok_def)
  note r = file_sector_range [OF geo file_at_clusters [OF fok] k(1), folded k(2)]
  have off: "?n \<noteq> unat (winsect fs)" using off_window_sector [OF geo _ k(1)] fok k(2) by (simp add: file_at_def)
  obtain d where d: "fat_write (f_buf fp) (f_sect fp) fs = Some (MIPOS_DISK_RES_OK, fs\<lparr>fs_dev := d\<rparr>)" "ready d"
      "sectors d = (sectors (fs_dev fs))[?n := f_buf fp]"
    using write_at [of fs "f_sect fp" "f_buf fp"] v r(1) buf by (auto simp: vol_def fat_wf_def)
  let ?fs = "fs\<lparr>fs_dev := d\<rparr>"
  have len: "length (sectors d) = length (sectors (fs_dev fs))" using d(3) by simp
  have same: "sectors d ! m = sectors (fs_dev fs) ! m" if "in_table fs m \<or> m = unat (winsect fs)" for m
    using that r(2) off d(3) by (metis nth_list_update_neq)
  note vd = vol_data [OF v d(2) len same]
  have clean: "\<not> dirty ?fp" by (simp add: word_bw_assocs)
  have "calm sectors fs ?fs (file_area fs cs)"
    by (rule calm_data [OF len]) (use d(3) k in_area in \<open>metis nth_list_update_neq\<close>)
  moreover have byte: "file_byte sectors ?fs ?fp cs i = file_byte sectors fs fp cs i" if "i < fsz fp" for i
  proof -
    have "i div 512 < length cs * csz fs" using that size by (simp add: less_mult_imp_div_less)
    from file_sector_range(1) [OF geo file_at_clusters [OF fok] this] show ?thesis
      using clean True d(3) by (auto simp: file_byte_def eff_def nth_list_update file_sector_def base_def)
  qed
  moreover have "file_at sectors ?fs ?fp cs"
    using fok vd(2) clean byte
    by (simp add: file_at_def file_chain_def cache_ok_def off_window_def file_sector_def base_def)
  moreover have "fil_writeback fp fs = Some ((FR_OK, ?fp), ?fs)" using True d(1) by (simp add: fil_writeback_def)
  ultimately show ?thesis using vd by blast
qed

lemma fil_fill_ok:
  assumes v: "vol fs" and geo: "data_ok (length (sectors (fs_dev fs))) fs" and fok: "file_at sectors fs fp cs" and clean: "\<not> dirty fp"
    and k: "k < length cs * csz fs" "unat sect = file_sector fs cs k"
  shows "\<exists>b fs'. fil_fill sect fp fs = Some ((FR_OK, fp\<lparr>f_buf := b\<rparr>), fs') \<and> vol fs' \<and> calm sectors fs fs' {} \<and>
    entry sectors fs' = entry sectors fs \<and> (count_ok sectors fs' = count_ok sectors fs) \<and>
    file_at sectors fs' (fp\<lparr>f_buf := b, f_sect := sect\<rparr>) cs \<and>
    (\<forall>i < length cs * csz fs * 512. file_byte sectors fs' (fp\<lparr>f_buf := b, f_sect := sect\<rparr>) cs i = file_byte sectors fs fp cs i)"
proof -
  have buf: "length (f_buf fp) = 512" using fok by (simp add: file_at_def cache_ok_def)
  note r = file_sector_range [OF geo file_at_clusters [OF fok] k(1), folded k(2)]
  have rd: "ready (fs_dev fs)" using v by (simp add: vol_def fat_wf_def)
  let ?b = "sectors (fs_dev fs) ! unat sect"
  obtain d where d: "fat_read (f_buf fp) sect fs = Some ((MIPOS_DISK_RES_OK, ?b), fs\<lparr>fs_dev := d\<rparr>)" "ready d" "sectors d = sectors (fs_dev fs)"
    using read_at [of fs sect "f_buf fp"] v r(1) buf by (auto simp: vol_def fat_wf_def)
  let ?fs = "fs\<lparr>fs_dev := d\<rparr>" and ?fp = "fp\<lparr>f_buf := ?b, f_sect := sect\<rparr>"
  note vd = vol_data [OF v d(2), unfolded d(3), OF refl refl]
  have lb: "length ?b = 512" using sector_size [OF rd] r(1) nth_mem by blast
  have byte: "file_byte sectors ?fs ?fp cs i = file_byte sectors fs fp cs i" for i
    using clean d(3) by (simp add: file_byte_def eff_def file_sector_def base_def)
  have "file_at sectors ?fs ?fp cs"
    using fok vd(2) clean lb d(3)
    by (simp add: file_at_def file_chain_def cache_ok_def off_window_def file_byte_def eff_def file_sector_def base_def)
  moreover have "calm sectors fs ?fs {}" by (rule calm_data) (simp_all add: d(3))
  moreover have "fil_fill sect fp fs = Some ((FR_OK, fp\<lparr>f_buf := ?b\<rparr>), ?fs)" using d(1) by (simp add: fil_fill_def)
  ultimately show ?thesis using vd byte by blast
qed

lemma f_read_load_ok:
  assumes v: "vol fs" and geo: "data_ok (length (sectors (fs_dev fs))) fs" and fok: "file_at sectors fs fp cs"
    and k: "k < length cs * csz fs" "unat sect = file_sector fs cs k"
  shows "\<exists>fp' fs'. f_read_load sect fp fs = Some ((FR_OK, fp'), fs') \<and> vol fs' \<and> calm sectors fs fs' (file_area fs cs) \<and>
    entry sectors fs' = entry sectors fs \<and> file_at sectors fs' fp' cs \<and> keeps fp fp' \<and> f_sect fp' = sect \<and> f_clust fp' = f_clust fp \<and>
    (\<forall>i < fsz fp. file_byte sectors fs' fp' cs i = file_byte sectors fs fp cs i)"
proof (cases "f_sect fp = sect")
  case True
  with v fok show ?thesis by (simp add: f_read_load_def)
next
  case False
  let ?fp = "fp\<lparr>f_flag := f_flag fp AND NOT FA_DIRTY\<rparr>"
  obtain fs1 where w: "fil_writeback fp fs = Some ((FR_OK, ?fp), fs1)" "vol fs1" "calm sectors fs fs1 (file_area fs cs)"
      "entry sectors fs1 = entry sectors fs" "file_at sectors fs1 ?fp cs"
      "\<And>i. i < fsz fp \<Longrightarrow> file_byte sectors fs1 ?fp cs i = file_byte sectors fs fp cs i"
    using fil_writeback_ok [OF v geo fok] by blast
  note sh = shape_data [OF calm_shape [OF w(3)]]
  have geo1: "data_ok (length (sectors (fs_dev fs1))) fs1" using geo sh(5) calm_length [OF w(3)] by simp
  have "\<not> dirty ?fp" by (simp add: word_bw_assocs)
  from fil_fill_ok [OF w(2) geo1 w(5) this, of k sect] k sh obtain b fs2 where
      f: "fil_fill sect ?fp fs1 = Some ((FR_OK, ?fp\<lparr>f_buf := b\<rparr>), fs2)" "vol fs2" "calm sectors fs1 fs2 {}"
      "entry sectors fs2 = entry sectors fs1" "file_at sectors fs2 (?fp\<lparr>f_buf := b, f_sect := sect\<rparr>) cs"
      "\<And>i. i < length cs * csz fs * 512 \<Longrightarrow> file_byte sectors fs2 (?fp\<lparr>f_buf := b, f_sect := sect\<rparr>) cs i = file_byte sectors fs1 ?fp cs i"
    by auto
  have size: "fsz fp \<le> length cs * csz fs * 512" using fok by (simp add: file_at_def)
  have "f_read_load sect fp fs = Some ((FR_OK, ?fp\<lparr>f_buf := b, f_sect := sect\<rparr>), fs2)"
    using False w(1) f(1) by (simp add: f_read_load_def)
  moreover have "calm sectors fs fs2 (file_area fs cs)" by (rule calm_trans [OF w(3) f(3)]) simp_all
  ultimately show ?thesis using w f size by (simp add: keeps_def)
qed

lemma f_read_part_ok:
  assumes fok: "file_at sectors fs fp cs" and at: "unat (f_sect fp) = file_sector fs cs (fpos fp div 512)"
    and n: "0 < btr" "fpos fp + unat btr \<le> fsz fp"
  shows "\<exists>rcnt. f_read_part btr br buff fp =
      (rcnt, mem_cpy buff (unat br) (map (file_byte sectors fs fp cs) [fpos fp..<fpos fp + unat rcnt]) (unat rcnt)) \<and>
    0 < rcnt \<and> rcnt \<le> btr \<and> fpos fp mod 512 + unat rcnt \<le> 512"
proof -
  define left where "left = 512 - f_fptr fp mod 512"
  define rcnt where "rcnt = (if left > btr then btr else left)"
  have m: "fpos fp mod 512 < 512" by simp
  have "unat left = 512 - fpos fp mod 512"
    unfolding left_def using m by (subst unat_sub) (simp_all add: word_le_nat_alt unat_fptr_mod)
  then have r: "unat rcnt = min (unat btr) (512 - fpos fp mod 512)" by (simp add: rcnt_def word_less_nat_alt)
  have btr: "0 < unat btr" using n(1) by (simp add: word_less_nat_alt)
  have pos: "0 < unat rcnt" "unat rcnt \<le> unat btr" "fpos fp mod 512 + unat rcnt \<le> 512" using r m btr by linarith+
  have buf: "length (f_buf fp) = 512" using fok by (simp add: file_at_def cache_ok_def)
  have "take (unat rcnt) (drop (fpos fp mod 512) (f_buf fp)) = map (file_byte sectors fs fp cs) [fpos fp..<fpos fp + unat rcnt]"
  proof (rule nth_equalityI)
    fix j assume "j < length (take (unat rcnt) (drop (fpos fp mod 512) (f_buf fp)))"
    then have j: "j < unat rcnt" by simp
    have d: "(fpos fp + j) div 512 = fpos fp div 512" "(fpos fp + j) mod 512 = fpos fp mod 512 + j"
      using within_div [of "fpos fp" 512 j] within_mod [of "fpos fp" 512 j] j pos(3) by simp_all
    have "fpos fp + j < fsz fp" using j pos(2) n(2) by linarith
    then have "f_buf fp ! ((fpos fp + j) mod 512) = file_byte sectors fs fp cs (fpos fp + j)"
      using fok at d(1) by (simp add: file_at_def cache_ok_def)
    with j d buf pos(3) show "take (unat rcnt) (drop (fpos fp mod 512) (f_buf fp)) ! j =
        map (file_byte sectors fs fp cs) [fpos fp..<fpos fp + unat rcnt] ! j" by simp
  qed (use buf pos in simp)
  then have "f_read_part btr br buff fp =
      (rcnt, mem_cpy buff (unat br) (map (file_byte sectors fs fp cs) [fpos fp..<fpos fp + unat rcnt]) (unat rcnt))"
    unfolding f_read_part_def Let_def left_def [symmetric] rcnt_def [symmetric] unat_fptr_mod
    by (simp add: mem_cpy_def)
  with pos show ?thesis by (auto simp: word_less_nat_alt word_le_nat_alt)
qed

lemma f_read_sect_ok:
  assumes v: "vol fs" and geo: "data_ok (length (sectors (fs_dev fs))) fs" and fok: "file_ok sectors fs fp cs"
    and at: "fpos fp mod 512 = 0" "fpos fp < fsz fp"
  shows "\<exists>c s fs'. f_read_sect fp fs = Some ((Inr s, fp\<lparr>f_clust := c\<rparr>), fs') \<and> unat c = cs ! (fpos fp div (csz fs * 512)) \<and>
    unat s = file_sector fs cs (fpos fp div 512) \<and> vol fs' \<and> calm sectors fs fs' {} \<and> entry sectors fs' = entry sectors fs \<and>
    (\<forall>k < length cs * csz fs. sectors (fs_dev fs') ! file_sector fs cs k = sectors (fs_dev fs) ! file_sector fs cs k)"
proof -
  let ?q = "fpos fp div (csz fs * 512)" and ?cs = "csect_of fp fs"
  have fat: "file_at sectors fs fp cs" and pos: "pos_ok fs fp cs" using fok by (simp_all add: file_ok_at)
  have cl: "clusters_ok fs cs" by (rule file_at_clusters [OF fat])
  have size: "fpos fp < length cs * csz fs * 512" using fat at(2) by (simp add: file_at_def)
  then have q: "?q < length cs" by (simp add: less_mult_imp_div_less mult.assoc)
  have ch: "fat_chain (entry sectors fs) (unat (n_fatent fs)) cs" "unat (obj_sclust (f_obj fp)) = cs ! 0"
    using fat q by (auto simp: file_at_def file_chain_def hd_conv_nth split: if_splits)
  have csu: "unat ?cs = fpos fp div 512 mod csz fs" by (rule csect_unat [OF geo])
  have cq: "2 \<le> cs ! ?q" "cs ! ?q < unat (n_fatent fs)" using cl q by (auto simp: clusters_ok_def)
  have locate: "unat (clst2sect fs' c + ?cs) = file_sector fs cs (fpos fp div 512)" "clst2sect fs' c \<noteq> 0"
    if c: "unat c = cs ! ?q" and sh: "fs_shape fs' = fs_shape fs" for c :: u32 and fs' :: "'a FATFS"
    using locate_sector [OF geo cl c size] by (simp_all add: shape_data [OF sh])
  show ?thesis
  proof (cases "?cs = 0")
    case False
    then have nz: "fpos fp div 512 mod csz fs \<noteq> 0" using csu by (metis unsigned_eq_0_iff)
    then have "fpos fp mod (csz fs * 512) \<noteq> 0" by (simp add: mult.commute [of "csz fs"] mod_mult2_eq)
    from pred_div [OF this] have "(fpos fp - 1) div (csz fs * 512) = ?q" .
    moreover have "0 < fpos fp" using nz by (cases "fpos fp") simp_all
    ultimately have c: "unat (f_clust fp) = cs ! ?q" using pos by (simp add: pos_ok_def)
    from False locate [OF c refl] have "f_read_sect fp fs = Some ((Inr (clst2sect fs (f_clust fp) + ?cs), fp\<lparr>f_clust := f_clust fp\<rparr>), fs)"
      by (simp add: f_read_sect_def Let_def)
    with locate(1) [OF c refl] c v calm_refl show ?thesis by blast
  next
    case True
    then have z: "fpos fp div 512 mod csz fs = 0" using csu by simp
    show ?thesis
    proof (cases "f_fptr fp = 0")
      case top: True
      let ?c = "obj_sclust (f_obj fp)"
      have c: "unat ?c = cs ! ?q" using ch(2) top by simp
      have "\<not> ?c < 2" "?c \<noteq> 0xFFFFFFFF" using c cq geo by (auto simp: word_less_nat_alt data_ok_def table_place_def table_ok_def max_entries_def split: if_splits)
      with True top locate [OF c refl] have "f_read_sect fp fs = Some ((Inr (clst2sect fs ?c + ?cs), fp\<lparr>f_clust := ?c\<rparr>), fs)"
        by (simp add: f_read_sect_def Let_def)
      with locate(1) [OF c refl] c v calm_refl show ?thesis by blast
    next
      case top: False
      then have p: "0 < fpos fp" by (simp add: unat_gt_0)
      have m: "fpos fp mod (csz fs * 512) = 0" using z at(1) by (simp add: mult.commute [of "csz fs"] mod_mult2_eq)
      from pred_div_mult [OF this p] have "(fpos fp - 1) div (csz fs * 512) = ?q - 1" .
      then have prev: "unat (f_clust fp) = cs ! (?q - 1)" using pos p by (simp add: pos_ok_def)
      have q0: "0 < ?q" using m p by (metis div_mult_mod_eq add.right_neutral mult_0 neq0_conv)
      have "?q - 1 < length cs" using q by simp
      then have c1: "2 \<le> unat (f_clust fp)" "unat (f_clust fp) < unat (n_fatent fs)" using cl prev by (auto simp: clusters_ok_def)
      obtain fs' where g: "get_fat (f_clust fp) fs = Some (entry sectors fs (unat (f_clust fp)), fs')" "vol fs'" "calm sectors fs fs' {}"
          "entry sectors fs' = entry sectors fs"
          "\<forall>k < length cs * csz fs. sectors (fs_dev fs') ! file_sector fs cs k = sectors (fs_dev fs) ! file_sector fs cs k"
        using get_fat_file [OF v geo fat c1] by blast
      let ?c = "entry sectors fs (unat (f_clust fp))"
      have c: "unat ?c = cs ! ?q" using fat_chain_next [OF ch(1), of "?q - 1"] q q0 prev by simp
      have "\<not> ?c < 2" using c cq by (simp add: word_less_nat_alt)
      with True top g(1) entry_not_error [of sectors fs "unat (f_clust fp)"] locate [OF c calm_shape [OF g(3)]]
      have "f_read_sect fp fs = Some ((Inr (clst2sect fs' ?c + ?cs), fp\<lparr>f_clust := ?c\<rparr>), fs')" by (simp add: f_read_sect_def Let_def)
      with locate(1) [OF c calm_shape [OF g(3)]] c g show ?thesis by blast
    qed
  qed
qed

text \<open>A run of sectors of one cluster.\<close>

lemma run_bytes:
  assumes "data_ok len fs" "p mod 512 = 0" "p div 512 mod csz fs + c \<le> csz fs" "j < 512 * c"
  shows "file_byte sectors fs fp cs (p + j) = eff sectors fs fp (file_sector fs cs (p div 512) + j div 512) ! (j mod 512)"
proof -
  obtain k where p: "p = 512 * k" using assms(2) by auto
  have d: "(p + j) div 512 = k + j div 512" "(p + j) mod 512 = j mod 512" "p div 512 = k" unfolding p by simp_all
  have "j div 512 < c" using assms(4) by (simp add: less_mult_imp_div_less mult.commute)
  then have "k mod csz fs + j div 512 < csz fs" using assms(3) d(3) by simp
  from file_sector_run [OF csz_pos(1) [OF assms(1)] this] show ?thesis by (simp add: file_byte_def d)
qed

lemma run_inside:
  assumes "data_ok len fs" "clusters_ok fs cs" "p div 512 mod csz fs + c \<le> csz fs" "0 < c" "p < length cs * csz fs * 512"
  shows "file_sector fs cs (p div 512) + c \<le> len" "i < c \<Longrightarrow> file_sector fs cs (p div 512) + i \<in> file_area fs cs"
proof -
  let ?k = "p div 512"
  have q: "?k div csz fs < length cs" using assms(5) by (simp add: less_mult_imp_div_less flip: div_mult2_eq)
  have lt: "?k + i < length cs * csz fs" if "i < c" for i
  proof -
    have "?k + i < csz fs * (?k div csz fs) + csz fs" using that assms(3) mult_div_mod_eq [of "csz fs" ?k] by linarith
    also have "\<dots> = csz fs * Suc (?k div csz fs)" by simp
    also have "\<dots> \<le> csz fs * length cs" using q by (intro mult_le_mono2) simp
    finally show ?thesis by (simp add: mult.commute)
  qed
  have run: "file_sector fs cs (?k + i) = file_sector fs cs ?k + i" if "i < c" for i
    using file_sector_run [OF csz_pos(1) [OF assms(1)], of ?k i cs] that assms(3) by simp
  show "file_sector fs cs ?k + i \<in> file_area fs cs" if "i < c" for i using in_area [OF lt [OF that]] run [OF that] by simp
  have "c - 1 < c" using assms(4) by simp
  from file_sector_range(1) [OF assms(1,2) lt [OF this]] run [OF this] assms(4) show "file_sector fs cs ?k + c \<le> len" by simp
qed

lemma direct_read:
  assumes v: "vol fs" and geo: "data_ok (length (sectors (fs_dev fs))) fs" and fok: "file_at sectors fs fp cs"
    and at: "fpos fp mod 512 = 0" "unat s = file_sector fs cs (fpos fp div 512)"
    and cc: "0 < cc" "fpos fp div 512 mod csz fs + unat cc \<le> csz fs" "fpos fp + 512 * unat cc \<le> fsz fp"
    and buf: "unat br + 512 * unat cc \<le> length buff"
  shows "\<exists>bs d. fat_read_n s cc fs = Some ((MIPOS_DISK_RES_OK, bs), fs\<lparr>fs_dev := d\<rparr>) \<and> ready d \<and> sectors d = sectors (fs_dev fs) \<and>
    f_read_overlay s cc br (mem_cpy buff (unat br) bs (length bs)) fp =
      mem_cpy buff (unat br) (map (file_byte sectors fs fp cs) [fpos fp..<fpos fp + 512 * unat cc]) (512 * unat cc)"
proof -
  let ?ss = "sectors (fs_dev fs)" and ?c = "unat cc" and ?s = "unat s"
  have rd: "ready (fs_dev fs)" "fs_table fs = t" "fs_pdrv fs = pdrv" using v by (auto simp: vol_def fat_wf_def)
  have c0: "0 < ?c" using cc(1) by (simp add: word_less_nat_alt)
  have c128: "?c \<le> 128" using cc(2) csz_pos(2) [OF geo] by linarith
  have size: "fsz fp \<le> length cs * csz fs * 512" "length (f_buf fp) = 512" using fok by (auto simp: file_at_def cache_ok_def)
  then have p: "fpos fp < length cs * csz fs * 512" using cc(3) c0 by linarith
  have le: "?s + ?c \<le> length ?ss" using run_inside(1) [OF geo file_at_clusters [OF fok] cc(2) c0 p] at(2) by simp
  define bs where "bs = concat (take ?c (drop ?s ?ss))"
  obtain d where d: "fatfs_disk_read t pdrv s cc (fs_dev fs) = Some ((MIPOS_DISK_RES_OK, bs), d)" "ready d" "sectors d = ?ss"
    using reads_many [OF rd(1) cc(1) le] by (auto simp: bs_def)
  have all: "length b = 512" if "b \<in> set (take ?c (drop ?s ?ss))" for b
    using that sector_size [OF rd(1)] by (meson in_set_dropD in_set_takeD)
  have lbs: "length bs = 512 * ?c" using length_concat_sectors [of "take ?c (drop ?s ?ss)", OF all] le by (simp add: bs_def)
  have nbs: "bs ! j = ?ss ! (?s + j div 512) ! (j mod 512)" if "j < 512 * ?c" for j
  proof -
    have "j div 512 < ?c" using that by (simp add: less_mult_imp_div_less mult.commute)
    moreover have "bs ! j = take ?c (drop ?s ?ss) ! (j div 512) ! (j mod 512)"
      unfolding bs_def by (rule concat_sectors_nth [OF all]) (use that le in simp_all)
    ultimately show ?thesis using le by simp
  qed
  have fb: "file_byte sectors fs fp cs (fpos fp + j) = eff sectors fs fp (?s + j div 512) ! (j mod 512)" if "j < 512 * ?c" for j
    using run_bytes [OF geo at(1) cc(2) that] at(2) by simp
  have "f_read_overlay s cc br (mem_cpy buff (unat br) bs (length bs)) fp =
      mem_cpy buff (unat br) (map (file_byte sectors fs fp cs) [fpos fp..<fpos fp + 512 * ?c]) (512 * ?c)"
    by (rule f_read_overlay_ok [OF _ c128 lbs size(2) buf]) (use le geo nbs fb in \<open>auto simp: data_ok_def eff_def\<close>)
  with d rd show ?thesis by (intro exI [of _ bs] exI [of _ d]) (simp add: fat_read_n_def)
qed

subsection \<open>The loop\<close>

text \<open>The end of a turn that takes bytes from the cache.\<close>

lemma f_read_part_turn:
  assumes geo: "data_ok (length (sectors (fs_dev fs))) fs" and fok: "file_at sectors fs fp cs"
    and at: "unat (f_sect fp) = file_sector fs cs (fpos fp div 512)" "unat (f_clust fp) = cs ! (fpos fp div (csz fs * 512))"
    and n: "0 < btr" "fpos fp + unat btr \<le> fsz fp"
  shows "\<exists>rcnt. f_read_part btr br buff fp =
      (rcnt, mem_cpy buff (unat br) (map (file_byte sectors fs fp cs) [fpos fp..<fpos fp + unat rcnt]) (unat rcnt)) \<and>
    0 < rcnt \<and> rcnt \<le> btr \<and> file_ok sectors fs (fp\<lparr>f_fptr := f_fptr fp + rcnt\<rparr>) cs"
proof -
  obtain rcnt where r: "f_read_part btr br buff fp =
      (rcnt, mem_cpy buff (unat br) (map (file_byte sectors fs fp cs) [fpos fp..<fpos fp + unat rcnt]) (unat rcnt))"
      "0 < rcnt" "rcnt \<le> btr" "fpos fp mod 512 + unat rcnt \<le> 512"
    using f_read_part_ok [OF fok at(1) n] by blast
  have le: "unat rcnt \<le> unat btr" using r(3) by (simp add: word_le_nat_alt)
  have "unat (f_sect fp) = file_sector fs cs ((fpos fp + unat rcnt) div 512)" if "(fpos fp + unat rcnt) mod 512 \<noteq> 0"
  proof -
    have "fpos fp mod 512 + unat rcnt \<noteq> 512" using that by (metis mod_add_left_eq mod_self)
    then show ?thesis using within_div [of "fpos fp" 512 "unat rcnt"] r(4) at(1) by simp
  qed
  from pos_advance [OF at(2) r(2) part_in_cluster [OF csz_pos(1) [OF geo] r(4)] _ _ this] le n(2) fok
  have "pos_ok fs (fp\<lparr>f_fptr := f_fptr fp + rcnt\<rparr>) cs" by (simp add: file_at_def)
  with r fok show ?thesis by (auto simp: file_ok_at)
qed

text \<open>Whole sectors go to the caller directly.\<close>

lemma f_read_direct_turn:
  assumes v: "vol fs" and geo: "data_ok (length (sectors (fs_dev fs))) fs" and fok: "file_at sectors fs fp cs"
    and at: "fpos fp mod 512 = 0" "unat s = file_sector fs cs (fpos fp div 512)" "unat (f_clust fp) = cs ! (fpos fp div (csz fs * 512))"
    and n: "0 < btr div 512" "fpos fp + unat btr \<le> fsz fp" and buf: "unat br + unat btr \<le> length buff"
    and cc: "cc = clip_count csect (btr div 512) fs" "unat csect = fpos fp div 512 mod csz fs"
  shows "\<exists>bs d. fat_read_n s cc fs = Some ((MIPOS_DISK_RES_OK, bs), fs\<lparr>fs_dev := d\<rparr>) \<and> ready d \<and> sectors d = sectors (fs_dev fs) \<and>
    f_read_overlay s cc br (mem_cpy buff (unat br) bs (length bs)) fp =
      mem_cpy buff (unat br) (map (file_byte sectors fs fp cs) [fpos fp..<fpos fp + unat (512 * cc)]) (unat (512 * cc)) \<and>
    0 < 512 * cc \<and> 512 * cc \<le> btr \<and> file_ok sectors fs (fp\<lparr>f_fptr := f_fptr fp + 512 * cc\<rparr>) cs"
proof -
  have q: "unat (btr div 512) = unat btr div 512" by (simp add: unat_div)
  have b32: "unat btr < 2 ^ 32" using unsigned_less [of btr] by simp
  note csz = csz_pos(1) [OF geo]
  have "unat csect < csz fs" "unat (btr div 512) < 2 ^ 24" using b32 csz by (simp_all add: q cc(2))
  from clip_count_unat [OF geo this] have c: "unat cc = min (unat btr div 512) (csz fs - fpos fp div 512 mod csz fs)"
    by (simp add: cc q)
  have pos: "0 < unat cc" using n(1) csz by (simp add: c word_less_nat_alt q)
  have le: "512 * unat cc \<le> unat btr" unfolding c by simp
  have in_cl: "fpos fp div 512 mod csz fs + unat cc \<le> csz fs"
    using mod_less_divisor [OF csz, of "fpos fp div 512"] by (simp add: c)
  have rcnt: "unat (512 * cc) = 512 * unat cc" using le b32 unat_mult_512 [of cc] by (simp add: mult.commute)
  have "pos_ok fs (fp\<lparr>f_fptr := f_fptr fp + 512 * cc\<rparr>) cs"
    using pos_advance [OF at(3), of "512 * cc"] run_in_cluster [OF at(1) in_cl] at(1) rcnt pos le n(2) fok
    by (simp add: word_less_nat_alt file_at_def)
  moreover have "0 < 512 * cc" "512 * cc \<le> btr" using rcnt pos le by (simp_all add: word_less_nat_alt word_le_nat_alt)
  moreover have "0 < cc" "fpos fp + 512 * unat cc \<le> fsz fp" "unat br + 512 * unat cc \<le> length buff"
    using pos le n(2) buf by (simp_all add: word_less_nat_alt)
  note direct_read [OF v geo fok at(1,2) this(1) in_cl this(2,3)]
  ultimately show ?thesis using fok by (auto simp: rcnt file_ok_at)
qed

text \<open>A part of a sector goes through the cache.\<close>

lemma f_read_cached_turn:
  assumes v: "vol fs" and geo: "data_ok (length (sectors (fs_dev fs))) fs" and fok: "file_at sectors fs fp cs"
    and at: "unat s = file_sector fs cs (fpos fp div 512)" "unat (f_clust fp) = cs ! (fpos fp div (csz fs * 512))"
    and n: "0 < btr" "fpos fp + unat btr \<le> fsz fp"
  shows "\<exists>rcnt fp' fs'. f_read_load s fp fs = Some ((FR_OK, fp'), fs') \<and>
    f_read_part btr br buff fp' =
      (rcnt, mem_cpy buff (unat br) (map (file_byte sectors fs fp cs) [fpos fp..<fpos fp + unat rcnt]) (unat rcnt)) \<and>
    0 < rcnt \<and> rcnt \<le> btr \<and> vol fs' \<and> calm sectors fs fs' (file_area fs cs) \<and> entry sectors fs' = entry sectors fs \<and>
    file_ok sectors fs' (fp'\<lparr>f_fptr := f_fptr fp' + rcnt\<rparr>) cs \<and> keeps fp fp' \<and>
    (\<forall>i < fsz fp. file_byte sectors fs' fp' cs i = file_byte sectors fs fp cs i)"
proof -
  have "fpos fp < fsz fp" using n by (simp add: word_less_nat_alt)
  then have k: "fpos fp div 512 < length cs * csz fs" using fok by (simp add: file_at_def less_mult_imp_div_less)
  obtain fp2 fs2 where ld: "f_read_load s fp fs = Some ((FR_OK, fp2), fs2)" "vol fs2" "calm sectors fs fs2 (file_area fs cs)"
      "entry sectors fs2 = entry sectors fs" "file_at sectors fs2 fp2 cs" "keeps fp fp2" "f_sect fp2 = s" "f_clust fp2 = f_clust fp"
      "\<And>i. i < fsz fp \<Longrightarrow> file_byte sectors fs2 fp2 cs i = file_byte sectors fs fp cs i"
    using f_read_load_ok [OF v geo fok k at(1)] by blast
  note sh = shape_data [OF calm_shape [OF ld(3)]]
  have geo2: "data_ok (length (sectors (fs_dev fs2))) fs2" using geo sh(5) calm_length [OF ld(3)] by simp
  have kp: "f_fptr fp2 = f_fptr fp" "fsz fp2 = fsz fp" using ld(6) by (simp_all add: keeps_def)
  have "unat (f_sect fp2) = file_sector fs2 cs (fpos fp2 div 512)" "unat (f_clust fp2) = cs ! (fpos fp2 div (csz fs2 * 512))"
    "fpos fp2 + unat btr \<le> fsz fp2" using at n(2) ld(7,8) kp sh by simp_all
  from f_read_part_turn [OF geo2 ld(5) this(1,2) n(1) this(3)] obtain rcnt where r: "f_read_part btr br buff fp2 =
      (rcnt, mem_cpy buff (unat br) (map (file_byte sectors fs2 fp2 cs) [fpos fp2..<fpos fp2 + unat rcnt]) (unat rcnt))"
      "0 < rcnt" "rcnt \<le> btr" "file_ok sectors fs2 (fp2\<lparr>f_fptr := f_fptr fp2 + rcnt\<rparr>) cs" by blast
  have "unat rcnt \<le> unat btr" using r(3) by (simp add: word_le_nat_alt)
  then have "map (file_byte sectors fs2 fp2 cs) [fpos fp2..<fpos fp2 + unat rcnt] = map (file_byte sectors fs fp cs) [fpos fp..<fpos fp + unat rcnt]"
    using ld(9) n(2) kp(1) by auto
  with r ld show ?thesis by (metis (no_types, lifting))
qed

lemma file_same_sectors:
  assumes "data_ok (length (sectors (fs_dev fs))) fs" "file_ok sectors fs fp cs" "vol fs" "ready d" "sectors d = sectors (fs_dev fs)"
  shows "vol (fs\<lparr>fs_dev := d\<rparr>)" "entry sectors (fs\<lparr>fs_dev := d\<rparr>) = entry sectors fs" "calm sectors fs (fs\<lparr>fs_dev := d\<rparr>) S"
    "file_ok sectors (fs\<lparr>fs_dev := d\<rparr>) fp cs" "file_byte sectors (fs\<lparr>fs_dev := d\<rparr>) = file_byte sectors fs"
proof -
  show v: "vol (fs\<lparr>fs_dev := d\<rparr>)" and e: "entry sectors (fs\<lparr>fs_dev := d\<rparr>) = entry sectors fs" using vol_data [OF assms(3,4)] assms(5) by auto
  show c: "calm sectors fs (fs\<lparr>fs_dev := d\<rparr>) S" for S by (rule calm_data) (simp_all add: assms(5))
  show "file_ok sectors (fs\<lparr>fs_dev := d\<rparr>) fp cs" using file_kept [OF assms(1) _ c e] assms(2,5) by (auto simp: file_ok_at)
  show "file_byte sectors (fs\<lparr>fs_dev := d\<rparr>) = file_byte sectors fs"
    by (intro ext) (simp add: file_byte_def eff_def assms(5) file_sector_def base_def)
qed

lemma f_read_step_ok:
  assumes v: "vol fs" and geo: "data_ok (length (sectors (fs_dev fs))) fs" and fok: "file_ok sectors fs fp cs"
    and n: "0 < btr" "fpos fp + unat btr \<le> fsz fp" and buf: "unat br + unat btr \<le> length buff"
  shows "\<exists>rcnt fp' fs'. f_read_step btr br buff fp fs =
      Some ((FR_OK, (rcnt, mem_cpy buff (unat br) (map (file_byte sectors fs fp cs) [fpos fp..<fpos fp + unat rcnt]) (unat rcnt)), fp'), fs') \<and>
    0 < rcnt \<and> rcnt \<le> btr \<and> vol fs' \<and> calm sectors fs fs' (file_area fs cs) \<and> entry sectors fs' = entry sectors fs \<and>
    file_ok sectors fs' (fp'\<lparr>f_fptr := f_fptr fp' + rcnt\<rparr>) cs \<and> keeps fp fp' \<and>
    (\<forall>i < fsz fp. file_byte sectors fs' fp' cs i = file_byte sectors fs fp cs i)"
proof (cases "fpos fp mod 512 = 0")
  case False
  have fat: "file_at sectors fs fp cs" and pos: "pos_ok fs fp cs" using fok by (simp_all add: file_ok_at)
  have "fpos fp mod (csz fs * 512) \<noteq> 0" using False by (metis mod_mult_self3 mod_mod_cancel dvd_triv_right mod_0)
  from pred_div [OF this] False have "unat (f_clust fp) = cs ! (fpos fp div (csz fs * 512))"
    using pos by (cases "fpos fp") (simp_all add: pos_ok_def)
  moreover have "unat (f_sect fp) = file_sector fs cs (fpos fp div 512)" using pos False by (simp add: pos_ok_def)
  ultimately show ?thesis using f_read_part_turn [OF geo fat _ _ n, of br buff] False v
    by (auto simp: f_read_step_def unat_fptr_mod)
next
  case True
  have fat: "file_at sectors fs fp cs" using fok by (simp add: file_ok_at)
  have btr: "0 < unat btr" using n(1) by (simp add: word_less_nat_alt)
  then have lt: "fpos fp < fsz fp" using n(2) by linarith
  obtain c s fs1 where l: "f_read_sect fp fs = Some ((Inr s, fp\<lparr>f_clust := c\<rparr>), fs1)" "unat c = cs ! (fpos fp div (csz fs * 512))"
      "unat s = file_sector fs cs (fpos fp div 512)" "vol fs1" "calm sectors fs fs1 {}" "entry sectors fs1 = entry sectors fs"
      "\<And>k. k < length cs * csz fs \<Longrightarrow> sectors (fs_dev fs1) ! file_sector fs cs k = sectors (fs_dev fs) ! file_sector fs cs k"
    using f_read_sect_ok [OF v geo fok True lt] by blast
  let ?fp = "fp\<lparr>f_clust := c\<rparr>"
  note sh = shape_data [OF calm_shape [OF l(5)]]
  note kept = file_kept [OF geo fat l(5,6) l(7)]
  have geo1: "data_ok (length (sectors (fs_dev fs1))) fs1" using geo sh(5) calm_length [OF l(5)] by simp
  have fat1: "file_at sectors fs1 ?fp cs" using kept(1) by simp
  have size: "fsz fp \<le> length cs * csz fs * 512" using fat by (simp add: file_at_def)
  have step: "f_read_step btr br buff fp fs = (if btr div 512 > 0 then do {
               let cc = clip_count (csect_of fp fs) (btr div 512) fs1;
               ((r, bs), fs2) \<leftarrow> fat_read_n s cc fs1;
               let buff1 = mem_cpy buff (unat br) bs (length bs);
               Some (if r \<noteq> MIPOS_DISK_RES_OK then (FR_DISK_ERR, (0, buff1), ?fp)
                     else (FR_OK, (512 * cc, f_read_overlay s cc br buff1 ?fp), ?fp), fs2)
             }
             else do {
               ((res, fp2), fs2) \<leftarrow> f_read_load s ?fp fs1;
               Some (if res \<noteq> FR_OK then (res, (0, buff), fp2) else (FR_OK, f_read_part btr br buff fp2, fp2), fs2)
             })"
    using True l(1) by (simp add: f_read_step_def unat_fptr_mod)
  show ?thesis
  proof (cases "btr div 512 > 0")
    case big: True
    define cc where "cc = clip_count (csect_of fp fs) (btr div 512) fs1"
    have "unat (csect_of fp fs) = fpos fp div 512 mod csz fs1" using csect_unat [OF geo] sh(3) by simp
    with f_read_direct_turn [OF l(4) geo1 fat1 _ _ _ big _ buf cc_def, of s] True l(2,3) sh n(2)
    obtain bs d where rd: "fat_read_n s cc fs1 = Some ((MIPOS_DISK_RES_OK, bs), fs1\<lparr>fs_dev := d\<rparr>)" "ready d" "sectors d = sectors (fs_dev fs1)"
        "f_read_overlay s cc br (mem_cpy buff (unat br) bs (length bs)) ?fp =
           mem_cpy buff (unat br) (map (file_byte sectors fs1 ?fp cs) [fpos fp..<fpos fp + unat (512 * cc)]) (unat (512 * cc))"
        "0 < 512 * cc" "512 * cc \<le> btr" "file_ok sectors fs1 (?fp\<lparr>f_fptr := f_fptr ?fp + 512 * cc\<rparr>) cs"
      by auto
    note d = file_same_sectors [OF geo1 rd(7) l(4) rd(2,3)]
    have "unat (512 * cc) \<le> unat btr" using rd(6) by (simp add: word_le_nat_alt)
    then have "map (file_byte sectors fs1 ?fp cs) [fpos fp..<fpos fp + unat (512 * cc)] = map (file_byte sectors fs fp cs) [fpos fp..<fpos fp + unat (512 * cc)]"
      using kept(2) n(2) by simp
    note arg_cong [OF this, of "\<lambda>bs. mem_cpy buff (unat br) bs (unat (512 * cc))"]
    moreover have "calm sectors fs (fs1\<lparr>fs_dev := d\<rparr>) (file_area fs cs)" by (rule calm_trans [OF l(5) d(3) [of "{}"]]) simp_all
    moreover have "keeps fp ?fp" by (simp add: keeps_def)
    ultimately show ?thesis using step big rd d(1,2,4,5) l(6) kept(2) by (simp flip: cc_def)
  next
    case small: False
    have "unat s = file_sector fs1 cs (fpos ?fp div 512)" "unat (f_clust ?fp) = cs ! (fpos ?fp div (csz fs1 * 512))"
      using l(2,3) sh by simp_all
    from f_read_cached_turn [OF l(4) geo1 fat1 this n(1), of br buff] n(2) obtain rcnt fp2 fs2 where
        c: "f_read_load s ?fp fs1 = Some ((FR_OK, fp2), fs2)"
        "f_read_part btr br buff fp2 = (rcnt, mem_cpy buff (unat br) (map (file_byte sectors fs1 ?fp cs) [fpos fp..<fpos fp + unat rcnt]) (unat rcnt))"
        "0 < rcnt" "rcnt \<le> btr" "vol fs2" "calm sectors fs1 fs2 (file_area fs1 cs)" "entry sectors fs2 = entry sectors fs1"
        "file_ok sectors fs2 (fp2\<lparr>f_fptr := f_fptr fp2 + rcnt\<rparr>) cs" "keeps ?fp fp2"
        "\<forall>i < fsz fp. file_byte sectors fs2 fp2 cs i = file_byte sectors fs1 ?fp cs i" by auto
    have "unat rcnt \<le> unat btr" using c(4) by (simp add: word_le_nat_alt)
    then have "map (file_byte sectors fs1 ?fp cs) [fpos fp..<fpos fp + unat rcnt] = map (file_byte sectors fs fp cs) [fpos fp..<fpos fp + unat rcnt]"
      using kept(2) n(2) by simp
    note arg_cong [OF this, of "\<lambda>bs. mem_cpy buff (unat br) bs (unat rcnt)"]
    moreover have "calm sectors fs fs2 (file_area fs cs)" using calm_trans [OF l(5) c(6)] sh by (simp add: file_area_def)
    moreover have "keeps fp fp2" using c(9) by (simp add: keeps_def)
    ultimately show ?thesis using step small c l(6) kept(2) by simp
  qed
qed

text \<open>The whole loop: the bytes from the position on land in the buffer one after the other.\<close>

lemma f_read_loop_ok:
  assumes "vol fs" "data_ok (length (sectors (fs_dev fs))) fs" "file_ok sectors fs fp cs"
    and "fpos fp + unat btr \<le> fsz fp" "unat br + unat btr \<le> length buff" "unat br + unat btr < 2 ^ 32"
  shows "\<exists>fp' fs'. f_read_loop btr br buff fp fs =
      Some ((FR_OK, br + btr, mem_cpy buff (unat br) (map (file_byte sectors fs fp cs) [fpos fp..<fpos fp + unat btr]) (unat btr), fp'), fs') \<and>
    vol fs' \<and> calm sectors fs fs' (file_area fs cs) \<and> entry sectors fs' = entry sectors fs \<and>
    file_ok sectors fs' fp' cs \<and> keeps (fp\<lparr>f_fptr := f_fptr fp + btr\<rparr>) fp' \<and>
    (\<forall>i < fsz fp. file_byte sectors fs' fp' cs i = file_byte sectors fs fp cs i)"
  using assms
proof (induction btr arbitrary: br buff fp fs rule: measure_induct_rule [of unat])
  case (less btr)
  note v = less.prems(1) and geo = less.prems(2)
  show ?case
  proof (cases "btr = 0")
    case True
    with less.prems(1,3) show ?thesis by (subst f_read_loop.simps) (simp add: mem_cpy_def)
  next
    case False
    then have pos: "0 < btr" by (simp add: word_neq_0_conv)
    let ?b = "map (file_byte sectors fs fp cs)"
    obtain rcnt fp1 fs1 where st: "f_read_step btr br buff fp fs =
        Some ((FR_OK, (rcnt, mem_cpy buff (unat br) (?b [fpos fp..<fpos fp + unat rcnt]) (unat rcnt)), fp1), fs1)"
      "0 < rcnt" "rcnt \<le> btr" "vol fs1" "calm sectors fs fs1 (file_area fs cs)" "entry sectors fs1 = entry sectors fs"
      "file_ok sectors fs1 (fp1\<lparr>f_fptr := f_fptr fp1 + rcnt\<rparr>) cs" "keeps fp fp1"
      "\<And>i. i < fsz fp \<Longrightarrow> file_byte sectors fs1 fp1 cs i = file_byte sectors fs fp cs i"
      using f_read_step_ok [OF v geo less.prems(3) pos less.prems(4,5)] by blast
    let ?fp = "fp1\<lparr>f_fptr := f_fptr fp1 + rcnt\<rparr>" and ?d = "mem_cpy buff (unat br) (?b [fpos fp..<fpos fp + unat rcnt]) (unat rcnt)"
    note sh = shape_data [OF calm_shape [OF st(5)]]
    have geo1: "data_ok (length (sectors (fs_dev fs1))) fs1" using geo sh(5) calm_length [OF st(5)] by simp
    have r: "unat rcnt \<le> unat btr" "0 < unat rcnt" "unat (btr - rcnt) = unat btr - unat rcnt" "unat (br + rcnt) = unat br + unat rcnt"
      using st(2,3) less.prems(6) by (simp_all add: word_le_nat_alt word_less_nat_alt unat_sub unat_word_ariths)
    have kp: "f_fptr fp1 = f_fptr fp" "f_obj fp1 = f_obj fp" using st(8) by (simp_all add: keeps_def)
    have "unat (f_fptr fp + rcnt) = fpos fp + unat rcnt"
      using fptr_add [of fp rcnt] less.prems(4) r(1) u32_below [of "obj_objsize (f_obj fp)"] by simp
    then have at: "fpos ?fp = fpos fp + unat rcnt" using kp by simp
    have ld: "length ?d = length buff" using r(1) less.prems(5) by (simp add: length_mem_cpy)
    from less.IH [OF _ st(4) geo1 st(7), of "btr - rcnt" "br + rcnt" ?d] r less.prems(4-6) kp ld at
    obtain fp2 fs2 where ih: "f_read_loop (btr - rcnt) (br + rcnt) ?d ?fp fs1 =
        Some ((FR_OK, br + rcnt + (btr - rcnt), mem_cpy ?d (unat br + unat rcnt)
          (map (file_byte sectors fs1 ?fp cs) [fpos fp + unat rcnt..<fpos fp + unat btr]) (unat btr - unat rcnt), fp2), fs2)"
      "vol fs2" "calm sectors fs1 fs2 (file_area fs1 cs)" "entry sectors fs2 = entry sectors fs1" "file_ok sectors fs2 fp2 cs"
      "keeps (?fp\<lparr>f_fptr := f_fptr ?fp + (btr - rcnt)\<rparr>) fp2"
      "\<And>i. i < fsz fp \<Longrightarrow> file_byte sectors fs2 fp2 cs i = file_byte sectors fs1 ?fp cs i" by auto
    have "map (file_byte sectors fs1 ?fp cs) [fpos fp + unat rcnt..<fpos fp + unat btr] = ?b [fpos fp + unat rcnt..<fpos fp + unat btr]"
      using st(9) less.prems(4) by simp
    note tail = arg_cong [OF this, of "\<lambda>bs. mem_cpy ?d (unat br + unat rcnt) bs (unat btr - unat rcnt)"]
    have "mem_cpy ?d (unat br + unat rcnt) (?b [fpos fp + unat rcnt..<fpos fp + unat btr]) (unat btr - unat rcnt) =
        mem_cpy buff (unat br) (?b [fpos fp..<fpos fp + unat rcnt] @ ?b [fpos fp + unat rcnt..<fpos fp + unat btr]) (unat btr)"
      using mem_cpy_append [of "unat br" "?b [fpos fp..<fpos fp + unat rcnt]" "?b [fpos fp + unat rcnt..<fpos fp + unat btr]" buff] r(1) less.prems(5)
      by simp
    also have "?b [fpos fp..<fpos fp + unat rcnt] @ ?b [fpos fp + unat rcnt..<fpos fp + unat btr] = ?b [fpos fp..<fpos fp + unat btr]"
      using r(1) upt_add_eq_append [of "fpos fp" "fpos fp + unat rcnt" "unat btr - unat rcnt"] by (simp flip: map_append)
    finally have "f_read_loop btr br buff fp fs = Some ((FR_OK, br + btr, mem_cpy buff (unat br) (?b [fpos fp..<fpos fp + unat btr]) (unat btr), fp2), fs2)"
      using False st(1) ih(1) tail by (subst f_read_loop.simps) simp
    moreover have "calm sectors fs fs2 (file_area fs cs)" using calm_trans [OF st(5) ih(3)] sh by (simp add: file_area_def)
    moreover have "keeps (fp\<lparr>f_fptr := f_fptr fp + btr\<rparr>) fp2" using ih(6) st(8) by (simp add: keeps_def)
    ultimately show ?thesis using ih(2,4,5,7) st(6,9) by simp
  qed
qed

subsection \<open>The call\<close>

lemma fil_valid_ok:
  assumes "vol fs" "handle_ok fs fp"
  shows "\<exists>d. fil_valid fp fs = Some (FR_OK, fs\<lparr>fs_dev := d\<rparr>) \<and> ready d \<and> sectors d = sectors (fs_dev fs)"
proof -
  have "fs_table fs = t" "fs_pdrv fs = pdrv" "ready (fs_dev fs)" using assms(1) by (auto simp: vol_def fat_wf_def)
  with status_ok [OF this(3)] assms(2) show ?thesis
    by (auto simp: fil_valid_def validate_def fat_status_def handle_ok_def)
qed

lemma file_bytes_part:
  assumes "p + n \<le> fsz fp"
  shows "map (file_byte sectors fs fp cs) [p..<p + n] = take n (drop p (file_bytes sectors fs fp cs))"
  using assms by (simp add: file_bytes_def drop_map take_map)

lemma f_read_ok:
  assumes v: "vol fs" and geo: "data_ok (length (sectors (fs_dev fs))) fs" and h: "handle_ok fs fp" "f_flag fp AND FA_READ \<noteq> 0"
    and fok: "file_ok sectors fs fp cs" and n: "n = min (unat btr) (fsz fp - fpos fp)" "n \<le> length buff"
  shows "\<exists>fp' fs'. f_read buff btr fp fs =
      Some ((FR_OK, of_nat n, take n (drop (fpos fp) (file_bytes sectors fs fp cs)) @ drop n buff, fp'), fs') \<and>
    vol fs' \<and> calm sectors fs fs' (file_area fs cs) \<and> entry sectors fs' = entry sectors fs \<and> handle_ok fs' fp' \<and>
    file_ok sectors fs' fp' cs \<and> keeps (fp\<lparr>f_fptr := f_fptr fp + of_nat n\<rparr>) fp' \<and> fpos fp' = fpos fp + n \<and>
    file_bytes sectors fs' fp' cs = file_bytes sectors fs fp cs"
proof -
  obtain d where d: "fil_valid fp fs = Some (FR_OK, fs\<lparr>fs_dev := d\<rparr>)" "ready d" "sectors d = sectors (fs_dev fs)"
    using fil_valid_ok [OF v h(1)] by blast
  let ?fs = "fs\<lparr>fs_dev := d\<rparr>"
  note k = file_same_sectors [OF geo fok v d(2,3)]
  have pos: "fpos fp \<le> fsz fp" using fok by (simp add: file_ok_def pos_ok_def)
  define m where "m = (if btr > obj_objsize (f_obj fp) - f_fptr fp then obj_objsize (f_obj fp) - f_fptr fp else btr)"
  have "unat (obj_objsize (f_obj fp) - f_fptr fp) = fsz fp - fpos fp" using pos by (simp add: unat_sub word_le_nat_alt)
  then have m: "unat m = n" by (auto simp: m_def n(1) word_less_nat_alt)
  have mw: "m = of_nat n" by (simp flip: m)
  have lim: "fpos fp + n \<le> fsz fp" using n(1) pos by simp
  have b32: "n < 2 ^ 32" using lim u32_below [of "obj_objsize (f_obj fp)"] by linarith
  have geo1: "data_ok (length (sectors (fs_dev ?fs))) ?fs" using geo shape_data(5) [of ?fs fs] d(3) by (simp add: fs_shape_def)
  from f_read_loop_ok [OF k(1) geo1 k(4), of m 0 buff] m lim n(2) b32 k(5) obtain fp' fs' where
      l: "f_read_loop m 0 buff fp ?fs = Some ((FR_OK, m, mem_cpy buff 0 (map (file_byte sectors fs fp cs) [fpos fp..<fpos fp + n]) n, fp'), fs')"
      "vol fs'" "calm sectors ?fs fs' (file_area ?fs cs)" "entry sectors fs' = entry sectors ?fs" "file_ok sectors fs' fp' cs"
      "keeps (fp\<lparr>f_fptr := f_fptr fp + m\<rparr>) fp'" "\<And>i. i < fsz fp \<Longrightarrow> file_byte sectors fs' fp' cs i = file_byte sectors fs fp cs i"
    by auto
  have c: "calm sectors fs fs' (file_area fs cs)"
    using calm_trans [OF k(3) [of "{}"] l(3)] shape_data(2) [of ?fs fs] by (simp add: fs_shape_def file_area_def)
  have kp: "f_obj fp' = f_obj fp" "f_err fp' = f_err fp" "f_fptr fp' = f_fptr fp + m" using l(6) by (simp_all add: keeps_def)
  have "f_read buff btr fp fs = f_read_loop m 0 buff fp ?fs" using d(1) h(2) m n(2) by (simp add: f_read_def Let_def flip: m_def)
  moreover have "mem_cpy buff 0 (map (file_byte sectors fs fp cs) [fpos fp..<fpos fp + n]) n =
      take n (drop (fpos fp) (file_bytes sectors fs fp cs)) @ drop n buff"
    using lim by (simp add: mem_cpy_def file_bytes_part)
  moreover have "file_bytes sectors fs' fp' cs = file_bytes sectors fs fp cs" using l(7) kp(1) by (simp add: file_bytes_def)
  moreover have "fpos fp' = fpos fp + n" using fptr_add [of fp m] lim u32_below [of "obj_objsize (f_obj fp)"] m kp(3) by simp
  moreover have "handle_ok fs' fp'" by (rule handle_kept [OF h(1) calm_shape [OF c] kp(1,2)])
  ultimately show ?thesis using l k(2) c by (simp add: mw)
qed

end

end
