(* ===== verification/Mipos_Fat_Write.thy ===== *)
theory Mipos_Fat_Write
  imports Mipos_Fat_Read
begin

text \<open>
  Writing a file. Every turn of \<^verbatim>\<open>f_write\<close> puts a piece of the caller's bytes at the position, through the cache of the
  file or directly on the device, in a cluster the file already has or in one it takes for it; the bytes of the file
  become the old ones with that piece laid over them.
\<close>

subsection \<open>Contents with a piece laid over\<close>

definition wrote :: "(nat \<Rightarrow> u8) \<Rightarrow> nat \<Rightarrow> octets \<Rightarrow> nat \<Rightarrow> u8" where
  "wrote f p d i = (if p \<le> i \<and> i < p + length d then d ! (i - p) else f i)"

lemma wrote_append: "wrote (wrote f p d) (p + length d) e = wrote f p (d @ e)"
  by (intro ext) (auto simp: wrote_def nth_append)

text \<open>What a write leaves of the open file.\<close>

definition same_handle :: "FIL \<Rightarrow> FIL \<Rightarrow> bool" where
  "same_handle fp fp' \<longleftrightarrow> obj_fs (f_obj fp') = obj_fs (f_obj fp) \<and> obj_id (f_obj fp') = obj_id (f_obj fp) \<and> f_err fp' = f_err fp \<and>
     f_dir_sect fp' = f_dir_sect fp \<and> f_dir_ptr fp' = f_dir_ptr fp \<and> f_flag fp' AND NOT FA_DIRTY = f_flag fp AND NOT FA_DIRTY"

lemma same_handle_refl [simp]: "same_handle fp fp" by (simp add: same_handle_def)

lemma same_handle_trans: "same_handle a b \<Longrightarrow> same_handle b c \<Longrightarrow> same_handle a c" by (simp add: same_handle_def)

text \<open>The file after the bytes \<open>d\<close> have been put at its position.\<close>

definition written :: "('s \<Rightarrow> octets list) \<Rightarrow> nat list \<Rightarrow> 's FATFS \<Rightarrow> FIL \<Rightarrow> octets \<Rightarrow> 's FATFS \<Rightarrow> FIL \<Rightarrow> bool" where
  "written sectors cs fs fp d fs' fp' \<longleftrightarrow> file_ok sectors fs' fp' cs \<and> same_handle fp fp' \<and> fpos fp' = fpos fp + length d \<and>
     fsz fp' = max (fsz fp) (fpos fp + length d) \<and>
     (\<forall>i < fsz fp'. file_byte sectors fs' fp' cs i = wrote (file_byte sectors fs fp cs) (fpos fp) d i)"

lemma f_advance_simps [simp]:
  "f_sect (f_advance w fp) = f_sect fp" "f_buf (f_advance w fp) = f_buf fp" "f_flag (f_advance w fp) = f_flag fp"
  "f_clust (f_advance w fp) = f_clust fp" "f_err (f_advance w fp) = f_err fp" "f_dir_sect (f_advance w fp) = f_dir_sect fp"
  "f_dir_ptr (f_advance w fp) = f_dir_ptr fp" "obj_sclust (f_obj (f_advance w fp)) = obj_sclust (f_obj fp)"
  "obj_fs (f_obj (f_advance w fp)) = obj_fs (f_obj fp)" "obj_id (f_obj (f_advance w fp)) = obj_id (f_obj fp)"
  "f_fptr (f_advance w fp) = f_fptr fp + w"
  by (simp_all add: f_advance_def fil_set_size_def Let_def)

lemma f_advance_size: "fpos fp + unat w < 2 ^ 32 \<Longrightarrow> fsz (f_advance w fp) = max (fsz fp) (fpos fp + unat w)"
  using fptr_add [of fp w] by (simp add: f_advance_def fil_set_size_def Let_def word_less_nat_alt max_def)

lemma eff_advance [simp]: "eff sectors fs (f_advance w fp) = eff sectors fs fp" by (intro ext) (simp add: eff_def)

lemma file_byte_advance [simp]: "file_byte sectors fs (f_advance w fp) cs = file_byte sectors fs fp cs"
  by (intro ext) (simp add: file_byte_def)

lemma inside_clusters:
  assumes "p < l * b" "p mod b + r \<le> b"
  shows "p + r \<le> l * (b :: nat)"
proof -
  have "p div b < l" using assms(1) by (simp add: less_mult_imp_div_less)
  then have "(p div b + 1) * b \<le> l * b" by (intro mult_right_mono) simp_all
  then have "p div b * b + b \<le> l * b" by (simp add: algebra_simps)
  then show ?thesis using assms(2) div_mult_mod_eq [of p b] by linarith
qed

text \<open>The position behind a piece, which may have made the file longer.\<close>

lemma pos_written:
  assumes "unat (f_clust fp) = cs ! (fpos fp div (csz fs * 512))" "0 < w" "fpos fp mod (csz fs * 512) + unat w \<le> csz fs * 512"
    and "fpos fp < length cs * (csz fs * 512)" "fsz fp \<le> length cs * csz fs * 512" "fpos fp + unat w < 2 ^ 32"
    and "(fpos fp + unat w) mod 512 \<noteq> 0 \<Longrightarrow> unat (f_sect fp) = file_sector fs cs ((fpos fp + unat w) div 512)"
  shows "pos_ok fs (f_advance w fp) cs" "fsz (f_advance w fp) \<le> length cs * csz fs * 512"
proof -
  let ?fp = "fil_set_size (if f_fptr fp + w > obj_objsize (f_obj fp) then f_fptr fp + w else obj_objsize (f_obj fp)) fp"
  have eq: "f_advance w fp = ?fp\<lparr>f_fptr := f_fptr ?fp + w\<rparr>" by (simp add: f_advance_def fil_set_size_def Let_def)
  have same: "f_clust ?fp = f_clust fp" "f_fptr ?fp = f_fptr fp" "f_sect ?fp = f_sect fp" by (simp_all add: fil_set_size_def)
  have sz: "fsz ?fp = max (fsz fp) (fpos fp + unat w)" using f_advance_size [OF assms(6)] unfolding eq by simp
  have "fpos fp + unat w \<le> length cs * csz fs * 512" using inside_clusters [OF assms(4,3)] by (simp add: mult.assoc)
  then have lim: "fsz ?fp \<le> length cs * csz fs * 512" using sz assms(5) by simp
  then show "fsz (f_advance w fp) \<le> length cs * csz fs * 512" unfolding eq by simp
  show "pos_ok fs (f_advance w fp) cs" unfolding eq
    by (rule pos_advance) (use assms same sz lim in simp_all)
qed

subsection \<open>Into the cache\<close>

lemma set_flag: "(x OR f) AND f = (f :: u8)" "(x OR f) AND NOT f = x AND NOT (f :: u8)"
  by (rule bit_word_eqI, auto simp: bit_simps)+

lemma mod_add_eq_512: "p mod 512 + r = 512 \<Longrightarrow> (p + r) mod 512 = (0 :: nat)"
  by (metis mod_add_left_eq mod_self)

lemma in_block:
  assumes "i div b = p div (b :: nat)"
  shows "p mod b \<le> i mod b \<longleftrightarrow> p \<le> i" "i mod b < p mod b + r \<longleftrightarrow> i < p + r" "i mod b - p mod b = i - p"
proof -
  define k where "k = b * (p div b)"
  have "i = k + i mod b" "p = k + p mod b" using assms mult_div_mod_eq [of b i] mult_div_mod_eq [of b p] by (simp_all add: k_def)
  then show "p mod b \<le> i mod b \<longleftrightarrow> p \<le> i" "i mod b < p mod b + r \<longleftrightarrow> i < p + r" "i mod b - p mod b = i - p" by linarith+
qed

lemma same_sector:
  assumes "data_ok len fs" "clusters_ok fs cs" "i < length cs * csz fs * 512" "j < length cs * csz fs * 512"
  shows "file_sector fs cs (i div 512) = file_sector fs cs (j div 512) \<longleftrightarrow> i div 512 = j div 512"
  using file_sector_inj [OF assms(1,2)] assms(3,4) by (auto simp: less_mult_imp_div_less)

context block_device
begin

lemma part_bytes:
  assumes geo: "data_ok len fs" and fok: "file_at sectors fs fp cs" and at: "unat (f_sect fp) = file_sector fs cs (fpos fp div 512)"
    and pos: "fpos fp \<le> fsz fp" "fpos fp < length cs * (csz fs * 512)" and r: "fpos fp mod 512 + r \<le> 512" "r \<le> length wbuff"
    and fp': "dirty fp'" "f_sect fp' = f_sect fp" "f_buf fp' = mem_cpy (f_buf fp) (fpos fp mod 512) wbuff r"
    and i: "i < max (fsz fp) (fpos fp + r)"
  shows "file_byte sectors fs fp' cs i = wrote (file_byte sectors fs fp cs) (fpos fp) (take r wbuff) i"
proof -
  let ?p = "fpos fp"
  have buf: "length (f_buf fp) = 512" and size: "fsz fp \<le> length cs * csz fs * 512" using fok by (auto simp: file_at_def cache_ok_def)
  have lim: "?p + r \<le> length cs * csz fs * 512"
    using inside_clusters [OF pos(2) part_in_cluster [OF csz_pos(1) [OF geo] r(1)]] by (simp add: mult.assoc)
  then have il: "i < length cs * csz fs * 512" using i size by auto
  have pl: "?p < length cs * csz fs * 512" using pos(2) by (simp add: mult.assoc)
  note eq = same_sector [OF geo file_at_clusters [OF fok] il pl]
  show ?thesis
  proof (cases "i div 512 = ?p div 512")
    case True
    have "file_byte sectors fs fp' cs i = mem_cpy (f_buf fp) (?p mod 512) wbuff r ! (i mod 512)"
      using True at fp' by (simp add: file_byte_def eff_def)
    also have "\<dots> = (if ?p \<le> i \<and> i < ?p + r then wbuff ! (i - ?p) else f_buf fp ! (i mod 512))"
      using nth_mem_cpy [of "?p mod 512" r "f_buf fp" wbuff "i mod 512"] buf r in_block [OF True] by simp
    also have "\<dots> = wrote (file_byte sectors fs fp cs) ?p (take r wbuff) i"
      using fok True at i r(2) pos(1) by (auto simp: wrote_def file_at_def cache_ok_def)
    finally show ?thesis .
  next
    case False
    have "\<not> (?p \<le> i \<and> i < ?p + r)"
    proof
      assume in_r: "?p \<le> i \<and> i < ?p + r"
      then have "?p mod 512 + (i - ?p) < 512" using r(1) by linarith
      from within_div [OF this] in_r False show False by simp
    qed
    moreover have "file_sector fs cs (i div 512) \<noteq> unat (f_sect fp)" using False eq at by simp
    ultimately show ?thesis using r(2) fp'(2) by (auto simp: wrote_def file_byte_def eff_def)
  qed
qed

lemma f_write_part_ok:
  assumes geo: "data_ok len fs" and fok: "file_at sectors fs fp cs"
    and at: "unat (f_sect fp) = file_sector fs cs (fpos fp div 512)" "unat (f_clust fp) = cs ! (fpos fp div (csz fs * 512))"
    and pos: "fpos fp \<le> fsz fp" "fpos fp < length cs * (csz fs * 512)" and n: "wbuff \<noteq> []" "fpos fp + length wbuff < 2 ^ 32"
  shows "\<exists>wcnt fp'. f_write_part wbuff fp = (Some wcnt, fp') \<and> 0 < unat wcnt \<and> unat wcnt \<le> length wbuff \<and>
    written sectors cs fs fp (take (unat wcnt) wbuff) fs (f_advance wcnt fp')"
proof -
  let ?o = "fpos fp mod 512" and ?btw = "of_nat (length wbuff) :: u32"
  have btw: "unat ?btw = length wbuff" using n(2) by (simp add: unat_of_nat take_bit_eq_mod)
  define wcnt where "wcnt = (if 512 - f_fptr fp mod 512 > ?btw then ?btw else 512 - f_fptr fp mod 512)"
  have left: "unat (512 - f_fptr fp mod 512) = 512 - ?o" using unat_fptr_mod(1) [of fp] by (simp add: unat_sub word_le_nat_alt)
  then have w: "unat wcnt = min (512 - ?o) (length wbuff)" using btw by (simp add: wcnt_def word_less_nat_alt)
  have pos': "0 < unat wcnt" using n(1) w by simp
  have in_s: "?o + unat wcnt \<le> 512" using w by simp
  have w32: "fpos fp + unat wcnt < 2 ^ 32" using w n(2) by simp
  let ?fp = "fp\<lparr>f_buf := mem_cpy (f_buf fp) ?o wbuff (unat wcnt), f_flag := f_flag fp OR FA_DIRTY\<rparr>" and ?d = "take (unat wcnt) wbuff"
  have run: "f_write_part wbuff fp = (Some wcnt, ?fp)" by (simp add: f_write_part_def Let_def unat_fptr_mod(1) flip: wcnt_def)
  have dirty: "dirty ?fp" using set_flag(1) [of "f_flag fp" FA_DIRTY] by (simp add: mip_simps)
  have byte: "file_byte sectors fs ?fp cs i = wrote (file_byte sectors fs fp cs) (fpos fp) ?d i" if "i < max (fsz fp) (fpos fp + unat wcnt)" for i
    using part_bytes [OF geo fok at(1) pos in_s, of wbuff ?fp i] dirty that w by simp
  have buf: "length (f_buf fp) = 512" and size: "fsz fp \<le> length cs * csz fs * 512" using fok by (auto simp: file_at_def cache_ok_def)
  have "(fpos fp + unat wcnt) mod 512 \<noteq> 0 \<Longrightarrow> unat (f_sect ?fp) = file_sector fs cs ((fpos fp + unat wcnt) div 512)"
    using within_div [of "fpos fp" 512 "unat wcnt"] in_s at(1) by (cases "?o + unat wcnt = 512") (auto simp: mod_add_eq_512)
  then have p: "pos_ok fs (f_advance wcnt ?fp) cs" "fsz (f_advance wcnt ?fp) \<le> length cs * csz fs * 512"
    using pos_written [of ?fp cs fs wcnt] at(2) pos' part_in_cluster [OF csz_pos(1) [OF geo] in_s] pos(2) size w32 by (simp_all add: word_less_nat_alt)
  have "fpos fp div 512 < length cs * csz fs" using pos(2) by (simp add: less_mult_imp_div_less mult.assoc)
  then have "cache_ok sectors fs (f_advance wcnt ?fp) cs"
    using dirty at(1) buf in_s w unfolding cache_ok_def by (simp add: length_mem_cpy file_byte_def eff_def) blast
  then have "file_ok sectors fs (f_advance wcnt ?fp) cs" using p fok by (simp add: file_ok_def file_at_def file_chain_def)
  moreover have "same_handle fp (f_advance wcnt ?fp)" using set_flag(2) [of "f_flag fp" FA_DIRTY] by (simp add: same_handle_def)
  moreover have "fpos (f_advance wcnt ?fp) = fpos fp + unat wcnt" "fsz (f_advance wcnt ?fp) = max (fsz fp) (fpos fp + unat wcnt)"
    using fptr_add [OF w32] f_advance_size [of ?fp wcnt] w32 by simp_all
  moreover have "length ?d = unat wcnt" "unat wcnt \<le> length wbuff" using w by simp_all
  ultimately have "written sectors cs fs fp ?d fs (f_advance wcnt ?fp)" using byte unfolding written_def file_byte_advance by metis
  with run pos' \<open>unat wcnt \<le> length wbuff\<close> show ?thesis by blast
qed

subsection \<open>Directly to the device\<close>

lemma nth_write_run:
  assumes "s + c \<le> length ss" "length b = 512 * c" "m < length ss"
  shows "(take s ss @ image_sectors b @ drop (s + c) ss) ! m = (if s \<le> m \<and> m < s + c then sector_at b (m - s) else ss ! m)"
proof -
  consider "m < s" | "s \<le> m" "m < s + c" | "s + c \<le> m" by linarith
  then show ?thesis using assms by cases (auto simp: nth_append image_sectors_def)
qed

lemma offset_512:
  shows "512 * q \<le> i \<and> i < 512 * q + 512 * c \<longleftrightarrow> q \<le> i div 512 \<and> i div 512 < q + (c :: nat)"
    "512 * q \<le> i \<Longrightarrow> (i - 512 * q) div 512 = i div 512 - q" "512 * q \<le> i \<Longrightarrow> (i - 512 * q) mod 512 = i mod 512"
proof -
  show "512 * q \<le> i \<and> i < 512 * q + 512 * c \<longleftrightarrow> q \<le> i div 512 \<and> i div 512 < q + c" by arith
  assume "512 * q \<le> i"
  then obtain j where "i = 512 * q + j" using le_Suc_ex by blast
  then show "(i - 512 * q) div 512 = i div 512 - q" "(i - 512 * q) mod 512 = i mod 512" by simp_all
qed

text \<open>The bytes whose sectors a run of sectors covers.\<close>

lemma sector_in_run:
  assumes geo: "data_ok len fs" and cl: "clusters_ok fs cs" and p: "p mod 512 = 0" "p div 512 mod csz fs + c \<le> csz fs"
    and lim: "p < length cs * csz fs * 512" "i < length cs * csz fs * 512" and s: "s = file_sector fs cs (p div 512)"
  shows "s \<le> file_sector fs cs (i div 512) \<and> file_sector fs cs (i div 512) < s + c \<longleftrightarrow> p \<le> i \<and> i < p + 512 * c"
    "p \<le> i \<and> i < p + 512 * c \<Longrightarrow> file_sector fs cs (i div 512) = s + (i - p) div 512 \<and> (i - p) mod 512 = i mod 512"
proof -
  let ?q = "p div 512" and ?k = "i div 512"
  have p512: "p = 512 * ?q" using p(1) mult_div_mod_eq [of 512 p] by simp
  have run: "file_sector fs cs (?q + j) = s + j" if "j < c" for j
    using file_sector_run [OF csz_pos(1) [OF geo], of ?q j cs] p(2) that s by simp
  have in_r: "p \<le> i \<and> i < p + 512 * c \<longleftrightarrow> ?q \<le> ?k \<and> ?k < ?q + c" by (subst p512, subst p512) (rule offset_512(1))
  have top: "?q + j < length cs * csz fs" if "j < c" for j
  proof -
    have "?q mod csz fs + j < csz fs" using p(2) that by linarith
    then have "(?q + j) div csz fs = ?q div csz fs" by (rule within_div)
    moreover have "?q div csz fs < length cs" using lim(1) by (simp add: less_mult_imp_div_less)
    ultimately have "(?q + j) div csz fs < length cs" by (simp only:)
    then show ?thesis using div_less_iff_less_mult [OF csz_pos(1) [OF geo]] by blast
  qed
  show "s \<le> file_sector fs cs ?k \<and> file_sector fs cs ?k < s + c \<longleftrightarrow> p \<le> i \<and> i < p + 512 * c" (is "?L \<longleftrightarrow> ?R")
  proof
    assume ?L
    then obtain j where j: "j < c" "file_sector fs cs ?k = s + j" by (metis le_add_diff_inverse nat_add_left_cancel_less)
    have "?k < length cs * csz fs" using lim(2) by (simp add: less_mult_imp_div_less)
    from file_sector_inj [OF geo cl this top [OF j(1)]] j run have "?k = ?q + j" by simp
    with in_r j(1) show ?R by simp
  next
    assume ?R
    then have "?k = ?q + (?k - ?q)" "?k - ?q < c" using in_r by auto
    with run [of "?k - ?q"] have "file_sector fs cs ?k = s + (?k - ?q)" by metis
    with \<open>?k - ?q < c\<close> show ?L by linarith
  qed
  assume i: "p \<le> i \<and> i < p + 512 * c"
  then have k: "?k = ?q + (?k - ?q)" "?k - ?q < c" using in_r by auto
  have "(i - p) div 512 = ?k - ?q" "(i - p) mod 512 = i mod 512"
    using offset_512(2,3) [of ?q i] i p512 by simp_all
  with k run [of "?k - ?q"] show "file_sector fs cs ?k = s + (i - p) div 512 \<and> (i - p) mod 512 = i mod 512" by metis
qed

text \<open>What the device holds after a run of sectors of the file has been written.\<close>

lemma direct_write:
  assumes v: "vol fs" and geo: "data_ok (length (sectors (fs_dev fs))) fs" and fok: "file_at sectors fs fp cs"
    and at: "unat s = file_sector fs cs (fpos fp div 512)" "fpos fp < length cs * (csz fs * 512)"
    and cc: "0 < unat cc" "fpos fp div 512 mod csz fs + unat cc \<le> csz fs" "512 * unat cc \<le> length wbuff"
  shows "\<exists>d. fat_write_n wbuff s cc fs = Some (MIPOS_DISK_RES_OK, fs\<lparr>fs_dev := d\<rparr>) \<and> ready d \<and> length (sectors d) = length (sectors (fs_dev fs)) \<and>
    (\<forall>m < length (sectors (fs_dev fs)). sectors d ! m =
       (if unat s \<le> m \<and> m < unat s + unat cc then sector_at wbuff (m - unat s) else sectors (fs_dev fs) ! m)) \<and>
    vol (fs\<lparr>fs_dev := d\<rparr>) \<and> entry sectors (fs\<lparr>fs_dev := d\<rparr>) = entry sectors fs \<and>
    (count_ok sectors (fs\<lparr>fs_dev := d\<rparr>) = count_ok sectors fs) \<and> calm sectors fs (fs\<lparr>fs_dev := d\<rparr>) (file_area fs cs)"
proof -
  let ?ss = "sectors (fs_dev fs)" and ?c = "unat cc" and ?s = "unat s" and ?b = "take (512 * unat cc) wbuff"
  have rd: "ready (fs_dev fs)" "fs_table fs = t" "fs_pdrv fs = pdrv" using v by (auto simp: vol_def fat_wf_def)
  have p: "fpos fp < length cs * csz fs * 512" using at(2) by (simp add: mult.assoc)
  note ins = run_inside [OF geo file_at_clusters [OF fok] cc(2,1) p, folded at(1)]
  have c128: "?c \<le> 128" using cc(2) csz_pos(2) [OF geo] by linarith
  have lb: "length ?b = 512 * ?c" using cc(3) by simp
  have "unat (512 * cc) = 512 * ?c" using unat_mult_512 [of cc] c128 by (simp add: mult.commute)
  then obtain d where d: "fat_write_n wbuff s cc fs = Some (MIPOS_DISK_RES_OK, fs\<lparr>fs_dev := d\<rparr>)" "ready d"
      "sectors d = take ?s ?ss @ image_sectors ?b @ drop (?s + ?c) ?ss"
    using writes_many [OF rd(1) _ ins(1) lb] cc(1) rd(2,3) by (auto simp: fat_write_n_def word_less_nat_alt)
  have len: "length (sectors d) = length ?ss" using d(3) ins(1) lb by (simp add: image_sectors_def)
  have at_b: "sector_at ?b j = sector_at wbuff j" if "j < ?c" for j
    using that by (simp add: sector_at_def drop_take min_def)
  have nth: "sectors d ! m = (if ?s \<le> m \<and> m < ?s + ?c then sector_at wbuff (m - ?s) else ?ss ! m)" if "m < length ?ss" for m
    using nth_write_run [OF ins(1) lb that] at_b [of "m - ?s"] d(3) by auto
  have out: "\<not> (?s \<le> m \<and> m < ?s + ?c)" if "m \<notin> file_area fs cs" for m
  proof
    assume "?s \<le> m \<and> m < ?s + ?c"
    then have "?s + (m - ?s) = m" "m - ?s < ?c" by auto
    with ins(2) [of "m - ?s"] that show False by simp
  qed
  have area: "m \<notin> file_area fs cs" if "in_table fs m \<or> m = unat (winsect fs)" for m
    using that file_sector_range(2) [OF geo file_at_clusters [OF fok]] off_window_sector [OF geo] fok
    by (auto simp: file_area_def file_at_def)
  have same: "sectors d ! m = ?ss ! m" if "m < length (sectors d)" "in_table fs m \<or> m = unat (winsect fs)" for m
    using nth [of m] out [OF area [OF that(2)]] that(1) len by auto
  have "calm sectors fs (fs\<lparr>fs_dev := d\<rparr>) (file_area fs cs)" by (rule calm_data [OF len]) (use nth out in auto)
  with d(1,2) len nth vol_data [OF v d(2) len same] show ?thesis by blast
qed

lemma sector_at_nth: "512 * c \<le> length b \<Longrightarrow> j < 512 * c \<Longrightarrow> sector_at b (j div 512) ! (j mod 512) = b ! j"
proof -
  assume a: "512 * c \<le> length b" "j < 512 * c"
  then have "512 * (j div 512) + j mod 512 < length b" by simp
  then show ?thesis by (simp add: sector_at_def)
qed

lemma direct_bytes:
  assumes geo: "data_ok (length (sectors (fs_dev fs))) fs" and fok: "file_at sectors fs fp cs" and clean: "\<not> dirty fp" "\<not> dirty fp'"
    and at: "fpos fp mod 512 = 0" "s = file_sector fs cs (fpos fp div 512)" "fpos fp < length cs * csz fs * 512"
    and cc: "fpos fp div 512 mod csz fs + c \<le> csz fs" "512 * c \<le> length wbuff"
    and d: "\<And>m. m < length (sectors (fs_dev fs)) \<Longrightarrow> sectors d ! m =
         (if s \<le> m \<and> m < s + c then sector_at wbuff (m - s) else sectors (fs_dev fs) ! m)"
    and i: "i < length cs * csz fs * 512"
  shows "file_byte sectors (fs\<lparr>fs_dev := d\<rparr>) fp' cs i = wrote (file_byte sectors fs fp cs) (fpos fp) (take (512 * c) wbuff) i"
proof -
  let ?n = "file_sector fs cs (i div 512)" and ?p = "fpos fp"
  note run = sector_in_run [OF geo file_at_clusters [OF fok] at(1) cc(1) at(3) i at(2)]
  have "?n < length (sectors (fs_dev fs))"
    using file_sector_range(1) [OF geo file_at_clusters [OF fok]] i by (simp add: less_mult_imp_div_less)
  note dn = d [OF this]
  have new: "file_byte sectors (fs\<lparr>fs_dev := d\<rparr>) fp' cs i = sectors d ! ?n ! (i mod 512)"
    using clean(2) by (simp add: file_byte_def eff_def file_sector_def base_def)
  show ?thesis
  proof (cases "?p \<le> i \<and> i < ?p + 512 * c")
    case True
    with run have "sectors d ! ?n ! (i mod 512) = sector_at wbuff ((i - ?p) div 512) ! ((i - ?p) mod 512)" using dn by simp
    also have "\<dots> = wbuff ! (i - ?p)" by (rule sector_at_nth [OF cc(2)]) (use True in linarith)
    finally show ?thesis using True new cc(2) by (auto simp: wrote_def)
  next
    case False
    with run(1) have "sectors d ! ?n = sectors (fs_dev fs) ! ?n" using dn by presburger
    with False new clean(1) cc(2) show ?thesis by (auto simp: wrote_def file_byte_def eff_def)
  qed
qed

lemma direct_cache:
  assumes "unat s + unat cc \<le> 2 ^ 32" "unat cc \<le> 128" "length buf = 512" "512 * unat cc \<le> length wbuff"
  shows "(if f - s < cc then mem_cpy buf 0 (drop (unat ((f - s) * 512)) wbuff) 512 else buf) =
    (if unat s \<le> unat f \<and> unat f < unat s + unat (cc :: u32) then sector_at wbuff (unat f - unat s) else buf)"
proof (cases "f - s < cc")
  case True
  with word_range [OF assms(1)] have r: "unat s \<le> unat f" "unat f < unat s + unat cc" by auto
  then have k: "unat (f - s) = unat f - unat s" by (simp add: unat_sub word_le_nat_alt)
  then have "unat ((f - s) * 512) = 512 * (unat f - unat s)" using unat_mult_512 [of "f - s"] r(2) assms(2) by simp
  with True r assms(3,4) show ?thesis by (simp add: mem_cpy_def sector_at_def)
qed (use word_range [OF assms(1)] in auto)

lemma cache_direct:
  assumes geo: "data_ok (length (sectors (fs_dev fs))) fs" and fok: "file_at sectors fs fp cs" and fp': "\<not> dirty fp'" "f_sect fp' = f_sect fp"
    and at: "fpos fp mod 512 = 0" "s = file_sector fs cs (fpos fp div 512)" "fpos fp < length cs * csz fs * 512" and pos: "fpos fp \<le> fsz fp"
    and cc: "fpos fp div 512 mod csz fs + c \<le> csz fs" "512 * c \<le> length wbuff"
    and d: "\<And>m. m < length (sectors (fs_dev fs)) \<Longrightarrow> sectors d ! m =
         (if s \<le> m \<and> m < s + c then sector_at wbuff (m - s) else sectors (fs_dev fs) ! m)"
    and cache: "f_buf fp' = (if s \<le> unat (f_sect fp) \<and> unat (f_sect fp) < s + c then sector_at wbuff (unat (f_sect fp) - s) else f_buf fp)"
    and byte: "\<And>i. i < length cs * csz fs * 512 \<Longrightarrow>
       file_byte sectors (fs\<lparr>fs_dev := d\<rparr>) fp' cs i = wrote (file_byte sectors fs fp cs) (fpos fp) (take (512 * c) wbuff) i"
  shows "length (f_buf fp') = 512"
    "i < max (fsz fp) (fpos fp + 512 * c) \<Longrightarrow> i < length cs * csz fs * 512 \<Longrightarrow> file_sector fs cs (i div 512) = unat (f_sect fp) \<Longrightarrow>
       f_buf fp' ! (i mod 512) = file_byte sectors (fs\<lparr>fs_dev := d\<rparr>) fp' cs i"
proof -
  let ?f = "unat (f_sect fp)"
  have buf: "length (f_buf fp) = 512" using fok by (auto simp: file_at_def cache_ok_def)
  show "length (f_buf fp') = 512"
  proof (cases "s \<le> ?f \<and> ?f < s + c")
    case True
    then have "512 * (?f - s) + 512 \<le> 512 * c" by auto
    with cc(2) True show ?thesis by (simp add: cache sector_at_def)
  qed (auto simp: cache buf)
  assume i: "i < max (fsz fp) (fpos fp + 512 * c)" "i < length cs * csz fs * 512" "file_sector fs cs (i div 512) = ?f"
  note run = sector_in_run [OF geo file_at_clusters [OF fok] at(1) cc(1) at(3) i(2) at(2)]
  have lt: "?f < length (sectors (fs_dev fs))"
    using file_sector_range(1) [OF geo file_at_clusters [OF fok], of "i div 512"] i(2,3) by (simp add: less_mult_imp_div_less)
  show "f_buf fp' ! (i mod 512) = file_byte sectors (fs\<lparr>fs_dev := d\<rparr>) fp' cs i"
  proof (cases "s \<le> ?f \<and> ?f < s + c")
    case True
    with d [OF lt] cache have "f_buf fp' = sectors d ! ?f" by simp
    with fp' i(3) show ?thesis by (simp add: file_byte_def eff_def file_sector_def base_def)
  next
    case False
    with run(1) i(3) have out: "\<not> (fpos fp \<le> i \<and> i < fpos fp + 512 * c)" by simp
    have "i < fsz fp" using i(1) out pos by linarith
    then have "f_buf fp ! (i mod 512) = file_byte sectors fs fp cs i" using fok i(3) by (simp add: file_at_def cache_ok_def)
    with False out cache byte [OF i(2)] cc(2) show ?thesis by (auto simp: wrote_def)
  qed
qed

lemma f_write_direct_ok:
  assumes v: "vol fs" and geo: "data_ok (length (sectors (fs_dev fs))) fs" and fok: "file_at sectors fs fp cs" and clean: "\<not> dirty fp"
    and at: "fpos fp mod 512 = 0" "unat s = file_sector fs cs (fpos fp div 512)" "unat (f_clust fp) = cs ! (fpos fp div (csz fs * 512))"
    and pos: "fpos fp \<le> fsz fp" "fpos fp < length cs * (csz fs * 512)"
    and cc: "0 < unat cc" "fpos fp div 512 mod csz fs + unat cc \<le> csz fs" "512 * unat cc \<le> length wbuff"
    and w32: "fpos fp + length wbuff < 2 ^ 32"
  shows "\<exists>fp' fs'. f_write_direct wbuff s cc fp fs = Some ((FR_OK, Some (512 * cc), fp'), fs') \<and> unat (512 * cc) = 512 * unat cc \<and>
    vol fs' \<and> calm sectors fs fs' (file_area fs cs) \<and> entry sectors fs' = entry sectors fs \<and> (count_ok sectors fs' = count_ok sectors fs) \<and>
    written sectors cs fs fp (take (512 * unat cc) wbuff) fs' (f_advance (512 * cc) fp')"
proof -
  let ?p = "fpos fp" and ?c = "unat cc" and ?s = "unat s" and ?d = "take (512 * unat cc) wbuff"
  obtain d where d: "fat_write_n wbuff s cc fs = Some (MIPOS_DISK_RES_OK, fs\<lparr>fs_dev := d\<rparr>)" "length (sectors d) = length (sectors (fs_dev fs))"
      "\<And>m. m < length (sectors (fs_dev fs)) \<Longrightarrow> sectors d ! m =
         (if ?s \<le> m \<and> m < ?s + ?c then sector_at wbuff (m - ?s) else sectors (fs_dev fs) ! m)"
      "vol (fs\<lparr>fs_dev := d\<rparr>)" "entry sectors (fs\<lparr>fs_dev := d\<rparr>) = entry sectors fs"
      "count_ok sectors (fs\<lparr>fs_dev := d\<rparr>) = count_ok sectors fs" "calm sectors fs (fs\<lparr>fs_dev := d\<rparr>) (file_area fs cs)"
    using direct_write [OF v geo fok at(2) pos(2) cc] by blast
  let ?fs = "fs\<lparr>fs_dev := d\<rparr>"
  define fp' where "fp' = (if f_sect fp - s < cc
    then fp\<lparr>f_buf := mem_cpy (f_buf fp) 0 (drop (unat ((f_sect fp - s) * 512)) wbuff) 512, f_flag := f_flag fp AND NOT FA_DIRTY\<rparr> else fp)"
  have run: "f_write_direct wbuff s cc fp fs = Some ((FR_OK, Some (512 * cc), fp'), ?fs)" using d(1) by (simp add: f_write_direct_def fp'_def)
  have c: "unat (512 * cc) = 512 * ?c" using cc(2) csz_pos(2) [OF geo] unat_mult_512 [of cc] by (simp add: mult.commute)
  have w: "?p + unat (512 * cc) < 2 ^ 32" using w32 cc(3) c by linarith
  have buf: "length (f_buf fp) = 512" and size: "fsz fp \<le> length cs * csz fs * 512" using fok by (auto simp: file_at_def cache_ok_def)
  have same: "f_sect fp' = f_sect fp" "f_clust fp' = f_clust fp" "f_obj fp' = f_obj fp" "f_fptr fp' = f_fptr fp" "same_handle fp fp'" "\<not> dirty fp'"
    using clean by (simp_all add: fp'_def same_handle_def word_bw_assocs)
  note rc = run_in_cluster [OF at(1) cc(2)]
  have "(?p + unat (512 * cc)) mod 512 = 0" using at(1) c by simp
  then have p: "pos_ok fs (f_advance (512 * cc) fp') cs" "fsz (f_advance (512 * cc) fp') \<le> length cs * csz fs * 512"
    using pos_written [of fp' cs fs "512 * cc"] at(3) rc c cc(1) pos(2) size w same by (simp_all add: word_less_nat_alt)
  have pl: "?p < length cs * csz fs * 512" using pos(2) by (simp add: mult.assoc)
  note geoc = geo file_at_clusters [OF fok]
  have fz: "fsz (f_advance (512 * cc) fp') = max (fsz fp) (?p + 512 * ?c)" "fpos (f_advance (512 * cc) fp') = ?p + 512 * ?c"
    using f_advance_size [of fp' "512 * cc"] fptr_add [OF w] w same c by simp_all
  have byte: "file_byte sectors ?fs fp' cs i = wrote (file_byte sectors fs fp cs) ?p ?d i" if "i < length cs * csz fs * 512" for i
    by (rule direct_bytes [OF geo fok clean same(6) at(1,2) pl cc(2,3) d(3) that])
  have "?s + ?c \<le> length (sectors (fs_dev fs))" using run_inside(1) [OF geoc cc(2,1) pl] at(2) by simp
  then have "?s + ?c \<le> 2 ^ 32" "?c \<le> 128" using geo cc(2) csz_pos(2) [OF geo] by (auto simp: data_ok_def)
  from direct_cache [OF this buf cc(3), of "f_sect fp"]
  have cache: "f_buf fp' = (if ?s \<le> unat (f_sect fp) \<and> unat (f_sect fp) < ?s + ?c then sector_at wbuff (unat (f_sect fp) - ?s) else f_buf fp)"
    by (auto simp: fp'_def)
  have "cache_ok sectors ?fs (f_advance (512 * cc) fp') cs"
    using cache_direct [OF geo fok same(6,1) at(1,2) pl pos(1) cc(2,3) d(3) cache byte] p(2) fz(1) same(1,6)
      shape_data(2) [of ?fs fs] by (auto simp: cache_ok_def fs_shape_def)
  then have "file_ok sectors ?fs (f_advance (512 * cc) fp') cs"
    using p fok d(5) same by (simp add: file_ok_def file_at_def file_chain_def pos_ok_def off_window_def file_sector_def base_def)
  moreover have "same_handle fp (f_advance (512 * cc) fp')" using same(5) by (simp add: same_handle_def)
  moreover have "length ?d = 512 * ?c" using cc(3) by simp
  moreover have "\<forall>i < fsz (f_advance (512 * cc) fp'). file_byte sectors ?fs (f_advance (512 * cc) fp') cs i = wrote (file_byte sectors fs fp cs) ?p ?d i"
    using byte p(2) by simp
  ultimately have "written sectors cs fs fp ?d ?fs (f_advance (512 * cc) fp')" using fz unfolding written_def by metis
  with run c d(4-7) show ?thesis by blast
qed

subsection \<open>One turn inside a cluster\<close>

lemma written_from:
  assumes "written sectors cs fs1 fp1 d fs' fp'" "same_handle fp fp1" "f_fptr fp1 = f_fptr fp" "fsz fp1 = fsz fp" "fpos fp \<le> fsz fp"
    and "\<And>i. i < fsz fp \<Longrightarrow> file_byte sectors fs1 fp1 cs i = file_byte sectors fs fp cs i"
  shows "written sectors cs fs fp d fs' fp'"
proof -
  have "wrote (file_byte sectors fs1 fp1 cs) (fpos fp) d i = wrote (file_byte sectors fs fp cs) (fpos fp) d i"
    if "i < max (fsz fp) (fpos fp + length d)" for i using that assms(5,6) by (auto simp: wrote_def)
  with assms(1-4) show ?thesis by (auto simp: written_def intro: same_handle_trans)
qed

text \<open>Before a part of a sector is changed, the sector is in the cache, unless all of its bytes are new.\<close>

lemma f_write_load_ok:
  assumes v: "vol fs" and geo: "data_ok (length (sectors (fs_dev fs))) fs" and fok: "file_at sectors fs fp cs" and clean: "\<not> dirty fp"
    and at: "fpos fp mod 512 = 0" "unat s = file_sector fs cs (fpos fp div 512)" "fpos fp < length cs * (csz fs * 512)"
  shows "\<exists>fp' fs'. (if f_sect fp \<noteq> s \<and> f_fptr fp < obj_objsize (f_obj fp) then fil_fill s fp fs else Some ((FR_OK, fp), fs)) =
      Some ((FR_OK, fp'), fs') \<and> vol fs' \<and> calm sectors fs fs' {} \<and> entry sectors fs' = entry sectors fs \<and>
    (count_ok sectors fs' = count_ok sectors fs) \<and> file_at sectors fs' (fp'\<lparr>f_sect := s\<rparr>) cs \<and> keeps fp fp' \<and> f_clust fp' = f_clust fp \<and>
    (\<forall>i < fsz fp. file_byte sectors fs' (fp'\<lparr>f_sect := s\<rparr>) cs i = file_byte sectors fs fp cs i)"
proof -
  have size: "fsz fp \<le> length cs * csz fs * 512" "length (f_buf fp) = 512" using fok by (auto simp: file_at_def cache_ok_def)
  have pl: "fpos fp < length cs * csz fs * 512" using at(3) by (simp add: mult.assoc)
  then have k: "fpos fp div 512 < length cs * csz fs" by (simp add: less_mult_imp_div_less)
  consider "f_sect fp = s" | "f_sect fp \<noteq> s" "f_fptr fp < obj_objsize (f_obj fp)" | "\<not> f_fptr fp < obj_objsize (f_obj fp)" by blast
  then show ?thesis
  proof cases
    case 1
    have "fp\<lparr>f_sect := s\<rparr> = fp" unfolding 1 [symmetric] by simp
    then have "file_at sectors fs (fp\<lparr>f_sect := s\<rparr>) cs" "file_byte sectors fs (fp\<lparr>f_sect := s\<rparr>) = file_byte sectors fs fp" using fok by (simp_all only:)
    with 1 v show ?thesis by simp
  next
    case 2
    from fil_fill_ok [OF v geo fok clean k at(2)] obtain b fs' where f: "fil_fill s fp fs = Some ((FR_OK, fp\<lparr>f_buf := b\<rparr>), fs')" "vol fs'"
        "calm sectors fs fs' {}" "entry sectors fs' = entry sectors fs" "count_ok sectors fs' = count_ok sectors fs"
        "file_at sectors fs' (fp\<lparr>f_buf := b, f_sect := s\<rparr>) cs"
        "\<And>i. i < length cs * csz fs * 512 \<Longrightarrow> file_byte sectors fs' (fp\<lparr>f_buf := b, f_sect := s\<rparr>) cs i = file_byte sectors fs fp cs i" by blast
    show ?thesis using 2 f size(1) by (intro exI [of _ "fp\<lparr>f_buf := b\<rparr>"] exI [of _ fs']) (simp add: keeps_def)
  next
    case 3
    have "fsz fp \<le> fpos fp" using 3 by (simp add: word_less_nat_alt)
    have byte: "file_byte sectors fs (fp\<lparr>f_sect := s\<rparr>) cs i = file_byte sectors fs fp cs i" for i
      using clean by (simp add: file_byte_def eff_def)
    have "file_sector fs cs (i div 512) \<noteq> unat s" if "i < fsz fp" for i
    proof -
      have "i div 512 \<noteq> fpos fp div 512" using in_block(1) [of i 512 "fpos fp"] that \<open>fsz fp \<le> fpos fp\<close> at(1) by auto
      with same_sector [OF geo file_at_clusters [OF fok] _ pl, of i] that size(1) at(2) show ?thesis by simp
    qed
    then have "file_at sectors fs (fp\<lparr>f_sect := s\<rparr>) cs"
      using fok clean by (simp add: file_at_def cache_ok_def file_chain_def)
    with 3 v byte show ?thesis by simp
  qed
qed

lemma f_write_sect_ok:
  assumes v: "vol fs" and geo: "data_ok (length (sectors (fs_dev fs))) fs" and fok: "file_at sectors fs fp cs"
    and at: "fpos fp mod 512 = 0" "csect = csect_of fp fs" "unat (f_clust fp) = cs ! (fpos fp div (csz fs * 512))"
    and pos: "fpos fp \<le> fsz fp" "fpos fp < length cs * (csz fs * 512)" and n: "wbuff \<noteq> []" "fpos fp + length wbuff < 2 ^ 32"
  shows "\<exists>wcnt fp' fs'. f_write_sect wbuff csect fp fs = Some ((FR_OK, Some wcnt, fp'), fs') \<and> 0 < unat wcnt \<and> unat wcnt \<le> length wbuff \<and>
    vol fs' \<and> calm sectors fs fs' (file_area fs cs) \<and> entry sectors fs' = entry sectors fs \<and> (count_ok sectors fs' = count_ok sectors fs) \<and>
    written sectors cs fs fp (take (unat wcnt) wbuff) fs' (f_advance wcnt fp')"
proof -
  let ?fp = "fp\<lparr>f_flag := f_flag fp AND NOT FA_DIRTY\<rparr>"
  obtain fs1 where w: "fil_writeback fp fs = Some ((FR_OK, ?fp), fs1)" "vol fs1" "calm sectors fs fs1 (file_area fs cs)"
      "entry sectors fs1 = entry sectors fs" "count_ok sectors fs1 = count_ok sectors fs" "file_at sectors fs1 ?fp cs"
      "\<And>i. i < fsz fp \<Longrightarrow> file_byte sectors fs1 ?fp cs i = file_byte sectors fs fp cs i"
    using fil_writeback_ok [OF v geo fok] by blast
  note sh = shape_data [OF calm_shape [OF w(3)]]
  have geo1: "data_ok (length (sectors (fs_dev fs1))) fs1" using geo sh(5) calm_length [OF w(3)] by simp
  have clean: "\<not> dirty ?fp" by (simp add: word_bw_assocs)
  define s where "s = clst2sect fs1 (f_clust ?fp) + csect"
  have "csect_of ?fp fs1 = csect" using at(2) sh(3) by (simp add: csect_of_def)
  with locate_sector [OF geo1 file_at_clusters [OF w(6)], of "f_clust fp" ?fp] at(3) pos(2) sh
  have s: "unat s = file_sector fs1 cs (fpos fp div 512)" "clst2sect fs1 (f_clust fp) \<noteq> 0" by (simp_all add: s_def mult.assoc)
  have cl: "unat (f_clust ?fp) = cs ! (fpos ?fp div (csz fs1 * 512))" using at(3) sh by simp
  have pos1: "fpos ?fp \<le> fsz ?fp" "fpos ?fp < length cs * (csz fs1 * 512)" using pos sh by simp_all
  let ?btw = "of_nat (length wbuff) :: u32"
  have btw: "unat ?btw = length wbuff" using n(2) by (simp add: unat_of_nat take_bit_eq_mod)
  have step: "f_write_sect wbuff csect fp fs = (if ?btw div 512 > 0 then f_write_direct wbuff s (clip_count csect (?btw div 512) fs1) ?fp fs1
      else do { ((res1, fp2), fs2) \<leftarrow> (if f_sect fp \<noteq> s \<and> f_fptr fp < obj_objsize (f_obj fp) then fil_fill s ?fp fs1 else Some ((FR_OK, ?fp), fs1));
        Some (if res1 \<noteq> FR_OK then (res1, None, fp2) else (FR_OK, f_write_part wbuff (fp2\<lparr>f_sect := s\<rparr>)), fs2) })"
    using w(1) s(2) unfolding s_def by (simp add: f_write_sect_def Let_def)
  have orig: "written sectors cs fs fp d fs' fp'" if "written sectors cs fs1 ?fp d fs' fp'" for d fs' fp'
    by (rule written_from [OF that]) (use w(7) pos(1) in \<open>simp_all add: same_handle_def\<close>)
  show ?thesis
  proof (cases "?btw div 512 > 0")
    case True
    define cc where "cc = clip_count csect (?btw div 512) fs1"
    have q: "unat (?btw div 512) = length wbuff div 512" by (simp add: unat_div btw)
    have cs: "unat csect = fpos fp div 512 mod csz fs1" using csect_unat [OF geo] at(2) sh(3) by simp
    then have "unat csect < csz fs1" "unat (?btw div 512) < 2 ^ 24" using csz_pos(1) [OF geo1] n(2) q by simp_all
    from clip_count_unat [OF geo1 this] have c: "unat cc = min (length wbuff div 512) (csz fs1 - fpos fp div 512 mod csz fs1)"
      by (simp add: cc_def q cs)
    have "0 < unat cc" using True csz_pos(1) [OF geo1] by (simp add: c word_less_nat_alt q)
    moreover have "fpos fp div 512 mod csz fs1 + unat cc \<le> csz fs1"
      using mod_less_divisor [OF csz_pos(1) [OF geo1], of "fpos fp div 512"] by (simp add: c)
    moreover have "512 * unat cc \<le> length wbuff" unfolding c by simp
    ultimately obtain fp' fs' where dw: "f_write_direct wbuff s cc ?fp fs1 = Some ((FR_OK, Some (512 * cc), fp'), fs')"
        "unat (512 * cc) = 512 * unat cc" "vol fs'" "calm sectors fs1 fs' (file_area fs1 cs)" "entry sectors fs' = entry sectors fs1"
        "count_ok sectors fs' = count_ok sectors fs1" "written sectors cs fs1 ?fp (take (512 * unat cc) wbuff) fs' (f_advance (512 * cc) fp')"
      using f_write_direct_ok [OF w(2) geo1 w(6) clean _ _ cl pos1, of s cc wbuff] at(1) s(1) n(2) by auto
    have "calm sectors fs fs' (file_area fs cs)" using calm_trans [OF w(3) dw(4)] sh by (simp add: file_area_def)
    with dw orig [OF dw(7)] step True \<open>0 < unat cc\<close> \<open>512 * unat cc \<le> length wbuff\<close> w(4,5) show ?thesis by (simp flip: cc_def)
  next
    case False
    obtain fp2 fs2 where ld: "(if f_sect ?fp \<noteq> s \<and> f_fptr ?fp < obj_objsize (f_obj ?fp) then fil_fill s ?fp fs1 else Some ((FR_OK, ?fp), fs1)) =
          Some ((FR_OK, fp2), fs2)" "vol fs2" "calm sectors fs1 fs2 {}" "entry sectors fs2 = entry sectors fs1" "count_ok sectors fs2 = count_ok sectors fs1"
        "file_at sectors fs2 (fp2\<lparr>f_sect := s\<rparr>) cs" "keeps ?fp fp2" "f_clust fp2 = f_clust fp"
        "\<And>i. i < fsz fp \<Longrightarrow> file_byte sectors fs2 (fp2\<lparr>f_sect := s\<rparr>) cs i = file_byte sectors fs1 ?fp cs i"
      using f_write_load_ok [OF w(2) geo1 w(6) clean _ _ pos1(2), of s] s(1) at(1) by auto
    let ?fp2 = "fp2\<lparr>f_sect := s\<rparr>"
    note sh2 = shape_data [OF calm_shape [OF ld(3)]]
    have geo2: "data_ok (length (sectors (fs_dev fs2))) fs2" using geo1 sh2(5) calm_length [OF ld(3)] by simp
    have kp: "f_fptr fp2 = f_fptr fp" "f_obj fp2 = f_obj fp" "same_handle ?fp ?fp2" using ld(7) by (simp_all add: keeps_def same_handle_def)
    from f_write_part_ok [OF geo2 ld(6) _ _ _ _ n(1)] obtain wcnt fp' where pt: "f_write_part wbuff ?fp2 = (Some wcnt, fp')" "0 < unat wcnt"
        "unat wcnt \<le> length wbuff" "written sectors cs fs2 ?fp2 (take (unat wcnt) wbuff) fs2 (f_advance wcnt fp')"
      using s(1) at(3) pos n(2) kp ld(8) sh sh2 by auto
    have "written sectors cs fs1 ?fp (take (unat wcnt) wbuff) fs2 (f_advance wcnt fp')"
      by (rule written_from [OF pt(4)]) (use kp ld(9) pos(1) in simp_all)
    note out = orig [OF this]
    have "calm sectors fs fs2 (file_area fs cs)" by (rule calm_trans [OF w(3) ld(3)]) simp_all
    moreover have "f_write_sect wbuff csect fp fs = Some ((FR_OK, Some wcnt, fp'), fs2)" using step False ld(1) pt(1) by simp
    ultimately show ?thesis using out pt(2,3) ld(2,4,5) w(4,5) by simp
  qed
qed

end

end
