(* ===== verification/Mipos_Fat_Grow.thy ===== *)
theory Mipos_Fat_Grow
  imports Mipos_Fat_Write
begin

text \<open>
  Writing past the clusters of a file. At the start of a cluster \<^verbatim>\<open>f_write\<close> follows the chain, or has it extended by a free cluster;
  when none is left it stops. Around that stands the loop of the call: it writes everything it can, and
  what it takes from the free clusters is exactly what the file gained.
\<close>

subsection \<open>A table in which one chain has grown\<close>

definition grown :: "(nat \<Rightarrow> u32) \<Rightarrow> (nat \<Rightarrow> u32) \<Rightarrow> nat \<Rightarrow> nat list \<Rightarrow> nat list \<Rightarrow> bool" where
  "grown E E' n cs es \<longleftrightarrow> set es \<subseteq> free_set E n \<and> free_set E' n = free_set E n - set es \<and>
     (\<forall>ds. fat_chain E n ds \<longrightarrow> set ds \<inter> set cs = {} \<longrightarrow> fat_chain E' n ds)"

lemma grown_refl [simp]: "grown E E n cs []" by (simp add: grown_def)

lemma grown_trans:
  assumes "grown E E' n cs es" "grown E' E'' n (cs @ es) gs"
  shows "grown E E'' n cs (es @ gs)"
proof -
  have "set ds \<inter> set es = {}" if "fat_chain E n ds" for ds
    using fat_chain_elem [OF that] assms(1) by (fastforce simp: grown_def free_set_def)
  then have "fat_chain E'' n ds" if "fat_chain E n ds" "set ds \<inter> set cs = {}" for ds
    using that assms unfolding grown_def by (simp add: Int_Un_distrib)
  then show ?thesis using assms unfolding grown_def by auto
qed

text \<open>What allocation needs to know about the volume.\<close>

definition room :: "('s \<Rightarrow> octets list) \<Rightarrow> 's FATFS \<Rightarrow> bool" where
  "room sectors fs \<longleftrightarrow> sane (entry sectors fs) (unat (n_fatent fs)) \<and> count_ok sectors fs \<and>
     off_window fs (free_set (entry sectors fs) (unat (n_fatent fs)))"

lemma file_byte_append:
  assumes "data_ok len fs" "i < length cs * csz fs * 512"
  shows "file_byte sectors fs fp (cs @ ds) i = file_byte sectors fs fp cs i"
  using file_sector_append [OF csz_pos(1) [OF assms(1)], of "i div 512" cs ds] assms(2) by (simp add: file_byte_def less_mult_imp_div_less)

lemma written_trans:
  assumes geo: "data_ok len fs" "fs_shape fs1 = fs_shape fs" and w: "written sectors cs fs fp d fs1 fp1" "written sectors (cs @ es) fs1 fp1 e fs2 fp2"
    and pos: "fpos fp \<le> fsz fp"
  shows "written sectors (cs @ es) fs fp (d @ e) fs2 fp2"
proof -
  have geo1: "data_ok len fs1" and csz: "csize fs1 = csize fs" using geo shape_data [OF geo(2)] by auto
  have sz: "fsz fp1 = max (fsz fp) (fpos fp + length d)" "fpos fp1 = fpos fp + length d" "fsz fp1 \<le> length cs * csz fs * 512"
    using w(1) csz by (auto simp: written_def file_ok_def pos_ok_def)
  have "wrote (file_byte sectors fs1 fp1 (cs @ es)) (fpos fp1) e i = wrote (file_byte sectors fs fp (cs @ es)) (fpos fp) (d @ e) i"
    if i: "i < fsz fp2" for i
  proof (cases "i < fsz fp1")
    case True
    then have il: "i < length cs * csz fs * 512" using sz(3) by simp
    have "file_byte sectors fs1 fp1 (cs @ es) i = file_byte sectors fs1 fp1 cs i" using file_byte_append [OF geo1] il csz by simp
    also have "\<dots> = wrote (file_byte sectors fs fp cs) (fpos fp) d i" using w(1) True by (simp add: written_def)
    finally show ?thesis using file_byte_append [OF geo(1) il, of sectors fp es] sz(2)
      by (simp add: wrote_append [symmetric]) (simp add: wrote_def)
  next
    case False
    with i w(2) sz have "fpos fp + length d \<le> i \<and> i < fpos fp + length d + length e" by (auto simp: written_def)
    then show ?thesis using sz(2) by (simp add: wrote_append [symmetric]) (simp add: wrote_def)
  qed
  then show ?thesis using w sz(1,2) by (auto simp: written_def max_def intro: same_handle_trans)
qed

subsection \<open>The next cluster\<close>

context block_device
begin

lemma follow_chain_ok:
  assumes v: "vol fs" and geo: "data_ok (length (sectors (fs_dev fs))) fs" and fok: "file_at sectors fs fp cs" and cnt: "count_ok sectors fs"
    and c: "unat c = cs ! i" "Suc i < length cs"
  shows "\<exists>r fs'. get_fat c fs = Some (r, fs') \<and> unat r = cs ! Suc i \<and> 2 \<le> unat r \<and> unat r < unat (n_fatent fs) \<and> vol fs' \<and>
    calm sectors fs fs' {} \<and> entry sectors fs' = entry sectors fs \<and> count_ok sectors fs' \<and>
    (\<forall>k < length cs * csz fs. sectors (fs_dev fs') ! file_sector fs cs k = sectors (fs_dev fs) ! file_sector fs cs k)"
proof -
  have cl: "clusters_ok fs cs" by (rule file_at_clusters [OF fok])
  have ch: "fat_chain (entry sectors fs) (unat (n_fatent fs)) cs" using fok c(2) by (auto simp: file_at_def file_chain_def split: if_splits)
  have ci: "2 \<le> unat c" "unat c < unat (n_fatent fs)" "2 \<le> cs ! Suc i" "cs ! Suc i < unat (n_fatent fs)"
    using cl c by (simp_all add: clusters_ok_def)
  let ?r = "entry sectors fs (unat c)"
  have r: "unat ?r = cs ! Suc i" using fat_chain_next [OF ch c(2)] c(1) by simp
  obtain fs' where g: "get_fat c fs = Some (?r, fs')" "vol fs'" "calm sectors fs fs' {}" "entry sectors fs' = entry sectors fs"
      "\<forall>k < length cs * csz fs. sectors (fs_dev fs') ! file_sector fs cs k = sectors (fs_dev fs) ! file_sector fs cs k"
    using get_fat_file [OF v geo fok ci(1,2)] by blast
  have "free_clst fs' = free_clst fs"
    using get_fat_entry [OF v _ ci(1,2)] g(1) geo rewound_simps(6) [OF same_view_rewound] by (auto simp: data_ok_def table_place_def)
  then have "count_ok sectors fs'" using cnt shape_data(4) [OF calm_shape [OF g(3)]] g(4) by (simp add: count_ok_def)
  with r ci g show ?thesis by metis
qed

lemma next_cluster_ok:
  assumes v: "vol fs" and geo: "data_ok (length (sectors (fs_dev fs))) fs" and fok: "file_at sectors fs fp cs" and cnt: "count_ok sectors fs"
    and c: "unat c = cs ! i" "Suc i < length cs"
  shows "\<exists>r fs'. create_chain c fs = Some (r, fs') \<and> unat r = cs ! Suc i \<and> vol fs' \<and> calm sectors fs fs' {} \<and>
    entry sectors fs' = entry sectors fs \<and> count_ok sectors fs' \<and>
    (\<forall>k < length cs * csz fs. sectors (fs_dev fs') ! file_sector fs cs k = sectors (fs_dev fs) ! file_sector fs cs k)"
proof -
  from follow_chain_ok [OF assms] obtain r fs' where g: "get_fat c fs = Some (r, fs')" "unat r = cs ! Suc i" "2 \<le> unat r"
      "unat r < unat (n_fatent fs)" "vol fs'" "calm sectors fs fs' {}" "entry sectors fs' = entry sectors fs" "count_ok sectors fs'"
      "\<forall>k < length cs * csz fs. sectors (fs_dev fs') ! file_sector fs cs k = sectors (fs_dev fs) ! file_sector fs cs k" by blast
  have "2 \<le> cs ! i" using c(2) file_at_clusters [OF fok] by (simp add: clusters_ok_def)
  then have "c \<noteq> 0" using c(1) by auto
  moreover have "\<not> r < 2" "r \<noteq> 0xFFFFFFFF" "r < n_fatent fs'"
    using g(3,4) shape_data(4) [OF calm_shape [OF g(6)]] u32_below [of "n_fatent fs"] by (auto simp: word_less_nat_alt)
  ultimately have "create_chain c fs = Some (r, fs')" using g(1) by (simp add: create_chain_def chain_start_def)
  with g show ?thesis by blast
qed

lemma new_cluster_ok:
  assumes v: "vol fs" and geo: "data_ok (length (sectors (fs_dev fs))) fs" and fok: "file_at sectors fs fp cs" and rm: "room sectors fs"
    and c: "cs = [] \<and> unat c = 0 \<or> cs \<noteq> [] \<and> last cs = unat c"
    and E: "E = entry sectors fs" "n = unat (n_fatent fs)"
  shows "\<exists>r fs'. create_chain c fs = Some (r, fs') \<and> vol fs' \<and> calm sectors fs fs' {} \<and> room sectors fs' \<and>
    (\<forall>k < length cs * csz fs. sectors (fs_dev fs') ! file_sector fs cs k = sectors (fs_dev fs) ! file_sector fs cs k) \<and>
    (if free_set E n = {} then r = 0 \<and> entry sectors fs' = E
     else unat r \<in> free_set E n \<and> fat_chain (entry sectors fs') n (cs @ [unat r]) \<and> grown E (entry sectors fs') n cs [unat r] \<and>
       off_window fs' (set (cs @ [unat r])))"
proof -
  have tp: "table_place fs" "table_ok fs" using geo by (auto simp: data_ok_def table_place_def)
  have sc: "sane E n" "count_ok sectors fs" "off_window fs (free_set E n)" using rm by (simp_all add: room_def E)
  have tail: "cs = [] \<and> unat c = 0 \<or> fat_chain E n cs \<and> last cs = unat c"
    using c fok E by (auto simp: file_at_def file_chain_def)
  note ext = fat_chain_extensible [OF tail]
  obtain r fs' where r: "create_chain c fs = Some (r, fs')" "vol fs'" "table_only sectors fs fs'" "count_ok sectors fs'"
      "if free_set E n = {} then r = 0 \<and> entry sectors fs' = E
       else unat r \<in> free_set E n \<and> entry sectors fs' = linked (fs_type fs) (unat c) (unat r) E"
    using create_chain_ok [OF v tp(2) _ sc(2), of c] sc(1) ext E by auto
  have st: "stays fs fs'" by (rule create_chain_stays [OF tp(1) r(1)])
  have calm: "calm sectors fs fs' {}" by (rule calm_table [OF st r(3)])
  note sh = shape_data [OF calm_shape [OF calm]]
  have kept: "sectors (fs_dev fs') ! file_sector fs cs k = sectors (fs_dev fs) ! file_sector fs cs k" if k: "k < length cs * csz fs" for k
  proof -
    note ra = file_sector_range [OF geo file_at_clusters [OF fok] k]
    have "file_sector fs cs k < 2 ^ 32 - 1" using ra(1) geo by (simp add: data_ok_def)
    with device_kept(1) [OF st r(3) ra(1,2)] off_window_sector [OF geo _ k] fok show ?thesis by (simp add: file_at_def)
  qed
  have off: "off_window fs' C" if "off_window fs C" "\<And>c. c \<in> C \<Longrightarrow> 2 \<le> c \<and> c < n" for C
    by (rule calm_off_window [OF calm geo that(1)]) (use that(2) E in simp)
  have offF: "off_window fs' (free_set E n)" by (rule off [OF sc(3)]) (simp add: free_set_def)
  show ?thesis
  proof (cases "free_set E n = {}")
    case True
    then have "room sectors fs'" using r(4,5) sc(1) offF sh(4) E by (simp add: room_def)
    with True r calm kept show ?thesis by auto
  next
    case False
    then have u: "unat r \<in> free_set E n" "entry sectors fs' = linked (fs_type fs) (unat c) (unat r) E" using r(5) by auto
    have eoc: "n \<le> unat (eoc (fs_type fs))" using eoc_end(1) [OF tp(2)] E by simp
    have n: "n < 2 ^ 32" using u32_below E by simp
    note lc = linked_chains [OF u(1) tail sc(1) eoc n, folded u(2)]
    have fr: "free_set (entry sectors fs') n = free_set E n - {unat r}" using free_set_linked [OF u(1) ext n] u(2) by simp
    have "off_window fs' (set cs)" by (rule off) (use fok file_at_clusters [OF fok] E in \<open>auto simp: file_at_def clusters_ok_def\<close>)
    then have "off_window fs' (set (cs @ [unat r]))" using offF u(1) by (simp add: off_window_def)
    moreover have "room sectors fs'" using r(4) lc(2) offF fr sh(4) E by (simp add: room_def off_window_def)
    moreover have "unat c \<notin> set ds" if "fat_chain E n ds" "set ds \<inter> set cs = {}" for ds
      using c last_in_set [of cs] fat_chain_elem [OF that(1), of 0] that(2) by (metis disjoint_iff not_numeral_le_zero)
    then have "grown E (entry sectors fs') n cs [unat r]" using u(1) fr lc(3) by (auto simp: grown_def)
    ultimately show ?thesis using False r calm kept u(1) lc(1) by auto
  qed
qed

text \<open>The file with a cluster more.\<close>

lemma file_extended:
  assumes geo: "data_ok (length (sectors (fs_dev fs))) fs" and fok: "file_at sectors fs fp cs" and calm: "calm sectors fs fs' {}"
    and kept: "\<And>k. k < length cs * csz fs \<Longrightarrow> sectors (fs_dev fs') ! file_sector fs cs k = sectors (fs_dev fs) ! file_sector fs cs k"
    and ch: "fat_chain (entry sectors fs') (unat (n_fatent fs)) (cs @ es)" "off_window fs' (set (cs @ es))" "unat (obj_sclust (f_obj fp')) = hd (cs @ es)"
    and fp': "f_buf fp' = f_buf fp" "f_sect fp' = f_sect fp" "f_flag fp' = f_flag fp" "fsz fp' = fsz fp"
  shows "file_at sectors fs' fp' (cs @ es)" "i < fsz fp \<Longrightarrow> file_byte sectors fs' fp' (cs @ es) i = file_byte sectors fs fp cs i"
proof -
  note sh = shape_data [OF calm_shape [OF calm]] and csz = csz_pos(1) [OF geo]
  have size: "fsz fp \<le> length cs * csz fs * 512" using fok by (simp add: file_at_def)
  have same: "file_byte sectors fs' fp' ds j = file_byte sectors fs' fp ds j" for ds j using fp' by (simp add: file_byte_def eff_def)
  show byte: "file_byte sectors fs' fp' (cs @ es) i = file_byte sectors fs fp cs i" if "i < fsz fp" for i
  proof -
    have il: "i < length cs * csz fs * 512" using that size by simp
    have "data_ok (length (sectors (fs_dev fs))) fs'" using geo sh(5) by simp
    from file_byte_append [OF this, of i cs] il sh(3) have "file_byte sectors fs' fp' (cs @ es) i = file_byte sectors fs' fp' cs i" by simp
    also have "\<dots> = file_byte sectors fs' fp cs i" by (rule same)
    also have "\<dots> = file_byte sectors fs fp cs i" by (rule file_bytes_kept [OF calm_shape [OF calm] kept il])
    finally show ?thesis .
  qed
  have app: "file_sector fs (cs @ es) k = file_sector fs cs k" if "k < length cs * csz fs" for k by (rule file_sector_append [OF csz that])
  have "cache_ok sectors fs' fp' (cs @ es)" unfolding cache_ok_def
  proof (intro conjI impI allI)
    show "length (f_buf fp') = 512" using fok fp'(1) by (simp add: file_at_def cache_ok_def)
    assume "dirty fp'"
    then obtain k where "k < length cs * csz fs" "unat (f_sect fp) = file_sector fs cs k" using fok fp'(3) by (auto simp: file_at_def cache_ok_def)
    then show "\<exists>k < length (cs @ es) * csz fs'. unat (f_sect fp') = file_sector fs' (cs @ es) k"
      using app fp'(2) sh by (intro exI [of _ k]) (simp add: algebra_simps)
  next
    fix i assume i: "i < fsz fp'" "file_sector fs' (cs @ es) (i div 512) = unat (f_sect fp')"
    then have "i div 512 < length cs * csz fs" using size fp'(4) by (simp add: less_mult_imp_div_less)
    from app [OF this] i fok fp' sh byte show "f_buf fp' ! (i mod 512) = file_byte sectors fs' fp' (cs @ es) i"
      by (simp add: file_at_def cache_ok_def)
  qed
  moreover have "cs @ es \<noteq> []" using ch(1) by auto
  ultimately show "file_at sectors fs' fp' (cs @ es)" using ch sh size fp'(4) by (auto simp: file_at_def file_chain_def algebra_simps)
qed

text \<open>Where the cluster of the position stands in the chain of the file.\<close>

lemma cluster_index:
  assumes geo: "data_ok (length (sectors (fs_dev fs))) fs" and fok: "file_ok sectors fs fp cs"
    and at: "fpos fp mod (csz fs * 512) = 0" and q: "q = fpos fp div (csz fs * 512)"
  shows "fpos fp = q * (csz fs * 512)" "q \<le> length cs" "0 < q \<Longrightarrow> unat (f_clust fp) = cs ! (q - 1)" "f_fptr fp = 0 \<longleftrightarrow> q = 0"
    "cs \<noteq> [] \<Longrightarrow> unat (obj_sclust (f_obj fp)) = cs ! 0" "cs = [] \<Longrightarrow> obj_sclust (f_obj fp) = 0"
    "i < length cs \<Longrightarrow> unat (c :: u32) = cs ! i \<Longrightarrow> c \<noteq> 0 \<and> c \<noteq> 1 \<and> c \<noteq> 0xFFFFFFFF"
proof -
  let ?b = "csz fs * 512"
  have fat: "file_at sectors fs fp cs" and pos: "pos_ok fs fp cs" using fok by (simp_all add: file_ok_at)
  have b: "0 < ?b" using csz_pos(1) [OF geo] by simp
  show p: "fpos fp = q * ?b" using at mult_div_mod_eq [of ?b "fpos fp"] q by (simp add: mult.commute)
  have "fpos fp \<le> length cs * ?b" using pos by (auto simp: pos_ok_def mult.assoc)
  then show "q \<le> length cs" using b p by simp
  show "unat (f_clust fp) = cs ! (q - 1)" if "0 < q"
    using pos pred_div_mult [OF at] that q by (cases "fpos fp") (auto simp: pos_ok_def)
  have "fpos fp = 0 \<longleftrightarrow> q = 0" using p b by simp
  then show "f_fptr fp = 0 \<longleftrightarrow> q = 0" by (auto simp: word_unat_eq_iff)
  show "cs \<noteq> [] \<Longrightarrow> unat (obj_sclust (f_obj fp)) = cs ! 0" "cs = [] \<Longrightarrow> obj_sclust (f_obj fp) = 0"
    using fat by (simp_all add: file_at_def file_chain_def hd_conv_nth)
  assume c: "i < length cs" "unat c = cs ! i"
  then have "2 \<le> unat c" "unat c < unat (n_fatent fs)" using file_at_clusters [OF fat] by (simp_all add: clusters_ok_def)
  then show "c \<noteq> 0 \<and> c \<noteq> 1 \<and> c \<noteq> 0xFFFFFFFF" using u32_below [of "n_fatent fs"] by auto
qed

lemma room_calm:
  assumes "data_ok (length (sectors (fs_dev fs))) fs" "room sectors fs" "calm sectors fs fs' S" "entry sectors fs' = entry sectors fs" "count_ok sectors fs'"
  shows "room sectors fs'"
proof -
  have "off_window fs' (free_set (entry sectors fs) (unat (n_fatent fs)))"
    by (rule calm_off_window [OF assms(3,1)]) (use assms(2) in \<open>auto simp: room_def free_set_def\<close>)
  with assms(2,4,5) shape_data(4) [OF calm_shape [OF assms(3)]] show ?thesis by (simp add: room_def)
qed

lemma f_write_inside:
  assumes v: "vol fs" and geo: "data_ok (length (sectors (fs_dev fs))) fs" and fok: "file_ok sectors fs fp cs" and rm: "room sectors fs"
    and at: "fpos fp mod (csz fs * 512) = 0" and q: "q = fpos fp div (csz fs * 512)" "q < length cs"
  shows "\<exists>c fs'. f_write_clust fp fs = Some ((Inr c, fp\<lparr>f_clust := c\<rparr>), fs') \<and> c \<noteq> 0 \<and> unat c = cs ! q \<and> vol fs' \<and> calm sectors fs fs' {} \<and>
    room sectors fs' \<and> entry sectors fs' = entry sectors fs \<and> file_at sectors fs' fp cs \<and>
    (\<forall>i < fsz fp. file_byte sectors fs' fp cs i = file_byte sectors fs fp cs i)"
proof -
  note ix = cluster_index [OF geo fok at q(1)]
  have fat: "file_at sectors fs fp cs" using fok by (simp add: file_ok_at)
  have cnt: "count_ok sectors fs" using rm by (simp add: room_def)
  have sc: "obj_sclust (f_obj fp) \<noteq> 0" using ix(7) [of 0 "obj_sclust (f_obj fp)"] ix(5) q(2) by (cases cs) auto
  have "\<exists>c fs'. (if f_fptr fp = 0 then if obj_sclust (f_obj fp) = 0 then create_chain 0 fs else Some (obj_sclust (f_obj fp), fs)
      else create_chain (f_clust fp) fs) = Some (c, fs') \<and> unat c = cs ! q \<and> vol fs' \<and> calm sectors fs fs' {} \<and>
    entry sectors fs' = entry sectors fs \<and> count_ok sectors fs' \<and>
    (\<forall>k < length cs * csz fs. sectors (fs_dev fs') ! file_sector fs cs k = sectors (fs_dev fs) ! file_sector fs cs k)"
  proof (cases "q = 0")
    case True
    then show ?thesis using sc ix(4,5) q(2) v cnt by auto
  next
    case False
    with next_cluster_ok [OF v geo fat cnt, of "f_clust fp" "q - 1"] ix(3,4) q(2) show ?thesis by auto
  qed
  then obtain c fs' where c: "(if f_fptr fp = 0 then if obj_sclust (f_obj fp) = 0 then create_chain 0 fs else Some (obj_sclust (f_obj fp), fs)
      else create_chain (f_clust fp) fs) = Some (c, fs')" "unat c = cs ! q" "vol fs'" "calm sectors fs fs' {}" "entry sectors fs' = entry sectors fs"
      "count_ok sectors fs'" "\<And>k. k < length cs * csz fs \<Longrightarrow> sectors (fs_dev fs') ! file_sector fs cs k = sectors (fs_dev fs) ! file_sector fs cs k" by blast
  have "f_write_clust fp fs = Some ((Inr c, fp\<lparr>f_clust := c\<rparr>), fs')" unfolding f_write_clust_def c(1) using ix(7) [OF q(2) c(2)] sc by simp
  with c ix(7) [OF q(2) c(2)] file_kept(1,2) [OF geo fat c(4,5) c(7)] room_calm [OF geo rm c(4-6)] show ?thesis by blast
qed

lemma f_write_new:
  assumes v: "vol fs" and geo: "data_ok (length (sectors (fs_dev fs))) fs" and fok: "file_ok sectors fs fp cs" and rm: "room sectors fs"
    and at: "fpos fp = length cs * (csz fs * 512)" and E: "E = entry sectors fs" "n = unat (n_fatent fs)"
  shows "\<exists>c es fp' fs'. f_write_clust fp fs = Some ((Inr c, fp'), fs') \<and> vol fs' \<and> calm sectors fs fs' {} \<and> room sectors fs' \<and>
    grown E (entry sectors fs') n cs es \<and> file_at sectors fs' fp' (cs @ es) \<and> same_handle fp fp' \<and> f_fptr fp' = f_fptr fp \<and> fsz fp' = fsz fp \<and>
    (\<forall>i < fsz fp. file_byte sectors fs' fp' (cs @ es) i = file_byte sectors fs fp cs i) \<and>
    (if c = 0 then es = [] \<and> fp' = fp \<and> free_set E n = {} else es = [unat c] \<and> f_clust fp' = c)"
proof -
  have b: "0 < csz fs * 512" using csz_pos(1) [OF geo] by simp
  have "fpos fp mod (csz fs * 512) = 0" "length cs = fpos fp div (csz fs * 512)" using at b by simp_all
  note ix = cluster_index [OF geo fok this]
  have fat: "file_at sectors fs fp cs" using fok by (simp add: file_ok_at)
  define c0 where "c0 = (if cs = [] then 0 else f_clust fp)"
  have c0: "cs = [] \<and> unat c0 = 0 \<or> cs \<noteq> [] \<and> last cs = unat c0" using ix(3) by (auto simp: c0_def last_conv_nth)
  obtain r fs' where r: "create_chain c0 fs = Some (r, fs')" "vol fs'" "calm sectors fs fs' {}" "room sectors fs'"
      "\<And>k. k < length cs * csz fs \<Longrightarrow> sectors (fs_dev fs') ! file_sector fs cs k = sectors (fs_dev fs) ! file_sector fs cs k"
      "if free_set E n = {} then r = 0 \<and> entry sectors fs' = E
       else unat r \<in> free_set E n \<and> fat_chain (entry sectors fs') n (cs @ [unat r]) \<and> grown E (entry sectors fs') n cs [unat r] \<and>
         off_window fs' (set (cs @ [unat r]))"
    using new_cluster_ok [OF v geo fat rm c0 E] by blast
  have start: "(if f_fptr fp = 0 then if obj_sclust (f_obj fp) = 0 then create_chain 0 fs else Some (obj_sclust (f_obj fp), fs)
      else create_chain (f_clust fp) fs) = Some (r, fs')"
    using r(1) ix(4,6) by (auto simp: c0_def)
  show ?thesis
  proof (cases "free_set E n = {}")
    case True
    then have "f_write_clust fp fs = Some ((Inr 0, fp), fs')" unfolding f_write_clust_def start using r(6) by simp
    with True r(2-4,6) E file_kept(1,2) [OF geo fat r(3) _ r(5)] show ?thesis by (intro exI [of _ 0] exI [of _ "[]"]) auto
  next
    case False
    then have u: "unat r \<in> free_set E n" "fat_chain (entry sectors fs') n (cs @ [unat r])" "grown E (entry sectors fs') n cs [unat r]"
      "off_window fs' (set (cs @ [unat r]))" using r(6) by auto
    then have "r \<noteq> 0 \<and> r \<noteq> 1 \<and> r \<noteq> 0xFFFFFFFF" using u32_below [of "n_fatent fs"] E by (auto simp: free_set_def)
    define fp' where "fp' = (if obj_sclust (f_obj fp) = 0 then fil_set_sclust r (fp\<lparr>f_clust := r\<rparr>) else fp\<lparr>f_clust := r\<rparr>)"
    have run: "f_write_clust fp fs = Some ((Inr r, fp'), fs')" unfolding f_write_clust_def start
      using \<open>r \<noteq> 0 \<and> r \<noteq> 1 \<and> r \<noteq> 0xFFFFFFFF\<close> by (simp add: fp'_def)
    have sc: "cs \<noteq> [] \<Longrightarrow> obj_sclust (f_obj fp) \<noteq> 0" using ix(7) [of 0 "obj_sclust (f_obj fp)"] ix(5) by auto
    have hd: "unat (obj_sclust (f_obj fp')) = hd (cs @ [unat r])"
      using sc ix(5,6) by (cases "cs = []") (auto simp: fp'_def fil_set_sclust_def hd_append hd_conv_nth)
    have same: "f_buf fp' = f_buf fp" "f_sect fp' = f_sect fp" "f_flag fp' = f_flag fp" "fsz fp' = fsz fp" "f_clust fp' = r"
      "f_fptr fp' = f_fptr fp" "same_handle fp fp'" by (simp_all add: fp'_def fil_set_sclust_def same_handle_def)
    have "fat_chain (entry sectors fs') (unat (n_fatent fs)) (cs @ [unat r])" using u(2) E by simp
    note ex = file_extended [OF geo fat r(3) r(5) this u(4) hd same(1-4)]
    show ?thesis using run r(2-4) u(3) ex same(4-7) \<open>r \<noteq> 0 \<and> r \<noteq> 1 \<and> r \<noteq> 0xFFFFFFFF\<close> by (intro exI [of _ r] exI [of _ "[unat r]"]) auto
  qed
qed

lemma f_write_clust_ok:
  assumes v: "vol fs" and geo: "data_ok (length (sectors (fs_dev fs))) fs" and fok: "file_ok sectors fs fp cs" and rm: "room sectors fs"
    and at: "fpos fp mod (csz fs * 512) = 0" and E: "E = entry sectors fs" "n = unat (n_fatent fs)"
  shows "\<exists>c es fp' fs'. f_write_clust fp fs = Some ((Inr c, fp'), fs') \<and> vol fs' \<and> calm sectors fs fs' {} \<and> room sectors fs' \<and>
    grown E (entry sectors fs') n cs es \<and> file_at sectors fs' fp' (cs @ es) \<and> same_handle fp fp' \<and> f_fptr fp' = f_fptr fp \<and> fsz fp' = fsz fp \<and>
    (\<forall>i < fsz fp. file_byte sectors fs' fp' (cs @ es) i = file_byte sectors fs fp cs i) \<and>
    (if c = 0 then es = [] \<and> fp' = fp \<and> free_set E n = {}
     else unat (f_clust fp') = (cs @ es) ! (fpos fp div (csz fs * 512)) \<and> fpos fp < length (cs @ es) * (csz fs * 512))"
proof -
  define q where "q = fpos fp div (csz fs * 512)"
  note ix = cluster_index [OF geo fok at q_def]
  have b: "0 < csz fs * 512" using csz_pos(1) [OF geo] by simp
  show ?thesis
  proof (cases "q < length cs")
    case True
    from f_write_inside [OF v geo fok rm at q_def True] obtain c fs' where
        c: "f_write_clust fp fs = Some ((Inr c, fp\<lparr>f_clust := c\<rparr>), fs')" "c \<noteq> 0" "unat c = cs ! q" "vol fs'" "calm sectors fs fs' {}"
        "room sectors fs'" "entry sectors fs' = entry sectors fs" "file_at sectors fs' fp cs"
        "\<forall>i < fsz fp. file_byte sectors fs' fp cs i = file_byte sectors fs fp cs i" by blast
    have "fpos fp < length cs * (csz fs * 512)" using True ix(1) b by simp
    with c E show ?thesis
      by (intro exI [of _ c] exI [of _ "[]"] exI [of _ "fp\<lparr>f_clust := c\<rparr>"] exI [of _ fs']) (simp add: same_handle_def flip: q_def)
  next
    case False
    then have q: "q = length cs" using ix(2) by simp
    then have p: "fpos fp = length cs * (csz fs * 512)" using ix(1) by simp
    from f_write_new [OF v geo fok rm p E] obtain c es fp' fs' where
        c: "f_write_clust fp fs = Some ((Inr c, fp'), fs')" "vol fs'" "calm sectors fs fs' {}" "room sectors fs'" "grown E (entry sectors fs') n cs es"
        "file_at sectors fs' fp' (cs @ es)" "same_handle fp fp'" "f_fptr fp' = f_fptr fp" "fsz fp' = fsz fp"
        "\<forall>i < fsz fp. file_byte sectors fs' fp' (cs @ es) i = file_byte sectors fs fp cs i"
        "if c = 0 then es = [] \<and> fp' = fp \<and> free_set E n = {} else es = [unat c] \<and> f_clust fp' = c" by blast
    then have "if c = 0 then es = [] \<and> fp' = fp \<and> free_set E n = {} else unat (f_clust fp') = (cs @ es) ! q \<and> fpos fp < length (cs @ es) * (csz fs * 512)"
      using p q b by (simp add: nth_append)
    with c(1-10) show ?thesis unfolding q_def by blast
  qed
qed

subsection \<open>The loop\<close>

text \<open>Inside a cluster the file already stands on it.\<close>

lemma inside_cluster:
  assumes "file_ok sectors fs fp cs" "fpos fp mod (csz fs * 512) \<noteq> 0"
  shows "unat (f_clust fp) = cs ! (fpos fp div (csz fs * 512))" "fpos fp < length cs * (csz fs * 512)"
proof -
  have pos: "pos_ok fs fp cs" using assms(1) by (simp add: file_ok_at)
  show "unat (f_clust fp) = cs ! (fpos fp div (csz fs * 512))"
    using pos pred_div [OF assms(2)] assms(2) by (cases "fpos fp") (auto simp: pos_ok_def)
  have "fpos fp \<le> length cs * (csz fs * 512)" using pos by (auto simp: pos_ok_def mult.assoc)
  moreover have "fpos fp \<noteq> length cs * (csz fs * 512)" using assms(2) by (metis mod_mult_self2_is_0)
  ultimately show "fpos fp < length cs * (csz fs * 512)" by linarith
qed

text \<open>A turn at the start of a cluster.\<close>

lemma f_write_boundary_ok:
  assumes v: "vol fs" and geo: "data_ok (length (sectors (fs_dev fs))) fs" and fok: "file_ok sectors fs fp cs" and rm: "room sectors fs"
    and at: "fpos fp mod (csz fs * 512) = 0" "csect_of fp fs = 0"
    and n: "wbuff \<noteq> []" "fpos fp + length wbuff < 2 ^ 32" and E: "E = entry sectors fs" "N = unat (n_fatent fs)"
  shows "\<exists>cnt es fp' fs'. do {
          ((s, fp1), fs1) \<leftarrow> f_write_clust fp fs;
          (case s of
             Inl e \<Rightarrow> Some ((e, None, fp1), fs1)
           | Inr clst \<Rightarrow> if clst = 0 then Some ((FR_OK, None, fp1), fs1) else f_write_sect wbuff 0 fp1 fs1)
        } = Some ((FR_OK, cnt, fp'), fs') \<and> vol fs' \<and> calm sectors fs fs' (file_area fs (cs @ es)) \<and>
    room sectors fs' \<and> grown E (entry sectors fs') N cs es \<and>
    (case cnt of None \<Rightarrow> es = [] \<and> free_set E N = {} \<and> written sectors cs fs fp [] fs' fp'
     | Some w \<Rightarrow> 0 < unat w \<and> unat w \<le> length wbuff \<and> written sectors (cs @ es) fs fp (take (unat w) wbuff) fs' (f_advance w fp'))"
proof -
  have pos: "pos_ok fs fp cs" and ps: "fpos fp \<le> fsz fp" using fok by (simp_all add: file_ok_at pos_ok_def)
  obtain c es fp1 fs1 where cl: "f_write_clust fp fs = Some ((Inr c, fp1), fs1)" "vol fs1" "calm sectors fs fs1 {}" "room sectors fs1"
      "grown E (entry sectors fs1) N cs es" "file_at sectors fs1 fp1 (cs @ es)" "same_handle fp fp1" "f_fptr fp1 = f_fptr fp" "fsz fp1 = fsz fp"
      "\<And>i. i < fsz fp \<Longrightarrow> file_byte sectors fs1 fp1 (cs @ es) i = file_byte sectors fs fp cs i"
      "if c = 0 then es = [] \<and> fp1 = fp \<and> free_set E N = {}
       else unat (f_clust fp1) = (cs @ es) ! (fpos fp div (csz fs * 512)) \<and> fpos fp < length (cs @ es) * (csz fs * 512)"
    using f_write_clust_ok [OF v geo fok rm at(1) E] by blast
  note sh = shape_data [OF calm_shape [OF cl(3)]]
  have geo1: "data_ok (length (sectors (fs_dev fs1))) fs1" using geo sh(5) calm_length [OF cl(3)] by simp
  show ?thesis
  proof (cases "c = 0")
    case True
    then have e: "es = []" "fp1 = fp" "free_set E N = {}" using cl(11) by auto
    have "pos_ok fs1 fp cs" using pos sh by (simp add: pos_ok_def)
    then have "written sectors cs fs fp [] fs1 fp" using cl(6,10) e ps by (auto simp: written_def file_ok_at wrote_def)
    moreover have "calm sectors fs fs1 (file_area fs (cs @ es))" by (rule calm_trans [OF cl(3) calm_refl [of _ "{}"]]) simp_all
    ultimately show ?thesis using True cl(1-5) e by (intro exI [of _ None] exI [of _ "[]"] exI [of _ fp] exI [of _ fs1]) simp
  next
    case False
    have cs0: "0 = csect_of fp1 fs1" using at(2) cl(8) sh(3) by (simp add: csect_of_def)
    have "fpos fp1 mod 512 = 0" using at(1) cl(8) by (metis mod_mult_self3 mod_mod_cancel dvd_triv_right mod_0)
    from f_write_sect_ok [OF cl(2) geo1 cl(6) this cs0 _ _ _ n(1)] False cl(8,9,11) sh(3) n(2) ps
    obtain w fp' fs' where s: "f_write_sect wbuff 0 fp1 fs1 = Some ((FR_OK, Some w, fp'), fs')" "0 < unat w" "unat w \<le> length wbuff"
        "vol fs'" "calm sectors fs1 fs' (file_area fs1 (cs @ es))" "entry sectors fs' = entry sectors fs1" "count_ok sectors fs' = count_ok sectors fs1"
        "written sectors (cs @ es) fs1 fp1 (take (unat w) wbuff) fs' (f_advance w fp')" by auto
    have "room sectors fs'" by (rule room_calm [OF geo1 cl(4) s(5,6)]) (use s(7) cl(4) in \<open>simp add: room_def\<close>)
    moreover have "calm sectors fs fs' (file_area fs (cs @ es))" using calm_trans [OF cl(3) s(5)] sh by (simp add: file_area_def)
    moreover have "fsz fp \<le> length cs * csz fs * 512" using pos by (simp add: pos_ok_def)
    then have "file_byte sectors fs1 fp1 (cs @ es) i = file_byte sectors fs fp (cs @ es) i" if "i < fsz fp" for i
      using cl(10) [OF that] file_byte_append [OF geo, of i cs] that by simp
    with written_from [OF s(8) cl(7-9) ps] have "written sectors (cs @ es) fs fp (take (unat w) wbuff) fs' (f_advance w fp')" by blast
    ultimately show ?thesis using False cl(1,5) s(1-4,6)
      by (intro exI [of _ "Some w"] exI [of _ es] exI [of _ fp'] exI [of _ fs']) simp
  qed
qed

lemma f_write_step_ok:
  assumes v: "vol fs" and geo: "data_ok (length (sectors (fs_dev fs))) fs" and fok: "file_ok sectors fs fp cs" and rm: "room sectors fs"
    and n: "wbuff \<noteq> []" "fpos fp + length wbuff < 2 ^ 32" and E: "E = entry sectors fs" "N = unat (n_fatent fs)"
  shows "\<exists>cnt es fp' fs'. f_write_step wbuff fp fs = Some ((FR_OK, cnt, fp'), fs') \<and> vol fs' \<and> calm sectors fs fs' (file_area fs (cs @ es)) \<and>
    room sectors fs' \<and> grown E (entry sectors fs') N cs es \<and>
    (case cnt of None \<Rightarrow> es = [] \<and> free_set E N = {} \<and> written sectors cs fs fp [] fs' fp'
     | Some w \<Rightarrow> 0 < unat w \<and> unat w \<le> length wbuff \<and> written sectors (cs @ es) fs fp (take (unat w) wbuff) fs' (f_advance w fp'))"
proof -
  have fat: "file_at sectors fs fp cs" and pos: "pos_ok fs fp cs" using fok by (simp_all add: file_ok_at)
  have ps: "fpos fp \<le> fsz fp" using pos by (simp add: pos_ok_def)
  have md: "fpos fp mod (csz fs * 512) = 512 * (fpos fp div 512 mod csz fs) + fpos fp mod 512" by (simp add: mult.commute [of "csz fs"] mod_mult2_eq)
  have cs: "unat (csect_of fp fs) = fpos fp div 512 mod csz fs" by (rule csect_unat [OF geo])
  consider "fpos fp mod 512 \<noteq> 0" | "fpos fp mod 512 = 0" "csect_of fp fs \<noteq> 0" | "fpos fp mod 512 = 0" "csect_of fp fs = 0" by blast
  then show ?thesis
  proof cases
    case 1
    then have "fpos fp mod (csz fs * 512) \<noteq> 0" using md by simp
    note ic = inside_cluster [OF fok this]
    have "unat (f_sect fp) = file_sector fs cs (fpos fp div 512)" using pos 1 by (simp add: pos_ok_def)
    from f_write_part_ok [OF geo fat this ic(1) ps ic(2) n] show ?thesis using 1 v rm E
      by (fastforce simp: f_write_step_def unat_fptr_mod intro: exI [of _ "[]"])
  next
    case 2
    then have "fpos fp mod (csz fs * 512) \<noteq> 0" using md cs by (auto simp: word_unat_eq_iff)
    note ic = inside_cluster [OF fok this]
    obtain w fp' fs' where s: "f_write_sect wbuff (csect_of fp fs) fp fs = Some ((FR_OK, Some w, fp'), fs')" "0 < unat w" "unat w \<le> length wbuff"
        "vol fs'" "calm sectors fs fs' (file_area fs cs)" "entry sectors fs' = entry sectors fs" "count_ok sectors fs' = count_ok sectors fs"
        "written sectors cs fs fp (take (unat w) wbuff) fs' (f_advance w fp')"
      using f_write_sect_ok [OF v geo fat 2(1) refl ic(1) ps ic(2) n] by blast
    have "room sectors fs'" by (rule room_calm [OF geo rm s(5,6)]) (use s(7) rm in \<open>simp add: room_def\<close>)
    with s 2 E show ?thesis by (intro exI [of _ "Some w"] exI [of _ "[]"]) (simp add: f_write_step_def unat_fptr_mod Let_def)
  next
    case 3
    then have "fpos fp mod (csz fs * 512) = 0" using md cs by simp
    from f_write_boundary_ok [OF v geo fok rm this _ n E] 3 show ?thesis by (simp add: f_write_step_def unat_fptr_mod Let_def)
  qed
qed

lemma file_area_append: "0 < csz fs \<Longrightarrow> file_area fs cs \<subseteq> file_area fs (cs @ ds)"
proof
  fix m assume c: "0 < csz fs" and m: "m \<in> file_area fs cs"
  then obtain k where k: "k < length cs * csz fs" "m = file_sector fs cs k" by (auto simp: file_area_def)
  then have "k < length (cs @ ds) * csz fs" "m = file_sector fs (cs @ ds) k" using file_sector_append [OF c k(1), of ds] by (simp_all add: algebra_simps)
  then show "m \<in> file_area fs (cs @ ds)" by (simp add: in_area)
qed

lemma f_write_loop_ok:
  assumes "vol fs" "data_ok (length (sectors (fs_dev fs))) fs" "file_ok sectors fs fp cs" "room sectors fs"
    and "fpos fp + length wbuff < 2 ^ 32" and N: "N = unat (n_fatent fs)"
  shows "\<exists>k es fp' fs'. f_write_loop wbuff bw fp fs = Some ((FR_OK, bw + of_nat k, fp'), fs') \<and> k \<le> length wbuff \<and>
    (k < length wbuff \<longrightarrow> free_set (entry sectors fs') N = {}) \<and> vol fs' \<and> calm sectors fs fs' (file_area fs (cs @ es)) \<and>
    room sectors fs' \<and> grown (entry sectors fs) (entry sectors fs') N cs es \<and> written sectors (cs @ es) fs fp (take k wbuff) fs' fp'"
  using assms
proof (induction "length wbuff" arbitrary: wbuff bw fp fs cs rule: less_induct)
  case less
  note v = less.prems(1) and geo = less.prems(2) and fok = less.prems(3) and rm = less.prems(4)
  have ps: "fpos fp \<le> fsz fp" using fok by (simp add: file_ok_def pos_ok_def)
  show ?case
  proof (cases "wbuff = []")
    case True
    have "written sectors cs fs fp [] fs fp" using fok ps by (auto simp: written_def wrote_def)
    with True v rm show ?thesis by (intro exI [of _ 0] exI [of _ "[]"] exI [of _ fp] exI [of _ fs]) (simp add: f_write_loop.simps)
  next
    case False
    obtain cnt es fp1 fs1 where st: "f_write_step wbuff fp fs = Some ((FR_OK, cnt, fp1), fs1)" "vol fs1" "calm sectors fs fs1 (file_area fs (cs @ es))"
        "room sectors fs1" "grown (entry sectors fs) (entry sectors fs1) N cs es"
        "case cnt of None \<Rightarrow> es = [] \<and> free_set (entry sectors fs) N = {} \<and> written sectors cs fs fp [] fs1 fp1
         | Some w \<Rightarrow> 0 < unat w \<and> unat w \<le> length wbuff \<and> written sectors (cs @ es) fs fp (take (unat w) wbuff) fs1 (f_advance w fp1)"
      using f_write_step_ok [OF v geo fok rm False less.prems(5) refl less.prems(6)] by blast
    show ?thesis
    proof (cases cnt)
      case None
      then have e: "es = []" "free_set (entry sectors fs) N = {}" "written sectors cs fs fp [] fs1 fp1" using st(6) by auto
      then have "free_set (entry sectors fs1) N = {}" using st(5) by (simp add: grown_def)
      with None e st(1-5) False show ?thesis
        by (intro exI [of _ 0] exI [of _ "[]"] exI [of _ fp1] exI [of _ fs1]) (simp add: f_write_loop.simps)
    next
      case (Some w)
      let ?fp = "f_advance w fp1" and ?rest = "drop (unat w) wbuff"
      from Some st(6) have w: "0 < unat w" "unat w \<le> length wbuff" "written sectors (cs @ es) fs fp (take (unat w) wbuff) fs1 ?fp" by auto
      note sh = shape_data [OF calm_shape [OF st(3)]]
      have geo1: "data_ok (length (sectors (fs_dev fs1))) fs1" using geo sh(5) calm_length [OF st(3)] by simp
      have fok1: "file_ok sectors fs1 ?fp (cs @ es)" and p1: "fpos ?fp = fpos fp + unat w" using w by (simp_all add: written_def)
      have lt: "length ?rest < length wbuff" and lim: "fpos ?fp + length ?rest < 2 ^ 32" using w(1,2) p1 less.prems(5) by auto
      have N1: "N = unat (n_fatent fs1)" using less.prems(6) sh(4) by simp
      from less.hyps [OF lt st(2) geo1 fok1 st(4) lim N1, of "bw + w"]
      obtain k gs fp2 fs2 where ih: "f_write_loop ?rest (bw + w) ?fp fs1 = Some ((FR_OK, bw + w + of_nat k, fp2), fs2)" "k \<le> length ?rest"
          "k < length ?rest \<longrightarrow> free_set (entry sectors fs2) N = {}" "vol fs2" "calm sectors fs1 fs2 (file_area fs1 ((cs @ es) @ gs))" "room sectors fs2"
          "grown (entry sectors fs1) (entry sectors fs2) N (cs @ es) gs" "written sectors ((cs @ es) @ gs) fs1 ?fp (take k ?rest) fs2 fp2" by blast
      have "written sectors ((cs @ es) @ gs) fs fp (take (unat w) wbuff @ take k ?rest) fs2 fp2"
        by (rule written_trans [OF geo calm_shape [OF st(3)] w(3) ih(8) ps])
      then have "written sectors (cs @ es @ gs) fs fp (take (unat w + k) wbuff) fs2 fp2" by (simp add: take_add)
      moreover have "calm sectors fs fs2 (file_area fs (cs @ es @ gs))"
        using calm_trans [OF st(3) ih(5)] file_area_append [OF csz_pos(1) [OF geo], of "cs @ es" gs] sh by (simp add: file_area_def)
      moreover have "f_write_loop wbuff bw fp fs = Some ((FR_OK, bw + of_nat (unat w + k), fp2), fs2)"
        using False st(1) Some ih(1) by (subst f_write_loop.simps) (simp add: add.assoc)
      ultimately show ?thesis using ih(2-4,6) grown_trans [OF st(5) ih(7)] w(2)
        by (intro exI [of _ "unat w + k"] exI [of _ "es @ gs"] exI [of _ fp2] exI [of _ fs2]) auto
    qed
  qed
qed

subsection \<open>The call\<close>

lemma wrote_list:
  assumes "p \<le> n"
  shows "map (wrote f p d) [0..<max n (p + length d)] = take p (map f [0..<n]) @ d @ drop (p + length d) (map f [0..<n])"
proof (rule nth_equalityI)
  fix i assume "i < length (map (wrote f p d) [0..<max n (p + length d)])"
  then have i: "i < n \<or> i < p + length d" by auto
  consider "i < p" | "p \<le> i" "i < p + length d" | "p + length d \<le> i" by linarith
  then show "map (wrote f p d) [0..<max n (p + length d)] ! i = (take p (map f [0..<n]) @ d @ drop (p + length d) (map f [0..<n])) ! i"
    using assms i by cases (auto simp: wrote_def nth_append)
qed (use assms in auto)

lemma written_bytes:
  assumes "data_ok len fs" "written sectors (cs @ es) fs fp d fs' fp'" "file_ok sectors fs fp cs"
  shows "file_bytes sectors fs' fp' (cs @ es) =
    take (fpos fp) (file_bytes sectors fs fp cs) @ d @ drop (fpos fp + length d) (file_bytes sectors fs fp cs)"
proof -
  let ?f = "file_byte sectors fs fp (cs @ es)"
  have w: "fpos fp \<le> fsz fp" "fsz fp \<le> length cs * csz fs * 512" "fsz fp' = max (fsz fp) (fpos fp + length d)"
    "\<forall>i < fsz fp'. file_byte sectors fs' fp' (cs @ es) i = wrote ?f (fpos fp) d i"
    using assms(2,3) by (auto simp: written_def file_ok_def pos_ok_def)
  have old: "map ?f [0..<fsz fp] = file_bytes sectors fs fp cs"
    using file_byte_append [OF assms(1), of _ cs sectors fp es] w(2) by (simp add: file_bytes_def)
  have "file_bytes sectors fs' fp' (cs @ es) = map (wrote ?f (fpos fp) d) [0..<max (fsz fp) (fpos fp + length d)]"
    using w(3,4) by (simp add: file_bytes_def)
  also note wrote_list [OF w(1), of ?f d, unfolded old]
  finally show ?thesis .
qed

text \<open>The mark that the file was changed.\<close>

lemma mark_modified:
  shows "file_ok sectors fs (fp\<lparr>f_flag := f_flag fp OR FA_MODIFIED\<rparr>) cs = file_ok sectors fs fp cs"
    "file_byte sectors fs (fp\<lparr>f_flag := f_flag fp OR FA_MODIFIED\<rparr>) = file_byte sectors fs fp"
    "(x OR FA_MODIFIED) AND FA_READ = x AND FA_READ" "(x OR FA_MODIFIED) AND FA_WRITE = x AND FA_WRITE"
proof -
  have d: "(f_flag fp OR FA_MODIFIED) AND FA_DIRTY = f_flag fp AND FA_DIRTY" by (simp add: mip_simps word_ao_dist)
  show "file_byte sectors fs (fp\<lparr>f_flag := f_flag fp OR FA_MODIFIED\<rparr>) = file_byte sectors fs fp"
    by (intro ext) (simp add: file_byte_def eff_def d)
  then show "file_ok sectors fs (fp\<lparr>f_flag := f_flag fp OR FA_MODIFIED\<rparr>) cs = file_ok sectors fs fp cs"
    by (simp add: file_ok_def file_chain_def pos_ok_def cache_ok_def d)
  show "(x OR FA_MODIFIED) AND FA_READ = x AND FA_READ" "(x OR FA_MODIFIED) AND FA_WRITE = x AND FA_WRITE"
    by (simp_all add: mip_simps word_ao_dist)
qed

lemma same_handle_access:
  assumes "same_handle fp fp'"
  shows "f_flag fp' AND FA_READ = f_flag fp AND FA_READ" "f_flag fp' AND FA_WRITE = f_flag fp AND FA_WRITE"
proof -
  have "f_flag fp' AND NOT FA_DIRTY AND m = f_flag fp AND NOT FA_DIRTY AND m" for m using assms by (simp add: same_handle_def flip: word_bw_assocs)
  from this [of FA_READ] this [of FA_WRITE]
  show "f_flag fp' AND FA_READ = f_flag fp AND FA_READ" "f_flag fp' AND FA_WRITE = f_flag fp AND FA_WRITE" by (simp_all add: mip_simps)
qed

lemma clamp_count:
  fixes p b :: u32
  shows "unat (if p + b < p then 0xFFFFFFFF - p else b) = min (unat b) (2 ^ 32 - 1 - unat p)"
proof (cases "unat p + unat b < 2 ^ 32")
  case True
  then have "unat (p + b) = unat p + unat b" by (simp add: unat_word_ariths)
  with True show ?thesis by (simp add: word_less_nat_alt)
next
  case False
  have "unat (p + b) = (unat p + unat b) mod 2 ^ 32" by (simp add: unat_word_ariths)
  also have "\<dots> = unat p + unat b - 2 ^ 32"
    using False u32_below [of p] u32_below [of b] by (simp add: le_mod_geq)
  finally have "p + b < p" using False u32_below [of b] u32_below [of p] by (simp add: word_less_nat_alt)
  moreover have "p \<le> 0xFFFFFFFF" using u32_below [of p] by (simp add: word_le_nat_alt)
  then have "unat (0xFFFFFFFF - p) = 2 ^ 32 - 1 - unat p" by (simp add: unat_sub)
  ultimately show ?thesis using False by simp
qed

lemma f_write_ok:
  assumes v: "vol fs" and geo: "data_ok (length (sectors (fs_dev fs))) fs" and h: "handle_ok fs fp" "f_flag fp AND FA_WRITE \<noteq> 0"
    and fok: "file_ok sectors fs fp cs" and rm: "room sectors fs"
    and n: "n = min (unat btw) (2 ^ 32 - 1 - fpos fp)" "n \<le> length buff" and E: "E = entry sectors fs" "N = unat (n_fatent fs)"
  shows "\<exists>k es fp' fs'. f_write buff btw fp fs = Some ((FR_OK, of_nat k, fp'), fs') \<and> k \<le> n \<and>
    (k < n \<longrightarrow> free_set (entry sectors fs') N = {}) \<and> vol fs' \<and> calm sectors fs fs' (file_area fs (cs @ es)) \<and> room sectors fs' \<and>
    grown E (entry sectors fs') N cs es \<and> handle_ok fs' fp' \<and> f_flag fp' AND FA_READ = f_flag fp AND FA_READ \<and>
    f_flag fp' AND FA_WRITE = f_flag fp AND FA_WRITE \<and>
    file_ok sectors fs' fp' (cs @ es) \<and> fpos fp' = fpos fp + k \<and>
    file_bytes sectors fs' fp' (cs @ es) =
      take (fpos fp) (file_bytes sectors fs fp cs) @ take k buff @ drop (fpos fp + k) (file_bytes sectors fs fp cs)"
proof -
  obtain d where d: "fil_valid fp fs = Some (FR_OK, fs\<lparr>fs_dev := d\<rparr>)" "ready d" "sectors d = sectors (fs_dev fs)"
    using fil_valid_ok [OF v h(1)] by blast
  let ?fs = "fs\<lparr>fs_dev := d\<rparr>"
  note k0 = file_same_sectors [OF geo fok v d(2,3)]
  note sh0 = shape_data [OF calm_shape [OF k0(3) [of "{}"]]]
  have geo1: "data_ok (length (sectors (fs_dev ?fs))) ?fs" using geo sh0(5) d(3) by simp
  have rm1: "room sectors ?fs" by (rule room_calm [OF geo rm k0(3) [of "{}"] k0(2)])
      (use vol_data(4) [OF v d(2)] d(3) rm in \<open>simp add: room_def\<close>)
  have p32: "fpos fp < 2 ^ 32" by (rule u32_below)
  define m where "m = (if f_fptr fp + btw < f_fptr fp then 0xFFFFFFFF - f_fptr fp else btw)"
  have m: "unat m = n" unfolding m_def n(1) by (rule clamp_count)
  have lim: "fpos fp + length (take n buff) < 2 ^ 32" using n p32 by simp
  from f_write_loop_ok [OF k0(1) geo1 k0(4) rm1 lim refl, of 0] obtain k es fp' fs' where
      l: "f_write_loop (take n buff) 0 fp ?fs = Some ((FR_OK, 0 + of_nat k, fp'), fs')" "k \<le> length (take n buff)"
      "k < length (take n buff) \<longrightarrow> free_set (entry sectors fs') (unat (n_fatent ?fs)) = {}" "vol fs'"
      "calm sectors ?fs fs' (file_area ?fs (cs @ es))" "room sectors fs'"
      "grown (entry sectors ?fs) (entry sectors fs') (unat (n_fatent ?fs)) cs es" "written sectors (cs @ es) ?fs fp (take k (take n buff)) fs' fp'" by blast
  let ?fp = "fp'\<lparr>f_flag := f_flag fp' OR FA_MODIFIED\<rparr>"
  have "length (take n buff) = n" using n(2) by simp
  then have "k \<le> n" using l(2) by simp
  with n(2) have kn: "k \<le> n" "length (take k (take n buff)) = k" "take k (take n buff) = take k buff" by (simp_all add: min_absorb1)
  have hd: "same_handle fp fp'" "file_ok sectors fs' fp' (cs @ es)" "fpos fp' = fpos fp + k" using l(8) kn by (simp_all add: written_def)
  have run: "f_write buff btw fp fs = Some ((FR_OK, of_nat k, ?fp), fs')"
    using d(1) h(2) m n(2) l(1) by (simp add: f_write_def Let_def flip: m_def)
  have c: "calm sectors fs fs' (file_area fs (cs @ es))" using calm_trans [OF k0(3) [of "{}"] l(5)] sh0 by (simp add: file_area_def)
  have "handle_ok fs' ?fp" using h(1) hd(1) calm_shape [OF c] by (simp add: handle_ok_def same_handle_def fs_shape_def)
  moreover have "file_bytes sectors fs' ?fp (cs @ es) = file_bytes sectors fs' fp' (cs @ es)" by (simp add: file_bytes_def mark_modified)
  moreover have "file_bytes sectors ?fs fp cs = file_bytes sectors fs fp cs" by (simp add: file_bytes_def k0(5))
  moreover note written_bytes [OF geo1 l(8) k0(4)]
  ultimately show ?thesis
    using run l(3,4,6,7) c hd(2,3) kn n(2) k0(2) sh0(4) E same_handle_access [OF hd(1)]
    by (intro exI [of _ k] exI [of _ es] exI [of _ ?fp] exI [of _ fs']) (simp add: mark_modified)
qed

end

end
