(* ===== verification/Mipos_Fat_Seek.thy ===== *)
theory Mipos_Fat_Seek
  imports Mipos_Fat_Grow
begin

text \<open>
  Moving the position inside a file. \<^verbatim>\<open>f_lseek\<close> walks along the chain from the cluster of the old position or from the first one, and brings
  the sector of the new position into the cache.
\<close>

lemma unat_clust_bytes:
  assumes "data_ok len fs"
  shows "unat (clust_bytes fs) = csz fs * 512" "csz fs * 512 \<le> 2 ^ 16"
  using csz_pos(2) [OF assms] by (simp_all add: clust_bytes_def unat_csize unat_word_ariths)

lemma unat_of_nat_32: "n < 2 ^ 32 \<Longrightarrow> unat (of_nat n :: u32) = n" by (simp add: unsigned_of_nat take_bit_eq_mod)

lemma and_not_pow2: "unat (x AND NOT (2 ^ k - 1)) = unat (x :: u32) div 2 ^ k * 2 ^ k"
proof -
  let ?m = "2 ^ k - 1 :: u32"
  have "(x AND ?m) AND (x AND NOT ?m) = 0" "(x AND ?m) OR (x AND NOT ?m) = x" by (rule bit_word_eqI, auto simp: bit_simps)+
  then have "x AND NOT ?m = x - (x AND ?m)" using word_plus_and_or [of "x AND ?m" "x AND NOT ?m"] by (metis add_diff_cancel_left' add_0)
  moreover have "x AND ?m \<le> x" using and_pow2 [of x k] by (simp add: word_le_nat_alt)
  ultimately have "unat (x AND NOT ?m) = unat x - unat x mod 2 ^ k" using and_pow2 [of x k] by (simp only: unat_sub)
  then show ?thesis by (simp add: minus_mod_eq_div_mult)
qed

text \<open>The start of the cluster of a position.\<close>

lemma cluster_bytes_pow2:
  assumes "data_ok len fs"
  shows "\<exists>k. clust_bytes fs = 2 ^ k \<and> csz fs * 512 = 2 ^ k"
  using assms unfolding data_ok_def csize_ok_def
  by (elim conjE insertE emptyE)
    (rule exI [of _ 9], simp add: clust_bytes_def, rule exI [of _ 10], simp add: clust_bytes_def, rule exI [of _ 11], simp add: clust_bytes_def,
     rule exI [of _ 12], simp add: clust_bytes_def, rule exI [of _ 13], simp add: clust_bytes_def, rule exI [of _ 14], simp add: clust_bytes_def,
     rule exI [of _ 15], simp add: clust_bytes_def, rule exI [of _ 16], simp add: clust_bytes_def)

lemma cluster_start: "data_ok len fs \<Longrightarrow> unat (x AND NOT (clust_bytes fs - 1)) = unat x div (csz fs * 512) * (csz fs * 512)"
  using cluster_bytes_pow2 [of len fs] and_not_pow2 [of x] by auto

context block_device
begin

text \<open>Following the chain from a cluster of the file, by reading the table or through \<^verbatim>\<open>create_chain\<close>.\<close>

lemma f_lseek_next_ok:
  assumes v: "vol fs" and geo: "data_ok (length (sectors (fs_dev fs))) fs" and fok: "file_at sectors fs fp cs" and cnt: "count_ok sectors fs"
    and c: "unat c = cs ! i" "Suc i < length cs"
  shows "\<exists>r fs'. (if wr then create_chain c fs else get_fat c fs) = Some (r, fs') \<and> unat r = cs ! Suc i \<and> vol fs' \<and> calm sectors fs fs' {} \<and>
    entry sectors fs' = entry sectors fs \<and> count_ok sectors fs' \<and>
    (\<forall>k < length cs * csz fs. sectors (fs_dev fs') ! file_sector fs cs k = sectors (fs_dev fs) ! file_sector fs cs k)"
proof (cases wr)
  case True
  with next_cluster_ok [OF assms] show ?thesis by simp
qed (use follow_chain_ok [OF assms] in auto)

text \<open>The loop ends on the cluster that holds the byte before the position.\<close>

lemma f_lseek_loop_ok:
  assumes "vol fs" "data_ok (length (sectors (fs_dev fs))) fs" "file_at sectors fs fp cs" "count_ok sectors fs"
    and "unat c = cs ! j" "f_clust fp = c" "fpos fp = j * (csz fs * 512)" "fpos fp + unat ofs = p" "0 < unat ofs" "p \<le> length cs * (csz fs * 512)" "p < 2 ^ 32"
  shows "\<exists>o' c' fs'. f_lseek_loop ofs c fp fs = Some ((FR_OK, o', c', fp\<lparr>f_fptr := of_nat p - o', f_clust := c'\<rparr>), fs') \<and>
    unat o' \<le> csz fs * 512 \<and> 0 < unat o' \<and> p = (p - 1) div (csz fs * 512) * (csz fs * 512) + unat o' \<and>
    unat c' = cs ! ((p - 1) div (csz fs * 512)) \<and> vol fs' \<and> calm sectors fs fs' {} \<and>
    entry sectors fs' = entry sectors fs \<and> count_ok sectors fs' \<and>
    (\<forall>k < length cs * csz fs. sectors (fs_dev fs') ! file_sector fs cs k = sectors (fs_dev fs) ! file_sector fs cs k)"
  using assms
proof (induction "unat ofs" arbitrary: ofs c fp fs j rule: less_induct)
  case less
  note v = less.prems(1) and geo = less.prems(2) and fok = less.prems(3) and cnt = less.prems(4)
  let ?b = "csz fs * 512"
  have b: "unat (clust_bytes fs) = ?b" "?b \<le> 2 ^ 16" "0 < ?b" using unat_clust_bytes [OF geo] csz_pos(1) [OF geo] by simp_all
  show ?case
  proof (cases "ofs > clust_bytes fs")
    case False
    then have le: "unat ofs \<le> ?b" using b by (simp add: word_less_nat_alt)
    have p: "p = j * ?b + unat ofs" using less.prems(7,8) by simp
    have "unat ofs - 1 < ?b" using le less.prems(9) by linarith
    then have "(j * ?b + (unat ofs - 1)) div ?b = j" using b(3) by (simp only: div_mult_self3 div_less)
    moreover have "p - 1 = j * ?b + (unat ofs - 1)" using p less.prems(9) by simp
    ultimately have j: "(p - 1) div ?b = j" by (simp only:)
    have "of_nat (fpos fp + unat ofs) = f_fptr fp + ofs" by simp
    then have "of_nat p = f_fptr fp + ofs" using less.prems(8) by simp
    then have "fp\<lparr>f_fptr := of_nat p - ofs, f_clust := c\<rparr> = fp" using less.prems(6) by simp
    with False le j p less.prems(1-6,9) show ?thesis
      by (intro exI [of _ ofs] exI [of _ c] exI [of _ fs]) (simp add: f_lseek_loop.simps)
  next
    case True
    then have gt: "?b < unat ofs" using b by (simp add: word_less_nat_alt)
    then have "Suc j * ?b < length cs * ?b" using less.prems(7,8,10) by simp
    then have j: "Suc j < length cs" using mult_less_cancel2 by blast
    obtain r fs1 where r: "(if f_flag fp AND FA_WRITE \<noteq> 0 then create_chain c fs else get_fat c fs) = Some (r, fs1)" "unat r = cs ! Suc j"
        "vol fs1" "calm sectors fs fs1 {}" "entry sectors fs1 = entry sectors fs" "count_ok sectors fs1"
        "\<And>k. k < length cs * csz fs \<Longrightarrow> sectors (fs_dev fs1) ! file_sector fs cs k = sectors (fs_dev fs) ! file_sector fs cs k"
      using f_lseek_next_ok [OF v geo fok cnt less.prems(5) j] by blast
    note sh = shape_data [OF calm_shape [OF r(4)]]
    have geo1: "data_ok (length (sectors (fs_dev fs1))) fs1" using geo sh(5) calm_length [OF r(4)] by simp
    let ?fp = "fp\<lparr>f_fptr := f_fptr fp + clust_bytes fs, f_clust := r\<rparr>" and ?ofs = "ofs - clust_bytes fs"
    have fok1: "file_at sectors fs1 ?fp cs" using file_kept(1) [OF geo fok r(4,5) r(7)] by simp
    have rr: "2 \<le> unat r" "unat r < unat (n_fatent fs)" using file_at_clusters [OF fok] j r(2) by (simp_all add: clusters_ok_def)
    then have rc: "r \<noteq> 0" "r \<noteq> 0xFFFFFFFF" "\<not> r \<le> 1" "\<not> n_fatent fs1 \<le> r"
      using u32_below [of "n_fatent fs"] sh(4) by (auto simp: word_le_nat_alt)
    have o: "unat ?ofs = unat ofs - ?b" using gt b by (simp add: unat_sub word_le_nat_alt)
    have fp1: "fpos ?fp = Suc j * (csz fs1 * 512)" "fpos ?fp + unat ?ofs = p"
      using fptr_add [of fp "clust_bytes fs"] less.prems(7,8,11) gt b o sh(3) by simp_all
    have lim: "p \<le> length cs * (csz fs1 * 512)" using less.prems(10) sh(3) by simp
    have "unat ?ofs < unat ofs" "0 < unat ?ofs" using o gt b(3) by simp_all
    from less.hyps [OF this(1) r(3) geo1 fok1 r(6,2) _ fp1 this(2) lim less.prems(11)] obtain o' c' fs' where
        ih: "f_lseek_loop ?ofs r ?fp fs1 = Some ((FR_OK, o', c', ?fp\<lparr>f_fptr := of_nat p - o', f_clust := c'\<rparr>), fs')"
        "unat o' \<le> csz fs1 * 512" "0 < unat o'" "p = (p - 1) div (csz fs1 * 512) * (csz fs1 * 512) + unat o'"
        "unat c' = cs ! ((p - 1) div (csz fs1 * 512))" "vol fs'" "calm sectors fs1 fs' {}" "entry sectors fs' = entry sectors fs1" "count_ok sectors fs'"
        "\<And>k. k < length cs * csz fs1 \<Longrightarrow> sectors (fs_dev fs') ! file_sector fs1 cs k = sectors (fs_dev fs1) ! file_sector fs1 cs k" by auto
    have "f_lseek_loop ofs c fp fs = f_lseek_loop ?ofs r ?fp fs1"
      using True r(1) rc by (subst f_lseek_loop.simps) (simp add: Let_def)
    moreover have "calm sectors fs fs' {}" by (rule calm_trans [OF r(4) ih(7)]) simp_all
    ultimately show ?thesis using ih(1-6,8-10) r(5,7) sh
      by (intro exI [of _ o'] exI [of _ c'] exI [of _ fs']) simp
  qed
qed

lemma f_lseek_start_ok:
  assumes geo: "data_ok (length (sectors (fs_dev fs))) fs" and fok: "file_ok sectors fs fp cs" and p: "0 < unat ofs" "unat ofs \<le> fsz fp"
  shows "\<exists>j o' c. f_lseek_start ofs (f_fptr fp) (fp\<lparr>f_fptr := 0\<rparr>) fs = Some ((FR_OK, o', c, fp\<lparr>f_fptr := of_nat (j * (csz fs * 512)), f_clust := c\<rparr>), fs) \<and>
    unat c = cs ! j \<and> j < length cs \<and> j * (csz fs * 512) + unat o' = unat ofs \<and> 0 < unat o'"
proof -
  let ?b = "csz fs * 512"
  have b: "unat (clust_bytes fs) = ?b" "0 < ?b" using unat_clust_bytes [OF geo] csz_pos(1) [OF geo] by simp_all
  have fat: "file_at sectors fs fp cs" and pos: "pos_ok fs fp cs" using fok by (simp_all add: file_ok_at)
  have size: "fsz fp \<le> length cs * ?b" using pos by (auto simp: pos_ok_def mult.assoc)
  then have ne: "cs \<noteq> []" using p by auto
  have o1: "unat (ofs - 1) = unat ofs - 1" using p(1) by (simp add: unat_sub word_le_nat_alt)
  show ?thesis
  proof (cases "f_fptr fp > 0 \<and> (ofs - 1) div clust_bytes fs \<ge> (f_fptr fp - 1) div clust_bytes fs")
    case True
    then have I: "0 < fpos fp" by (simp add: word_less_nat_alt)
    then have i1: "unat (f_fptr fp - 1) = fpos fp - 1" by (simp add: unat_sub word_le_nat_alt)
    define j where "j = (fpos fp - 1) div ?b"
    define q where "q = (f_fptr fp - 1) AND NOT (clust_bytes fs - 1)"
    have q: "unat q = j * ?b" using cluster_start [OF geo, of "f_fptr fp - 1"] i1 by (simp add: q_def j_def)
    have "j \<le> (unat ofs - 1) div ?b" using True by (simp add: word_le_nat_alt unat_div b o1 i1 j_def)
    then have "j * ?b \<le> unat ofs - 1" by (metis b(2) less_eq_div_iff_mult_less_eq)
    then have le: "j * ?b < unat ofs" using p(1) by linarith
    then have o: "unat (ofs - q) = unat ofs - j * ?b" using q by (simp add: unat_sub word_le_nat_alt)
    have c: "unat (f_clust fp) = cs ! j" using pos I by (simp add: pos_ok_def j_def)
    have "j * ?b < length cs * ?b" using le p(2) size by linarith
    then have jl: "j < length cs" using mult_less_cancel2 by blast
    have qw: "q = of_nat (j * ?b)" by (simp flip: q)
    have "f_lseek_start ofs (f_fptr fp) (fp\<lparr>f_fptr := 0\<rparr>) fs = Some ((FR_OK, ofs - q, f_clust fp, fp\<lparr>f_fptr := q, f_clust := f_clust fp\<rparr>), fs)"
      using True by (simp add: f_lseek_start_def Let_def q_def)
    with c jl o le qw show ?thesis by (intro exI [of _ j] exI [of _ "ofs - q"] exI [of _ "f_clust fp"]) simp
  next
    case False
    have hd: "unat (obj_sclust (f_obj fp)) = cs ! 0" using fat ne by (simp add: file_at_def file_chain_def hd_conv_nth)
    moreover have "2 \<le> cs ! 0" using file_at_clusters [OF fat] ne by (simp add: clusters_ok_def)
    ultimately have "obj_sclust (f_obj fp) \<noteq> 0" by auto
    with False have "f_lseek_start ofs (f_fptr fp) (fp\<lparr>f_fptr := 0\<rparr>) fs =
        Some ((FR_OK, ofs, obj_sclust (f_obj fp), fp\<lparr>f_fptr := 0, f_clust := obj_sclust (f_obj fp)\<rparr>), fs)"
      by (auto simp: f_lseek_start_def Let_def)
    with hd ne p(1) show ?thesis by (intro exI [of _ 0] exI [of _ ofs] exI [of _ "obj_sclust (f_obj fp)"]) simp
  qed
qed

text \<open>The sector of a position inside a cluster.\<close>

lemma seek_sector:
  assumes geo: "data_ok len fs" and cl: "clusters_ok fs cs" and k: "k < length cs" "unat c = cs ! k"
    and p: "p = k * (csz fs * 512) + unat o'" "unat o' \<le> csz fs * 512"
  shows "clst2sect fs c \<noteq> 0" "o' mod 512 = 0 \<longleftrightarrow> unat o' mod 512 = 0" "unat o' mod 512 = p mod 512"
    "p mod 512 \<noteq> 0 \<Longrightarrow> unat (clst2sect fs c + o' div 512) = file_sector fs cs (p div 512)"
proof -
  have c: "2 \<le> unat c" "unat c < unat (n_fatent fs)" using cl k by (simp_all add: clusters_ok_def)
  note base = clst2sect_base [OF geo c]
  show "clst2sect fs c \<noteq> 0" by (rule base)
  show "o' mod 512 = 0 \<longleftrightarrow> unat o' mod 512 = 0" by (simp add: word_unat_eq_iff unat_mod)
  show m: "unat o' mod 512 = p mod 512" unfolding p(1) by (simp flip: mult.assoc)
  assume "p mod 512 \<noteq> 0"
  then have "unat o' \<noteq> csz fs * 512" using m by auto
  then have lt: "unat o' < csz fs * 512" using p(2) by simp
  then have d: "unat o' div 512 < csz fs" by (simp add: less_mult_imp_div_less)
  have p512: "p div 512 = k * csz fs + unat o' div 512" unfolding p(1) by (simp flip: mult.assoc)
  have "p div (csz fs * 512) = k" using lt unfolding p(1) by simp
  moreover have "p div 512 mod csz fs = unat o' div 512" using d by (simp add: p512)
  ultimately have fs: "file_sector fs cs (p div 512) = base fs (unat c) + unat o' div 512" using file_sector_pos [of fs cs p] k(2) by simp
  have "base fs (unat c) + unat o' div 512 < len" by (rule base_range(1) [OF geo c d])
  then have "base fs (unat c) + unat o' div 512 < 2 ^ 32" using geo by (simp add: data_ok_def)
  with fs base(1) show "unat (clst2sect fs c + o' div 512) = file_sector fs cs (p div 512)" by (simp add: unat_word_ariths unat_div)
qed

lemma f_lseek_move_ok:
  assumes v: "vol fs" and geo: "data_ok (length (sectors (fs_dev fs))) fs" and fok: "file_ok sectors fs fp cs" and cnt: "count_ok sectors fs"
    and p: "unat ofs \<le> fsz fp"
  shows "\<exists>s c fs'. f_lseek_move ofs fp fs = Some ((FR_OK, s, fp\<lparr>f_fptr := ofs, f_clust := c\<rparr>), fs') \<and>
    (unat ofs mod 512 \<noteq> 0 \<longrightarrow> unat s = file_sector fs cs (unat ofs div 512)) \<and>
    (0 < unat ofs \<longrightarrow> unat c = cs ! ((unat ofs - 1) div (csz fs * 512))) \<and> vol fs' \<and> calm sectors fs fs' {} \<and>
    entry sectors fs' = entry sectors fs \<and> count_ok sectors fs' \<and>
    (\<forall>k < length cs * csz fs. sectors (fs_dev fs') ! file_sector fs cs k = sectors (fs_dev fs) ! file_sector fs cs k)"
proof (cases "ofs = 0")
  case True
  have "fp\<lparr>f_fptr := 0\<rparr> = fp\<lparr>f_fptr := ofs, f_clust := f_clust fp\<rparr>" using True by simp
  with True v cnt show ?thesis
    by (intro exI [of _ 0] exI [of _ "f_clust fp"] exI [of _ fs]) (simp add: f_lseek_move_def Let_def)
next
  case False
  let ?b = "csz fs * 512" and ?p = "unat ofs"
  have p0: "0 < ?p" using False by (simp add: word_unat_eq_iff)
  have fat: "file_at sectors fs fp cs" and size: "fsz fp \<le> length cs * ?b" using fok by (auto simp: file_ok_at pos_ok_def mult.assoc)
  obtain j o1 c where st: "f_lseek_start ofs (f_fptr fp) (fp\<lparr>f_fptr := 0\<rparr>) fs =
      Some ((FR_OK, o1, c, fp\<lparr>f_fptr := of_nat (j * ?b), f_clust := c\<rparr>), fs)" "unat c = cs ! j" "j < length cs" "j * ?b + unat o1 = ?p" "0 < unat o1"
    using f_lseek_start_ok [OF geo fok p0 p] by blast
  define q where "q = (of_nat (j * ?b) :: u32)"
  let ?fp = "fp\<lparr>f_fptr := q, f_clust := c\<rparr>" and ?k = "(?p - 1) div ?b"
  have "j * ?b < 2 ^ 32" using st(4) u32_below [of ofs] by linarith
  then have fp1: "fpos ?fp = j * ?b" using unat_of_nat_32 [of "j * ?b"] by (simp add: q_def)
  have "2 \<le> cs ! j" using file_at_clusters [OF fat] st(3) by (simp add: clusters_ok_def)
  then have c0: "c \<noteq> 0" using st(2) by auto
  have lim: "?p \<le> length cs * ?b" using p size by linarith
  have "file_at sectors fs ?fp cs" using fat by simp
  from f_lseek_loop_ok [OF v geo this cnt st(2) _ fp1 _ st(5) lim u32_below] fp1 st(4) obtain o2 c2 fs2 where
      lp: "f_lseek_loop o1 c ?fp fs = Some ((FR_OK, o2, c2, ?fp\<lparr>f_fptr := of_nat ?p - o2, f_clust := c2\<rparr>), fs2)" "unat o2 \<le> ?b" "0 < unat o2"
      "?p = ?k * ?b + unat o2" "unat c2 = cs ! ?k" "vol fs2" "calm sectors fs fs2 {}"
      "entry sectors fs2 = entry sectors fs" "count_ok sectors fs2"
      "\<forall>k < length cs * csz fs. sectors (fs_dev fs2) ! file_sector fs cs k = sectors (fs_dev fs) ! file_sector fs cs k" by auto
  note sh = shape_data [OF calm_shape [OF lp(7)]]
  have "?k * ?b < length cs * ?b" using lp(3,4) lim by linarith
  then have kl: "?k < length cs" using mult_less_cancel2 by blast
  note sec = seek_sector [OF geo file_at_clusters [OF fat] kl lp(5,4,2)]
  show ?thesis
  proof (intro exI conjI)
    show "f_lseek_move ofs fp fs = Some ((FR_OK, if unat o2 mod 512 = 0 then 0 else clst2sect fs c2 + o2 div 512, fp\<lparr>f_fptr := ofs, f_clust := c2\<rparr>), fs2)"
      using False st(1) c0 lp(1) sec(1,2) sh(7) by (simp add: f_lseek_move_def Let_def q_def)
    show "?p mod 512 \<noteq> 0 \<longrightarrow> unat (if unat o2 mod 512 = 0 then 0 else clst2sect fs c2 + o2 div 512) = file_sector fs cs (?p div 512)"
      using sec(3,4) by simp
  qed (use lp in auto)
qed

subsection \<open>The call\<close>

lemma f_lseek_ok:
  assumes v: "vol fs" and geo: "data_ok (length (sectors (fs_dev fs))) fs" and h: "handle_ok fs fp" and fok: "file_ok sectors fs fp cs"
    and cnt: "count_ok sectors fs" and p: "unat ofs \<le> fsz fp \<or> f_flag fp AND FA_WRITE = 0"
  shows "\<exists>fp' fs'. f_lseek ofs fp fs = Some ((FR_OK, fp'), fs') \<and> vol fs' \<and> calm sectors fs fs' (file_area fs cs) \<and>
    entry sectors fs' = entry sectors fs \<and> handle_ok fs' fp' \<and> file_ok sectors fs' fp' cs \<and> fpos fp' = min (unat ofs) (fsz fp) \<and>
    f_obj fp' = f_obj fp \<and> f_flag fp' AND NOT FA_DIRTY = f_flag fp AND NOT FA_DIRTY \<and>
    file_bytes sectors fs' fp' cs = file_bytes sectors fs fp cs"
proof -
  obtain d where d: "fil_valid fp fs = Some (FR_OK, fs\<lparr>fs_dev := d\<rparr>)" "ready d" "sectors d = sectors (fs_dev fs)"
    using fil_valid_ok [OF v h] by blast
  let ?fs = "fs\<lparr>fs_dev := d\<rparr>"
  note k0 = file_same_sectors [OF geo fok v d(2,3)]
  note sh0 = shape_data [OF calm_shape [OF k0(3) [of "{}"]]]
  have geo0: "data_ok (length (sectors (fs_dev ?fs))) ?fs" using geo sh0(5) d(3) by simp
  have cnt0: "count_ok sectors ?fs" using vol_data(4) [OF v d(2)] d(3) cnt by simp
  define q where "q = (if ofs > obj_objsize (f_obj fp) \<and> f_flag fp AND FA_WRITE = 0 then obj_objsize (f_obj fp) else ofs)"
  have q: "unat q = min (unat ofs) (fsz fp)" using p by (auto simp: q_def word_less_nat_alt)
  then have ql: "unat q \<le> fsz fp" by simp
  obtain s c fs1 where mv: "f_lseek_move q fp ?fs = Some ((FR_OK, s, fp\<lparr>f_fptr := q, f_clust := c\<rparr>), fs1)"
      "unat q mod 512 \<noteq> 0 \<longrightarrow> unat s = file_sector ?fs cs (unat q div 512)" "0 < unat q \<longrightarrow> unat c = cs ! ((unat q - 1) div (csz ?fs * 512))"
      "vol fs1" "calm sectors ?fs fs1 {}" "entry sectors fs1 = entry sectors ?fs"
      "\<forall>k < length cs * csz ?fs. sectors (fs_dev fs1) ! file_sector ?fs cs k = sectors (fs_dev ?fs) ! file_sector ?fs cs k"
    using f_lseek_move_ok [OF k0(1) geo0 k0(4) cnt0 ql] by (elim exE conjE)
  let ?fp = "fp\<lparr>f_fptr := q, f_clust := c\<rparr>"
  have fat: "file_at sectors ?fs fp cs" using k0(4) by (simp add: file_ok_at)
  note sh1 = shape_data [OF calm_shape [OF mv(5)]] and kept = file_kept [OF geo0 fat mv(5,6) mv(7) [rule_format]]
  have geo1: "data_ok (length (sectors (fs_dev fs1))) fs1" using geo0 sh1(5) calm_length [OF mv(5)] by simp
  have fat1: "file_at sectors fs1 ?fp cs" using kept(1) by simp
  have b1: "file_bytes sectors fs1 ?fp cs = file_bytes sectors fs fp cs" using kept(2) k0(5) by (simp add: file_bytes_def)
  have c1: "calm sectors fs fs1 {}" by (rule calm_trans [OF k0(3) [of "{}"] mv(5)]) simp_all
  have size: "fsz fp \<le> length cs * csz fs1 * 512" using fat1 by (simp add: file_at_def)
  have pos1: "pos_ok fs1 fp' cs" if "fpos fp' = unat q" "fsz fp' = fsz fp" "f_clust fp' = c"
      "unat q mod 512 \<noteq> 0 \<longrightarrow> unat (f_sect fp') = file_sector fs1 cs (unat q div 512)" for fp' :: FIL
    using that ql size mv(3) sh1(3) by (simp add: pos_ok_def)
  have ng: "\<not> q > obj_objsize (f_obj fp)" using ql by (simp add: word_less_nat_alt)
  have q512: "q mod 512 = 0 \<longleftrightarrow> unat q mod 512 = 0" by (simp add: word_unat_eq_iff unat_mod)
  show ?thesis
  proof (cases "unat q mod 512 = 0")
    case True
    have "f_lseek ofs fp fs = Some ((FR_OK, ?fp), fs1)" using d(1) mv(1) ng True q512 by (simp add: f_lseek_def Let_def flip: q_def)
    moreover have "file_ok sectors fs1 ?fp cs" using fat1 pos1 [of ?fp] True by (simp add: file_ok_at)
    moreover have "handle_ok fs1 ?fp" by (rule handle_kept [OF h calm_shape [OF c1]]) simp_all
    moreover have "calm sectors fs fs1 (file_area fs cs)" by (rule calm_trans [OF c1 calm_refl [of _ "{}"]]) simp_all
    ultimately show ?thesis using mv(4,6) k0(2) b1 q by simp
  next
    case False
    then have "unat q \<noteq> length cs * csz fs1 * 512" by (metis mod_mult_self2_is_0)
    then have "unat q < length cs * csz fs1 * 512" using ql size by linarith
    then have kl: "unat q div 512 < length cs * csz fs1" by (rule less_mult_imp_div_less)
    have s1: "unat s = file_sector fs1 cs (unat q div 512)" using mv(2) False sh1(2) by simp
    obtain fp2 fs2 where ld: "f_read_load s ?fp fs1 = Some ((FR_OK, fp2), fs2)" "vol fs2" "calm sectors fs1 fs2 (file_area fs1 cs)"
        "entry sectors fs2 = entry sectors fs1" "file_at sectors fs2 fp2 cs" "keeps ?fp fp2" "f_sect fp2 = s" "f_clust fp2 = c"
        "\<forall>i < fsz fp. file_byte sectors fs2 fp2 cs i = file_byte sectors fs1 ?fp cs i"
      using f_read_load_ok [OF mv(4) geo1 fat1 kl s1] by auto
    note sh2 = shape_data [OF calm_shape [OF ld(3)]]
    have kp: "f_fptr fp2 = q" "f_obj fp2 = f_obj fp" "f_err fp2 = f_err fp" "f_flag fp2 AND NOT FA_DIRTY = f_flag fp AND NOT FA_DIRTY"
      using ld(6) by (simp_all add: keeps_def)
    have "pos_ok fs1 fp2 cs" by (rule pos1) (use kp ld(7,8) s1 in simp_all)
    then have "file_ok sectors fs2 fp2 cs" using ld(5) sh2 by (simp add: file_ok_at pos_ok_def)
    moreover have "f_lseek ofs fp fs = Some ((FR_OK, fp2), fs2)" using d(1) mv(1) ng False q512 ld(1) by (simp add: f_lseek_def Let_def flip: q_def)
    moreover have c2: "calm sectors fs fs2 (file_area fs cs)" using calm_trans [OF c1 ld(3)] sh1 sh0 by (simp add: file_area_def)
    moreover have "handle_ok fs2 fp2" by (rule handle_kept [OF h calm_shape [OF c2]]) (use kp in simp_all)
    moreover have "file_bytes sectors fs2 fp2 cs = file_bytes sectors fs1 ?fp cs" using ld(9) kp(2) by (simp add: file_bytes_def)
    ultimately show ?thesis using ld(2,4) mv(6) k0(2) b1 q kp by simp
  qed
qed

subsection \<open>What was written is read\<close>

lemma file_bytes_length [simp]: "length (file_bytes sectors fs fp cs) = fsz fp" by (simp add: file_bytes_def)

lemma access_kept: "f AND NOT FA_DIRTY = g AND NOT FA_DIRTY \<Longrightarrow> f AND FA_READ = g AND FA_READ"
proof -
  assume "f AND NOT FA_DIRTY = g AND NOT FA_DIRTY"
  then have "f AND NOT FA_DIRTY AND FA_READ = g AND NOT FA_DIRTY AND FA_READ" by (simp flip: word_bw_assocs)
  then show ?thesis by (simp add: mip_simps)
qed

lemma write_seek_read:
  assumes v: "vol fs" and geo: "data_ok (length (sectors (fs_dev fs))) fs" and h: "handle_ok fs fp" "f_flag fp AND FA_WRITE \<noteq> 0" "f_flag fp AND FA_READ \<noteq> 0"
    and fok: "file_ok sectors fs fp cs" and rm: "room sectors fs"
    and n: "n = min (unat btw) (2 ^ 32 - 1 - fpos fp)" "n \<le> length buff" "n \<le> length out"
  shows "\<exists>k fp1 fs1 fp2 fs2 fp3 fs3. f_write buff btw fp fs = Some ((FR_OK, of_nat k, fp1), fs1) \<and> k \<le> n \<and>
    (k < n \<longrightarrow> free_set (entry sectors fs1) (unat (n_fatent fs)) = {}) \<and> f_lseek (f_fptr fp) fp1 fs1 = Some ((FR_OK, fp2), fs2) \<and>
    f_read out (of_nat k) fp2 fs2 = Some ((FR_OK, of_nat k, take k buff @ drop k out, fp3), fs3)"
proof -
  obtain k es fp1 fs1 where w: "f_write buff btw fp fs = Some ((FR_OK, of_nat k, fp1), fs1)" "k \<le> n"
      "k < n \<longrightarrow> free_set (entry sectors fs1) (unat (n_fatent fs)) = {}" "vol fs1" "calm sectors fs fs1 (file_area fs (cs @ es))" "room sectors fs1"
      "handle_ok fs1 fp1" "f_flag fp1 AND FA_READ = f_flag fp AND FA_READ" "file_ok sectors fs1 fp1 (cs @ es)"
      "file_bytes sectors fs1 fp1 (cs @ es) = take (fpos fp) (file_bytes sectors fs fp cs) @ take k buff @ drop (fpos fp + k) (file_bytes sectors fs fp cs)"
    using f_write_ok [OF v geo h(1,2) fok rm n(1,2) refl refl] by (elim exE conjE) blast
  have pos: "fpos fp \<le> fsz fp" using fok by (simp add: file_ok_def pos_ok_def)
  have kb: "k \<le> length buff" "k \<le> length out" using w(2) n(2,3) by simp_all
  have "fsz fp1 = length (file_bytes sectors fs1 fp1 (cs @ es))" by simp
  also have "\<dots> = fpos fp + k + (fsz fp - (fpos fp + k))" unfolding w(10) using pos kb by simp
  finally have sz: "fpos fp + k \<le> fsz fp1" by linarith
  have geo1: "data_ok (length (sectors (fs_dev fs1))) fs1" using geo shape_data(5) [OF calm_shape [OF w(5)]] calm_length [OF w(5)] by simp
  have cnt: "count_ok sectors fs1" using w(6) by (simp add: room_def)
  have p: "unat (f_fptr fp) \<le> fsz fp1 \<or> f_flag fp1 AND FA_WRITE = 0" using sz by simp
  obtain fp2 fs2 where s: "f_lseek (f_fptr fp) fp1 fs1 = Some ((FR_OK, fp2), fs2)" "vol fs2" "calm sectors fs1 fs2 (file_area fs1 (cs @ es))"
      "handle_ok fs2 fp2" "file_ok sectors fs2 fp2 (cs @ es)" "fpos fp2 = min (fpos fp) (fsz fp1)" "f_obj fp2 = f_obj fp1"
      "f_flag fp2 AND NOT FA_DIRTY = f_flag fp1 AND NOT FA_DIRTY" "file_bytes sectors fs2 fp2 (cs @ es) = file_bytes sectors fs1 fp1 (cs @ es)"
    using f_lseek_ok [OF w(4) geo1 w(7,9) cnt p] by blast
  have geo2: "data_ok (length (sectors (fs_dev fs2))) fs2" using geo1 shape_data(5) [OF calm_shape [OF s(3)]] calm_length [OF s(3)] by simp
  have k32: "k < 2 ^ 32" using sz u32_below [of "obj_objsize (f_obj fp1)"] by linarith
  have n2: "k = min (unat (of_nat k :: u32)) (fsz fp2 - fpos fp2)" using unat_of_nat_32 [OF k32] s(6,7) sz by simp
  have rd: "f_flag fp2 AND FA_READ \<noteq> 0" using access_kept [OF s(8)] w(8) h(3) by simp
  obtain fp3 fs3 where r: "f_read out (of_nat k) fp2 fs2 =
      Some ((FR_OK, of_nat k, take k (drop (fpos fp2) (file_bytes sectors fs2 fp2 (cs @ es))) @ drop k out, fp3), fs3)"
    using f_read_ok [OF s(2) geo2 s(4) rd s(5) n2 kb(2)] by blast
  have "take k (drop (fpos fp2) (file_bytes sectors fs2 fp2 (cs @ es))) = take k buff"
    using s(6,9) w(10) pos kb sz by simp
  with w(1-3) s(1) r show ?thesis by auto
qed

end

end
