(* ===== verification/Mipos_Fat_Props.thy ===== *)
theory Mipos_Fat_Props
  imports Mipos_Fat_Chain
begin

text \<open>
  What FatFs promises of its table on any array of sectors, in particular on the RAM disk of the example and on
  the disk of the emulated board: entries, chains, and what a synchronised volume looks like on the device.
\<close>

unbundle bit_operations_syntax

subsection \<open>A small volume\<close>

text \<open>A FAT16 with one copy of the table, in which clusters 2 and 3 form a chain.\<close>

definition demo_fat :: octets where
  "demo_fat = replicate 4 0 @ [3, 0, 0xFF, 0xFF] @ replicate 504 0"

definition demo_image :: octets where
  "demo_image = replicate 512 0 @ demo_fat @ replicate 3072 0"

definition demo_volume :: "fat_ramdisk FATFS" where
  "demo_volume = \<lparr>fs_type = FS_FAT16, fs_pdrv = 0, n_fats = 1, wflag = False, fsi_flag = 0, fs_id = 1, n_rootdir = 16, csize = 1,
     last_clst = 3, free_clst = 2, n_fatent = 6, fsize = 1, volbase = 0, fatbase = 1, dirbase = 2, fs_database = 3,
     winsect = 1, win = demo_fat, fs_table = ram_table,
     fs_dev = \<lparr>ramdisk_ptr = Some demo_image, ramdisk_size = 4096, ramdisk_disk_status = 0\<rparr>\<rparr>"

lemma demo_ready: "ram_ready (fs_dev demo_volume)"
  by (simp add: ram_ready_def demo_volume_def demo_image_def demo_fat_def)

lemma demo_sectors: "length (ram_sectors (fs_dev demo_volume)) = 8" "ram_sectors (fs_dev demo_volume) ! 1 = demo_fat"
proof -
  have len: "length demo_image = 4096" "length demo_fat = 512" by (simp_all add: demo_image_def demo_fat_def)
  then show "length (ram_sectors (fs_dev demo_volume)) = 8" by (simp add: ram_sectors_def demo_volume_def image_sectors_def)
  have "sector_at demo_image 1 = demo_fat" using len(2) by (simp add: sector_at_def demo_image_def)
  with len show "ram_sectors (fs_dev demo_volume) ! 1 = demo_fat"
    by (simp add: ram_sectors_def demo_volume_def image_sectors_def)
qed

lemma demo_simps:
  "fs_type demo_volume = FS_FAT16" "n_fats demo_volume = 1" "wflag demo_volume = False" "n_fatent demo_volume = 6" "fsize demo_volume = 1"
  "fatbase demo_volume = 1" "winsect demo_volume = 1" "win demo_volume = demo_fat" "fs_table demo_volume = ram_table"
  "fs_pdrv demo_volume = 0" "free_clst demo_volume = 2" "volbase demo_volume = 0" "fsi_flag demo_volume = 0"
  by (simp_all add: demo_volume_def)

lemma demo_ok: "fat_volume ram_table 0 ram_ready ram_sectors demo_volume"
proof -
  have "length demo_fat = 512" by (simp add: demo_fat_def)
  then show ?thesis
    using demo_ready demo_sectors
    by (simp add: fat_volume_def fat_wf_def place_ok_def window_ok_def copies_ok_def in_mirror_def demo_simps)
qed

lemma demo_table: "table_ok demo_volume"
  by (simp add: table_ok_def demo_simps max_entries_def table_bytes_def mip_simps)

lemma demo_bytes: "i < 512 \<Longrightarrow> fat_byte ram_sectors demo_volume i = demo_fat ! i"
  by (simp add: fat_byte_def view_def demo_simps)

lemma demo_entries:
  "entry ram_sectors demo_volume 2 = 3" "entry ram_sectors demo_volume 3 = 0xFFFF" "entry ram_sectors demo_volume 4 = 0"
  "entry ram_sectors demo_volume 5 = 0"
  by (simp_all add: entry_def fat_entry_def demo_simps raw16_def demo_bytes demo_fat_def mip_simps nth_append nth_Cons' push_bit_eq_mult)

lemma demo_free: "free_set (entry ram_sectors demo_volume) 6 = {4, 5}"
proof -
  have "c \<in> {2, 3, 4, 5}" if "2 \<le> c" "c < 6" for c :: nat using that by auto
  then show ?thesis using demo_entries by (force simp: free_set_def)
qed

lemma demo_chain: "fat_chain (entry ram_sectors demo_volume) 6 [2, 3]"
  by (simp add: demo_entries)

lemma demo_sane: "sane (entry ram_sectors demo_volume) 6"
proof -
  have "c \<in> {2, 3, 4, 5}" if "2 \<le> c" "c < 6" for c :: nat using that by auto
  then show ?thesis using demo_entries by (force simp: sane_def)
qed

lemma demo_count: "count_ok ram_sectors demo_volume"
  by (simp add: count_ok_def demo_simps demo_free)

subsection \<open>Entries\<close>

text \<open>
  C19. The table is an array of entries: writing the entry of a cluster succeeds, and reading any cluster afterwards
  gives the value written, cut to the width of the format, for that cluster, and the old entry for every
  other one; in all three formats, also where entries share a byte or straddle two sectors. Sectors outside
  the table keep their contents.
\<close>

theorem fat_get_put:
  assumes "sector_device t pdrv ready sectors" "fat_volume t pdrv ready sectors fs" "table_ok fs"
    and "2 \<le> unat c" "unat c < unat (n_fatent fs)" "2 \<le> unat d" "unat d < unat (n_fatent fs)"
  shows "\<exists>fs1 fs2. put_fat c x fs = Some (FR_OK, fs1) \<and>
    get_fat d fs1 = Some (if d = c then x AND entry_mask (fs_type fs) else entry sectors fs (unat d), fs2) \<and>
    fat_volume t pdrv ready sectors fs2 \<and> same_data sectors fs fs2"
proof -
  obtain fs1 where p: "put_fat c x fs = Some (FR_OK, fs1)" "fat_volume t pdrv ready sectors fs1" "same_data sectors fs fs1"
      "entry sectors fs1 = (entry sectors fs)(unat c := x AND entry_mask (fs_type fs))"
    using sector_device.put_fat_entry [OF assms(1-5)] by blast
  note geo = rewound_simps [OF same_data_rewound [OF p(3)]]
  have "table_ok fs1" "unat d < unat (n_fatent fs1)" using assms(3,7) geo table_ok_rewound [OF same_data_rewound [OF p(3)]] by simp_all
  from sector_device.get_fat_entry [OF assms(1) p(2) this(1) assms(6) this(2)] obtain fs2 where
      g: "get_fat d fs1 = Some (entry sectors fs1 (unat d), fs2)" "fat_volume t pdrv ready sectors fs2" "same_view ready sectors fs1 fs2" by blast
  have "unat d = unat c \<longleftrightarrow> d = c" by (simp add: word_unat_eq_iff)
  with p g same_data_trans [OF p(3) same_view_same_data [OF g(3)]] show ?thesis by auto
qed

theorem fat_get_put_witness:
  "\<exists>fs1 fs2. put_fat 4 0x12345 demo_volume = Some (FR_OK, fs1) \<and> get_fat 2 fs1 = Some (3, fs2)"
  using fat_get_put [OF ramdev.sector_device_axioms demo_ok demo_table, of 4 2 "0x12345"] by (auto simp: demo_simps demo_entries)

subsection \<open>Chains\<close>

text \<open>
  C6. \<^verbatim>\<open>create_chain\<close> returns on every volume whose table is sane. When a free cluster exists it
  takes one, marks it as the end and links it behind the last cluster of the chain, or starts a new chain with it;
  every other chain stays what it was, and the count of free clusters stays right. When there is none it answers 0
  and changes no entry.
\<close>

theorem fat_extend_chain:
  assumes "sector_device t pdrv ready sectors" "fat_volume t pdrv ready sectors fs" "table_ok fs"
    and "E = entry sectors fs" "n = unat (n_fatent fs)" "sane E n" "count_ok sectors fs"
    and "cs = [] \<and> c = 0 \<or> fat_chain E n cs \<and> last cs = unat c"
  shows "\<exists>r fs'. create_chain c fs = Some (r, fs') \<and> fat_volume t pdrv ready sectors fs' \<and> table_only sectors fs fs' \<and>
    count_ok sectors fs' \<and>
    (if free_set E n = {} then r = 0 \<and> entry sectors fs' = E
     else unat r \<in> free_set E n \<and> fat_chain (entry sectors fs') n (cs @ [unat r]) \<and> sane (entry sectors fs') n \<and>
       (\<forall>ds. fat_chain E n ds \<longrightarrow> unat c \<notin> set ds \<longrightarrow> fat_chain (entry sectors fs') n ds))"
proof -
  have tail: "cs = [] \<and> unat c = 0 \<or> fat_chain E n cs \<and> last cs = unat c" using assms(8) by auto
  note ext = fat_chain_extensible [OF tail]
  from sector_device.create_chain_ok [OF assms(1-3) _ assms(7), of c] assms(4-6) ext obtain r fs' where
      r: "create_chain c fs = Some (r, fs')" "fat_volume t pdrv ready sectors fs'" "table_only sectors fs fs'" "count_ok sectors fs'"
      "if free_set E n = {} then r = 0 \<and> entry sectors fs' = E
       else unat r \<in> free_set E n \<and> entry sectors fs' = linked (fs_type fs) (unat c) (unat r) E" by auto
  have eoc: "n \<le> unat (eoc (fs_type fs))" using eoc_end(1) [OF assms(3)] assms(5) by simp
  have n: "n < 2 ^ 32" using unsigned_less [of "n_fatent fs", where 'a = nat] assms(5) by simp
  from r linked_chains [OF _ tail assms(6) eoc n] show ?thesis by (cases "free_set E n = {}") auto
qed

theorem fat_extend_chain_witness:
  "\<exists>r fs'. create_chain 3 demo_volume = Some (r, fs') \<and> unat r \<in> {4, 5} \<and> fat_chain (entry ram_sectors fs') 6 [2, 3, unat r]"
  using fat_extend_chain [OF ramdev.sector_device_axioms demo_ok demo_table refl refl _ demo_count, of "[2, 3]" 3]
    demo_sane demo_chain demo_free by (fastforce simp: demo_simps)

text \<open>
  C7. \<^verbatim>\<open>remove_chain\<close> returns on every chain and truncates it: the clusters from the given one on become free, the one before
  becomes the end of the chain, no other entry changes, and the count of free clusters stays right.
\<close>

theorem fat_truncate_chain:
  assumes "sector_device t pdrv ready sectors" "fat_volume t pdrv ready sectors fs" "table_ok fs" "count_ok sectors fs"
    and "E = entry sectors fs" "n = unat (n_fatent fs)" "fat_chain E n (xs @ unat c # ys)" "unat p = (if xs = [] then 0 else last xs)"
  shows "\<exists>fs'. remove_chain c p fs = Some (FR_OK, fs') \<and> fat_volume t pdrv ready sectors fs' \<and> table_only sectors fs fs' \<and>
    count_ok sectors fs' \<and> (xs = [] \<or> fat_chain (entry sectors fs') n xs) \<and> set (unat c # ys) \<subseteq> free_set (entry sectors fs') n \<and>
    (\<forall>x. x \<notin> set (unat c # ys) \<longrightarrow> x \<noteq> unat p \<longrightarrow> entry sectors fs' x = E x)"
proof -
  from sector_device.remove_chain_ok [OF assms(1-4), of xs c ys p] assms(5-8) obtain fs' where
      r: "remove_chain c p fs = Some (FR_OK, fs')" "fat_volume t pdrv ready sectors fs'" "table_only sectors fs fs'" "count_ok sectors fs'"
      "entry sectors fs' = released (set (unat c # ys)) (if xs = [] then E else E(last xs := eoc (fs_type fs)))" by auto
  have sub: "set (unat c # ys) \<subseteq> free_set (entry sectors fs') n"
    using fat_chain_elem [OF assms(7)] unfolding r(5) by (auto simp: free_set_def released_def)
  have same: "x \<notin> set (unat c # ys) \<Longrightarrow> x \<noteq> unat p \<Longrightarrow> entry sectors fs' x = E x" for x
    using assms(8) unfolding r(5) by (auto simp: released_def)
  have "fat_chain (entry sectors fs') n xs" if ne: "xs \<noteq> []"
  proof (rule fat_chain_truncate [OF assms(7) ne])
    have dis: "set xs \<inter> set (unat c # ys) = {}" using fat_chain_distinct [OF assms(7)] by auto
    then have "last xs \<notin> set (unat c # ys)" using last_in_set [OF ne] by blast
    then show "n \<le> unat (entry sectors fs' (last xs))" using eoc_end(1) [OF assms(3)] ne assms(6) unfolding r(5) by (simp add: released_def)
    show "entry sectors fs' x = E x" if "x \<in> set xs" "x \<noteq> last xs" for x
      using that dis same [of x] assms(8) ne by auto
  qed
  with r sub same show ?thesis by blast
qed

theorem fat_truncate_chain_witness:
  "\<exists>fs'. remove_chain 3 2 demo_volume = Some (FR_OK, fs') \<and> fat_chain (entry ram_sectors fs') 6 [2] \<and> 3 \<in> free_set (entry ram_sectors fs') 6"
  using fat_truncate_chain [OF ramdev.sector_device_axioms demo_ok demo_table demo_count refl refl, of "[2]" 3 "[]" 2] demo_chain
  by (auto simp: demo_simps)

subsection \<open>Synchronising\<close>

lemma length_st [simp]: "length (st_word b i v) = length b" "length (st_dword b i w) = length b"
  by (simp_all add: st_word_def st_dword_def)

lemma ld_st_dword:
  assumes "i + 3 < length b"
  shows "ld_dword (drop i (st_dword b i v)) = v"
proof (rule bit_eqI)
  fix n assume "possible_bit TYPE(u32) n"
  then have "n < 32" by simp
  then consider "n < 8" | "8 \<le> n" "n < 16" | "16 \<le> n" "n < 24" | "24 \<le> n" "n < 32" by linarith
  then show "bit (ld_dword (drop i (st_dword b i v))) n \<longleftrightarrow> bit v n"
    using assms by cases (auto simp: ld_dword_def st_dword_def bit_simps)
qed

text \<open>What the FSInfo sector tells.\<close>

lemma fsinfo_fields:
  "length (fsinfo_sector f l) = 512" "ld_dword (drop FSI_Free_Count (fsinfo_sector f l)) = f" "ld_dword (drop FSI_Nxt_Free (fsinfo_sector f l)) = l"
proof -
  let ?b = "st_dword (st_dword (st_word (replicate SS 0) BS_55AA 0xAA55) FSI_LeadSig 0x41615252) FSI_StrucSig 0x61417272"
  show "length (fsinfo_sector f l) = 512" by (simp add: fsinfo_sector_def mip_simps)
  show "ld_dword (drop FSI_Nxt_Free (fsinfo_sector f l)) = l"
    unfolding fsinfo_sector_def by (rule ld_st_dword) (simp add: mip_simps)
  have "ld_dword (drop FSI_Free_Count (st_dword ?b FSI_Free_Count f)) = f" by (rule ld_st_dword) (simp add: mip_simps)
  moreover have "ld_dword (drop FSI_Free_Count (st_dword x FSI_Nxt_Free l)) = ld_dword (drop FSI_Free_Count x)" if "length x = 512" for x
    using that by (simp add: ld_dword_def st_dword_def mip_simps)
  ultimately show "ld_dword (drop FSI_Free_Count (fsinfo_sector f l)) = f"
    unfolding fsinfo_sector_def by (simp add: mip_simps)
qed

text \<open>Whether \<^verbatim>\<open>sync_fs\<close> writes the FSInfo sector.\<close>

definition writes_fsinfo :: "'s FATFS \<Rightarrow> bool" where
  "writes_fsinfo fs \<longleftrightarrow> fs_type fs = FS_FAT32 \<and> fsi_flag fs = 1"

context sector_device
begin

lemma fsinfo_written:
  assumes v: "vol fs" and clean: "\<not> wflag fs" and i: "unat (volbase fs + 1) < length (sectors (fs_dev fs))" "\<not> in_table fs (unat (volbase fs + 1))"
    and w: "w = fsinfo_sector (free_clst fs) (last_clst fs)"
  shows "\<exists>d. fat_write w (volbase fs + 1) (fs\<lparr>win := w, winsect := volbase fs + 1\<rparr>) =
      Some (MIPOS_DISK_RES_OK, fs\<lparr>win := w, winsect := volbase fs + 1, fs_dev := d\<rparr>) \<and>
    vol (fs\<lparr>win := w, winsect := volbase fs + 1, fs_dev := d, fsi_flag := 0\<rparr>) \<and>
    sectors d = (sectors (fs_dev fs))[unat (volbase fs + 1) := w]"
proof -
  let ?n = "unat (volbase fs + 1)" and ?s = "sectors (fs_dev fs)"
  have wf: "fs_table fs = t" "fs_pdrv fs = pdrv" "ready (fs_dev fs)" "place_ok (length ?s) fs" "copies_ok sectors fs"
    using v by (auto simp: vol_def fat_wf_def)
  have len: "length w = 512" unfolding w by (rule fsinfo_fields(1))
  obtain d where d: "fat_write w (volbase fs + 1) (fs\<lparr>win := w, winsect := volbase fs + 1\<rparr>) =
      Some (MIPOS_DISK_RES_OK, fs\<lparr>win := w, winsect := volbase fs + 1, fs_dev := d\<rparr>)" "ready d" "sectors d = ?s[?n := w]"
    using write_at [of "fs\<lparr>win := w, winsect := volbase fs + 1\<rparr>" "volbase fs + 1" w] wf(1-3) i(1) len by auto
  let ?fs = "fs\<lparr>win := w, winsect := volbase fs + 1, fs_dev := d, fsi_flag := 0\<rparr>"
  have "\<not> in_mirror ?fs ?n" using i(2) in_mirror_in_table [of fs ?n] by (auto simp: in_mirror_def)
  then have "window_ok sectors ?fs" using len i(1) d(3) by (simp add: window_ok_def)
  moreover have "copies_ok sectors ?fs" unfolding copies_ok_def
  proof (intro impI allI)
    fix j assume a: "n_fats ?fs = 2" "j < unat (fsize ?fs)" "\<not> (wflag ?fs \<and> unat (winsect ?fs) = unat (fatbase ?fs) + j)"
    then have "?n \<noteq> unat (fatbase fs) + j" "?n \<noteq> unat (fatbase fs) + unat (fsize fs) + j" using i(2) by (auto simp: in_table_def)
    with a wf(5) clean show "sectors (fs_dev ?fs) ! (unat (fatbase ?fs) + unat (fsize ?fs) + j) = sectors (fs_dev ?fs) ! (unat (fatbase ?fs) + j)"
      using d(3) by (simp add: copies_ok_def)
  qed
  moreover have "place_ok (length (sectors d)) ?fs" using wf(4) d(3) by (simp add: place_ok_def)
  ultimately have "vol ?fs" using wf(1,2) d(2) by (simp add: vol_def fat_wf_def)
  with d show ?thesis by blast
qed

lemma write_fsinfo_ok:
  assumes v: "vol fs" and clean: "\<not> wflag fs"
    and i: "writes_fsinfo fs \<Longrightarrow> unat (volbase fs + 1) < length (sectors (fs_dev fs)) \<and> \<not> in_table fs (unat (volbase fs + 1))"
  shows "\<exists>fs'. write_fsinfo fs = Some fs' \<and> vol fs' \<and> \<not> wflag fs' \<and> fs_shape fs' = fs_shape fs \<and>
    sectors (fs_dev fs') = (if writes_fsinfo fs
      then (sectors (fs_dev fs))[unat (volbase fs + 1) := fsinfo_sector (free_clst fs) (last_clst fs)] else sectors (fs_dev fs))"
proof (cases "writes_fsinfo fs")
  case True
  then obtain d where d: "fat_write (fsinfo_sector (free_clst fs) (last_clst fs)) (volbase fs + 1)
        (fs\<lparr>win := fsinfo_sector (free_clst fs) (last_clst fs), winsect := volbase fs + 1\<rparr>) =
      Some (MIPOS_DISK_RES_OK, fs\<lparr>win := fsinfo_sector (free_clst fs) (last_clst fs), winsect := volbase fs + 1, fs_dev := d\<rparr>)"
    and ok: "vol (fs\<lparr>win := fsinfo_sector (free_clst fs) (last_clst fs), winsect := volbase fs + 1, fs_dev := d, fsi_flag := 0\<rparr>)"
      "sectors d = (sectors (fs_dev fs))[unat (volbase fs + 1) := fsinfo_sector (free_clst fs) (last_clst fs)]"
    using fsinfo_written [OF v clean _ _ refl] i by blast
  have "write_fsinfo fs =
      Some (fs\<lparr>win := fsinfo_sector (free_clst fs) (last_clst fs), winsect := volbase fs + 1, fs_dev := d, fsi_flag := 0\<rparr>)"
    using True d unfolding write_fsinfo_def writes_fsinfo_def Let_def by simp
  with ok clean True show ?thesis by (simp add: fs_shape_def)
next
  case False
  then have "write_fsinfo fs = Some fs" unfolding write_fsinfo_def writes_fsinfo_def by (simp only: if_False)
  with v clean False show ?thesis by simp
qed

lemma sync_fs_ok:
  assumes v: "vol fs" and i: "writes_fsinfo fs \<Longrightarrow> unat (volbase fs + 1) < length (sectors (fs_dev fs)) \<and> \<not> in_table fs (unat (volbase fs + 1))"
  shows "\<exists>fs'. sync_fs fs = Some (FR_OK, fs') \<and> vol fs' \<and> \<not> wflag fs' \<and> fs_shape fs' = fs_shape fs \<and>
    length (sectors (fs_dev fs')) = length (sectors (fs_dev fs)) \<and>
    (\<forall>n < length (sectors (fs_dev fs)). \<not> in_mirror fs n \<longrightarrow> sectors (fs_dev fs') ! n =
       (if writes_fsinfo fs \<and> n = unat (volbase fs + 1) then fsinfo_sector (free_clst fs) (last_clst fs) else view sectors fs n))"
proof -
  obtain fs1 where s: "sync_window fs = Some (FR_OK, fs1)" "vol fs1" "same_view ready sectors fs fs1" "\<not> wflag fs1"
    using sync_window_clean [OF v] by blast
  note geo = rewound_simps [OF same_view_rewound [OF s(3)]]
  have len: "length (sectors (fs_dev fs1)) = length (sectors (fs_dev fs))" using s(3) by (simp add: same_view_def)
  have shape: "fs_shape fs1 = fs_shape fs" by (rule table_only_shape [OF same_view_table_only [OF s(3)]])
  have disk: "sectors (fs_dev fs1) ! n = view sectors fs n" if "n < length (sectors (fs_dev fs))" "\<not> in_mirror fs n" for n
  proof -
    have "sectors (fs_dev fs1) ! n = view sectors fs1 n" using s(2,4) by (auto simp: view_def vol_def fat_wf_def window_ok_def)
    with that s(3) show ?thesis by (simp add: same_view_def)
  qed
  have "writes_fsinfo fs1 = writes_fsinfo fs" using geo by (simp add: writes_fsinfo_def)
  with write_fsinfo_ok [OF s(2,4)] i shape_simps(9) [OF shape] len geo shape obtain fs2 where
      f: "write_fsinfo fs1 = Some fs2" "vol fs2" "\<not> wflag fs2" "fs_shape fs2 = fs_shape fs"
      "sectors (fs_dev fs2) = (if writes_fsinfo fs then (sectors (fs_dev fs1))[unat (volbase fs + 1) := fsinfo_sector (free_clst fs) (last_clst fs)]
        else sectors (fs_dev fs1))" by metis
  have wf2: "fs_table fs2 = t" "fs_pdrv fs2 = pdrv" "ready (fs_dev fs2)" using f(2) by (auto simp: vol_def fat_wf_def)
  obtain d out where y: "fatfs_disk_ioctl t pdrv 0 False (fs_dev fs2) = Some ((MIPOS_DISK_RES_OK, out), d)" "ready d"
      "sectors d = sectors (fs_dev fs2)" using syncs [OF wf2(3)] by blast
  have "sync_fs fs = Some (FR_OK, fs2\<lparr>fs_dev := d\<rparr>)" using s(1) f(1) y(1) wf2 by (simp add: sync_fs_def CTRL_SYNC_def)
  moreover have "vol (fs2\<lparr>fs_dev := d\<rparr>)" using f(2) y(2,3)
    by (simp add: vol_def fat_wf_def place_ok_def window_ok_def copies_ok_def in_mirror_def)
  moreover have "sectors d ! n = (if writes_fsinfo fs \<and> n = unat (volbase fs + 1) then fsinfo_sector (free_clst fs) (last_clst fs) else view sectors fs n)"
    if "n < length (sectors (fs_dev fs))" "\<not> in_mirror fs n" for n
    using disk [OF that] that(1) len y(3) f(5) by (auto simp: nth_list_update)
  moreover have "fs_shape (fs2\<lparr>fs_dev := d\<rparr>) = fs_shape fs" using f(4) by (simp add: fs_shape_def)
  ultimately show ?thesis using f(3,5) y(3) len by auto
qed

end

text \<open>
  C20. After \<^verbatim>\<open>sync_fs\<close> the device holds what the volume showed, in every sector outside the second copy of the table; both
  copies of the table are equal; and on a FAT32 whose counters have changed the FSInfo sector tells the number of free
  clusters and the cluster allocated last. Nothing is left to write.
\<close>

theorem sync_fs_flushes:
  assumes "sector_device t pdrv ready sectors" "fat_volume t pdrv ready sectors fs"
    and "writes_fsinfo fs \<Longrightarrow> unat (volbase fs + 1) < length (sectors (fs_dev fs)) \<and> \<not> in_table fs (unat (volbase fs + 1))"
  shows "\<exists>fs'. sync_fs fs = Some (FR_OK, fs') \<and> fat_volume t pdrv ready sectors fs' \<and> \<not> wflag fs' \<and>
    (\<forall>n < length (sectors (fs_dev fs)). \<not> in_mirror fs n \<longrightarrow> \<not> (writes_fsinfo fs \<and> n = unat (volbase fs + 1)) \<longrightarrow>
       sectors (fs_dev fs') ! n = view sectors fs n) \<and>
    (n_fats fs = 2 \<longrightarrow> (\<forall>i < unat (fsize fs).
       sectors (fs_dev fs') ! (unat (fatbase fs) + unat (fsize fs) + i) = sectors (fs_dev fs') ! (unat (fatbase fs) + i))) \<and>
    (writes_fsinfo fs \<longrightarrow>
       ld_dword (drop FSI_Free_Count (sectors (fs_dev fs') ! unat (volbase fs + 1))) = free_clst fs \<and>
       ld_dword (drop FSI_Nxt_Free (sectors (fs_dev fs') ! unat (volbase fs + 1))) = last_clst fs)"
proof -
  from sector_device.sync_fs_ok [OF assms(1,2)] assms(3) obtain fs' where
      r: "sync_fs fs = Some (FR_OK, fs')" "fat_volume t pdrv ready sectors fs'" "\<not> wflag fs'" "fs_shape fs' = fs_shape fs"
      "\<forall>n < length (sectors (fs_dev fs)). \<not> in_mirror fs n \<longrightarrow> sectors (fs_dev fs') ! n =
        (if writes_fsinfo fs \<and> n = unat (volbase fs + 1) then fsinfo_sector (free_clst fs) (last_clst fs) else view sectors fs n)" by blast
  have "copies_ok sectors fs'" using r(2) by (simp add: fat_volume_def fat_wf_def)
  then have "n_fats fs = 2 \<longrightarrow> (\<forall>i < unat (fsize fs).
      sectors (fs_dev fs') ! (unat (fatbase fs) + unat (fsize fs) + i) = sectors (fs_dev fs') ! (unat (fatbase fs) + i))"
    using r(3) shape_simps [OF r(4)] by (simp add: copies_ok_def)
  moreover have "sectors (fs_dev fs') ! unat (volbase fs + 1) = fsinfo_sector (free_clst fs) (last_clst fs)" if "writes_fsinfo fs"
    using r(5) assms(3) [OF that] in_mirror_in_table [of fs] that by auto
  ultimately show ?thesis using r fsinfo_fields(2,3) by (intro exI [of _ fs']) auto
qed

theorem sync_fs_flushes_witness:
  "\<exists>fs'. sync_fs (demo_volume\<lparr>wflag := True, win := replicate 512 7\<rparr>) = Some (FR_OK, fs') \<and>
     ram_sectors (fs_dev fs') ! 1 = replicate 512 7"
proof -
  let ?fs = "demo_volume\<lparr>wflag := True, win := replicate 512 7\<rparr>"
  have "fat_volume ram_table 0 ram_ready ram_sectors ?fs"
    using demo_ready demo_sectors by (simp add: fat_volume_def fat_wf_def place_ok_def window_ok_def copies_ok_def in_mirror_def demo_simps)
  moreover have "\<not> writes_fsinfo ?fs" by (simp add: writes_fsinfo_def demo_simps)
  ultimately obtain fs' where "sync_fs ?fs = Some (FR_OK, fs')"
      "\<forall>n < length (ram_sectors (fs_dev ?fs)). \<not> in_mirror ?fs n \<longrightarrow> ram_sectors (fs_dev fs') ! n = view ram_sectors ?fs n"
    using sync_fs_flushes [OF ramdev.sector_device_axioms, of ?fs] by blast
  then show ?thesis using demo_sectors(1) by (auto simp: view_def in_mirror_def demo_simps)
qed

end
