(* ===== verification/Mipos_Fat_File_Props.thy ===== *)
theory Mipos_Fat_File_Props
  imports Mipos_Fat_Seek Mipos_Fat_Props
begin

text \<open>
  What FatFs promises of open files on any block device: a read delivers the contents of the file, whatever mix of
  cached and direct transfers it takes, and a write changes exactly the bytes it was given, in the clusters the file
  has and in free ones it takes.
\<close>

subsection \<open>An open file\<close>

text \<open>A file of 600 bytes on the chain of the volume of \<open>Mipos_Fat_Props\<close>, at position 500, with a sector that has not been written yet.\<close>

definition demo_fil :: FIL where
  "demo_fil = \<lparr>f_obj = \<lparr>obj_fs = True, obj_id = 1, obj_attr = 0, obj_stat = 0, obj_sclust = 2, obj_objsize = 600\<rparr>,
     f_flag = 0x83, f_err = FR_OK, f_fptr = 500, f_clust = 2, f_sect = 3, f_dir_sect = 2, f_dir_ptr = 0,
     f_buf = replicate 512 7\<rparr>"

lemma demo_fil_simps:
  "f_obj demo_fil = \<lparr>obj_fs = True, obj_id = 1, obj_attr = 0, obj_stat = 0, obj_sclust = 2, obj_objsize = 600\<rparr>"
  "f_flag demo_fil = 0x83" "f_err demo_fil = FR_OK" "f_fptr demo_fil = 500" "f_clust demo_fil = 2" "f_sect demo_fil = 3"
  "f_buf demo_fil = replicate 512 7"
  by (simp_all add: demo_fil_def)

lemma demo_place: "csize demo_volume = 1" "fs_database demo_volume = 3" "fs_id demo_volume = 1"
  by (simp_all add: demo_volume_def)

lemma demo_data: "data_ok (length (ram_sectors (fs_dev demo_volume))) demo_volume"
  using demo_table by (simp add: data_ok_def table_place_def csize_ok_def demo_simps demo_place demo_sectors)

lemma demo_sector: "k < 2 \<Longrightarrow> file_sector demo_volume [2, 3] k = 3 + k"
  by (auto simp: file_sector_def base_def demo_place less_2_cases_iff)

lemma demo_zero: "ram_sectors (fs_dev demo_volume) ! 4 = replicate 512 0"
proof -
  have "length demo_image = 4096" by (simp add: demo_image_def demo_fat_def)
  moreover have "sector_at demo_image 4 = replicate 512 0" by (simp add: sector_at_def demo_image_def demo_fat_def)
  ultimately show ?thesis by (simp add: ram_sectors_def demo_volume_def image_sectors_def)
qed

lemma demo_byte: "i < 1024 \<Longrightarrow> file_byte ram_sectors demo_volume demo_fil [2, 3] i = (if i < 512 then 7 else 0)"
proof -
  assume i: "i < 1024"
  then have "i div 512 < 2" by (simp add: less_mult_imp_div_less)
  moreover have "i div 512 = 1" if "\<not> i < 512" using that i by simp
  ultimately show ?thesis using i
    by (auto simp: file_byte_def eff_def demo_sector demo_fil_simps demo_zero mip_simps)
qed

lemma demo_file: "file_ok ram_sectors demo_volume demo_fil [2, 3]" "handle_ok demo_volume demo_fil"
proof -
  have "off_window demo_volume (set [2, 3])" by (simp add: off_window_def base_def demo_place demo_simps)
  moreover have "cache_ok ram_sectors demo_volume demo_fil [2, 3]" unfolding cache_ok_def
  proof (intro conjI impI allI)
    show "\<exists>k < length [2, 3 :: nat] * csz demo_volume. unat (f_sect demo_fil) = file_sector demo_volume [2, 3] k"
      by (rule exI [of _ 0]) (simp add: demo_place demo_sector demo_fil_simps)
    fix i assume i: "i < fsz demo_fil" "file_sector demo_volume [2, 3] (i div 512) = unat (f_sect demo_fil)"
    then have "i div 512 < 2" by (simp add: demo_fil_simps less_mult_imp_div_less)
    with i(2) have "i div 512 = 0" by (simp add: demo_sector demo_fil_simps)
    then have "i < 512" by simp
    then show "f_buf demo_fil ! (i mod 512) = file_byte ram_sectors demo_volume demo_fil [2, 3] i" by (simp add: demo_byte demo_fil_simps)
  qed (simp add: demo_fil_simps)
  ultimately show "file_ok ram_sectors demo_volume demo_fil [2, 3]"
    by (simp add: file_ok_def file_chain_def demo_entries demo_simps pos_ok_def demo_fil_simps demo_place demo_sector)
  show "handle_ok demo_volume demo_fil" by (simp add: handle_ok_def demo_fil_simps demo_simps demo_place mip_simps)
qed

lemma demo_room: "room ram_sectors demo_volume"
  using demo_sane demo_count demo_free by (simp add: room_def demo_simps off_window_def base_def demo_place)

lemma demo_contents: "file_bytes ram_sectors demo_volume demo_fil [2, 3] = replicate 512 7 @ replicate 88 0"
  by (rule nth_equalityI) (simp_all add: file_bytes_def demo_fil_simps demo_byte nth_append)

subsection \<open>Reading\<close>

text \<open>
  C4. Reading an open file returns the bytes that are there: from the position on, as many as asked for or as the file
  still has, in order and with nothing behind them touched in the buffer, although the call takes whole runs of
  sectors directly from the device, the parts through the cache of the file, and a sector that was changed and
  not yet written from the cache. The position moves behind them, the contents of the file and all entries of the table stay
  the same, and every sector outside the table and the file is as before.
\<close>

theorem f_read_contents:
  assumes "block_device t pdrv ready sectors" "fat_volume t pdrv ready sectors fs" "data_ok (length (sectors (fs_dev fs))) fs"
    and "handle_ok fs fp" "f_flag fp AND FA_READ \<noteq> 0" "file_ok sectors fs fp cs"
    and "n = min (unat btr) (fsz fp - fpos fp)" "n \<le> length buff"
  shows "\<exists>fp' fs'. f_read buff btr fp fs =
      Some ((FR_OK, of_nat n, take n (drop (fpos fp) (file_bytes sectors fs fp cs)) @ drop n buff, fp'), fs') \<and>
    fat_volume t pdrv ready sectors fs' \<and> handle_ok fs' fp' \<and> file_ok sectors fs' fp' cs \<and> fpos fp' = fpos fp + n \<and>
    file_bytes sectors fs' fp' cs = file_bytes sectors fs fp cs \<and> entry sectors fs' = entry sectors fs \<and>
    (\<forall>m < length (sectors (fs_dev fs)). \<not> in_table fs m \<longrightarrow> m \<notin> file_area fs cs \<longrightarrow> view sectors fs' m = view sectors fs m)"
  using block_device.f_read_ok [OF assms] unfolding calm_def by blast

theorem f_read_contents_witness:
  "\<exists>fp' fs'. f_read (replicate 30 9) 24 demo_fil demo_volume =
     Some ((FR_OK, 24, replicate 12 7 @ replicate 12 0 @ replicate 6 9, fp'), fs') \<and> file_ok ram_sectors fs' fp' [2, 3] \<and> fpos fp' = 524"
  using f_read_contents [OF ramblk.block_device_axioms demo_ok demo_data demo_file(2) _ demo_file(1) refl, of 24 "replicate 30 9"]
  by (auto simp: demo_fil_simps FA_READ_def demo_contents)

subsection \<open>Writing\<close>

text \<open>
  C5. Writing to an open file puts the bytes of the caller at the position and nothing else: the contents afterwards are the
  old ones up to the position, then the bytes written, then what the file had behind them. The call succeeds
  and writes everything, up to the largest file size, unless the volume runs out of free clusters. The
  clusters the file gains come from the free ones, and no others are lost; the chains of all other files stay as they
  are, and so does every sector outside the table and this file.
\<close>

theorem f_write_contents:
  assumes "block_device t pdrv ready sectors" "fat_volume t pdrv ready sectors fs" "data_ok (length (sectors (fs_dev fs))) fs"
    and "handle_ok fs fp" "f_flag fp AND FA_WRITE \<noteq> 0" "file_ok sectors fs fp cs" "room sectors fs"
    and "n = min (unat btw) (2 ^ 32 - 1 - fpos fp)" "n \<le> length buff" "E = entry sectors fs" "N = unat (n_fatent fs)"
  shows "\<exists>k es fp' fs'. f_write buff btw fp fs = Some ((FR_OK, of_nat k, fp'), fs') \<and> k \<le> n \<and>
    (k < n \<longrightarrow> free_set (entry sectors fs') N = {}) \<and> fat_volume t pdrv ready sectors fs' \<and> handle_ok fs' fp' \<and>
    file_ok sectors fs' fp' (cs @ es) \<and> room sectors fs' \<and> fpos fp' = fpos fp + k \<and>
    file_bytes sectors fs' fp' (cs @ es) =
      take (fpos fp) (file_bytes sectors fs fp cs) @ take k buff @ drop (fpos fp + k) (file_bytes sectors fs fp cs) \<and>
    set es \<subseteq> free_set E N \<and> free_set (entry sectors fs') N = free_set E N - set es \<and>
    (\<forall>ds. fat_chain E N ds \<longrightarrow> set ds \<inter> set cs = {} \<longrightarrow> fat_chain (entry sectors fs') N ds) \<and>
    (\<forall>m < length (sectors (fs_dev fs)). \<not> in_table fs m \<longrightarrow> m \<notin> file_area fs (cs @ es) \<longrightarrow> view sectors fs' m = view sectors fs m)"
proof -
  from block_device.f_write_ok [OF assms] obtain k es fp' fs' where
      w: "f_write buff btw fp fs = Some ((FR_OK, of_nat k, fp'), fs')" "k \<le> n" "k < n \<longrightarrow> free_set (entry sectors fs') N = {}"
      "fat_volume t pdrv ready sectors fs'" "calm sectors fs fs' (file_area fs (cs @ es))" "room sectors fs'" "grown E (entry sectors fs') N cs es"
      "handle_ok fs' fp'" "file_ok sectors fs' fp' (cs @ es)" "fpos fp' = fpos fp + k"
      "file_bytes sectors fs' fp' (cs @ es) =
        take (fpos fp) (file_bytes sectors fs fp cs) @ take k buff @ drop (fpos fp + k) (file_bytes sectors fs fp cs)" by blast
  then show ?thesis unfolding calm_def grown_def by blast
qed

theorem f_write_contents_witness:
  "\<exists>k es fp' fs'. f_write (replicate 700 1) 700 demo_fil demo_volume = Some ((FR_OK, of_nat k, fp'), fs') \<and> set es \<subseteq> {4, 5} \<and>
     file_bytes ram_sectors fs' fp' ([2, 3] @ es) = take 500 (replicate 512 7 @ replicate 88 0) @ take k (replicate 700 1) @
       drop (500 + k) (replicate 512 7 @ replicate 88 0)"
proof -
  have n: "700 = min (unat (700 :: u32)) (2 ^ 32 - 1 - fpos demo_fil)" by (simp add: demo_fil_simps)
  have p: "fpos demo_fil = 500" "unat (n_fatent demo_volume) = 6" by (simp_all add: demo_fil_simps demo_simps)
  have "f_flag demo_fil AND FA_WRITE \<noteq> 0" "700 \<le> length (replicate 700 (1 :: u8))" by (simp_all add: demo_fil_simps FA_WRITE_def)
  note w = f_write_contents [OF ramblk.block_device_axioms demo_ok demo_data demo_file(2) this(1) demo_file(1) demo_room n this(2) refl refl]
  show ?thesis using w unfolding demo_contents p demo_free by (elim exE conjE) (intro exI conjI, assumption+)
qed

text \<open>
  C12. What was written is read back: after a write, seeking to where it began and reading as many bytes as were written, all three calls succeed
  and the buffer holds the bytes that were written, whether they are still in the cache of the file or already on the device, and
  whatever chain the file has by now.
\<close>

theorem f_write_read_back:
  assumes "block_device t pdrv ready sectors" "fat_volume t pdrv ready sectors fs" "data_ok (length (sectors (fs_dev fs))) fs"
    and "handle_ok fs fp" "f_flag fp AND FA_WRITE \<noteq> 0" "f_flag fp AND FA_READ \<noteq> 0" "file_ok sectors fs fp cs" "room sectors fs"
    and "n = min (unat btw) (2 ^ 32 - 1 - fpos fp)" "n \<le> length buff" "n \<le> length out"
  shows "\<exists>k fp1 fs1 fp2 fs2 fp3 fs3. f_write buff btw fp fs = Some ((FR_OK, of_nat k, fp1), fs1) \<and> k \<le> n \<and>
    (k < n \<longrightarrow> free_set (entry sectors fs1) (unat (n_fatent fs)) = {}) \<and> f_lseek (f_fptr fp) fp1 fs1 = Some ((FR_OK, fp2), fs2) \<and>
    f_read out (of_nat k) fp2 fs2 = Some ((FR_OK, of_nat k, take k buff @ drop k out, fp3), fs3)"
  by (rule block_device.write_seek_read [OF assms])

theorem f_write_read_back_witness:
  "\<exists>k fp1 fs1 fp2 fs2 fp3 fs3. f_write [1, 2, 3] 3 demo_fil demo_volume = Some ((FR_OK, of_nat k, fp1), fs1) \<and> k \<le> 3 \<and>
    f_lseek 500 fp1 fs1 = Some ((FR_OK, fp2), fs2) \<and>
    f_read [9, 9, 9] (of_nat k) fp2 fs2 = Some ((FR_OK, of_nat k, take k [1, 2, 3] @ drop k [9, 9, 9], fp3), fs3)"
proof -
  have n: "3 = min (unat (3 :: u32)) (2 ^ 32 - 1 - fpos demo_fil)" by (simp add: demo_fil_simps)
  have "f_flag demo_fil AND FA_WRITE \<noteq> 0" "f_flag demo_fil AND FA_READ \<noteq> 0" "3 \<le> length [1, 2, 3 :: u8]" "3 \<le> length [9, 9, 9 :: u8]"
    by (simp_all add: demo_fil_simps mip_simps)
  from f_write_read_back [OF ramblk.block_device_axioms demo_ok demo_data demo_file(2) this(1,2) demo_file(1) demo_room n this(3,4)]
  show ?thesis unfolding demo_fil_simps by (elim exE conjE) (intro exI conjI, assumption+)
qed

end
