(* ===== verification/Mipos_Fat_Sync.thy ===== *)
theory Mipos_Fat_Sync
  imports Mipos_Fat_File_Props
begin

text \<open>
  What \<^verbatim>\<open>f_sync\<close> makes durable: the bytes of the file, its size and its first cluster in the directory entry, and
  the allocation table are on the device when the call returns, and nothing is left to write.
\<close>

unbundle bit_operations_syntax

subsection \<open>The directory entry\<close>

lemma ld_st_word:
  assumes "i + 1 < length b"
  shows "ld_word (drop i (st_word b i v)) = v"
proof (rule bit_eqI)
  fix n assume "possible_bit TYPE(u16) n"
  then have "n < 16" by simp
  then consider "n < 8" | "8 \<le> n" "n < 16" by linarith
  then show "bit (ld_word (drop i (st_word b i v))) n \<longleftrightarrow> bit v n"
    using assms by cases (auto simp: ld_word_def st_word_def bit_simps)
qed

lemma st_length [simp]: "length (st_word b i v) = length b" "length (st_dword b i x) = length b"
  by (simp_all add: st_word_def st_dword_def)

lemma st_other:
  "j < i \<or> i + 1 < j \<Longrightarrow> st_word b i v ! j = b ! j"
  "j < i \<or> i + 3 < j \<Longrightarrow> st_dword b i x ! j = b ! j"
  by (auto simp: st_word_def st_dword_def)

lemma ld_cong:
  "i + 1 < length a \<Longrightarrow> length b = length a \<Longrightarrow> a ! i = b ! i \<Longrightarrow> a ! (i + 1) = b ! (i + 1) \<Longrightarrow> ld_word (drop i a) = ld_word (drop i b)"
  "i + 3 < length a \<Longrightarrow> length b = length a \<Longrightarrow> a ! i = b ! i \<Longrightarrow> a ! (i + 1) = b ! (i + 1) \<Longrightarrow> a ! (i + 2) = b ! (i + 2) \<Longrightarrow>
     a ! (i + 3) = b ! (i + 3) \<Longrightarrow> ld_dword (drop i a) = ld_dword (drop i b)"
  by (simp_all add: ld_word_def ld_dword_def)

text \<open>The cluster number as a directory entry can hold it.\<close>

definition entry_clust :: "u8 \<Rightarrow> u32 \<Rightarrow> u32" where
  "entry_clust ty cl = (if ty = FS_FAT32 then cl else ucast (ucast cl :: u16))"

lemma join_words: "ucast (ucast cl :: u16) OR push_bit 16 (ucast (ucast (drop_bit 16 cl) :: u16)) = (cl :: u32)"
  by (rule bit_word_eqI) (auto simp: bit_simps)

lemma sync_entry_other:
  assumes "length (win fs) = 512" "f_dir_ptr fp + 32 \<le> 512" "j < f_dir_ptr fp + 11 \<or> f_dir_ptr fp + 32 \<le> j"
  shows "f_sync_entry fp fs ! j = win fs ! j"
  using assms by (auto simp: f_sync_entry_def st_clust_def Let_def st_other mip_simps)

lemma sync_entry_length [simp]: "length (f_sync_entry fp fs) = length (win fs)"
  by (simp add: f_sync_entry_def st_clust_def Let_def)

lemma sync_entry_size:
  assumes "length (win fs) = 512" "f_dir_ptr fp + 32 \<le> 512"
  shows "ld_dword (drop (f_dir_ptr fp + DIR_FileSize) (f_sync_entry fp fs)) = obj_objsize (f_obj fp)"
proof -
  let ?o = "f_dir_ptr fp"
  let ?w1 = "st_clust fs ((win fs)[?o + DIR_Attr := win fs ! (?o + DIR_Attr) OR AM_ARC]) ?o (obj_sclust (f_obj fp))"
  let ?w2 = "st_dword ?w1 (?o + DIR_FileSize) (obj_objsize (f_obj fp))"
  have len: "length ?w2 = 512" using assms(1) by (simp add: st_clust_def Let_def)
  have "ld_dword (drop (?o + DIR_FileSize) (f_sync_entry fp fs)) = ld_dword (drop (?o + DIR_FileSize) ?w2)"
    using assms len by (intro ld_cong) (auto simp: f_sync_entry_def Let_def st_other mip_simps)
  also have "\<dots> = obj_objsize (f_obj fp)" using assms len by (intro ld_st_dword) (simp add: mip_simps)
  finally show ?thesis .
qed

lemma st_clust_ld:
  assumes "length b = 512" "i + 32 \<le> 512"
  shows "ld_clust fs (drop i (st_clust fs b i cl)) = entry_clust (fs_type fs) cl"
proof -
  let ?b = "st_word b (i + DIR_FstClusLO) (ucast cl)"
  have lo: "ld_word (drop (i + DIR_FstClusLO) ?b) = ucast cl" using assms by (intro ld_st_word) (simp add: mip_simps)
  show ?thesis
  proof (cases "fs_type fs = FS_FAT32")
    case True
    let ?c = "st_word ?b (i + DIR_FstClusHI) (ucast (drop_bit 16 cl))"
    have "ld_word (drop (i + DIR_FstClusHI) ?c) = ucast (drop_bit 16 cl)" using assms by (intro ld_st_word) (simp add: mip_simps)
    moreover have "ld_word (drop (i + DIR_FstClusLO) ?c) = ld_word (drop (i + DIR_FstClusLO) ?b)"
      using assms by (intro ld_cong) (auto simp: st_other mip_simps)
    ultimately show ?thesis using True lo join_words [of cl]
      by (simp add: ld_clust_def st_clust_def Let_def entry_clust_def add.commute)
  next
    case False
    then show ?thesis using lo by (simp add: ld_clust_def st_clust_def Let_def entry_clust_def add.commute)
  qed
qed

lemma ld_clust_cong:
  assumes "length a = 512" "length b = 512" "i + 32 \<le> 512" "\<And>k. k \<in> {20, 21, 26, 27} \<Longrightarrow> a ! (i + k) = b ! (i + k)"
  shows "ld_clust fs (drop i a) = ld_clust fs (drop i b)"
proof -
  have "ld_word (drop (i + DIR_FstClusLO) a) = ld_word (drop (i + DIR_FstClusLO) b)"
    "ld_word (drop (i + DIR_FstClusHI) a) = ld_word (drop (i + DIR_FstClusHI) b)"
    using assms assms(4) [of 20] assms(4) [of 21] assms(4) [of 26] assms(4) [of 27]
    by (intro ld_cong; simp add: mip_simps add.commute add.left_commute)+
  then show ?thesis by (simp add: ld_clust_def Let_def add.commute)
qed

lemma sync_entry_clust:
  assumes "length (win fs) = 512" "f_dir_ptr fp + 32 \<le> 512"
  shows "ld_clust fs (drop (f_dir_ptr fp) (f_sync_entry fp fs)) = entry_clust (fs_type fs) (obj_sclust (f_obj fp))"
proof -
  let ?o = "f_dir_ptr fp" and ?w = "(win fs)[f_dir_ptr fp + DIR_Attr := win fs ! (f_dir_ptr fp + DIR_Attr) OR AM_ARC]"
  have "ld_clust fs (drop ?o (f_sync_entry fp fs)) = ld_clust fs (drop ?o (st_clust fs ?w ?o (obj_sclust (f_obj fp))))"
    using assms by (intro ld_clust_cong) (auto simp: f_sync_entry_def st_clust_def Let_def st_other mip_simps)
  also have "\<dots> = entry_clust (fs_type fs) (obj_sclust (f_obj fp))" using assms by (intro st_clust_ld) simp_all
  finally show ?thesis .
qed

lemma small_cluster:
  assumes "data_ok len fs" "file_ok sectors fs fp cs"
  shows "entry_clust (fs_type fs) (obj_sclust (f_obj fp)) = obj_sclust (f_obj fp)"
proof (cases "fs_type fs = FS_FAT32")
  case False
  have "unat (n_fatent fs) \<le> 0xFFF7"
    using assms(1) False by (auto simp: data_ok_def table_place_def table_ok_def max_entries_def split: if_splits)
  moreover have "unat (obj_sclust (f_obj fp)) < unat (n_fatent fs) \<or> obj_sclust (f_obj fp) = 0"
    using assms(2) file_ok_clusters [OF assms(2)] by (cases cs) (auto simp: file_ok_def file_chain_def clusters_ok_def)
  ultimately have "unat (obj_sclust (f_obj fp)) < 2 ^ 16" by auto
  then have "unat (ucast (ucast (obj_sclust (f_obj fp)) :: u16) :: u32) = unat (obj_sclust (f_obj fp))"
    by (simp add: unsigned_ucast_eq unsigned_take_bit_eq take_bit_nat_eq_self)
  then show ?thesis using False by (simp add: entry_clust_def word_unat_eq_iff)
qed (simp add: entry_clust_def)

subsection \<open>A sector outside the table changed in the window\<close>

context sector_device
begin

lemma set_win_data:
  assumes v: "vol fs" and w: "length w = 512" and n: "\<not> in_table fs (unat (winsect fs))"
  shows "vol (set_win w fs)" "entry sectors (set_win w fs) = entry sectors fs" "fs_shape (set_win w fs) = fs_shape fs"
    "view sectors (set_win w fs) m = (if m = unat (winsect fs) then w else view sectors fs m)"
proof -
  let ?fs = "set_win w fs"
  have wf: "fat_wf ready sectors fs" using v by (simp add: vol_def)
  have sel: "?fs = fs\<lparr>win := w, wflag := True\<rparr>" by (simp add: set_win_def)
  have mir: "in_mirror ?fs = in_mirror fs" by (simp add: sel in_mirror_def fun_eq_iff)
  have "window_ok sectors ?fs" using wf w mir by (simp add: sel fat_wf_def window_ok_def)
  moreover have "copies_ok sectors ?fs" using wf by (simp add: sel fat_wf_def copies_ok_def)
  ultimately show "vol ?fs" using v wf by (simp add: vol_def sel fat_wf_def place_ok_def)
  show "view sectors ?fs m = (if m = unat (winsect fs) then w else view sectors fs m)" for m by (simp add: sel view_def)
  have "fat_byte sectors ?fs i = fat_byte sectors fs i" for i
  proof (cases "i < 512 * unat (fsize fs)")
    case True
    then have "i div 512 < unat (fsize fs)" by (simp add: less_mult_imp_div_less mult.commute)
    then have "in_table fs (unat (fatbase fs) + i div 512)" using wf by (auto simp: in_table_def fat_wf_def place_ok_def)
    with n have "unat (fatbase fs) + i div 512 \<noteq> unat (winsect fs)" by metis
    then show ?thesis by (simp add: fat_byte_def sel view_def)
  qed (simp add: fat_byte_def sel)
  then have "fat_byte sectors ?fs = fat_byte sectors fs" by (rule ext)
  then show "entry sectors ?fs = entry sectors fs" by (intro ext) (simp add: entry_def sel)
qed (simp add: fs_shape_def set_win_def)

text \<open>After \<^verbatim>\<open>sync_fs\<close> the table is what it was.\<close>

lemma synced_entry:
  assumes v: "vol fs" "vol fs'" "\<not> wflag fs'" "fs_shape fs' = fs_shape fs"
    and disk: "\<And>n. n < length (sectors (fs_dev fs)) \<Longrightarrow> \<not> in_mirror fs n \<Longrightarrow> in_table fs n \<Longrightarrow> sectors (fs_dev fs') ! n = view sectors fs n"
  shows "entry sectors fs' = entry sectors fs" "view sectors fs' n = sectors (fs_dev fs') ! n"
proof -
  show vw: "view sectors fs' n = sectors (fs_dev fs') ! n" for n
    using v(2,3) by (auto simp: view_def vol_def fat_wf_def window_ok_def)
  have wf: "fat_wf ready sectors fs" using v(1) by (simp add: vol_def)
  note sh = shape_simps [OF v(4)]
  have "fat_byte sectors fs' i = fat_byte sectors fs i" for i
  proof (cases "i < 512 * unat (fsize fs)")
    case True
    then have "i div 512 < unat (fsize fs)" by (simp add: less_mult_imp_div_less mult.commute)
    then have "in_table fs (unat (fatbase fs) + i div 512)" using wf by (auto simp: in_table_def fat_wf_def place_ok_def)
    with disk table_sector [OF wf True] True vw show ?thesis by (simp add: fat_byte_def sh)
  qed (simp add: fat_byte_def sh)
  then have "fat_byte sectors fs' = fat_byte sectors fs" by (rule ext)
  then show "entry sectors fs' = entry sectors fs" by (intro ext) (simp add: entry_def sh)
qed

text \<open>The directory entry is written and everything pending with it.\<close>

lemma sync_dir_ok:
  assumes v: "vol fs" and D: "D = unat (f_dir_sect fp)" "D < length (sectors (fs_dev fs))" "\<not> in_table fs D"
    and info: "fs_type fs = FS_FAT32 \<Longrightarrow> unat (volbase fs + 1) < length (sectors (fs_dev fs)) \<and> \<not> in_table fs (unat (volbase fs + 1)) \<and>
      unat (volbase fs + 1) \<noteq> D"
  shows "\<exists>fs1 fs2. move_window (f_dir_sect fp) fs = Some (FR_OK, fs1) \<and> win fs1 = view sectors fs D \<and> length (win fs1) = 512 \<and>
    fs_type fs1 = fs_type fs \<and> sync_fs (set_win (f_sync_entry fp fs1) fs1) = Some (FR_OK, fs2) \<and> vol fs2 \<and> \<not> wflag fs2 \<and>
    fs_shape fs2 = fs_shape fs \<and> entry sectors fs2 = entry sectors fs \<and> length (sectors (fs_dev fs2)) = length (sectors (fs_dev fs)) \<and>
    sectors (fs_dev fs2) ! D = f_sync_entry fp fs1 \<and>
    (\<forall>m < length (sectors (fs_dev fs)). \<not> in_table fs m \<longrightarrow> m \<noteq> D \<longrightarrow> \<not> (fs_type fs = FS_FAT32 \<and> m = unat (volbase fs + 1)) \<longrightarrow>
       sectors (fs_dev fs2) ! m = view sectors fs m)"
proof -
  have mir: "\<not> in_mirror fs D" using D(3) in_mirror_in_table by blast
  obtain fs1 where m: "move_window (f_dir_sect fp) fs = Some (FR_OK, fs1)" "vol fs1" "same_view ready sectors fs fs1"
      "winsect fs1 = f_dir_sect fp" "win fs1 = view sectors fs D"
    using move_window_to [OF v, of "f_dir_sect fp"] D mir by auto
  note r = rewound_simps [OF same_view_rewound [OF m(3)]]
  have sh1: "fs_shape fs1 = fs_shape fs" by (rule table_only_shape [OF same_view_table_only [OF m(3)]])
  have t1: "in_table fs1 = in_table fs" by (rule shape_simps(9) [OF sh1])
  have len1: "length (win fs1) = 512" "length (sectors (fs_dev fs1)) = length (sectors (fs_dev fs))"
    using m(2,3) by (auto simp: vol_def fat_wf_def window_ok_def same_view_def)
  have e1: "entry sectors fs1 = entry sectors fs" using same_view_entry [OF m(3)] v by (simp add: vol_def)
  let ?w = "f_sync_entry fp fs1"
  let ?fs = "set_win ?w fs1"
  have lw: "length ?w = 512" using len1(1) by simp
  have "\<not> in_table fs1 (unat (winsect fs1))" using D(1,3) m(4) t1 by simp
  note sw = set_win_data [OF m(2) lw this]
  have sh: "fs_shape ?fs = fs_shape fs" using sw(3) sh1 by simp
  have dev: "fs_dev ?fs = fs_dev fs1" "volbase ?fs = volbase fs" by (simp_all add: set_win_def r)
  have "in_mirror ?fs = in_mirror fs1" by (simp add: in_mirror_def set_win_def fun_eq_iff)
  then have mir': "in_mirror ?fs = in_mirror fs" using r(17) by simp
  have info': "unat (volbase fs + 1) < length (sectors (fs_dev fs)) \<and> \<not> in_table fs (unat (volbase fs + 1))" if "writes_fsinfo ?fs"
    using info that shape_simps(1) [OF sh] by (simp add: writes_fsinfo_def)
  obtain fs2 where s: "sync_fs ?fs = Some (FR_OK, fs2)" "vol fs2" "\<not> wflag fs2" "fs_shape fs2 = fs_shape ?fs"
      "length (sectors (fs_dev fs2)) = length (sectors (fs_dev ?fs))"
      "\<forall>n < length (sectors (fs_dev ?fs)). \<not> in_mirror ?fs n \<longrightarrow> sectors (fs_dev fs2) ! n =
        (if writes_fsinfo ?fs \<and> n = unat (volbase ?fs + 1) then fsinfo_sector (free_clst ?fs) (last_clst ?fs) else view sectors ?fs n)"
    using sync_fs_ok [OF sw(1)] info' shape_simps(9) [OF sh] len1(2) dev by fastforce
  have disk: "sectors (fs_dev fs2) ! n = view sectors ?fs n"
    if "n < length (sectors (fs_dev fs))" "\<not> in_mirror fs n" "\<not> (fs_type fs = FS_FAT32 \<and> n = unat (volbase fs + 1))" for n
    using that s(6) len1(2) dev mir' shape_simps(1) [OF sh] by (auto simp: writes_fsinfo_def)
  have "entry sectors fs2 = entry sectors ?fs"
    using synced_entry(1) [OF sw(1) s(2,3,4)] disk info len1(2) dev mir' shape_simps(9) [OF sh] by auto
  moreover have "sectors (fs_dev fs2) ! D = ?w" 
    using disk [OF D(2) mir] info sw(4) [of D] m(4) D(1) by metis
  moreover have "sectors (fs_dev fs2) ! n = view sectors fs n"
    if n: "n < length (sectors (fs_dev fs))" "\<not> in_table fs n" "n \<noteq> D" "\<not> (fs_type fs = FS_FAT32 \<and> n = unat (volbase fs + 1))" for n
  proof -
    have nm: "\<not> in_mirror fs n" using n(2) in_mirror_in_table by blast
    then have "view sectors fs1 n = view sectors fs n" using m(3) n(1) by (simp add: same_view_def)
    with disk [OF n(1) nm n(4)] sw(4) [of n] n(3) m(4) D(1) show ?thesis by simp
  qed
  ultimately show ?thesis using m(1,5) len1 r(1) s sh e1 sw(2) dev by (intro exI [of _ fs1] exI [of _ fs2]) simp
qed

end

subsection \<open>The call\<close>

context block_device
begin

lemma f_sync_ok:
  assumes v: "vol fs" and geo: "data_ok (length (sectors (fs_dev fs))) fs" and h: "handle_ok fs fp" "f_flag fp AND FA_MODIFIED \<noteq> 0"
    and fok: "file_ok sectors fs fp cs"
    and D: "D = unat (f_dir_sect fp)" "D < length (sectors (fs_dev fs))" "\<not> in_table fs D" "D \<notin> file_area fs cs" "f_dir_ptr fp + 32 \<le> 512"
    and info: "fs_type fs = FS_FAT32 \<longrightarrow> unat (volbase fs + 1) < length (sectors (fs_dev fs)) \<and> \<not> in_table fs (unat (volbase fs + 1)) \<and>
      unat (volbase fs + 1) \<noteq> D \<and> unat (volbase fs + 1) \<notin> file_area fs cs"
  shows "\<exists>fp' fs' (fs1 :: 'a FATFS). f_sync fp fs = Some ((FR_OK, fp'), fs') \<and> vol fs' \<and> \<not> wflag fs' \<and> f_obj fp' = f_obj fp \<and>
    f_flag fp' = (f_flag fp AND NOT FA_DIRTY) AND NOT FA_MODIFIED \<and>
    fs_shape fs' = fs_shape fs \<and> entry sectors fs' = entry sectors fs \<and>
    win fs1 = view sectors fs D \<and> length (win fs1) = 512 \<and> fs_type fs1 = fs_type fs \<and> sectors (fs_dev fs') ! D = f_sync_entry fp fs1 \<and>
    (\<forall>i < fsz fp. sectors (fs_dev fs') ! file_sector fs cs (i div 512) ! (i mod 512) = file_byte sectors fs fp cs i) \<and>
    (\<forall>m < length (sectors (fs_dev fs)). \<not> in_table fs m \<longrightarrow> m \<notin> file_area fs cs \<longrightarrow> m \<noteq> D \<longrightarrow>
       \<not> (fs_type fs = FS_FAT32 \<and> m = unat (volbase fs + 1)) \<longrightarrow> sectors (fs_dev fs') ! m = view sectors fs m)"
proof -
  have "fs_table fs = t" "fs_pdrv fs = pdrv" "ready (fs_dev fs)" using v by (auto simp: vol_def fat_wf_def)
  with status_ok [OF this(3)] h(1) obtain d where
      d: "validate (f_obj fp) fs = Some (FR_OK, fs\<lparr>fs_dev := d\<rparr>)" "ready d" "sectors d = sectors (fs_dev fs)"
    by (auto simp: validate_def fat_status_def handle_ok_def)
  let ?fs = "fs\<lparr>fs_dev := d\<rparr>" and ?fp = "fp\<lparr>f_flag := f_flag fp AND NOT FA_DIRTY\<rparr>"
  note k = file_same_sectors [OF geo fok v d(2,3)]
  have sh0: "fs_shape ?fs = fs_shape fs" by (simp add: fs_shape_def)
  have geo1: "data_ok (length (sectors (fs_dev ?fs))) ?fs" using geo shape_data(5) [OF sh0] d(3) by simp
  have fat: "file_at sectors ?fs fp cs" using k(4) file_ok_at by blast
  obtain fs2 where w: "fil_writeback fp ?fs = Some ((FR_OK, ?fp), fs2)" "vol fs2" "calm sectors ?fs fs2 (file_area ?fs cs)"
      "entry sectors fs2 = entry sectors ?fs" "file_at sectors fs2 ?fp cs"
      "\<forall>i < fsz fp. file_byte sectors fs2 ?fp cs i = file_byte sectors ?fs fp cs i"
    using fil_writeback_ok [OF k(1) geo1 fat] by blast
  have c: "calm sectors fs fs2 (file_area fs cs)"
    using calm_trans [OF k(3) [of "{}"] w(3)] shape_data(2) [OF sh0] by (simp add: file_area_def)
  note sh2 = calm_shape [OF c] and len2 = calm_length [OF c]
  have vb: "volbase fs2 = volbase fs" "in_table fs2 = in_table fs" "fs_type fs2 = fs_type fs"
    using sh2 shape_simps [OF sh2] by (simp_all add: fs_shape_def)
  have "D = unat (f_dir_sect ?fp)" using D(1) by simp
  moreover have "D < length (sectors (fs_dev fs2))" "\<not> in_table fs2 D" using D(2,3) vb len2 by simp_all
  moreover have "unat (volbase fs2 + 1) < length (sectors (fs_dev fs2)) \<and> \<not> in_table fs2 (unat (volbase fs2 + 1)) \<and> unat (volbase fs2 + 1) \<noteq> D"
    if "fs_type fs2 = FS_FAT32" using that info vb len2 by simp
  ultimately obtain fs3 fs4 where
      s: "move_window (f_dir_sect ?fp) fs2 = Some (FR_OK, fs3)" "win fs3 = view sectors fs2 D" "length (win fs3) = 512" "fs_type fs3 = fs_type fs2"
      "sync_fs (set_win (f_sync_entry ?fp fs3) fs3) = Some (FR_OK, fs4)" "vol fs4" "\<not> wflag fs4" "fs_shape fs4 = fs_shape fs2"
      "entry sectors fs4 = entry sectors fs2" "sectors (fs_dev fs4) ! D = f_sync_entry ?fp fs3"
      "\<forall>m < length (sectors (fs_dev fs)). \<not> in_table fs m \<longrightarrow> m \<noteq> D \<longrightarrow> \<not> (fs_type fs = FS_FAT32 \<and> m = unat (volbase fs + 1)) \<longrightarrow>
         sectors (fs_dev fs4) ! m = view sectors fs2 m"
    using sync_dir_ok [OF w(2)] unfolding vb len2 by metis
  have "f_sync_entry ?fp fs3 = f_sync_entry fp fs3" by (simp add: f_sync_entry_def Let_def)
  moreover have "view sectors fs2 m = view sectors fs m" if "m < length (sectors (fs_dev fs))" "\<not> in_table fs m" "m \<notin> file_area fs cs" for m
    using that c by (simp add: calm_def)
  moreover have "sectors (fs_dev fs4) ! file_sector fs cs (i div 512) ! (i mod 512) = file_byte sectors fs fp cs i" if i: "i < fsz fp" for i
  proof -
    let ?k = "i div 512"
    have "fsz fp \<le> length cs * csz fs * 512" using fok by (simp add: file_ok_def pos_ok_def)
    with i have kl: "?k < length cs * csz fs" by (simp add: less_mult_imp_div_less)
    have cl: "clusters_ok fs cs" by (rule file_ok_clusters [OF fok])
    note rg = file_sector_range [OF geo cl kl] and ia = in_area [OF kl]
    have off: "off_window fs2 (set cs)" using w(5) by (simp add: file_at_def)
    have ne: "file_sector fs cs ?k \<noteq> unat (winsect fs2)"
      using off_window_sector [of _ fs2 cs ?k] off geo kl shape_data [OF sh2] by metis
    have "sectors (fs_dev fs4) ! file_sector fs cs ?k = view sectors fs2 (file_sector fs cs ?k)"
      using s(11) rg ia D(4) info by metis
    also have "\<dots> = sectors (fs_dev fs2) ! file_sector fs cs ?k" using ne by (simp add: view_def)
    also have "\<dots> ! (i mod 512) = file_byte sectors fs2 ?fp cs i"
      by (simp add: file_byte_def eff_def shape_data [OF sh2] word_bw_assocs)
    finally show ?thesis using w(6) i k(5) by simp
  qed
  moreover have "f_sync fp fs = Some ((FR_OK, ?fp\<lparr>f_flag := f_flag ?fp AND NOT FA_MODIFIED\<rparr>), fs4)"
    using d(1) h(2) w(1) s(1,5) by (simp add: f_sync_def)
  ultimately show ?thesis using s sh2 w(4) k(2) vb D(2,3,4)
    by - (rule exI [of _ "?fp\<lparr>f_flag := f_flag ?fp AND NOT FA_MODIFIED\<rparr>"], rule exI [of _ fs4], rule exI [of _ fs3], simp)
qed

end

text \<open>
  C13. After \<^verbatim>\<open>f_sync\<close> of a changed file all of it is on the device: every byte of the file as it was seen through the
  open file, the size and the first cluster in its directory entry, whose name and the rest of the sector stay
  as they were, and the whole allocation table; nothing is left in the cache of the file or in the window, and
  no other sector but the FSInfo sector of a FAT32 changes.
\<close>

theorem f_sync_durable:
  assumes dev: "block_device t pdrv ready sectors" and v: "fat_volume t pdrv ready sectors fs" and geo: "data_ok (length (sectors (fs_dev fs))) fs"
    and h: "handle_ok fs fp" "f_flag fp AND FA_MODIFIED \<noteq> 0" and fok: "file_ok sectors fs fp cs"
    and D: "D = unat (f_dir_sect fp)" "D < length (sectors (fs_dev fs))" "\<not> in_table fs D" "D \<notin> file_area fs cs" "f_dir_ptr fp + 32 \<le> 512"
    and info: "fs_type fs = FS_FAT32 \<longrightarrow> unat (volbase fs + 1) < length (sectors (fs_dev fs)) \<and> \<not> in_table fs (unat (volbase fs + 1)) \<and>
      unat (volbase fs + 1) \<noteq> D \<and> unat (volbase fs + 1) \<notin> file_area fs cs"
  shows "\<exists>fp' fs'. f_sync fp fs = Some ((FR_OK, fp'), fs') \<and> fat_volume t pdrv ready sectors fs' \<and> \<not> wflag fs' \<and> \<not> dirty fp' \<and>
    f_flag fp' AND FA_MODIFIED = 0 \<and> entry sectors fs' = entry sectors fs \<and>
    (\<forall>i < fsz fp. sectors (fs_dev fs') ! file_sector fs cs (i div 512) ! (i mod 512) = file_bytes sectors fs fp cs ! i) \<and>
    ld_dword (drop (f_dir_ptr fp + DIR_FileSize) (sectors (fs_dev fs') ! D)) = obj_objsize (f_obj fp) \<and>
    ld_clust fs (drop (f_dir_ptr fp) (sectors (fs_dev fs') ! D)) = obj_sclust (f_obj fp) \<and>
    (\<forall>j < 512. j < f_dir_ptr fp + 11 \<or> f_dir_ptr fp + 32 \<le> j \<longrightarrow> sectors (fs_dev fs') ! D ! j = view sectors fs D ! j) \<and>
    (\<forall>m < length (sectors (fs_dev fs)). \<not> in_table fs m \<longrightarrow> m \<notin> file_area fs cs \<longrightarrow> m \<noteq> D \<longrightarrow>
       \<not> (fs_type fs = FS_FAT32 \<and> m = unat (volbase fs + 1)) \<longrightarrow> sectors (fs_dev fs') ! m = view sectors fs m)"
proof -
  obtain fp' fs' and fs1 :: "'a FATFS" where s: "f_sync fp fs = Some ((FR_OK, fp'), fs')" "fat_volume t pdrv ready sectors fs'" "\<not> wflag fs'"
      "f_flag fp' = (f_flag fp AND NOT FA_DIRTY) AND NOT FA_MODIFIED" "entry sectors fs' = entry sectors fs"
      "win fs1 = view sectors fs D" "length (win fs1) = 512" "fs_type fs1 = fs_type fs" "sectors (fs_dev fs') ! D = f_sync_entry fp fs1"
      "\<forall>i < fsz fp. sectors (fs_dev fs') ! file_sector fs cs (i div 512) ! (i mod 512) = file_byte sectors fs fp cs i"
      "\<forall>m < length (sectors (fs_dev fs)). \<not> in_table fs m \<longrightarrow> m \<notin> file_area fs cs \<longrightarrow> m \<noteq> D \<longrightarrow>
         \<not> (fs_type fs = FS_FAT32 \<and> m = unat (volbase fs + 1)) \<longrightarrow> sectors (fs_dev fs') ! m = view sectors fs m"
    using block_device.f_sync_ok [OF dev v geo h fok D info] by (elim exE conjE) (rule that; assumption)
  have "ld_clust fs = ld_clust fs1" using s(8) by (simp add: ld_clust_def fun_eq_iff Let_def)
  moreover have "entry_clust (fs_type fs) (obj_sclust (f_obj fp)) = obj_sclust (f_obj fp)"
    by (rule small_cluster [OF geo fok])
  moreover have "f_flag fp' AND FA_DIRTY = 0" "f_flag fp' AND FA_MODIFIED = 0"
    unfolding s(4) by (rule bit_word_eqI; auto simp: bit_simps)+
  ultimately show ?thesis
    using s sync_entry_size [OF s(7) D(5)] sync_entry_clust [OF s(7) D(5)] sync_entry_other [OF s(7) D(5)]
    by (intro exI [of _ fp'] exI [of _ fs']) (auto simp: file_bytes_def)
qed

text \<open>The file of \<open>Mipos_Fat_File_Props\<close>, marked as changed.\<close>

definition changed_fil :: FIL where
  "changed_fil = demo_fil\<lparr>f_flag := 0xC3\<rparr>"

lemma changed_fil_ok: "file_ok ram_sectors demo_volume changed_fil [2, 3]" "handle_ok demo_volume changed_fil"
proof -
  have "file_byte ram_sectors demo_volume changed_fil = file_byte ram_sectors demo_volume demo_fil"
    by (intro ext) (simp add: file_byte_def eff_def changed_fil_def demo_fil_simps mip_simps)
  with demo_file show "file_ok ram_sectors demo_volume changed_fil [2, 3]" "handle_ok demo_volume changed_fil"
    by (simp_all add: file_ok_def file_chain_def pos_ok_def cache_ok_def handle_ok_def changed_fil_def demo_fil_simps mip_simps)
qed

theorem f_sync_durable_witness:
  "\<exists>fp' fs'. f_sync changed_fil demo_volume = Some ((FR_OK, fp'), fs') \<and> \<not> wflag fs' \<and> \<not> dirty fp' \<and>
     ram_sectors (fs_dev fs') ! 3 ! 10 = 7 \<and> ld_dword (drop 28 (ram_sectors (fs_dev fs') ! 2)) = 600 \<and>
     ld_clust demo_volume (ram_sectors (fs_dev fs') ! 2) = 2"
proof -
  have fp: "f_dir_sect changed_fil = 2" "f_dir_ptr changed_fil = 0" "f_flag changed_fil = 0xC3"
    "obj_objsize (f_obj changed_fil) = 600" "obj_sclust (f_obj changed_fil) = 2"
    by (simp_all add: changed_fil_def demo_fil_def)
  have "file_area demo_volume [2, 3] \<subseteq> {3, 4}"
    using demo_sector [of 0] demo_sector [of 1] by (auto simp: file_area_def demo_place less_Suc_eq)
  then have D: "2 = unat (f_dir_sect changed_fil)" "2 < length (ram_sectors (fs_dev demo_volume))" "\<not> in_table demo_volume 2"
      "2 \<notin> file_area demo_volume [2, 3]" "f_dir_ptr changed_fil + 32 \<le> 512"
    by (auto simp: fp demo_sectors in_table_def demo_simps)
  have m: "f_flag changed_fil AND FA_MODIFIED \<noteq> 0" by (simp add: fp mip_simps)
  obtain fp' fs' where s: "f_sync changed_fil demo_volume = Some ((FR_OK, fp'), fs')" "\<not> wflag fs'" "\<not> dirty fp'"
      "\<forall>i < 600. ram_sectors (fs_dev fs') ! file_sector demo_volume [2, 3] (i div 512) ! (i mod 512) =
         file_bytes ram_sectors demo_volume changed_fil [2, 3] ! i"
      "ld_dword (drop 28 (ram_sectors (fs_dev fs') ! 2)) = 600" "ld_clust demo_volume (ram_sectors (fs_dev fs') ! 2) = 2"
    using f_sync_durable [OF ramblk.block_device_axioms demo_ok demo_data changed_fil_ok(2) m changed_fil_ok(1) D]
    by (auto simp: fp demo_simps DIR_FileSize_def FS_FAT16_def FS_FAT32_def)
  have "file_bytes ram_sectors demo_volume changed_fil [2, 3] ! 10 = 7"
    by (simp add: file_bytes_def fp file_byte_def eff_def changed_fil_def demo_fil_simps demo_sector mip_simps)
  with s(4) [rule_format, of 10] have "ram_sectors (fs_dev fs') ! 3 ! 10 = 7" by (simp add: demo_sector)
  with s show ?thesis by blast
qed

end
