(* ===== verification/Mipos_Fat_Geometry.thy ===== *)
theory Mipos_Fat_Geometry
  imports Mipos_Fat_Contents
begin

text \<open>
  What a boot sector must be to be mounted. From the fields that \<^verbatim>\<open>find_volume\<close> accepts follow the conditions on the geometry of
  a volume under which the lemmas on the table and on files hold.
\<close>

subsection \<open>Sectors per cluster\<close>

lemma pow2_all: "list_all (\<lambda>n :: int. n = 0 \<or> and n (n - 1) \<noteq> 0 \<or> n \<in> {1, 2, 4, 8, 16, 32, 64, 128}) [0..255]"
  by code_simp

lemma pow2_csize:
  fixes b :: u8
  assumes "ucast b \<noteq> (0 :: u16)" "ucast b AND (ucast b - 1) = (0 :: u16)"
  shows "csize_ok (ucast b)"
proof -
  let ?c = "ucast b :: u16"
  have u: "uint ?c = uint b" "uint b \<in> set [0..255]" using uint_ge_0 [of b] uint_bounded [of b] by (simp_all add: unsigned_ucast_eq take_bit_eq_mod)
  have nz: "uint ?c \<noteq> 0" using assms(1) by (simp add: word_uint_eq_iff)
  then have "1 \<le> uint ?c" using uint_ge_0 [of ?c] by linarith
  then have "uint (1 :: u16) \<le> uint ?c" by simp
  then have "uint (?c - 1) = uint ?c - uint (1 :: u16)" by (rule iffD1 [OF uint_sub_lem])
  then have "uint (?c - 1) = uint b - 1" using u(1) by (simp only: unsigned_1)
  moreover have "uint (?c AND (?c - 1)) = and (uint ?c) (uint (?c - 1))" by (simp add: unsigned_and_eq)
  ultimately have "and (uint b) (uint b - 1) = 0" using assms(2) u(1) by simp
  moreover have "uint b \<noteq> 0" using nz u(1) by simp
  ultimately have "uint ?c \<in> {1, 2, 4, 8, 16, 32, 64, 128}" using pow2_all u by (auto simp: list_all_iff)
  then show ?thesis by (auto simp: csize_ok_def word_uint_eq_iff)
qed

subsection \<open>The size of the table\<close>

lemma needed_fat_unat:
  assumes "fmt \<in> {FS_FAT12, FS_FAT16, FS_FAT32}" "unat m \<le> max_entries fmt"
  shows "unat (needed_fat fmt m) = table_bytes fmt (unat m)" "table_bytes fmt (unat m) < 2 ^ 31"
proof -
  have "unat (m AND 1) = unat m mod 2" by (simp add: and_one_eq unat_mod)
  moreover have "3 * unat m div 2 + unat m mod 2 = Suc (3 * unat m) div 2" by arith
  ultimately show "unat (needed_fat fmt m) = table_bytes fmt (unat m)"
    using assms by (auto simp: needed_fat_def table_bytes_def max_entries_def mip_simps unat_word_ariths unat_div mult.commute)
  show "table_bytes fmt (unat m) < 2 ^ 31" using assms by (auto simp: table_bytes_def max_entries_def mip_simps)
qed

lemma needed_fat_bytes:
  assumes "fmt = fat_subtype n" "n \<noteq> 0" "fmt \<noteq> 0" "\<not> sz < (needed_fat fmt (n + 2) + 511) div 512"
  shows "fmt \<in> {FS_FAT12, FS_FAT16, FS_FAT32}" "unat (n + 2) = unat n + 2" "unat (n + 2) \<le> max_entries fmt"
    "table_bytes fmt (unat (n + 2)) \<le> 512 * unat sz"
proof -
  show ty: "fmt \<in> {FS_FAT12, FS_FAT16, FS_FAT32}" using assms(1,3) by (auto simp: fat_subtype_def split: if_splits)
  have le: "unat n \<le> 0x0FFFFFF5" using assms(1,3) by (auto simp: fat_subtype_def mip_simps word_le_nat_alt split: if_splits)
  show n2: "unat (n + 2) = unat n + 2" using le by (simp add: unat_word_ariths)
  show "unat (n + 2) \<le> max_entries fmt"
    using assms(1,3) n2 by (auto simp: fat_subtype_def max_entries_def mip_simps word_le_nat_alt split: if_splits)
  show "table_bytes fmt (unat (n + 2)) \<le> 512 * unat sz"
  proof -
    have "unat (n + 2) \<le> 0x0FFFFFF7" using n2 le by simp
    note nb = needed_fat_unat [OF ty \<open>unat (n + 2) \<le> max_entries fmt\<close>]
    have "unat ((needed_fat fmt (n + 2) + 511) div 512) = (table_bytes fmt (unat (n + 2)) + 511) div 512"
      using nb by (simp add: unat_div unat_word_ariths)
    with assms(4) have "(table_bytes fmt (unat (n + 2)) + 511) div 512 \<le> unat sz" by (simp add: word_less_nat_alt)
    then show ?thesis by linarith
  qed
qed

subsection \<open>The boot sector\<close>

text \<open>The number of sectors of the volume.\<close>

definition bpb_sectors :: "octets \<Rightarrow> u32" where
  "bpb_sectors w = (if ld_word (drop BPB_TotSec16 w) = 0 then ld_dword (drop BPB_TotSec32 w) else ucast (ld_word (drop BPB_TotSec16 w)))"

lemma parse_bpb_fields:
  assumes "parse_bpb bsect fs = ((FR_OK, ty), fs')"
  shows "\<exists>nrsv nclst. ty = fat_subtype nclst \<and> ty \<noteq> 0 \<and> nclst \<noteq> 0 \<and> nrsv \<noteq> 0 \<and> (n_fats fs' = 1 \<or> n_fats fs' = 2) \<and>
    csize fs' = ucast (win fs ! BPB_SecPerClus) \<and> csize fs' \<noteq> 0 \<and> csize fs' AND (csize fs' - 1) = 0 \<and>
    (let sysect = ucast (nrsv :: u16) + fsize fs' * ucast (n_fats fs') + ucast (n_rootdir fs') div 16 in
      sysect \<le> bpb_sectors (win fs) \<and> nclst = (bpb_sectors (win fs) - sysect) div ucast (csize fs') \<and>
      n_fatent fs' = nclst + 2 \<and> volbase fs' = bsect \<and> fatbase fs' = bsect + ucast nrsv \<and> fs_database fs' = bsect + sysect \<and>
      (ty \<noteq> FS_FAT32 \<longrightarrow> dirbase fs' = fatbase fs' + fsize fs' * ucast (n_fats fs')) \<and>
      \<not> fsize fs' < (needed_fat ty (n_fatent fs') + 511) div 512) \<and>
    (\<exists>a b c d e f g h i. fs' = fs\<lparr>fsize := a, n_fats := b, csize := c, n_rootdir := d, n_fatent := e, volbase := f, fatbase := g, fs_database := h, dirbase := i\<rparr>)"
proof -
  let ?w = "win fs"
  define sz where "sz = (if ld_word (drop BPB_FATSz16 ?w) = 0 then ld_dword (drop BPB_FATSz32 ?w) else ucast (ld_word (drop BPB_FATSz16 ?w)))"
  define nf where "nf = ?w ! BPB_NumFATs"
  define cl where "cl = (ucast (?w ! BPB_SecPerClus) :: u16)"
  define rd where "rd = ld_word (drop BPB_RootEntCnt ?w)"
  define nrsv where "nrsv = ld_word (drop BPB_RsvdSecCnt ?w)"
  define sysect where "sysect = ucast nrsv + sz * ucast nf + ucast rd div (16 :: u32)"
  define nclst where "nclst = (bpb_sectors ?w - sysect) div ucast cl"
  note body = parse_bpb_def Let_def sz_def [symmetric] bpb_sectors_def [symmetric] nf_def [symmetric] cl_def [symmetric] rd_def [symmetric]
    nrsv_def [symmetric]
  have c1: "ld_word (drop BPB_BytsPerSec ?w) = of_nat SS" by (rule ccontr) (use assms in \<open>simp add: body\<close>)
  have c2: "nf = 1 \<or> nf = 2" by (rule ccontr) (use assms c1 in \<open>simp add: body\<close>)
  then have c2': "(nf \<noteq> 1 \<and> nf \<noteq> 2) = False" by blast
  have c3: "cl \<noteq> 0" "cl AND (cl - 1) = 0" by (rule ccontr, use assms c1 c2' in \<open>simp add: body\<close>)+
  have c4: "rd mod 16 = 0" by (rule ccontr) (use assms c1 c2' c3 in \<open>simp add: body\<close>)
  have c5: "nrsv \<noteq> 0" by (rule ccontr) (use assms c1 c2' c3 c4 in \<open>simp add: body\<close>)
  note chk = c1 c2' c3 c4 c5 body sysect_def [symmetric]
  have c6: "\<not> bpb_sectors ?w < sysect" by (rule ccontr) (use assms in \<open>simp add: chk\<close>)
  then have c6': "sysect \<le> bpb_sectors ?w" by simp
  note chk = chk c6 nclst_def [symmetric]
  have c7: "nclst \<noteq> 0" "fat_subtype nclst \<noteq> 0" by (rule ccontr, use assms in \<open>simp add: chk\<close>)+
  have "ty = fat_subtype nclst \<and> ty \<noteq> 0 \<and> nclst \<noteq> 0 \<and> nrsv \<noteq> 0 \<and> (nf = 1 \<or> nf = 2) \<and> cl \<noteq> 0 \<and> cl AND (cl - 1) = 0 \<and>
      sysect \<le> bpb_sectors ?w \<and> \<not> sz < (needed_fat ty (nclst + 2) + 511) div 512 \<and>
      fs' = fs\<lparr>fsize := sz, n_fats := nf, csize := cl, n_rootdir := rd, n_fatent := nclst + 2, volbase := bsect, fatbase := bsect + ucast nrsv,
        fs_database := bsect + sysect, dirbase := if ty = FS_FAT32 then ld_dword (drop BPB_RootClus32 ?w) else bsect + ucast nrsv + sz * ucast nf\<rparr>"
    using assms c2 c3 c5 c6' c7 by (simp add: chk split: if_splits)
  then show ?thesis unfolding Let_def
    by (elim conjE) (intro exI [of _ nrsv] exI [of _ nclst], simp add: sysect_def nclst_def cl_def, blast)
qed

text \<open>What is checked of every boot sector that is accepted.\<close>

lemma parse_bpb_table:
  assumes "parse_bpb bsect fs = ((FR_OK, ty), fs')"
  shows "n_fats fs' = 1 \<or> n_fats fs' = 2" "csize_ok (csize fs')" "ty \<in> {FS_FAT12, FS_FAT16, FS_FAT32}"
    "2 < unat (n_fatent fs')" "unat (n_fatent fs') \<le> max_entries ty" "table_bytes ty (unat (n_fatent fs')) \<le> 512 * unat (fsize fs')"
proof -
  obtain nclst where f: "ty = fat_subtype nclst" "ty \<noteq> 0" "nclst \<noteq> 0" "n_fats fs' = 1 \<or> n_fats fs' = 2"
      "csize fs' = ucast (win fs ! BPB_SecPerClus)" "csize fs' \<noteq> 0" "csize fs' AND (csize fs' - 1) = 0"
      "n_fatent fs' = nclst + 2" "\<not> fsize fs' < (needed_fat ty (n_fatent fs') + 511) div 512"
    using parse_bpb_fields [OF assms] unfolding Let_def by blast
  note nb = needed_fat_bytes [OF f(1,3,2) f(9) [unfolded f(8)]]
  show "n_fats fs' = 1 \<or> n_fats fs' = 2" "csize_ok (csize fs')"
    using f(4) pow2_csize [of "win fs ! BPB_SecPerClus"] f(5-7) by simp_all
  show "ty \<in> {FS_FAT12, FS_FAT16, FS_FAT32}" "2 < unat (n_fatent fs')" "unat (n_fatent fs') \<le> max_entries ty"
      "table_bytes ty (unat (n_fatent fs')) \<le> 512 * unat (fsize fs')"
    using nb f(3,8) by (auto simp: word_unat_eq_iff)
qed

text \<open>
  What is accepted is in order, when the tables are not so large that the sum of the areas in front of the data wraps around and
  when the volume lies on the device.
\<close>

lemma parse_bpb_geometry:
  assumes p: "parse_bpb bsect fs = ((FR_OK, ty), fs')" and fat: "unat (n_fats fs') * unat (fsize fs') < 2 ^ 32 - 2 ^ 17"
    and len: "unat bsect + unat (bpb_sectors (win fs)) \<le> len" "len < 2 ^ 32"
  shows "data_ok len (fs'\<lparr>fs_type := ty\<rparr>)" "place_ok len (fs'\<lparr>fs_type := ty\<rparr>)" "unat bsect < unat (fatbase fs')" "volbase fs' = bsect"
    "0 < unat (fsize fs')" "ty \<noteq> FS_FAT32 \<Longrightarrow> unat (dirbase fs') + unat (n_rootdir fs') div 16 = unat (fs_database fs')"
proof -
  let ?ts = "bpb_sectors (win fs)"
  obtain nrsv nclst where f: "ty = fat_subtype nclst" "ty \<noteq> 0" "nclst \<noteq> 0" "nrsv \<noteq> 0" "n_fats fs' = 1 \<or> n_fats fs' = 2"
      "csize fs' = ucast (win fs ! BPB_SecPerClus)" "csize fs' \<noteq> 0" "csize fs' AND (csize fs' - 1) = 0"
      "let sysect = ucast (nrsv :: u16) + fsize fs' * ucast (n_fats fs') + ucast (n_rootdir fs') div 16 in
       sysect \<le> ?ts \<and> nclst = (?ts - sysect) div ucast (csize fs') \<and> n_fatent fs' = nclst + 2 \<and> volbase fs' = bsect \<and>
       fatbase fs' = bsect + ucast nrsv \<and> fs_database fs' = bsect + sysect \<and>
       (ty \<noteq> FS_FAT32 \<longrightarrow> dirbase fs' = fatbase fs' + fsize fs' * ucast (n_fats fs')) \<and> \<not> fsize fs' < (needed_fat ty (n_fatent fs') + 511) div 512"
    using parse_bpb_fields [OF p] by blast
  define fa where "fa = fsize fs' * ucast (n_fats fs')"
  define rt where "rt = (ucast (n_rootdir fs') div 16 :: u32)"
  define sy where "sy = ucast nrsv + fa + rt"
  have g: "sy \<le> ?ts" "nclst = (?ts - sy) div ucast (csize fs')" "n_fatent fs' = nclst + 2" "volbase fs' = bsect" "fatbase fs' = bsect + ucast nrsv"
      "fs_database fs' = bsect + sy" "ty \<noteq> FS_FAT32 \<Longrightarrow> dirbase fs' = fatbase fs' + fa" "\<not> fsize fs' < (needed_fat ty (n_fatent fs') + 511) div 512"
    using f(9) unfolding Let_def sy_def fa_def rt_def by blast+
  have fa: "unat fa = unat (n_fats fs') * unat (fsize fs')" using fat f(5) by (auto simp: fa_def unat_word_ariths)
  have r16: "unat (n_rootdir fs') < 2 ^ 16" "unat nrsv < 2 ^ 16" "0 < unat nrsv"
    using unsigned_less [of "n_rootdir fs'", where 'a = nat] unsigned_less [of nrsv, where 'a = nat] f(4) by (auto simp: word_unat_eq_iff)
  have rt: "unat rt = unat (n_rootdir fs') div 16" by (simp add: rt_def unat_div unat_csize)
  note un = unat_csize [of nrsv] unat_csize [of "csize fs'"]
  have sy: "unat sy = unat nrsv + unat fa + unat rt" using un(1) fa fat rt r16 by (simp add: sy_def unat_word_ariths)
  have ts: "unat sy \<le> unat ?ts" using g(1) by (simp add: word_le_nat_alt)
  have fb: "unat (fatbase fs') = unat bsect + unat nrsv" using g(5) un(1) sy ts len by (simp add: unat_word_ariths)
  have db: "unat (fs_database fs') = unat bsect + unat sy" using g(6) ts len by (simp add: unat_word_ariths)
  have "unat nclst = (unat ?ts - unat sy) div csz fs'" using g(1,2) un(2) by (simp add: unat_div unat_sub)
  then have area: "csz fs' * unat nclst \<le> unat ?ts - unat sy" by simp
  note nb = needed_fat_bytes [OF f(1,3,2) g(8) [unfolded g(3)]]
  have n2: "unat (n_fatent fs') = unat nclst + 2" using nb(2) g(3) by simp
  have tab: "table_ok (fs'\<lparr>fs_type := ty\<rparr>)" using nb n2 f(3) g(3) by (auto simp: table_ok_def word_unat_eq_iff)
  have "csize_ok (csize fs')" using pow2_csize [of "win fs ! BPB_SecPerClus"] f(6-8) by simp
  then show "data_ok len (fs'\<lparr>fs_type := ty\<rparr>)"
    using tab f(5) fa fb db sy area ts len n2 r16(3) by (auto simp: data_ok_def table_place_def)
  show "place_ok len (fs'\<lparr>fs_type := ty\<rparr>)" using f(5) fa fb sy ts len by (auto simp: place_ok_def)
  show "unat bsect < unat (fatbase fs')" "volbase fs' = bsect" using fb r16(3) g(4) by simp_all
  show "0 < unat (fsize fs')" using nb(4) n2 nb(1) by (cases "unat (fsize fs')") (auto simp: g(3) table_bytes_def split: if_splits)
  assume "ty \<noteq> FS_FAT32"
  then show "unat (dirbase fs') + unat (n_rootdir fs') div 16 = unat (fs_database fs')"
    using g(7) fb db sy rt ts len by (simp add: unat_word_ariths)
qed

subsection \<open>Looking for a volume\<close>

context sector_device
begin

text \<open>A structure that is about to be mounted, on a device with the sectors \<open>ss\<close>; the last part of it once the sector \<open>n\<close> has been looked at.\<close>

definition probing :: "octets list \<Rightarrow> 's FATFS \<Rightarrow> bool" where
  "probing ss fs \<longleftrightarrow> fs_table fs = t \<and> fs_pdrv fs = pdrv \<and> ready (fs_dev fs) \<and> sectors (fs_dev fs) = ss \<and> length (win fs) = 512 \<and> length ss < 2 ^ 32"

definition probed :: "octets list \<Rightarrow> u32 \<Rightarrow> 's FATFS \<Rightarrow> bool" where
  "probed ss n fs \<longleftrightarrow> probing ss fs \<and> winsect fs = n \<and> win fs = ss ! unat n \<and> unat n < length ss \<and> \<not> wflag fs"

lemma check_fs_ok:
  assumes "probing ss fs" "unat n < length ss"
  shows "\<exists>v fs'. check_fs n fs = Some (v, fs') \<and> probed ss n fs'"
proof -
  let ?fs = "fs\<lparr>wflag := False, winsect := 0xFFFFFFFF\<rparr>"
  have p: "fs_table ?fs = t" "fs_pdrv ?fs = pdrv" "ready (fs_dev ?fs)" "sectors (fs_dev ?fs) = ss" "length (win ?fs) = 512" "length ss < 2 ^ 32"
    using assms(1) by (simp_all add: probing_def)
  have n: "n \<noteq> 0xFFFFFFFF" using assms(2) p(6) by auto
  obtain d where d: "fat_read (win ?fs) n ?fs = Some ((MIPOS_DISK_RES_OK, ss ! unat n), ?fs\<lparr>fs_dev := d\<rparr>)" "ready d" "sectors d = ss"
    using read_at [OF p(1-3), of n "win ?fs"] assms(2) p(4,5) by auto
  have "length (ss ! unat n) = 512" using sector_size [OF p(3)] p(4) assms(2) nth_mem by metis
  moreover have "move_window n ?fs = Some (FR_OK, ?fs\<lparr>fs_dev := d, win := ss ! unat n, winsect := n\<rparr>)"
    using n d(1) by (simp add: move_window_def sync_window_def)
  ultimately show ?thesis using d(2,3) p assms(2) by (simp add: check_fs_def Let_def probed_def probing_def)
qed

lemma try_partitions_ok:
  assumes "try_partitions bs r fs = Some ((fmt, b), fs')" "fst r \<ge> 2" "fmt < 2" "probing ss fs" "\<And>x. x \<in> set bs \<Longrightarrow> unat x < length ss"
  shows "probed ss b fs'"
  using assms
proof (induction bs arbitrary: r fs)
  case Nil
  then show ?case by auto
next
  case (Cons x bs)
  show ?case
  proof (cases "x = 0")
    case True
    then show ?thesis using Cons.IH [of "(3, x)" fs] Cons.prems by simp
  next
    case False
    obtain v fs1 where v: "check_fs x fs = Some (v, fs1)" "probed ss x fs1" using check_fs_ok [OF Cons.prems(4), of x] Cons.prems(5) by auto
    then have "probing ss fs1" by (simp add: probed_def)
    with False v Cons.prems Cons.IH [of "(v, x)" fs1] show ?thesis by (auto split: if_splits)
  qed
qed

lemma find_fat_ok:
  assumes "find_fat fs = Some ((fmt, b), fs')" "fmt < 2" "probing ss fs" "0 < length ss" "\<And>i. i < 4 \<Longrightarrow> unat (partition_start (ss ! 0) i) < length ss"
  shows "probed ss b fs'"
proof -
  obtain v fs1 where v: "check_fs 0 fs = Some (v, fs1)" "probed ss 0 fs1" using check_fs_ok [OF assms(3), of 0] assms(4) by auto
  show ?thesis
  proof (cases "v = 2")
    case True
    with v assms(1) have "try_partitions (map (partition_start (ss ! 0)) [0..<4]) (2, 0) fs1 = Some ((fmt, b), fs')"
      by (simp add: find_fat_def probed_def)
    then show ?thesis by (rule try_partitions_ok [OF _ _ assms(2)]) (use v(2) assms(5) in \<open>auto simp: probed_def\<close>)
  next
    case False
    with v assms(1) show ?thesis by (simp add: find_fat_def)
  qed
qed

lemma counters_vol:
  "vol (fs\<lparr>last_clst := a\<rparr>) = vol fs" "vol (fs\<lparr>free_clst := a\<rparr>) = vol fs" "vol (fs\<lparr>fsi_flag := f\<rparr>) = vol fs"
  "fs_shape (fs\<lparr>last_clst := a\<rparr>) = fs_shape fs" "fs_shape (fs\<lparr>free_clst := a\<rparr>) = fs_shape fs" "fs_shape (fs\<lparr>fsi_flag := f\<rparr>) = fs_shape fs"
  "view sectors (fs\<lparr>last_clst := a\<rparr>) = view sectors fs" "view sectors (fs\<lparr>free_clst := a\<rparr>) = view sectors fs"
  "view sectors (fs\<lparr>fsi_flag := f\<rparr>) = view sectors fs"
  by (simp_all add: vol_def fat_wf_def place_ok_def window_ok_def copies_ok_def in_mirror_def fs_shape_def view_def fun_eq_iff)

text \<open>The sector with the counters is not in the second copy of the table, and reading it leaves a volume.\<close>

lemma load_fsinfo_ok:
  assumes v: "vol fs" and n: "unat (bsect + 1) < length (sectors (fs_dev fs))" "\<not> in_mirror fs (unat (bsect + 1))"
  shows "\<exists>fs'. load_fsinfo ty bsect fs = Some fs' \<and> vol fs' \<and> fs_shape fs' = fs_shape fs \<and> length (sectors (fs_dev fs')) = length (sectors (fs_dev fs)) \<and>
    (\<forall>n < length (sectors (fs_dev fs)). \<not> in_mirror fs n \<longrightarrow> view sectors fs' n = view sectors fs n) \<and> (winsect fs' = winsect fs \<or> winsect fs' = bsect + 1)"
proof -
  let ?fs = "fs\<lparr>last_clst := 0xFFFFFFFF, free_clst := 0xFFFFFFFF, fsi_flag := 0x80\<rparr>"
  have v0: "vol ?fs" "fs_shape ?fs = fs_shape fs" using v by (simp_all add: counters_vol)
  obtain fs1 where m: "move_window (bsect + 1) ?fs = Some (FR_OK, fs1)" "vol fs1" "same_view ready sectors ?fs fs1" "winsect fs1 = bsect + 1"
    using move_window_to [OF v0(1), of "bsect + 1"] n by (auto simp: in_mirror_def)
  have sh: "fs_shape fs1 = fs_shape fs" using move_window_stays [OF m(1)] v0(2) by simp
  have len: "length (sectors (fs_dev fs1)) = length (sectors (fs_dev fs))" and
    vw: "\<forall>n < length (sectors (fs_dev fs)). \<not> in_mirror fs n \<longrightarrow> view sectors fs1 n = view sectors fs n"
    using m(3) by (auto simp: same_view_def counters_vol in_mirror_def)
  show ?thesis
  proof (cases "ty = FS_FAT32 \<and> ld_word (drop BPB_FSInfo32 (win fs)) = 1")
    case True
    let ?w = "win fs1"
    have "load_fsinfo ty bsect fs = Some (if ld_word (drop BS_55AA ?w) = 0xAA55 \<and> ld_dword (drop FSI_LeadSig ?w) = 0x41615252 \<and>
        ld_dword (drop FSI_StrucSig ?w) = 0x61417272
      then fs1\<lparr>fsi_flag := 0, free_clst := ld_dword (drop FSI_Free_Count ?w), last_clst := ld_dword (drop FSI_Nxt_Free ?w)\<rparr> else fs1\<lparr>fsi_flag := 0\<rparr>)"
      using True m(1) by (simp add: load_fsinfo_def Let_def)
    then show ?thesis using m(2,4) sh len vw by (simp add: counters_vol)
  next
    case False
    then have "load_fsinfo ty bsect fs = Some ?fs" by (auto simp: load_fsinfo_def Let_def)
    then show ?thesis using v0 by (simp add: counters_vol)
  qed
qed

lemma load_fsinfo_shape:
  assumes "load_fsinfo ty b fs = Some fs'"
  shows "fs_shape fs' = fs_shape fs"
proof (cases "ty = FS_FAT32 \<and> ld_word (drop BPB_FSInfo32 (win fs)) = 1")
  case True
  let ?fs = "fs\<lparr>last_clst := 0xFFFFFFFF, free_clst := 0xFFFFFFFF, fsi_flag := 0x80\<rparr>"
  obtain r fs1 where m: "move_window (b + 1) ?fs = Some (r, fs1)" using assms True by (auto simp: load_fsinfo_def Let_def bind_eq_Some_conv)
  then have "fs_shape fs1 = fs_shape fs" using move_window_stays [OF m] by (simp add: fs_shape_def)
  moreover have "fs_shape fs' = fs_shape fs1"
  proof (cases "r = FR_OK")
    case ok: True
    then show ?thesis using assms True m unfolding load_fsinfo_def Let_def
      by (cases "ld_word (drop BS_55AA (win fs1)) = 0xAA55 \<and> ld_dword (drop FSI_LeadSig (win fs1)) = 0x41615252 \<and>
        ld_dword (drop FSI_StrucSig (win fs1)) = 0x61417272") (auto simp: fs_shape_def)
  next
    case False
    with assms True m show ?thesis by (simp add: load_fsinfo_def Let_def)
  qed
  ultimately show ?thesis by simp
next
  case False
  then show ?thesis using assms by (auto simp: load_fsinfo_def Let_def fs_shape_def)
qed

subsection \<open>Mounting\<close>

lemma mount_volume_ok:
  assumes pr: "probing ss fs" "0 < length ss" "\<And>i. i < 4 \<Longrightarrow> unat (partition_start (ss ! 0) i) < length ss"
    and mt: "mount_volume fs = Some ((FR_OK, ty), fs')"
    and b: "unat (volbase fs') + unat (bpb_sectors (ss ! unat (volbase fs'))) \<le> length ss" "unat (n_fats fs') * unat (fsize fs') < 2 ^ 32 - 2 ^ 17"
    and copies: "\<And>i. n_fats fs' = 2 \<Longrightarrow> i < unat (fsize fs') \<Longrightarrow>
      ss ! (unat (fatbase fs') + unat (fsize fs') + i) = ss ! (unat (fatbase fs') + i)"
  shows "vol (fs'\<lparr>fs_type := ty\<rparr>) \<and> data_ok (length ss) (fs'\<lparr>fs_type := ty\<rparr>) \<and> length (sectors (fs_dev fs')) = length ss \<and>
    (\<forall>n < length ss. \<not> in_mirror fs' n \<longrightarrow> view sectors fs' n = ss ! n) \<and> unat (winsect fs') < unat (fs_database fs') \<and>
    (ty \<noteq> FS_FAT32 \<longrightarrow> count_ok sectors (fs'\<lparr>fs_type := ty\<rparr>))"
proof -
  obtain fmt bs fs1 where ff: "find_fat fs = Some ((fmt, bs), fs1)" "fmt < 2" "fmt \<noteq> 4" using mt by (auto simp: mount_volume_def bind_eq_Some_conv split: if_splits)
  have pd: "probed ss bs fs1" by (rule find_fat_ok [OF ff(1,2) pr])
  obtain fs2 where ps: "parse_bpb bs fs1 = ((FR_OK, ty), fs2)" "load_fsinfo ty bs fs2 = Some fs'"
    using mt ff by (auto simp: mount_volume_def bind_eq_Some_conv split: prod.splits if_splits)
  have sh: "fs_shape fs' = fs_shape fs2" by (rule load_fsinfo_shape [OF ps(2)])
  then have f: "volbase fs' = volbase fs2" "n_fats fs' = n_fats fs2" "fsize fs' = fsize fs2" "fatbase fs' = fatbase fs2" "fs_database fs' = fs_database fs2"
    by (simp_all add: fs_shape_def)
  have same: "fs_table fs2 = fs_table fs1" "fs_pdrv fs2 = fs_pdrv fs1" "fs_dev fs2 = fs_dev fs1" "win fs2 = win fs1" "winsect fs2 = winsect fs1"
      "wflag fs2 = wflag fs1" "volbase fs2 = bs"
    using parse_bpb_fields [OF ps(1)] by (auto simp: Let_def)
  have p1: "fs_table fs1 = t" "fs_pdrv fs1 = pdrv" "ready (fs_dev fs1)" "sectors (fs_dev fs1) = ss" "length (win fs1) = 512" "length ss < 2 ^ 32"
      "winsect fs1 = bs" "win fs1 = ss ! unat bs" "unat bs < length ss" "\<not> wflag fs1" using pd unfolding probed_def probing_def by blast+
  have lim: "unat (n_fats fs2) * unat (fsize fs2) < 2 ^ 32 - 2 ^ 17" "unat bs + unat (bpb_sectors (win fs1)) \<le> length ss"
    using b f same(7) p1(8) by simp_all
  note geo = parse_bpb_geometry [OF ps(1) lim p1(6)]
  have nm: "\<not> in_mirror fs2 (unat bs)" "\<not> in_mirror fs2 (unat bs + 1)" using geo(3,5) by (auto simp: in_mirror_def)
  have "1 \<le> unat (n_fats fs2)" using geo(1) by (simp add: data_ok_def table_place_def)
  then have "0 < unat (n_fats fs2) * unat (fsize fs2)" using geo(5) by simp
  moreover have "unat (fatbase fs2) + unat (n_fats fs2) * unat (fsize fs2) \<le> unat (fs_database fs2)" "unat (fs_database fs2) \<le> length ss"
    using geo(1) by (auto simp: data_ok_def)
  ultimately have db: "unat (fatbase fs2) < unat (fs_database fs2)" "unat (fs_database fs2) \<le> length ss" by linarith+
  have b1: "unat (bs + 1) = unat bs + 1" using p1(6,9) by (simp add: unat_word_ariths)
  have "vol fs2" using p1 same nm(1) geo(2) copies f by (simp add: vol_def fat_wf_def window_ok_def copies_ok_def place_ok_def)
  from load_fsinfo_ok [OF this, of bs ty] ps(2) nm(2) b1 db geo(3) same(3) p1(4)
  have l: "vol fs'" "length (sectors (fs_dev fs')) = length ss" "\<forall>n < length ss. \<not> in_mirror fs2 n \<longrightarrow> view sectors fs' n = view sectors fs2 n"
    "winsect fs' = bs \<or> winsect fs' = bs + 1" by (auto simp: same(5) p1(7))
  have "view sectors fs2 n = ss ! n" for n using same p1 by (simp add: view_def)
  moreover have "in_mirror fs' = in_mirror fs2" using f by (simp add: in_mirror_def fun_eq_iff)
  moreover have "unat (winsect fs') < unat (fs_database fs')" using l(4) b1 geo(3) db f(5) by auto
  moreover have "vol (fs'\<lparr>fs_type := ty\<rparr>)"
    using l(1) by (simp add: vol_def fat_wf_def place_ok_def window_ok_def copies_ok_def in_mirror_def)
  moreover have "fs_shape (fs'\<lparr>fs_type := ty\<rparr>) = fs_shape (fs2\<lparr>fs_type := ty\<rparr>)" using sh by (simp add: fs_shape_def)
  from shape_data(5) [OF this] geo(1) have "data_ok (length ss) (fs'\<lparr>fs_type := ty\<rparr>)" by simp
  moreover have "count_ok sectors (fs'\<lparr>fs_type := ty\<rparr>)" if "ty \<noteq> FS_FAT32"
  proof -
    have "free_clst fs' = 0xFFFFFFFF" "n_fatent fs' = n_fatent fs2" using ps(2) that by (auto simp: load_fsinfo_def Let_def)
    moreover have "unat (n_fatent fs2) \<le> 0x0FFFFFF7"
      using parse_bpb_table(3,5) [OF ps(1)] by (auto simp: max_entries_def mip_simps)
    ultimately show ?thesis by (simp add: count_ok_def)
  qed
  ultimately show ?thesis using l(2,3) by simp
qed

end

end
