(* ===== verification/Mipos_Fat_Mount_Props.thy ===== *)
theory Mipos_Fat_Mount_Props
  imports Mipos_Fat_Geometry
begin

text \<open>
  What mounting promises: the geometry it accepts lies within its bounds, and the volume it leaves is one on which the
  operations on the table and on files work.
\<close>

subsection \<open>A small volume\<close>

text \<open>The boot sector of a volume of eight sectors: one reserved, one table, one for the root directory, five of data.\<close>

definition boot_sector :: octets where
  "boot_sector = [0xEB, 0, 0x90] @ replicate 8 0 @ [0, 2, 1, 1, 0, 1, 16, 0, 8, 0, 0xF8, 1, 0] @ replicate 30 0 @ [0x46, 0x41, 0x54] @
     replicate 453 0 @ [0x55, 0xAA]"

definition blank_volume :: "fat_ramdisk FATFS" where
  "blank_volume = \<lparr>fs_type = 0, fs_pdrv = 0, n_fats = 0, wflag = False, fsi_flag = 0, fs_id = 0, n_rootdir = 0, csize = 0,
     last_clst = 0, free_clst = 0, n_fatent = 0, fsize = 0, volbase = 0, fatbase = 0, dirbase = 0, fs_database = 0,
     winsect = 0, win = replicate 512 0, fs_table = ram_table,
     fs_dev = \<lparr>ramdisk_ptr = Some (boot_sector @ replicate 3584 0), ramdisk_size = 4096, ramdisk_disk_status = 0\<rparr>\<rparr>"

lemma boot_fields:
  "ld_word (drop BPB_BytsPerSec boot_sector) = 512" "ld_word (drop BPB_FATSz16 boot_sector) = 1" "boot_sector ! BPB_NumFATs = 1"
  "boot_sector ! BPB_SecPerClus = 1" "ld_word (drop BPB_RootEntCnt boot_sector) = 16" "ld_word (drop BPB_TotSec16 boot_sector) = 8"
  "ld_word (drop BPB_RsvdSecCnt boot_sector) = 1" "length boot_sector = 512"
  by (simp_all add: boot_sector_def mip_simps ld_word_def nth_append)

lemma boot_parse:
  "parse_bpb 0 (blank_volume\<lparr>win := boot_sector\<rparr>) = ((FR_OK, FS_FAT12), blank_volume\<lparr>win := boot_sector, fsize := 1, n_fats := 1, csize := 1,
     n_rootdir := 16, n_fatent := 7, fatbase := 1, fs_database := 3, dirbase := 2\<rparr>)"
  using boot_fields
  by (simp add: parse_bpb_def Let_def fat_subtype_def needed_fat_def MAX_FAT12_def FS_FAT12_def FS_FAT16_def FS_FAT32_def SS_def blank_volume_def)

lemma boot_found: "find_fat blank_volume = Some ((0, 0), blank_volume\<lparr>win := boot_sector\<rparr>)"
proof -
  have dev: "fs_dev blank_volume = \<lparr>ramdisk_ptr = Some (boot_sector @ replicate 3584 0), ramdisk_size = 4096, ramdisk_disk_status = 0\<rparr>"
    "fs_table blank_volume = ram_table" "fs_pdrv blank_volume = 0" "winsect blank_volume = 0" "\<not> wflag blank_volume" "length (win blank_volume) = 512" by (simp_all add: blank_volume_def)
  let ?fs = "blank_volume\<lparr>wflag := False, winsect := 0xFFFFFFFF\<rparr>"
  have "ramdisk_span 0 1 (fs_dev blank_volume) = Some (0, 512, boot_sector @ replicate 3584 0)"
    using ram_span [of "fs_dev blank_volume" "boot_sector @ replicate 3584 0" 0] boot_fields(8) by (simp add: dev)
  then have "fat_read (win ?fs) 0 ?fs = Some ((MIPOS_DISK_RES_OK, boot_sector), ?fs)"
    using boot_fields(8)
    by (simp add: fat_read_def fatfs_disk_read_def mipos_disk_read_def found_ram ramdisk_drv_def ramdisk_read_def dev)
  then have "move_window 0 ?fs = Some (FR_OK, blank_volume\<lparr>win := boot_sector\<rparr>)"
    by (simp add: move_window_def sync_window_def dev)
  moreover have "ld_word (drop BS_55AA boot_sector) = 0xAA55" "boot_sector ! BS_JmpBoot = 0xEB" "boot_sector ! (BS_JmpBoot + 2) = 0x90"
    "mem_cmp (drop BS_FilSysType boot_sector) [0x46, 0x41, 0x54] 3 = 0"
    by (simp_all add: boot_sector_def mip_simps ld_word_def nth_append numeral_3_eq_3)
  ultimately show ?thesis by (simp add: find_fat_def check_fs_def Let_def)
qed

lemma boot_mounted:
  "mount_volume blank_volume = Some ((FR_OK, FS_FAT12), blank_volume\<lparr>win := boot_sector, fsize := 1, n_fats := 1, csize := 1,
     n_rootdir := 16, n_fatent := 7, fatbase := 1, fs_database := 3, dirbase := 2, last_clst := 0xFFFFFFFF, free_clst := 0xFFFFFFFF, fsi_flag := 0x80\<rparr>)"
  by (simp add: mount_volume_def boot_found boot_parse load_fsinfo_def FS_FAT12_def FS_FAT32_def)

subsection \<open>The geometry\<close>

text \<open>
  C21. Every boot sector that is accepted describes one or two tables, clusters of a power of two of sectors, at least one cluster,
  and no more clusters than the format of the table can number and than one table has room for. If moreover the volume lies on the
  device and the tables have fewer than \<open>2^32 - 2^17\<close> sectors together, neither of which the code checks, then
  reserved sectors, tables and data area lie one behind the other, and every cluster the code can address lies
  completely inside the data area and on the device.
\<close>

theorem mount_geometry:
  assumes "parse_bpb bsect fs = ((FR_OK, ty), fs')"
  shows "n_fats fs' \<in> {1, 2} \<and> csize fs' \<in> {1, 2, 4, 8, 16, 32, 64, 128} \<and> ty \<in> {FS_FAT12, FS_FAT16, FS_FAT32} \<and>
    2 < unat (n_fatent fs') \<and> unat (n_fatent fs') \<le> max_entries ty \<and> table_bytes ty (unat (n_fatent fs')) \<le> 512 * unat (fsize fs') \<and>
    (unat (n_fats fs') * unat (fsize fs') < 2 ^ 32 - 2 ^ 17 \<and> unat bsect + unat (bpb_sectors (win fs)) \<le> len \<and> len < 2 ^ 32 \<longrightarrow>
     unat bsect < unat (fatbase fs') \<and> unat (fatbase fs') + unat (n_fats fs') * unat (fsize fs') \<le> unat (fs_database fs') \<and>
     (\<forall>c. 2 \<le> unat c \<and> unat c < unat (n_fatent fs') \<longrightarrow>
        unat (fs_database fs') \<le> unat (clst2sect fs' c) \<and> unat (clst2sect fs' c) + unat (csize fs') \<le> len))"
proof -
  let ?fs = "fs'\<lparr>fs_type := ty\<rparr>"
  have c: "clst2sect ?fs = clst2sect fs'" by (intro ext) (simp add: clst2sect_def Let_def)
  have "unat bsect < unat (fatbase fs') \<and> unat (fatbase fs') + unat (n_fats fs') * unat (fsize fs') \<le> unat (fs_database fs') \<and>
      (\<forall>c. 2 \<le> unat c \<and> unat c < unat (n_fatent fs') \<longrightarrow>
        unat (fs_database fs') \<le> unat (clst2sect fs' c) \<and> unat (clst2sect fs' c) + unat (csize fs') \<le> len)"
    if "unat (n_fats fs') * unat (fsize fs') < 2 ^ 32 - 2 ^ 17" "unat bsect + unat (bpb_sectors (win fs)) \<le> len" "len < 2 ^ 32"
  proof -
    note g = parse_bpb_geometry [OF assms that]
    have "unat (fs_database fs') \<le> unat (clst2sect fs' c) \<and> unat (clst2sect fs' c) + unat (csize fs') \<le> len"
      if "2 \<le> unat c" "unat c < unat (n_fatent fs')" for c
      using clst2sect_base(1) [OF g(1), of c] base_range [OF g(1), of "unat c" "csz fs' - 1"] csz_pos(1) [OF g(1)] that c by simp
    with g(1-3) show ?thesis by (simp add: data_ok_def table_place_def)
  qed
  with parse_bpb_table [OF assms] show ?thesis by (auto simp: csize_ok_def)
qed

theorem mount_geometry_witness:
  "\<exists>fs'. parse_bpb 0 (blank_volume\<lparr>win := boot_sector\<rparr>) = ((FR_OK, FS_FAT12), fs') \<and> unat (n_fatent fs') \<le> max_entries FS_FAT12 \<and>
     unat (clst2sect fs' 6) + unat (csize fs') \<le> 8"
proof -
  have "bpb_sectors (win (blank_volume\<lparr>win := boot_sector\<rparr>)) = 8" using boot_fields(6) by (simp add: bpb_sectors_def)
  with mount_geometry [OF boot_parse, of 8] show ?thesis unfolding boot_parse by (auto elim!: allE [of _ "6 :: u32"])
qed

subsection \<open>The volume\<close>

text \<open>
  C14. A mount that succeeds, of a volume that starts at the first sector or in one of four partitions, leaves the volume in order, under
  conditions on the device that the code does not check: the volume the boot sector describes lies on the device, its tables have fewer than
  \<open>2^32 - 2^17\<close> sectors together, the partitions of the table in the first sector start on the device, and the copies of the table are equal.
  In order means: the window holds a sector of the device outside the data area, table and clusters lie on the device, the copies of the
  table agree, and apart from the mirrored copy the volume shows exactly what is on the device. On FAT12 and FAT16 volumes the count of
  free clusters is then unknown, hence not wrong; on FAT32 it is taken from the device unchecked. What the table says of the
  chains is up to its contents.
\<close>

theorem mount_establishes_volume:
  assumes "sector_device t pdrv ready sectors" "fs_table fs = t" "fs_pdrv fs = pdrv" "ready (fs_dev fs)" "length (win fs) = 512"
    and "ss = sectors (fs_dev fs)" "0 < length ss" "length ss < 2 ^ 32" "\<forall>i < 4. unat (partition_start (ss ! 0) i) < length ss"
    and "mount_volume fs = Some ((FR_OK, ty), fs')"
    and "unat (volbase fs') + unat (bpb_sectors (ss ! unat (volbase fs'))) \<le> length ss" "unat (n_fats fs') * unat (fsize fs') < 2 ^ 32 - 2 ^ 17"
    and "\<forall>i < unat (fsize fs'). n_fats fs' = 2 \<longrightarrow> ss ! (unat (fatbase fs') + unat (fsize fs') + i) = ss ! (unat (fatbase fs') + i)"
  shows "fat_volume t pdrv ready sectors (fs'\<lparr>fs_type := ty\<rparr>) \<and> data_ok (length (sectors (fs_dev fs'))) (fs'\<lparr>fs_type := ty\<rparr>) \<and>
    (\<forall>n < length ss. \<not> in_mirror fs' n \<longrightarrow> view sectors fs' n = ss ! n) \<and> unat (winsect fs') < unat (fs_database fs') \<and>
    (ty \<noteq> FS_FAT32 \<longrightarrow> count_ok sectors (fs'\<lparr>fs_type := ty\<rparr>))"
proof -
  have pr: "sector_device.probing t pdrv ready sectors ss fs" using assms(2-8) by (simp add: sector_device.probing_def [OF assms(1)])
  show ?thesis using sector_device.mount_volume_ok [OF assms(1) pr assms(7) _ assms(10-12)] assms(9,13) by auto
qed

theorem mount_establishes_volume_witness:
  "\<exists>fs'. mount_volume blank_volume = Some ((FR_OK, FS_FAT12), fs') \<and> fat_volume ram_table 0 ram_ready ram_sectors (fs'\<lparr>fs_type := FS_FAT12\<rparr>) \<and>
     count_ok ram_sectors (fs'\<lparr>fs_type := FS_FAT12\<rparr>)"
proof -
  have dev: "fs_dev blank_volume = \<lparr>ramdisk_ptr = Some (boot_sector @ replicate 3584 0), ramdisk_size = 4096, ramdisk_disk_status = 0\<rparr>"
    "fs_table blank_volume = ram_table" "fs_pdrv blank_volume = 0" "length (win blank_volume) = 512" by (simp_all add: blank_volume_def)
  have ss: "length (ram_sectors (fs_dev blank_volume)) = 8" "ram_sectors (fs_dev blank_volume) ! 0 = boot_sector"
    using boot_fields(8) by (simp_all add: dev ram_sectors_def image_sectors_def sector_at_def)
  have "ram_ready (fs_dev blank_volume)" using boot_fields(8) by (simp add: dev ram_ready_def)
  moreover have "\<forall>i < 4. partition_start boot_sector i = 0"
    by (auto simp: partition_start_def boot_sector_def mip_simps nth_append Let_def)
  moreover have "bpb_sectors boot_sector = 8" using boot_fields(6) by (simp add: bpb_sectors_def)
  ultimately show ?thesis using mount_establishes_volume [OF ramdev.sector_device_axioms dev(2,3) _ dev(4) refl _ _ _ boot_mounted] ss
    by (simp add: boot_mounted FS_FAT12_def FS_FAT32_def) (simp add: blank_volume_def)
qed

subsection \<open>Tables that wrap around\<close>

text \<open>The same boot sector with two tables of \<open>2^31\<close> sectors each.\<close>

definition huge_boot_sector :: octets where
  "huge_boot_sector = [0xEB, 0, 0x90] @ replicate 8 0 @ [0, 2, 1, 1, 0, 2, 16, 0, 8, 0, 0xF8, 0, 0] @ replicate 12 0 @ [0, 0, 0, 0x80] @
     replicate 14 0 @ [0x46, 0x41, 0x54] @ replicate 453 0 @ [0x55, 0xAA]"

lemma huge_boot_fields:
  "ld_word (drop BPB_BytsPerSec huge_boot_sector) = 512" "ld_word (drop BPB_FATSz16 huge_boot_sector) = 0" "huge_boot_sector ! BPB_NumFATs = 2"
  "ld_dword (drop BPB_FATSz32 huge_boot_sector) = 0x80000000" "huge_boot_sector ! BPB_SecPerClus = 1"
  "ld_word (drop BPB_RootEntCnt huge_boot_sector) = 16" "ld_word (drop BPB_TotSec16 huge_boot_sector) = 8"
  "ld_word (drop BPB_RsvdSecCnt huge_boot_sector) = 1"
  by (simp_all add: huge_boot_sector_def mip_simps ld_word_def ld_dword_def nth_append)

lemma huge_boot_parse:
  "parse_bpb 0 (blank_volume\<lparr>win := huge_boot_sector\<rparr>) = ((FR_OK, FS_FAT12), blank_volume\<lparr>win := huge_boot_sector, fsize := 0x80000000, n_fats := 2,
     csize := 1, n_rootdir := 16, n_fatent := 8, fatbase := 1, fs_database := 2, dirbase := 1\<rparr>)"
  using huge_boot_fields
  by (simp add: parse_bpb_def Let_def fat_subtype_def needed_fat_def MAX_FAT12_def FS_FAT12_def FS_FAT16_def FS_FAT32_def SS_def blank_volume_def)

text \<open>
  C37. The product of the number of tables and their size is taken in 32 bits (\<^verbatim>\<open>DWORD\<close>, which \<^verbatim>\<open>integer.h\<close> requires to have 32 bits; with the
  64-bit \<^verbatim>\<open>unsigned long\<close> of a Linux host it would not wrap) and not checked. Whenever a boot sector is accepted whose tables have \<open>2^32\<close> sectors or more together, the data area begins inside the first table, so
  that entries of the table and clusters of files share sectors, whatever the other fields are. It needs tables of at most
  \<open>2^32 - 2^17\<close> sectors each and a volume that ends below sector \<open>2^32\<close>. The witness is such a boot sector.
\<close>

theorem wrapped_tables_overlap_data:
  assumes "parse_bpb bsect fs = ((FR_OK, ty), fs')" "2 ^ 32 \<le> unat (n_fats fs') * unat (fsize fs')"
    and "unat (fsize fs') \<le> 2 ^ 32 - 2 ^ 17" "unat bsect + unat (bpb_sectors (win fs)) < 2 ^ 32"
  shows "unat (fatbase fs') \<le> unat (fs_database fs') \<and> unat (fs_database fs') < unat (fatbase fs') + unat (fsize fs')"
proof -
  let ?fa = "fsize fs' * ucast (n_fats fs')" and ?rt = "ucast (n_rootdir fs') div 16 :: u32"
  obtain nrsv :: u16 where f: "n_fats fs' = 1 \<or> n_fats fs' = 2" "ucast nrsv + ?fa + ?rt \<le> bpb_sectors (win fs)"
      "fatbase fs' = bsect + ucast nrsv" "fs_database fs' = bsect + (ucast nrsv + ?fa + ?rt)"
    using parse_bpb_fields [OF assms(1)] unfolding Let_def by blast
  have nf: "n_fats fs' = 2" using f(1) assms(2) unsigned_less [of "fsize fs'", where 'a = nat] by auto
  then have fa: "unat ?fa = 2 * unat (fsize fs') - 2 ^ 32"
    using assms(2,3) by (simp add: unat_word_ariths mod_if mult.commute)
  have small: "unat nrsv < 2 ^ 16" "unat ?rt < 2 ^ 12"
    using unsigned_less [of nrsv, where 'a = nat] unsigned_less [of "n_rootdir fs'", where 'a = nat]
    by (simp_all add: unat_div unat_csize)
  have sy: "unat (ucast nrsv + ?fa + ?rt) = unat nrsv + unat ?fa + unat ?rt"
    using small fa assms(3) unat_csize [of nrsv] by (simp add: unat_word_ariths)
  have "unat nrsv + unat ?fa + unat ?rt \<le> unat (bpb_sectors (win fs))" using f(2) sy by (simp add: word_le_nat_alt)
  then have "unat (fatbase fs') = unat bsect + unat nrsv" "unat (fs_database fs') = unat bsect + (unat nrsv + unat ?fa + unat ?rt)"
    using f(3,4) sy assms(4) unat_csize [of nrsv] unat_word_ariths(1) [of bsect "ucast nrsv"]
      unat_word_ariths(1) [of bsect "ucast nrsv + ?fa + ?rt"] by simp_all
  moreover have "unat ?fa + unat ?rt < unat (fsize fs')" using fa small(2) assms(2,3) nf by simp
  ultimately show ?thesis by linarith
qed

theorem wrapped_tables_overlap_data_witness:
  "\<exists>fs'. parse_bpb 0 (blank_volume\<lparr>win := huge_boot_sector\<rparr>) = ((FR_OK, FS_FAT12), fs') \<and> bpb_sectors huge_boot_sector = 8 \<and>
     unat (fatbase fs') = 1 \<and> unat (fs_database fs') < unat (fatbase fs') + unat (fsize fs')"
proof -
  have sz: "bpb_sectors huge_boot_sector = 8" using huge_boot_fields by (simp add: bpb_sectors_def)
  show ?thesis using wrapped_tables_overlap_data [OF huge_boot_parse] sz unfolding huge_boot_parse by simp
qed

end
