(* ===== verification/Mipos_Console.thy ===== *)
theory Mipos_Console
  imports Mipos_Queue
begin

text \<open>
  The console of \<^verbatim>\<open>mipos_console.c\<close>: the line editor and command interpreter of the receiver task, the
  built-in commands, and the transmit side, a ring of message buffers whose indices travel through a
  message queue to the sender task. The record \<open>console\<close> holds the static variables of the file, the
  kernel, the bytes handed to \<^verbatim>\<open>mipos_bsp_rs232_putc\<close> so far and the memory that \<^verbatim>\<open>dump\<close> and \<^verbatim>\<open>patch\<close>
  reach, which is memory apart from the modelled variables. What the file calls and is not part of it is
  a field of \<open>board\<close>: how \<^verbatim>\<open>%p\<close> prints, what the other tasks do while a task of the console waits, the
  receive callback and the commands an application registers. \<open>None\<close> is an access outside an array, a
  null pointer, or a conversion that C leaves undefined. The target is the 64-bit simulator.
\<close>

subsection \<open>Characters and strings of C\<close>

definition ascii :: "string \<Rightarrow> u8 list" where
  "ascii s = map (\<lambda>ch. of_nat (of_char ch)) s"

definition crlf :: "u8 list" where
  "crlf = [13, 10]"

text \<open>The string a pointer into an array denotes: the bytes up to the first 0, which must be in the array.\<close>

fun c_str :: "u8 list \<Rightarrow> u8 list option" where
  "c_str [] = None"
| "c_str (ch # s) = (if ch = 0 then Some [] else map_option (Cons ch) (c_str s))"

definition is_space :: "u8 \<Rightarrow> bool" where
  "is_space ch \<longleftrightarrow> ch = 32 \<or> 9 \<le> ch \<and> ch \<le> 13"

definition sign_of :: "u8 list \<Rightarrow> bool \<times> u8 list" where
  "sign_of s =
     (case s of [] \<Rightarrow> (False, []) | ch # s1 \<Rightarrow> if ch = 45 then (True, s1) else if ch = 43 then (False, s1) else (False, s))"

fun digits_value :: "(u8 \<Rightarrow> nat option) \<Rightarrow> nat \<Rightarrow> nat \<Rightarrow> u8 list \<Rightarrow> nat" where
  "digits_value val base acc [] = acc"
| "digits_value val base acc (ch # s) =
     (case val ch of None \<Rightarrow> acc | Some d \<Rightarrow> digits_value val base (acc * base + d) s)"

definition dec_digit :: "u8 \<Rightarrow> nat option" where
  "dec_digit ch = (if 48 \<le> ch \<and> ch \<le> 57 then Some (unat ch - 48) else None)"

definition hex_digit :: "u8 \<Rightarrow> nat option" where
  "hex_digit ch =
     (if 48 \<le> ch \<and> ch \<le> 57 then Some (unat ch - 48)
      else if 97 \<le> ch \<and> ch \<le> 102 then Some (unat ch - 87)
      else if 65 \<le> ch \<and> ch \<le> 70 then Some (unat ch - 55) else None)"

text \<open>\<^verbatim>\<open>atoi\<close>; a value outside \<^verbatim>\<open>int\<close> is undefined.\<close>

definition c_atoi :: "u8 list \<Rightarrow> int option" where
  "c_atoi s =
     (let (neg, s1) = sign_of (dropWhile is_space s);
          v = int (digits_value dec_digit 10 0 s1);
          r = (if neg then - v else v)
      in if - (2 ^ 31) \<le> r \<and> r < 2 ^ 31 then Some r else None)"

text \<open>\<^verbatim>\<open>sscanf\<close> with \<^verbatim>\<open>%x\<close> into a variable of \<open>bits\<close> bits that holds 0; a value that does not fit is undefined.\<close>

definition scan_hex :: "nat \<Rightarrow> u8 list \<Rightarrow> nat option" where
  "scan_hex bits s =
     (let (neg, s1) = sign_of (dropWhile is_space s);
          s2 = (if take 1 s1 = [48] \<and> (take 1 (drop 1 s1) = [120] \<or> take 1 (drop 1 s1) = [88]) then drop 2 s1 else s1);
          v = digits_value hex_digit 16 0 s2
      in if v < 2 ^ bits then Some (if neg then (2 ^ bits - v) mod 2 ^ bits else v) else None)"

function digits_of :: "nat \<Rightarrow> nat \<Rightarrow> nat list" where
  "digits_of base n = (if base < 2 \<or> n < base then [n] else digits_of base (n div base) @ [n mod base])"
  by pat_completeness auto

termination digits_of
  by (relation "measure snd") auto

definition digit_char :: "bool \<Rightarrow> nat \<Rightarrow> u8" where
  "digit_char upper d = of_nat (if d < 10 then 48 + d else if upper then 55 + d else 87 + d)"

definition pad_left :: "nat \<Rightarrow> u8 \<Rightarrow> u8 list \<Rightarrow> u8 list" where
  "pad_left w ch s = replicate (w - length s) ch @ s"

definition fmt_hex :: "bool \<Rightarrow> nat \<Rightarrow> nat \<Rightarrow> u8 list" where
  "fmt_hex upper w n = pad_left w 48 (map (digit_char upper) (digits_of 16 n))"

definition fmt_dec :: "nat \<Rightarrow> nat \<Rightarrow> u8 list" where
  "fmt_dec w n = pad_left w 32 (map (digit_char False) (digits_of 10 n))"

subsection \<open>State\<close>

definition RS232_TX_QUEUE_LEN :: nat where
  [mip_simps]: "RS232_TX_QUEUE_LEN = 8"

definition RS232_TX_BUF_LEN :: nat where
  [mip_simps]: "RS232_TX_BUF_LEN = 80"

definition RS232_RX_BUF_LEN :: nat where
  [mip_simps]: "RS232_RX_BUF_LEN = 32"

definition CONSOLE_FLG_ECHO :: u32 where
  [mip_simps]: "CONSOLE_FLG_ECHO = 1"

definition CONSOLE_TX_CRLF :: u32 where
  [mip_simps]: "CONSOLE_TX_CRLF = 2"

definition CONSOLE_MAX_ARGS_COUNT :: nat where
  [mip_simps]: "CONSOLE_MAX_ARGS_COUNT = 8"

datatype cmd_function =
    exec_help | exec_ver | exec_dump | exec_patch | exec_ps | exec_taskdbg | exec_user nat

record console_cmd =
  cmd_str :: "u8 list"
  cmd_exec :: cmd_function
  cmd_help :: "u8 list"

record msg =
  msg_buffer :: "u8 list"
  msg_len :: u32

record console =
  end_line_char :: u32
  console_flags :: u32
  console_prompt :: "u8 list option"
  rs232_tx_queue :: mipos_queue
  rs232_tx_buf_pool :: "msg list"
  rs232_tx_msg_idx :: u32
  rs232_rx_buf :: "u8 list"
  rs232_rx_buf_idx :: u32
  registered_cmd_list :: "console_cmd list option"
  con_kernel :: mipos_kernel
  con_out :: "u8 list"
  con_mem :: "ptr \<Rightarrow> u8 option"

record board =
  fmt_p :: "ptr \<Rightarrow> u8 list"
  wait_pc :: nat
  wait_sp :: u64
  others :: "console \<Rightarrow> console option"
  user_cmd :: "nat \<Rightarrow> nat list \<Rightarrow> console \<Rightarrow> console option"
  recv_cbk :: "(u32 \<Rightarrow> console \<Rightarrow> console option) option"

definition mipos_cmd_list :: "console_cmd list" where
  "mipos_cmd_list =
    [\<lparr>cmd_str = ascii ''help'', cmd_exec = exec_help, cmd_help = ascii ''help - shows this list''\<rparr>,
     \<lparr>cmd_str = ascii ''ver'', cmd_exec = exec_ver, cmd_help = ascii ''ver - shows mipOS version''\<rparr>,
     \<lparr>cmd_str = ascii ''dump'', cmd_exec = exec_dump,
      cmd_help = ascii ''dump [<a>,[<c>,[<b>]] - dump a memory area''\<rparr>,
     \<lparr>cmd_str = ascii ''patch'', cmd_exec = exec_patch,
      cmd_help = ascii ''patch <a> <b> - set a byte <b> at address <a>''\<rparr>,
     \<lparr>cmd_str = ascii ''ps'', cmd_exec = exec_ps, cmd_help = ascii ''ps - shows the list of tasks''\<rparr>,
     \<lparr>cmd_str = ascii ''freeze'', cmd_exec = exec_taskdbg, cmd_help = ascii ''freeze <tid> - freezes a task''\<rparr>,
     \<lparr>cmd_str = ascii ''unfreeze'', cmd_exec = exec_taskdbg,
      cmd_help = ascii ''unfreeze <tid> - unfreezes a task''\<rparr>,
     \<lparr>cmd_str = ascii ''delete'', cmd_exec = exec_taskdbg, cmd_help = ascii ''delete <tid> - delete a task''\<rparr>,
     \<lparr>cmd_str = ascii ''signal'', cmd_exec = exec_taskdbg,
      cmd_help = ascii ''signal <tid> <signum> - set a signal''\<rparr>]"

definition mipos_console_register_cmd_list :: "console_cmd list \<Rightarrow> console \<Rightarrow> console" where
  "mipos_console_register_cmd_list cmds c = c\<lparr>registered_cmd_list := Some cmds\<rparr>"

subsection \<open>Output\<close>

definition rs232_putc :: "u8 \<Rightarrow> console \<Rightarrow> console" where
  "rs232_putc ch c = c\<lparr>con_out := con_out c @ [ch]\<rparr>"

definition mipos_console_put_char :: "u8 \<Rightarrow> console \<Rightarrow> console" where
  "mipos_console_put_char ch c =
     (if ucast ch = end_line_char c \<and> console_flags c AND CONSOLE_TX_CRLF \<noteq> 0
      then rs232_putc 10 (rs232_putc 13 c) else rs232_putc ch c)"

definition mipos_puts :: "u8 list \<Rightarrow> console \<Rightarrow> console" where
  "mipos_puts s c = fold rs232_putc s c"

subsection \<open>Splitting a command line\<close>

definition word_sep :: "u8 \<Rightarrow> bool" where
  "word_sep ch \<longleftrightarrow> ch = 32 \<or> ch = 9 \<or> ch = 13 \<or> ch = 10"

text \<open>The two loops of \<^verbatim>\<open>_word_boundary\<close>, on the part of the array that \<^verbatim>\<open>s\<close> points to.\<close>

fun word_skip :: "int \<Rightarrow> int \<Rightarrow> u8 list \<Rightarrow> (int \<times> u8 list) option" where
  "word_skip pos len [] = None"
| "word_skip pos len (ch # s) =
     (if word_sep ch
      then if pos + 1 \<ge> len then Some (- 1, 0 # s)
           else map_option (\<lambda>(p, s1). (p, 0 # s1)) (word_skip (pos + 1) len s)
      else Some (pos, ch # s))"

fun word_count :: "u8 list \<Rightarrow> nat option" where
  "word_count [] = None"
| "word_count (ch # s) = (if ch \<noteq> 0 \<and> \<not> word_sep ch then map_option Suc (word_count s) else Some 0)"

definition word_boundary :: "u8 list \<Rightarrow> int \<Rightarrow> (int \<times> nat \<times> u8 list) option" where
  "word_boundary s len =
     do { (pos, s1) \<leftarrow> word_skip 0 len s;
          if pos < 0 then Some (- 1, 0, s1)
          else do { n \<leftarrow> word_count (drop (nat pos) s1); Some (pos, n, s1) } }"

text \<open>
  \<^verbatim>\<open>mipos_split_command\<close>: \<open>pt\<close> is where \<^verbatim>\<open>cmd_line\<close> points in the array, \<open>slots\<close> is what is left of the array
  \<^verbatim>\<open>argv\<close>, whose entries are positions in the array. The argument \<^verbatim>\<open>max_args\<close> is not used.
\<close>

fun split_loop :: "nat \<Rightarrow> u8 list \<Rightarrow> nat \<Rightarrow> int \<Rightarrow> int \<Rightarrow> nat list \<Rightarrow> (nat list \<times> u8 list) option" where
  "split_loop slots buf pt len pos argv =
     do { (word_pos, word_len, s) \<leftarrow> word_boundary (drop pt buf) len;
          let buf1 = take pt buf @ s in
          if word_pos < 0 then Some (argv, buf1)
          else case slots of 0 \<Rightarrow> None
               | Suc n \<Rightarrow>
                   (let argv1 = argv @ [pt + nat word_pos]; pos1 = pos + word_pos + int word_len;
                        pt1 = pt + nat pos1; len1 = len - pos1
                    in if len1 > 0 then split_loop n buf1 pt1 len1 pos1 argv1 else Some (argv1, buf1)) }"

definition mipos_split_command :: "u8 list \<Rightarrow> int \<Rightarrow> nat \<Rightarrow> (nat list \<times> u8 list) option" where
  "mipos_split_command buf len slots = split_loop slots buf 0 len 0 []"

text \<open>The string \<^verbatim>\<open>argv[i]\<close>.\<close>

definition arg :: "nat list \<Rightarrow> nat \<Rightarrow> console \<Rightarrow> u8 list option" where
  "arg argv i c = (if i < length argv then c_str (drop (argv ! i) (rs232_rx_buf c)) else None)"

subsection \<open>Sending\<close>

definition mipos_console_send :: "u8 list \<Rightarrow> u32 \<Rightarrow> console \<Rightarrow> (u32 \<times> console) option" where
  "mipos_console_send buf len c =
     (if unat (mipos_q_count (rs232_tx_queue c)) \<ge> RS232_TX_QUEUE_LEN then Some (0, c)
      else let len1 = (if unat len > RS232_TX_BUF_LEN then of_nat RS232_TX_BUF_LEN else len);
               idx = rs232_tx_msg_idx c; n = unat len1
           in if unat idx < length (rs232_tx_buf_pool c) \<and> n \<le> length buf
              then let m = rs232_tx_buf_pool c ! unat idx;
                       m1 = \<lparr>msg_buffer = take n buf @ drop n (msg_buffer m), msg_len = len1\<rparr>
                   in do { (_, q, k) \<leftarrow> mipos_q_send idx (rs232_tx_queue c, con_kernel c);
                           Some (len1, c\<lparr>rs232_tx_buf_pool := (rs232_tx_buf_pool c)[unat idx := m1],
                                         rs232_tx_queue := q, con_kernel := k,
                                         rs232_tx_msg_idx := (idx + 1) mod of_nat RS232_TX_QUEUE_LEN\<rparr>) }
              else None)"

definition mipos_console_send_null_str :: "u8 list \<Rightarrow> console \<Rightarrow> (u32 \<times> console) option" where
  "mipos_console_send_null_str s c = mipos_console_send s (of_nat (length s)) c"

text \<open>The sender task: one pass of its loop, cut where \<^verbatim>\<open>mipos_q_receive\<close> or the sleep blocks.\<close>

definition send_bytes :: "msg \<Rightarrow> console \<Rightarrow> console" where
  "send_bytes m c =
     fold mipos_console_put_char (takeWhile (\<lambda>ch. ch \<noteq> 0) (take (unat (msg_len m)) (msg_buffer m))) c"

datatype sender_outcome = SenderSent console | SenderBlocked console | SenderSleeps console

definition sender_item :: "nat \<Rightarrow> u64 \<Rightarrow> u16 \<Rightarrow> u32 option \<Rightarrow> console \<Rightarrow> sender_outcome option" where
  "sender_item pc sp r item c =
     (if r \<le> 0 then map_option (\<lambda>k. SenderSleeps (c\<lparr>con_kernel := k\<rparr>)) (mipos_tm_msleep pc sp 100 (con_kernel c))
      else case item of None \<Rightarrow> None
           | Some i \<Rightarrow>
               if unat i < length (rs232_tx_buf_pool c)
               then Some (SenderSent (send_bytes (rs232_tx_buf_pool c ! unat i) c)) else None)"

definition sender_turn :: "nat \<Rightarrow> u64 \<Rightarrow> console \<Rightarrow> sender_outcome option" where
  "sender_turn pc sp c =
     (let bl = (mipos_q_count (rs232_tx_queue c) \<le> 0)
      in do { r \<leftarrow> mipos_q_receive pc sp True bl (rs232_tx_queue c) (con_kernel c);
              case r of
                Received n item q k \<Rightarrow> sender_item pc sp n item (c\<lparr>rs232_tx_queue := q, con_kernel := k\<rparr>)
              | Blocked q k \<Rightarrow> Some (SenderBlocked (c\<lparr>rs232_tx_queue := q, con_kernel := k\<rparr>)) })"

definition sender_resume :: "nat \<Rightarrow> u64 \<Rightarrow> console \<Rightarrow> sender_outcome option" where
  "sender_resume pc sp c =
     do { (n, item, q) \<leftarrow> q_receive_resume (rs232_tx_queue c);
          sender_item pc sp n item (c\<lparr>rs232_tx_queue := q\<rparr>) }"

text \<open>What the sender task prints when it starts; the build decides on the module lines and the date.\<close>

record build =
  enable_fs :: bool
  enable_stdio :: bool
  enable_mm :: bool
  enable_malloc :: bool
  enable_mpool :: bool
  build_date :: "u8 list"
  build_time :: "u8 list"

definition MIPOS_STR_VER :: "u8 list" where
  "MIPOS_STR_VER = ascii ''mipOS v.2.0 - (c) 2005-2024 antonino.calderone@gmail.com''"

definition sender_banner :: "build \<Rightarrow> console \<Rightarrow> console" where
  "sender_banner b c =
     (let line = (\<lambda>on s c. if on then mipos_puts (ascii s @ crlf) c else c);
          c1 = mipos_puts crlf c;
          c2 = mipos_puts (ascii '' console'' @ crlf) (mipos_puts MIPOS_STR_VER c1);
          c3 = mipos_puts (ascii ''Compile date/time: '' @ build_date b @ ascii '' '' @ build_time b @
                 ascii '' - opt. mods:'' @ crlf) c2;
          c4 = line True ''  mipos_console'' c3;
          c5 = line (enable_fs b) ''  mipos_tiny_fs'' c4;
          c6 = line (enable_stdio b) ''  mipos_stdio'' c5;
          c7 = line (enable_mm b \<or> enable_malloc b) ''  mipos_mm'' c6;
          c8 = line (enable_malloc b) ''  mipos_malloc'' c7;
          c9 = line (enable_mpool b) ''  mipos_mpool'' c8
      in case console_prompt c9 of None \<Rightarrow> c9 | Some p \<Rightarrow> mipos_puts p c9)"

subsection \<open>Commands\<close>

definition dbg_describe_state :: "u16 \<Rightarrow> u8 list" where
  "dbg_describe_state st =
     (if st AND TASK_FROZEN \<noteq> 0 then ascii ''frozen''
      else if st = TASK_NOT_RUNNING then ascii ''not run''
      else if st = TASK_READY then ascii ''ready''
      else if st = TASK_RUNNING then ascii ''running''
      else if st = TASK_SUSPENDED then ascii ''suspend''
      else if st = TASK_ZOMBIE then ascii ''zombie''
      else ascii ''unknown'')"

text \<open>\<^verbatim>\<open>b[i]\<close> for an array of \<^verbatim>\<open>int\<close> at an address, least significant byte first.\<close>

definition read_int :: "(ptr \<Rightarrow> u8 option) \<Rightarrow> ptr \<Rightarrow> nat \<Rightarrow> u32 option" where
  "read_int mem b i =
     (let a = b + of_nat (4 * i)
      in do { b0 \<leftarrow> mem a; b1 \<leftarrow> mem (a + 1); b2 \<leftarrow> mem (a + 2); b3 \<leftarrow> mem (a + 3);
              Some (ucast b0 OR push_bit 8 (ucast b1) OR push_bit 16 (ucast b2) OR push_bit 24 (ucast b3)) })"

definition dump_bytes :: "bool \<Rightarrow> u32 \<Rightarrow> u8 list" where
  "dump_bytes mode w =
     (let cs = [ucast w, ucast (drop_bit 8 w), ucast (drop_bit 16 w), ucast (drop_bit 24 w)]
      in if mode then rev cs else cs)"

definition dump_hex :: "ptr \<Rightarrow> nat \<Rightarrow> bool \<Rightarrow> nat \<Rightarrow> console \<Rightarrow> console option" where
  "dump_hex b buf_len mode i c =
     (if i \<ge> buf_len then Some (mipos_puts (replicate 12 32) c)
      else do { w \<leftarrow> read_int (con_mem c) b i;
                Some (mipos_puts (concat (map (\<lambda>ch. fmt_hex True 2 (unat ch) @ [32]) (dump_bytes mode w))) c) })"

text \<open>\<^verbatim>\<open>char\<close> is signed, so a byte from 128 on is not greater than 31.\<close>

definition dump_text :: "ptr \<Rightarrow> bool \<Rightarrow> nat \<Rightarrow> console \<Rightarrow> console option" where
  "dump_text b mode i c =
     do { w \<leftarrow> read_int (con_mem c) b i;
          Some (mipos_puts (map (\<lambda>ch. if sint ch > 31 then ch else 46) (dump_bytes mode w)) c) }"

definition dump_row :: "board \<Rightarrow> ptr \<Rightarrow> nat \<Rightarrow> bool \<Rightarrow> nat \<Rightarrow> nat \<Rightarrow> console \<Rightarrow> console option" where
  "dump_row bd b buf_len mode tot_rows row c =
     (let buf_index = row * 16; cols = map (\<lambda>col. buf_index + col) [0..<4]
      in if buf_index \<ge> 2 ^ 31 then None
         else do { c1 \<leftarrow> Some (mipos_puts (fmt_p bd (b + of_nat (4 * buf_index)) @ [32]) c);
                   c2 \<leftarrow> run_ops (dump_hex b buf_len mode) cols c1;
                   c3 \<leftarrow> run_ops (dump_text b mode) (takeWhile (\<lambda>i. i < buf_len) cols) c2;
                   Some (if row + 1 \<noteq> tot_rows then mipos_puts crlf c3 else c3) })"

definition mem_dump :: "board \<Rightarrow> ptr \<Rightarrow> u32 \<Rightarrow> bool \<Rightarrow> console \<Rightarrow> console option" where
  "mem_dump bd b buf_len mode c =
     (if buf_len = 0 then Some c
      else let tot_rows = unat (drop_bit 4 buf_len) + (if buf_len AND 0xF \<noteq> 0 then 1 else 0)
           in do { c1 \<leftarrow> run_ops (dump_row bd b (unat buf_len) mode tot_rows) [0..<tot_rows] c;
                   Some (mipos_puts crlf c1) })"

definition show_command_list :: "console_cmd list option \<Rightarrow> console \<Rightarrow> console" where
  "show_command_list cmds c =
     (case cmds of None \<Rightarrow> c
      | Some l \<Rightarrow> fold (\<lambda>cmd c. mipos_puts crlf (mipos_puts (cmd_help cmd) (mipos_puts [9] c))) l c)"

definition exec_help_command :: "console \<Rightarrow> console" where
  "exec_help_command c = show_command_list (registered_cmd_list c) (show_command_list (Some mipos_cmd_list) c)"

definition exec_ver_command :: "console \<Rightarrow> console" where
  "exec_ver_command c = mipos_puts crlf (mipos_puts MIPOS_STR_VER c)"

definition exec_dump_command :: "board \<Rightarrow> nat list \<Rightarrow> console \<Rightarrow> console option" where
  "exec_dump_command bd argv c =
     (let argc = length argv; mode = (argc > 3)
      in do { page \<leftarrow> (if argc > 2 then arg argv 2 c \<bind> c_atoi else Some 64);
              addr \<leftarrow> (if argc > 1 then arg argv 1 c \<bind> scan_hex 64 else Some 0);
              if addr = 0 then Some c else mem_dump bd (of_nat addr) (of_int page) mode c })"

definition exec_patch_command :: "nat list \<Rightarrow> console \<Rightarrow> console option" where
  "exec_patch_command argv c =
     (if length argv \<noteq> 3 then Some (mipos_puts (ascii ''Wrong number of parameters'' @ crlf) c)
      else do { addr \<leftarrow> arg argv 1 c \<bind> scan_hex 64;
                val \<leftarrow> arg argv 2 c \<bind> scan_hex 32;
                _ \<leftarrow> con_mem c (of_nat addr);
                Some (c\<lparr>con_mem := (con_mem c)(of_nat addr := Some (of_nat val))\<rparr>) })"

definition taskdbg_call :: "u8 \<Rightarrow> u32 \<Rightarrow> nat list \<Rightarrow> console \<Rightarrow> console option" where
  "taskdbg_call ch tid argv c =
     (if ch = of_nat (of_char (CHR ''u'')) then Some (c\<lparr>con_kernel := mipos_t_unfreeze tid (con_kernel c)\<rparr>)
      else if ch = of_nat (of_char (CHR ''f'')) then Some (c\<lparr>con_kernel := mipos_t_freeze tid (con_kernel c)\<rparr>)
      else if ch = of_nat (of_char (CHR ''d'')) then Some (c\<lparr>con_kernel := mipos_t_delete tid (con_kernel c)\<rparr>)
      else if ch = of_nat (of_char (CHR ''s''))
      then if length argv > 2
           then do { signum \<leftarrow> arg argv 2 c \<bind> c_atoi;
                     Some (c\<lparr>con_kernel := mipos_t_notify_signal tid (of_int signum) (con_kernel c)\<rparr>) }
           else Some (mipos_puts ([13] @ ascii ''Missing second parameter'' @ [13]) c)
      else Some c)"

definition exec_taskdbg_command :: "nat list \<Rightarrow> console \<Rightarrow> console option" where
  "exec_taskdbg_command argv c =
     do { tid \<leftarrow> (if length argv > 1 then arg argv 1 c \<bind> c_atoi else Some 0);
          if tid > 0 \<and> tid < int MIPOS_MAX_TASKS_COUNT
          then if argv = [] \<or> hd argv \<ge> length (rs232_rx_buf c) then None
               else taskdbg_call (rs232_rx_buf c ! hd argv) (of_int tid) argv c
          else Some (mipos_puts ([13] @ ascii ''Missing first parameter'' @ [13]) c) }"

text \<open>One line of \<^verbatim>\<open>ps\<close>; the task then sleeps for a tick, in which other tasks run.\<close>

definition ps_line :: "board \<Rightarrow> nat \<Rightarrow> mipos_task \<Rightarrow> u8 list" where
  "ps_line bd tid t =
     (let top = t_stack t + (t_stack_size t - 8)
      in ascii ''pid: '' @ fmt_hex False 2 tid @ [32] @
         pad_left 8 32 (takeWhile (\<lambda>ch. ch \<noteq> 0) (ascii (t_name t))) @ ascii ''@'' @
         fmt_p bd (t_entry_point t) @ [32] @
         ascii ''psig:'' @ fmt_hex False 8 (unat (t_signal_pending t)) @ [32] @
         ascii ''wsig:'' @ fmt_hex False 8 (unat (t_signal_waiting t)) @ [32] @
         ascii ''status:'' @ fmt_dec 2 (unat (t_status t)) @ [32] @
         pad_left 8 32 (dbg_describe_state (t_status t)) @ [32] @
         ascii ''Stack:'' @ fmt_p bd top @ [32] @
         ascii ''SP='' @ fmt_p bd (t_process_sp t) @ [32] @
         ascii ''used (Kb)='' @ fmt_dec 4 (unat ((top - t_process_sp t) div 1024)) @ ascii ''/'' @
         fmt_dec 4 (unat (t_stack_size t div 1024)) @ crlf)"

definition ps_task :: "board \<Rightarrow> nat \<Rightarrow> console \<Rightarrow> console option" where
  "ps_task bd tid c =
     (let t = task_of (con_kernel c) tid
      in if t_entry_point t = 0 then Some c
         else let c1 = mipos_puts (ps_line bd tid t) c
              in do { k \<leftarrow> mipos_tm_msleep (wait_pc bd) (wait_sp bd) 1 (con_kernel c1);
                      others bd (c1\<lparr>con_kernel := k\<rparr>) })"

definition exec_ps_command :: "board \<Rightarrow> console \<Rightarrow> console option" where
  "exec_ps_command bd c = run_ops (ps_task bd) [1..<MIPOS_MAX_TASKS_COUNT] c"

fun call_cmd :: "board \<Rightarrow> cmd_function \<Rightarrow> nat list \<Rightarrow> console \<Rightarrow> console option" where
  "call_cmd bd exec_help argv c = Some (exec_help_command c)"
| "call_cmd bd exec_ver argv c = Some (exec_ver_command c)"
| "call_cmd bd exec_dump argv c = exec_dump_command bd argv c"
| "call_cmd bd exec_patch argv c = exec_patch_command argv c"
| "call_cmd bd exec_ps argv c = exec_ps_command bd c"
| "call_cmd bd exec_taskdbg argv c = exec_taskdbg_command argv c"
| "call_cmd bd (exec_user n) argv c = user_cmd bd n argv c"

text \<open>\<open>None\<close> as the index stands for the result -1.\<close>

fun try_exec_from :: "board \<Rightarrow> nat list \<Rightarrow> nat \<Rightarrow> console_cmd list \<Rightarrow> console \<Rightarrow> (nat option \<times> console) option" where
  "try_exec_from bd argv i [] c = Some (None, c)"
| "try_exec_from bd argv i (cmd # cmds) c =
     (if argv = [] then try_exec_from bd argv (Suc i) cmds c
      else do { name \<leftarrow> arg argv 0 c;
                if name = cmd_str cmd then map_option (Pair (Some i)) (call_cmd bd (cmd_exec cmd) argv c)
                else try_exec_from bd argv (Suc i) cmds c })"

definition try_exec_cmd :: "board \<Rightarrow> nat list \<Rightarrow> console_cmd list \<Rightarrow> console \<Rightarrow> (nat option \<times> console) option" where
  "try_exec_cmd bd argv cmds c = try_exec_from bd argv 0 cmds c"

subsection \<open>The receiver task\<close>

definition recvr_exec :: "board \<Rightarrow> console \<Rightarrow> console option" where
  "recvr_exec bd c =
     do { let cmd_len = rs232_rx_buf_idx c;
          c1 \<leftarrow> (case recv_cbk bd of None \<Rightarrow> Some c | Some cbk \<Rightarrow> cbk cmd_len c);
          (argv, buf) \<leftarrow> mipos_split_command (rs232_rx_buf c1) (sint cmd_len) CONSOLE_MAX_ARGS_COUNT;
          (r, c2) \<leftarrow> try_exec_cmd bd argv mipos_cmd_list (c1\<lparr>rs232_rx_buf := buf\<rparr>);
          c3 \<leftarrow> (case (r, registered_cmd_list c2) of
                   (None, Some cmds) \<Rightarrow> map_option snd (try_exec_cmd bd argv cmds c2) | _ \<Rightarrow> Some c2);
          c4 \<leftarrow> (case console_prompt c3 of
                   None \<Rightarrow> Some c3 | Some p \<Rightarrow> map_option snd (mipos_console_send_null_str p c3));
          Some (c4\<lparr>rs232_rx_buf := replicate RS232_RX_BUF_LEN 0, rs232_rx_buf_idx := 0\<rparr>) }"

definition recvr_echo :: "u8 \<Rightarrow> console \<Rightarrow> console" where
  "recvr_echo ch c =
     (if console_flags c AND CONSOLE_FLG_ECHO \<noteq> 0 \<and> \<not> (rs232_rx_buf_idx c < 1 \<and> ch = 8)
      then mipos_console_put_char ch c else c)"

definition recvr_store :: "u8 \<Rightarrow> console \<Rightarrow> console option" where
  "recvr_store ch c =
     (let idx = rs232_rx_buf_idx c
      in if ch > 31 \<and> unat idx < RS232_RX_BUF_LEN
         then if unat idx < length (rs232_rx_buf c)
              then Some (c\<lparr>rs232_rx_buf := (rs232_rx_buf c)[unat idx := ch], rs232_rx_buf_idx := idx + 1\<rparr>)
              else None
         else if ch = 8 \<and> idx > 0
         then let c1 = mipos_console_put_char 8 (mipos_console_put_char 32 c)
              in if unat (idx - 1) < length (rs232_rx_buf c1)
                 then Some (c1\<lparr>rs232_rx_buf := (rs232_rx_buf c1)[unat (idx - 1) := 0], rs232_rx_buf_idx := idx - 1\<rparr>)
                 else None
         else Some c)"

definition recvr_char :: "board \<Rightarrow> u8 \<Rightarrow> console \<Rightarrow> console option" where
  "recvr_char bd ch c =
     (if ch = 0 then Some c
      else let c1 = recvr_echo ch c
           in do { c2 \<leftarrow> (if ch = ucast (end_line_char c1) then recvr_exec bd c1 else Some c1);
                   recvr_store ch c2 })"

text \<open>
  One poll of \<^verbatim>\<open>mipos_console_get_char\<close>: a byte ends its loop, otherwise the task gives way to the others.
\<close>

definition console_get_char_poll :: "board \<Rightarrow> u8 option \<Rightarrow> console \<Rightarrow> (u8 option \<times> console) option" where
  "console_get_char_poll bd key c =
     (case key of
        Some ch \<Rightarrow> Some (Some ch, c)
      | None \<Rightarrow> do { k \<leftarrow> mipos_tm_wkafter (wait_pc bd) (wait_sp bd) 0 (con_kernel c);
                     c1 \<leftarrow> others bd (c\<lparr>con_kernel := k\<rparr>);
                     Some (None, c1) })"

definition recvr_turn :: "board \<Rightarrow> u8 option \<Rightarrow> console \<Rightarrow> console option" where
  "recvr_turn bd key c =
     do { (r, c1) \<leftarrow> console_get_char_poll bd key c;
          case r of None \<Rightarrow> Some c1 | Some ch \<Rightarrow> recvr_char bd ch c1 }"

text \<open>The receiver task on the results of its polls.\<close>

definition recvr_task :: "board \<Rightarrow> u8 option list \<Rightarrow> console \<Rightarrow> console option" where
  "recvr_task bd polls c = run_ops (recvr_turn bd) polls (c\<lparr>rs232_rx_buf_idx := 0\<rparr>)"

subsection \<open>Start\<close>

record console_init =
  init_flags :: u32
  init_prompt :: "u8 list option"
  init_end_line_char :: u8
  init_recv_cbk :: ptr

text \<open>The array \<^verbatim>\<open>rs232_tx_queue_pool\<close>, the entry points and the stacks of the two tasks are arguments.\<close>

definition mipos_console_init ::
    "console_init \<Rightarrow> u32 list \<Rightarrow> ptr \<Rightarrow> ptr \<Rightarrow> ptr \<Rightarrow> ptr \<Rightarrow> console \<Rightarrow> console option" where
  "mipos_console_init cfg queue_pool sender recvr sender_stack recvr_stack c =
     do { q \<leftarrow> mipos_q_init queue_pool (of_nat RS232_TX_QUEUE_LEN);
          let k1 = snd (mipos_t_create ''cnsltx'' sender 0 sender_stack (1024 * 1024) MIPOS_NO_RT (con_kernel c));
          let k2 = snd (mipos_t_create ''cnslrx'' recvr (init_recv_cbk cfg) recvr_stack (1024 * 1024) MIPOS_NO_RT k1);
          Some (c\<lparr>end_line_char := ucast (init_end_line_char cfg), console_flags := init_flags cfg,
                  console_prompt := init_prompt cfg, rs232_tx_queue := q, con_kernel := k2\<rparr>) }"

end
