(* ===== verification/Mipos_Console_Props.thy ===== *)
theory Mipos_Console_Props
  imports Mipos_Console
begin

text \<open>
  Properties of the console: the splitter of command lines stays inside its arrays, the receiver task
  is a line editor, the transmit ring delivers messages in order, and the commands with two arguments
  do not get their second one.
\<close>

subsection \<open>Splitting stays inside the arrays\<close>

text \<open>A line of \<open>n\<close> characters in an array, with a 0 behind it.\<close>

definition line_at :: "nat \<Rightarrow> nat \<Rightarrow> u8 list \<Rightarrow> bool" where
  "line_at pt n buf \<longleftrightarrow> pt \<le> n \<and> n < length buf \<and> buf ! n = 0 \<and> (\<forall>i. pt \<le> i \<and> i < n \<longrightarrow> buf ! i \<noteq> 0)"

lemma sep_nonzero [simp]: "\<not> word_sep 0"
  by (simp add: word_sep_def)

lemma word_skip_ok:
  assumes "line_at 0 m s" "0 < m" "len = pos + int m"
  shows "(\<exists>s1. word_skip pos len s = Some (- 1, s1) \<and> length s1 = length s \<and> s1 ! m = 0) \<or>
    (\<exists>p<m. word_skip pos len s = Some (pos + int p, replicate p 0 @ drop p s) \<and> \<not> word_sep (s ! p))"
  using assms
proof (induction s arbitrary: pos m)
  case Nil
  then show ?case by (simp add: line_at_def)
next
  case (Cons ch s)
  show ?case
  proof (cases "word_sep ch \<and> m \<noteq> 1")
    case True
    then have m: "0 < m - 1" "m = Suc (m - 1)" using Cons.prems by auto
    have "line_at 0 (m - 1) s"
      using Cons.prems(1) m unfolding line_at_def
      by (metis Suc_less_eq length_Cons less_eq_nat.simps(1) nth_Cons_Suc)
    from Cons.IH [OF this m(1), of "pos + 1"] Cons.prems(3) m(2)
    have IH: "(\<exists>s1. word_skip (pos + 1) len s = Some (- 1, s1) \<and> length s1 = length s \<and> s1 ! (m - 1) = 0) \<or>
       (\<exists>p<m - 1. word_skip (pos + 1) len s = Some (pos + 1 + int p, replicate p 0 @ drop p s) \<and> \<not> word_sep (s ! p))"
      by simp
    have "\<not> len \<le> pos + 1" using m Cons.prems(3) by linarith
    then have step: "word_skip pos len (ch # s) = map_option (\<lambda>(p, s1). (p, 0 # s1)) (word_skip (pos + 1) len s)"
      using True by simp
    from IH show ?thesis
    proof (elim disjE exE conjE)
      fix s1
      assume "word_skip (pos + 1) len s = Some (- 1, s1)" "length s1 = length s" "s1 ! (m - 1) = 0"
      then show ?thesis using step m by (intro disjI1) (auto simp: nth_Cons')
    next
      fix p
      assume "p < m - 1" "word_skip (pos + 1) len s = Some (pos + 1 + int p, replicate p 0 @ drop p s)"
        "\<not> word_sep (s ! p)"
      then show ?thesis using step by (intro disjI2 exI [of _ "Suc p"]) auto
    qed
  next
    case False
    then show ?thesis using Cons.prems by (auto simp: line_at_def)
  qed
qed

lemma word_count_ok:
  "m < length s \<Longrightarrow> s ! m = 0 \<Longrightarrow> \<exists>n\<le>m. word_count s = Some n"
proof (induction s arbitrary: m)
  case (Cons ch s)
  show ?case
  proof (cases m)
    case 0
    then show ?thesis using Cons.prems by simp
  next
    case (Suc j)
    then obtain n where "n \<le> j" "word_count s = Some n" using Cons by fastforce
    then show ?thesis using Suc by auto
  qed
qed simp

lemma line_at_drop: "line_at pt n buf \<Longrightarrow> line_at 0 (n - pt) (drop pt buf)"
  by (auto simp: line_at_def)

lemma word_boundary_ok:
  assumes l: "line_at pt n buf" and lt: "pt < n"
  shows "(\<exists>s. word_boundary (drop pt buf) (int n - int pt) = Some (- 1, 0, s) \<and>
      length (take pt buf @ s) = length buf \<and> (take pt buf @ s) ! n = 0) \<or>
    (\<exists>p w. word_boundary (drop pt buf) (int n - int pt) =
        Some (int p, w, replicate p 0 @ drop (pt + p) buf) \<and> 0 < w \<and> pt + p + w \<le> n)"
proof -
  let ?s = "drop pt buf" and ?m = "n - pt"
  have len: "int n - int pt = 0 + int ?m" using lt by simp
  have n: "n < length buf" "buf ! n = 0" using l by (simp_all add: line_at_def)
  from word_skip_ok [OF line_at_drop [OF l] _ len] lt
  consider s1 where "word_skip 0 (int n - int pt) ?s = Some (- 1, s1)" "length s1 = length ?s" "s1 ! ?m = 0"
    | p where "p < ?m" "word_skip 0 (int n - int pt) ?s = Some (0 + int p, replicate p 0 @ drop p ?s)"
        "\<not> word_sep (?s ! p)"
    by (metis zero_less_diff)
  then show ?thesis
  proof cases
    case 1
    then show ?thesis using n lt by (intro disjI1 exI [of _ s1]) (auto simp: word_boundary_def nth_append)
  next
    case 2
    let ?t = "drop (pt + p) buf"
    have t: "n - pt - p < length ?t" "?t ! (n - pt - p) = 0" using n 2(1) by auto
    then obtain w where w: "w \<le> n - pt - p" "word_count ?t = Some w" using word_count_ok by blast
    have "?t ! 0 \<noteq> 0" "\<not> word_sep (?t ! 0)"
      using l 2 by (auto simp: line_at_def add.commute)
    moreover have "?t \<noteq> []" using t(1) by auto
    ultimately have "0 < w" using w(2) by (cases ?t) auto
    moreover have "word_boundary ?s (int n - int pt) = Some (int p, w, replicate p 0 @ ?t)"
      using 2(2) w(2) by (simp add: word_boundary_def add.commute)
    ultimately show ?thesis using w(1) 2(1) by (intro disjI2 exI [of _ p] exI [of _ w]) auto
  qed
qed

lemma line_at_blank:
  assumes "line_at pt n buf" "pt + p \<le> q" "q \<le> n"
  shows "line_at q n (take pt buf @ replicate p 0 @ drop (pt + p) buf)"
  using assms by (auto simp: line_at_def nth_append)

text \<open>
  Each round moves the line pointer by the sum of all words and gaps so far, so the \<open>k\<close>-th round by at
  least \<open>k\<close>: after \<open>k\<close> rounds it has moved by at least \<^verbatim>\<open>k (k + 1) / 2\<close>.
\<close>

lemma split_loop_ok:
  assumes "line_at pt n buf" "pt < n" "n < 36" "k * (k + 1) \<le> 2 * pt" "int k \<le> pos" "slots + k = 8"
    "k = length argv" "\<forall>a\<in>set argv. a \<le> n" "len = int n - int pt"
  shows "\<exists>argv' buf'. split_loop slots buf pt len pos argv = Some (argv', buf') \<and> length argv' \<le> 8 \<and>
    (\<forall>a\<in>set argv'. a \<le> n) \<and> length buf' = length buf \<and> buf' ! n = 0"
  using assms
proof (induction slots arbitrary: buf pt k pos argv len)
  case 0
  then have "36 * 2 \<le> 2 * pt" by simp
  with 0 show ?case by linarith
next
  case (Suc slots)
  note l = Suc.prems(1) and lt = Suc.prems(2)
  from word_boundary_ok [OF l lt] show ?case
  proof (elim disjE exE conjE)
    fix s
    assume "word_boundary (drop pt buf) (int n - int pt) = Some (- 1, 0, s)"
      "length (take pt buf @ s) = length buf" "(take pt buf @ s) ! n = 0"
    then show ?thesis using Suc.prems by (intro exI [of _ argv] exI [of _ "take pt buf @ s"]) auto
  next
    fix p w
    let ?buf = "take pt buf @ replicate p 0 @ drop (pt + p) buf" and ?pos = "pos + int p + int w"
    let ?pt = "pt + nat ?pos" and ?argv = "argv @ [pt + p]"
    assume b: "word_boundary (drop pt buf) (int n - int pt) = Some (int p, w, replicate p 0 @ drop (pt + p) buf)"
      and w: "0 < w" "pt + p + w \<le> n"
    have n: "n < length buf" using l by (simp add: line_at_def)
    have step: "split_loop (Suc slots) buf pt len pos argv =
        (if len - ?pos > 0 then split_loop slots ?buf ?pt (len - ?pos) ?pos ?argv else Some (?argv, ?buf))"
      using b Suc.prems(9) by (simp add: Let_def)
    have buf: "length ?buf = length buf" "?buf ! n = 0"
      using l w by (auto simp: line_at_def nth_append)
    have args: "\<forall>a\<in>set ?argv. a \<le> n" using Suc.prems(8) w by auto
    have pos: "int (Suc k) \<le> ?pos" using Suc.prems(5) w by linarith
    show ?thesis
    proof (cases "len - ?pos > 0")
      case False
      then show ?thesis using step buf args Suc.prems(6,7) by (intro exI [of _ ?argv] exI [of _ ?buf]) auto
    next
      case True
      have pt: "int ?pt = int pt + ?pos" using pos by simp
      have lt': "?pt < n" using True pt Suc.prems(9) by linarith
      have "Suc k \<le> nat ?pos" using pos by linarith
      then have sq: "Suc k * (Suc k + 1) \<le> 2 * ?pt"
        using add_mono [OF Suc.prems(4) mult_le_mono2 [of "Suc k" "nat ?pos" 2]] by simp
      have at: "line_at ?pt n ?buf"
        using line_at_blank [OF l, of p ?pt] lt' w pos Suc.prems(5) by linarith
      from Suc.IH [OF at lt' Suc.prems(3) sq pos _ _ args, of "len - ?pos"] step True Suc.prems(6,7,9) pt buf(1)
      show ?thesis by simp
    qed
  qed
qed

lemma c_str_ends: "m < length s \<Longrightarrow> s ! m = 0 \<Longrightarrow> \<exists>t. c_str s = Some t"
proof (induction s arbitrary: m)
  case (Cons ch s)
  then show ?case by (cases m) fastforce+
qed simp

lemma split_empty: "line_at 0 0 buf \<Longrightarrow> mipos_split_command buf 0 8 = Some ([0], buf)"
  by (cases buf) (auto simp: mipos_split_command_def line_at_def word_boundary_def eval_nat_numeral)

text \<open>
  C23. A line that does not fill the receive buffer is split without an access outside the buffer or outside
  the eight entries of \<^verbatim>\<open>argv\<close>, although \<^verbatim>\<open>max_args\<close> is ignored, and every argument is a terminated string.
\<close>

theorem split_stays_in_bounds:
  assumes l: "line_at 0 n buf" and n: "n < RS232_RX_BUF_LEN"
  shows "\<exists>argv buf'. mipos_split_command buf (int n) CONSOLE_MAX_ARGS_COUNT = Some (argv, buf') \<and>
    length argv \<le> CONSOLE_MAX_ARGS_COUNT \<and> length buf' = length buf \<and>
    (\<forall>a\<in>set argv. a \<le> n \<and> (\<exists>s. c_str (drop a buf') = Some s))"
proof -
  have "\<exists>argv buf'. mipos_split_command buf (int n) 8 = Some (argv, buf') \<and> length argv \<le> 8 \<and>
      (\<forall>a\<in>set argv. a \<le> n) \<and> length buf' = length buf \<and> buf' ! n = 0"
  proof (cases "n = 0")
    case True
    then show ?thesis using split_empty l by (auto simp: line_at_def)
  next
    case False
    then show ?thesis
      unfolding mipos_split_command_def using split_loop_ok [OF l, of 0 0 8 "[]" "int n"] n by (simp add: mip_simps)
  qed
  then obtain argv buf' where r: "mipos_split_command buf (int n) 8 = Some (argv, buf')" "length argv \<le> 8"
      "\<forall>a\<in>set argv. a \<le> n" "length buf' = length buf" "buf' ! n = 0"
    by blast
  have "\<exists>s. c_str (drop a buf') = Some s" if "a \<in> set argv" for a
    using r(3,4,5) that l c_str_ends [of "n - a" "drop a buf'"] by (auto simp: line_at_def)
  with r show ?thesis by (auto simp: mip_simps)
qed

text \<open>A word that fills the receive buffer has no 0 behind it: the splitter reads on behind the buffer.\<close>

lemma word_count_unterminated: "\<forall>ch\<in>set s. ch \<noteq> 0 \<and> \<not> word_sep ch \<Longrightarrow> word_count s = None"
  by (induction s) auto

lemma full_line_overruns:
  assumes "length s = RS232_RX_BUF_LEN" "\<forall>ch\<in>set s. ch \<noteq> 0 \<and> \<not> word_sep ch"
  shows "mipos_split_command s (int RS232_RX_BUF_LEN) CONSOLE_MAX_ARGS_COUNT = None"
proof -
  obtain ch t where s: "s = ch # t" using assms(1) by (cases s) (auto simp: mip_simps)
  then have "word_skip 0 (int RS232_RX_BUF_LEN) s = Some (0, s)" using assms(2) by simp
  then have "word_boundary s (int RS232_RX_BUF_LEN) = None"
    using word_count_unterminated [OF assms(2)] by (simp add: word_boundary_def)
  then show ?thesis by (simp add: mipos_split_command_def)
qed

subsection \<open>The line editor\<close>

definition rx_wf :: "console \<Rightarrow> bool" where
  "rx_wf c \<longleftrightarrow>
     length (rs232_rx_buf c) = RS232_RX_BUF_LEN \<and> unat (rs232_rx_buf_idx c) \<le> RS232_RX_BUF_LEN \<and>
     (\<forall>i < unat (rs232_rx_buf_idx c). rs232_rx_buf c ! i > 31) \<and>
     (\<forall>i. unat (rs232_rx_buf_idx c) \<le> i \<and> i < RS232_RX_BUF_LEN \<longrightarrow> rs232_rx_buf c ! i = 0)"

definition rx_text :: "console \<Rightarrow> u8 list" where
  "rx_text c = take (unat (rs232_rx_buf_idx c)) (rs232_rx_buf c)"

text \<open>The specification: a printable key is appended while there is room, a backspace takes back the last one.\<close>

definition edit_key :: "u8 \<Rightarrow> u8 list \<Rightarrow> u8 list" where
  "edit_key ch s =
     (if ch > 31 \<and> length s < RS232_RX_BUF_LEN then s @ [ch] else if ch = 8 then butlast s else s)"

lemma put_char_frame [simp]:
  "rs232_rx_buf (mipos_console_put_char ch c) = rs232_rx_buf c"
  "rs232_rx_buf_idx (mipos_console_put_char ch c) = rs232_rx_buf_idx c"
  "end_line_char (mipos_console_put_char ch c) = end_line_char c"
  "console_flags (mipos_console_put_char ch c) = console_flags c"
  "con_kernel (mipos_console_put_char ch c) = con_kernel c"
  "rs232_tx_queue (mipos_console_put_char ch c) = rs232_tx_queue c"
  "rs232_tx_buf_pool (mipos_console_put_char ch c) = rs232_tx_buf_pool c"
  "rs232_tx_msg_idx (mipos_console_put_char ch c) = rs232_tx_msg_idx c"
  by (simp_all add: mipos_console_put_char_def rs232_putc_def)

lemma rx_text_length: "rx_wf c \<Longrightarrow> length (rx_text c) = unat (rs232_rx_buf_idx c)"
  by (simp add: rx_wf_def rx_text_def)

lemma recvr_store_append:
  assumes wf: "rx_wf c" and ch: "ch > 31" and lt: "unat (rs232_rx_buf_idx c) < RS232_RX_BUF_LEN"
  shows "\<exists>c'. recvr_store ch c = Some c' \<and> rx_wf c' \<and> rx_text c' = rx_text c @ [ch] \<and>
    con_kernel c' = con_kernel c \<and> end_line_char c' = end_line_char c"
proof -
  let ?i = "unat (rs232_rx_buf_idx c)"
  let ?c = "c\<lparr>rs232_rx_buf := (rs232_rx_buf c)[?i := ch], rs232_rx_buf_idx := rs232_rx_buf_idx c + 1\<rparr>"
  have len: "length (rs232_rx_buf c) = RS232_RX_BUF_LEN" using wf by (simp add: rx_wf_def)
  have i1: "unat (rs232_rx_buf_idx c + 1) = Suc ?i" using lt by (simp add: unat_word_ariths mip_simps)
  have "rx_wf ?c" using wf ch lt by (auto simp: rx_wf_def i1 nth_list_update less_Suc_eq)
  moreover have "rx_text ?c = rx_text c @ [ch]"
    using lt len by (simp add: rx_text_def i1 take_Suc_conv_app_nth)
  ultimately show ?thesis using ch lt len by (auto simp: recvr_store_def Let_def)
qed

lemma recvr_store_back:
  assumes wf: "rx_wf c" and gt: "0 < unat (rs232_rx_buf_idx c)"
  shows "\<exists>c'. recvr_store 8 c = Some c' \<and> rx_wf c' \<and> rx_text c' = butlast (rx_text c) \<and>
    con_kernel c' = con_kernel c \<and> end_line_char c' = end_line_char c"
proof -
  let ?i = "unat (rs232_rx_buf_idx c) - 1" and ?c1 = "mipos_console_put_char 8 (mipos_console_put_char 32 c)"
  let ?c = "?c1\<lparr>rs232_rx_buf := (rs232_rx_buf c)[?i := 0], rs232_rx_buf_idx := rs232_rx_buf_idx c - 1\<rparr>"
  have b: "length (rs232_rx_buf c) = RS232_RX_BUF_LEN" "unat (rs232_rx_buf_idx c) \<le> RS232_RX_BUF_LEN"
    using wf by (simp_all add: rx_wf_def)
  have nz: "rs232_rx_buf_idx c \<noteq> 0" using gt by auto
  then have i1: "unat (rs232_rx_buf_idx c - 1) = ?i" by (simp add: unat_minus_one)
  have "rx_wf ?c" using wf gt by (auto simp: rx_wf_def i1 nth_list_update)
  moreover have "rx_text ?c = butlast (rx_text c)"
    using gt b by (simp add: rx_text_def i1 butlast_take)
  moreover have "recvr_store 8 c = Some ?c"
    using nz gt b i1 by (auto simp: recvr_store_def Let_def word_neq_0_conv)
  ultimately show ?thesis by auto
qed

lemma recvr_store_ok:
  assumes "rx_wf c"
  shows "\<exists>c'. recvr_store ch c = Some c' \<and> rx_wf c' \<and> rx_text c' = edit_key ch (rx_text c) \<and>
    con_kernel c' = con_kernel c \<and> end_line_char c' = end_line_char c"
proof -
  consider "ch > 31 \<and> unat (rs232_rx_buf_idx c) < RS232_RX_BUF_LEN" | "ch = 8 \<and> 0 < unat (rs232_rx_buf_idx c)"
    | "\<not> (ch > 31 \<and> unat (rs232_rx_buf_idx c) < RS232_RX_BUF_LEN)" "\<not> (ch = 8 \<and> 0 < unat (rs232_rx_buf_idx c))"
    by blast
  then show ?thesis
  proof cases
    case 1
    then show ?thesis using recvr_store_append [OF assms, of ch] rx_text_length [OF assms] by (simp add: edit_key_def)
  next
    case 2
    then show ?thesis using recvr_store_back [OF assms] by (simp add: edit_key_def)
  next
    case 3
    then have "recvr_store ch c = Some c" by (auto simp: recvr_store_def Let_def word_less_nat_alt)
    then show ?thesis using 3 assms rx_text_length [OF assms] by (auto simp: edit_key_def)
  qed
qed

lemma echo_frame:
  "rx_wf (recvr_echo ch c) = rx_wf c" "rx_text (recvr_echo ch c) = rx_text c"
  "con_kernel (recvr_echo ch c) = con_kernel c" "end_line_char (recvr_echo ch c) = end_line_char c"
  by (simp_all add: recvr_echo_def rx_wf_def rx_text_def)

lemma recvr_char_ok:
  assumes "rx_wf c" "ch \<noteq> ucast (end_line_char c)"
  shows "\<exists>c'. recvr_char bd ch c = Some c' \<and> rx_wf c' \<and> rx_text c' = edit_key ch (rx_text c) \<and>
    con_kernel c' = con_kernel c \<and> end_line_char c' = end_line_char c"
proof (cases "ch = 0")
  case True
  then show ?thesis using assms by (simp add: recvr_char_def edit_key_def)
next
  case False
  then show ?thesis
    using recvr_store_ok [of "recvr_echo ch c" ch] assms by (simp add: recvr_char_def Let_def echo_frame)
qed

lemma recvr_run_ok:
  "rx_wf c \<Longrightarrow> \<forall>ch\<in>set ks. ch \<noteq> ucast (end_line_char c) \<Longrightarrow>
   \<exists>c'. run_ops (recvr_turn bd) (map Some ks) c = Some c' \<and> rx_wf c' \<and> rx_text c' = fold edit_key ks (rx_text c) \<and>
     con_kernel c' = con_kernel c"
proof (induction ks arbitrary: c)
  case (Cons ch ks)
  obtain c1 where c1: "recvr_char bd ch c = Some c1" "rx_wf c1" "rx_text c1 = edit_key ch (rx_text c)"
      "con_kernel c1 = con_kernel c" "end_line_char c1 = end_line_char c"
    using recvr_char_ok [of c ch bd] Cons.prems by auto
  have "recvr_turn bd (Some ch) c = Some c1"
    using c1(1) by (simp add: recvr_turn_def console_get_char_poll_def)
  then show ?case using Cons.IH [OF c1(2)] Cons.prems c1 by simp
qed simp

text \<open>
  C24. The receiver task is a line editor: whatever is typed before the end of the line, the receive buffer holds
  what a simple editor makes of the keys, padded with zeros, without an access outside the buffer; the
  kernel is not touched, and a line with room left is in the form that \<^verbatim>\<open>mipos_split_command\<close> needs.
\<close>

theorem recvr_edits_line:
  assumes "rs232_rx_buf c = replicate RS232_RX_BUF_LEN 0" "\<forall>ch\<in>set ks. ch \<noteq> ucast (end_line_char c)"
  shows "\<exists>c'. recvr_task bd (map Some ks) c = Some c' \<and> rx_text c' = fold edit_key ks [] \<and>
    con_kernel c' = con_kernel c \<and>
    (length (rx_text c') < RS232_RX_BUF_LEN \<longrightarrow> line_at 0 (length (rx_text c')) (rs232_rx_buf c'))"
proof -
  have "rx_wf (c\<lparr>rs232_rx_buf_idx := 0\<rparr>)" using assms(1) by (simp add: rx_wf_def)
  from recvr_run_ok [OF this, of ks bd] assms(2) obtain c' where
    c': "recvr_task bd (map Some ks) c = Some c'" "rx_wf c'" "rx_text c' = fold edit_key ks []"
      "con_kernel c' = con_kernel c"
    by (auto simp: recvr_task_def rx_text_def)
  have "line_at 0 (length (rx_text c')) (rs232_rx_buf c')" if "length (rx_text c') < RS232_RX_BUF_LEN"
    using that c'(2) unfolding rx_text_length [OF c'(2)] by (fastforce simp: rx_wf_def line_at_def)
  with c' show ?thesis by blast
qed

subsection \<open>Commands with two arguments\<close>

definition word :: "u8 list \<Rightarrow> bool" where
  "word w \<longleftrightarrow> w \<noteq> [] \<and> (\<forall>ch\<in>set w. ch \<noteq> 0 \<and> \<not> word_sep ch)"

lemma word_count_word: "\<forall>ch\<in>set w. ch \<noteq> 0 \<and> \<not> word_sep ch \<Longrightarrow> x = 0 \<or> word_sep x \<Longrightarrow>
    word_count (w @ x # r) = Some (length w)"
  by (induction w) auto

lemma boundary_word:
  assumes "word w" "x = 0 \<or> word_sep x"
  shows "word_boundary (w @ x # r) len = Some (0, length w, w @ x # r)"
proof -
  obtain ch t where w: "w = ch # t" using assms(1) by (cases w) (auto simp: word_def)
  then have "word_skip 0 len (w @ x # r) = Some (0, w @ x # r)" using assms(1) by (simp add: word_def)
  then show ?thesis using word_count_word [OF _ assms(2)] assms(1) by (simp add: word_boundary_def word_def)
qed

lemma boundary_gap_word:
  assumes "word w" "x = 0 \<or> word_sep x" "1 < len"
  shows "word_boundary (32 # w @ x # r) len = Some (1, length w, 0 # w @ x # r)"
proof -
  obtain ch t where w: "w = ch # t" using assms(1) by (cases w) (auto simp: word_def)
  then have "word_skip 0 len (32 # w @ x # r) = Some (1, 0 # w @ x # r)"
    using assms(1,3) by (simp add: word_def) (simp add: word_sep_def)
  then show ?thesis using word_count_word [OF _ assms(2)] assms(1) by (simp add: word_boundary_def word_def)
qed

text \<open>
  The pointer moves by all that was consumed so far, not by the last word only: behind the second word it
  skips as many further characters as the first word has, and a shorter third word is lost.
\<close>

lemma split_third_word_lost:
  assumes w: "word w0" "word w1" "word w2" "length w2 < length w0"
    and buf: "buf = w0 @ 32 # w1 @ 32 # w2 @ 0 # z" and n: "n = length w0 + length w1 + length w2 + 2"
  shows "mipos_split_command buf (int n) CONSOLE_MAX_ARGS_COUNT =
    Some ([0, length w0 + 1], w0 @ 0 # w1 @ 32 # w2 @ 0 # z)"
proof -
  let ?rest = "w1 @ 32 # w2 @ 0 # z" and ?len = "2 + int (length w1) + int (length w2)"
  have sep: "word_sep 32" by (simp add: word_sep_def)
  have b0: "word_boundary (w0 @ 32 # ?rest) len = Some (0, length w0, w0 @ 32 # ?rest)" for len
    using boundary_word [OF w(1)] sep by blast
  have b1: "word_boundary (32 # ?rest) ?len = Some (1, length w1, 0 # ?rest)"
    using boundary_gap_word [OF w(2), of 32 ?len] sep by simp
  have last: "split_loop (Suc m) (w0 @ 32 # ?rest) (length w0) ?len (int (length w0)) [0] =
      Some ([0, length w0 + 1], w0 @ 0 # ?rest)" for m
    using b1 w(4) by (simp add: Let_def)
  have "split_loop (Suc (Suc m)) (w0 @ 32 # ?rest) 0 (int n) 0 [] =
      split_loop (Suc m) (w0 @ 32 # ?rest) (length w0) ?len (int (length w0)) [0]" for m
    using b0 n by (subst split_loop.simps) (simp add: Let_def add.assoc del: split_loop.simps)
  then show ?thesis
    using last buf by (simp add: mipos_split_command_def CONSOLE_MAX_ARGS_COUNT_def eval_nat_numeral del: split_loop.simps)
qed

lemma c_str_app: "\<forall>ch\<in>set w. ch \<noteq> 0 \<Longrightarrow> c_str (w @ 0 # r) = Some w"
  by (induction w) auto

lemma puts_out: "mipos_puts s c = c\<lparr>con_out := con_out c @ s\<rparr>"
  unfolding mipos_puts_def by (induction s arbitrary: c) (auto simp: rs232_putc_def)

lemma exec_signal:
  assumes "arg argv 0 c = Some (ascii ''signal'')" "argv \<noteq> []"
  shows "try_exec_cmd bd argv mipos_cmd_list c = map_option (Pair (Some 8)) (exec_taskdbg_command argv c)"
  using assms by (simp add: try_exec_cmd_def mipos_cmd_list_def ascii_def) (simp add: eval_nat_numeral)

lemma signal_word: "word (ascii ''signal'')" "length (ascii ''signal'') = 6"
  by (simp_all add: word_def ascii_def word_sep_def)

text \<open>
  C38. The command \<^verbatim>\<open>signal <tid> <signum>\<close> cannot be given: with a signal number of up to five characters the
  command sees one argument only, prints that the second is missing, and signals nobody.
\<close>

theorem signal_command_lost:
  assumes w: "word w1" "word w2" "length w2 < 6"
    and buf: "rs232_rx_buf c = ascii ''signal'' @ 32 # w1 @ 32 # w2 @ 0 # z"
    and idx: "rs232_rx_buf_idx c = of_nat (8 + length w1 + length w2)" and fits: "length (rs232_rx_buf c) = RS232_RX_BUF_LEN"
    and tid: "c_atoi (w1 @ 32 # w2) = Some tid" "0 < tid" "tid < int MIPOS_MAX_TASKS_COUNT"
    and plain: "recv_cbk bd = None" "console_prompt c = None"
  shows "\<exists>c'. recvr_exec bd c = Some c' \<and> con_kernel c' = con_kernel c \<and>
    con_out c' = con_out c @ [13] @ ascii ''Missing second parameter'' @ [13]"
proof -
  let ?sig = "ascii ''signal''" and ?n = "8 + length w1 + length w2" and ?argv = "[0, 7]"
  let ?buf = "?sig @ 0 # w1 @ 32 # w2 @ 0 # z"
  let ?c = "c\<lparr>rs232_rx_buf := ?buf\<rparr>"
  have n: "?n < 32" using fits buf signal_word(2) by (simp add: mip_simps)
  have len: "sint (rs232_rx_buf_idx c) = int ?n"
    unfolding idx using n int_word_sint [of "int ?n", where 'a = 32] by simp
  have split: "mipos_split_command (rs232_rx_buf c) (int ?n) CONSOLE_MAX_ARGS_COUNT = Some (?argv, ?buf)"
    using split_third_word_lost [OF signal_word(1) w(1,2) _ buf, of ?n] w(3) signal_word(2) by simp
  have nz: "\<forall>ch\<in>set (w1 @ 32 # w2). ch \<noteq> 0" using w by (auto simp: word_def)
  have a0: "arg ?argv 0 ?c = Some ?sig"
    using c_str_app [of ?sig] signal_word(1) by (simp add: arg_def word_def)
  have a1: "arg ?argv 1 ?c = Some (w1 @ 32 # w2)"
    using c_str_app [OF nz, of z] signal_word(2) by (simp add: arg_def)
  have ch: "?buf ! 0 = 115" by (simp add: ascii_def)
  have "exec_taskdbg_command ?argv ?c = Some (mipos_puts ([13] @ ascii ''Missing second parameter'' @ [13]) ?c)"
    using a1 tid ch by (simp add: exec_taskdbg_command_def taskdbg_call_def)
  then show ?thesis
    using exec_signal [OF a0, of bd] split len plain by (simp add: recvr_exec_def puts_out)
qed

subsection \<open>The transmit ring\<close>

text \<open>
  What a client of a transmit channel relies on: a send queues the part of the message it reports, a turn
  of the sender puts the oldest queued message on the wire and never touches the order.
\<close>

fun chan_run :: "('x \<Rightarrow> 's \<Rightarrow> ('m \<times> 's) option) \<Rightarrow> ('s \<Rightarrow> 's option) \<Rightarrow> 'x option list \<Rightarrow> 's \<Rightarrow>
    ('m list \<times> 's) option" where
  "chan_run snd_op turn [] s = Some ([], s)"
| "chan_run snd_op turn (Some x # ops) s =
     do { (m, s1) \<leftarrow> snd_op x s; (ms, s2) \<leftarrow> chan_run snd_op turn ops s1; Some (m # ms, s2) }"
| "chan_run snd_op turn (None # ops) s = do { s1 \<leftarrow> turn s; chan_run snd_op turn ops s1 }"

locale transmit_channel =
  fixes inv :: "'s \<Rightarrow> bool" and pending :: "'s \<Rightarrow> 'm list" and out :: "'s \<Rightarrow> 'b list" and wire :: "'m \<Rightarrow> 'b list"
    and ok :: "'x \<Rightarrow> bool" and snd_op :: "'x \<Rightarrow> 's \<Rightarrow> ('m \<times> 's) option" and turn :: "'s \<Rightarrow> 's option"
  assumes send_queues: "inv s \<Longrightarrow> ok x \<Longrightarrow> \<exists>m s'. snd_op x s = Some (m, s') \<and> inv s' \<and> out s' = out s \<and>
      concat (map wire (pending s')) = concat (map wire (pending s)) @ wire m"
    and turn_sends: "inv s \<Longrightarrow> pending s = m # ms \<Longrightarrow>
      \<exists>s'. turn s = Some s' \<and> inv s' \<and> pending s' = ms \<and> out s' = out s @ wire m"
    and turn_idle: "inv s \<Longrightarrow> pending s = [] \<Longrightarrow> \<exists>s'. turn s = Some s' \<and> inv s' \<and> pending s' = [] \<and> out s' = out s"
begin

lemma turn_total:
  "inv s \<Longrightarrow> \<exists>s'. turn s = Some s' \<and> inv s' \<and> pending s' = drop 1 (pending s) \<and>
     out s' @ concat (map wire (pending s')) = out s @ concat (map wire (pending s))"
  using turn_sends [of s] turn_idle [of s] by (cases "pending s") fastforce+

lemma in_order:
  "inv s \<Longrightarrow> \<forall>x. Some x \<in> set ops \<longrightarrow> ok x \<Longrightarrow>
   \<exists>ms s'. chan_run snd_op turn ops s = Some (ms, s') \<and> inv s' \<and>
     out s' @ concat (map wire (pending s')) = out s @ concat (map wire (pending s)) @ concat (map wire ms)"
proof (induction ops arbitrary: s)
  case Nil
  then show ?case by simp
next
  case (Cons op ops)
  show ?case
  proof (cases op)
    case None
    obtain s1 where s1: "turn s = Some s1" "inv s1"
        "out s1 @ concat (map wire (pending s1)) = out s @ concat (map wire (pending s))"
      using turn_total [OF Cons.prems(1)] by blast
    obtain ms s2 where s2: "chan_run snd_op turn ops s1 = Some (ms, s2)" "inv s2"
        "out s2 @ concat (map wire (pending s2)) = out s1 @ concat (map wire (pending s1)) @ concat (map wire ms)"
      using Cons.IH [OF s1(2)] Cons.prems(2) by auto
    have "chan_run snd_op turn (op # ops) s = Some (ms, s2)" using None s1(1) s2(1) by simp
    moreover have "out s2 @ concat (map wire (pending s2)) = out s @ concat (map wire (pending s)) @ concat (map wire ms)"
      using s2(3) s1(3) by (metis append_assoc)
    ultimately show ?thesis using s2(2) by blast
  next
    case (Some x)
    obtain m s1 where s1: "snd_op x s = Some (m, s1)" "inv s1" "out s1 = out s"
        "concat (map wire (pending s1)) = concat (map wire (pending s)) @ wire m"
      using send_queues [OF Cons.prems(1), of x] Cons.prems(2) Some by auto
    obtain ms s2 where s2: "chan_run snd_op turn ops s1 = Some (ms, s2)" "inv s2"
        "out s2 @ concat (map wire (pending s2)) = out s1 @ concat (map wire (pending s1)) @ concat (map wire ms)"
      using Cons.IH [OF s1(2)] Cons.prems(2) by auto
    have "chan_run snd_op turn (op # ops) s = Some (m # ms, s2)" using Some s1(1) s2(1) by simp
    then show ?thesis using s1(3,4) s2(2,3) by auto
  qed
qed

lemma drains:
  "inv s \<Longrightarrow> length (pending s) \<le> n \<Longrightarrow>
   \<exists>s'. chan_run snd_op turn (replicate n None) s = Some ([], s') \<and> inv s' \<and>
     out s' = out s @ concat (map wire (pending s))"
proof (induction n arbitrary: s)
  case (Suc n)
  obtain s1 where s1: "turn s = Some s1" "inv s1" "pending s1 = drop 1 (pending s)"
      "out s1 @ concat (map wire (pending s1)) = out s @ concat (map wire (pending s))"
    using turn_total [OF Suc.prems(1)] by blast
  then show ?case using Suc.IH [OF s1(2)] Suc.prems(2) by auto
qed simp

end

definition msg_text :: "msg \<Rightarrow> u8 list" where
  "msg_text m = take (unat (msg_len m)) (msg_buffer m)"

definition tx_pending :: "console \<Rightarrow> u8 list list" where
  "tx_pending c = map (\<lambda>i. msg_text (rs232_tx_buf_pool c ! unat i)) (q_list (rs232_tx_queue c))"

text \<open>The queued indices are consecutive positions of the ring that end in front of the next one to fill.\<close>

definition tx_ring :: "nat \<Rightarrow> console \<Rightarrow> bool" where
  "tx_ring s c \<longleftrightarrow>
     (let n = unat (q_count (rs232_tx_queue c))
      in q_list (rs232_tx_queue c) = map (\<lambda>i. of_nat ((s + i) mod 8)) [0..<n] \<and>
         unat (rs232_tx_msg_idx c) = (s + n) mod 8)"

definition tx_wf :: "u32 \<Rightarrow> u32 \<Rightarrow> console \<Rightarrow> bool" where
  "tx_wf e f c \<longleftrightarrow>
     q_wf (rs232_tx_queue c) \<and> q_limit (rs232_tx_queue c) = 8 \<and> length (rs232_tx_buf_pool c) = 8 \<and>
     (\<exists>s. tx_ring s c) \<and> end_line_char c = e \<and> console_flags c = f \<and> k_task_context (con_kernel c) \<noteq> None"

definition put_bytes :: "u32 \<Rightarrow> u32 \<Rightarrow> u8 \<Rightarrow> u8 list" where
  "put_bytes e f ch = (if ucast ch = e \<and> f AND CONSOLE_TX_CRLF \<noteq> 0 then [13, 10] else [ch])"

definition tx_wire :: "u32 \<Rightarrow> u32 \<Rightarrow> u8 list \<Rightarrow> u8 list" where
  "tx_wire e f m = concat (map (put_bytes e f) (takeWhile (\<lambda>ch. ch \<noteq> 0) m))"

fun sender_state :: "sender_outcome \<Rightarrow> console" where
  "sender_state (SenderSent c) = c"
| "sender_state (SenderBlocked c) = c"
| "sender_state (SenderSleeps c) = c"

text \<open>The next thing the sender task does: go on behind a blocking receive, or begin a pass of its loop.\<close>

definition sender_go :: "nat \<Rightarrow> u64 \<Rightarrow> console \<Rightarrow> console option" where
  "sender_go pc sp c =
     map_option sender_state
       (if q_suspended_tid (rs232_tx_queue c) = 0 then sender_turn pc sp c else sender_resume pc sp c)"

text \<open>A send with the part of the message that its result reports.\<close>

definition console_send_op :: "u8 list \<times> u32 \<Rightarrow> console \<Rightarrow> (u8 list \<times> console) option" where
  "console_send_op x c =
     map_option (\<lambda>(r, c1). (take (unat r) (fst x), c1)) (mipos_console_send (fst x) (snd x) c)"

definition send_ok :: "u8 list \<times> u32 \<Rightarrow> bool" where
  "send_ok x \<longleftrightarrow> min (unat (snd x)) RS232_TX_BUF_LEN \<le> length (fst x)"

lemma put_char_out: "con_out (mipos_console_put_char ch c) = con_out c @ put_bytes (end_line_char c) (console_flags c) ch"
  by (simp add: mipos_console_put_char_def rs232_putc_def put_bytes_def)

lemma put_chars:
  "con_out (fold mipos_console_put_char s c) =
     con_out c @ concat (map (put_bytes (end_line_char c) (console_flags c)) s)"
  "rs232_tx_queue (fold mipos_console_put_char s c) = rs232_tx_queue c"
  "rs232_tx_buf_pool (fold mipos_console_put_char s c) = rs232_tx_buf_pool c"
  "rs232_tx_msg_idx (fold mipos_console_put_char s c) = rs232_tx_msg_idx c"
  "end_line_char (fold mipos_console_put_char s c) = end_line_char c"
  "console_flags (fold mipos_console_put_char s c) = console_flags c"
  "con_kernel (fold mipos_console_put_char s c) = con_kernel c"
  by (induction s arbitrary: c) (simp_all add: put_char_out)

lemma send_bytes_out:
  "con_out (send_bytes m c) = con_out c @ tx_wire (end_line_char c) (console_flags c) (msg_text m)"
  by (simp add: send_bytes_def put_chars tx_wire_def msg_text_def)

lemma send_bytes_wf:
  "tx_wf e f (send_bytes m c) = tx_wf e f c" "tx_pending (send_bytes m c) = tx_pending c"
  by (simp_all add: send_bytes_def tx_wf_def tx_ring_def tx_pending_def put_chars)

lemma q_wake_context [simp]: "k_task_context (q_wake q k) = k_task_context k"
  by (simp add: q_wake_def mipos_t_notify_signal_def)

lemma console_send_accepts:
  assumes wf: "tx_wf e f c" and room: "unat (q_count (rs232_tx_queue c)) < 8" and ok: "send_ok (buf, len)"
  shows "\<exists>m c'. console_send_op (buf, len) c = Some (m, c') \<and> tx_wf e f c' \<and> con_out c' = con_out c \<and>
    tx_pending c' = tx_pending c @ [m]"
proof -
  let ?q = "rs232_tx_queue c" and ?idx = "rs232_tx_msg_idx c" and ?pool = "rs232_tx_buf_pool c"
  let ?len = "if unat len > RS232_TX_BUF_LEN then of_nat RS232_TX_BUF_LEN else len"
  let ?n = "unat ?len" and ?k = "unat (q_count ?q)"
  let ?m = "\<lparr>msg_buffer = take ?n buf @ drop ?n (msg_buffer (?pool ! unat ?idx)), msg_len = ?len\<rparr>"
  have q: "q_wf ?q" "q_limit ?q = 8" "length ?pool = 8" using wf by (simp_all add: tx_wf_def)
  obtain s where s: "q_list ?q = map (\<lambda>i. of_nat ((s + i) mod 8)) [0..<?k]" "unat ?idx = (s + ?k) mod 8"
    using wf by (auto simp: tx_wf_def tx_ring_def Let_def)
  have idx: "unat ?idx < 8" using s(2) by simp
  have n: "?n \<le> length buf" using ok by (auto simp: send_ok_def mip_simps)
  have "q_count ?q < q_limit ?q" using room q(2) by (simp add: word_less_nat_alt)
  then obtain q' where q': "mipos_q_send ?idx (?q, con_kernel c) = Some (q_count ?q + 1, q', q_wake ?q (con_kernel c))"
      "q_wf q'" "q_list q' = q_list ?q @ [?idx]" "q_limit q' = 8"
    using q_send_accepts [OF q(1), of ?idx "con_kernel c"] q(2) by auto
  have k': "unat (q_count q') = Suc ?k" using q'(3) q_list_length [of q'] q_list_length [of ?q] by simp
  let ?c = "c\<lparr>rs232_tx_buf_pool := ?pool[unat ?idx := ?m], rs232_tx_queue := q',
      con_kernel := q_wake ?q (con_kernel c), rs232_tx_msg_idx := (?idx + 1) mod 8\<rparr>"
  have idx': "unat ((?idx + 1) mod 8) = (s + Suc ?k) mod 8"
    using idx s(2) by (simp add: unat_mod unat_word_ariths) (simp add: mod_simps)
  have last: "?idx = of_nat ((s + ?k) mod 8)" unfolding s(2) [symmetric] by simp
  have ring: "tx_ring s ?c"
    unfolding tx_ring_def Let_def using q'(3) s(1) k' idx' last by simp
  have old: "?pool[unat ?idx := ?m] ! unat i = ?pool ! unat i" if "i \<in> set (q_list ?q)" for i
  proof -
    obtain x where "x < ?k" "unat i = (s + x) mod 8" using \<open>i \<in> _\<close> s(1) by (auto simp: unat_of_nat)
    then have "unat ?idx \<noteq> unat i" using room s(2) ring_distinct [of x ?k 8 s] by simp
    then show ?thesis by (rule nth_list_update_neq)
  qed
  have msg: "msg_text ?m = take ?n buf" using n by (simp add: msg_text_def)
  have "tx_pending ?c = tx_pending c @ [take ?n buf]"
    using old msg idx q(3) unfolding tx_pending_def by (simp add: q'(3))
  moreover have "tx_wf e f ?c" using wf q' q ring by (auto simp: tx_wf_def)
  moreover have "console_send_op (buf, len) c = Some (take ?n buf, ?c)"
    using room n idx q(3) q'(1) by (simp add: console_send_op_def mipos_console_send_def mipos_q_count_def mip_simps Let_def)
  ultimately show ?thesis by auto
qed

lemma console_send_queues:
  assumes "tx_wf e f c" "send_ok x"
  shows "\<exists>m c'. console_send_op x c = Some (m, c') \<and> tx_wf e f c' \<and> con_out c' = con_out c \<and>
    concat (map (tx_wire e f) (tx_pending c')) = concat (map (tx_wire e f) (tx_pending c)) @ tx_wire e f m"
proof (cases "unat (q_count (rs232_tx_queue c)) < 8")
  case True
  then show ?thesis using console_send_accepts [OF assms(1) True, of "fst x" "snd x"] assms(2) by fastforce
next
  case False
  then have "console_send_op x c = Some ([], c)"
    by (simp add: console_send_op_def mipos_console_send_def mipos_q_count_def mip_simps)
  then show ?thesis using assms(1) by (simp add: tx_wire_def)
qed

text \<open>Taking the first index off the queue.\<close>

lemma tx_take_first:
  assumes wf: "tx_wf e f c" and ne: "tx_pending c = m # ms" and q: "q = rs232_tx_queue c\<lparr>q_suspended_tid := t\<rparr>"
  shows "\<exists>i q'. q_take q = Some (1, Some i, q') \<and> unat i < 8 \<and> msg_text (rs232_tx_buf_pool c ! unat i) = m \<and>
    tx_wf e f (c\<lparr>rs232_tx_queue := q'\<rparr>) \<and> tx_pending (c\<lparr>rs232_tx_queue := q'\<rparr>) = ms"
proof -
  let ?n = "unat (q_count (rs232_tx_queue c))"
  have ql: "q_wf q" "q_list q = q_list (rs232_tx_queue c)" "q_limit q = 8"
    using wf q by (auto simp: tx_wf_def q_wf_def q_list_def)
  obtain s where s: "q_list (rs232_tx_queue c) = map (\<lambda>i. of_nat ((s + i) mod 8)) [0..<?n]"
      "unat (rs232_tx_msg_idx c) = (s + ?n) mod 8"
    using wf by (auto simp: tx_wf_def tx_ring_def Let_def)
  obtain i rest where i: "q_list (rs232_tx_queue c) = i # rest" "msg_text (rs232_tx_buf_pool c ! unat i) = m"
      "map (\<lambda>i. msg_text (rs232_tx_buf_pool c ! unat i)) rest = ms"
    using ne by (auto simp: tx_pending_def map_eq_Cons_conv)
  then obtain q' where q': "q_take q = Some (1, Some i, q')" "q_wf q'" "q_list q' = rest" "q_limit q' = 8"
    using q_take_first [OF ql(1), of i rest] ql by auto
  have n: "?n = Suc (unat (q_count q'))"
    using i(1) q'(3) q_list_length [of q'] q_list_length [of "rs232_tx_queue c"] by simp
  have up: "[0..<?n] = 0 # map Suc [0..<unat (q_count q')]" unfolding n by (simp add: upt_conv_Cons map_Suc_upt)
  have "i = of_nat (s mod 8)" "rest = map (\<lambda>i. of_nat ((Suc s + i) mod 8)) [0..<unat (q_count q')]"
    using i(1) s(1) unfolding up by (auto simp: comp_def)
  moreover from this have "unat i < 8" by (simp add: unat_of_nat)
  moreover have "tx_ring (Suc s) (c\<lparr>rs232_tx_queue := q'\<rparr>)"
    using calculation(2) q'(3) s(2) n by (simp add: tx_ring_def)
  ultimately show ?thesis
    using q' i wf by (intro exI [of _ i] exI [of _ q']) (auto simp: tx_wf_def tx_pending_def)
qed

lemma count_zero_pending: "tx_pending c = [] \<longleftrightarrow> q_count (rs232_tx_queue c) = 0"
  by (simp add: tx_pending_def q_list_def unat_eq_zero)

lemma sender_go_sends:
  assumes wf: "tx_wf e f c" and ne: "tx_pending c = m # ms"
  shows "\<exists>c'. sender_go pc sp c = Some c' \<and> tx_wf e f c' \<and> tx_pending c' = ms \<and> con_out c' = con_out c @ tx_wire e f m"
proof -
  let ?q = "rs232_tx_queue c\<lparr>q_suspended_tid := 0\<rparr>"
  obtain i q' where t: "q_take ?q = Some (1, Some i, q')" "unat i < 8" "msg_text (rs232_tx_buf_pool c ! unat i) = m"
      "tx_wf e f (c\<lparr>rs232_tx_queue := q'\<rparr>)" "tx_pending (c\<lparr>rs232_tx_queue := q'\<rparr>) = ms"
    using tx_take_first [OF wf ne refl] by blast
  let ?c = "send_bytes (rs232_tx_buf_pool c ! unat i) (c\<lparr>rs232_tx_queue := q'\<rparr>)"
  have len: "length (rs232_tx_buf_pool c) = 8" "end_line_char c = e" "console_flags c = f"
    using wf by (simp_all add: tx_wf_def)
  have "q_count (rs232_tx_queue c) \<noteq> 0" using ne count_zero_pending [of c] by simp
  then have "sender_go pc sp c = Some ?c"
    using t(1,2) len(1)
    by (auto simp: sender_go_def sender_turn_def sender_resume_def sender_item_def mipos_q_receive_def
        q_receive_resume_def mipos_q_count_def q_same_tid)
  then show ?thesis using t(3,4,5) len by (auto simp: send_bytes_wf send_bytes_out)
qed

lemma tx_wf_kernel:
  "k_task_context k \<noteq> None \<Longrightarrow> tx_wf e f c \<Longrightarrow>
   tx_wf e f (c\<lparr>rs232_tx_queue := rs232_tx_queue c\<lparr>q_suspended_tid := t\<rparr>, con_kernel := k\<rparr>)"
  by (auto simp: tx_wf_def tx_ring_def q_wf_def q_list_def)

lemma tx_pending_kernel [simp]:
  "tx_pending (c\<lparr>rs232_tx_queue := rs232_tx_queue c\<lparr>q_suspended_tid := t\<rparr>, con_kernel := k\<rparr>) = tx_pending c"
  by (simp add: tx_pending_def q_list_def)

lemma sender_go_idle:
  assumes wf: "tx_wf e f c" and empty: "tx_pending c = []"
  shows "\<exists>c'. sender_go pc sp c = Some c' \<and> tx_wf e f c' \<and> tx_pending c' = [] \<and> con_out c' = con_out c"
proof -
  let ?q = "rs232_tx_queue c" and ?k = "con_kernel c"
  have zero: "q_count ?q = 0" using empty count_zero_pending by blast
  have "k_task_context ?k \<noteq> None" using wf by (simp add: tx_wf_def)
  then obtain k1 k2 where k: "t_suspend_enter pc sp MIPOS_SIGQUE ?k = Some k1" "mipos_tm_msleep pc sp 100 ?k = Some k2"
      "k_task_context k1 \<noteq> None" "k_task_context k2 \<noteq> None"
    by (auto simp: t_suspend_enter_def mipos_tm_msleep_def tm_rtc_quantum_sleep_enter_def on_context_def)
  let ?c = "c\<lparr>rs232_tx_queue := ?q\<lparr>q_suspended_tid := if q_suspended_tid ?q = 0 then k_current_task ?k else 0\<rparr>,
      con_kernel := if q_suspended_tid ?q = 0 then k1 else k2\<rparr>"
  have "sender_go pc sp c = Some ?c"
    using zero k(1,2)
    by (auto simp: sender_go_def sender_turn_def sender_resume_def sender_item_def mipos_q_receive_def
        q_receive_resume_def q_take_def mipos_q_count_def)
  moreover have "tx_wf e f ?c" by (rule tx_wf_kernel [OF _ wf]) (use k in simp)
  ultimately show ?thesis using empty by (intro exI [of _ ?c]) simp
qed

interpretation console_tx: transmit_channel "tx_wf e f" tx_pending con_out "tx_wire e f" send_ok console_send_op
    "sender_go pc sp" for e f pc sp
proof
  show "\<exists>m s'. console_send_op x s = Some (m, s') \<and> tx_wf e f s' \<and> con_out s' = con_out s \<and>
      concat (map (tx_wire e f) (tx_pending s')) = concat (map (tx_wire e f) (tx_pending s)) @ tx_wire e f m"
    if "tx_wf e f s" "send_ok x" for s x
    by (rule console_send_queues [OF that])
  show "\<exists>s'. sender_go pc sp s = Some s' \<and> tx_wf e f s' \<and> tx_pending s' = ms \<and> con_out s' = con_out s @ tx_wire e f m"
    if "tx_wf e f s" "tx_pending s = m # ms" for s m ms
    by (rule sender_go_sends [OF that])
  show "\<exists>s'. sender_go pc sp s = Some s' \<and> tx_wf e f s' \<and> tx_pending s' = [] \<and> con_out s' = con_out s"
    if "tx_wf e f s" "tx_pending s = []" for s
    by (rule sender_go_idle [OF that])
qed

lemma pending_at_most_8: "tx_wf e f c \<Longrightarrow> length (tx_pending c) \<le> 8"
  by (auto simp: tx_wf_def tx_pending_def q_wf_def word_le_nat_alt)

text \<open>
  C22. The transmit ring loses and reorders nothing: in every interleaving of sends and passes of the sender task no
  call faults, no buffer is overwritten before it is sent, and eight further passes put on the line exactly what
  was there, what was pending and what the sends reported as accepted, in this order, each message up to its
  first 0 and with the end-of-line character translated.
\<close>

theorem console_tx_in_order:
  assumes wf: "tx_wf e f c" and ok: "\<forall>x. Some x \<in> set ops \<longrightarrow> send_ok x"
  shows "\<exists>ms c' c''. chan_run console_send_op (sender_go pc sp) ops c = Some (ms, c') \<and> tx_wf e f c' \<and>
    chan_run console_send_op (sender_go pc sp) (replicate RS232_TX_QUEUE_LEN None) c' = Some ([], c'') \<and>
    con_out c'' = con_out c @ concat (map (tx_wire e f) (tx_pending c)) @ concat (map (tx_wire e f) ms)"
proof -
  obtain ms c' where c': "chan_run console_send_op (sender_go pc sp) ops c = Some (ms, c')" "tx_wf e f c'"
      "con_out c' @ concat (map (tx_wire e f) (tx_pending c')) =
         con_out c @ concat (map (tx_wire e f) (tx_pending c)) @ concat (map (tx_wire e f) ms)"
    using console_tx.in_order [OF wf ok, of pc sp] by blast
  with console_tx.drains [OF c'(2), of 8 pc sp] pending_at_most_8 [OF c'(2)] show ?thesis
    by (auto simp: RS232_TX_QUEUE_LEN_def)
qed

subsection \<open>A console at work\<close>

definition demo_board :: board where
  "demo_board = \<lparr>fmt_p = (\<lambda>a. fmt_hex False 1 (unat a)), wait_pc = 1, wait_sp = 4096, others = Some,
     user_cmd = (\<lambda>n argv c. Some c), recv_cbk = None\<rparr>"

definition demo_console :: console where
  "demo_console = \<lparr>end_line_char = 13, console_flags = 3, console_prompt = None,
     rs232_tx_queue = \<lparr>q_suspended_tid = 0, q_head = 0, q_tail = 0, q_item = replicate 8 0, q_limit = 8, q_count = 0\<rparr>,
     rs232_tx_buf_pool = replicate 8 \<lparr>msg_buffer = replicate 80 0, msg_len = 0\<rparr>, rs232_tx_msg_idx = 0,
     rs232_rx_buf = replicate 32 0, rs232_rx_buf_idx = 0, registered_cmd_list = None,
     con_kernel = zero_kernel\<lparr>k_task_context := Some 1, k_current_task := 1\<rparr>, con_out = [], con_mem = (\<lambda>a. None)\<rparr>"

lemma line_at_app: "\<forall>ch\<in>set w. ch \<noteq> 0 \<Longrightarrow> line_at 0 (length w) (w @ 0 # z)"
  by (auto simp: line_at_def nth_append)

theorem split_stays_in_bounds_witness:
  "line_at 0 8 (ascii ''freeze 3'' @ 0 # replicate 23 0) \<and>
   (\<exists>argv buf'. mipos_split_command (ascii ''freeze 3'' @ 0 # replicate 23 0) 8 CONSOLE_MAX_ARGS_COUNT = Some (argv, buf') \<and>
     length argv \<le> CONSOLE_MAX_ARGS_COUNT \<and> length buf' = 32)"
proof -
  have l: "line_at 0 8 (ascii ''freeze 3'' @ 0 # replicate 23 0)"
    using line_at_app [of "ascii ''freeze 3''" "replicate 23 0"] by (simp add: ascii_def) (simp add: eval_nat_numeral)
  have "length (ascii ''freeze 3'' @ 0 # replicate 23 0) = 32" by (simp add: ascii_def)
  with l split_stays_in_bounds [OF l] show ?thesis by (auto simp: RS232_RX_BUF_LEN_def)
qed

theorem recvr_edits_line_witness:
  "\<exists>c'. recvr_task demo_board (map Some [112, 120, 8, 115]) demo_console = Some c' \<and> rx_text c' = ascii ''ps''"
proof -
  have "fold edit_key [112, 120, 8, 115] [] = ascii ''ps''" by (simp add: edit_key_def ascii_def mip_simps)
  with recvr_edits_line [of demo_console "[112, 120, 8, 115]" demo_board] show ?thesis
    by (auto simp: demo_console_def mip_simps)
qed

theorem signal_command_lost_witness:
  "\<exists>c'. recvr_exec demo_board (demo_console\<lparr>rs232_rx_buf := ascii ''signal 3 16'' @ 0 # replicate 20 0,
        rs232_rx_buf_idx := 11\<rparr>) = Some c' \<and>
     con_kernel c' = con_kernel demo_console \<and> con_out c' = [13] @ ascii ''Missing second parameter'' @ [13]"
proof -
  let ?c = "demo_console\<lparr>rs232_rx_buf := ascii ''signal 3 16'' @ 0 # replicate 20 0, rs232_rx_buf_idx := 11\<rparr>"
  have "word (ascii ''3'')" "word (ascii ''16'')" by (simp_all add: word_def ascii_def word_sep_def)
  moreover have "rs232_rx_buf ?c = ascii ''signal'' @ 32 # ascii ''3'' @ 32 # ascii ''16'' @ 0 # replicate 20 0"
    by (simp add: ascii_def)
  moreover have "c_atoi (ascii ''3'' @ 32 # ascii ''16'') = Some 3"
    by (simp add: c_atoi_def ascii_def is_space_def sign_of_def dec_digit_def)
  ultimately show ?thesis
    using signal_command_lost [of "ascii ''3''" "ascii ''16''" ?c "replicate 20 0" 3 demo_board]
    by (simp add: ascii_def demo_board_def demo_console_def mip_simps)
qed

lemma demo_tx_wf: "tx_wf 13 3 demo_console"
  by (auto simp: tx_wf_def tx_ring_def demo_console_def q_wf_def q_list_def intro: exI [of _ 0])

theorem console_tx_in_order_witness:
  "\<exists>ms c' c''. chan_run console_send_op (sender_go 1 4096) [Some (ascii ''hi'', 2), None, Some (ascii ''you'', 3)] demo_console
       = Some (ms, c') \<and>
     chan_run console_send_op (sender_go 1 4096) (replicate RS232_TX_QUEUE_LEN None) c' = Some ([], c'') \<and>
     con_out c'' = concat (map (tx_wire 13 3) ms)"
proof -
  have "con_out demo_console = []" "tx_pending demo_console = []"
    by (simp_all add: demo_console_def tx_pending_def q_list_def)
  moreover have "\<forall>x. Some x \<in> set [Some (ascii ''hi'', 2), None, Some (ascii ''you'', 3)] \<longrightarrow> send_ok x"
    by (auto simp: send_ok_def ascii_def mip_simps)
  ultimately show ?thesis using console_tx_in_order [OF demo_tx_wf, of _ 1 4096] by (metis append_Nil concat.simps(1) list.map(1))
qed

end
