(* ===== verification/Spec2Isabelle.thy ===== *)
theory Spec2Isabelle
  imports Mipos_Round_Robin Mipos_Timer_Scan Mipos_Task_Props Mipos_Queue Mipos_Mutex Mipos_Mpool Mipos_Heap
    Mipos_Stdio Mipos_Fat_Sync Mipos_Fat_Mount_Props Mipos_Console_Props
begin

text \<open>
  A verification library for mipOS, a cooperative operating system for small targets, with the file systems
  that come with it.

  \<^bold>\<open>The program.\<close> The kernel (\<^verbatim>\<open>mipos/mipos_kernel.c\<close>, \<^verbatim>\<open>mipos_task.c\<close>, \<^verbatim>\<open>mipos_timer.c\<close>) runs tasks in turn from a
  table of eight; a task gives the processor back by a blocking macro or by returning. Queues, mutexes, the
  block pool and the heap are libraries over it; the console (\<^verbatim>\<open>mipos_console.c\<close>) is a pair of tasks with a command
  interpreter. A disk is reached through a table of drivers (\<^verbatim>\<open>mipos_diskio.c\<close>);
  two file systems stand on it: the tiny file system (\<^verbatim>\<open>mipos_tfs.c\<close>, with the streams of \<^verbatim>\<open>mipos_stdio.c\<close>) and
  FatFs (\<^verbatim>\<open>fatfs/ff.c\<close>, through \<^verbatim>\<open>fatfs/diskio.c\<close>).

  \<^bold>\<open>Conventions.\<close> Integers are words of their width and wrap. An operation is a function from a state record to
  \<open>option\<close>: \<open>None\<close> is a fault or a loop that does not return, so a theorem that ends in \<open>Some\<close> also says that
  the code returns. Loops without a bound in the code are \<^theory_text>\<open>partial_function\<close>s, without fuel. The one bounded walk is
  the predicate \<open>search_safe\<close>, which checks 16 slots: the search of the scheduler provably ends within them.
  Code that belongs to the application (task bodies, timer handlers, drivers) is a parameter.

  \<^bold>\<open>Kernel.\<close> \<open>Mipos_Types\<close> has the limits, states and signals of \<^verbatim>\<open>mipos_limits.h\<close>, \<^verbatim>\<open>mipos_types.h\<close> and
  \<^verbatim>\<open>mipos_kernel.h\<close>; \<open>Mipos_Task\<close> and \<open>Mipos_Timer\<close> the calls; \<open>Mipos_Kernel\<close> the scheduler loop of \<^verbatim>\<open>mipos_start\<close>.
  \<open>Mipos_Kernel_Inv\<close> shows that a turn keeps \<open>kernel_wf\<close> and returns. \<open>Mipos_Machine\<close> is the step relation of the whole
  machine, interrupts included, with its invariant: no reachable state panics. Both hold for turns in which each deferred
  call that a real-time routine asks for names a task that exists, is not real-time and is suspended or already woken
  (\<open>turn_safe\<close>); \<open>Mipos_Task_Props\<close> has turns that fault or hang without it. \<open>Mipos_Round_Robin\<close> shows that the search
  for the next task is a round robin with bounded waiting, \<open>Mipos_Blocking\<close> what signals, sleeping and freezing
  do, \<open>Mipos_Timer_Scan\<close> what a pass over the timers does, \<open>Mipos_Task_Props\<close> creation and deletion.

  \<^bold>\<open>Libraries.\<close> \<open>Mipos_Queue\<close>: the ring buffer refines a bounded FIFO. \<open>Mipos_Mutex\<close>: mutual exclusion as an invariant
  of a step relation. \<open>Mipos_Memory\<close> is byte-addressed memory, and \<open>Mipos_Mpool\<close> the block pool on it (the blocks are
  partitioned). \<open>Mipos_Malloc\<close> is the heap. Its descriptors are a map from addresses and its data bytes another one; that
  the bytes of the descriptors lie in the arena, apart from each other and from the blocks in use, and that no call
  writes a byte of a block in use, is part of what is shown. \<open>Mipos_Malloc_Lists\<close>, \<open>Mipos_Malloc_Inv\<close>, \<open>Mipos_Malloc_Ops\<close>: the
  lists tile the arena. \<open>Mipos_Heap\<close>: the contract of an allocator, and that every run of calls refines it.

  \<^bold>\<open>Tiny file system.\<close> \<open>Mipos_Tfs_Types\<close> and \<open>Mipos_Tfs\<close> are the data and the calls; \<open>Mipos_Tfs_Safe\<close> and \<open>Mipos_Tfs_Calls\<close>
  total-correctness triples for all of them; \<open>Mipos_Tfs_Contents\<close>, \<open>Mipos_Tfs_Append\<close>, \<open>Mipos_Tfs_Write\<close> what the files
  hold; \<open>Mipos_Tfs_Props\<close> the properties. \<open>Mipos_Stdio\<close> has the streams. The driver is a pair of functions on the state
  of a device; an access outside its storage is a fault, and the RAM disk of \<^verbatim>\<open>examples/simu/filesystem/main.c\<close> has
  the bound of its array. The calls are shown safe when each is legal in the state in which it is made (\<open>tfs_legal\<close>),
  because renaming, mounting and reading the label can fault otherwise.

  \<^bold>\<open>Console.\<close> \<open>Mipos_Console\<close> has the receiver and the sender task, the splitter of command lines and the built-in
  commands. \<open>Mipos_Console_Props\<close> shows that the transmit ring delivers messages in order (the locale
  \<open>transmit_channel\<close>), that the receiver is a line editor, that splitting stays inside its arrays, and that the
  commands with two arguments do not get the second.

  \<^bold>\<open>Disks.\<close> \<open>Mipos_Diskio\<close> has the driver table, the glue of FatFs and the RAM disk of \<^verbatim>\<open>examples/simu/fatfs/main.c\<close>;
  \<open>Mipos_Hostdisk\<close> the disk of the emulated ARM board over semihosting; \<open>Mipos_Disk_Props\<close> the locale \<open>sector_device\<close>
  and \<open>Mipos_Blocks\<close> its extension \<open>block_device\<close>, a disk as an array of sectors under reads and writes of several
  sectors; both are interpreted on the RAM disk and proved of the disk of the board.

  \<^bold>\<open>FatFs, the code.\<close> All in the configuration of \<^verbatim>\<open>ffconf.h\<close> (one volume, 512-byte sectors, 8.3 names, code page
  932, no clock). \<open>Mipos_Fat\<close> has the window, the allocation table and the chains, \<open>Mipos_Fat_Dir\<close> directories, names
  and paths, \<open>Mipos_Fat_Mount\<close> drive numbers, boot sectors and the geometry, \<open>Mipos_Fat_File\<close> the calls on open files,
  \<open>Mipos_Fat_Api\<close> the calls on paths.

  \<^bold>\<open>FatFs, what is shown.\<close> \<open>Mipos_Fat_Window\<close>: the window is a write-back cache. \<open>Mipos_Fat_Table\<close> and
  \<open>Mipos_Fat_Access\<close>: the table is a function from clusters to entries for FAT12, FAT16 and FAT32 alike.
  \<open>Mipos_Fat_Chain\<close> and \<open>Mipos_Fat_Props\<close>: chains are extended and released exactly. \<open>Mipos_Fat_Stays\<close> and
  \<open>Mipos_Fat_Contents\<close> say what the calls keep and define the contents of a file through its chain, the device and
  the cached sector; \<open>Mipos_Fat_Read\<close>, \<open>Mipos_Fat_Write\<close>, \<open>Mipos_Fat_Grow\<close> and \<open>Mipos_Fat_Seek\<close> are total correctness
  of reading, overwriting, growing and seeking in these terms, and \<open>Mipos_Fat_File_Props\<close> has the properties with
  a volume on which they hold. \<open>Mipos_Fat_Geometry\<close> and \<open>Mipos_Fat_Mount_Props\<close>: what mounting accepts, and that the
  volume is then in order if the device fulfils what the code does not check (its size, the size of the tables, the
  starts of the partitions, equal copies of the table). \<open>Mipos_Fat_Sync\<close>: what \<^verbatim>\<open>f_sync\<close> makes durable.
  Directories, \<^verbatim>\<open>f_truncate\<close> and the calls on paths are modelled without theorems.

  \<^bold>\<open>Not modelled.\<close> Assembly and the board support packages (context switch, start-up, UART, SysTick) and the STM8
  peripheral library only read and write device registers, whose behaviour is not in the sources;
  \<^verbatim>\<open>fatfs/ffunicode.c\<close> and \<^verbatim>\<open>fatfs/ffsystem.c\<close> are compiled out by the configuration (no long names, no re-entrancy);
  the network port only calls lwIP, which is not part of the sources; the examples and tests are applications of
  the libraries above.
\<close>

end
